(* ===== verification/Rust_Prelude.thy ===== *)
theory Rust_Prelude
  imports Main "HOL-Library.Word" "HOL-Library.AList" "HOL-Library.Monad_Syntax"
    "HOL-Library.Sublist"
begin

text \<open>
  The prelude of the development: how the Rust values the crates share are represented,
  with the operations of the Rust standard library the code uses on them and the lemmas
  every component needs.

  \<^item> A Rust \<open>str\<close> is its UTF-8 byte sequence, a HOL \<open>string\<close>; a Rust \<open>char\<close> is the byte
    sequence of one scalar value. \<open>chars\<close> cuts a string into its scalar values, and
    \<open>concat\<close> puts it back together, so a slice between two cursors is a concatenation.
  \<^item> \<open>u32\<close> and \<open>u16\<close> values are words; \<open>i64\<close> values are integers kept in range by
    the parser that makes them.
  \<^item> A hash map is an association list without duplicate keys, updated by
    \<open>AList.update\<close>; where the code iterates over one, the order is a parameter.
  \<^item> The two Unicode tables the code calls (\<open>char::is_alphanumeric\<close> beyond ASCII and
    \<open>str::to_lowercase\<close>) and the third-party hasher are fields of \<open>rust_env\<close>.
\<close>

named_theorems cursor_simps
named_theorems frame_simps

section \<open>Strings and characters\<close>

type_synonym rstr = string
type_synonym rchar = string
type_synonym u32 = "32 word"
type_synonym u16 = "16 word"
type_synonym u64 = "64 word"

abbreviation (input) ch_nl :: rchar where "ch_nl \<equiv> [CHR 0x0A]"
abbreviation (input) ch_cr :: rchar where "ch_cr \<equiv> [CHR 0x0D]"
abbreviation (input) ch_quote :: rchar where "ch_quote \<equiv> [CHR 0x22]"
abbreviation (input) ch_backslash :: rchar where "ch_backslash \<equiv> [CHR 0x5C]"

abbreviation byte_val :: "char \<Rightarrow> nat" where
  "byte_val b \<equiv> of_char b"

definition is_cont :: "char \<Rightarrow> bool" where
  "is_cont b \<longleftrightarrow> 128 \<le> byte_val b \<and> byte_val b < 192"

text \<open>\<open>str::chars\<close>: a lead byte takes the continuation bytes that follow it.\<close>

function chars :: "rstr \<Rightarrow> rchar list" where
  "chars [] = []"
| "chars (b # bs) = (b # takeWhile is_cont bs) # chars (dropWhile is_cont bs)"
  by pat_completeness auto
termination
  by (relation "measure length") (auto simp: le_imp_less_Suc length_dropWhile_le)

lemma concat_chars [simp]: "concat (chars s) = s"
  by (induction s rule: chars.induct) auto

lemma chars_eq_Nil [simp]: "chars s = [] \<longleftrightarrow> s = []"
  by (cases s) auto

lemma chars_nonempty: "c \<in> set (chars s) \<Longrightarrow> c \<noteq> []"
  by (induction s rule: chars.induct) auto

lemma length_chars_le: "length (chars s) \<le> length s"
proof (induction s rule: chars.induct)
  case (2 b bs)
  then show ?case
    using length_dropWhile_le [of is_cont bs] by simp
qed simp

definition is_ascii_byte :: "char \<Rightarrow> bool" where
  "is_ascii_byte b \<longleftrightarrow> byte_val b < 128"

definition is_ascii :: "rstr \<Rightarrow> bool" where
  "is_ascii s \<longleftrightarrow> list_all is_ascii_byte s"

lemma ascii_not_cont: "is_ascii_byte b \<Longrightarrow> \<not> is_cont b"
  by (simp add: is_ascii_byte_def is_cont_def)

lemma chars_ascii: "is_ascii s \<Longrightarrow> chars s = map (\<lambda>b. [b]) s"
proof (induction s rule: chars.induct)
  case (2 b bs)
  have "\<not> is_cont x" if "x \<in> set bs" for x
    using 2(2) that by (auto simp: is_ascii_def list_all_iff ascii_not_cont)
  then have "takeWhile is_cont bs = []" "dropWhile is_cont bs = bs"
    by (cases bs; simp)+
  with 2 show ?case by (simp add: is_ascii_def)
qed simp

lemma chars_append:
  assumes "t = [] \<or> \<not> is_cont (hd t)"
  shows "chars (s @ t) = chars s @ chars t"
  using assms
proof (induction s rule: chars.induct)
  case (2 b bs)
  have "dropWhile is_cont t = t" "takeWhile is_cont t = []"
    using 2(2) by (cases t; simp)+
  then have drop: "dropWhile is_cont (bs @ t) = dropWhile is_cont bs @ t"
    and take: "takeWhile is_cont (bs @ t) = takeWhile is_cont bs"
    by (induction bs) auto
  show ?case using 2 by (simp add: drop take)
qed simp

definition is_upper_byte :: "char \<Rightarrow> bool" where
  "is_upper_byte b \<longleftrightarrow> 65 \<le> byte_val b \<and> byte_val b \<le> 90"

definition is_lower_byte :: "char \<Rightarrow> bool" where
  "is_lower_byte b \<longleftrightarrow> 97 \<le> byte_val b \<and> byte_val b \<le> 122"

definition is_digit_byte :: "char \<Rightarrow> bool" where
  "is_digit_byte b \<longleftrightarrow> 48 \<le> byte_val b \<and> byte_val b \<le> 57"

definition is_alnum_byte :: "char \<Rightarrow> bool" where
  "is_alnum_byte b \<longleftrightarrow> is_upper_byte b \<or> is_lower_byte b \<or> is_digit_byte b"

text \<open>\<open>u8::to_ascii_lowercase\<close> and its lift to strings.\<close>

definition lower_byte :: "char \<Rightarrow> char" where
  "lower_byte b = (if is_upper_byte b then char_of (byte_val b + 32) else b)"

definition to_ascii_lowercase :: "rstr \<Rightarrow> rstr" where
  "to_ascii_lowercase s = map lower_byte s"

definition eq_ignore_ascii_case :: "rstr \<Rightarrow> rstr \<Rightarrow> bool" where
  "eq_ignore_ascii_case s t \<longleftrightarrow> to_ascii_lowercase s = to_ascii_lowercase t"

lemma byte_val_lower_byte:
  "byte_val (lower_byte b) = (if is_upper_byte b then byte_val b + 32 else byte_val b)"
  by (simp add: lower_byte_def is_upper_byte_def of_char_of)

lemma lower_byte_not_upper [simp]: "\<not> is_upper_byte (lower_byte b)"
  using byte_val_lower_byte [of b] by (auto simp: is_upper_byte_def split: if_splits)

lemma lower_byte_idem [simp]: "lower_byte (lower_byte b) = lower_byte b"
  using lower_byte_not_upper [of b] by (subst lower_byte_def) (simp only: if_False)

lemma lower_byte_id: "\<not> is_upper_byte b \<Longrightarrow> lower_byte b = b"
  by (simp add: lower_byte_def)

lemma to_ascii_lowercase_idem [simp]:
  "to_ascii_lowercase (to_ascii_lowercase s) = to_ascii_lowercase s"
  by (simp add: to_ascii_lowercase_def)

lemma to_ascii_lowercase_Nil [simp]: "to_ascii_lowercase [] = []"
  by (simp add: to_ascii_lowercase_def)

lemma to_ascii_lowercase_eq_Nil [simp]: "to_ascii_lowercase s = [] \<longleftrightarrow> s = []"
  by (simp add: to_ascii_lowercase_def)

lemma length_to_ascii_lowercase [simp]: "length (to_ascii_lowercase s) = length s"
  by (simp add: to_ascii_lowercase_def)

lemma to_ascii_lowercase_no_upper: "\<not> list_ex is_upper_byte s \<Longrightarrow> to_ascii_lowercase s = s"
  by (auto simp: to_ascii_lowercase_def list_ex_iff lower_byte_id intro: map_idI)

lemma lowercase_has_no_upper [simp]: "\<not> list_ex is_upper_byte (to_ascii_lowercase s)"
  by (simp add: to_ascii_lowercase_def list_ex_iff)

lemma is_ascii_to_ascii_lowercase [simp]: "is_ascii (to_ascii_lowercase s) = is_ascii s"
proof -
  have "is_ascii_byte (lower_byte b) = is_ascii_byte b" for b
    using byte_val_lower_byte [of b] by (auto simp: is_ascii_byte_def is_upper_byte_def)
  then show ?thesis by (simp add: is_ascii_def to_ascii_lowercase_def list_all_iff)
qed

text \<open>The characters with the Unicode property White\_Space, as \<open>char::is_whitespace\<close> has it.\<close>

definition whitespace_chars :: "rchar list" where
  "whitespace_chars =
    [[CHR 0x20], [CHR 0x0A], [CHR 0x09], [CHR 0x0D], [CHR 0x0B], [CHR 0x0C],
     [CHR 0xC2, CHR 0x85], [CHR 0xC2, CHR 0xA0], [CHR 0xE1, CHR 0x9A, CHR 0x80],
     [CHR 0xE2, CHR 0x80, CHR 0x80], [CHR 0xE2, CHR 0x80, CHR 0x81],
     [CHR 0xE2, CHR 0x80, CHR 0x82], [CHR 0xE2, CHR 0x80, CHR 0x83],
     [CHR 0xE2, CHR 0x80, CHR 0x84], [CHR 0xE2, CHR 0x80, CHR 0x85],
     [CHR 0xE2, CHR 0x80, CHR 0x86], [CHR 0xE2, CHR 0x80, CHR 0x87],
     [CHR 0xE2, CHR 0x80, CHR 0x88], [CHR 0xE2, CHR 0x80, CHR 0x89],
     [CHR 0xE2, CHR 0x80, CHR 0x8A], [CHR 0xE2, CHR 0x80, CHR 0xA8],
     [CHR 0xE2, CHR 0x80, CHR 0xA9], [CHR 0xE2, CHR 0x80, CHR 0xAF],
     [CHR 0xE2, CHR 0x81, CHR 0x9F], [CHR 0xE3, CHR 0x80, CHR 0x80]]"

definition is_whitespace :: "rchar \<Rightarrow> bool" where
  "is_whitespace c \<longleftrightarrow> c \<in> set whitespace_chars"

definition is_ascii_char :: "rchar \<Rightarrow> bool" where
  "is_ascii_char c \<longleftrightarrow> (case c of [b] \<Rightarrow> is_ascii_byte b | _ \<Rightarrow> False)"

definition is_ascii_digit :: "rchar \<Rightarrow> bool" where
  "is_ascii_digit c \<longleftrightarrow> (case c of [b] \<Rightarrow> is_digit_byte b | _ \<Rightarrow> False)"

definition is_ascii_alnum :: "rchar \<Rightarrow> bool" where
  "is_ascii_alnum c \<longleftrightarrow> (case c of [b] \<Rightarrow> is_alnum_byte b | _ \<Rightarrow> False)"

text \<open>
  What the model takes from outside the repository: the Unicode alphanumeric table beyond
  ASCII, \<open>str::to_lowercase\<close>, and the stream hash of \<open>rustc_hash::FxHasher\<close>.
\<close>

record rust_env =
  env_alnum :: "rchar \<Rightarrow> bool"
  env_lower :: "rstr \<Rightarrow> rstr"
  env_hash :: "rstr \<Rightarrow> u64"

definition is_alphanumeric :: "rust_env \<Rightarrow> rchar \<Rightarrow> bool" where
  "is_alphanumeric E c \<longleftrightarrow> (if is_ascii_char c then is_ascii_alnum c else env_alnum E c)"

text \<open>An environment for concrete runs: no letters beyond ASCII.\<close>

definition ascii_env :: rust_env where
  "ascii_env = \<lparr>env_alnum = (\<lambda>c. False), env_lower = to_ascii_lowercase,
     env_hash = (\<lambda>s. of_nat (sum_list (map byte_val s)) * 2305843009213693951)\<rparr>"

section \<open>String operations\<close>

definition starts_with :: "rstr \<Rightarrow> rstr \<Rightarrow> bool" where
  "starts_with s p \<longleftrightarrow> take (length p) s = p"

definition ends_with :: "rstr \<Rightarrow> rstr \<Rightarrow> bool" where
  "ends_with s p \<longleftrightarrow> length p \<le> length s \<and> drop (length s - length p) s = p"

lemma starts_with_iff_prefix: "starts_with s p \<longleftrightarrow> prefix p s"
  unfolding starts_with_def prefix_def by (metis append_eq_conv_conj append_take_drop_id)

lemma ends_with_iff_suffix: "ends_with s p \<longleftrightarrow> suffix p s"
proof
  assume "ends_with s p"
  then show "suffix p s"
    unfolding ends_with_def suffix_def by (metis append_take_drop_id)
next
  assume "suffix p s"
  then obtain zs where "s = zs @ p" by (auto simp: suffix_def)
  then show "ends_with s p" by (simp add: ends_with_def)
qed

text \<open>\<open>str::split\<close> on one ASCII byte: always at least one piece.\<close>

fun split_byte :: "char \<Rightarrow> rstr \<Rightarrow> rstr list" where
  "split_byte d [] = [[]]"
| "split_byte d (b # bs) =
     (if b = d then [] # split_byte d bs
      else case split_byte d bs of [] \<Rightarrow> [[b]] | p # ps \<Rightarrow> (b # p) # ps)"

lemma split_byte_neq_Nil [simp]: "split_byte d s \<noteq> []"
  by (cases s) (auto split: list.splits)

lemma split_byte_no_delim: "d \<notin> set s \<Longrightarrow> split_byte d s = [s]"
  by (induction s) auto

lemma split_byte_pieces: "p \<in> set (split_byte d s) \<Longrightarrow> d \<notin> set p"
  by (induction s arbitrary: p) (auto split: if_splits list.splits)

lemma split_byte_append:
  "d \<notin> set s \<Longrightarrow> split_byte d (s @ d # t) = s # split_byte d t"
  by (induction s) auto

text \<open>\<open>str::trim\<close>, on whole characters.\<close>

definition trim_start :: "rstr \<Rightarrow> rstr" where
  "trim_start s = concat (dropWhile is_whitespace (chars s))"

definition trim_end :: "rstr \<Rightarrow> rstr" where
  "trim_end s = concat (rev (dropWhile is_whitespace (rev (chars s))))"

definition trim :: "rstr \<Rightarrow> rstr" where
  "trim s = trim_end (trim_start s)"

text \<open>Decimal output (\<open>format!("{}", n)\<close>) and input (\<open>str::parse\<close>).\<close>

fun show_nat :: "nat \<Rightarrow> rstr" where
  "show_nat n = (if n < 10 then [char_of (48 + n)] else show_nat (n div 10) @ [char_of (48 + n mod 10)])"

declare show_nat.simps [simp del]

definition digits_val :: "rstr \<Rightarrow> nat" where
  "digits_val ds = foldl (\<lambda>n d. 10 * n + (byte_val d - 48)) 0 ds"

lemma digits_val_snoc [simp]: "digits_val (ds @ [d]) = 10 * digits_val ds + (byte_val d - 48)"
  by (simp add: digits_val_def)

lemma show_nat_digits: "list_all is_digit_byte (show_nat n)"
proof (induction n rule: show_nat.induct)
  case (1 n)
  have digit: "is_digit_byte (char_of (48 + k))" if "k < 10" for k :: nat
    using that by (simp add: is_digit_byte_def of_char_of)
  show ?case
    using 1 digit by (subst show_nat.simps) auto
qed

lemma show_nat_neq_Nil [simp]: "show_nat n \<noteq> []"
  by (subst show_nat.simps) simp

lemma digits_val_show_nat [simp]: "digits_val (show_nat n) = n"
proof (induction n rule: show_nat.induct)
  case (1 n)
  show ?case
  proof (cases "n < 10")
    case True
    then show ?thesis by (subst show_nat.simps) (simp add: digits_val_def of_char_of)
  next
    case False
    with 1 have "digits_val (show_nat (n div 10)) = n div 10" by simp
    with False show ?thesis
      by (subst show_nat.simps) (simp add: of_char_of)
  qed
qed

text \<open>\<open>parse::<u32>\<close>: an optional plus sign, one digit or more, no overflow.\<close>

definition parse_u32 :: "rstr \<Rightarrow> u32 option" where
  "parse_u32 s =
     (let ds = (case s of b # bs \<Rightarrow> if b = CHR ''+'' then bs else s | [] \<Rightarrow> s)
      in if ds \<noteq> [] \<and> list_all is_digit_byte ds \<and> int (digits_val ds) < 4294967296
         then Some (of_nat (digits_val ds)) else None)"

text \<open>\<open>parse::<i64>\<close>: an optional sign, one digit or more, within the range of \<open>i64\<close>.\<close>

definition parse_i64 :: "rstr \<Rightarrow> int option" where
  "parse_i64 s =
     (let (neg, ds) = (case s of b # bs \<Rightarrow>
             if b = CHR ''-'' then (True, bs)
             else if b = CHR ''+'' then (False, bs) else (False, s)
           | [] \<Rightarrow> (False, s));
          v = (if neg then - int (digits_val ds) else int (digits_val ds))
      in if ds \<noteq> [] \<and> list_all is_digit_byte ds \<and> - 9223372036854775808 \<le> v \<and> v < 9223372036854775808
         then Some v else None)"

lemma parse_i64_range: "parse_i64 s = Some v \<Longrightarrow> - 9223372036854775808 \<le> v \<and> v < 9223372036854775808"
  by (auto simp: parse_i64_def Let_def split: prod.splits if_splits)

section \<open>Machine integers\<close>

definition sat_add_u16 :: "u16 \<Rightarrow> u16 \<Rightarrow> u16" where
  "sat_add_u16 a b = (let c = a + b in if c < a then 65535 else c)"

definition sat_add_u32 :: "u32 \<Rightarrow> u32 \<Rightarrow> u32" where
  "sat_add_u32 a b = (let c = a + b in if c < a then 4294967295 else c)"

definition sat_sub_u32 :: "u32 \<Rightarrow> u32 \<Rightarrow> u32" where
  "sat_sub_u32 a b = (if a < b then 0 else a - b)"

lemma word_add_overflow_iff:
  fixes a b :: "'a::len word"
  shows "a + b < a \<longleftrightarrow> 2 ^ LENGTH('a) \<le> unat a + unat b"
proof (cases "2 ^ LENGTH('a) \<le> unat a + unat b")
  case True
  have "unat b < 2 ^ LENGTH('a)" "unat a < 2 ^ LENGTH('a)" by (rule unsigned_less)+
  with True have "unat a + unat b - 2 ^ LENGTH('a) < unat a" by linarith
  moreover have "unat (a + b) \<le> unat a + unat b - 2 ^ LENGTH('a)"
    using True by (simp add: unat_word_ariths le_mod_geq)
  ultimately have "unat (a + b) < unat a" by linarith
  with True show ?thesis by (simp add: word_less_nat_alt)
next
  case False
  then have "unat (a + b) = unat a + unat b" by (simp add: unat_word_ariths)
  with False show ?thesis by (simp add: word_less_nat_alt)
qed

lemma unat_sat_add_u16: "unat (sat_add_u16 a b) = min (unat a + unat b) 65535"
  using word_add_overflow_iff [of a b] unat_word_ariths(1) [of a b]
  by (auto simp: sat_add_u16_def Let_def)

lemma unat_sat_add_u32: "unat (sat_add_u32 a b) = min (unat a + unat b) 4294967295"
  using word_add_overflow_iff [of a b] unat_word_ariths(1) [of a b]
  by (auto simp: sat_add_u32_def Let_def)

lemma unat_sat_sub_u32: "unat (sat_sub_u32 a b) = unat a - unat b"
  by (auto simp: sat_sub_u32_def unat_sub_if' word_less_nat_alt not_less)

lemma sat_add_u16_mono: "a \<le> sat_add_u16 a b"
proof -
  have "unat a < 65536" using unsigned_less [of a] by simp
  then show ?thesis by (simp add: word_le_nat_alt unat_sat_add_u16)
qed

lemma unat_of_nat_u32: "n < 2 ^ 32 \<Longrightarrow> unat (of_nat n :: u32) = n"
  by (subst unsigned_of_nat) (simp add: take_bit_nat_eq_self)

section \<open>Association lists as hash maps\<close>

text \<open>\<open>entry(k).or_insert(v)\<close> keeps the value a key already has.\<close>

definition or_insert :: "'k \<Rightarrow> 'v \<Rightarrow> ('k \<times> 'v) list \<Rightarrow> ('k \<times> 'v) list" where
  "or_insert k v m = (case map_of m k of None \<Rightarrow> AList.update k v m | Some w \<Rightarrow> m)"

lemma map_of_update [simp]: "map_of (AList.update k v m) = (map_of m)(k \<mapsto> v)"
  by (rule update_conv')

lemma map_of_or_insert:
  "map_of (or_insert k v m) = (if map_of m k = None then (map_of m)(k \<mapsto> v) else map_of m)"
  by (auto simp: or_insert_def split: option.splits)

lemma distinct_or_insert: "distinct (map fst m) \<Longrightarrow> distinct (map fst (or_insert k v m))"
  by (auto simp: or_insert_def distinct_update split: option.splits)

lemma foldl_invariant:
  "I a \<Longrightarrow> (\<And>a x. x \<in> set xs \<Longrightarrow> I a \<Longrightarrow> I (f a x)) \<Longrightarrow> I (foldl f a xs)"
  by (induction xs arbitrary: a) auto

lemma map_of_mem_Some:
  assumes "distinct (map fst m)"
  shows "map_of m k = Some v \<longleftrightarrow> (k, v) \<in> set m"
  using assms by (simp add: map_of_eq_Some_iff)

end
