(* ===== verification/String_Table.thy ===== *)
theory String_Table
  imports Rust_Prelude
begin

unbundle bit_operations_syntax

text \<open>
  The string interner (\<open>crates/string_table/src/string_table.rs\<close>): 64 shards, each with
  its two key maps and its slot array; a \<open>StringId\<close> packs the shard number into the top
  six bits and the slot index into the rest. \<open>intern\<close> is the probe under the read lock
  followed by \<open>intern_locked\<close> under the write lock. The last part interleaves those two
  steps over any number of threads.
\<close>

section \<open>Data\<close>

type_synonym StringId = u32

record StringTokens =
  tok_lower :: StringId
  tok_normal :: StringId

definition SHARD_BITS :: nat where "SHARD_BITS = 6"
definition SHARD_COUNT :: nat where "SHARD_COUNT = 64"
definition SLOT_BITS :: nat where "SLOT_BITS = 26"
definition SLOT_MASK :: u32 where "SLOT_MASK = push_bit SLOT_BITS 1 - 1"

definition EMPTY_TOKENS :: StringTokens where
  "EMPTY_TOKENS = \<lparr>tok_lower = 0, tok_normal = 0\<rparr>"

record Shard =
  lower_map :: "(rstr \<times> StringTokens) list"
  exact_map :: "(rstr \<times> StringTokens) list"
  id_to_string :: "rstr list"

type_synonym StringTable = "Shard list"

definition shard_new :: Shard where
  "shard_new = \<lparr>lower_map = [], exact_map = [], id_to_string = [[]]\<rparr>"

definition table_new :: StringTable where
  "table_new = replicate SHARD_COUNT shard_new"

section \<open>Operations\<close>

definition split_id :: "StringId \<Rightarrow> nat \<times> nat" where
  "split_id i = (unat (drop_bit SLOT_BITS i), unat (i AND SLOT_MASK))"

definition make_id :: "nat \<Rightarrow> u32 \<Rightarrow> StringId" where
  "make_id sh slot = push_bit SLOT_BITS (of_nat sh) OR slot"

text \<open>Both arms of \<open>shard_of\<close> feed the hasher the case-folded bytes.\<close>

definition folded_bytes :: "rust_env \<Rightarrow> rstr \<Rightarrow> rstr" where
  "folded_bytes E s = (if is_ascii s then map lower_byte s else env_lower E s)"

definition shard_of :: "rust_env \<Rightarrow> rstr \<Rightarrow> nat" where
  "shard_of E s = unat (drop_bit (64 - SHARD_BITS) (env_hash E (folded_bytes E s)))"

text \<open>\<open>push\<close> keeps the release build's behaviour: the slot is truncated to 32 bits and
  or-ed below the shard number, with no check that it fits.\<close>

definition push :: "nat \<Rightarrow> rstr \<Rightarrow> Shard \<Rightarrow> StringId \<times> Shard" where
  "push sh text s =
     (make_id sh (of_nat (length (id_to_string s))),
      s\<lparr>id_to_string := id_to_string s @ [text]\<rparr>)"

definition intern_locked :: "rust_env \<Rightarrow> nat \<Rightarrow> rstr \<Rightarrow> Shard \<Rightarrow> StringTokens \<times> Shard" where
  "intern_locked E idx s shard =
     (case map_of (exact_map shard) s of
        Some existing \<Rightarrow> (existing, shard)
      | None \<Rightarrow>
          (let lower_key = env_lower E s;
               (normal_id, shard1) = push idx s shard
           in case map_of (lower_map shard1) lower_key of
                Some existing_lower \<Rightarrow>
                  (let token = \<lparr>tok_lower = tok_lower existing_lower, tok_normal = normal_id\<rparr>
                   in (token, shard1\<lparr>exact_map := AList.update s token (exact_map shard1)\<rparr>))
              | None \<Rightarrow>
                  (let (lower_id, shard2) = push idx lower_key shard1;
                       lower_token = \<lparr>tok_lower = lower_id, tok_normal = lower_id\<rparr>;
                       normal_token = \<lparr>tok_lower = lower_id, tok_normal = normal_id\<rparr>
                   in (normal_token,
                       shard2\<lparr>lower_map := AList.update lower_key lower_token (lower_map shard2),
                         exact_map := AList.update s normal_token (exact_map shard2)\<rparr>))))"

definition intern_write :: "rust_env \<Rightarrow> rstr \<Rightarrow> StringTable \<Rightarrow> StringTokens \<times> StringTable" where
  "intern_write E s t =
     (let idx = shard_of E s; (tok, shard) = intern_locked E idx s (t ! idx)
      in (tok, t[idx := shard]))"

definition intern :: "rust_env \<Rightarrow> rstr \<Rightarrow> StringTable \<Rightarrow> StringTokens \<times> StringTable" where
  "intern E s t =
     (if s = [] then (EMPTY_TOKENS, t)
      else case map_of (exact_map (t ! shard_of E s)) s of
             Some existing \<Rightarrow> (existing, t)
           | None \<Rightarrow> intern_write E s t)"

definition intern_cold :: "rust_env \<Rightarrow> rstr \<Rightarrow> StringTable \<Rightarrow> StringTokens \<times> StringTable" where
  "intern_cold E s t = (if s = [] then (EMPTY_TOKENS, t) else intern_write E s t)"

fun intern_batch :: "rust_env \<Rightarrow> rstr list \<Rightarrow> StringTable \<Rightarrow> StringTokens list \<times> StringTable" where
  "intern_batch E [] t = ([], t)"
| "intern_batch E (s # ss) t =
     (let (tok, t1) = intern_cold E s t; (toks, t2) = intern_batch E ss t1
      in (tok # toks, t2))"

definition get_string :: "StringTable \<Rightarrow> StringId \<Rightarrow> rstr option" where
  "get_string t i =
     (let (idx, slot) = split_id i; texts = id_to_string (t ! idx)
      in if slot < length texts then Some (texts ! slot) else None)"

definition with_string :: "StringTable \<Rightarrow> StringId \<Rightarrow> (rstr \<Rightarrow> 'r) \<Rightarrow> 'r option" where
  "with_string t i f = map_option f (get_string t i)"

definition table_len :: "StringTable \<Rightarrow> nat" where
  "table_len t = sum_list (map (\<lambda>s. length (lower_map s)) t)"

definition table_is_empty :: "StringTable \<Rightarrow> bool" where
  "table_is_empty t \<longleftrightarrow> table_len t = 0"

record StringTableStats =
  entries :: nat
  id_to_string_bytes :: nat
  map_key_bytes :: nat

definition shard_stats :: "Shard \<Rightarrow> StringTableStats \<Rightarrow> StringTableStats" where
  "shard_stats s out =
     \<lparr>entries = entries out + length (id_to_string s),
      id_to_string_bytes = id_to_string_bytes out + sum_list (map length (id_to_string s)),
      map_key_bytes = map_key_bytes out
        + sum_list (map length (map fst (lower_map s) @ map fst (exact_map s)))\<rparr>"

definition stats :: "StringTable \<Rightarrow> StringTableStats" where
  "stats t = fold shard_stats t \<lparr>entries = 0, id_to_string_bytes = 0, map_key_bytes = 0\<rparr>"

definition total_bytes :: "StringTableStats \<Rightarrow> nat" where
  "total_bytes st = id_to_string_bytes st + map_key_bytes st"

section \<open>Packing of ids\<close>

lemma SLOT_MASK_eq: "SLOT_MASK = mask 26"
  by (simp add: SLOT_MASK_def SLOT_BITS_def mask_eq_decr_exp push_bit_eq_mult)

lemma make_id_eq:
  assumes "sh < 64" "slot < 2 ^ 26"
  shows "make_id sh (of_nat slot) = of_nat (sh * 2 ^ 26 + slot)"
proof -
  have "push_bit 26 (of_nat sh :: u32) AND of_nat slot = 0"
  proof (rule bit_word_eqI)
    fix n assume "n < LENGTH(32)"
    have "n < 26" if "bit (of_nat slot :: u32) n"
    proof -
      have "bit slot n" using that by transfer (simp add: bit_take_bit_iff bit_of_nat_iff_bit)
      then have "bit (take_bit 26 slot) n" using assms(2) by (simp add: take_bit_nat_eq_self)
      then show ?thesis by (simp add: bit_take_bit_iff)
    qed
    then show "bit (push_bit 26 (of_nat sh :: u32) AND of_nat slot) n = bit (0 :: u32) n"
      by (auto simp: bit_and_iff bit_push_bit_iff)
  qed
  then have "make_id sh (of_nat slot) = push_bit 26 (of_nat sh) + of_nat slot"
    by (simp add: make_id_def SLOT_BITS_def disjunctive_add_eq_or)
  then show ?thesis by (simp add: push_bit_eq_mult mult.commute)
qed

lemma split_make_id:
  assumes "sh < 64" "slot < 2 ^ 26"
  shows "split_id (make_id sh (of_nat slot)) = (sh, slot)"
proof -
  let ?n = "sh * 2 ^ 26 + slot"
  have "?n < 2 ^ 32" using assms by simp
  then have u: "unat (make_id sh (of_nat slot)) = ?n"
    unfolding make_id_eq [OF assms] by (rule unat_of_nat_u32)
  have "unat (drop_bit 26 (make_id sh (of_nat slot))) = drop_bit 26 ?n"
    unfolding u [symmetric] by (rule unat_drop_bit_eq)
  moreover have "unat (make_id sh (of_nat slot) AND mask 26) = take_bit 26 ?n"
    unfolding u [symmetric] take_bit_eq_mask [symmetric] by (rule unsigned_take_bit_eq)
  ultimately show ?thesis
    using assms by (simp add: split_id_def SLOT_BITS_def SLOT_MASK_eq drop_bit_eq_div take_bit_eq_mod)
qed

lemma shard_of_less: "shard_of E s < 64"
proof -
  have "unat (drop_bit 58 h) < 64" for h :: u64
  proof -
    have "unat (drop_bit 58 h) = drop_bit 58 (unat h)" by (rule unat_drop_bit_eq)
    moreover have "drop_bit 58 (unat h) < 64"
      using unsigned_less [of h, where 'a = nat] by (simp add: less_mult_imp_div_less drop_bit_eq_div)
    ultimately show ?thesis by (simp only:)
  qed
  then show ?thesis by (simp add: shard_of_def SHARD_BITS_def)
qed

section \<open>Invariant\<close>

text \<open>\<open>env_lower_ok\<close> is the documented behaviour of \<open>str::to_lowercase\<close> on ASCII text;
  with it both arms of \<open>shard_of\<close> hash the lower-cased string.\<close>

definition env_lower_ok :: "rust_env \<Rightarrow> bool" where
  "env_lower_ok E \<longleftrightarrow> (\<forall>s. is_ascii s \<longrightarrow> env_lower E s = to_ascii_lowercase s)"

lemma env_lower_ok_ascii_env [simp]: "env_lower_ok ascii_env"
  by (simp add: env_lower_ok_def ascii_env_def)

lemma env_lower_Nil [simp]: "env_lower_ok E \<Longrightarrow> env_lower E [] = []"
  by (simp add: env_lower_ok_def is_ascii_def)

lemma folded_bytes_eq: "env_lower_ok E \<Longrightarrow> folded_bytes E s = env_lower E s"
  by (simp add: folded_bytes_def env_lower_ok_def to_ascii_lowercase_def)

lemma shard_of_fold:
  "env_lower_ok E \<Longrightarrow> env_lower E s = env_lower E s' \<Longrightarrow> shard_of E s = shard_of E s'"
  by (simp add: shard_of_def folded_bytes_eq)

definition id_holds :: "nat \<Rightarrow> Shard \<Rightarrow> StringId \<Rightarrow> rstr \<Rightarrow> bool" where
  "id_holds idx sh i x \<longleftrightarrow>
     (\<exists>slot < length (id_to_string sh). i = make_id idx (of_nat slot) \<and> id_to_string sh ! slot = x)"

definition exact_entry_ok :: "rust_env \<Rightarrow> nat \<Rightarrow> Shard \<Rightarrow> rstr \<Rightarrow> StringTokens \<Rightarrow> bool" where
  "exact_entry_ok E idx sh k tok \<longleftrightarrow> k \<noteq> [] \<and> shard_of E k = idx \<and> id_holds idx sh (tok_normal tok) k
     \<and> map_option tok_lower (map_of (lower_map sh) (env_lower E k)) = Some (tok_lower tok)"

definition lower_entry_ok :: "rust_env \<Rightarrow> nat \<Rightarrow> Shard \<Rightarrow> rstr \<Rightarrow> StringTokens \<Rightarrow> bool" where
  "lower_entry_ok E idx sh k tok \<longleftrightarrow> tok_normal tok = tok_lower tok \<and> id_holds idx sh (tok_lower tok) k
     \<and> (\<exists>x. map_of (exact_map sh) x \<noteq> None \<and> env_lower E x = k)"

definition shard_inv :: "rust_env \<Rightarrow> nat \<Rightarrow> Shard \<Rightarrow> bool" where
  "shard_inv E idx sh \<longleftrightarrow>
     distinct (map fst (lower_map sh)) \<and> distinct (map fst (exact_map sh))
     \<and> id_to_string sh \<noteq> [] \<and> hd (id_to_string sh) = []
     \<and> (\<forall>k tok. map_of (exact_map sh) k = Some tok \<longrightarrow> exact_entry_ok E idx sh k tok)
     \<and> (\<forall>k tok. map_of (lower_map sh) k = Some tok \<longrightarrow> lower_entry_ok E idx sh k tok)"

definition table_inv :: "rust_env \<Rightarrow> StringTable \<Rightarrow> bool" where
  "table_inv E t \<longleftrightarrow> length t = 64 \<and> (\<forall>idx < 64. shard_inv E idx (t ! idx))"

text \<open>The capacity the debug assertion of \<open>push\<close> states: every slot is below \<open>SLOT_MASK\<close>.\<close>

definition table_fits :: "StringTable \<Rightarrow> bool" where
  "table_fits t \<longleftrightarrow> (\<forall>sh \<in> set t. of_nat (length (id_to_string sh)) \<le> (67108863 :: int))"

text \<open>What a call of \<open>intern\<close> leaves behind for \<open>s\<close>.\<close>

definition interned :: "rust_env \<Rightarrow> StringTable \<Rightarrow> rstr \<Rightarrow> StringTokens \<Rightarrow> bool" where
  "interned E t s tok \<longleftrightarrow>
     (if s = [] then tok = EMPTY_TOKENS
      else map_of (exact_map (t ! shard_of E s)) s = Some tok)"

definition shard_extends :: "Shard \<Rightarrow> Shard \<Rightarrow> bool" where
  "shard_extends a b \<longleftrightarrow> prefix (id_to_string a) (id_to_string b)
     \<and> map_of (exact_map a) \<subseteq>\<^sub>m map_of (exact_map b)
     \<and> map_of (lower_map a) \<subseteq>\<^sub>m map_of (lower_map b)"

definition table_extends :: "StringTable \<Rightarrow> StringTable \<Rightarrow> bool" where
  "table_extends t t' \<longleftrightarrow> length t = length t' \<and> (\<forall>idx < length t. shard_extends (t ! idx) (t' ! idx))"

lemma shard_extends_refl [simp]: "shard_extends a a"
  by (simp add: shard_extends_def)

lemma shard_extends_trans: "shard_extends a b \<Longrightarrow> shard_extends b c \<Longrightarrow> shard_extends a c"
  by (auto simp: shard_extends_def intro: prefix_order.trans map_le_trans)

lemma table_extends_refl [simp]: "table_extends t t"
  by (simp add: table_extends_def)

lemma table_extends_trans: "table_extends a b \<Longrightarrow> table_extends b c \<Longrightarrow> table_extends a c"
  unfolding table_extends_def by (metis shard_extends_trans)

lemma id_holds_mono: "id_holds idx a i x \<Longrightarrow> prefix (id_to_string a) (id_to_string b) \<Longrightarrow> id_holds idx b i x"
  unfolding id_holds_def prefix_def by (metis nth_append length_append trans_less_add1)

lemma id_holds_push:
  "id_holds idx (sh\<lparr>id_to_string := id_to_string sh @ [x]\<rparr>) (make_id idx (of_nat (length (id_to_string sh)))) x"
  unfolding id_holds_def by (rule exI [of _ "length (id_to_string sh)"]) simp

lemma map_le_upd: "f k = None \<Longrightarrow> f \<subseteq>\<^sub>m f(k \<mapsto> v)"
  by (auto simp: map_le_def)

section \<open>Interning in one shard\<close>

lemma intern_locked_cases:
  obtains (hit) tok where "map_of (exact_map sh) s = Some tok" "intern_locked E idx s sh = (tok, sh)"
  | (casing) lt tok where "map_of (exact_map sh) s = None" "map_of (lower_map sh) (env_lower E s) = Some lt"
      "tok = \<lparr>tok_lower = tok_lower lt, tok_normal = make_id idx (of_nat (length (id_to_string sh)))\<rparr>"
      "intern_locked E idx s sh = (tok, sh\<lparr>id_to_string := id_to_string sh @ [s],
         exact_map := AList.update s tok (exact_map sh)\<rparr>)"
  | (fresh) ni li ltok tok where "map_of (exact_map sh) s = None" "map_of (lower_map sh) (env_lower E s) = None"
      "ni = make_id idx (of_nat (length (id_to_string sh)))"
      "li = make_id idx (of_nat (Suc (length (id_to_string sh))))"
      "ltok = \<lparr>tok_lower = li, tok_normal = li\<rparr>" "tok = \<lparr>tok_lower = li, tok_normal = ni\<rparr>"
      "intern_locked E idx s sh = (tok, sh\<lparr>id_to_string := id_to_string sh @ [s, env_lower E s],
         lower_map := AList.update (env_lower E s) ltok (lower_map sh),
         exact_map := AList.update s tok (exact_map sh)\<rparr>)"
proof (cases "map_of (exact_map sh) s")
  case None
  show ?thesis
  proof (cases "map_of (lower_map sh) (env_lower E s)")
    case lower_none: None
    show ?thesis
      by (rule fresh [OF None lower_none refl refl refl refl])
        (simp add: intern_locked_def push_def None lower_none Let_def)
  next
    case (Some lt)
    show ?thesis
      by (rule casing [OF None Some refl]) (simp add: intern_locked_def push_def None Some Let_def)
  qed
next
  case (Some tok)
  show ?thesis by (rule hit [OF Some]) (simp add: intern_locked_def Some)
qed

lemma intern_locked_exact:
  "map_of (exact_map (snd (intern_locked E idx s sh))) =
     (map_of (exact_map sh))(s \<mapsto> fst (intern_locked E idx s sh))"
  by (cases E idx s sh rule: intern_locked_cases) (auto simp: fun_upd_idem)

lemma intern_locked_extends: "shard_extends sh (snd (intern_locked E idx s sh))"
  by (cases E idx s sh rule: intern_locked_cases) (auto simp: shard_extends_def map_le_upd)

lemma lower_entry_mono:
  assumes "lower_entry_ok E idx a k tok" "shard_extends a b"
  shows "lower_entry_ok E idx b k tok"
proof -
  have "map_of (exact_map b) x \<noteq> None" if "map_of (exact_map a) x \<noteq> None" for x
    using assms(2) that by (auto simp: shard_extends_def map_le_def dom_def)
  moreover have "id_holds idx b i x" if "id_holds idx a i x" for i x
    using that assms(2) by (auto simp: shard_extends_def intro: id_holds_mono)
  ultimately show ?thesis using assms(1) unfolding lower_entry_ok_def by blast
qed

lemma exact_entry_mono:
  assumes "exact_entry_ok E idx a k tok" "shard_extends a b"
  shows "exact_entry_ok E idx b k tok"
proof -
  obtain lt where lt: "map_of (lower_map a) (env_lower E k) = Some lt" "tok_lower lt = tok_lower tok"
    using assms(1) by (auto simp: exact_entry_ok_def)
  have "map_of (lower_map b) (env_lower E k) = Some lt"
    using lt(1) assms(2) by (force simp: shard_extends_def map_le_def dom_def)
  moreover have "id_holds idx b (tok_normal tok) k"
    using assms by (auto simp: shard_extends_def exact_entry_ok_def intro: id_holds_mono)
  ultimately show ?thesis using assms(1) lt(2) by (simp add: exact_entry_ok_def)
qed

lemma intern_locked_new_exact:
  assumes "shard_inv E idx sh" "s \<noteq> []" "shard_of E s = idx"
  shows "exact_entry_ok E idx (snd (intern_locked E idx s sh)) s (fst (intern_locked E idx s sh))"
proof (cases E idx s sh rule: intern_locked_cases)
  case (hit tok)
  with assms show ?thesis by (auto simp: shard_inv_def)
next
  case (casing lt tok)
  have "id_holds idx (snd (intern_locked E idx s sh)) (tok_normal tok) s"
    using casing(3,4) unfolding id_holds_def
    by (intro exI [of _ "length (id_to_string sh)"]) simp
  with casing assms show ?thesis by (simp add: exact_entry_ok_def)
next
  case (fresh ni li ltok tok)
  have "id_holds idx (snd (intern_locked E idx s sh)) (tok_normal tok) s"
    using fresh(3,6,7) unfolding id_holds_def
    by (intro exI [of _ "length (id_to_string sh)"]) simp
  with fresh assms show ?thesis by (simp add: exact_entry_ok_def)
qed

lemma intern_locked_new_lower:
  assumes "shard_inv E idx sh"
    and "map_of (lower_map (snd (intern_locked E idx s sh))) k = Some ltok"
  shows "lower_entry_ok E idx (snd (intern_locked E idx s sh)) k ltok"
proof (cases "map_of (lower_map sh) k = Some ltok")
  case True
  with assms(1) have "lower_entry_ok E idx sh k ltok" by (simp add: shard_inv_def)
  then show ?thesis by (rule lower_entry_mono [OF _ intern_locked_extends])
next
  case False
  show ?thesis
  proof (cases E idx s sh rule: intern_locked_cases)
    case (fresh ni li lt tok)
    with False assms(2) have k: "k = env_lower E s" "ltok = lt" by (auto split: if_splits)
    have "id_holds idx (snd (intern_locked E idx s sh)) li k"
      using fresh(4,7) k unfolding id_holds_def
      by (intro exI [of _ "Suc (length (id_to_string sh))"]) (simp add: nth_append)
    moreover have "map_of (exact_map (snd (intern_locked E idx s sh))) s \<noteq> None"
      by (simp add: intern_locked_exact)
    ultimately show ?thesis using fresh(5) k by (auto simp: lower_entry_ok_def)
  qed (use False assms(2) in auto)
qed

lemma intern_locked_inv:
  assumes "shard_inv E idx sh" "s \<noteq> []" "shard_of E s = idx"
  shows "shard_inv E idx (snd (intern_locked E idx s sh))"
proof -
  let ?r = "intern_locked E idx s sh"
  have "distinct (map fst (lower_map (snd ?r)))" "distinct (map fst (exact_map (snd ?r)))"
    "id_to_string (snd ?r) \<noteq> []" "hd (id_to_string (snd ?r)) = []"
    using assms(1)
    by (cases E idx s sh rule: intern_locked_cases; simp add: shard_inv_def distinct_update)+
  moreover have "exact_entry_ok E idx (snd ?r) k tok" if "map_of (exact_map (snd ?r)) k = Some tok" for k tok
  proof (cases "k = s")
    case True
    with that intern_locked_new_exact [OF assms] show ?thesis by (simp add: intern_locked_exact)
  next
    case False
    with that assms(1) have "exact_entry_ok E idx sh k tok"
      by (simp add: intern_locked_exact shard_inv_def)
    then show ?thesis by (rule exact_entry_mono [OF _ intern_locked_extends])
  qed
  ultimately show ?thesis
    using intern_locked_new_lower [OF assms(1)] by (simp add: shard_inv_def)
qed

section \<open>The table: invariant, growth and what ids resolve to\<close>

text \<open>Every path of \<open>intern\<close> is \<open>intern_write\<close>: the probe only skips work it would redo.\<close>

lemma intern_locked_hit:
  "map_of (exact_map sh) s = Some tok \<Longrightarrow> intern_locked E idx s sh = (tok, sh)"
  by (simp add: intern_locked_def)

lemma intern_write_eq:
  "intern_write E s t = (fst (intern_locked E (shard_of E s) s (t ! shard_of E s)),
     t[shard_of E s := snd (intern_locked E (shard_of E s) s (t ! shard_of E s))])"
  by (simp add: intern_write_def Let_def split: prod.split)

lemma intern_eq_cold: "intern E s t = intern_cold E s t"
  by (auto simp: intern_def intern_cold_def intern_write_eq intern_locked_hit split: option.split)

lemma intern_nonempty: "s \<noteq> [] \<Longrightarrow> intern E s t = intern_write E s t"
  by (simp add: intern_eq_cold intern_cold_def)

lemma intern_empty [simp]: "intern E [] t = (EMPTY_TOKENS, t)"
  by (simp add: intern_def)

lemma list_update_pointwise:
  "(i < length t \<Longrightarrow> P i x) \<Longrightarrow> P j (t ! j) \<Longrightarrow> j < length t \<Longrightarrow> P j (t[i := x] ! j)"
  by (cases "i = j") auto

lemma table_new_inv [simp]: "table_inv E table_new"
  by (simp add: table_inv_def table_new_def SHARD_COUNT_def shard_inv_def shard_new_def)

lemma intern_inv:
  assumes "table_inv E t"
  shows "table_inv E (snd (intern E s t))"
proof (cases "s = []")
  case False
  have "shard_inv E (shard_of E s) (snd (intern_locked E (shard_of E s) s (t ! shard_of E s)))"
    using assms shard_of_less [of E s] False by (intro intern_locked_inv) (auto simp: table_inv_def)
  then show ?thesis
    using assms False
    by (auto simp: intern_nonempty intern_write_eq table_inv_def intro: list_update_pointwise)
qed (use assms in simp)

lemma intern_extends: "table_extends t (snd (intern E s t))"
proof (cases "s = []")
  case False
  then show ?thesis
    by (auto simp: intern_nonempty intern_write_eq table_extends_def intern_locked_extends
        intro!: list_update_pointwise [where P = "\<lambda>j. shard_extends (t ! j)"])
qed simp

lemma intern_interned:
  assumes "table_inv E t"
  shows "interned E (snd (intern E s t)) s (fst (intern E s t))"
  using assms shard_of_less [of E s]
  by (auto simp: interned_def intern_nonempty intern_write_eq table_inv_def intern_locked_exact)

lemma interned_extends:
  assumes "interned E t s tok" "table_extends t t'" "length t = 64"
  shows "interned E t' s tok"
proof (cases "s = []")
  case False
  have "map_of (exact_map (t ! shard_of E s)) \<subseteq>\<^sub>m map_of (exact_map (t' ! shard_of E s))"
    using assms(2,3) shard_of_less [of E s] by (simp add: table_extends_def shard_extends_def)
  with False assms(1) show ?thesis
    by (force simp: interned_def map_le_def dom_def)
qed (use assms in \<open>simp add: interned_def\<close>)

lemma interned_unique: "interned E t s a \<Longrightarrow> interned E t s b \<Longrightarrow> a = b"
  by (auto simp: interned_def split: if_splits)

lemma intern_again: "interned E t s tok \<Longrightarrow> intern E s t = (tok, t)"
  by (auto simp: interned_def intern_def split: if_splits)

lemma split_id_less: "fst (split_id i) < 64"
proof -
  have "unat (drop_bit 26 i) < 64" for i :: u32
  proof -
    have "unat (drop_bit 26 i) = drop_bit 26 (unat i)" by (rule unat_drop_bit_eq)
    moreover have "drop_bit 26 (unat i) < 64"
      using unsigned_less [of i, where 'a = nat] by (simp add: less_mult_imp_div_less drop_bit_eq_div)
    ultimately show ?thesis by (simp only:)
  qed
  then show ?thesis by (simp add: split_id_def SLOT_BITS_def)
qed

lemma get_string_extends:
  assumes "get_string t i = Some x" "table_extends t t'" "length t = 64"
  shows "get_string t' i = Some x"
proof -
  obtain idx slot where i: "split_id i = (idx, slot)" by force
  have "prefix (id_to_string (t ! idx)) (id_to_string (t' ! idx))"
    using assms(2,3) split_id_less [of i] i by (simp add: table_extends_def shard_extends_def)
  then obtain ys where "id_to_string (t' ! idx) = id_to_string (t ! idx) @ ys"
    by (auto simp: prefix_def)
  with assms(1) i show ?thesis
    by (auto simp: get_string_def nth_append split: if_splits)
qed

lemma get_string_held:
  assumes "id_holds idx (t ! idx) i x" "idx < 64" "table_inv E t" "table_fits t"
  shows "get_string t i = Some x"
proof -
  obtain slot where slot: "slot < length (id_to_string (t ! idx))" "i = make_id idx (of_nat slot)"
      "id_to_string (t ! idx) ! slot = x"
    using assms(1) by (auto simp: id_holds_def)
  have "t ! idx \<in> set t" using assms(2,3) by (simp add: table_inv_def)
  with assms(4) have "length (id_to_string (t ! idx)) \<le> 67108863"
    by (auto simp: table_fits_def)
  with slot(1) have "split_id i = (idx, slot)"
    using slot(2) assms(2) by (simp add: split_make_id)
  with slot show ?thesis by (simp add: get_string_def)
qed

lemma EMPTY_get_string: "table_inv E t \<Longrightarrow> get_string t 0 = Some []"
proof -
  assume "table_inv E t"
  then have "shard_inv E 0 (t ! 0)" by (simp add: table_inv_def)
  moreover have "split_id 0 = (0, 0)" by (simp add: split_id_def)
  ultimately show ?thesis
    by (cases "id_to_string (t ! 0)") (auto simp: get_string_def shard_inv_def)
qed

lemma interned_strings:
  assumes E: "env_lower_ok E" and t: "table_inv E t" "table_fits t" and i: "interned E t s tok"
  shows "get_string t (tok_normal tok) = Some s"
    and "get_string t (tok_lower tok) = Some (env_lower E s)"
proof -
  have "get_string t (tok_normal tok) = Some s \<and> get_string t (tok_lower tok) = Some (env_lower E s)"
  proof (cases "s = []")
    case True
    with i E t(1) show ?thesis by (simp add: interned_def EMPTY_TOKENS_def EMPTY_get_string)
  next
    case False
    let ?idx = "shard_of E s"
    have inv: "shard_inv E ?idx (t ! ?idx)" using t(1) shard_of_less by (simp add: table_inv_def)
    with i False have ok: "exact_entry_ok E ?idx (t ! ?idx) s tok"
      by (simp add: interned_def shard_inv_def)
    then obtain lt where lt: "map_of (lower_map (t ! ?idx)) (env_lower E s) = Some lt"
        "tok_lower lt = tok_lower tok"
      by (auto simp: exact_entry_ok_def)
    with inv have "id_holds ?idx (t ! ?idx) (tok_lower tok) (env_lower E s)"
      by (metis shard_inv_def lower_entry_ok_def)
    moreover have "id_holds ?idx (t ! ?idx) (tok_normal tok) s"
      using ok by (simp add: exact_entry_ok_def)
    ultimately show ?thesis using get_string_held [OF _ shard_of_less t] by blast
  qed
  then show "get_string t (tok_normal tok) = Some s"
    and "get_string t (tok_lower tok) = Some (env_lower E s)" by blast+
qed

lemma interned_lower_eq_iff:
  assumes E: "env_lower_ok E" and t: "table_inv E t" "table_fits t"
    and i: "interned E t s a" "interned E t s' b" "s \<noteq> []" "s' \<noteq> []"
  shows "tok_lower a = tok_lower b \<longleftrightarrow> env_lower E s = env_lower E s'"
proof
  assume "tok_lower a = tok_lower b"
  then show "env_lower E s = env_lower E s'"
    using interned_strings(2) [OF E t i(1)] interned_strings(2) [OF E t i(2)] by simp
next
  assume fold: "env_lower E s = env_lower E s'"
  let ?idx = "shard_of E s"
  have idx: "shard_of E s' = ?idx" using shard_of_fold [OF E fold] by simp
  have "shard_inv E ?idx (t ! ?idx)" using t(1) shard_of_less by (simp add: table_inv_def)
  with i idx have "exact_entry_ok E ?idx (t ! ?idx) s a" "exact_entry_ok E ?idx (t ! ?idx) s' b"
    by (auto simp: interned_def shard_inv_def)
  with fold show "tok_lower a = tok_lower b" by (auto simp: exact_entry_ok_def)
qed

section \<open>Batches, and the number of entries\<close>

lemma intern_batch_Cons:
  "intern_batch E (s # ss) t =
     (fst (intern E s t) # fst (intern_batch E ss (snd (intern E s t))),
      snd (intern_batch E ss (snd (intern E s t))))"
  by (simp add: intern_eq_cold split: prod.split)

declare intern_batch.simps(2) [simp del]
declare intern_batch_Cons [simp]

lemma intern_batch_inv: "table_inv E t \<Longrightarrow> table_inv E (snd (intern_batch E ss t))"
  by (induction ss arbitrary: t) (auto intro: intern_inv)

lemma intern_batch_extends: "table_extends t (snd (intern_batch E ss t))"
  by (induction ss arbitrary: t) (auto intro: intern_extends table_extends_trans)

lemma length_intern_batch [simp]: "length (fst (intern_batch E ss t)) = length ss"
  by (induction ss arbitrary: t) auto

lemma table_inv_length: "table_inv E t \<Longrightarrow> length t = 64"
  by (simp add: table_inv_def)

lemma intern_batch_interned:
  assumes "table_inv E t" "i < length ss"
  shows "interned E (snd (intern_batch E ss t)) (ss ! i) (fst (intern_batch E ss t) ! i)"
  using assms
proof (induction ss arbitrary: t i)
  case (Cons s ss)
  let ?t1 = "snd (intern E s t)"
  have t1: "table_inv E ?t1" using Cons.prems(1) by (rule intern_inv)
  show ?case
  proof (cases i)
    case 0
    have "interned E (snd (intern_batch E ss ?t1)) s (fst (intern E s t))"
      using intern_interned [OF Cons.prems(1)] intern_batch_extends table_inv_length [OF t1]
      by (rule interned_extends)
    then show ?thesis by (simp add: 0)
  next
    case (Suc j)
    with Cons.IH [OF t1, of j] Cons.prems(2) show ?thesis by simp
  qed
qed simp

lemma table_fits_extends:
  assumes "table_fits t'" "table_extends t t'"
  shows "table_fits t"
  unfolding table_fits_def
proof
  fix sh assume "sh \<in> set t"
  then obtain idx where idx: "idx < length t" "sh = t ! idx" by (auto simp: in_set_conv_nth)
  then have "length (id_to_string sh) \<le> length (id_to_string (t' ! idx))"
    using assms(2) by (auto simp: table_extends_def shard_extends_def dest: prefix_length_le)
  moreover have "int (length (id_to_string (t' ! idx))) \<le> 67108863"
    using assms idx by (auto simp: table_fits_def table_extends_def)
  ultimately show "int (length (id_to_string sh)) \<le> 67108863" by linarith
qed

text \<open>Interning the same strings again is a sequence of hits.\<close>

lemma intern_batch_again:
  assumes "length toks = length ss" "\<And>i. i < length ss \<Longrightarrow> interned E t (ss ! i) (toks ! i)"
  shows "intern_batch E ss t = (toks, t)"
  using assms
proof (induction ss arbitrary: toks)
  case (Cons s ss)
  then obtain tok toks' where toks: "toks = tok # toks'" by (cases toks) auto
  have "interned E t s tok" using Cons.prems(2) [of 0] toks by simp
  then have hit: "intern E s t = (tok, t)" by (rule intern_again)
  have "intern_batch E ss t = (toks', t)"
    using Cons.prems(1) Cons.prems(2) [of "Suc _"] toks by (intro Cons.IH) auto
  with hit toks show ?case by simp
qed simp

text \<open>The lower-case maps list exactly the folded forms seen.\<close>

definition folded_keys :: "StringTable \<Rightarrow> rstr set" where
  "folded_keys t = (\<Union>sh \<in> set t. fst ` set (lower_map sh))"

lemma shard_fold_key_home:
  assumes E: "env_lower_ok E" and t: "table_inv E t" and idx: "idx < 64" and k: "k \<in> fst ` set (lower_map (t ! idx))"
  shows "\<exists>s. s \<noteq> [] \<and> env_lower E s = k \<and> shard_of E s = idx \<and> map_of (exact_map (t ! idx)) s \<noteq> None"
proof -
  have inv: "shard_inv E idx (t ! idx)" using t idx by (simp add: table_inv_def)
  obtain tok where "map_of (lower_map (t ! idx)) k = Some tok"
    using k by (metis domIff dom_map_of_conv_image_fst option.exhaust)
  with inv have "lower_entry_ok E idx (t ! idx) k tok" by (simp add: shard_inv_def)
  then obtain x where x: "map_of (exact_map (t ! idx)) x \<noteq> None" "env_lower E x = k"
    by (auto simp: lower_entry_ok_def)
  obtain xt where "map_of (exact_map (t ! idx)) x = Some xt" using x(1) by blast
  with inv have "exact_entry_ok E idx (t ! idx) x xt" by (simp add: shard_inv_def)
  then have "x \<noteq> []" "shard_of E x = idx" by (auto simp: exact_entry_ok_def)
  with x show ?thesis by blast
qed

lemma folded_keys_nth:
  "folded_keys t = (\<Union>i \<in> {..<length t}. fst ` set (lower_map (t ! i)))"
proof -
  have "set t = (!) t ` {..<length t}" by (auto simp: in_set_conv_nth)
  then show ?thesis by (simp add: folded_keys_def)
qed

lemma table_len_nth: "table_len t = (\<Sum>i<length t. length (lower_map (t ! i)))"
  by (simp add: table_len_def sum_list_sum_nth lessThan_atLeast0)

lemma table_len_card:
  assumes E: "env_lower_ok E" and t: "table_inv E t"
  shows "table_len t = card (folded_keys t)"
proof -
  have len: "length t = 64" using t by (rule table_inv_length)
  have disj: "fst ` set (lower_map (t ! i)) \<inter> fst ` set (lower_map (t ! j)) = {}"
    if "i < 64" "j < 64" "i \<noteq> j" for i j
  proof (rule ccontr)
    note ij = that
    assume "\<not> ?thesis"
    then obtain k where "k \<in> fst ` set (lower_map (t ! i))" "k \<in> fst ` set (lower_map (t ! j))"
      by blast
    then obtain s s' where "env_lower E s = k" "shard_of E s = i" "env_lower E s' = k" "shard_of E s' = j"
      using shard_fold_key_home [OF E t ij(1)] shard_fold_key_home [OF E t ij(2)] by blast
    then show False using shard_of_fold [OF E, of s s'] ij(3) by simp
  qed
  have card: "length (lower_map (t ! i)) = card (fst ` set (lower_map (t ! i)))" if "i < 64" for i
  proof -
    have "distinct (map fst (lower_map (t ! i)))"
      using t that by (simp add: table_inv_def shard_inv_def)
    then have "card (set (map fst (lower_map (t ! i)))) = length (map fst (lower_map (t ! i)))"
      by (rule distinct_card)
    then show ?thesis by simp
  qed
  have keys: "folded_keys t = (\<Union>i \<in> {..<64}. fst ` set (lower_map (t ! i)))"
    unfolding folded_keys_nth len ..
  have "table_len t = (\<Sum>i<64. length (lower_map (t ! i)))"
    unfolding table_len_nth len ..
  also have "\<dots> = (\<Sum>i<64. card (fst ` set (lower_map (t ! i))))"
    by (rule sum.cong [OF refl]) (simp only: card lessThan_iff)
  also have "\<dots> = card (folded_keys t)"
    unfolding keys by (rule card_UN_disjoint [symmetric]) (use disj in auto)
  finally show ?thesis .
qed

lemma folded_keys_intern:
  assumes t: "table_inv E t" and s: "s \<noteq> []"
  shows "folded_keys (snd (intern E s t)) = insert (env_lower E s) (folded_keys t)"
proof -
  let ?i = "shard_of E s" and ?sh = "t ! shard_of E s"
  let ?sh' = "snd (intern_locked E ?i s ?sh)"
  have i: "?i < length t" using table_inv_length [OF t] shard_of_less [of E s] by simp
  have inv: "shard_inv E ?i ?sh" using t shard_of_less by (simp add: table_inv_def)
  have old: "env_lower E s \<in> fst ` set (lower_map ?sh)" if "map_of (exact_map ?sh) s = Some tok" for tok
  proof -
    from that inv have "exact_entry_ok E ?i ?sh s tok" by (simp add: shard_inv_def)
    then have "map_of (lower_map ?sh) (env_lower E s) \<noteq> None" by (auto simp: exact_entry_ok_def)
    then show ?thesis by (simp add: map_of_eq_None_iff)
  qed
  have new: "fst ` set (lower_map ?sh') = insert (env_lower E s) (fst ` set (lower_map ?sh))"
    using old
    by (cases E ?i s ?sh rule: intern_locked_cases)
      (auto simp: dom_update insert_absorb dest: map_of_SomeD intro: rev_image_eqI)
  have "set t = insert ?sh (set (take ?i t) \<union> set (drop (Suc ?i) t))"
    using arg_cong [OF id_take_nth_drop [OF i], of set] by simp
  moreover have "set (t[?i := ?sh']) = insert ?sh' (set (take ?i t) \<union> set (drop (Suc ?i) t))"
    using i by (simp add: upd_conv_take_nth_drop Un_commute insert_commute)
  ultimately show ?thesis
    using s by (auto simp: intern_nonempty intern_write_eq folded_keys_def new)
qed

lemma folded_keys_batch:
  assumes "table_inv E t"
  shows "folded_keys (snd (intern_batch E ss t)) = folded_keys t \<union> env_lower E ` (set ss - {[]})"
  using assms
proof (induction ss arbitrary: t)
  case (Cons s ss)
  show ?case
  proof (cases "s = []")
    case False
    then show ?thesis
      using Cons.IH [OF intern_inv [OF Cons.prems]] folded_keys_intern [OF Cons.prems False]
      by auto
  qed (use Cons in auto)
qed simp

lemma folded_keys_new [simp]: "folded_keys table_new = {}"
  by (simp add: folded_keys_def table_new_def shard_new_def)

section \<open>Concurrent interning\<close>

text \<open>
  Threads share one table. A call of \<open>intern\<close> is two critical sections: the probe of
  \<open>exact_map\<close> under the owning shard's read lock, and on a miss \<open>intern_locked\<close> under its
  write lock. Between the two any other thread may run.
\<close>

datatype intern_phase = Idle | Called rstr | Missed rstr | Finished rstr StringTokens

record interner_sys =
  sys_table :: StringTable
  sys_phase :: "nat \<Rightarrow> intern_phase"

definition interner_init :: interner_sys where
  "interner_init = \<lparr>sys_table = table_new, sys_phase = (\<lambda>i. Idle)\<rparr>"

definition set_phase :: "nat \<Rightarrow> intern_phase \<Rightarrow> interner_sys \<Rightarrow> interner_sys" where
  "set_phase i p c = c\<lparr>sys_phase := (sys_phase c)(i := p)\<rparr>"

inductive intern_step :: "rust_env \<Rightarrow> interner_sys \<Rightarrow> interner_sys \<Rightarrow> bool" for E where
  call_first: "sys_phase c i = Idle \<Longrightarrow> intern_step E c (set_phase i (Called s) c)"
| call_next: "sys_phase c i = Finished s' tok \<Longrightarrow> intern_step E c (set_phase i (Called s) c)"
| probe_empty: "sys_phase c i = Called [] \<Longrightarrow> intern_step E c (set_phase i (Finished [] EMPTY_TOKENS) c)"
| probe_hit: "sys_phase c i = Called s \<Longrightarrow> s \<noteq> [] \<Longrightarrow>
    map_of (exact_map (sys_table c ! shard_of E s)) s = Some tok \<Longrightarrow>
    intern_step E c (set_phase i (Finished s tok) c)"
| probe_miss: "sys_phase c i = Called s \<Longrightarrow> s \<noteq> [] \<Longrightarrow>
    map_of (exact_map (sys_table c ! shard_of E s)) s = None \<Longrightarrow>
    intern_step E c (set_phase i (Missed s) c)"
| write_locked: "sys_phase c i = Missed s \<Longrightarrow> intern_write E s (sys_table c) = (tok, t) \<Longrightarrow>
    intern_step E c ((set_phase i (Finished s tok) c)\<lparr>sys_table := t\<rparr>)"

inductive interner_reachable :: "rust_env \<Rightarrow> interner_sys \<Rightarrow> bool" for E where
  init: "interner_reachable E interner_init"
| step: "interner_reachable E c \<Longrightarrow> intern_step E c d \<Longrightarrow> interner_reachable E d"

inductive_cases intern_stepE [elim]: "intern_step E c d"

definition linearized :: "rust_env \<Rightarrow> interner_sys \<Rightarrow> rstr list \<Rightarrow> bool" where
  "linearized E c order \<longleftrightarrow> sys_table c = snd (intern_batch E order table_new)
     \<and> (\<forall>i s. sys_phase c i = Missed s \<longrightarrow> s \<noteq> [])
     \<and> (\<forall>i s tok. sys_phase c i = Finished s tok \<longrightarrow> s \<in> set order \<and> interned E (sys_table c) s tok)"

lemma intern_batch_snoc:
  "snd (intern_batch E (ss @ [s]) t) = snd (intern E s (snd (intern_batch E ss t)))"
  by (induction ss arbitrary: t) auto

lemma linearized_table:
  "linearized E c order \<Longrightarrow> table_inv E (sys_table c) \<and> length (sys_table c) = 64"
  using table_inv_length [OF intern_batch_inv [OF table_new_inv]]
  by (simp add: linearized_def intern_batch_inv)

lemma set_phase_same_table [simp]:
  "(set_phase i p c)\<lparr>sys_table := sys_table c\<rparr> = set_phase i p c"
  by (simp add: set_phase_def)

lemma linearized_finish:
  assumes lin: "linearized E c order" and r: "intern E s (sys_table c) = (tok, t)"
  shows "linearized E ((set_phase i (Finished s tok) c)\<lparr>sys_table := t\<rparr>) (order @ [s])"
proof -
  have t: "t = snd (intern_batch E (order @ [s]) table_new)"
    using lin r by (simp add: linearized_def intern_batch_snoc)
  have new: "interned E t s tok"
    using intern_interned [of E "sys_table c" s] linearized_table [OF lin] r by simp
  have ext: "table_extends (sys_table c) t" using intern_extends [of "sys_table c" E s] r by simp
  have old: "interned E t x a" if "interned E (sys_table c) x a" for x a
    using that ext linearized_table [OF lin] by (blast intro: interned_extends)
  show ?thesis
    using lin t new old by (auto simp: linearized_def set_phase_def)
qed

lemma linearized_move:
  assumes "linearized E c order" "\<And>s tok. p \<noteq> Finished s tok" "p \<noteq> Missed []"
  shows "linearized E (set_phase i p c) order"
  using assms by (auto simp: linearized_def set_phase_def)

lemma intern_step_linearized:
  assumes "intern_step E c d" "linearized E c order"
  shows "\<exists>order'. linearized E d order'"
  using assms(1)
proof (cases rule: intern_step.cases)
  case (probe_empty i)
  then show ?thesis using linearized_finish [OF assms(2) intern_empty, of i] by auto
next
  case (probe_hit i s tok)
  then have "intern E s (sys_table c) = (tok, sys_table c)" by (simp add: intern_def)
  from linearized_finish [OF assms(2) this, of i] probe_hit(1) show ?thesis by auto
next
  case (write_locked i s tok t)
  then have "intern E s (sys_table c) = (tok, t)"
    using assms(2) by (simp add: linearized_def intern_nonempty)
  from linearized_finish [OF assms(2) this, of i] write_locked(1) show ?thesis by auto
qed (use assms(2) linearized_move in blast)+

lemma interner_reachable_linearized: "interner_reachable E c \<Longrightarrow> \<exists>order. linearized E c order"
proof (induction rule: interner_reachable.induct)
  case init
  have "linearized E interner_init []" by (simp add: linearized_def interner_init_def)
  then show ?case ..
qed (blast dest: intern_step_linearized)

section \<open>The interner as an interface\<close>

text \<open>
  What a client of an interner relies on: an invariant the calls keep, ids that resolve to
  the text they were made for while there is room, and ids that never change meaning.
\<close>

locale interner =
  fixes intern_op :: "rstr \<Rightarrow> 't \<Rightarrow> 'tok \<times> 't"
    and text_of :: "'t \<Rightarrow> 'tok \<Rightarrow> rstr option"
    and inv :: "'t \<Rightarrow> bool"
    and room :: "'t \<Rightarrow> bool"
    and grows :: "'t \<Rightarrow> 't \<Rightarrow> bool"
  assumes op_inv: "inv t \<Longrightarrow> inv (snd (intern_op s t))"
    and op_grows: "grows t (snd (intern_op s t))"
    and op_text: "inv t \<Longrightarrow> room (snd (intern_op s t)) \<Longrightarrow>
      text_of (snd (intern_op s t)) (fst (intern_op s t)) = Some s"
    and grows_refl: "grows t t"
    and grows_trans: "grows a b \<Longrightarrow> grows b c \<Longrightarrow> grows a c"
    and grows_text: "inv t \<Longrightarrow> grows t t' \<Longrightarrow> text_of t k = Some x \<Longrightarrow> text_of t' k = Some x"
    and grows_room: "grows t t' \<Longrightarrow> room t' \<Longrightarrow> room t"
begin

text \<open>A token stays good: it resolves in every later state of the table that has room.\<close>

lemma token_stable:
  assumes "inv t" "grows (snd (intern_op s t)) t'" "room t'"
  shows "text_of t' (fst (intern_op s t)) = Some s"
  using assms op_text op_inv grows_room grows_text by metis

lemma token_injective:
  assumes "inv t" "intern_op s t = (a, t1)" "grows t1 t2" "inv t2" "intern_op s' t2 = (a, t3)" "room t3"
  shows "s = s'"
proof -
  have "grows t1 t3" using assms(3,5) op_grows [of t2 s'] grows_trans by simp
  then have "text_of t3 a = Some s" using token_stable [of t s t3] assms by simp
  moreover have "text_of t3 a = Some s'" using op_text [of t2 s'] assms by simp
  ultimately show ?thesis by simp
qed

end

text \<open>The model's table is such an interner, its tokens read through the \<open>normal\<close> id.\<close>

lemma room_of_extends: "table_extends t t' \<Longrightarrow> table_fits t' \<Longrightarrow> table_fits t"
  by (rule table_fits_extends)

definition token_text :: "StringTable \<Rightarrow> StringTokens \<Rightarrow> rstr option" where
  "token_text t tok = get_string t (tok_normal tok)"

lemma intern_normal_text:
  assumes "table_inv E t" "table_fits (snd (intern E s t))"
  shows "token_text (snd (intern E s t)) (fst (intern E s t)) = Some s"
proof (cases "s = []")
  case True
  then show ?thesis
    using assms by (simp add: token_text_def EMPTY_TOKENS_def EMPTY_get_string)
next
  case False
  let ?t = "snd (intern E s t)" and ?i = "shard_of E s"
  have inv: "table_inv E ?t" using assms(1) by (rule intern_inv)
  have "interned E ?t s (fst (intern E s t))" using assms(1) by (rule intern_interned)
  with False inv shard_of_less have "exact_entry_ok E ?i (?t ! ?i) s (fst (intern E s t))"
    by (simp add: interned_def table_inv_def shard_inv_def)
  then have "id_holds ?i (?t ! ?i) (tok_normal (fst (intern E s t))) s"
    by (simp add: exact_entry_ok_def)
  then show ?thesis
    unfolding token_text_def using get_string_held [OF _ shard_of_less inv assms(2)] by blast
qed

interpretation st: interner "intern E" token_text "table_inv E" table_fits table_extends for E
proof unfold_locales
  show "table_extends a b \<Longrightarrow> table_extends b c \<Longrightarrow> table_extends a c" for a b c
    by (rule table_extends_trans)
  show "table_inv E t \<Longrightarrow> table_extends t t' \<Longrightarrow> token_text t k = Some x \<Longrightarrow> token_text t' k = Some x"
    for t t' k x
    by (auto simp: token_text_def table_inv_length intro: get_string_extends)
qed (auto intro: intern_inv intern_extends intern_normal_text room_of_extends)

section \<open>Properties\<close>

text \<open>C2. Interning a string returns ids that resolve to the string and to its lower-cased
  form, keeps the table's invariant, changes what no earlier id resolves to, and is
  repeatable: a second call answers the same tokens from the unchanged table.\<close>

theorem intern_correct:
  assumes "env_lower_ok E" "table_inv E t" "intern E s t = (tok, t')" "table_fits t'"
  shows "get_string t' (tok_normal tok) = Some s \<and> get_string t' (tok_lower tok) = Some (env_lower E s)
    \<and> table_inv E t' \<and> intern E s t' = (tok, t')
    \<and> (\<forall>i x. get_string t i = Some x \<longrightarrow> get_string t' i = Some x)"
proof -
  have inv: "table_inv E t'" and i: "interned E t' s tok" and ext: "table_extends t t'"
    using intern_inv [OF assms(2), of s] intern_interned [OF assms(2), of s]
      intern_extends [of t E s] assms(3) by auto
  have "get_string t' i = Some x" if "get_string t i = Some x" for i x
    using get_string_extends [OF that ext table_inv_length [OF assms(2)]] .
  then show ?thesis
    using interned_strings [OF assms(1) inv assms(4) i] inv intern_again [OF i] by simp
qed

lemma intern_correct_witness:
  "\<exists>tok t'. intern ascii_env ''Hello'' table_new = (tok, t') \<and> table_fits t'
     \<and> get_string t' (tok_normal tok) = Some ''Hello'' \<and> get_string t' (tok_lower tok) = Some ''hello''"
proof -
  obtain tok t' where r: "intern ascii_env ''Hello'' table_new = (tok, t')" by force
  moreover have "table_fits (snd (intern ascii_env ''Hello'' table_new))" by code_simp
  moreover have "env_lower ascii_env ''Hello'' = ''hello''" by code_simp
  ultimately show ?thesis
    using intern_correct [OF env_lower_ok_ascii_env table_new_inv r] by auto
qed

text \<open>In a batch, two non-empty strings get the same lower id exactly when they fold to
  the same text, and the same normal id exactly when they are equal, whatever the order in
  which the spellings were seen.\<close>

theorem intern_canonical:
  assumes "env_lower_ok E" "table_inv E t" "intern_batch E ss t = (toks, t')" "table_fits t'"
    and "i < length ss" "j < length ss" "ss ! i \<noteq> []" "ss ! j \<noteq> []"
  shows "(tok_lower (toks ! i) = tok_lower (toks ! j) \<longleftrightarrow> env_lower E (ss ! i) = env_lower E (ss ! j))
    \<and> (tok_normal (toks ! i) = tok_normal (toks ! j) \<longleftrightarrow> ss ! i = ss ! j)"
proof -
  have inv: "table_inv E t'" using intern_batch_inv [OF assms(2), of ss] assms(3) by simp
  have tok: "interned E t' (ss ! k) (toks ! k)" if "k < length ss" for k
    using intern_batch_interned [OF assms(2) that] assms(3) by simp
  have "tok_normal (toks ! i) = tok_normal (toks ! j) \<Longrightarrow> ss ! i = ss ! j"
    using interned_strings(1) [OF assms(1) inv assms(4) tok] assms(5,6)
    by (metis option.inject)
  moreover have "ss ! i = ss ! j \<Longrightarrow> toks ! i = toks ! j"
    using tok [OF assms(5)] tok [OF assms(6)] interned_unique by metis
  ultimately show ?thesis
    using interned_lower_eq_iff [OF assms(1) inv assms(4) tok tok assms(7,8)] assms(5,6) by auto
qed

lemma intern_canonical_witness:
  "\<exists>toks t'. intern_batch ascii_env [''NOT'', ''Not''] table_new = (toks, t')
     \<and> tok_lower (toks ! 0) = tok_lower (toks ! 1) \<and> tok_normal (toks ! 0) \<noteq> tok_normal (toks ! 1)"
proof -
  obtain toks t' where r: "intern_batch ascii_env [''NOT'', ''Not''] table_new = (toks, t')" by force
  moreover have "table_fits (snd (intern_batch ascii_env [''NOT'', ''Not''] table_new))" by code_simp
  moreover have "env_lower ascii_env ''NOT'' = env_lower ascii_env ''Not''" by code_simp
  ultimately show ?thesis
    using intern_canonical [OF env_lower_ok_ascii_env table_new_inv r, of 0 1] by auto
qed

text \<open>The number of entries \<open>len\<close> reports for a table filled from scratch is the number of
  different lower-cased forms among the non-empty strings interned.\<close>

theorem table_len_distinct_folds:
  assumes "env_lower_ok E"
  shows "table_len (snd (intern_batch E ss table_new)) = card (env_lower E ` (set ss - {[]}))"
  using table_len_card [OF assms intern_batch_inv [OF table_new_inv]]
  by (simp add: folded_keys_batch)

lemma table_len_distinct_folds_witness:
  "table_len (snd (intern_batch ascii_env [''NOT'', ''Not'', [], ''if''] table_new)) = 2"
proof -
  have "env_lower ascii_env ` (set [''NOT'', ''Not'', [], ''if''] - {[]}) = {''not'', ''if''}"
    by code_simp
  then show ?thesis
    using table_len_distinct_folds [OF env_lower_ok_ascii_env, of "[''NOT'', ''Not'', [], ''if'']"]
    by simp
qed

text \<open>Below the capacity the debug assertion states, both ids of a token lie in the shard
  of the folded string and the reserved id \<open>u32::MAX\<close> is never handed out.\<close>

theorem intern_id_bounds:
  assumes "table_inv E t" "intern E s t = (tok, t')" "table_fits t'" "s \<noteq> []"
  shows "fst (split_id (tok_normal tok)) = shard_of E s \<and> fst (split_id (tok_lower tok)) = shard_of E s
    \<and> tok_normal tok \<noteq> - 1 \<and> tok_lower tok \<noteq> - 1"
proof -
  let ?i = "shard_of E s"
  have inv: "table_inv E t'" and i: "interned E t' s tok"
    using intern_inv [OF assms(1), of s] intern_interned [OF assms(1), of s] assms(2) by auto
  have sh: "shard_inv E ?i (t' ! ?i)" using inv shard_of_less by (simp add: table_inv_def)
  with i assms(4) have ok: "exact_entry_ok E ?i (t' ! ?i) s tok"
    by (simp add: interned_def shard_inv_def)
  then obtain lt where "map_of (lower_map (t' ! ?i)) (env_lower E s) = Some lt" "tok_lower lt = tok_lower tok"
    by (auto simp: exact_entry_ok_def)
  with sh have "id_holds ?i (t' ! ?i) (tok_lower tok) (env_lower E s)"
    by (metis shard_inv_def lower_entry_ok_def)
  moreover have "id_holds ?i (t' ! ?i) (tok_normal tok) s" using ok by (simp add: exact_entry_ok_def)
  moreover have "fst (split_id w) = ?i \<and> w \<noteq> - 1" if "id_holds ?i (t' ! ?i) w x" for w x
  proof -
    obtain slot where slot: "slot < length (id_to_string (t' ! ?i))" "w = make_id ?i (of_nat slot)"
      using \<open>id_holds ?i (t' ! ?i) w x\<close> by (auto simp: id_holds_def)
    have "t' ! ?i \<in> set t'" using inv shard_of_less by (simp add: table_inv_def)
    with assms(3) have "length (id_to_string (t' ! ?i)) \<le> 67108863" by (auto simp: table_fits_def)
    with slot(1) have "slot < 67108863" by simp
    then have "split_id w = (?i, slot)" using slot(2) shard_of_less by (simp add: split_make_id)
    moreover have "split_id (- 1) = (63, 67108863)"
      by (simp add: split_id_def SLOT_BITS_def SLOT_MASK_def mask_eq_decr_exp)
    ultimately show ?thesis using \<open>slot < 67108863\<close> by auto
  qed
  ultimately show ?thesis by blast
qed

lemma intern_id_bounds_witness:
  "\<exists>tok t'. intern ascii_env ''Hello'' table_new = (tok, t') \<and> tok_normal tok \<noteq> - 1"
proof -
  obtain tok t' where r: "intern ascii_env ''Hello'' table_new = (tok, t')" by force
  moreover have "table_fits (snd (intern ascii_env ''Hello'' table_new))" by code_simp
  ultimately show ?thesis using intern_id_bounds [OF table_new_inv r] by auto
qed

text \<open>C6. Whatever the interleaving of the threads' critical sections, the shared table is one
  that some sequence of \<open>intern\<close> calls builds, and any two finished calls agree: equal
  strings got equal tokens, different strings different ones, and spellings of one folded
  form the same lower id.\<close>

theorem concurrent_intern:
  assumes "env_lower_ok E" "interner_reachable E c" "table_fits (sys_table c)"
    and "sys_phase c i = Finished s a" "sys_phase c j = Finished s' b" "s \<noteq> []" "s' \<noteq> []"
  shows "(a = b \<longleftrightarrow> s = s') \<and> (tok_lower a = tok_lower b \<longleftrightarrow> env_lower E s = env_lower E s')
    \<and> get_string (sys_table c) (tok_normal a) = Some s
    \<and> (\<exists>order. sys_table c = snd (intern_batch E order table_new))"
proof -
  obtain order where lin: "linearized E c order"
    using interner_reachable_linearized [OF assms(2)] by blast
  then have inv: "table_inv E (sys_table c)" and a: "interned E (sys_table c) s a"
    and b: "interned E (sys_table c) s' b"
    using linearized_table [OF lin] assms(4,5) by (auto simp: linearized_def)
  have strs: "get_string (sys_table c) (tok_normal a) = Some s"
      "get_string (sys_table c) (tok_normal b) = Some s'"
    using interned_strings(1) [OF assms(1) inv assms(3)] a b by blast+
  then have "a = b \<longleftrightarrow> s = s'" using a b interned_unique by force
  with strs(1) lin interned_lower_eq_iff [OF assms(1) inv assms(3) a b assms(6,7)] show ?thesis
    by (auto simp: linearized_def)
qed

lemma concurrent_intern_witness:
  "\<exists>c a b. interner_reachable ascii_env c \<and> sys_phase c 0 = Finished ''Foo'' a
     \<and> sys_phase c 1 = Finished ''foo'' b \<and> a \<noteq> b \<and> tok_lower a = tok_lower b"
proof -
  define c1 where "c1 = set_phase 0 (Called ''Foo'') interner_init"
  define c2 where "c2 = set_phase 1 (Called ''foo'') c1"
  define c3 where "c3 = set_phase 0 (Missed ''Foo'') c2"
  define c4 where "c4 = set_phase 1 (Missed ''foo'') c3"
  obtain b t5 where w5: "intern_write ascii_env ''foo'' table_new = (b, t5)" by force
  define c5 where "c5 = (set_phase 1 (Finished ''foo'' b) c4)\<lparr>sys_table := t5\<rparr>"
  obtain a t6 where w6: "intern_write ascii_env ''Foo'' t5 = (a, t6)" by force
  define c6 where "c6 = (set_phase 0 (Finished ''Foo'' a) c5)\<lparr>sys_table := t6\<rparr>"
  note cs = c1_def c2_def c3_def c4_def c5_def c6_def set_phase_def interner_init_def
  have miss: "map_of (exact_map (table_new ! shard_of ascii_env s)) s = None" for s
    using shard_of_less [of ascii_env s] by (simp add: table_new_def SHARD_COUNT_def shard_new_def)
  have r1: "interner_reachable ascii_env c1"
    unfolding c1_def by (rule interner_reachable.step [OF interner_reachable.init call_first])
      (simp add: interner_init_def)
  have r2: "interner_reachable ascii_env c2"
    unfolding c2_def by (rule interner_reachable.step [OF r1 call_first]) (simp add: cs)
  have r3: "interner_reachable ascii_env c3"
    unfolding c3_def by (rule interner_reachable.step [OF r2 probe_miss]) (simp_all add: cs miss)
  have r4: "interner_reachable ascii_env c4"
    unfolding c4_def by (rule interner_reachable.step [OF r3 probe_miss]) (simp_all add: cs miss)
  have r5: "interner_reachable ascii_env c5"
    unfolding c5_def by (rule interner_reachable.step [OF r4 write_locked]) (simp_all add: cs w5)
  have r6: "interner_reachable ascii_env c6"
    unfolding c6_def by (rule interner_reachable.step [OF r5 write_locked]) (simp_all add: cs w6)
  have "table_fits (snd (intern_write ascii_env ''Foo'' (snd (intern_write ascii_env ''foo'' table_new))))"
    by code_simp
  then have fits: "table_fits (sys_table c6)" by (simp add: w5 w6 c6_def)
  have ph: "sys_phase c6 0 = Finished ''Foo'' a" "sys_phase c6 1 = Finished ''foo'' b"
    by (simp_all add: cs)
  have fold: "env_lower ascii_env ''Foo'' = env_lower ascii_env ''foo''" by code_simp
  show ?thesis
    using concurrent_intern [OF env_lower_ok_ascii_env r6 fits ph] r6 ph fold by auto
qed

text \<open>Interning a batch is interning its strings one by one, and replaying the batch, or any
  of its strings, on the resulting table returns the same tokens and changes nothing.\<close>

theorem intern_batch_replay:
  assumes "table_inv E t" "intern_batch E ss t = (toks, t')"
  shows "t' = foldl (\<lambda>u s. snd (intern E s u)) t ss
    \<and> intern_batch E ss t' = (toks, t') \<and> (\<forall>i < length ss. intern E (ss ! i) t' = (toks ! i, t'))"
proof -
  have "snd (intern_batch E ss t) = foldl (\<lambda>u s. snd (intern E s u)) t ss"
    by (induction ss arbitrary: t) auto
  moreover have tok: "interned E t' (ss ! i) (toks ! i)" if "i < length ss" for i
    using intern_batch_interned [OF assms(1) that] assms(2) by simp
  moreover have "length toks = length ss" using length_intern_batch [of E ss t] assms(2) by simp
  ultimately show ?thesis
    using assms(2) intern_batch_again [of toks ss E t'] intern_again by simp
qed

lemma intern_batch_replay_witness:
  "\<exists>toks t'. intern_batch ascii_env [''a'', ''A'', ''a''] table_new = (toks, t')
     \<and> intern_batch ascii_env [''a'', ''A'', ''a''] t' = (toks, t')"
proof -
  obtain toks t' where r: "intern_batch ascii_env [''a'', ''A'', ''a''] table_new = (toks, t')" by force
  then show ?thesis using intern_batch_replay [OF table_new_inv r] by blast
qed

end
