(* ===== verification/Ast.thy ===== *)
theory Ast
  imports String_Table
begin

text \<open>
  The syntax tree the parser builds (\<open>crates/parser/src/ast.rs\<close>): an arena of leaves, leaf
  values and comments, referred to by 32-bit indices. A keyed clause is a leaf whose value
  is a \<open>Clause\<close>. A parsed \<open>f64\<close> is kept as the exact decimal it was read from (sign,
  digits without the dot, number of digits after the dot); the rounding to the nearest
  double is a function of that decimal and the parser does not look at it.
\<close>

section \<open>Positions\<close>

datatype SourcePos = SourcePos (pos_line: u32) (pos_col: u16)

text \<open>Positions are compared by line, then by column.\<close>

instantiation SourcePos :: linorder
begin

definition less_eq_SourcePos :: "SourcePos \<Rightarrow> SourcePos \<Rightarrow> bool" where
  "less_eq_SourcePos a b \<longleftrightarrow>
     pos_line a < pos_line b \<or> pos_line a = pos_line b \<and> pos_col a \<le> pos_col b"

definition less_SourcePos :: "SourcePos \<Rightarrow> SourcePos \<Rightarrow> bool" where
  "less_SourcePos a b \<longleftrightarrow>
     pos_line a < pos_line b \<or> pos_line a = pos_line b \<and> pos_col a < pos_col b"

instance
  by standard (auto simp: less_eq_SourcePos_def less_SourcePos_def SourcePos.expand)

end

record SourceRange =
  range_start :: SourcePos
  range_end :: SourcePos

datatype ParseError = PosError u32 u16 rstr

section \<open>Operators\<close>

datatype Operator =
    Equals
  | GreaterThan
  | LessThan
  | GreaterThanOrEqual
  | LessThanOrEqual
  | NotEqual
  | EqualEqual
  | QuestionEqual

fun op_as_str :: "Operator \<Rightarrow> rstr" where
  "op_as_str Equals = ''=''"
| "op_as_str GreaterThan = ''>''"
| "op_as_str LessThan = ''<''"
| "op_as_str GreaterThanOrEqual = ''>=''"
| "op_as_str LessThanOrEqual = ''<=''"
| "op_as_str NotEqual = ''!=''"
| "op_as_str EqualEqual = ''==''"
| "op_as_str QuestionEqual = ''?=''"

section \<open>The arena\<close>

type_synonym LeafIdx = u32
type_synonym LeafValueIdx = u32
type_synonym CommentIdx = u32

datatype Decimal = Decimal (dec_neg: bool) (dec_digits: nat) (dec_scale: nat)

datatype Child =
    ChildLeaf LeafIdx
  | ChildLeafValue LeafValueIdx
  | ChildComment CommentIdx

datatype AstValue =
    VString StringTokens
  | VQString StringTokens
  | VFloat Decimal
  | VInt int
  | VBool bool
  | VClause "Child list"

record Leaf =
  leaf_key :: StringTokens
  leaf_val :: AstValue
  leaf_op :: Operator
  leaf_pos :: SourceRange
  leaf_value_pos :: SourceRange

record LeafValue =
  lv_value :: AstValue
  lv_pos :: SourceRange

record Comment =
  comment_text :: rstr
  comment_pos :: SourceRange

record Arena =
  leaves :: "Leaf list"
  leaf_values :: "LeafValue list"
  comments :: "Comment list"

definition arena_new :: Arena where
  "arena_new = \<lparr>leaves = [], leaf_values = [], comments = []\<rparr>"

definition push_leaf :: "Leaf \<Rightarrow> Arena \<Rightarrow> LeafIdx \<times> Arena" where
  "push_leaf l a = (of_nat (length (leaves a)), a\<lparr>leaves := leaves a @ [l]\<rparr>)"

definition push_leaf_value :: "LeafValue \<Rightarrow> Arena \<Rightarrow> LeafValueIdx \<times> Arena" where
  "push_leaf_value lv a = (of_nat (length (leaf_values a)), a\<lparr>leaf_values := leaf_values a @ [lv]\<rparr>)"

definition push_comment :: "Comment \<Rightarrow> Arena \<Rightarrow> CommentIdx \<times> Arena" where
  "push_comment c a = (of_nat (length (comments a)), a\<lparr>comments := comments a @ [c]\<rparr>)"

record KeyedClause =
  kc_key :: StringTokens
  kc_children :: "Child list"
  kc_pos :: SourceRange

text \<open>An index past the arena panics in Rust; the model marks it by the outer \<open>None\<close>.\<close>

definition keyed_clause :: "Arena \<Rightarrow> Child \<Rightarrow> KeyedClause option option" where
  "keyed_clause a child =
     (case child of
        ChildLeaf i \<Rightarrow>
          (if unat i < length (leaves a)
           then (let l = leaves a ! unat i
                 in Some (case leaf_val l of
                      VClause ch \<Rightarrow> Some \<lparr>kc_key = leaf_key l, kc_children = ch, kc_pos = leaf_pos l\<rparr>
                    | _ \<Rightarrow> None))
           else None)
      | _ \<Rightarrow> Some None)"

record ParsedFile =
  pf_arena :: Arena
  root_children :: "Child list"
  pf_errors :: "ParseError list"

end
