(* ===== verification/Parser_Lexer.thy ===== *)
theory Parser_Lexer
  imports Ast
begin

text \<open>
  The cursor and the token scanners of \<open>crates/parser/src/parser.rs\<close>. The parser's
  \<open>Chars\<close> iterator is the list of characters still to read; a byte position is a place in
  that iterator, and a slice \<open>&input[a..b]\<close> is the text between two of them
  (\<open>text_between\<close>). Line and column are the code's \<open>u32\<close> and saturating \<open>u16\<close>.
\<close>

section \<open>State\<close>

datatype CommentMode = Preserve | Discard

record parser =
  p_chars :: "rchar list"
  p_line :: u32
  p_col :: u16
  p_table :: StringTable
  p_arena :: Arena
  p_errors :: "ParseError list"
  p_mode :: CommentMode
  p_depth :: u32

record cursor =
  cur_chars :: "rchar list"
  cur_line :: u32
  cur_col :: u16

definition MAX_CLAUSE_DEPTH :: u32 where "MAX_CLAUSE_DEPTH = 256"

definition parser_new :: "rstr \<Rightarrow> StringTable \<Rightarrow> CommentMode \<Rightarrow> parser" where
  "parser_new input t mode =
     \<lparr>p_chars = chars input, p_line = 1, p_col = 0, p_table = t, p_arena = arena_new,
      p_errors = [], p_mode = mode, p_depth = 0\<rparr>"

definition pos :: "parser \<Rightarrow> SourcePos" where
  "pos s = SourcePos (p_line s) (p_col s)"

definition text_between :: "rchar list \<Rightarrow> rchar list \<Rightarrow> rstr" where
  "text_between from to = concat (take (length from - length to) from)"

definition save :: "parser \<Rightarrow> cursor" where
  "save s = \<lparr>cur_chars = p_chars s, cur_line = p_line s, cur_col = p_col s\<rparr>"

definition restore :: "cursor \<Rightarrow> parser \<Rightarrow> parser" where
  "restore c s = s\<lparr>p_chars := cur_chars c, p_line := cur_line c, p_col := cur_col c\<rparr>"

definition push_error :: "SourcePos \<Rightarrow> rstr \<Rightarrow> parser \<Rightarrow> parser" where
  "push_error at msg s = s\<lparr>p_errors := p_errors s @ [PosError (pos_line at) (pos_col at) msg]\<rparr>"

definition intern_in :: "rust_env \<Rightarrow> rstr \<Rightarrow> parser \<Rightarrow> StringTokens \<times> parser" where
  "intern_in E str s = (let (tok, t) = intern E str (p_table s) in (tok, s\<lparr>p_table := t\<rparr>))"

section \<open>The cursor\<close>

definition advance :: "parser \<Rightarrow> parser" where
  "advance s =
     (case p_chars s of
        [] \<Rightarrow> s
      | c # cs \<Rightarrow>
          (if c = ch_nl then s\<lparr>p_chars := cs, p_line := p_line s + 1, p_col := 0\<rparr>
           else if c \<noteq> ch_cr then s\<lparr>p_chars := cs, p_col := sat_add_u16 (p_col s) 1\<rparr>
           else s\<lparr>p_chars := cs\<rparr>))"

definition peek :: "parser \<Rightarrow> rchar option" where
  "peek s = (case p_chars s of [] \<Rightarrow> None | c # cs \<Rightarrow> Some c)"

definition peek2 :: "parser \<Rightarrow> rchar option" where
  "peek2 s = (case p_chars s of c1 # c2 # cs \<Rightarrow> Some c2 | _ \<Rightarrow> None)"

definition peek_n :: "nat \<Rightarrow> parser \<Rightarrow> rchar list" where
  "peek_n n s = take n (p_chars s)"

fun advance_by :: "nat \<Rightarrow> parser \<Rightarrow> parser" where
  "advance_by 0 s = s"
| "advance_by (Suc n) s = advance_by n (advance s)"

lemma p_chars_advance [simp]: "p_chars (advance s) = tl (p_chars s)"
  by (simp add: advance_def split: list.split)

text \<open>The loop every scanner is made of: \<open>while let Some(c) = peek() \<dots> advance()\<close>.\<close>

function advance_while :: "(parser \<Rightarrow> rchar \<Rightarrow> bool) \<Rightarrow> parser \<Rightarrow> parser" where
  "advance_while P s =
     (case peek s of
        None \<Rightarrow> s
      | Some c \<Rightarrow> if P s c then advance_while P (advance s) else s)"
  by pat_completeness auto
termination
  by (relation "measure (\<lambda>(P, s). length (p_chars s))") (auto simp: peek_def split: list.splits)

declare advance_while.simps [simp del]

definition skip_whitespace :: "parser \<Rightarrow> parser" where
  "skip_whitespace = advance_while (\<lambda>s c. is_whitespace c)"

definition skip_line :: "parser \<Rightarrow> parser" where
  "skip_line = advance_while (\<lambda>s c. c \<noteq> ch_nl)"

definition consume_comment :: "parser \<Rightarrow> Comment option \<times> parser" where
  "consume_comment s =
     (if peek s = Some ''#''
      then (let s1 = skip_line s
            in (Some \<lparr>comment_text = text_between (p_chars s) (p_chars s1),
                  comment_pos = \<lparr>range_start = pos s, range_end = pos s1\<rparr>\<rparr>, s1))
      else (None, s))"

definition skip_comment :: "parser \<Rightarrow> bool \<times> parser" where
  "skip_comment s = (if peek s = Some ''#'' then (True, skip_line s) else (False, s))"

text \<open>\<open>skip_quoted\<close> lexes a quoted string without keeping it.\<close>

function skip_quoted_loop :: "parser \<Rightarrow> parser" where
  "skip_quoted_loop s =
     (case peek s of
        None \<Rightarrow> s
      | Some c \<Rightarrow>
          (if c = ch_nl then s
           else if c = ch_quote then advance s
           else if c = ch_backslash \<and> (peek (advance s) = Some ch_quote \<or> peek (advance s) = Some ch_backslash)
           then skip_quoted_loop (advance (advance s))
           else skip_quoted_loop (advance s)))"
  by pat_completeness auto
termination
  by (relation "measure (\<lambda>s. length (p_chars s))") (auto simp: peek_def split: list.splits)

declare skip_quoted_loop.simps [simp del]

definition skip_quoted :: "parser \<Rightarrow> parser" where
  "skip_quoted s = skip_quoted_loop (advance s)"

section \<open>Character classes\<close>

definition ascii_class :: "rstr \<Rightarrow> rchar \<Rightarrow> bool" where
  "ascii_class extra c \<longleftrightarrow> is_ascii_alnum c \<or> c \<in> set (map (\<lambda>b. [b]) extra)"

definition VALUE_CHARS :: rstr where
  "VALUE_CHARS = ''_.-:;'' @ [CHR 0x27] @ ''[]@+`%/!,<>?$'' @ [CHR 0x5C] @ ''|^*&()''"

definition KEY_CHARS :: rstr where
  "KEY_CHARS = ''_:@.'' @ [CHR 0x22] @ ''-'' @ [CHR 0x27] @ ''[]!<>$^&|()?''"

text \<open>Beyond ASCII a value may also hold the letters s with caron and the right single quote.\<close>

definition is_value_char :: "rust_env \<Rightarrow> rchar \<Rightarrow> bool" where
  "is_value_char E c \<longleftrightarrow>
     (if is_ascii_char c then ascii_class VALUE_CHARS c
      else is_alphanumeric E c \<or> c = [CHR 0xC5, CHR 0xA1] \<or> c = [CHR 0xC5, CHR 0xA0]
        \<or> c = [CHR 0xE2, CHR 0x80, CHR 0x99])"

definition is_key_char :: "rust_env \<Rightarrow> rchar \<Rightarrow> bool" where
  "is_key_char E c \<longleftrightarrow> (if is_ascii_char c then ascii_class KEY_CHARS c else is_alphanumeric E c)"

definition is_bare_string_value :: "rust_env \<Rightarrow> rstr \<Rightarrow> bool" where
  "is_bare_string_value E value \<longleftrightarrow>
     value \<noteq> [] \<and> value \<noteq> ''yes'' \<and> value \<noteq> ''no''
     \<and> (case chars value of
          c # cs \<Rightarrow> c \<noteq> ''+'' \<and> c \<noteq> ''-'' \<and> \<not> is_ascii_digit c
        | [] \<Rightarrow> False)
     \<and> list_all (is_value_char E) (chars value)"

section \<open>Operators, keys and quoted strings\<close>

definition match_operator :: "rchar \<Rightarrow> rchar option \<Rightarrow> Operator option" where
  "match_operator c1 c2 =
     (if c1 = ''<'' \<and> c2 = Some ''='' then Some LessThanOrEqual
      else if c1 = ''>'' \<and> c2 = Some ''='' then Some GreaterThanOrEqual
      else if c1 = ''!'' \<and> c2 = Some ''='' then Some NotEqual
      else if c1 = ''='' \<and> c2 = Some ''='' then Some EqualEqual
      else if c1 = ''?'' \<and> c2 = Some ''='' then Some QuestionEqual
      else if c1 = ''='' then Some Equals
      else if c1 = ''>'' then Some GreaterThan
      else if c1 = ''<'' then Some LessThan
      else None)"

definition parse_operator :: "parser \<Rightarrow> Operator option \<times> parser" where
  "parse_operator s =
     (case peek s of
        None \<Rightarrow> (None, s)
      | Some c1 \<Rightarrow>
          (case match_operator c1 (peek2 s) of
             Some o' \<Rightarrow> (Some o', skip_whitespace (advance_by (length (op_as_str o')) s))
           | None \<Rightarrow> (None, s)))"

text \<open>
  \<open>scan_quoted\<close> stays on the borrowed input: \<open>owned\<close> is the copy an escape forces, \<open>seg\<close>
  the start of the segment not yet copied into it.
\<close>

function scan_quoted_loop ::
  "rchar list \<Rightarrow> rstr option \<Rightarrow> parser \<Rightarrow> rchar list \<times> rstr option \<times> bool \<times> parser" where
  "scan_quoted_loop seg owned s =
     (case peek s of
        None \<Rightarrow> (seg, owned, False, s)
      | Some c \<Rightarrow>
          (if c = ch_nl then (seg, owned, False, s)
           else if c = ch_backslash then
             (case peek (advance s) of
                Some e \<Rightarrow>
                  (if e = ch_quote \<or> e = ch_backslash
                   then (let buf = (case owned of None \<Rightarrow> ch_quote | Some b \<Rightarrow> b)
                               @ text_between seg (p_chars s) @ e;
                             s2 = advance (advance s)
                         in scan_quoted_loop (p_chars s2) (Some buf) s2)
                   else scan_quoted_loop seg owned (advance s))
              | None \<Rightarrow> scan_quoted_loop seg owned (advance s))
           else if c = ch_quote then (seg, owned, True, advance s)
           else scan_quoted_loop seg owned (advance s)))"
  by pat_completeness auto
termination
  by (relation "measure (\<lambda>(seg, owned, s). length (p_chars s))")
    (auto simp: peek_def split: list.splits)

declare scan_quoted_loop.simps [simp del]

definition unclosed_msg :: "u32 \<Rightarrow> rstr" where
  "unclosed_msg line = ''unclosed quoted string starting at line '' @ show_nat (unat line)"

definition scan_quoted :: "rust_env \<Rightarrow> bool \<Rightarrow> parser \<Rightarrow> StringTokens \<times> parser" where
  "scan_quoted E report_unclosed s =
     (let quote_start = pos s;
          s1 = advance s;
          (seg, owned, closed, s2) = scan_quoted_loop (p_chars s1) None s1;
          s3 = (if report_unclosed \<and> \<not> closed
                then push_error quote_start (unclosed_msg (pos_line quote_start)) s2 else s2);
          body = (\<lambda>from. let t = text_between from (p_chars s2) in if closed then butlast t else t)
      in case owned of
           Some buf \<Rightarrow> intern_in E (buf @ body seg @ ch_quote) s3
         | None \<Rightarrow>
             (if closed then intern_in E (text_between (p_chars s) (p_chars s2)) s3
              else intern_in E (body (p_chars s) @ ch_quote) s3))"

definition key_cont :: "rust_env \<Rightarrow> parser \<Rightarrow> rchar \<Rightarrow> bool" where
  "key_cont E s c \<longleftrightarrow> \<not> (c = ''?'' \<and> peek2 s = Some ''='') \<and> is_key_char E c"

definition parse_key :: "rust_env \<Rightarrow> parser \<Rightarrow> StringTokens option \<times> parser" where
  "parse_key E s =
     (if peek s = Some ch_quote
      then (let (key, s1) = scan_quoted E True s in (Some key, skip_whitespace s1))
      else (let s1 = advance_while (key_cont E) s;
                str = text_between (p_chars s) (p_chars s1)
            in if str = [] then (None, s1)
               else (let (key, s2) = intern_in E str (skip_whitespace s1) in (Some key, s2))))"

section \<open>Booleans, numbers and plain strings\<close>

definition at_token_end :: "rust_env \<Rightarrow> parser \<Rightarrow> bool" where
  "at_token_end E s \<longleftrightarrow> (case peek s of None \<Rightarrow> True | Some c \<Rightarrow> \<not> is_value_char E c)"

definition parse_bool_keyword :: "rust_env \<Rightarrow> rchar list \<Rightarrow> parser \<Rightarrow> AstValue option \<times> parser" where
  "parse_bool_keyword E peek7 s =
     (if take 3 peek7 = [''y'', ''e'', ''s''] \<and> at_token_end E (advance_by 3 s)
      then (Some (VBool True), advance_by 3 s)
      else if take 2 peek7 = [''n'', ''o''] \<and> at_token_end E (advance_by 2 s)
      then (Some (VBool False), advance_by 2 s)
      else (None, s))"

text \<open>\<open>parse::<f64>\<close> on a sign, digits and at most one dot: it wants one digit somewhere.\<close>

definition parse_f64 :: "rstr \<Rightarrow> Decimal option" where
  "parse_f64 str =
     (let (neg, ds) = (case str of b # bs \<Rightarrow>
             if b = CHR ''-'' then (True, bs)
             else if b = CHR ''+'' then (False, bs) else (False, str)
           | [] \<Rightarrow> (False, str));
          ip = takeWhile is_digit_byte ds;
          rest = dropWhile is_digit_byte ds;
          fp = (case rest of b # bs \<Rightarrow> if b = CHR ''.'' then bs else rest | [] \<Rightarrow> [])
      in if ip @ fp \<noteq> [] \<and> list_all is_digit_byte fp
         then Some (Decimal neg (digits_val (ip @ fp)) (length fp)) else None)"

function scan_number :: "bool \<Rightarrow> parser \<Rightarrow> parser" where
  "scan_number had_dot s =
     (case peek s of
        None \<Rightarrow> s
      | Some c \<Rightarrow>
          (if is_ascii_digit c then scan_number had_dot (advance s)
           else if c = ''.'' \<and> \<not> had_dot then scan_number True (advance s)
           else s))"
  by pat_completeness auto
termination
  by (relation "measure (\<lambda>(had_dot, s). length (p_chars s))") (auto simp: peek_def split: list.splits)

declare scan_number.simps [simp del]

definition number_value :: "rstr \<Rightarrow> AstValue option" where
  "number_value num_str =
     (case parse_i64 num_str of
        Some i \<Rightarrow> Some (VInt i)
      | None \<Rightarrow> map_option VFloat (parse_f64 num_str))"

definition parse_plain_string :: "rust_env \<Rightarrow> parser \<Rightarrow> AstValue option \<times> parser" where
  "parse_plain_string E s =
     (let s1 = advance_while (\<lambda>s c. is_value_char E c) s;
          str = text_between (p_chars s) (p_chars s1)
      in if str = [] then (None, s1)
         else (let (tok, s2) = intern_in E str s1 in (Some (VString tok), s2)))"

definition parse_number_or_string :: "rust_env \<Rightarrow> parser \<Rightarrow> AstValue option \<times> parser" where
  "parse_number_or_string E s =
     (let num_saved = save s;
          s1 = (if peek s = Some ''-'' \<or> peek s = Some ''+'' then advance s else s);
          s2 = scan_number False s1;
          num_str = text_between (p_chars s) (p_chars s2);
          num = (if at_token_end E s2 \<and> num_str \<noteq> [] \<and> num_str \<noteq> ''-'' \<and> num_str \<noteq> ''+''
                 then number_value num_str else None)
      in case num of
           Some v \<Rightarrow> (Some v, s2)
         | None \<Rightarrow> parse_plain_string E (restore num_saved s2))"

text \<open>Metaprogramming: at sign, backslash, opening bracket, then anything up to the closing one.\<close>

definition unclosed_meta_msg :: rstr where
  "unclosed_meta_msg = ''unclosed metaprogramming bracket: expected '' @ [CHR 0x27] @ '']'' @ [CHR 0x27]"

definition parse_metaprogramming :: "rust_env \<Rightarrow> parser \<Rightarrow> AstValue option \<times> parser" where
  "parse_metaprogramming E s =
     (if peek s \<noteq> Some ''@'' then (None, s)
      else let s1 = advance s in
      if peek s1 \<noteq> Some ch_backslash then (None, s1)
      else let s2 = advance s1 in
      if peek s2 \<noteq> Some ''['' then (None, s2)
      else let s3 = advance_while (\<lambda>s c. c \<noteq> '']'') (advance s2) in
      if peek s3 = None then (None, push_error (pos s3) unclosed_meta_msg s3)
      else let s4 = advance s3;
               (tok, s5) = intern_in E (text_between (p_chars s) (p_chars s4)) s4
           in (Some (VString tok), s5))"

end
