(* ===== verification/Parser.thy ===== *)
theory Parser
  imports Parser_Lexer
begin

text \<open>
  The recursive descent grammar of \<open>crates/parser/src/parser.rs\<close>. The functions that call
  one another (\<open>parse_value\<close>, \<open>parse_clause\<close> with its loop, \<open>parse_statement\<close>) take fuel;
  \<open>None\<close> is running out of it. Every call spends one unit, and five units for each
  character left, plus five, are always enough: a statement costs at most four calls before
  a brace is consumed, and every turn of a loop consumes a character. Whether the result
  exists is a theorem (\<open>parse_string_total\<close>), not an assumption.
\<close>

section \<open>Skipping\<close>

lemma advance_while_p_chars:
  "\<exists>cs. p_chars s = cs @ p_chars (advance_while P s)"
proof (induction P s rule: advance_while.induct)
  case (1 P s)
  show ?case
  proof (cases "p_chars s")
    case Nil
    then show ?thesis by (simp add: advance_while.simps [of P s] peek_def)
  next
    case (Cons c cs)
    then have pk: "peek s = Some c" by (simp add: peek_def)
    show ?thesis
    proof (cases "P s c")
      case True
      from "1.IH" [OF pk this] obtain ds where "cs = ds @ p_chars (advance_while P (advance s))"
        by (auto simp: Cons)
      with pk Cons True show ?thesis by (simp add: advance_while.simps [of P s])
    next
      case False
      with pk show ?thesis by (simp add: advance_while.simps [of P s])
    qed
  qed
qed

lemma advance_while_length: "length (p_chars (advance_while P s)) \<le> length (p_chars s)"
  using advance_while_p_chars [of s P] by (metis le_add2 length_append)

lemma advance_while_length_less:
  assumes "peek s = Some c" "P s c"
  shows "length (p_chars (advance_while P s)) < length (p_chars s)"
proof -
  have "length (p_chars (advance s)) < length (p_chars s)"
    using assms(1) by (auto simp: peek_def split: list.splits)
  then show ?thesis
    using assms advance_while_length [of P "advance s"]
    by (simp add: advance_while.simps [of P s])
qed

lemma skip_whitespace_length: "length (p_chars (skip_whitespace s)) \<le> length (p_chars s)"
  by (simp add: skip_whitespace_def advance_while_length)

lemma skip_comment_length_less:
  "peek s = Some ''#'' \<Longrightarrow> length (p_chars (snd (skip_comment s))) < length (p_chars s)"
  by (simp add: skip_comment_def skip_line_def advance_while_length_less)

lemma skip_quoted_loop_length: "length (p_chars (skip_quoted_loop s)) \<le> length (p_chars s)"
proof (induction s rule: skip_quoted_loop.induct)
  case (1 s)
  show ?case
  proof (cases "p_chars s")
    case Nil
    then show ?thesis by (simp add: skip_quoted_loop.simps [of s] peek_def)
  next
    case (Cons c cs)
    then have "peek s = Some c" by (simp add: peek_def)
    then show ?thesis
      using "1.IH" Cons by (auto simp: skip_quoted_loop.simps [of s] intro: le_trans)
  qed
qed

lemma skip_quoted_length_less:
  "peek s = Some c \<Longrightarrow> length (p_chars (skip_quoted s)) < length (p_chars s)"
  using skip_quoted_loop_length [of "advance s"]
  by (auto simp: skip_quoted_def peek_def split: list.splits)

text \<open>Comments before a value are dropped.\<close>

function skip_comments :: "parser \<Rightarrow> parser" where
  "skip_comments s =
     (let (b, s1) = skip_comment s in if b then skip_comments (skip_whitespace s1) else s1)"
  by pat_completeness auto
termination
proof (relation "measure (\<lambda>s. length (p_chars s))")
  show "(skip_whitespace s1, s) \<in> measure (\<lambda>s. length (p_chars s))"
    if "x = skip_comment s" "(b, s1) = x" "b" for s x b s1
  proof -
    have "peek s = Some ''#''" using that by (auto simp: skip_comment_def split: if_splits)
    then have "length (p_chars s1) < length (p_chars s)"
      using skip_comment_length_less [of s] that by (metis snd_conv)
    then show ?thesis using skip_whitespace_length [of s1] by simp
  qed
qed simp

declare skip_comments.simps [simp del]

definition unclosed_clause_msg :: rstr where
  "unclosed_clause_msg =
     ''unclosed clause: expected '' @ [CHR 0x27] @ ''}'' @ [CHR 0x27] @ '' before end of file''"

text \<open>\<open>skip_clause\<close> reads past a clause the depth limit refuses, counting braces.\<close>

function skip_clause_loop :: "u32 \<Rightarrow> parser \<Rightarrow> parser" where
  "skip_clause_loop open_braces s =
     (if open_braces > 0 then
        (case peek s of
           None \<Rightarrow> push_error (pos s) unclosed_clause_msg s
         | Some c \<Rightarrow>
             (if c = ''#'' then skip_clause_loop open_braces (snd (skip_comment s))
              else if c = ch_quote then skip_clause_loop open_braces (skip_quoted s)
              else if c = ''{'' then skip_clause_loop (open_braces + 1) (advance s)
              else if c = ''}'' then skip_clause_loop (open_braces - 1) (advance s)
              else skip_clause_loop open_braces (advance s)))
      else s)"
  by pat_completeness auto
termination
proof (relation "measure (\<lambda>(n, s). length (p_chars s))")
  show "((n, snd (skip_comment s)), n, s) \<in> measure (\<lambda>(n, s). length (p_chars s))"
    if "peek s = Some c" "c = ''#''" for n s c
    using skip_comment_length_less that by auto
  show "((n, skip_quoted s), n, s) \<in> measure (\<lambda>(n, s). length (p_chars s))"
    if "peek s = Some c" for n s c
    using skip_quoted_length_less that by auto
qed (auto simp: peek_def split: list.splits)

declare skip_clause_loop.simps [simp del]

definition skip_clause :: "parser \<Rightarrow> parser" where
  "skip_clause s = skip_clause_loop 1 (advance s)"

section \<open>Colours and errors\<close>

text \<open>\<open>color_ahead\<close>: the peeked characters spell the keyword, with an optional \<open>360\<close>, and the
  character after it does not continue an identifier.\<close>

definition color_ahead :: "rust_env \<Rightarrow> rstr \<Rightarrow> rchar list \<Rightarrow> bool" where
  "color_ahead E kw peek7 \<longleftrightarrow>
     length peek7 \<ge> 3 \<and> list_all2 eq_ignore_ascii_case (take 3 peek7) (chars kw)
     \<and> (let kw_len = (if length peek7 \<ge> 6 \<and> take 3 (drop 3 peek7) = [''3'', ''6'', ''0''] then 6 else 3)
        in if length peek7 > kw_len then \<not> is_alphanumeric E (peek7 ! kw_len) else True)"

definition color_prefix :: "parser \<Rightarrow> parser" where
  "color_prefix s =
     (let s1 = skip_whitespace (advance_by 3 s);
          s2 = (if peek s1 = Some ''3'' \<and> peek_n 3 s1 = [''3'', ''6'', ''0'']
                then skip_whitespace (advance_by 3 s1) else s1)
      in if peek s2 = Some ''='' then skip_whitespace (advance s2) else s2)"

definition depth_msg :: rstr where
  "depth_msg = ''clause nesting deeper than the limit of '' @ show_nat (unat MAX_CLAUSE_DEPTH)
     @ ''; this subtree was skipped''"

definition no_value_msg :: "rstr \<Rightarrow> rstr" where
  "no_value_msg key = ''key '' @ [CHR 0x27] @ key @ [CHR 0x27] @ '' has no value after ''
     @ [CHR 0x27] @ ''='' @ [CHR 0x27]"

section \<open>Building nodes\<close>

definition finish_value ::
  "SourcePos \<Rightarrow> AstValue option \<times> parser \<Rightarrow> (AstValue \<times> SourceRange) option \<times> parser" where
  "finish_value start r =
     (case r of
        (None, s) \<Rightarrow> (None, s)
      | (Some v, s) \<Rightarrow>
          (Some (v, \<lparr>range_start = start, range_end = pos s\<rparr>), skip_whitespace s))"

definition add_leaf :: "Leaf \<Rightarrow> Child list \<Rightarrow> parser \<Rightarrow> Child list \<times> parser" where
  "add_leaf leaf out s =
     (let (idx, a) = push_leaf leaf (p_arena s) in (out @ [ChildLeaf idx], s\<lparr>p_arena := a\<rparr>))"

definition add_leaf_value :: "LeafValue \<Rightarrow> Child list \<Rightarrow> parser \<Rightarrow> Child list \<times> parser" where
  "add_leaf_value lv out s =
     (let (idx, a) = push_leaf_value lv (p_arena s) in (out @ [ChildLeafValue idx], s\<lparr>p_arena := a\<rparr>))"

definition parse_comment_stmt :: "Child list \<Rightarrow> parser \<Rightarrow> Child list \<times> parser" where
  "parse_comment_stmt out s =
     (if p_mode s = Preserve
      then (case consume_comment s of
              (Some comment, s1) \<Rightarrow>
                (let (idx, a) = push_comment comment (p_arena s1)
                 in (out @ [ChildComment idx], s1\<lparr>p_arena := a\<rparr>))
            | (None, s1) \<Rightarrow> (out, s1))
      else (out, snd (skip_comment s)))"

definition missing_value ::
  "rust_env \<Rightarrow> SourcePos \<Rightarrow> StringTokens \<Rightarrow> Operator \<Rightarrow> Child list \<Rightarrow> parser \<Rightarrow> Child list \<times> parser" where
  "missing_value E saved key op' out s =
     (let at_end = pos s;
          (tok, s1) = intern_in E [] s;
          (out', s2) = add_leaf \<lparr>leaf_key = key, leaf_val = VString tok, leaf_op = op',
             leaf_pos = \<lparr>range_start = saved, range_end = at_end\<rparr>,
             leaf_value_pos = \<lparr>range_start = at_end, range_end = at_end\<rparr>\<rparr> out s1;
          name = (case get_string (p_table s2) (tok_normal key) of Some x \<Rightarrow> x | None \<Rightarrow> [])
      in (out', push_error saved (no_value_msg name) s2))"

text \<open>What \<open>parse_value\<close> tries once clauses, quoted strings and colours are ruled out.\<close>

definition parse_scalar ::
  "rust_env \<Rightarrow> rchar list \<Rightarrow> SourcePos \<Rightarrow> parser \<Rightarrow> (AstValue \<times> SourceRange) option \<times> parser" where
  "parse_scalar E peek7 start s =
     (case parse_bool_keyword E peek7 s of
        (Some b, s1) \<Rightarrow> finish_value start (Some b, s1)
      | (None, s1) \<Rightarrow>
          (if take 3 peek7 = [''@'', ch_backslash, ''['']
           then finish_value start (parse_metaprogramming E s1)
           else finish_value start (parse_number_or_string E s1)))"

definition peek7_of :: "parser \<Rightarrow> rchar list" where
  "peek7_of s = (if peek s \<in> {Some ''r'', Some ''R'', Some ''h'', Some ''H'', Some ''y'', Some ''n'', Some ''@''}
     then peek_n 7 s else [])"

section \<open>The grammar\<close>

text \<open>
  The body of each function, over the functions it calls; the recursion itself follows.
\<close>

type_synonym 'a presult = "('a \<times> parser) option"

definition parse_value_body ::
  "rust_env \<Rightarrow> (parser \<Rightarrow> AstValue option presult) \<Rightarrow> (parser \<Rightarrow> AstValue option presult)
     \<Rightarrow> bool \<Rightarrow> parser \<Rightarrow> (AstValue \<times> SourceRange) option presult" where
  "parse_value_body E parse_color parse_cl leafvalue s =
     (let s1 = skip_comments (skip_whitespace s);
          start = pos s1
      in if peek s1 = Some ''{''
         then do {
           r \<leftarrow> parse_cl s1;
           Some (finish_value start r)
         }
         else if peek s1 = Some ch_quote
         then (let (tok, s2) = scan_quoted E (\<not> leafvalue) s1
               in Some (finish_value start (Some (VQString tok), s2)))
         else let peek7 = peek7_of s1; saved = save s1 in do {
           (rgb, s2) \<leftarrow> (if color_ahead E ''rgb'' peek7 then parse_color s1 else Some (None, s1));
           (case rgb of
              Some v \<Rightarrow> Some (finish_value start (Some v, s2))
            | None \<Rightarrow> do {
                (hsv, s3) \<leftarrow> (if color_ahead E ''hsv'' peek7
                                then parse_color (restore saved s2)
                                else Some (None, restore saved s2));
                (case hsv of
                   Some v \<Rightarrow> Some (finish_value start (Some v, s3))
                 | None \<Rightarrow> Some (parse_scalar E peek7 start (restore saved s3)))
              })
         })"

definition parse_clause_body ::
  "(Child list \<Rightarrow> parser \<Rightarrow> Child list presult) \<Rightarrow> parser \<Rightarrow> AstValue option presult" where
  "parse_clause_body loop s =
     (if peek s \<noteq> Some ''{'' then Some (None, s)
      else if p_depth s \<ge> MAX_CLAUSE_DEPTH
      then Some (Some (VClause []), skip_clause (push_error (pos s) depth_msg s))
      else let s1 = skip_whitespace (advance s) in do {
        (children, s2) \<leftarrow> loop [] (s1\<lparr>p_depth := p_depth s1 + 1\<rparr>);
        Some (Some (VClause children), s2\<lparr>p_depth := p_depth s2 - 1\<rparr>)
      })"

definition clause_loop_body ::
  "(Child list \<Rightarrow> parser \<Rightarrow> Child list presult) \<Rightarrow> (Child list \<Rightarrow> parser \<Rightarrow> Child list presult)
     \<Rightarrow> Child list \<Rightarrow> parser \<Rightarrow> Child list presult" where
  "clause_loop_body parse_stmt loop children s =
     (let s1 = skip_whitespace s
      in if peek s1 = Some ''}'' then Some (children, advance s1)
         else if peek s1 = None then Some (children, push_error (pos s1) unclosed_clause_msg s1)
         else do {
           (children', s2) \<leftarrow> parse_stmt children s1;
           loop children' s2
         })"

definition leaf_value_stmt ::
  "(bool \<Rightarrow> parser \<Rightarrow> (AstValue \<times> SourceRange) option presult) \<Rightarrow> SourcePos
     \<Rightarrow> Child list \<Rightarrow> parser \<Rightarrow> Child list presult" where
  "leaf_value_stmt parse_val saved out s = do {
     (v, s1) \<leftarrow> parse_val True s;
     (case v of
        Some (value, _) \<Rightarrow>
          Some (add_leaf_value \<lparr>lv_value = value,
            lv_pos = \<lparr>range_start = saved, range_end = pos s1\<rparr>\<rparr> out s1)
      | None \<Rightarrow> Some (out, advance s1))
   }"

definition parse_statement_body ::
  "rust_env \<Rightarrow> (bool \<Rightarrow> parser \<Rightarrow> (AstValue \<times> SourceRange) option presult)
     \<Rightarrow> (parser \<Rightarrow> AstValue option presult) \<Rightarrow> Child list \<Rightarrow> parser \<Rightarrow> Child list presult" where
  "parse_statement_body E parse_val parse_cl out s =
     (let s0 = skip_whitespace s
      in if peek s0 = Some ''#'' then Some (parse_comment_stmt out s0)
         else let saved = pos s0;
                  saved_cursor = save s0;
                  (key_opt, s1) = parse_key E s0
              in (case key_opt of
                    None \<Rightarrow> leaf_value_stmt parse_val saved out s1
                  | Some key \<Rightarrow>
                      (let (op_opt, s2) = parse_operator s1
                       in (case op_opt of
                             Some op' \<Rightarrow> do {
                               (v, s3) \<leftarrow> parse_val False s2;
                               (case v of
                                  Some (value, value_pos) \<Rightarrow>
                                    Some (add_leaf \<lparr>leaf_key = key, leaf_val = value, leaf_op = op',
                                      leaf_pos = \<lparr>range_start = saved, range_end = pos s3\<rparr>,
                                      leaf_value_pos = value_pos\<rparr> out s3)
                                | None \<Rightarrow> Some (missing_value E saved key op' out s3))
                             }
                           | None \<Rightarrow>
                               (let s3 = skip_whitespace s2; value_start = pos s3
                                in if peek s3 = Some ''{'' then do {
                                     (v, s4) \<leftarrow> parse_cl s3;
                                     (case v of
                                        Some value \<Rightarrow>
                                          (let value_end = pos s4; s5 = skip_whitespace s4
                                           in Some (add_leaf \<lparr>leaf_key = key, leaf_val = value,
                                                leaf_op = Equals,
                                                leaf_pos = \<lparr>range_start = saved, range_end = pos s5\<rparr>,
                                                leaf_value_pos =
                                                  \<lparr>range_start = value_start, range_end = value_end\<rparr>\<rparr>
                                                out s5))
                                      | None \<Rightarrow>
                                          leaf_value_stmt parse_val saved out (restore saved_cursor s4))
                                   }
                                   else leaf_value_stmt parse_val saved out (restore saved_cursor s3))))))"

fun parse_value :: "rust_env \<Rightarrow> nat \<Rightarrow> bool \<Rightarrow> parser \<Rightarrow> (AstValue \<times> SourceRange) option presult"
  and parse_color_clause :: "rust_env \<Rightarrow> nat \<Rightarrow> parser \<Rightarrow> AstValue option presult"
  and parse_clause :: "rust_env \<Rightarrow> nat \<Rightarrow> parser \<Rightarrow> AstValue option presult"
  and clause_loop :: "rust_env \<Rightarrow> nat \<Rightarrow> Child list \<Rightarrow> parser \<Rightarrow> Child list presult"
  and parse_statement :: "rust_env \<Rightarrow> nat \<Rightarrow> Child list \<Rightarrow> parser \<Rightarrow> Child list presult"
where
  "parse_value E 0 leafvalue s = None"
| "parse_value E (Suc n) leafvalue s =
     parse_value_body E (parse_color_clause E n) (parse_clause E n) leafvalue s"
| "parse_color_clause E 0 s = None"
| "parse_color_clause E (Suc n) s = parse_clause E n (color_prefix s)"
| "parse_clause E 0 s = None"
| "parse_clause E (Suc n) s = parse_clause_body (clause_loop E n) s"
| "clause_loop E 0 children s = None"
| "clause_loop E (Suc n) children s =
     clause_loop_body (parse_statement E n) (clause_loop E n) children s"
| "parse_statement E 0 out s = None"
| "parse_statement E (Suc n) out s =
     parse_statement_body E (parse_value E n) (parse_clause E n) out s"

fun root_loop :: "rust_env \<Rightarrow> nat \<Rightarrow> Child list \<Rightarrow> parser \<Rightarrow> (Child list \<times> parser) option" where
  "root_loop E 0 out s = None"
| "root_loop E (Suc n) out s =
     (if peek s = None then Some (out, s)
      else do {
        (out', s1) \<leftarrow> parse_statement E n out s;
        root_loop E n out' s1
      })"

text \<open>Five units of fuel for each character, and five to finish.\<close>

definition parse_fuel :: "rstr \<Rightarrow> nat" where
  "parse_fuel input = 5 * length (chars input) + 5"

definition parse :: "rust_env \<Rightarrow> nat \<Rightarrow> parser \<Rightarrow> (ParsedFile \<times> StringTable) option" where
  "parse E n s = do {
     (root, s1) \<leftarrow> root_loop E n [] (skip_whitespace s);
     Some (\<lparr>pf_arena = p_arena s1, root_children = root, pf_errors = p_errors s1\<rparr>, p_table s1)
   }"

definition strip_bom :: "rstr \<Rightarrow> rstr" where
  "strip_bom input =
     (if starts_with input [CHR 0xEF, CHR 0xBB, CHR 0xBF] then drop 3 input else input)"

definition parse_string_with_comment_mode ::
  "rust_env \<Rightarrow> rstr \<Rightarrow> StringTable \<Rightarrow> CommentMode \<Rightarrow> (ParsedFile \<times> StringTable) option" where
  "parse_string_with_comment_mode E input t mode =
     (let stripped = strip_bom input in parse E (parse_fuel stripped) (parser_new stripped t mode))"

definition parse_string :: "rust_env \<Rightarrow> rstr \<Rightarrow> StringTable \<Rightarrow> (ParsedFile \<times> StringTable) option" where
  "parse_string E input t = parse_string_with_comment_mode E input t Preserve"

definition parse_string_without_comments ::
  "rust_env \<Rightarrow> rstr \<Rightarrow> StringTable \<Rightarrow> (ParsedFile \<times> StringTable) option" where
  "parse_string_without_comments E input t = parse_string_with_comment_mode E input t Discard"

end
