(* ===== verification/Parser_Moves.thy ===== *)
theory Parser_Moves
  imports Parser
begin

text \<open>
  What every parser function does to the state: \<open>moves\<close> says the cursor went forward over
  some characters and that line and column are where those characters lead, that the mode
  and depth are back to what they were, that errors and arena only grew, and that the table
  is one a batch of \<open>intern\<close> calls leaves. It is a preorder, and each scanner has it.
\<close>

section \<open>Positions along the input\<close>

fun pos_step :: "u32 \<times> u16 \<Rightarrow> rchar \<Rightarrow> u32 \<times> u16" where
  "pos_step (l, c) ch =
     (if ch = ch_nl then (l + 1, 0) else if ch \<noteq> ch_cr then (l, sat_add_u16 c 1) else (l, c))"

definition pos_after :: "rchar list \<Rightarrow> u32 \<times> u16 \<Rightarrow> u32 \<times> u16" where
  "pos_after cs lc = foldl pos_step lc cs"

lemma pos_after_Nil [simp]: "pos_after [] lc = lc"
  by (simp add: pos_after_def)

lemma pos_after_append [simp]: "pos_after (cs @ ds) lc = pos_after ds (pos_after cs lc)"
  by (simp add: pos_after_def)

lemma pos_after_Cons [simp]: "pos_after (c # cs) lc = pos_after cs (pos_step lc c)"
  by (simp add: pos_after_def)

section \<open>The preorder\<close>

definition arena_extends :: "Arena \<Rightarrow> Arena \<Rightarrow> bool" where
  "arena_extends a b \<longleftrightarrow> prefix (leaves a) (leaves b) \<and> prefix (leaf_values a) (leaf_values b)
     \<and> prefix (comments a) (comments b)"

lemma arena_extends_refl [simp]: "arena_extends a a"
  by (simp add: arena_extends_def)

lemma arena_extends_trans: "arena_extends a b \<Longrightarrow> arena_extends b c \<Longrightarrow> arena_extends a c"
  by (auto simp: arena_extends_def intro: prefix_order.trans)

definition cursor_moves :: "rchar list \<Rightarrow> parser \<Rightarrow> parser \<Rightarrow> bool" where
  "cursor_moves cs s s' \<longleftrightarrow> p_chars s = cs @ p_chars s'
     \<and> (p_line s', p_col s') = pos_after cs (p_line s, p_col s)"

definition table_moves :: "rust_env \<Rightarrow> StringTable \<Rightarrow> StringTable \<Rightarrow> bool" where
  "table_moves E t t' \<longleftrightarrow> (\<exists>xs. t' = snd (intern_batch E xs t))"

definition moves :: "rust_env \<Rightarrow> parser \<Rightarrow> parser \<Rightarrow> bool" where
  "moves E s s' \<longleftrightarrow> (\<exists>cs. cursor_moves cs s s') \<and> p_mode s' = p_mode s \<and> p_depth s' = p_depth s
     \<and> prefix (p_errors s) (p_errors s') \<and> arena_extends (p_arena s) (p_arena s')
     \<and> table_moves E (p_table s) (p_table s')"

lemma cursor_moves_refl: "cursor_moves [] s s"
  by (simp add: cursor_moves_def)

lemma cursor_moves_trans: "cursor_moves cs a b \<Longrightarrow> cursor_moves ds b c \<Longrightarrow> cursor_moves (cs @ ds) a c"
  by (simp add: cursor_moves_def)

lemma intern_batch_append:
  "snd (intern_batch E (xs @ ys) t) = snd (intern_batch E ys (snd (intern_batch E xs t)))"
  by (induction xs arbitrary: t) auto

lemma table_moves_refl [simp]: "table_moves E t t"
  unfolding table_moves_def by (rule exI [of _ "[]"]) simp

lemma table_moves_trans: "table_moves E a b \<Longrightarrow> table_moves E b c \<Longrightarrow> table_moves E a c"
  unfolding table_moves_def by (metis intern_batch_append)

lemma table_moves_intern: "table_moves E t (snd (intern E s t))"
  unfolding table_moves_def by (rule exI [of _ "[s]"]) simp

lemma table_moves_inv: "table_moves E t t' \<Longrightarrow> table_inv E t \<Longrightarrow> table_inv E t'"
  by (auto simp: table_moves_def intro: intern_batch_inv)

lemma table_moves_extends: "table_moves E t t' \<Longrightarrow> table_extends t t'"
  by (auto simp: table_moves_def intro: intern_batch_extends)

lemma moves_refl [simp, intro]: "moves E s s"
  unfolding moves_def using cursor_moves_refl by auto

lemma moves_trans [trans]:
  assumes "moves E a b" "moves E b c"
  shows "moves E a c"
proof -
  have "\<exists>cs. cursor_moves cs a c"
    using assms unfolding moves_def by (meson cursor_moves_trans)
  then show ?thesis
    using assms unfolding moves_def
    by (auto intro: prefix_order.trans arena_extends_trans table_moves_trans)
qed

lemma moves_length: "moves E s s' \<Longrightarrow> length (p_chars s') \<le> length (p_chars s)"
  by (auto simp: moves_def cursor_moves_def)

section \<open>Cursor primitives\<close>

lemma peek_None_iff: "peek s = None \<longleftrightarrow> p_chars s = []"
  by (simp add: peek_def split: list.split)

lemma peek_Some_iff: "peek s = Some c \<longleftrightarrow> (\<exists>cs. p_chars s = c # cs)"
  by (auto simp: peek_def split: list.split)

lemma cursor_moves_advance:
  "p_chars s = c # cs \<Longrightarrow> cursor_moves [c] s (advance s)"
  by (simp add: cursor_moves_def advance_def)

lemma advance_frame [frame_simps]:
  "p_table (advance s) = p_table s" "p_arena (advance s) = p_arena s"
  "p_errors (advance s) = p_errors s" "p_mode (advance s) = p_mode s" "p_depth (advance s) = p_depth s"
  by (simp_all add: advance_def split: list.split)

lemma movesI:
  assumes "cursor_moves cs s s'" "p_mode s' = p_mode s" "p_depth s' = p_depth s"
    "p_errors s' = p_errors s" "p_arena s' = p_arena s" "p_table s' = p_table s"
  shows "moves E s s'"
  using assms unfolding moves_def by auto

lemma moves_advance [simp, intro]: "moves E s (advance s)"
proof (cases "p_chars s")
  case Nil
  then have "advance s = s" by (simp add: advance_def)
  then show ?thesis by simp
next
  case (Cons c cs)
  show ?thesis by (rule movesI [OF cursor_moves_advance [OF Cons]]) (simp_all add: frame_simps)
qed

lemma advance_length_less: "p_chars s \<noteq> [] \<Longrightarrow> length (p_chars (advance s)) < length (p_chars s)"
  by simp

lemma moves_advance_by: "moves E s (advance_by n s)"
  by (induction n s rule: advance_by.induct) (auto intro: moves_trans)

lemma advance_by_frame [frame_simps]:
  "p_table (advance_by n s) = p_table s" "p_arena (advance_by n s) = p_arena s"
  "p_errors (advance_by n s) = p_errors s"
  by (induction n s rule: advance_by.induct) (auto simp: frame_simps)

lemma p_chars_advance_by [simp]: "p_chars (advance_by n s) = drop n (p_chars s)"
  by (induction n s rule: advance_by.induct) (auto simp: drop_Suc)

lemma advance_while_induct_props:
  "moves E s (advance_while P s) \<and> p_arena (advance_while P s) = p_arena s
     \<and> p_table (advance_while P s) = p_table s \<and> p_errors (advance_while P s) = p_errors s"
proof (induction P s rule: advance_while.induct)
  case (1 P s)
  show ?case
  proof (cases "peek s")
    case None
    then show ?thesis by (simp add: advance_while.simps [of P s])
  next
    case (Some c)
    then show ?thesis
      using "1.IH" [OF Some] moves_trans [OF moves_advance]
      by (simp add: advance_while.simps [of P s] frame_simps)
  qed
qed

lemma moves_advance_while: "moves E s (advance_while P s)"
  by (simp add: advance_while_induct_props)

lemma advance_while_frame [frame_simps]:
  "p_arena (advance_while P s) = p_arena s" "p_table (advance_while P s) = p_table s"
  "p_errors (advance_while P s) = p_errors s"
  using advance_while_induct_props by blast+

lemma moves_skip_whitespace: "moves E s (skip_whitespace s)"
  by (simp add: skip_whitespace_def moves_advance_while)

lemma skip_whitespace_frame [frame_simps]:
  "p_arena (skip_whitespace s) = p_arena s" "p_table (skip_whitespace s) = p_table s"
  "p_errors (skip_whitespace s) = p_errors s"
  by (simp_all add: skip_whitespace_def frame_simps)

lemma moves_skip_line: "moves E s (skip_line s)"
  by (simp add: skip_line_def moves_advance_while)

lemma skip_line_frame [frame_simps]:
  "p_arena (skip_line s) = p_arena s" "p_table (skip_line s) = p_table s"
  "p_errors (skip_line s) = p_errors s"
  by (simp_all add: skip_line_def frame_simps)

lemma moves_skip_comment: "moves E s (snd (skip_comment s))"
  by (simp add: skip_comment_def moves_skip_line)

lemma skip_comment_frame [frame_simps]:
  "p_arena (snd (skip_comment s)) = p_arena s" "p_errors (snd (skip_comment s)) = p_errors s"
  "p_table (snd (skip_comment s)) = p_table s"
  by (simp_all add: skip_comment_def frame_simps)

lemma skip_comments_props:
  "moves E s (skip_comments s) \<and> p_arena (skip_comments s) = p_arena s
     \<and> p_table (skip_comments s) = p_table s \<and> p_errors (skip_comments s) = p_errors s"
proof (induction s rule: skip_comments.induct)
  case (1 s)
  obtain b s1 where r: "skip_comment s = (b, s1)" by force
  have m: "moves E s s1" and f: "p_arena s1 = p_arena s" "p_table s1 = p_table s" "p_errors s1 = p_errors s"
    using moves_skip_comment [of E s] skip_comment_frame [of s] r by auto
  show ?case
  proof (cases b)
    case True
    have "moves E s (skip_whitespace s1)" using m moves_skip_whitespace by (rule moves_trans)
    with 1 [OF r [symmetric] refl] True r f show ?thesis
      by (simp add: skip_comments.simps [of s] frame_simps) (blast intro: moves_trans)
  next
    case False
    with r m f show ?thesis by (simp add: skip_comments.simps [of s])
  qed
qed

lemma moves_skip_comments: "moves E s (skip_comments s)"
  by (simp add: skip_comments_props)

lemma skip_comments_frame [frame_simps]:
  "p_arena (skip_comments s) = p_arena s" "p_table (skip_comments s) = p_table s"
  "p_errors (skip_comments s) = p_errors s"
  using skip_comments_props by blast+

section \<open>Lexical functions\<close>

text \<open>Lexical functions leave the arena alone.\<close>

definition lexes :: "rust_env \<Rightarrow> parser \<Rightarrow> parser \<Rightarrow> bool" where
  "lexes E s s' \<longleftrightarrow> moves E s s' \<and> p_arena s' = p_arena s"

lemma lexes_refl [simp, intro]: "lexes E s s"
  by (simp add: lexes_def)

lemma lexes_trans [trans]: "lexes E a b \<Longrightarrow> lexes E b c \<Longrightarrow> lexes E a c"
  by (auto simp: lexes_def intro: moves_trans)

lemma lexes_moves: "lexes E s s' \<Longrightarrow> moves E s s'"
  by (simp add: lexes_def)

lemma lexes_arena: "lexes E s s' \<Longrightarrow> p_arena s' = p_arena s"
  by (simp add: lexes_def)

lemma lexes_advance: "lexes E s (advance s)"
  by (simp add: lexes_def frame_simps)

lemma lexes_advance_by: "lexes E s (advance_by n s)"
  by (simp add: lexes_def frame_simps moves_advance_by)

lemma lexes_advance_while: "lexes E s (advance_while P s)"
  by (simp add: lexes_def frame_simps moves_advance_while)

lemma lexes_skip_whitespace: "lexes E s (skip_whitespace s)"
  by (simp add: lexes_def frame_simps moves_skip_whitespace)

lemma lexes_skip_line: "lexes E s (skip_line s)"
  by (simp add: lexes_def frame_simps moves_skip_line)

lemma lexes_skip_comment: "lexes E s (snd (skip_comment s))"
  by (simp add: lexes_def frame_simps moves_skip_comment)

lemma lexes_skip_comments: "lexes E s (skip_comments s)"
  by (simp add: lexes_def frame_simps moves_skip_comments)

lemma cursor_moves_same:
  "p_chars s' = p_chars s \<Longrightarrow> p_line s' = p_line s \<Longrightarrow> p_col s' = p_col s \<Longrightarrow> \<exists>cs. cursor_moves cs s s'"
  by (rule exI [of _ "[]"]) (simp add: cursor_moves_def)

lemma lexes_push_error: "lexes E s (push_error at msg s)"
  by (simp add: lexes_def moves_def push_error_def cursor_moves_same)

lemma lexes_intern_in: "lexes E s (snd (intern_in E str s))"
proof -
  obtain tok t where r: "intern E str (p_table s) = (tok, t)" by force
  then have "table_moves E (p_table s) t" using table_moves_intern [of E "p_table s" str] by simp
  with r show ?thesis by (simp add: lexes_def moves_def intern_in_def cursor_moves_same)
qed

lemma lexes_intern_in': "intern_in E str s = (tok, s') \<Longrightarrow> lexes E s s'"
  using lexes_intern_in [of E s str] by simp

lemma moves_restore: "moves E s s' \<Longrightarrow> moves E s (restore (save s) s')"
  by (simp add: moves_def restore_def save_def cursor_moves_same)

lemma lexes_restore: "lexes E s s' \<Longrightarrow> lexes E s (restore (save s) s')"
  by (simp add: lexes_def moves_restore) (simp add: restore_def)

lemmas lexes_intros =
  lexes_advance lexes_advance_by lexes_advance_while lexes_skip_whitespace lexes_skip_line
  lexes_skip_comment lexes_skip_comments lexes_push_error lexes_intern_in

lemma lexes_skip_quoted_loop: "lexes E s (skip_quoted_loop s)"
proof (induction "length (p_chars s)" arbitrary: s rule: less_induct)
  case less
  show ?case
  proof (cases "p_chars s")
    case Nil
    then show ?thesis by (simp add: skip_quoted_loop.simps [of s] peek_def)
  next
    case (Cons c cs)
    then have pk: "peek s = Some c" by (simp add: peek_def)
    have one: "lexes E s (skip_quoted_loop (advance s))"
      using less [of "advance s"] Cons by (auto intro: lexes_trans [OF lexes_advance])
    have "length (tl cs) < Suc (length cs)" by simp
    then have "lexes E (advance (advance s)) (skip_quoted_loop (advance (advance s)))"
      using less [of "advance (advance s)"] Cons by simp
    then have "lexes E s (skip_quoted_loop (advance (advance s)))"
      by (blast intro: lexes_trans lexes_advance)
    with one show ?thesis
      by (simp only: skip_quoted_loop.simps [of s] pk option.simps split: if_split)
        (simp add: lexes_advance)
  qed
qed

lemma lexes_skip_quoted: "lexes E s (skip_quoted s)"
  unfolding skip_quoted_def by (rule lexes_trans [OF lexes_advance lexes_skip_quoted_loop])

lemma lexes_skip_clause_loop: "lexes E s (skip_clause_loop n s)"
proof (induction "length (p_chars s)" arbitrary: n s rule: less_induct)
  case less
  show ?case
  proof (cases "p_chars s")
    case Nil
    then show ?thesis
      by (simp add: skip_clause_loop.simps [of n s] peek_def lexes_push_error)
  next
    case (Cons c cs)
    then have pk: "peek s = Some c" by (simp add: peek_def)
    have one: "lexes E s (skip_clause_loop m (advance s))" for m
      using less [of "advance s"] Cons by (auto intro: lexes_trans [OF lexes_advance])
    have comment: "lexes E s (skip_clause_loop m (snd (skip_comment s)))" if "c = ''#''" for m
      using less skip_comment_length_less [of s] pk that
      by (auto intro: lexes_trans [OF lexes_skip_comment])
    have quoted: "lexes E s (skip_clause_loop m (skip_quoted s))" for m
      using less skip_quoted_length_less [OF pk] by (auto intro: lexes_trans [OF lexes_skip_quoted])
    show ?thesis
      using one quoted comment
      by (simp only: skip_clause_loop.simps [of n s] pk option.simps split: if_split) simp
  qed
qed

lemma lexes_skip_clause: "lexes E s (skip_clause s)"
  unfolding skip_clause_def by (rule lexes_trans [OF lexes_advance lexes_skip_clause_loop])

lemma lexes_parse_operator: "lexes E s (snd (parse_operator s))"
  unfolding parse_operator_def
  by (auto split: option.split intro: lexes_trans [OF lexes_advance_by lexes_skip_whitespace])

lemma lexes_scan_quoted_loop:
  "scan_quoted_loop seg owned s = (seg', owned', closed, s') \<Longrightarrow> lexes E s s'"
proof (induction "length (p_chars s)" arbitrary: seg owned s rule: less_induct)
  case less
  note eq = less.prems [unfolded scan_quoted_loop.simps [of seg owned s]]
  show ?case
  proof (cases "p_chars s")
    case Nil
    with eq show ?thesis by (simp add: peek_def)
  next
    case (Cons c cs)
    then have pk: "peek s = Some c" by (simp add: peek_def)
    have one: "lexes E s s'" if "scan_quoted_loop sg ow (advance s) = (seg', owned', closed, s')" for sg ow
      using less.hyps [OF _ that] Cons by (auto intro: lexes_trans [OF lexes_advance])
    have two: "lexes E s s'"
      if "scan_quoted_loop sg ow (advance (advance s)) = (seg', owned', closed, s')" for sg ow
    proof -
      have "length (tl cs) < Suc (length cs)" by simp
      then have "lexes E (advance (advance s)) s'" using less.hyps [OF _ that] Cons by simp
      then show ?thesis by (blast intro: lexes_trans lexes_advance)
    qed
    show ?thesis
      using eq pk one two lexes_advance [of E s]
      by (auto simp: Let_def split: option.splits if_splits)
  qed
qed

section \<open>Tokens\<close>

text \<open>A token is known to a table when it is what interning some string answers there.\<close>

definition known :: "rust_env \<Rightarrow> StringTable \<Rightarrow> StringTokens \<Rightarrow> bool" where
  "known E t tok \<longleftrightarrow> (\<exists>str. interned E t str tok)"

lemma known_mono: "known E t tok \<Longrightarrow> table_moves E t t' \<Longrightarrow> table_inv E t \<Longrightarrow> known E t' tok"
  unfolding known_def by (meson interned_extends table_moves_extends table_inv_length)

lemma known_intern_in:
  "intern_in E str s = (tok, s') \<Longrightarrow> table_inv E (p_table s) \<Longrightarrow> known E (p_table s') tok"
  using intern_interned [of E "p_table s" str]
  by (auto simp: intern_in_def known_def split: prod.splits)

lemma moves_table: "moves E s s' \<Longrightarrow> table_moves E (p_table s) (p_table s')"
  by (simp add: moves_def)

lemma moves_table_inv: "moves E s s' \<Longrightarrow> table_inv E (p_table s) \<Longrightarrow> table_inv E (p_table s')"
  by (blast intro: table_moves_inv moves_table)

lemma intern_in_chars [cursor_simps]:
  "intern_in E str s = (tok, s') \<Longrightarrow> p_chars s' = p_chars s"
  by (auto simp: intern_in_def split: prod.splits)

lemma push_error_chars [simp]: "p_chars (push_error at msg s) = p_chars s"
  by (simp add: push_error_def)

lemma push_error_table [simp]: "p_table (push_error at msg s) = p_table s"
  by (simp add: push_error_def)

section \<open>Scanners\<close>

lemma text_between_empty: "concat xs = [] \<Longrightarrow> \<forall>x\<in>set xs. x \<noteq> [] \<Longrightarrow> xs = []"
  by (cases xs) auto

definition chars_ok :: "parser \<Rightarrow> bool" where
  "chars_ok s \<longleftrightarrow> [] \<notin> set (p_chars s)"

lemma chars_ok_moves: "moves E s s' \<Longrightarrow> chars_ok s \<Longrightarrow> chars_ok s'"
  by (auto simp: chars_ok_def moves_def cursor_moves_def)

lemma text_between_Nil:
  assumes "chars_ok s" "p_chars s = cs @ p_chars s'" "text_between (p_chars s) (p_chars s') = []"
  shows "cs = []"
  using assms by (cases cs) (auto simp: text_between_def chars_ok_def)

lemma advance_while_none:
  assumes "chars_ok s" "text_between (p_chars s) (p_chars (advance_while P s)) = []"
  shows "p_chars (advance_while P s) = p_chars s"
proof -
  obtain cs where cs: "p_chars s = cs @ p_chars (advance_while P s)"
    using advance_while_p_chars [of s P] by blast
  then have "cs = []" by (rule text_between_Nil [OF assms(1) _ assms(2)])
  with cs show ?thesis by simp
qed

lemma advance_while_some:
  assumes "text_between (p_chars s) (p_chars (advance_while P s)) \<noteq> []"
  shows "length (p_chars (advance_while P s)) < length (p_chars s)"
  using assms advance_while_length [of P s] by (cases "length (p_chars s) = length (p_chars (advance_while P s))")
    (auto simp: text_between_def)

lemma scan_quoted_loop_length:
  "scan_quoted_loop seg owned s = (seg', owned', closed, s') \<Longrightarrow> length (p_chars s') \<le> length (p_chars s)"
  by (rule moves_length [OF lexes_moves [OF lexes_scan_quoted_loop [of _ _ _ _ _ _ _ ascii_env]]])

lemma scan_quoted_scans:
  assumes "scan_quoted E b s = (tok, s')"
  shows "lexes E s s'" and "table_inv E (p_table s) \<Longrightarrow> known E (p_table s') tok"
    and "p_chars s \<noteq> [] \<Longrightarrow> length (p_chars s') < length (p_chars s)"
proof -
  let ?s1 = "advance s"
  obtain seg owned closed s2 where l: "scan_quoted_loop (p_chars ?s1) None ?s1 = (seg, owned, closed, s2)"
    by (metis prod.exhaust)
  let ?s3 = "if b \<and> \<not> closed then push_error (pos s) (unclosed_msg (pos_line (pos s))) s2 else s2"
  obtain str where i: "intern_in E str ?s3 = (tok, s')"
    using assms unfolding scan_quoted_def by (auto simp: l [unfolded p_chars_advance] Let_def split: option.splits if_splits)
  have 2: "lexes E s s2" using lexes_advance lexes_scan_quoted_loop [OF l] by (rule lexes_trans)
  then have 3: "lexes E s ?s3" using lexes_trans [OF _ lexes_push_error] by simp
  with lexes_intern_in' [OF i] show "lexes E s s'" by (rule lexes_trans [rotated])
  show "known E (p_table s') tok" if "table_inv E (p_table s)"
    using known_intern_in [OF i] moves_table_inv [OF lexes_moves [OF 3] that] by simp
  show "length (p_chars s') < length (p_chars s)" if "p_chars s \<noteq> []"
    using scan_quoted_loop_length [OF l] intern_in_chars [OF i] that
    by (cases "p_chars s") (auto split: if_splits)
qed

lemma skip_whitespace_same_or_less:
  "skip_whitespace s = s \<or> length (p_chars (skip_whitespace s)) < length (p_chars s)"
proof (cases "peek s")
  case None
  then show ?thesis by (simp add: skip_whitespace_def advance_while.simps [of _ s])
next
  case (Some c)
  then show ?thesis
    using advance_while_length_less [OF Some, of "\<lambda>s c. is_whitespace c"]
    by (cases "is_whitespace c") (simp_all add: skip_whitespace_def advance_while.simps [of _ s])
qed

lemma parse_key_scans:
  assumes "parse_key E s = (r, s')" "chars_ok s"
  shows "lexes E s s'"
    and "r = Some key \<Longrightarrow> length (p_chars s') < length (p_chars s)"
    and "r = Some key \<Longrightarrow> table_inv E (p_table s) \<Longrightarrow> known E (p_table s') key"
    and "r = None \<Longrightarrow> p_chars s' = p_chars s"
proof -
  have "lexes E s s' \<and> (\<forall>key. r = Some key \<longrightarrow> length (p_chars s') < length (p_chars s)
      \<and> (table_inv E (p_table s) \<longrightarrow> known E (p_table s') key)) \<and> (r = None \<longrightarrow> p_chars s' = p_chars s)"
  proof (cases "peek s = Some ch_quote")
    case True
    obtain tok s1 where q: "scan_quoted E True s = (tok, s1)" by force
    from True have "p_chars s \<noteq> []" by (auto simp: peek_def)
    moreover have "r = Some tok" "s' = skip_whitespace s1"
      using assms(1) True q by (auto simp: parse_key_def)
    ultimately show ?thesis
      using scan_quoted_scans [OF q] lexes_trans [OF _ lexes_skip_whitespace] skip_whitespace_length [of s1]
      by (auto simp: frame_simps)
  next
    case False
    let ?s1 = "advance_while (key_cont E) s"
    show ?thesis
    proof (cases "text_between (p_chars s) (p_chars ?s1) = []")
      case True
      with assms(1) False have "r = None" "s' = ?s1" by (auto simp: parse_key_def Let_def)
      with advance_while_none [OF assms(2) True] show ?thesis by (simp add: lexes_advance_while)
    next
      case no: False
      obtain key s2 where i: "intern_in E (text_between (p_chars s) (p_chars ?s1)) (skip_whitespace ?s1) = (key, s2)"
        by force
      with assms(1) False no have r: "r = Some key" "s' = s2" by (auto simp: parse_key_def Let_def)
      have "lexes E s (skip_whitespace ?s1)"
        using lexes_advance_while lexes_skip_whitespace by (rule lexes_trans)
      then have "lexes E s s2" "table_inv E (p_table s) \<Longrightarrow> table_inv E (p_table (skip_whitespace ?s1))"
        using lexes_intern_in' [OF i] lexes_trans moves_table_inv lexes_moves by blast+
      with r known_intern_in [OF i] intern_in_chars [OF i] advance_while_some [OF no]
        skip_whitespace_length [of ?s1]
      show ?thesis by auto
    qed
  qed
  then show "lexes E s s'" "r = Some key \<Longrightarrow> length (p_chars s') < length (p_chars s)"
    "r = Some key \<Longrightarrow> table_inv E (p_table s) \<Longrightarrow> known E (p_table s') key"
    "r = None \<Longrightarrow> p_chars s' = p_chars s" by auto
qed

section \<open>Scalars\<close>

definition scalar_known :: "rust_env \<Rightarrow> StringTable \<Rightarrow> AstValue \<Rightarrow> bool" where
  "scalar_known E t v \<longleftrightarrow>
     (case v of VString tok \<Rightarrow> known E t tok | VQString tok \<Rightarrow> known E t tok
      | VClause _ \<Rightarrow> False | _ \<Rightarrow> True)"

definition is_clause :: "AstValue \<Rightarrow> bool" where
  "is_clause v \<longleftrightarrow> (case v of VClause ch \<Rightarrow> True | _ \<Rightarrow> False)"

lemma is_clause_simps [simp]:
  "\<not> is_clause (VString tok)" "\<not> is_clause (VQString tok)" "\<not> is_clause (VFloat d)"
  "\<not> is_clause (VInt i)" "\<not> is_clause (VBool b)" "is_clause (VClause ch)"
  by (simp_all add: is_clause_def)

text \<open>\<open>s\<close> reads the scalar \<open>v\<close> and stops at \<open>s'\<close>, having consumed something.\<close>

definition scans :: "rust_env \<Rightarrow> parser \<Rightarrow> AstValue \<Rightarrow> parser \<Rightarrow> bool" where
  "scans E s v s' \<longleftrightarrow> \<not> is_clause v \<and> lexes E s s' \<and> length (p_chars s') < length (p_chars s)
     \<and> (table_inv E (p_table s) \<longrightarrow> scalar_known E (p_table s') v)"

lemma lexes_length: "lexes E s s' \<Longrightarrow> length (p_chars s') \<le> length (p_chars s)"
  unfolding lexes_def using moves_length by blast

lemma lexes_table_inv: "lexes E s s' \<Longrightarrow> table_inv E (p_table s) \<Longrightarrow> table_inv E (p_table s')"
  by (blast intro: moves_table_inv lexes_moves)

lemma lexes_chars_ok: "lexes E s s' \<Longrightarrow> chars_ok s \<Longrightarrow> chars_ok s'"
  by (blast intro: chars_ok_moves lexes_moves)

lemma restore_chars [simp]: "p_chars (restore (save s) s') = p_chars s"
  by (simp add: restore_def save_def)

lemma scans_intern:
  assumes "lexes E s s1" "length (p_chars s1) < length (p_chars s)" "intern_in E str s1 = (tok, s2)"
  shows "scans E s (VString tok) s2" "scans E s (VQString tok) s2"
  using assms lexes_trans [OF assms(1) lexes_intern_in' [OF assms(3)]] known_intern_in [OF assms(3)]
    lexes_table_inv [OF assms(1)] intern_in_chars [OF assms(3)]
  by (auto simp: scans_def scalar_known_def)

lemma scans_from: "lexes E s s1 \<Longrightarrow> scans E s1 v s' \<Longrightarrow> scans E s v s'"
  using lexes_length lexes_table_inv lexes_trans unfolding scans_def by fastforce

lemma parse_bool_keyword_scans:
  assumes "parse_bool_keyword E peek7 s = (r, s')"
  shows "r = None \<Longrightarrow> s' = s" and "r = Some v \<Longrightarrow> p_chars s \<noteq> [] \<Longrightarrow> scans E s v s'"
  using assms unfolding parse_bool_keyword_def
  by (auto simp: scans_def scalar_known_def lexes_advance_by split: if_splits)

lemma lexes_scan_number: "lexes E s (scan_number d s)"
proof (induction "length (p_chars s)" arbitrary: d s rule: less_induct)
  case less
  show ?case
  proof (cases "p_chars s")
    case Nil
    then show ?thesis by (simp add: scan_number.simps [of d s] peek_def)
  next
    case (Cons c cs)
    then have "peek s = Some c" by (simp add: peek_def)
    moreover have "lexes E s (scan_number d' (advance s))" for d'
      using less [of "advance s"] Cons by (auto intro: lexes_trans [OF lexes_advance])
    ultimately show ?thesis by (simp add: scan_number.simps [of d s])
  qed
qed

lemma parse_plain_string_scans:
  assumes "parse_plain_string E s = (r, s')" "chars_ok s"
  shows "lexes E s s'" and "r = Some v \<Longrightarrow> scans E s v s'"
proof -
  let ?s1 = "advance_while (\<lambda>s c. is_value_char E c) s"
  let ?str = "text_between (p_chars s) (p_chars ?s1)"
  have "lexes E s s' \<and> (\<forall>v. r = Some v \<longrightarrow> scans E s v s')"
  proof (cases "?str = []")
    case True
    with assms show ?thesis by (auto simp: parse_plain_string_def Let_def lexes_advance_while)
  next
    case False
    obtain tok s2 where i: "intern_in E ?str ?s1 = (tok, s2)" by force
    have "scans E s (VString tok) s2"
      by (rule scans_intern(1) [OF lexes_advance_while advance_while_some [OF False] i])
    moreover have "r = Some (VString tok)" "s' = s2"
      using assms(1) False i by (auto simp: parse_plain_string_def Let_def)
    ultimately show ?thesis by (auto simp: scans_def)
  qed
  then show "lexes E s s'" "r = Some v \<Longrightarrow> scans E s v s'" by auto
qed

lemma number_value_scalar: "number_value str = Some v \<Longrightarrow> scalar_known E t v \<and> \<not> is_clause v"
  by (auto simp: number_value_def scalar_known_def split: option.splits)

lemma parse_number_or_string_scans:
  assumes "parse_number_or_string E s = (r, s')" "chars_ok s"
  shows "lexes E s s'" and "r = Some v \<Longrightarrow> scans E s v s'"
proof -
  let ?s1 = "if peek s = Some ''-'' \<or> peek s = Some ''+'' then advance s else s"
  let ?s2 = "scan_number False ?s1"
  let ?str = "text_between (p_chars s) (p_chars ?s2)"
  let ?num = "if at_token_end E ?s2 \<and> ?str \<noteq> [] \<and> ?str \<noteq> ''-'' \<and> ?str \<noteq> ''+''
                then number_value ?str else None"
  have "lexes E s ?s1" by (simp add: lexes_advance)
  then have 2: "lexes E s ?s2" using lexes_scan_number by (rule lexes_trans)
  have "lexes E s s' \<and> (\<forall>v. r = Some v \<longrightarrow> scans E s v s')"
  proof (cases ?num)
    case None
    then have "parse_plain_string E (restore (save s) ?s2) = (r, s')"
      using assms(1) by (simp add: parse_number_or_string_def Let_def)
    note p = parse_plain_string_scans [OF this]
    have 3: "lexes E s (restore (save s) ?s2)" using 2 by (rule lexes_restore)
    show ?thesis
      using p lexes_chars_ok [OF 3 assms(2)] lexes_trans [OF 3] scans_from [OF 3] by blast
  next
    case (Some v)
    then have "r = Some v" "s' = ?s2"
      using assms(1) by (simp_all add: parse_number_or_string_def Let_def)
    moreover have str: "?str \<noteq> []" "number_value ?str = Some v" using Some by (auto split: if_splits)
    moreover have "length (p_chars ?s2) < length (p_chars s)"
    proof (rule ccontr)
      assume "\<not> length (p_chars ?s2) < length (p_chars s)"
      then have "?str = []" by (simp add: text_between_def)
      with str(1) show False by contradiction
    qed
    ultimately show ?thesis using 2 number_value_scalar by (auto simp: scans_def)
  qed
  then show "lexes E s s'" "r = Some v \<Longrightarrow> scans E s v s'" by auto
qed

lemma lexes_if [simp]: "lexes E s (if b then x else y) \<longleftrightarrow> (if b then lexes E s x else lexes E s y)"
  by simp

lemma parse_metaprogramming_scans:
  assumes "parse_metaprogramming E s = (r, s')" "p_chars s \<noteq> []"
  shows "lexes E s s'" and "r = Some v \<Longrightarrow> scans E s v s'"
proof -
  let ?s1 = "advance s" let ?s2 = "advance ?s1" let ?s3 = "advance_while (\<lambda>s c. c \<noteq> '']'') (advance ?s2)"
  have 1: "lexes E s ?s1" by (rule lexes_advance)
  have 2: "lexes E s ?s2" using 1 lexes_advance by (rule lexes_trans)
  have 3: "lexes E s ?s3" using lexes_trans [OF 2 lexes_advance] lexes_advance_while by (rule lexes_trans)
  have 4: "lexes E s (advance ?s3)" using 3 lexes_advance by (rule lexes_trans)
  have less: "length (p_chars (advance ?s3)) < length (p_chars s)"
    using advance_while_length [of "\<lambda>s c. c \<noteq> '']''" "advance ?s2"] assms(2)
    by (cases "p_chars s") auto
  obtain tok s5 where i: "intern_in E (text_between (p_chars s) (p_chars (advance ?s3))) (advance ?s3) = (tok, s5)"
    by force
  have m: "scans E s (VString tok) s5" using 4 less i by (rule scans_intern(1))
  have "lexes E s s' \<and> (\<forall>v. r = Some v \<longrightarrow> scans E s v s')"
    using assms(1) 1 2 m i lexes_trans [OF 3 lexes_push_error]
    by (auto simp: parse_metaprogramming_def Let_def scans_def split: if_splits)
  then show "lexes E s s'" "r = Some v \<Longrightarrow> scans E s v s'" by auto
qed

lemma lexes_color_prefix: "lexes E s (color_prefix s)"
proof -
  let ?s1 = "skip_whitespace (advance_by 3 s)"
  have 1: "lexes E s ?s1" using lexes_advance_by lexes_skip_whitespace by (rule lexes_trans)
  have "lexes E ?s1 (skip_whitespace (advance_by 3 ?s1))"
    using lexes_advance_by lexes_skip_whitespace by (rule lexes_trans)
  then have 2: "lexes E s (if b then skip_whitespace (advance_by 3 ?s1) else ?s1)" for b
    using lexes_trans [OF 1] 1 by simp
  have 3: "lexes E x (skip_whitespace (advance x))" for x
    using lexes_advance lexes_skip_whitespace by (rule lexes_trans)
  show ?thesis
    unfolding color_prefix_def Let_def using 2 lexes_trans [OF 2 3] by (simp only: split: if_split)
      blast
qed

section \<open>Readings\<close>

text \<open>What a value parse may do: read \<open>v\<close> from \<open>start\<close> to \<open>mid\<close>, then skip white space.\<close>

definition value_ends :: "rust_env \<Rightarrow> parser \<Rightarrow> parser \<Rightarrow> SourceRange \<Rightarrow> parser \<Rightarrow> bool" where
  "value_ends E start mid rg s' \<longleftrightarrow>
     lexes E mid s' \<and> rg = \<lparr>range_start = pos start, range_end = pos mid\<rparr>"

lemma finish_value_ends:
  assumes "finish_value (pos start) (r, mid) = (x, s')"
  shows "r = None \<Longrightarrow> x = None \<and> s' = mid"
    and "r = Some v \<Longrightarrow> \<exists>rg. x = Some (v, rg) \<and> value_ends E start mid rg s'"
  using assms by (auto simp: finish_value_def value_ends_def lexes_skip_whitespace)

lemma parse_scalar_scans:
  assumes "parse_scalar E peek7 (pos s) s = (x, s')" "chars_ok s" "peek7 \<noteq> [] \<Longrightarrow> p_chars s \<noteq> []"
  shows "x = None \<Longrightarrow> lexes E s s'"
    and "x = Some (v, rg) \<Longrightarrow> \<exists>mid. scans E s v mid \<and> value_ends E s mid rg s'"
proof -
  obtain b s1 where b: "parse_bool_keyword E peek7 s = (b, s1)" by force
  note bk = parse_bool_keyword_scans [OF b]
  have bsome: "p_chars s \<noteq> []" if "b = Some w" for w
    using b that assms(3) by (cases "peek7 = []") (auto simp: parse_bool_keyword_def split: if_splits)
  obtain m sm where m: "parse_metaprogramming E s = (m, sm)" by force
  obtain n sn where n: "parse_number_or_string E s = (n, sn)" by force
  have "\<exists>r mid. finish_value (pos s) (r, mid) = (x, s') \<and> lexes E s mid \<and> (\<forall>w. r = Some w \<longrightarrow> scans E s w mid)"
  proof (cases b)
    case (Some w)
    then show ?thesis
      using assms(1) b bk(2) bsome by (auto simp: parse_scalar_def scans_def)
  next
    case None
    have "p_chars s \<noteq> []" if "take 3 peek7 = [''@'', ch_backslash, ''['']"
      using that assms(3) by (cases peek7) auto
    then show ?thesis
      using assms(1) None b bk(1) m n parse_metaprogramming_scans [OF m]
        parse_number_or_string_scans [OF n assms(2)]
      by (auto simp: parse_scalar_def split: if_splits)
  qed
  then obtain r mid where f: "finish_value (pos s) (r, mid) = (x, s')" and l: "lexes E s mid"
    and sc: "\<And>w. r = Some w \<Longrightarrow> scans E s w mid" by blast
  note fe = finish_value_ends [OF f]
  show "lexes E s s'" if "x = None"
    using that fe l by (cases r) auto
  show "\<exists>mid. scans E s v mid \<and> value_ends E s mid rg s'" if "x = Some (v, rg)"
    using that fe(1) fe(2) [where E = E] sc by (cases r) auto
qed

end
