(* ===== verification/Parser_Derivation.thy ===== *)
theory Parser_Derivation
  imports Parser_Moves
begin

text \<open>
  An abstract grammar of what the parser may do, and the theorem that the fuelled functions
  implement it. \<open>value_builds\<close>, \<open>loop_builds\<close> and \<open>stmt_builds\<close> are inductive: they say where
  a value, the children of a clause and a statement begin and end, which scanning
  (\<open>lexes\<close>) surrounds them and which node is pushed on the arena, and leave out how the
  choice between the alternatives is made. \<open>parse_value_spec\<close> and its companions prove,
  for enough fuel, that a result exists and that it is derivable; the invariants of the
  syntax tree are then rule inductions.
\<close>

section \<open>The abstract grammar\<close>

inductive value_builds :: "rust_env \<Rightarrow> parser \<Rightarrow> AstValue \<Rightarrow> parser \<Rightarrow> bool"
  and loop_builds :: "rust_env \<Rightarrow> Child list \<Rightarrow> parser \<Rightarrow> Child list \<Rightarrow> parser \<Rightarrow> bool"
  and stmt_builds :: "rust_env \<Rightarrow> Child list \<Rightarrow> parser \<Rightarrow> Child list \<Rightarrow> parser \<Rightarrow> bool"
  for E :: rust_env
where
  scalar: "scans E s v s' \<Longrightarrow> value_builds E s v s'"
| deep: "\<lbrakk>MAX_CLAUSE_DEPTH \<le> p_depth s; lexes E s s'; length (p_chars s') < length (p_chars s)\<rbrakk>
    \<Longrightarrow> value_builds E s (VClause []) s'"
| clause: "\<lbrakk>p_depth s < MAX_CLAUSE_DEPTH; lexes E s s1; length (p_chars s1) < length (p_chars s);
      loop_builds E [] (s1\<lparr>p_depth := p_depth s1 + 1\<rparr>) ch s2\<rbrakk>
    \<Longrightarrow> value_builds E s (VClause ch) (s2\<lparr>p_depth := p_depth s2 - 1\<rparr>)"
| finish: "lexes E s s' \<Longrightarrow> loop_builds E ch s ch s'"
| turn: "\<lbrakk>stmt_builds E ch s ch1 s1; loop_builds E ch1 s1 ch2 s2\<rbrakk> \<Longrightarrow> loop_builds E ch s ch2 s2"
| skip: "lexes E s s' \<Longrightarrow> stmt_builds E out s out s'"
| comment: "\<lbrakk>lexes E s s0; lexes E s0 s1; length (p_chars s1) < length (p_chars s0);
      comment_pos c = \<lparr>range_start = pos s0, range_end = pos s1\<rparr>; push_comment c (p_arena s1) = (i, a)\<rbrakk>
    \<Longrightarrow> stmt_builds E out s (out @ [ChildComment i]) (s1\<lparr>p_arena := a\<rparr>)"
| leaf: "\<lbrakk>lexes E s s0; lexes E s0 s1; length (p_chars s1) < length (p_chars s0);
      table_inv E (p_table s0) \<longrightarrow> known E (p_table s1) (leaf_key l);
      value_builds E s1 (leaf_val l) s2; lexes E s2 s3;
      leaf_value_pos l = \<lparr>range_start = pos s1, range_end = pos s2\<rparr>;
      leaf_pos l = \<lparr>range_start = pos s0, range_end = pos s3\<rparr>;
      push_leaf l (p_arena s3) = (i, a)\<rbrakk>
    \<Longrightarrow> stmt_builds E out s (out @ [ChildLeaf i]) (s3\<lparr>p_arena := a\<rparr>)"
| missing: "\<lbrakk>lexes E s s0; lexes E s0 s1; length (p_chars s1) < length (p_chars s0);
      table_inv E (p_table s0) \<longrightarrow> known E (p_table s1) (leaf_key l);
      leaf_val l = VString tok; table_inv E (p_table s0) \<longrightarrow> known E (p_table s1) tok;
      leaf_value_pos l = \<lparr>range_start = pos s1, range_end = pos s1\<rparr>;
      leaf_pos l = \<lparr>range_start = pos s0, range_end = pos s1\<rparr>;
      push_leaf l (p_arena s1) = (i, a); lexes E (s1\<lparr>p_arena := a\<rparr>) s2\<rbrakk>
    \<Longrightarrow> stmt_builds E out s (out @ [ChildLeaf i]) s2"
| leaf_value: "\<lbrakk>lexes E s s0; lexes E s0 s1; value_builds E s1 (lv_value lv) s2; lexes E s2 s3;
      lv_pos lv = \<lparr>range_start = pos s0, range_end = pos s3\<rparr>;
      push_leaf_value lv (p_arena s3) = (i, a)\<rbrakk>
    \<Longrightarrow> stmt_builds E out s (out @ [ChildLeafValue i]) (s3\<lparr>p_arena := a\<rparr>)"

section \<open>Every derivation moves forward\<close>

lemma moves_arena:
  assumes "moves E s s'" "arena_extends (p_arena s') a"
  shows "moves E s (s'\<lparr>p_arena := a\<rparr>)"
  using assms arena_extends_trans unfolding moves_def cursor_moves_def by fastforce

lemma push_extends:
  "push_leaf l a = (i, a') \<Longrightarrow> arena_extends a a'"
  "push_leaf_value lv a = (i, a') \<Longrightarrow> arena_extends a a'"
  "push_comment c a = (i, a') \<Longrightarrow> arena_extends a a'"
  by (auto simp: push_leaf_def push_leaf_value_def push_comment_def arena_extends_def)

lemma moves_depth: "moves E s s' \<Longrightarrow> p_depth s' = p_depth s"
  by (simp add: moves_def)

lemma lexes_depth: "lexes E s s' \<Longrightarrow> p_depth s' = p_depth s"
  unfolding lexes_def moves_def by simp

lemma moves_nested:
  assumes "moves E (s\<lparr>p_depth := p_depth s + 1\<rparr>) s'"
  shows "moves E s (s'\<lparr>p_depth := p_depth s' - 1\<rparr>)"
  using assms unfolding moves_def cursor_moves_def by auto

lemma moves_leaf:
  assumes "moves E s s'" "push_leaf l (p_arena s') = (i, a)"
  shows "moves E s (s'\<lparr>p_arena := a\<rparr>)"
  using assms(1) push_extends(1) [OF assms(2)] by (rule moves_arena)

lemma moves_leaf_value:
  assumes "moves E s s'" "push_leaf_value l (p_arena s') = (i, a)"
  shows "moves E s (s'\<lparr>p_arena := a\<rparr>)"
  using assms(1) push_extends(2) [OF assms(2)] by (rule moves_arena)

lemma moves_comment:
  assumes "moves E s s'" "push_comment l (p_arena s') = (i, a)"
  shows "moves E s (s'\<lparr>p_arena := a\<rparr>)"
  using assms(1) push_extends(3) [OF assms(2)] by (rule moves_arena)

lemma builds_moves:
  "value_builds E s v s' \<Longrightarrow> moves E s s' \<and> length (p_chars s') < length (p_chars s)"
  "loop_builds E ch s ch' s' \<Longrightarrow> moves E s s'"
  "stmt_builds E out s out' s' \<Longrightarrow> moves E s s'"
proof (induction rule: value_builds_loop_builds_stmt_builds.inducts)
  case (clause s s1 ch s2)
  note nested = \<open>moves E (s1\<lparr>p_depth := p_depth s1 + 1\<rparr>) s2\<close>
  have "moves E s (s2\<lparr>p_depth := p_depth s2 - 1\<rparr>)"
    using lexes_moves [OF \<open>lexes E s s1\<close>] moves_nested [OF nested] by (rule moves_trans)
  then show ?case using moves_length [OF nested] clause by simp
next
  case (comment s s0 s1 c i a out)
  then have "moves E s s1" by (meson lexes_moves moves_trans)
  then show ?case using \<open>push_comment c (p_arena s1) = (i, a)\<close> by (rule moves_comment)
next
  case (leaf s s0 s1 l s2 s3 i a out)
  then have "moves E s s3" by (meson lexes_moves moves_trans)
  then show ?case using \<open>push_leaf l (p_arena s3) = (i, a)\<close> by (rule moves_leaf)
next
  case (missing s s0 s1 l tok i a s2 out)
  then have "moves E s s1" by (meson lexes_moves moves_trans)
  then have "moves E s (s1\<lparr>p_arena := a\<rparr>)"
    using \<open>push_leaf l (p_arena s1) = (i, a)\<close> by (rule moves_leaf)
  then show ?case using \<open>lexes E (s1\<lparr>p_arena := a\<rparr>) s2\<close> by (meson lexes_moves moves_trans)
next
  case (leaf_value s s0 s1 lv s2 s3 i a out)
  then have "moves E s s3" by (meson lexes_moves moves_trans)
  then show ?case using \<open>push_leaf_value lv (p_arena s3) = (i, a)\<close> by (rule moves_leaf_value)
qed (auto simp: scans_def dest: lexes_moves intro: moves_trans)

section \<open>The functions implement the grammar\<close>

lemma value_builds_from:
  assumes "lexes E s s1" "value_builds E s1 v s'"
  shows "value_builds E s v s'"
  using assms(2)
proof (cases rule: value_builds.cases)
  case scalar
  then show ?thesis using scans_from [OF assms(1)] value_builds_loop_builds_stmt_builds.scalar by blast
next
  case deep
  then show ?thesis
    using lexes_depth [OF assms(1)] lexes_length [OF assms(1)] lexes_trans [OF assms(1)]
    by (auto intro!: value_builds_loop_builds_stmt_builds.deep)
next
  case (clause s2 ch s3)
  have "p_depth s < MAX_CLAUSE_DEPTH" "length (p_chars s2) < length (p_chars s)"
    using clause lexes_depth [OF assms(1)] lexes_length [OF assms(1)] by auto
  then show ?thesis
    using clause value_builds_loop_builds_stmt_builds.clause [OF _ lexes_trans [OF assms(1)], of s2 ch s3]
    by simp
qed

lemma loop_builds_from:
  assumes "lexes E s s1" "stmt_builds E ch s1 ch1 s2" "loop_builds E ch1 s2 ch2 s3"
  shows "loop_builds E ch s ch2 s3"
  using turn [OF skip [OF assms(1)] turn [OF assms(2,3)]] .

definition value_result ::
  "rust_env \<Rightarrow> parser \<Rightarrow> (AstValue \<times> SourceRange) option \<Rightarrow> parser \<Rightarrow> bool" where
  "value_result E s r s' \<longleftrightarrow>
     (case r of
        None \<Rightarrow> lexes E s s'
      | Some (v, rg) \<Rightarrow>
          \<exists>st mid. lexes E s st \<and> value_builds E st v mid \<and> lexes E mid s'
            \<and> rg = \<lparr>range_start = pos st, range_end = pos mid\<rparr>)"

definition clause_result :: "rust_env \<Rightarrow> parser \<Rightarrow> AstValue option \<Rightarrow> parser \<Rightarrow> bool" where
  "clause_result E s r s' \<longleftrightarrow>
     (case r of None \<Rightarrow> lexes E s s' | Some v \<Rightarrow> value_builds E s v s')"

definition stmt_result :: "rust_env \<Rightarrow> Child list \<Rightarrow> parser \<Rightarrow> Child list \<Rightarrow> parser \<Rightarrow> bool" where
  "stmt_result E out s out' s' \<longleftrightarrow> stmt_builds E out s out' s'
     \<and> (p_chars s \<noteq> [] \<longrightarrow> length (p_chars s') < length (p_chars s))"

lemma finish_value_result:
  assumes "value_builds E s v mid" "finish_value (pos s) (Some v, mid) = (r, s')"
  shows "value_result E s r s'"
proof -
  have "r = Some (v, \<lparr>range_start = pos s, range_end = pos mid\<rparr>)" "s' = skip_whitespace mid"
    using assms(2) by (auto simp: finish_value_def)
  then show ?thesis
    unfolding value_result_def using lexes_refl assms(1) lexes_skip_whitespace by fastforce
qed

lemma finish_clause_result:
  assumes "clause_result E s c mid" "finish_value (pos s) (c, mid) = (r, s')"
  shows "value_result E s r s'"
proof (cases c)
  case None
  with assms show ?thesis by (auto simp: clause_result_def finish_value_def value_result_def)
next
  case (Some v)
  with assms(1) have "value_builds E s v mid" by (simp add: clause_result_def)
  then show ?thesis using assms(2) Some by (auto intro: finish_value_result)
qed

lemma value_result_from: "lexes E s s1 \<Longrightarrow> value_result E s1 r s' \<Longrightarrow> value_result E s r s'"
  unfolding value_result_def by (auto split: option.splits intro: lexes_trans)

lemma clause_result_from: "lexes E s s1 \<Longrightarrow> clause_result E s1 r s' \<Longrightarrow> clause_result E s r s'"
  unfolding clause_result_def by (auto split: option.splits intro: lexes_trans value_builds_from)

lemma parse_clause_body_spec:
  assumes "\<And>ch t. chars_ok t \<Longrightarrow> length (p_chars t) < length (p_chars s) \<Longrightarrow>
      \<exists>ch' t'. loop ch t = Some (ch', t') \<and> loop_builds E ch t ch' t'"
    and "chars_ok s"
  shows "\<exists>r s'. parse_clause_body loop s = Some (r, s') \<and> clause_result E s r s'"
proof (cases "peek s = Some ''{''")
  case False
  then show ?thesis by (auto simp: parse_clause_body_def clause_result_def)
next
  case True
  then have ne: "p_chars s \<noteq> []" by (auto simp: peek_def)
  let ?s1 = "skip_whitespace (advance s)"
  have 1: "lexes E s ?s1" using lexes_advance lexes_skip_whitespace by (rule lexes_trans)
  have less: "length (p_chars ?s1) < length (p_chars s)"
    using skip_whitespace_length [of "advance s"] advance_length_less [OF ne] by simp
  show ?thesis
  proof (cases "MAX_CLAUSE_DEPTH \<le> p_depth s")
    case deep: True
    let ?s' = "skip_clause (push_error (pos s) depth_msg s)"
    have "lexes E s ?s'" using lexes_push_error lexes_skip_clause by (rule lexes_trans)
    moreover have "length (p_chars ?s') < length (p_chars s)"
      using lexes_length [OF lexes_skip_clause_loop [of ascii_env "advance (push_error (pos s) depth_msg s)" 1]]
        advance_length_less [of "push_error (pos s) depth_msg s"] ne
      by (simp add: skip_clause_def) (metis Suc_pred length_greater_0_conv less_Suc_eq_le)
    ultimately show ?thesis
      using True deep by (simp add: parse_clause_body_def clause_result_def)
        (blast intro: value_builds_loop_builds_stmt_builds.deep)
  next
    case shallow: False
    have "chars_ok (?s1\<lparr>p_depth := p_depth ?s1 + 1\<rparr>)"
      using lexes_chars_ok [OF 1 assms(2)] by (simp add: chars_ok_def)
    then obtain ch s2 where r: "loop [] (?s1\<lparr>p_depth := p_depth ?s1 + 1\<rparr>) = Some (ch, s2)"
      and b: "loop_builds E [] (?s1\<lparr>p_depth := p_depth ?s1 + 1\<rparr>) ch s2"
      using assms(1) [of "?s1\<lparr>p_depth := p_depth ?s1 + 1\<rparr>" "[]"] less by auto
    have "value_builds E s (VClause ch) (s2\<lparr>p_depth := p_depth s2 - 1\<rparr>)"
      using value_builds_loop_builds_stmt_builds.clause [OF _ 1 less b] shallow by simp
    then show ?thesis
      using True shallow r by (simp add: parse_clause_body_def clause_result_def Let_def)
  qed
qed

lemma clause_loop_body_spec:
  assumes "\<And>out t. chars_ok t \<Longrightarrow> length (p_chars t) \<le> length (p_chars s) \<Longrightarrow>
      \<exists>out' t'. stmt out t = Some (out', t') \<and> stmt_result E out t out' t'"
    and "\<And>ch t. chars_ok t \<Longrightarrow> length (p_chars t) < length (p_chars s) \<Longrightarrow>
      \<exists>ch' t'. loop ch t = Some (ch', t') \<and> loop_builds E ch t ch' t'"
    and "chars_ok s"
  shows "\<exists>ch' s'. clause_loop_body stmt loop ch s = Some (ch', s') \<and> loop_builds E ch s ch' s'"
proof -
  let ?s1 = "skip_whitespace s"
  have 1: "lexes E s ?s1" by (rule lexes_skip_whitespace)
  note ok = lexes_chars_ok [OF 1 assms(3)]
  show ?thesis
  proof (cases "peek ?s1 = Some ''}'' \<or> peek ?s1 = None")
    case True
    then show ?thesis
      using finish [OF lexes_trans [OF 1 lexes_advance]] finish [OF lexes_trans [OF 1 lexes_push_error]]
      by (auto simp: clause_loop_body_def Let_def)
  next
    case False
    then have ne: "p_chars ?s1 \<noteq> []" by (auto simp: peek_def)
    obtain ch1 s2 where r: "stmt ch ?s1 = Some (ch1, s2)" and st: "stmt_result E ch ?s1 ch1 s2"
      using assms(1) [OF ok] skip_whitespace_length by blast
    then have b: "stmt_builds E ch ?s1 ch1 s2" and less: "length (p_chars s2) < length (p_chars s)"
      using ne skip_whitespace_length [of s] by (auto simp: stmt_result_def)
    have "chars_ok s2" using chars_ok_moves [OF builds_moves(3) [OF b] ok] .
    then obtain ch2 s3 where r2: "loop ch1 s2 = Some (ch2, s3)" and b2: "loop_builds E ch1 s2 ch2 s3"
      using assms(2) less by blast
    have "loop_builds E ch s ch2 s3" using loop_builds_from [OF 1 b b2] .
    with False r r2 show ?thesis by (auto simp: clause_loop_body_def Let_def)
  qed
qed

lemma pos_restore [simp]: "pos (restore (save s) t) = pos s"
  by (simp add: pos_def restore_def save_def)

lemma peek7_of_nonempty: "peek7_of s \<noteq> [] \<Longrightarrow> p_chars s \<noteq> []"
  by (auto simp: peek7_of_def peek_n_def split: if_splits)

lemma parse_scalar_result:
  assumes "parse_scalar E peek7 start t = (r, t')" "chars_ok t" "start = pos t"
    and "peek7 \<noteq> [] \<Longrightarrow> p_chars t \<noteq> []"
  shows "value_result E t r t'"
proof (cases r)
  case None
  then show ?thesis
    using parse_scalar_scans(1) [OF assms(1) [unfolded assms(3)] assms(2,4)] by (simp add: value_result_def)
next
  case (Some vr)
  then obtain v rg mid where r: "r = Some (v, rg)" and "scans E t v mid" "value_ends E t mid rg t'"
    using parse_scalar_scans(2) [OF assms(1) [unfolded assms(3)] assms(2,4)] by (cases vr) blast
  then show ?thesis
    unfolding value_result_def value_ends_def
    using lexes_refl value_builds_loop_builds_stmt_builds.scalar by fastforce
qed

lemma parse_value_body_spec:
  assumes color: "\<And>t. chars_ok t \<Longrightarrow> length (p_chars t) \<le> length (p_chars s) \<Longrightarrow>
      \<exists>r t'. parse_color t = Some (r, t') \<and> clause_result E t r t'"
    and cl: "\<And>t. chars_ok t \<Longrightarrow> length (p_chars t) \<le> length (p_chars s) \<Longrightarrow>
      \<exists>r t'. parse_cl t = Some (r, t') \<and> clause_result E t r t'"
    and ok: "chars_ok s"
  shows "\<exists>r s'. parse_value_body E parse_color parse_cl leafvalue s = Some (r, s') \<and> value_result E s r s'"
proof -
  define s1 where "s1 = skip_comments (skip_whitespace s)"
  have 1: "lexes E s s1"
    unfolding s1_def using lexes_skip_whitespace lexes_skip_comments by (rule lexes_trans)
  note ok1 = lexes_chars_ok [OF 1 ok] and len1 = lexes_length [OF 1]
  note body = parse_value_body_def Let_def s1_def [symmetric]
  have "\<exists>r s'. parse_value_body E parse_color parse_cl leafvalue s = Some (r, s') \<and> value_result E s1 r s'"
  proof (cases "peek s1 = Some ''{''")
    case True
    obtain r s2 where r: "parse_cl s1 = Some (r, s2)" "clause_result E s1 r s2"
      using cl [OF ok1 len1] by blast
    moreover obtain x s' where f: "finish_value (pos s1) (r, s2) = (x, s')" by force
    ultimately show ?thesis
      using True finish_clause_result [OF r(2) f] by (simp add: body)
  next
    case brace: False
    show ?thesis
    proof (cases "peek s1 = Some ch_quote")
      case True
      obtain tok s2 where q: "scan_quoted E (\<not> leafvalue) s1 = (tok, s2)" by force
      obtain x s' where f: "finish_value (pos s1) (Some (VQString tok), s2) = (x, s')" by force
      have "p_chars s1 \<noteq> []" using True by (auto simp: peek_def)
      then have "scans E s1 (VQString tok) s2"
        using scan_quoted_scans [OF q] by (simp add: scans_def scalar_known_def)
      then have "value_result E s1 x s'"
        using finish_value_result [OF value_builds_loop_builds_stmt_builds.scalar f] by blast
      with True brace q f show ?thesis by (simp add: body)
    next
      case quote: False
      let ?p = "peek7_of s1"
      have tr: "\<exists>r t'. (if b then parse_color t else Some (None, t)) = Some (r, t') \<and> clause_result E t r t'"
        if "chars_ok t" "length (p_chars t) \<le> length (p_chars s)" for b t
        using color [OF that] by (auto simp: clause_result_def)
      obtain c1 s2 where c1: "(if color_ahead E ''rgb'' ?p then parse_color s1 else Some (None, s1)) = Some (c1, s2)"
        and r1: "clause_result E s1 c1 s2" using tr [OF ok1 len1] by blast
      show ?thesis
      proof (cases c1)
        case (Some v)
        obtain x s' where f: "finish_value (pos s1) (Some v, s2) = (x, s')" by force
        show ?thesis
          using brace quote c1 f Some finish_clause_result [OF r1] by (simp add: body)
      next
        case None
        let ?t = "restore (save s1) s2"
        have t: "lexes E s1 ?t" using r1 None by (simp add: clause_result_def lexes_restore)
        obtain c2 s3 where c2: "(if color_ahead E ''hsv'' ?p then parse_color ?t else Some (None, ?t)) = Some (c2, s3)"
          and r2: "clause_result E ?t c2 s3"
          using tr [of ?t] lexes_chars_ok [OF t ok1] len1 by fastforce
        have r2': "clause_result E s1 c2 s3" using t r2 by (rule clause_result_from)
        show ?thesis
        proof (cases c2)
          case (Some v)
          obtain x s' where f: "finish_value (pos s1) (Some v, s3) = (x, s')" by force
          show ?thesis
            using brace quote c1 c2 f None Some finish_clause_result [OF r2'] by (simp add: body)
        next
          case none2: None
          let ?u = "restore (save s1) s3"
          have u: "lexes E s1 ?u" using r2' none2 by (simp add: clause_result_def lexes_restore)
          obtain x s' where f: "parse_scalar E ?p (pos s1) ?u = (x, s')" by force
          have "value_result E ?u x s'"
            using parse_scalar_result [OF f lexes_chars_ok [OF u ok1]] peek7_of_nonempty [of s1] by simp
          then show ?thesis
            using brace quote c1 c2 f None none2 value_result_from [OF u] by (simp add: body)
        qed
      qed
    qed
  qed
  then show ?thesis using value_result_from [OF 1] by blast
qed

lemma add_leaf_eq:
  "push_leaf l (p_arena s) = (i, a) \<Longrightarrow> add_leaf l out s = (out @ [ChildLeaf i], s\<lparr>p_arena := a\<rparr>)"
  by (simp add: add_leaf_def)

lemma add_leaf_value_eq:
  "push_leaf_value l (p_arena s) = (i, a)
     \<Longrightarrow> add_leaf_value l out s = (out @ [ChildLeafValue i], s\<lparr>p_arena := a\<rparr>)"
  by (simp add: add_leaf_value_def)

lemma leaf_value_stmt_spec:
  assumes val: "\<And>t. chars_ok t \<Longrightarrow> length (p_chars t) \<le> length (p_chars s0) \<Longrightarrow>
      \<exists>r t'. parse_val True t = Some (r, t') \<and> value_result E t r t'"
    and l: "lexes E s s0" "lexes E s0 s1" and ok: "chars_ok s0" and saved: "saved = pos s0"
  shows "\<exists>out' s'. leaf_value_stmt parse_val saved out s1 = Some (out', s') \<and> stmt_builds E out s out' s'
    \<and> length (p_chars s') \<le> length (p_chars s0) - 1"
proof -
  note len1 = lexes_length [OF l(2)]
  obtain r s2 where r: "parse_val True s1 = Some (r, s2)" and res: "value_result E s1 r s2"
    using val [OF lexes_chars_ok [OF l(2) ok] len1] by blast
  show ?thesis
  proof (cases r)
    case None
    then have 2: "lexes E s0 s2" using res lexes_trans [OF l(2)] by (simp add: value_result_def)
    have "length (p_chars (advance s2)) \<le> length (p_chars s0) - 1"
      using lexes_length [OF 2] by simp
    moreover have "stmt_builds E out s out (advance s2)"
      by (rule skip [OF lexes_trans [OF l(1) lexes_trans [OF 2 lexes_advance]]])
    ultimately show ?thesis using r None by (simp add: leaf_value_stmt_def)
  next
    case (Some vr)
    then obtain v rg st mid where v: "r = Some (v, rg)" "lexes E s1 st" "value_builds E st v mid" "lexes E mid s2"
      using res by (cases vr) (auto simp: value_result_def)
    let ?lv = "\<lparr>lv_value = v, lv_pos = \<lparr>range_start = saved, range_end = pos s2\<rparr>\<rparr>"
    obtain i a where p: "push_leaf_value ?lv (p_arena s2) = (i, a)" by force
    have "stmt_builds E out s (out @ [ChildLeafValue i]) (s2\<lparr>p_arena := a\<rparr>)"
      using leaf_value [OF l(1) lexes_trans [OF l(2) v(2)] _ v(4) _ p] v(3) saved by simp
    moreover have "length (p_chars s2) < length (p_chars s0)"
      using lexes_length [OF v(4)] builds_moves(1) [OF v(3)] lexes_length [OF v(2)] len1 by simp
    ultimately show ?thesis
      using r v(1) add_leaf_value_eq [OF p] by (simp add: leaf_value_stmt_def)
  qed
qed

lemma pos_intern_in: "intern_in E str s = (tok, s') \<Longrightarrow> pos s' = pos s"
  by (auto simp: intern_in_def pos_def split: prod.splits)

lemma missing_value_spec:
  assumes l: "lexes E s s0" "lexes E s0 s1" "lexes E s1 s2" "length (p_chars s1) < length (p_chars s0)"
    and key: "table_inv E (p_table s0) \<longrightarrow> known E (p_table s1) key" and saved: "saved = pos s0"
  shows "\<exists>out' s'. missing_value E saved key op' out s2 = (out', s') \<and> stmt_builds E out s out' s'
    \<and> length (p_chars s') < length (p_chars s0)"
proof -
  obtain tok s3 where i: "intern_in E [] s2 = (tok, s3)" by force
  have 3: "lexes E s0 s3" and 13: "lexes E s1 s3"
    using lexes_trans [OF lexes_trans [OF l(2,3)] lexes_intern_in' [OF i]]
      lexes_trans [OF l(3) lexes_intern_in' [OF i]] by blast+
  have less: "length (p_chars s3) < length (p_chars s0)" using lexes_length [OF 13] l(4) by simp
  have tok: "table_inv E (p_table s0) \<longrightarrow> known E (p_table s3) tok"
    using lexes_table_inv [OF lexes_trans [OF l(2,3)]] known_intern_in [OF i] by blast
  have key3: "table_inv E (p_table s0) \<longrightarrow> known E (p_table s3) key"
    using key lexes_table_inv [OF l(2)] known_mono moves_table [OF lexes_moves [OF 13]] by blast
  let ?l = "\<lparr>leaf_key = key, leaf_val = VString tok, leaf_op = op',
      leaf_pos = \<lparr>range_start = saved, range_end = pos s2\<rparr>,
      leaf_value_pos = \<lparr>range_start = pos s2, range_end = pos s2\<rparr>\<rparr>"
  obtain j a where p: "push_leaf ?l (p_arena s3) = (j, a)" by force
  let ?s4 = "s3\<lparr>p_arena := a\<rparr>"
  let ?s5 = "push_error saved (no_value_msg
    (case get_string (p_table ?s4) (tok_normal key) of Some x \<Rightarrow> x | None \<Rightarrow> [])) ?s4"
  have "stmt_builds E out s (out @ [ChildLeaf j]) ?s5"
    by (rule missing [OF l(1) 3 less _ _ tok _ _ p lexes_push_error])
      (use key3 saved pos_intern_in [OF i] in simp_all)
  then show ?thesis
    using i add_leaf_eq [OF p] less by (simp add: missing_value_def Let_def)
qed

lemma parse_comment_spec:
  assumes "lexes E s s0" "peek s0 = Some ''#''" "parse_comment_stmt out s0 = (out', s')"
  shows "stmt_builds E out s out' s' \<and> length (p_chars s') < length (p_chars s0)"
proof -
  let ?s1 = "skip_line s0"
  have less: "length (p_chars ?s1) < length (p_chars s0)"
    using advance_while_length_less [OF assms(2), of "\<lambda>s c. c \<noteq> ch_nl"] by (simp add: skip_line_def)
  show ?thesis
  proof (cases "p_mode s0 = Preserve")
    case True
    let ?c = "\<lparr>comment_text = text_between (p_chars s0) (p_chars ?s1),
      comment_pos = \<lparr>range_start = pos s0, range_end = pos ?s1\<rparr>\<rparr>"
    obtain i a where p: "push_comment ?c (p_arena ?s1) = (i, a)" by force
    have "stmt_builds E out s (out @ [ChildComment i]) (?s1\<lparr>p_arena := a\<rparr>)"
      by (rule comment [OF assms(1) lexes_skip_line less _ p]) simp
    moreover have "out' = out @ [ChildComment i]" "s' = ?s1\<lparr>p_arena := a\<rparr>"
      using assms(2,3) True p by (auto simp: parse_comment_stmt_def consume_comment_def Let_def)
    ultimately show ?thesis using less by simp
  next
    case False
    then have "out' = out" "s' = ?s1"
      using assms(2,3) by (auto simp: parse_comment_stmt_def skip_comment_def)
    then show ?thesis
      using less skip [OF lexes_trans [OF assms(1) lexes_skip_line]] by simp
  qed
qed

lemma leaf_stmt_spec:
  assumes l: "lexes E s s0" "lexes E s0 s1" "length (p_chars s1) < length (p_chars s0)"
    and key: "table_inv E (p_table s0) \<longrightarrow> known E (p_table s1) key"
    and v: "lexes E s1 st" "value_builds E st v mid" "lexes E mid s3"
    and leaf: "l = \<lparr>leaf_key = key, leaf_val = v, leaf_op = op',
        leaf_pos = \<lparr>range_start = pos s0, range_end = pos s3\<rparr>,
        leaf_value_pos = \<lparr>range_start = pos st, range_end = pos mid\<rparr>\<rparr>"
  shows "\<exists>out' s'. add_leaf l out s3 = (out', s') \<and> stmt_builds E out s out' s'
    \<and> length (p_chars s') < length (p_chars s0)"
proof -
  obtain i a where p: "push_leaf l (p_arena s3) = (i, a)" by force
  have 0: "lexes E s0 st" using l(2) v(1) by (rule lexes_trans)
  have less: "length (p_chars st) < length (p_chars s0)" using lexes_length [OF v(1)] l(3) by simp
  have "table_inv E (p_table s0) \<longrightarrow> known E (p_table st) key"
    using key lexes_table_inv [OF l(2)] known_mono moves_table [OF lexes_moves [OF v(1)]] by blast
  then have "stmt_builds E out s (out @ [ChildLeaf i]) (s3\<lparr>p_arena := a\<rparr>)"
    using value_builds_loop_builds_stmt_builds.leaf [OF l(1) 0 less _ _ v(3) _ _ p] v(2) leaf by simp
  moreover have "length (p_chars s3) < length (p_chars s0)"
    using lexes_length [OF v(3)] builds_moves(1) [OF v(2)] less by simp
  ultimately show ?thesis using add_leaf_eq [OF p] by simp
qed

lemma parse_statement_body_spec:
  assumes val: "\<And>lv t. chars_ok t \<Longrightarrow> length (p_chars t) \<le> length (p_chars s) \<Longrightarrow>
      \<exists>r t'. parse_val lv t = Some (r, t') \<and> value_result E t r t'"
    and cl: "\<And>t. chars_ok t \<Longrightarrow> length (p_chars t) \<le> length (p_chars s) \<Longrightarrow>
      \<exists>r t'. parse_cl t = Some (r, t') \<and> clause_result E t r t'"
    and ok: "chars_ok s"
  shows "\<exists>out' s'. parse_statement_body E parse_val parse_cl out s = Some (out', s')
    \<and> stmt_result E out s out' s'"
proof -
  define s0 where "s0 = skip_whitespace s"
  note body = parse_statement_body_def Let_def s0_def [symmetric]
  have 0: "lexes E s s0" unfolding s0_def by (rule lexes_skip_whitespace)
  note ok0 = lexes_chars_ok [OF 0 ok]
  have len0: "length (p_chars s0) < length (p_chars s) \<or> s0 = s"
    unfolding s0_def using skip_whitespace_same_or_less [of s] by blast
  then have len0': "length (p_chars s0) \<le> length (p_chars s)" by auto
  have fallback: "\<exists>out' s'. leaf_value_stmt parse_val (pos s0) out t = Some (out', s') \<and> stmt_builds E out s out' s'
      \<and> length (p_chars s') \<le> length (p_chars s0) - 1" if "lexes E s0 t" for t
    using leaf_value_stmt_spec [OF val 0 that ok0 refl] len0' by simp
  have "\<exists>out' s'. parse_statement_body E parse_val parse_cl out s = Some (out', s') \<and> stmt_builds E out s out' s'
    \<and> length (p_chars s') \<le> length (p_chars s0) - 1"
  proof (cases "peek s0 = Some ''#''")
    case True
    then show ?thesis
      using parse_comment_spec [OF 0 True, of out]
      by (cases "parse_comment_stmt out s0") (fastforce simp: body)
  next
    case hash: False
    obtain ko s1 where k: "parse_key E s0 = (ko, s1)" by force
    note ks = parse_key_scans [OF k ok0]
    show ?thesis
    proof (cases ko)
      case None
      then show ?thesis using fallback [OF ks(1)] hash k by (simp add: body)
    next
      case (Some key)
      obtain oo s2 where o: "parse_operator s1 = (oo, s2)" by force
      have 12: "lexes E s1 s2" using lexes_parse_operator [of E s1] o by simp
      have 02: "lexes E s0 s2" using ks(1) 12 by (rule lexes_trans)
      have less: "length (p_chars s1) < length (p_chars s0)"
        and known: "table_inv E (p_table s0) \<longrightarrow> known E (p_table s1) key" using ks(2,3) Some by auto
      note leaf_stmt = leaf_stmt_spec [OF 0 ks(1) less known]
      show ?thesis
      proof (cases oo)
        case op: (Some op')
        obtain r s3 where r: "parse_val False s2 = Some (r, s3)" and res: "value_result E s2 r s3"
          using val [OF lexes_chars_ok [OF 02 ok0]] lexes_length [OF 02] len0' by fastforce
        show ?thesis
        proof (cases r)
          case none: None
          then have "lexes E s1 s3" using res lexes_trans [OF 12] by (simp add: value_result_def)
          from missing_value_spec [OF 0 ks(1) this less known refl, of op' out] show ?thesis
            using hash k Some o op r none by (auto simp: body)
        next
          case vr: (Some vr)
          then obtain v rg st mid where v: "r = Some (v, rg)" "lexes E s2 st" "value_builds E st v mid"
              "lexes E mid s3" "rg = \<lparr>range_start = pos st, range_end = pos mid\<rparr>"
            using res by (cases vr) (auto simp: value_result_def)
          show ?thesis
            using leaf_stmt [OF lexes_trans [OF 12 v(2)] v(3,4) refl, of op' out] hash k Some o op r v(1,5)
            by (auto simp: body)
        qed
      next
        case noop: None
        let ?s3 = "skip_whitespace s2"
        have 03: "lexes E s0 ?s3" and 13: "lexes E s1 ?s3"
          using lexes_trans [OF _ lexes_skip_whitespace] 02 12 by blast+
        show ?thesis
        proof (cases "peek ?s3 = Some ''{''")
          case True
          obtain c s4 where c: "parse_cl ?s3 = Some (c, s4)" and res: "clause_result E ?s3 c s4"
            using cl [OF lexes_chars_ok [OF 03 ok0]] lexes_length [OF 03] len0' by fastforce
          show ?thesis
          proof (cases c)
            case none: None
            then have "lexes E s0 s4" using res lexes_trans [OF 03] by (simp add: clause_result_def)
            from fallback [OF lexes_restore [OF this]] show ?thesis
              using hash k Some o noop True c none by (simp add: body)
          next
            case v: (Some v)
            then have "value_builds E ?s3 v s4" using res by (simp add: clause_result_def)
            from leaf_stmt [OF 13 this lexes_skip_whitespace refl, of Equals out] show ?thesis
              using hash k Some o noop True c v by (auto simp: body)
          qed
        next
          case False
          show ?thesis using fallback [OF lexes_restore [OF 03]] hash k Some o noop False by (simp add: body)
        qed
      qed
    qed
  qed
  then obtain out' s' where r: "parse_statement_body E parse_val parse_cl out s = Some (out', s')"
      "stmt_builds E out s out' s'" "length (p_chars s') \<le> length (p_chars s0) - 1" by blast
  have "length (p_chars s') < length (p_chars s)" if "p_chars s \<noteq> []"
    using len0 r(3) that by (cases "p_chars s") auto
  with r show ?thesis unfolding stmt_result_def by blast
qed


text \<open>Enough fuel gives a result, and the result is derivable.\<close>

definition fuel_ok :: "rust_env \<Rightarrow> nat \<Rightarrow> bool" where
  "fuel_ok E n \<longleftrightarrow>
     (\<forall>lv s. chars_ok s \<longrightarrow> 5 * length (p_chars s) + 3 \<le> n \<longrightarrow>
        (\<exists>r s'. parse_value E n lv s = Some (r, s') \<and> value_result E s r s'))
     \<and> (\<forall>s. chars_ok s \<longrightarrow> 5 * length (p_chars s) + 2 \<le> n \<longrightarrow>
        (\<exists>r s'. parse_color_clause E n s = Some (r, s') \<and> clause_result E s r s'))
     \<and> (\<forall>s. chars_ok s \<longrightarrow> 5 * length (p_chars s) + 1 \<le> n \<longrightarrow>
        (\<exists>r s'. parse_clause E n s = Some (r, s') \<and> clause_result E s r s'))
     \<and> (\<forall>ch s. chars_ok s \<longrightarrow> 5 * length (p_chars s) + 5 \<le> n \<longrightarrow>
        (\<exists>ch' s'. clause_loop E n ch s = Some (ch', s') \<and> loop_builds E ch s ch' s'))
     \<and> (\<forall>out s. chars_ok s \<longrightarrow> 5 * length (p_chars s) + 4 \<le> n \<longrightarrow>
        (\<exists>out' s'. parse_statement E n out s = Some (out', s') \<and> stmt_result E out s out' s'))"

lemma fuel_ok: "fuel_ok E n"
proof (induction n)
  case 0
  show ?case by (simp add: fuel_ok_def)
next
  case (Suc n)
  note IH = Suc.IH [unfolded fuel_ok_def, THEN conjunct1, rule_format]
    Suc.IH [unfolded fuel_ok_def, THEN conjunct2, THEN conjunct1, rule_format]
    Suc.IH [unfolded fuel_ok_def, THEN conjunct2, THEN conjunct2, THEN conjunct1, rule_format]
    Suc.IH [unfolded fuel_ok_def, THEN conjunct2, THEN conjunct2, THEN conjunct2, THEN conjunct1, rule_format]
    Suc.IH [unfolded fuel_ok_def, THEN conjunct2, THEN conjunct2, THEN conjunct2, THEN conjunct2, rule_format]
  have value': "\<exists>r s'. parse_value E (Suc n) lv s = Some (r, s') \<and> value_result E s r s'"
    if "chars_ok s" "5 * length (p_chars s) + 3 \<le> Suc n" for lv s
    unfolding parse_value.simps by (rule parse_value_body_spec [OF IH(2,3) that(1)]) (use that in auto)
  have color': "\<exists>r s'. parse_color_clause E (Suc n) s = Some (r, s') \<and> clause_result E s r s'"
    if ok: "chars_ok s" and n: "5 * length (p_chars s) + 2 \<le> Suc n" for s
  proof -
    have l: "lexes E s (color_prefix s)" by (rule lexes_color_prefix)
    then have "5 * length (p_chars (color_prefix s)) + 1 \<le> n" using lexes_length [OF l] n by simp
    then obtain r s' where "parse_clause E n (color_prefix s) = Some (r, s')"
        "clause_result E (color_prefix s) r s'"
      using IH(3) lexes_chars_ok [OF l ok] by blast
    then show ?thesis using clause_result_from [OF l] by simp
  qed
  have clause': "\<exists>r s'. parse_clause E (Suc n) s = Some (r, s') \<and> clause_result E s r s'"
    if "chars_ok s" "5 * length (p_chars s) + 1 \<le> Suc n" for s
    unfolding parse_clause.simps by (rule parse_clause_body_spec [OF IH(4) that(1)]) (use that in auto)
  have loop': "\<exists>ch' s'. clause_loop E (Suc n) ch s = Some (ch', s') \<and> loop_builds E ch s ch' s'"
    if "chars_ok s" "5 * length (p_chars s) + 5 \<le> Suc n" for ch s
    unfolding clause_loop.simps by (rule clause_loop_body_spec [OF IH(5,4) that(1)]) (use that in auto)
  have stmt': "\<exists>out' s'. parse_statement E (Suc n) out s = Some (out', s') \<and> stmt_result E out s out' s'"
    if "chars_ok s" "5 * length (p_chars s) + 4 \<le> Suc n" for out s
    unfolding parse_statement.simps by (rule parse_statement_body_spec [OF IH(1,3) that(1)]) (use that in auto)
  show ?case unfolding fuel_ok_def using value' color' clause' loop' stmt' by (intro conjI allI impI) assumption+
qed

lemma parse_statement_total:
  "chars_ok s \<Longrightarrow> 5 * length (p_chars s) + 4 \<le> n \<Longrightarrow>
     \<exists>out' s'. parse_statement E n out s = Some (out', s') \<and> stmt_result E out s out' s'"
  using fuel_ok [of E n] unfolding fuel_ok_def by blast

lemma root_loop_total:
  "chars_ok s \<Longrightarrow> 5 * length (p_chars s) + 5 \<le> n \<Longrightarrow>
     \<exists>out' s'. root_loop E n out s = Some (out', s') \<and> loop_builds E out s out' s' \<and> p_chars s' = []"
proof (induction n arbitrary: out s)
  case (Suc n)
  show ?case
  proof (cases "peek s = None")
    case True
    then show ?thesis by (auto simp: peek_None_iff intro: finish)
  next
    case False
    then have ne: "p_chars s \<noteq> []" by (simp add: peek_None_iff)
    obtain out1 s1 where r: "parse_statement E n out s = Some (out1, s1)" and st: "stmt_result E out s out1 s1"
      using parse_statement_total [OF Suc.prems(1), of n E out] Suc.prems(2) by auto
    then have b: "stmt_builds E out s out1 s1" and less: "length (p_chars s1) < length (p_chars s)"
      using ne by (auto simp: stmt_result_def)
    have ok: "chars_ok s1" using chars_ok_moves [OF builds_moves(3) [OF b] Suc.prems(1)] .
    obtain out2 s2 where "root_loop E n out1 s1 = Some (out2, s2)" "loop_builds E out1 s1 out2 s2" "p_chars s2 = []"
      using Suc.IH [OF ok, of out1] less Suc.prems(2) by auto
    with False r b show ?thesis by (auto intro: turn)
  qed
qed simp

end
