(* ===== verification/Parser_Tree.thy ===== *)
theory Parser_Tree
  imports Parser_Derivation "HOL-Library.Multiset"
begin

text \<open>
  Invariants of the tree the parser builds, each a rule induction over the abstract grammar:
  how many nodes there are, that every node is referred to exactly once, that references
  point into the arena and nest at most \<open>MAX_CLAUSE_DEPTH\<close> deep, that source ranges are
  ordered and nested, and that every token resolves in the string table.
\<close>

section \<open>Reaching the grammar\<close>

lemma chars_ok_new [simp]: "chars_ok (parser_new input t mode)"
  by (auto simp: chars_ok_def parser_new_def dest: chars_nonempty)

lemma parse_string_builds:
  obtains root s' where
    "parse_string_with_comment_mode E input t mode
       = Some (\<lparr>pf_arena = p_arena s', root_children = root, pf_errors = p_errors s'\<rparr>, p_table s')"
    "loop_builds E [] (parser_new (strip_bom input) t mode) root s'" "p_chars s' = []"
proof -
  let ?i = "strip_bom input" let ?s = "parser_new (strip_bom input) t mode"
  have l: "lexes E ?s (skip_whitespace ?s)" by (rule lexes_skip_whitespace)
  then have "5 * length (p_chars (skip_whitespace ?s)) + 5 \<le> parse_fuel ?i"
    using lexes_length [OF l] by (simp add: parse_fuel_def parser_new_def)
  from root_loop_total [OF lexes_chars_ok [OF l chars_ok_new] this, of E "[]"]
  obtain root s' where r: "root_loop E (parse_fuel ?i) [] (skip_whitespace ?s) = Some (root, s')"
    and b: "loop_builds E [] (skip_whitespace ?s) root s'" and e: "p_chars s' = []" by blast
  show thesis
    using that [OF _ turn [OF skip [OF l] b] e] r
    by (simp add: parse_string_with_comment_mode_def Let_def parse_def)
qed

section \<open>Number of nodes\<close>

definition arena_size :: "Arena \<Rightarrow> nat" where
  "arena_size a = length (leaves a) + length (leaf_values a) + length (comments a)"

lemma push_size:
  "push_leaf l a = (i, a') \<Longrightarrow> arena_size a' = Suc (arena_size a)"
  "push_leaf_value lv a = (i, a') \<Longrightarrow> arena_size a' = Suc (arena_size a)"
  "push_comment c a = (i, a') \<Longrightarrow> arena_size a' = Suc (arena_size a)"
  by (auto simp: push_leaf_def push_leaf_value_def push_comment_def arena_size_def)

lemma builds_size:
  "value_builds E s v s' \<Longrightarrow>
     arena_size (p_arena s') + length (p_chars s') < arena_size (p_arena s) + length (p_chars s)"
  "loop_builds E ch s ch' s' \<Longrightarrow>
     arena_size (p_arena s') + length (p_chars s') \<le> arena_size (p_arena s) + length (p_chars s)"
  "stmt_builds E out s out' s' \<Longrightarrow>
     arena_size (p_arena s') + length (p_chars s') \<le> arena_size (p_arena s) + length (p_chars s)"
proof (induction rule: value_builds_loop_builds_stmt_builds.inducts)
  case (scalar s v s')
  then show ?case by (auto simp: scans_def lexes_arena)
next
  case (deep s s')
  then show ?case by (simp add: lexes_arena [OF \<open>lexes E s s'\<close>])
next
  case (clause s s1 ch s2)
  then show ?case using lexes_arena [OF \<open>lexes E s s1\<close>] by simp
next
  case (finish s s' ch)
  then show ?case using lexes_arena lexes_length by fastforce
next
  case (skip s s' out)
  then show ?case using lexes_arena lexes_length by fastforce
next
  case (comment s s0 s1 c i a out)
  then show ?case
    using lexes_arena [OF \<open>lexes E s s0\<close>] lexes_arena [OF \<open>lexes E s0 s1\<close>]
      lexes_length [OF \<open>lexes E s s0\<close>] push_size(3) by fastforce
next
  case (leaf s s0 s1 l s2 s3 i a out)
  then show ?case
    using lexes_arena [OF \<open>lexes E s s0\<close>] lexes_arena [OF \<open>lexes E s0 s1\<close>] lexes_arena [OF \<open>lexes E s2 s3\<close>]
      lexes_length [OF \<open>lexes E s s0\<close>] lexes_length [OF \<open>lexes E s2 s3\<close>]
      push_size(1) [OF \<open>push_leaf l (p_arena s3) = (i, a)\<close>] by simp
next
  case (missing s s0 s1 l tok i a s2 out)
  then show ?case
    using lexes_arena [OF \<open>lexes E s s0\<close>] lexes_arena [OF \<open>lexes E s0 s1\<close>]
      lexes_arena [OF \<open>lexes E (s1\<lparr>p_arena := a\<rparr>) s2\<close>] lexes_length [OF \<open>lexes E (s1\<lparr>p_arena := a\<rparr>) s2\<close>]
      lexes_length [OF \<open>lexes E s s0\<close>] push_size(1) [OF \<open>push_leaf l (p_arena s1) = (i, a)\<close>] by simp
next
  case (leaf_value s s0 s1 lv s2 s3 i a out)
  then show ?case
    using lexes_arena [OF \<open>lexes E s s0\<close>] lexes_arena [OF \<open>lexes E s0 s1\<close>] lexes_arena [OF \<open>lexes E s2 s3\<close>]
      lexes_length [OF \<open>lexes E s s0\<close>] lexes_length [OF \<open>lexes E s0 s1\<close>] lexes_length [OF \<open>lexes E s2 s3\<close>]
      push_size(2) [OF \<open>push_leaf_value lv (p_arena s3) = (i, a)\<close>] by simp
qed simp

section \<open>References\<close>

text \<open>The references a value holds, those stored in an arena, and the ids of its nodes.\<close>

definition value_refs :: "AstValue \<Rightarrow> Child multiset" where
  "value_refs v = (case v of VClause ch \<Rightarrow> mset ch | _ \<Rightarrow> {#})"

definition stored_refs :: "Arena \<Rightarrow> Child multiset" where
  "stored_refs a = sum_list (map (\<lambda>l. value_refs (leaf_val l)) (leaves a))
     + sum_list (map (\<lambda>l. value_refs (lv_value l)) (leaf_values a))"

definition arena_ids :: "Arena \<Rightarrow> Child list" where
  "arena_ids a = map (\<lambda>i. ChildLeaf (of_nat i)) [0..<length (leaves a)]
     @ map (\<lambda>i. ChildLeafValue (of_nat i)) [0..<length (leaf_values a)]
     @ map (\<lambda>i. ChildComment (of_nat i)) [0..<length (comments a)]"

lemma push_refs:
  "push_leaf l a = (i, a') \<Longrightarrow> stored_refs a' = value_refs (leaf_val l) + stored_refs a
     \<and> mset (arena_ids a') = add_mset (ChildLeaf i) (mset (arena_ids a))"
  "push_leaf_value lv a = (i, a') \<Longrightarrow> stored_refs a' = value_refs (lv_value lv) + stored_refs a
     \<and> mset (arena_ids a') = add_mset (ChildLeafValue i) (mset (arena_ids a))"
  "push_comment c a = (i, a') \<Longrightarrow> stored_refs a' = stored_refs a
     \<and> mset (arena_ids a') = add_mset (ChildComment i) (mset (arena_ids a))"
  by (auto simp: push_leaf_def push_leaf_value_def push_comment_def stored_refs_def arena_ids_def ac_simps simp del: mset_upt)

lemma scalar_refs: "scans E s v s' \<Longrightarrow> value_refs v = {#}"
  by (auto simp: scans_def is_clause_def value_refs_def split: AstValue.splits)


lemma balance_trans:
  assumes "m1 + s1 + i0 = m0 + s0 + i1" "m2 + s2 + i1 = m1 + s1 + i2"
  shows "m2 + s2 + i0 = m0 + s0 + (i2 :: 'a multiset)"
proof (rule multiset_eqI)
  show "count (m2 + s2 + i0) x = count (m0 + s0 + i2) x" for x
    using arg_cong [OF assms(1), of "\<lambda>m. count m x"] arg_cong [OF assms(2), of "\<lambda>m. count m x"] by simp
qed

text \<open>Reading balances: whatever is referred to afterwards and was not before is a node pushed
  in between.\<close>

lemma builds_refs:
  "value_builds E s v s' \<Longrightarrow>
     value_refs v + stored_refs (p_arena s') + mset (arena_ids (p_arena s))
       = stored_refs (p_arena s) + mset (arena_ids (p_arena s'))"
  "loop_builds E ch s ch' s' \<Longrightarrow>
     mset ch' + stored_refs (p_arena s') + mset (arena_ids (p_arena s))
       = mset ch + stored_refs (p_arena s) + mset (arena_ids (p_arena s'))"
  "stmt_builds E out s out' s' \<Longrightarrow>
     mset out' + stored_refs (p_arena s') + mset (arena_ids (p_arena s))
       = mset out + stored_refs (p_arena s) + mset (arena_ids (p_arena s'))"
proof (induction rule: value_builds_loop_builds_stmt_builds.inducts)
  case (scalar s v s')
  then show ?case by (simp add: scalar_refs) (simp add: scans_def lexes_def)
next
  case (deep s s')
  then show ?case by (simp add: lexes_arena [OF \<open>lexes E s s'\<close>] value_refs_def)
next
  case (clause s s1 ch s2)
  then show ?case using lexes_arena [OF \<open>lexes E s s1\<close>] by (simp add: value_refs_def)
next
  case (finish s s' ch)
  then show ?case by (simp add: lexes_def)
next
  case (turn ch s ch1 s1 ch2 s2)
  show ?case by (rule balance_trans [OF turn(2,4)])
next
  case (skip s s' out)
  then show ?case by (simp add: lexes_def)
next
  case (comment s s0 s1 c i a out)
  then show ?case
    using lexes_arena [OF \<open>lexes E s s0\<close>] lexes_arena [OF \<open>lexes E s0 s1\<close>]
      push_refs(3) [OF \<open>push_comment c (p_arena s1) = (i, a)\<close>] by simp
next
  case (leaf s s0 s1 l s2 s3 i a out)
  then show ?case
    using lexes_arena [OF \<open>lexes E s s0\<close>] lexes_arena [OF \<open>lexes E s0 s1\<close>] lexes_arena [OF \<open>lexes E s2 s3\<close>]
      push_refs(1) [OF \<open>push_leaf l (p_arena s3) = (i, a)\<close>] by (simp add: ac_simps)
next
  case (missing s s0 s1 l tok i a s2 out)
  then show ?case
    using lexes_arena [OF \<open>lexes E s s0\<close>] lexes_arena [OF \<open>lexes E s0 s1\<close>]
      lexes_arena [OF \<open>lexes E (s1\<lparr>p_arena := a\<rparr>) s2\<close>]
      push_refs(1) [OF \<open>push_leaf l (p_arena s1) = (i, a)\<close>] by (simp add: value_refs_def)
next
  case (leaf_value s s0 s1 lv s2 s3 i a out)
  then show ?case
    using lexes_arena [OF \<open>lexes E s s0\<close>] lexes_arena [OF \<open>lexes E s0 s1\<close>] lexes_arena [OF \<open>lexes E s2 s3\<close>]
      push_refs(2) [OF \<open>push_leaf_value lv (p_arena s3) = (i, a)\<close>] by (simp add: ac_simps)
qed

lemma arena_ids_distinct: "arena_size a < 2 ^ 32 \<Longrightarrow> distinct (arena_ids a)"
  by (auto simp: arena_ids_def arena_size_def distinct_map inj_on_def word_of_nat_eq_iff take_bit_nat_eq_self)

section \<open>Bounded nesting\<close>

text \<open>\<open>child_ok a d c\<close>: following references from \<open>c\<close> stays inside the arena and meets at
  most \<open>d\<close> levels of clauses below it, so what hangs off \<open>c\<close> is a finite tree.\<close>

definition value_children :: "AstValue \<Rightarrow> Child list" where
  "value_children v = (case v of VClause ch \<Rightarrow> ch | _ \<Rightarrow> [])"

fun child_in :: "Arena \<Rightarrow> Child \<Rightarrow> bool" where
  "child_in a (ChildLeaf i) = (unat i < length (leaves a))"
| "child_in a (ChildLeafValue i) = (unat i < length (leaf_values a))"
| "child_in a (ChildComment i) = (unat i < length (comments a))"

fun child_refs :: "Arena \<Rightarrow> Child \<Rightarrow> Child list" where
  "child_refs a (ChildLeaf i) = value_children (leaf_val (leaves a ! unat i))"
| "child_refs a (ChildLeafValue i) = value_children (lv_value (leaf_values a ! unat i))"
| "child_refs a (ChildComment i) = []"

fun child_ok :: "Arena \<Rightarrow> nat \<Rightarrow> Child \<Rightarrow> bool" where
  "child_ok a 0 c \<longleftrightarrow> child_in a c \<and> child_refs a c = []"
| "child_ok a (Suc d) c \<longleftrightarrow> child_in a c \<and> list_all (child_ok a d) (child_refs a c)"

definition refs_ok :: "Arena \<Rightarrow> nat \<Rightarrow> Child list \<Rightarrow> bool" where
  "refs_ok a d cs \<longleftrightarrow> (case d of 0 \<Rightarrow> cs = [] | Suc d' \<Rightarrow> list_all (child_ok a d') cs)"

lemma child_ok_iff: "child_ok a d c \<longleftrightarrow> child_in a c \<and> refs_ok a d (child_refs a c)"
  by (cases d) (auto simp: refs_ok_def)

lemma child_in_mono:
  assumes "child_in a c" "arena_extends a a'"
  shows "child_in a' c \<and> child_refs a' c = child_refs a c"
  using assms by (cases c) (auto simp: arena_extends_def prefix_def nth_append)

lemma child_ok_mono: "child_ok a d c \<Longrightarrow> arena_extends a a' \<Longrightarrow> child_ok a' d c"
proof (induction d arbitrary: c)
  case 0
  then have "child_in a c" by simp
  with 0 child_in_mono [OF this 0(2)] show ?case by simp
next
  case (Suc d)
  then have "child_in a c" by simp
  with Suc child_in_mono [OF this Suc(3)] show ?case by (simp add: list_all_iff)
qed

lemma refs_ok_mono: "refs_ok a d cs \<Longrightarrow> arena_extends a a' \<Longrightarrow> refs_ok a' d cs"
  by (cases d) (auto simp: refs_ok_def list_all_iff intro: child_ok_mono)

lemma list_child_ok_mono: "list_all (child_ok a d) cs \<Longrightarrow> arena_extends a a' \<Longrightarrow> list_all (child_ok a' d) cs"
  by (auto simp: list_all_iff intro: child_ok_mono)

lemma push_child_ok:
  "push_leaf l a = (i, a') \<Longrightarrow> arena_size a < 2 ^ 32 \<Longrightarrow> refs_ok a d (value_children (leaf_val l))
     \<Longrightarrow> child_ok a' d (ChildLeaf i)"
  "push_leaf_value lv a = (j, a') \<Longrightarrow> arena_size a < 2 ^ 32 \<Longrightarrow> refs_ok a d (value_children (lv_value lv))
     \<Longrightarrow> child_ok a' d (ChildLeafValue j)"
  "push_comment c a = (k, a') \<Longrightarrow> arena_size a < 2 ^ 32 \<Longrightarrow> child_ok a' d (ChildComment k)"
proof -
  show "child_ok a' d (ChildLeaf i)"
    if "push_leaf l a = (i, a')" "arena_size a < 2 ^ 32" "refs_ok a d (value_children (leaf_val l))"
  proof -
    have "refs_ok a' d (value_children (leaf_val l))" using that push_extends(1) refs_ok_mono by blast
    moreover have "unat i = length (leaves a)" "leaves a' = leaves a @ [l]"
      using that(1,2) by (auto simp: push_leaf_def arena_size_def unat_of_nat_u32)
    ultimately show ?thesis by (simp add: child_ok_iff)
  qed
  show "child_ok a' d (ChildLeafValue j)"
    if "push_leaf_value lv a = (j, a')" "arena_size a < 2 ^ 32" "refs_ok a d (value_children (lv_value lv))"
  proof -
    have "refs_ok a' d (value_children (lv_value lv))" using that push_extends(2) refs_ok_mono by blast
    moreover have "unat j = length (leaf_values a)" "leaf_values a' = leaf_values a @ [lv]"
      using that(1,2) by (auto simp: push_leaf_value_def arena_size_def unat_of_nat_u32)
    ultimately show ?thesis by (simp add: child_ok_iff)
  qed
  show "child_ok a' d (ChildComment k)" if "push_comment c a = (k, a')" "arena_size a < 2 ^ 32"
  proof -
    have "unat k = length (comments a)" "comments a' = comments a @ [c]"
      using that by (auto simp: push_comment_def arena_size_def unat_of_nat_u32)
    then show ?thesis by (cases d) auto
  qed
qed

definition room :: "parser \<Rightarrow> bool" where
  "room s \<longleftrightarrow> arena_size (p_arena s) + length (p_chars s) < 2 ^ 32 \<and> p_depth s \<le> MAX_CLAUSE_DEPTH"

definition levels :: "parser \<Rightarrow> nat" where
  "levels s = unat MAX_CLAUSE_DEPTH - unat (p_depth s)"

lemma room_lexes: "lexes E s s' \<Longrightarrow> room s \<Longrightarrow> room s'"
  using lexes_length lexes_arena lexes_depth unfolding room_def by fastforce

lemma room_size: "room s \<Longrightarrow> arena_size (p_arena s) < 2 ^ 32"
  by (simp add: room_def)

lemma levels_lexes: "lexes E s s' \<Longrightarrow> levels s' = levels s"
  using lexes_depth unfolding levels_def by fastforce

lemma builds_room:
  "value_builds E s v s' \<Longrightarrow> room s \<Longrightarrow> room s' \<and> levels s' = levels s"
  "loop_builds E ch s ch' s' \<Longrightarrow> room s \<Longrightarrow> room s' \<and> levels s' = levels s"
  "stmt_builds E out s out' s' \<Longrightarrow> room s \<Longrightarrow> room s' \<and> levels s' = levels s"
proof -
  have step: "room s' \<and> levels s' = levels s"
    if "arena_size (p_arena s') + length (p_chars s') \<le> arena_size (p_arena s) + length (p_chars s)"
      "moves E s s'" "room s" for s s'
    using that moves_depth [OF that(2)] by (simp add: room_def levels_def)
  show "value_builds E s v s' \<Longrightarrow> room s \<Longrightarrow> room s' \<and> levels s' = levels s"
    using step builds_size(1) builds_moves(1) by (meson less_imp_le)
  show "loop_builds E ch s ch' s' \<Longrightarrow> room s \<Longrightarrow> room s' \<and> levels s' = levels s"
    using step builds_size(2) builds_moves(2) by meson
  show "stmt_builds E out s out' s' \<Longrightarrow> room s \<Longrightarrow> room s' \<and> levels s' = levels s"
    using step builds_size(3) builds_moves(3) by meson
qed

lemma room_nested:
  assumes "room s" "p_depth s < MAX_CLAUSE_DEPTH"
  shows "room (s\<lparr>p_depth := p_depth s + 1\<rparr>) \<and> levels s = Suc (levels (s\<lparr>p_depth := p_depth s + 1\<rparr>))"
proof -
  have "unat (p_depth s) < 256" using assms(2) by (simp add: MAX_CLAUSE_DEPTH_def word_less_nat_alt)
  moreover then have "unat (p_depth s + 1) = unat (p_depth s) + 1" by (simp add: unat_word_ariths)
  ultimately show ?thesis
    using assms(1) by (simp add: room_def levels_def MAX_CLAUSE_DEPTH_def word_le_nat_alt)
qed

lemma value_children_scalar: "scans E s v s' \<Longrightarrow> value_children v = []"
  by (auto simp: scans_def is_clause_def value_children_def split: AstValue.splits)

lemma refs_ok_Nil [simp]: "refs_ok a d []"
  by (cases d) (auto simp: refs_ok_def)

lemma builds_arena:
  "value_builds E s v s' \<Longrightarrow> arena_extends (p_arena s) (p_arena s')"
  "loop_builds E ch s ch' s' \<Longrightarrow> arena_extends (p_arena s) (p_arena s')"
  "stmt_builds E out s out' s' \<Longrightarrow> arena_extends (p_arena s) (p_arena s')"
  using builds_moves by (fastforce simp: moves_def)+

lemma builds_child_ok:
  "value_builds E s v s' \<Longrightarrow> room s \<Longrightarrow> refs_ok (p_arena s') (levels s) (value_children v)"
  "loop_builds E ch s ch' s' \<Longrightarrow> room s \<Longrightarrow> list_all (child_ok (p_arena s) (levels s)) ch
     \<Longrightarrow> list_all (child_ok (p_arena s') (levels s)) ch'"
  "stmt_builds E out s out' s' \<Longrightarrow> room s \<Longrightarrow> list_all (child_ok (p_arena s) (levels s)) out
     \<Longrightarrow> list_all (child_ok (p_arena s') (levels s)) out'"
proof (induction rule: value_builds_loop_builds_stmt_builds.inducts)
  case (scalar s v s')
  then show ?case by (simp add: value_children_scalar)
next
  case (deep s s')
  then show ?case by (simp add: value_children_def)
next
  case (clause s s1 ch s2)
  let ?s = "s1\<lparr>p_depth := p_depth s1 + 1\<rparr>"
  have "room s1" "levels s1 = levels s" "p_depth s1 = p_depth s"
    using clause room_lexes levels_lexes lexes_depth by blast+
  then have r: "room ?s" "levels s = Suc (levels ?s)" using room_nested [of s1] clause by simp_all
  then have "list_all (child_ok (p_arena s2) (levels ?s)) ch" using clause by simp
  then show ?case using r by (simp add: refs_ok_def value_children_def)
next
  case (finish s s' ch)
  then show ?case by (simp add: lexes_def)
next
  case (turn ch s ch1 s1 ch2 s2)
  then show ?case using builds_room(3) by metis
next
  case (skip s s' out)
  then show ?case by (simp add: lexes_def)
next
  case (comment s s0 s1 c i a out)
  have 1: "lexes E s s1" using comment lexes_trans by blast
  have "child_ok a (levels s) (ChildComment i)"
    using push_child_ok(3) [OF \<open>push_comment c (p_arena s1) = (i, a)\<close>] room_lexes [OF 1] comment room_size
    by blast
  moreover have "list_all (child_ok a (levels s)) out"
    using comment lexes_arena [OF 1] list_child_ok_mono push_extends(3) by metis
  ultimately show ?case by simp
next
  case (leaf s s0 s1 l s2 s3 i a out)
  have 1: "lexes E s s1" using leaf lexes_trans by blast
  have r1: "room s1" "levels s1 = levels s" using room_lexes [OF 1] levels_lexes [OF 1] leaf by auto
  have r3: "room s3" using builds_room(1) room_lexes r1 leaf by blast
  have a3: "p_arena s3 = p_arena s2" using leaf lexes_arena by blast
  have "refs_ok (p_arena s3) (levels s) (value_children (leaf_val l))" using leaf r1 a3 by simp
  then have "child_ok a (levels s) (ChildLeaf i)"
    using push_child_ok(1) [OF \<open>push_leaf l (p_arena s3) = (i, a)\<close>] r3 room_size by blast
  moreover have "arena_extends (p_arena s) a"
    using builds_arena(1) leaf lexes_arena [OF 1] a3 push_extends(1) arena_extends_trans by metis
  ultimately show ?case using leaf list_child_ok_mono by simp
next
  case (missing s s0 s1 l tok i a s2 out)
  have 1: "lexes E s s1" using missing lexes_trans by blast
  have "child_ok a (levels s) (ChildLeaf i)"
    using push_child_ok(1) [OF \<open>push_leaf l (p_arena s1) = (i, a)\<close>] room_lexes [OF 1] missing room_size
    by (simp add: value_children_def)
  moreover have "list_all (child_ok a (levels s)) out"
    using missing lexes_arena [OF 1] list_child_ok_mono push_extends(1) by metis
  ultimately show ?case using lexes_arena [OF \<open>lexes E (s1\<lparr>p_arena := a\<rparr>) s2\<close>] by simp
next
  case (leaf_value s s0 s1 lv s2 s3 i a out)
  have 1: "lexes E s s1" using leaf_value lexes_trans by blast
  have r1: "room s1" "levels s1 = levels s" using room_lexes [OF 1] levels_lexes [OF 1] leaf_value by auto
  have r3: "room s3" using builds_room(1) room_lexes r1 leaf_value by blast
  have a3: "p_arena s3 = p_arena s2" using leaf_value lexes_arena by blast
  have "refs_ok (p_arena s3) (levels s) (value_children (lv_value lv))" using leaf_value r1 a3 by simp
  then have "child_ok a (levels s) (ChildLeafValue i)"
    using push_child_ok(2) [OF \<open>push_leaf_value lv (p_arena s3) = (i, a)\<close>] r3 room_size by blast
  moreover have "arena_extends (p_arena s) a"
    using builds_arena(1) leaf_value lexes_arena [OF 1] a3 push_extends(2) arena_extends_trans by metis
  ultimately show ?case using leaf_value list_child_ok_mono by simp
qed

section \<open>Source ranges\<close>

definition node_range :: "Arena \<Rightarrow> Child \<Rightarrow> SourceRange" where
  "node_range a c =
     (case c of
        ChildLeaf i \<Rightarrow> leaf_pos (leaves a ! unat i)
      | ChildLeafValue i \<Rightarrow> lv_pos (leaf_values a ! unat i)
      | ChildComment i \<Rightarrow> comment_pos (comments a ! unat i))"

text \<open>\<open>chained a lo hi cs\<close>: the nodes \<open>cs\<close> lie between \<open>lo\<close> and \<open>hi\<close>, one after the other.\<close>

fun chained :: "Arena \<Rightarrow> SourcePos \<Rightarrow> SourcePos \<Rightarrow> Child list \<Rightarrow> bool" where
  "chained a lo hi [] \<longleftrightarrow> lo \<le> hi"
| "chained a lo hi (c # cs) \<longleftrightarrow> child_in a c \<and> lo \<le> range_start (node_range a c)
     \<and> range_start (node_range a c) \<le> range_end (node_range a c)
     \<and> chained a (range_end (node_range a c)) hi cs"

definition leaf_chained :: "Arena \<Rightarrow> Leaf \<Rightarrow> bool" where
  "leaf_chained a l \<longleftrightarrow> range_start (leaf_pos l) \<le> range_start (leaf_value_pos l)
     \<and> range_end (leaf_value_pos l) \<le> range_end (leaf_pos l)
     \<and> chained a (range_start (leaf_value_pos l)) (range_end (leaf_value_pos l)) (value_children (leaf_val l))"

definition leaf_value_chained :: "Arena \<Rightarrow> LeafValue \<Rightarrow> bool" where
  "leaf_value_chained a lv \<longleftrightarrow>
     chained a (range_start (lv_pos lv)) (range_end (lv_pos lv)) (value_children (lv_value lv))"

definition arena_chained :: "Arena \<Rightarrow> bool" where
  "arena_chained a \<longleftrightarrow>
     list_all (leaf_chained a) (leaves a) \<and> list_all (leaf_value_chained a) (leaf_values a)"

lemma node_range_mono: "child_in a c \<Longrightarrow> arena_extends a a' \<Longrightarrow> node_range a' c = node_range a c"
  by (cases c) (auto simp: node_range_def arena_extends_def prefix_def nth_append)

lemma chained_mono: "chained a lo hi cs \<Longrightarrow> arena_extends a a' \<Longrightarrow> chained a' lo hi cs"
proof (induction cs arbitrary: lo)
  case (Cons c cs)
  then have "child_in a c" by simp
  with Cons node_range_mono [OF this Cons.prems(2)] child_in_mono [OF this Cons.prems(2)]
  show ?case by simp
qed simp

lemma chained_le: "chained a lo hi cs \<Longrightarrow> lo \<le> hi"
proof (induction cs arbitrary: lo)
  case (Cons c cs)
  then have "range_end (node_range a c) \<le> hi" by simp
  with Cons.prems show ?case by (meson chained.simps(2) order_trans)
qed simp

lemma chained_weaken: "chained a lo hi cs \<Longrightarrow> hi \<le> hi' \<Longrightarrow> chained a lo hi' cs"
proof (induction cs arbitrary: lo)
  case Nil
  then show ?case using order_trans by auto
qed simp

lemma chained_lower: "chained a lo hi cs \<Longrightarrow> lo' \<le> lo \<Longrightarrow> chained a lo' hi cs"
proof (cases cs)
  case Nil
  moreover assume "chained a lo hi cs" "lo' \<le> lo"
  ultimately show ?thesis using order_trans by auto
next
  case (Cons c ds)
  moreover assume "chained a lo hi cs" "lo' \<le> lo"
  ultimately show ?thesis using order_trans [of lo' lo] by simp
qed

lemma chained_snoc:
  "chained a lo mid cs \<Longrightarrow> child_in a c \<Longrightarrow> mid \<le> range_start (node_range a c)
     \<Longrightarrow> range_start (node_range a c) \<le> range_end (node_range a c) \<Longrightarrow> range_end (node_range a c) \<le> hi
     \<Longrightarrow> chained a lo hi (cs @ [c])"
proof (induction cs arbitrary: lo)
  case Nil
  then show ?case using order_trans [of lo mid] by simp
qed simp

lemma leaf_chained_mono: "leaf_chained a l \<Longrightarrow> arena_extends a a' \<Longrightarrow> leaf_chained a' l"
  by (auto simp: leaf_chained_def intro: chained_mono)

lemma leaf_value_chained_mono: "leaf_value_chained a l \<Longrightarrow> arena_extends a a' \<Longrightarrow> leaf_value_chained a' l"
  by (auto simp: leaf_value_chained_def intro: chained_mono)

lemma push_chained:
  "push_leaf l a = (i, a') \<Longrightarrow> arena_chained a \<Longrightarrow> leaf_chained a l \<Longrightarrow> arena_chained a'"
  "push_leaf_value lv a = (j, a') \<Longrightarrow> arena_chained a \<Longrightarrow> leaf_value_chained a lv \<Longrightarrow> arena_chained a'"
  "push_comment c a = (k, a') \<Longrightarrow> arena_chained a \<Longrightarrow> arena_chained a'"
  using push_extends leaf_chained_mono leaf_value_chained_mono
  unfolding arena_chained_def list_all_iff push_leaf_def push_leaf_value_def push_comment_def
  by fastforce+

lemma push_node:
  "push_leaf l a = (i, a') \<Longrightarrow> arena_size a < 2 ^ 32
     \<Longrightarrow> child_in a' (ChildLeaf i) \<and> node_range a' (ChildLeaf i) = leaf_pos l"
  "push_leaf_value lv a = (j, a') \<Longrightarrow> arena_size a < 2 ^ 32
     \<Longrightarrow> child_in a' (ChildLeafValue j) \<and> node_range a' (ChildLeafValue j) = lv_pos lv"
  "push_comment c a = (k, a') \<Longrightarrow> arena_size a < 2 ^ 32
     \<Longrightarrow> child_in a' (ChildComment k) \<and> node_range a' (ChildComment k) = comment_pos c"
  by (auto simp: push_leaf_def push_leaf_value_def push_comment_def arena_size_def unat_of_nat_u32 node_range_def)

section \<open>Positions grow\<close>

definition line_room :: "parser \<Rightarrow> bool" where
  "line_room s \<longleftrightarrow> unat (p_line s) + length (p_chars s) < 2 ^ 32"

lemma pos_step_le:
  assumes "unat l + 1 < 2 ^ 32" "pos_step (l, c) ch = (l', c')"
  shows "SourcePos l c \<le> SourcePos l' c' \<and> unat l' \<le> unat l + 1"
proof (cases "ch = ch_nl")
  case True
  have "unat (l + 1) = unat l + 1" using assms(1) by (simp add: unat_word_ariths)
  with True assms(2) show ?thesis by (auto simp: less_eq_SourcePos_def word_less_nat_alt)
next
  case False
  with assms(2) sat_add_u16_mono show ?thesis by (auto simp: less_eq_SourcePos_def split: if_splits)
qed

lemma pos_after_le:
  "unat l + length cs < 2 ^ 32 \<Longrightarrow> pos_after cs (l, c) = (l', c')
     \<Longrightarrow> SourcePos l c \<le> SourcePos l' c' \<and> unat l' \<le> unat l + length cs"
proof (induction cs arbitrary: l c)
  case (Cons x cs)
  obtain l1 c1 where st: "pos_step (l, c) x = (l1, c1)" by force
  have 1: "SourcePos l c \<le> SourcePos l1 c1" "unat l1 \<le> unat l + 1"
    using pos_step_le [OF _ st] Cons.prems(1) by auto
  then have "SourcePos l1 c1 \<le> SourcePos l' c' \<and> unat l' \<le> unat l1 + length cs"
    using Cons st by (intro Cons.IH) (auto simp del: pos_step.simps)
  with 1 show ?case by (auto intro: order_trans)
qed simp

lemma moves_pos:
  assumes "moves E s s'" "line_room s"
  shows "pos s \<le> pos s' \<and> line_room s'"
proof -
  obtain cs where cs: "p_chars s = cs @ p_chars s'" "(p_line s', p_col s') = pos_after cs (p_line s, p_col s)"
    using assms(1) by (auto simp: moves_def cursor_moves_def)
  have "SourcePos (p_line s) (p_col s) \<le> SourcePos (p_line s') (p_col s')
      \<and> unat (p_line s') \<le> unat (p_line s) + length cs"
    by (rule pos_after_le) (use assms(2) cs in \<open>auto simp: line_room_def\<close>)
  then show ?thesis using assms(2) cs(1) by (auto simp: pos_def line_room_def)
qed

lemma lexes_pos: "lexes E s s' \<Longrightarrow> line_room s \<Longrightarrow> pos s \<le> pos s' \<and> line_room s'"
  by (rule moves_pos [OF lexes_moves])

lemma pos_update [simp]: "pos (s\<lparr>p_depth := d\<rparr>) = pos s" "pos (s\<lparr>p_arena := a\<rparr>) = pos s"
  by (simp_all add: pos_def)

lemma line_room_update [simp]: "line_room (s\<lparr>p_depth := d\<rparr>) = line_room s"
  by (simp add: line_room_def)

text \<open>What a statement pushes: a node from \<open>lo\<close> to \<open>hi\<close>, after the nodes read so far.\<close>

lemma chained_push:
  assumes "chained a lo p out" "arena_extends a a'" "p \<le> start" "child_in a' c"
    "node_range a' c = \<lparr>range_start = start, range_end = end'\<rparr>" "start \<le> end'" "end' \<le> hi"
  shows "chained a' lo hi (out @ [c])"
  using chained_snoc [OF chained_weaken [OF chained_mono [OF assms(1,2)] assms(3)] assms(4)] assms(5-7)
  by simp

definition chains :: "Child list \<Rightarrow> parser \<Rightarrow> Child list \<Rightarrow> parser \<Rightarrow> bool" where
  "chains out s out' s' \<longleftrightarrow> (room s \<longrightarrow> line_room s \<longrightarrow> arena_chained (p_arena s) \<longrightarrow>
     arena_chained (p_arena s')
     \<and> (\<forall>lo. chained (p_arena s) lo (pos s) out \<longrightarrow> chained (p_arena s') lo (pos s') out'))"

lemma chains_lexes: "lexes E s s' \<Longrightarrow> chains out s out s'"
  using lexes_pos [of E s s'] lexes_arena [of E s s'] chained_weaken by (auto simp: chains_def)

lemma chains_comment:
  assumes l: "lexes E s s0" "lexes E s0 s1" and c: "comment_pos c = \<lparr>range_start = pos s0, range_end = pos s1\<rparr>"
    and p: "push_comment c (p_arena s1) = (i, a)"
  shows "chains out s (out @ [ChildComment i]) (s1\<lparr>p_arena := a\<rparr>)"
  unfolding chains_def
proof (intro impI conjI allI)
  assume r: "room s" "line_room s" "arena_chained (p_arena s)"
  have 0: "pos s \<le> pos s0" "line_room s0" and 1: "pos s0 \<le> pos s1"
    using lexes_pos [OF l(1) r(2)] lexes_pos [OF l(2)] by auto
  have a: "p_arena s1 = p_arena s" using l lexes_arena by metis
  show "arena_chained (p_arena (s1\<lparr>p_arena := a\<rparr>))" using push_chained(3) [OF p] r(3) a by simp
  show "chained (p_arena (s1\<lparr>p_arena := a\<rparr>)) lo (pos (s1\<lparr>p_arena := a\<rparr>)) (out @ [ChildComment i])"
    if "chained (p_arena s) lo (pos s) out" for lo
    using chained_push [OF that _ 0(1) _ _ 1 order_refl] push_extends(3) [OF p] push_node(3) [OF p]
      room_size [OF r(1)] a c by simp
qed

lemma chains_leaf:
  assumes l: "lexes E s s0" "lexes E s0 s1" "moves E s1 s2" "lexes E s2 s3"
    and v: "room s1 \<longrightarrow> line_room s1 \<longrightarrow> arena_chained (p_arena s1) \<longrightarrow>
        arena_chained (p_arena s2) \<and> chained (p_arena s2) (pos s1) (pos s2) (value_children (leaf_val l))"
    and vp: "leaf_value_pos l = \<lparr>range_start = pos s1, range_end = pos s2\<rparr>"
    and lp: "leaf_pos l = \<lparr>range_start = pos s0, range_end = pos s3\<rparr>"
    and p: "push_leaf l (p_arena s3) = (i, a)" and r2: "room s1 \<Longrightarrow> room s2"
  shows "chains out s (out @ [ChildLeaf i]) (s3\<lparr>p_arena := a\<rparr>)"
  unfolding chains_def
proof (intro impI conjI allI)
  assume r: "room s" "line_room s" "arena_chained (p_arena s)"
  have 0: "pos s \<le> pos s0" "line_room s0" using lexes_pos [OF l(1) r(2)] by auto
  then have 1: "pos s0 \<le> pos s1" "line_room s1" using lexes_pos [OF l(2)] by auto
  then have 2: "pos s1 \<le> pos s2" "line_room s2" using moves_pos [OF l(3)] by auto
  then have 3: "pos s2 \<le> pos s3" using lexes_pos [OF l(4)] by auto
  have le: "pos s0 \<le> pos s3" using 1(1) 2(1) 3 order_trans by blast
  have a1: "p_arena s1 = p_arena s" and a3: "p_arena s3 = p_arena s2" using l lexes_arena by metis+
  have rm: "room s1" using room_lexes l(1,2) r(1) by blast
  then have v': "arena_chained (p_arena s2)" "chained (p_arena s2) (pos s1) (pos s2) (value_children (leaf_val l))"
    using v r(3) 1(2) a1 by auto
  have "leaf_chained (p_arena s3) l" using v'(2) vp lp 1(1) 3 a3 by (simp add: leaf_chained_def)
  then show "arena_chained (p_arena (s3\<lparr>p_arena := a\<rparr>))" using push_chained(1) [OF p] v'(1) a3 by simp
  have ext: "arena_extends (p_arena s) a"
    using arena_extends_trans [OF _ push_extends(1) [OF p]] l(3) a1 a3 by (simp add: moves_def)
  show "chained (p_arena (s3\<lparr>p_arena := a\<rparr>)) lo (pos (s3\<lparr>p_arena := a\<rparr>)) (out @ [ChildLeaf i])"
    if "chained (p_arena s) lo (pos s) out" for lo
    using chained_push [OF that ext 0(1) _ _ le order_refl] push_node(1) [OF p]
      room_size [OF r2 [OF rm]] a3 lp by simp
qed

lemma chains_leaf_value:
  assumes l: "lexes E s s0" "lexes E s0 s1" "moves E s1 s2" "lexes E s2 s3"
    and v: "room s1 \<longrightarrow> line_room s1 \<longrightarrow> arena_chained (p_arena s1) \<longrightarrow>
        arena_chained (p_arena s2) \<and> chained (p_arena s2) (pos s1) (pos s2) (value_children (lv_value lv))"
    and lp: "lv_pos lv = \<lparr>range_start = pos s0, range_end = pos s3\<rparr>"
    and p: "push_leaf_value lv (p_arena s3) = (i, a)" and r2: "room s1 \<Longrightarrow> room s2"
  shows "chains out s (out @ [ChildLeafValue i]) (s3\<lparr>p_arena := a\<rparr>)"
  unfolding chains_def
proof (intro impI conjI allI)
  assume r: "room s" "line_room s" "arena_chained (p_arena s)"
  have 0: "pos s \<le> pos s0" "line_room s0" using lexes_pos [OF l(1) r(2)] by auto
  then have 1: "pos s0 \<le> pos s1" "line_room s1" using lexes_pos [OF l(2)] by auto
  then have 2: "pos s1 \<le> pos s2" "line_room s2" using moves_pos [OF l(3)] by auto
  then have 3: "pos s2 \<le> pos s3" using lexes_pos [OF l(4)] by auto
  have le: "pos s0 \<le> pos s3" using 1(1) 2(1) 3 order_trans by blast
  have a1: "p_arena s1 = p_arena s" and a3: "p_arena s3 = p_arena s2" using l lexes_arena by metis+
  have rm: "room s1" using room_lexes l(1,2) r(1) by blast
  then have v': "arena_chained (p_arena s2)" "chained (p_arena s2) (pos s1) (pos s2) (value_children (lv_value lv))"
    using v r(3) 1(2) a1 by auto
  have "leaf_value_chained (p_arena s3) lv"
    using chained_lower [OF chained_weaken [OF v'(2) 3] 1(1)] lp a3 by (simp add: leaf_value_chained_def)
  then show "arena_chained (p_arena (s3\<lparr>p_arena := a\<rparr>))" using push_chained(2) [OF p] v'(1) a3 by simp
  have ext: "arena_extends (p_arena s) a"
    using arena_extends_trans [OF _ push_extends(2) [OF p]] l(3) a1 a3 by (simp add: moves_def)
  show "chained (p_arena (s3\<lparr>p_arena := a\<rparr>)) lo (pos (s3\<lparr>p_arena := a\<rparr>)) (out @ [ChildLeafValue i])"
    if "chained (p_arena s) lo (pos s) out" for lo
    using chained_push [OF that ext 0(1) _ _ le order_refl] push_node(2) [OF p]
      room_size [OF r2 [OF rm]] a3 lp by simp
qed

lemma chains_then_lexes:
  assumes "lexes E t s'" "chains out s out' t" "line_room s \<Longrightarrow> line_room t"
  shows "chains out s out' s'"
  using assms(2,3) lexes_pos [OF assms(1)] lexes_arena [OF assms(1)] chained_weaken
  by (fastforce simp: chains_def)

lemma builds_chained:
  "value_builds E s v s' \<Longrightarrow> room s \<longrightarrow> line_room s \<longrightarrow> arena_chained (p_arena s) \<longrightarrow>
     arena_chained (p_arena s') \<and> chained (p_arena s') (pos s) (pos s') (value_children v)"
  "loop_builds E ch s ch' s' \<Longrightarrow> chains ch s ch' s'"
  "stmt_builds E out s out' s' \<Longrightarrow> chains out s out' s'"
proof (induction rule: value_builds_loop_builds_stmt_builds.inducts)
  case (scalar s v s')
  then have "lexes E s s'" by (simp add: scans_def)
  with scalar show ?case using lexes_pos lexes_arena by (fastforce simp: value_children_scalar)
next
  case (deep s s')
  then show ?case using lexes_pos lexes_arena by (fastforce simp: value_children_def)
next
  case (clause s s1 ch s2)
  let ?s = "s1\<lparr>p_depth := p_depth s1 + 1\<rparr>"
  show ?case
  proof (intro impI)
    assume r: "room s" "line_room s" "arena_chained (p_arena s)"
    have l: "pos s \<le> pos s1" "line_room s1" using lexes_pos [OF \<open>lexes E s s1\<close> r(2)] by auto
    have a: "p_arena s1 = p_arena s" using lexes_arena [OF \<open>lexes E s s1\<close>] .
    have "room ?s"
      using room_nested [of s1] room_lexes [OF \<open>lexes E s s1\<close> r(1)] lexes_depth [OF \<open>lexes E s s1\<close>] clause
      by simp
    then have "arena_chained (p_arena s2) \<and> chained (p_arena s2) (pos s1) (pos s2) ch"
      using clause l(2) r(3) a by (simp add: chains_def)
    then show "arena_chained (p_arena (s2\<lparr>p_depth := p_depth s2 - 1\<rparr>))
        \<and> chained (p_arena (s2\<lparr>p_depth := p_depth s2 - 1\<rparr>)) (pos s) (pos (s2\<lparr>p_depth := p_depth s2 - 1\<rparr>))
          (value_children (VClause ch))"
      using chained_lower [OF _ l(1)] by (simp add: value_children_def)
  qed
next
  case (finish s s' ch)
  then show ?case by (rule chains_lexes)
next
  case (turn ch s ch1 s1 ch2 s2)
  have "room s1" if "room s" using builds_room(3) turn that by blast
  moreover have "line_room s1" if "line_room s" using moves_pos builds_moves(3) turn that by blast
  ultimately show ?case using turn by (simp add: chains_def)
next
  case (skip s s' out)
  then show ?case by (rule chains_lexes)
next
  case (comment s s0 s1 c i a out)
  then show ?case by (intro chains_comment)
next
  case (leaf s s0 s1 l s2 s3 i a out)
  show ?case
    by (rule chains_leaf [of E s s0 s1 s2]) (use leaf builds_moves(1) builds_room(1) in auto)
next
  case (missing s s0 s1 l tok i a s2 out)
  have "chains out s (out @ [ChildLeaf i]) (s1\<lparr>p_arena := a\<rparr>)"
    by (rule chains_leaf [of E s s0 s1 s1]) (use missing in \<open>auto simp: value_children_def\<close>)
  moreover have "line_room (s1\<lparr>p_arena := a\<rparr>)" if "line_room s"
    using lexes_pos missing that by (simp add: line_room_def)
  ultimately show ?case using chains_then_lexes [OF \<open>lexes E (s1\<lparr>p_arena := a\<rparr>) s2\<close>] by blast
next
  case (leaf_value s s0 s1 lv s2 s3 i a out)
  show ?case
    by (rule chains_leaf_value [of E s s0 s1 s2]) (use leaf_value builds_moves(1) builds_room(1) in auto)
qed


section \<open>Tokens\<close>

definition leaf_tokens_known :: "rust_env \<Rightarrow> StringTable \<Rightarrow> Leaf \<Rightarrow> bool" where
  "leaf_tokens_known E t l \<longleftrightarrow> known E t (leaf_key l)
     \<and> (is_clause (leaf_val l) \<or> scalar_known E t (leaf_val l))"

definition leaf_value_tokens_known :: "rust_env \<Rightarrow> StringTable \<Rightarrow> LeafValue \<Rightarrow> bool" where
  "leaf_value_tokens_known E t lv \<longleftrightarrow> is_clause (lv_value lv) \<or> scalar_known E t (lv_value lv)"

definition arena_tokens_known :: "rust_env \<Rightarrow> StringTable \<Rightarrow> Arena \<Rightarrow> bool" where
  "arena_tokens_known E t a \<longleftrightarrow> (\<forall>l \<in> set (leaves a). leaf_tokens_known E t l)
     \<and> (\<forall>lv \<in> set (leaf_values a). leaf_value_tokens_known E t lv)"

lemma scalar_known_mono:
  "scalar_known E t v \<Longrightarrow> table_moves E t t' \<Longrightarrow> table_inv E t \<Longrightarrow> scalar_known E t' v"
  by (auto simp: scalar_known_def split: AstValue.splits intro: known_mono)

lemma arena_tokens_known_mono:
  "arena_tokens_known E t a \<Longrightarrow> table_moves E t t' \<Longrightarrow> table_inv E t \<Longrightarrow> arena_tokens_known E t' a"
  unfolding arena_tokens_known_def leaf_tokens_known_def leaf_value_tokens_known_def
  by (meson known_mono scalar_known_mono)

definition tokens_kept :: "rust_env \<Rightarrow> parser \<Rightarrow> parser \<Rightarrow> bool" where
  "tokens_kept E s s' \<longleftrightarrow> (table_inv E (p_table s) \<longrightarrow> arena_tokens_known E (p_table s) (p_arena s) \<longrightarrow>
     arena_tokens_known E (p_table s') (p_arena s'))"

lemma tokens_kept_lexes: "lexes E s s' \<Longrightarrow> tokens_kept E s s'"
  using arena_tokens_known_mono moves_table [OF lexes_moves] lexes_arena
  unfolding tokens_kept_def by metis

lemma tokens_kept_trans: "moves E a b \<Longrightarrow> tokens_kept E a b \<Longrightarrow> tokens_kept E b c \<Longrightarrow> tokens_kept E a c"
  using moves_table_inv by (auto simp: tokens_kept_def)

lemma tokens_kept_push:
  "push_leaf l (p_arena s) = (i, a) \<Longrightarrow> (table_inv E (p_table s) \<longrightarrow> leaf_tokens_known E (p_table s) l)
     \<Longrightarrow> tokens_kept E s (s\<lparr>p_arena := a\<rparr>)"
  "push_leaf_value lv (p_arena s) = (j, a) \<Longrightarrow>
     (table_inv E (p_table s) \<longrightarrow> leaf_value_tokens_known E (p_table s) lv)
     \<Longrightarrow> tokens_kept E s (s\<lparr>p_arena := a\<rparr>)"
  "push_comment c (p_arena s) = (k, a) \<Longrightarrow> tokens_kept E s (s\<lparr>p_arena := a\<rparr>)"
  by (auto simp: tokens_kept_def push_leaf_def push_leaf_value_def push_comment_def arena_tokens_known_def)

lemma tokens_kept_depth:
  "tokens_kept E (s\<lparr>p_depth := d\<rparr>) s' \<longleftrightarrow> tokens_kept E s s'"
  "tokens_kept E s (s'\<lparr>p_depth := d\<rparr>) \<longleftrightarrow> tokens_kept E s s'"
  by (simp_all add: tokens_kept_def)

lemma builds_tokens:
  "value_builds E s v s' \<Longrightarrow> tokens_kept E s s'
     \<and> (table_inv E (p_table s) \<longrightarrow> is_clause v \<or> scalar_known E (p_table s') v)"
  "loop_builds E ch s ch' s' \<Longrightarrow> tokens_kept E s s'"
  "stmt_builds E out s out' s' \<Longrightarrow> tokens_kept E s s'"
proof (induction rule: value_builds_loop_builds_stmt_builds.inducts)
  case (scalar s v s')
  then show ?case using tokens_kept_lexes by (auto simp: scans_def)
next
  case (deep s s')
  then show ?case using tokens_kept_lexes by auto
next
  case (clause s s1 ch s2)
  then show ?case
    using tokens_kept_trans [OF lexes_moves [OF \<open>lexes E s s1\<close>] tokens_kept_lexes [OF \<open>lexes E s s1\<close>]]
    by (simp add: tokens_kept_depth)
next
  case (finish s s' ch)
  then show ?case by (rule tokens_kept_lexes)
next
  case (turn ch s ch1 s1 ch2 s2)
  then show ?case using builds_moves(3) tokens_kept_trans by blast
next
  case (skip s s' out)
  then show ?case by (rule tokens_kept_lexes)
next
  case (comment s s0 s1 c i a out)
  have "lexes E s s1" using comment lexes_trans by blast
  then show ?case
    using tokens_kept_trans [OF lexes_moves tokens_kept_lexes] tokens_kept_push(3) comment by blast
next
  case (leaf s s0 s1 l s2 s3 i a out)
  have 1: "lexes E s s1" using leaf lexes_trans by blast
  have 13: "moves E s1 s3" and m3: "moves E s s3"
    using builds_moves(1) leaf lexes_moves moves_trans 1 by meson+
  have k: "tokens_kept E s s3"
    using tokens_kept_trans [OF lexes_moves [OF 1] tokens_kept_lexes [OF 1]]
      tokens_kept_trans [OF _ _ tokens_kept_lexes [OF \<open>lexes E s2 s3\<close>]] builds_moves(1) leaf by blast
  have "leaf_tokens_known E (p_table s3) l" if inv: "table_inv E (p_table s3)" "table_inv E (p_table s)"
  proof -
    have i0: "table_inv E (p_table s0)" and i1: "table_inv E (p_table s1)"
      using inv lexes_table_inv \<open>lexes E s s0\<close> 1 by blast+
    have i2: "table_inv E (p_table s2)" using moves_table_inv builds_moves(1) leaf i1 by blast
    have "known E (p_table s3) (leaf_key l)" using leaf i0 i1 known_mono moves_table [OF 13] by blast
    moreover have "is_clause (leaf_val l) \<or> scalar_known E (p_table s3) (leaf_val l)"
      using leaf i1 i2 scalar_known_mono moves_table [OF lexes_moves [OF \<open>lexes E s2 s3\<close>]] by blast
    ultimately show ?thesis by (simp add: leaf_tokens_known_def)
  qed
  then show ?case
    using k tokens_kept_push(1) [OF \<open>push_leaf l (p_arena s3) = (i, a)\<close>] moves_table_inv [OF m3]
    unfolding tokens_kept_def by (metis (no_types, lifting))
next
  case (missing s s0 s1 l tok i a s2 out)
  have 1: "lexes E s s1" using missing lexes_trans by blast
  have k: "tokens_kept E s1 (s1\<lparr>p_arena := a\<rparr>)" if "table_inv E (p_table s0)"
    by (rule tokens_kept_push(1) [OF \<open>push_leaf l (p_arena s1) = (i, a)\<close>])
      (use missing that in \<open>simp add: leaf_tokens_known_def scalar_known_def\<close>)
  have "table_inv E (p_table s0)" if "table_inv E (p_table s)"
    using that lexes_table_inv [OF \<open>lexes E s s0\<close>] by blast
  then have "tokens_kept E s (s1\<lparr>p_arena := a\<rparr>)"
    using k tokens_kept_lexes [OF 1] lexes_table_inv [OF 1] unfolding tokens_kept_def by blast
  then show ?case
    using tokens_kept_lexes [OF \<open>lexes E (s1\<lparr>p_arena := a\<rparr>) s2\<close>] lexes_table_inv [OF 1]
    unfolding tokens_kept_def by simp
next
  case (leaf_value s s0 s1 lv s2 s3 i a out)
  have 1: "lexes E s s1" using leaf_value lexes_trans by blast
  have m3: "moves E s s3"
    using builds_moves(1) leaf_value lexes_moves moves_trans 1 by meson
  have k: "tokens_kept E s s3"
    using tokens_kept_trans [OF lexes_moves [OF 1] tokens_kept_lexes [OF 1]]
      tokens_kept_trans [OF _ _ tokens_kept_lexes [OF \<open>lexes E s2 s3\<close>]] builds_moves(1) leaf_value by blast
  have "leaf_value_tokens_known E (p_table s3) lv" if "table_inv E (p_table s)"
  proof -
    have i1: "table_inv E (p_table s1)" using that lexes_table_inv 1 by blast
    have i2: "table_inv E (p_table s2)" using moves_table_inv builds_moves(1) leaf_value i1 by blast
    show ?thesis
      using leaf_value i1 i2 scalar_known_mono moves_table [OF lexes_moves [OF \<open>lexes E s2 s3\<close>]]
      unfolding leaf_value_tokens_known_def by blast
  qed
  then show ?case
    using k tokens_kept_push(2) [OF \<open>push_leaf_value lv (p_arena s3) = (i, a)\<close>] moves_table_inv [OF m3]
    unfolding tokens_kept_def by (metis (no_types, lifting))
qed

end
