(* ===== verification/Parser_Properties.thy ===== *)
theory Parser_Properties
  imports Parser_Tree
begin

text \<open>
  The parser's properties, over \<open>parse_string\<close> and its two comment modes. Each is a few steps
  over \<open>parse_string_builds\<close> and the invariants of the abstract grammar.
\<close>

lemma parse_result_builds:
  assumes "parse_string_with_comment_mode E input t mode = Some (f, t')"
  obtains s' where "loop_builds E [] (parser_new (strip_bom input) t mode) (root_children f) s'"
    "p_chars s' = []" "p_arena s' = pf_arena f" "p_errors s' = pf_errors f" "p_table s' = t'"
proof -
  obtain root s' where
    r: "parse_string_with_comment_mode E input t mode
       = Some (\<lparr>pf_arena = p_arena s', root_children = root, pf_errors = p_errors s'\<rparr>, p_table s')"
    and b: "loop_builds E [] (parser_new (strip_bom input) t mode) root s'" "p_chars s' = []"
    using parse_string_builds by blast
  then have "f = \<lparr>pf_arena = p_arena s', root_children = root, pf_errors = p_errors s'\<rparr>" "t' = p_table s'"
    using assms by auto
  then show thesis using that b by simp
qed

lemma parser_new_simps [simp]:
  "p_chars (parser_new input t mode) = chars input" "p_arena (parser_new input t mode) = arena_new"
  "p_table (parser_new input t mode) = t" "p_depth (parser_new input t mode) = 0"
  "pos (parser_new input t mode) = SourcePos 1 0"
  by (simp_all add: parser_new_def pos_def)

lemma arena_new_simps [simp]:
  "arena_size arena_new = 0" "stored_refs arena_new = {#}" "arena_ids arena_new = []"
  "arena_chained arena_new" "arena_tokens_known E t arena_new"
  by (simp_all add: arena_new_def arena_size_def stored_refs_def arena_ids_def arena_chained_def
      arena_tokens_known_def)

lemma parser_new_room: "length (chars input) < 2 ^ 32 - 1 \<Longrightarrow> room (parser_new input t mode) \<and> line_room (parser_new input t mode)"
  by (simp add: room_def line_room_def) (simp add: parser_new_def)

lemma levels_new [simp]: "levels (parser_new input t mode) = 256"
  by (simp add: levels_def MAX_CLAUSE_DEPTH_def)

definition ex_input :: rstr where
  "ex_input = ''a = { b c = 1 } # x''"

lemma ex_input_parses:
  "map_option (\<lambda>(f, t'). (root_children f, length (leaves (pf_arena f)), length (leaf_values (pf_arena f)),
     length (comments (pf_arena f)), pf_errors f, table_fits t')) (parse_string ascii_env ex_input table_new)
   = Some ([ChildLeaf 1, ChildComment 0], 2, 1, 1, [], True)"
  by code_simp

section \<open>Properties\<close>

text \<open>C1. Parsing always ends and returns a file: with the fuel \<open>parse_fuel\<close> (five units for each
  character and five to finish) the recursive descent never runs dry, on any input, with any
  table and in both comment modes.\<close>

theorem parse_string_total:
  "\<exists>f t'. parse_string_with_comment_mode E input t mode = Some (f, t')"
  using parse_string_builds by blast

text \<open>C5. In a parsed file every node of the arena is referred to exactly once, by the list of
  top-level statements or by one clause, no reference dangles, the ids are distinct, and
  there are no more nodes than characters.\<close>

theorem parse_nodes_referenced_once:
  assumes "parse_string_with_comment_mode E input t mode = Some (f, t')"
    and "length (chars (strip_bom input)) < 2 ^ 32"
  shows "mset (root_children f) + stored_refs (pf_arena f) = mset (arena_ids (pf_arena f))
    \<and> distinct (arena_ids (pf_arena f)) \<and> arena_size (pf_arena f) \<le> length (chars (strip_bom input))"
proof -
  obtain s' where b: "loop_builds E [] (parser_new (strip_bom input) t mode) (root_children f) s'"
    and s': "p_arena s' = pf_arena f" using parse_result_builds [OF assms(1)] by blast
  have "arena_size (pf_arena f) \<le> length (chars (strip_bom input))"
    using builds_size(2) [OF b] s' by simp
  then show ?thesis using builds_refs(2) [OF b] s' arena_ids_distinct [of "pf_arena f"] assms(2) by simp
qed

lemma parse_nodes_referenced_once_witness:
  "\<exists>f t'. parse_string ascii_env ex_input table_new = Some (f, t')
     \<and> mset (root_children f) + stored_refs (pf_arena f)
       = {#ChildLeaf 0, ChildLeaf 1, ChildLeafValue 0, ChildComment 0#}"
proof -
  obtain f t' where p: "parse_string ascii_env ex_input table_new = Some (f, t')"
      "length (leaves (pf_arena f)) = 2" "length (leaf_values (pf_arena f)) = 1"
      "length (comments (pf_arena f)) = 1"
    using ex_input_parses by (auto split: prod.splits)
  have "length (chars (strip_bom ex_input)) = 19" by code_simp
  moreover have "arena_ids (pf_arena f) = [ChildLeaf 0, ChildLeaf 1, ChildLeafValue 0, ChildComment 0]"
    using p by (simp add: arena_ids_def upt_rec)
  ultimately show ?thesis
    using parse_nodes_referenced_once [OF p(1) [unfolded parse_string_def]] p by simp
qed

text \<open>C4. Whatever the input, following references from a top-level statement stays inside the
  arena and meets at most 256 levels of clauses: what the parser builds is a finite tree no
  deeper than \<open>MAX_CLAUSE_DEPTH\<close>, which is what the recursive walkers downstream rely on.\<close>

theorem parse_depth_bounded:
  assumes "parse_string_with_comment_mode E input t mode = Some (f, t')"
    and "length (chars (strip_bom input)) < 2 ^ 32"
  shows "list_all (child_ok (pf_arena f) 256) (root_children f)"
proof -
  obtain s' where b: "loop_builds E [] (parser_new (strip_bom input) t mode) (root_children f) s'"
    and s': "p_arena s' = pf_arena f" using parse_result_builds [OF assms(1)] by blast
  have "room (parser_new (strip_bom input) t mode)" using assms(2) by (simp add: room_def)
  then show ?thesis using builds_child_ok(2) [OF b] s' by simp
qed

lemma parse_depth_bounded_witness:
  "\<exists>f t'. parse_string ascii_env ex_input table_new = Some (f, t')
     \<and> root_children f = [ChildLeaf 1, ChildComment 0] \<and> child_ok (pf_arena f) 256 (ChildLeaf 1)"
proof -
  obtain f t' where p: "parse_string ascii_env ex_input table_new = Some (f, t')"
      "root_children f = [ChildLeaf 1, ChildComment 0]"
    using ex_input_parses by (auto split: prod.splits)
  have "length (chars (strip_bom ex_input)) = 19" by code_simp
  then show ?thesis using parse_depth_bounded [OF p(1) [unfolded parse_string_def]] p by simp
qed


text \<open>C7. Source ranges nest and follow one another: the top-level statements, and the children
  of every clause, lie in order and without overlap, every clause's children inside the
  range of its value, every value inside its leaf, and all of it between the start of the
  input and the position the input ends at.\<close>

theorem parse_ranges_nested:
  assumes "parse_string_with_comment_mode E input t mode = Some (f, t')"
    and "length (chars (strip_bom input)) < 2 ^ 32 - 1"
  shows "arena_chained (pf_arena f) \<and> chained (pf_arena f) (SourcePos 1 0)
    (case pos_after (chars (strip_bom input)) (1, 0) of (l, c) \<Rightarrow> SourcePos l c) (root_children f)"
proof -
  let ?s = "parser_new (strip_bom input) t mode"
  obtain s' where b: "loop_builds E [] ?s (root_children f) s'"
    and s': "p_arena s' = pf_arena f" "p_chars s' = []" using parse_result_builds [OF assms(1)] by blast
  have r: "room ?s" "line_room ?s" using parser_new_room [OF assms(2)] by auto
  have "moves E ?s s'" using b by (rule builds_moves)
  then have "(p_line s', p_col s') = pos_after (chars (strip_bom input)) (p_line ?s, p_col ?s)"
    using s'(2) by (auto simp: moves_def cursor_moves_def)
  then have "pos s' = (case pos_after (chars (strip_bom input)) (1, 0) of (l, c) \<Rightarrow> SourcePos l c)"
    by (simp add: pos_def parser_new_def) (metis case_prod_conv)
  then show ?thesis
    using builds_chained(2) [OF b] r s'(1) by (simp add: chains_def)
qed

lemma parse_ranges_nested_witness:
  "\<exists>f t'. parse_string ascii_env ex_input table_new = Some (f, t')
     \<and> chained (pf_arena f) (SourcePos 1 0) (SourcePos 1 19) [ChildLeaf 1, ChildComment 0]"
proof -
  obtain f t' where p: "parse_string ascii_env ex_input table_new = Some (f, t')"
      "root_children f = [ChildLeaf 1, ChildComment 0]"
    using ex_input_parses by (auto split: prod.splits)
  have "length (chars (strip_bom ex_input)) = 19"
    "pos_after (chars (strip_bom ex_input)) (1, 0) = (1, 19)" by code_simp+
  then show ?thesis using parse_ranges_nested [OF p(1) [unfolded parse_string_def]] p by simp
qed

text \<open>Parsing into a table keeps the table's invariant and every id handed out before, and
  every key and every string value of the tree is a token the resulting table resolves.\<close>

theorem parse_tokens_resolve:
  assumes "env_lower_ok E" "table_inv E t" "table_fits t'"
    and "parse_string_with_comment_mode E input t mode = Some (f, t')"
  shows "table_inv E t' \<and> (\<forall>i x. get_string t i = Some x \<longrightarrow> get_string t' i = Some x)
    \<and> (\<forall>l \<in> set (leaves (pf_arena f)). get_string t' (tok_normal (leaf_key l)) \<noteq> None
        \<and> (\<forall>tok. leaf_val l = VString tok \<or> leaf_val l = VQString tok \<longrightarrow> get_string t' (tok_normal tok) \<noteq> None))
    \<and> (\<forall>lv \<in> set (leaf_values (pf_arena f)). \<forall>tok. lv_value lv = VString tok \<or> lv_value lv = VQString tok
        \<longrightarrow> get_string t' (tok_normal tok) \<noteq> None)"
proof -
  obtain s' where b: "loop_builds E [] (parser_new (strip_bom input) t mode) (root_children f) s'"
    and s': "p_arena s' = pf_arena f" "p_table s' = t'" using parse_result_builds [OF assms(4)] by blast
  have m: "table_moves E t t'" using moves_table [OF builds_moves(2) [OF b]] s' by simp
  have inv: "table_inv E t'" using m assms(2) by (rule table_moves_inv)
  have toks: "arena_tokens_known E t' (pf_arena f)"
    using builds_tokens(2) [OF b] assms(2) s' by (simp add: tokens_kept_def)
  have res: "get_string t' (tok_normal tok) \<noteq> None" if "known E t' tok" for tok
    using that interned_strings(1) [OF assms(1) inv assms(3)] by (auto simp: known_def)
  have "get_string t' i = Some x" if "get_string t i = Some x" for i x
    using get_string_extends [OF that table_moves_extends [OF m] table_inv_length [OF assms(2)]] .
  then show ?thesis
    using inv toks res
    by (fastforce simp: arena_tokens_known_def leaf_tokens_known_def leaf_value_tokens_known_def scalar_known_def)
qed

lemma parse_tokens_resolve_witness:
  "\<exists>f t'. parse_string ascii_env ex_input table_new = Some (f, t') \<and> length (leaves (pf_arena f)) = 2
     \<and> (\<forall>l \<in> set (leaves (pf_arena f)). get_string t' (tok_normal (leaf_key l)) \<noteq> None)"
proof -
  obtain f t' where p: "parse_string ascii_env ex_input table_new = Some (f, t')"
      "length (leaves (pf_arena f)) = 2" "table_fits t'"
    using ex_input_parses by (auto split: prod.splits)
  then show ?thesis
    using parse_tokens_resolve [OF env_lower_ok_ascii_env table_new_inv p(3) p(1) [unfolded parse_string_def]]
    by simp
qed

section \<open>Quoted strings\<close>

text \<open>The reference: read a quoted body character by character, keeping the unescaped text.\<close>

definition put :: "rchar \<Rightarrow> rstr \<times> bool \<times> rchar list \<Rightarrow> rstr \<times> bool \<times> rchar list" where
  "put c r = (case r of (str, closed, rest) \<Rightarrow> (c @ str, closed, rest))"

fun unquote :: "rchar list \<Rightarrow> rstr \<times> bool \<times> rchar list" where
  "unquote [] = ([], False, [])"
| "unquote [c] =
     (if c = ch_nl then ([], False, [c]) else if c = ch_quote then ([], True, []) else (c, False, []))"
| "unquote (c # e # cs) =
     (if c = ch_nl then ([], False, c # e # cs)
      else if c = ch_quote then ([], True, e # cs)
      else if c = ch_backslash \<and> (e = ch_quote \<or> e = ch_backslash) then put e (unquote cs)
      else put c (unquote (e # cs)))"

lemma text_between_append [simp]: "text_between (xs @ rest) rest = concat xs"
  by (simp add: text_between_def)

lemma text_between_Cons [simp]: "text_between (c # xs @ rest) rest = c @ concat xs"
  using text_between_append [of "c # xs" rest] by simp

lemma text_between_snoc [simp]: "text_between (xs @ c # rest) rest = concat xs @ c"
  using text_between_append [of "xs @ [c]" rest] by simp

abbreviation (input) buffer :: "rstr option \<Rightarrow> rstr" where
  "buffer owned \<equiv> (case owned of None \<Rightarrow> ch_quote | Some b \<Rightarrow> b)"

lemma scan_quoted_loop_unquote:
  assumes "scan_quoted_loop (pre @ p_chars s) owned s = (seg', owned', closed', s')"
    and "unquote (p_chars s) = (str, closed, rest)"
  shows "closed' = closed \<and> p_chars s' = rest \<and> p_errors s' = p_errors s \<and> p_table s' = p_table s
    \<and> (owned' = None \<longrightarrow> owned = None \<and> seg' = pre @ p_chars s)
    \<and> (\<exists>pre'. seg' = pre' @ (if closed then [ch_quote] else []) @ rest
        \<and> buffer owned' @ concat pre' = buffer owned @ concat pre @ str)"
  using assms
proof (induction "length (p_chars s)" arbitrary: pre owned s str rule: less_induct)
  case less
  note eq = less.prems(1) [unfolded scan_quoted_loop.simps [of _ owned s]]
  show ?case
  proof (cases "p_chars s")
    case Nil
    then show ?thesis using eq less.prems(2) by (auto simp: peek_def)
  next
    case (Cons c cs)
    then have pk: "peek s = Some c" and pk1: "peek (advance s) = (case cs of [] \<Rightarrow> None | e # ds \<Rightarrow> Some e)"
      by (simp_all add: peek_def split: list.split)
    note step = less.hyps [of "advance s" "pre @ [c]" owned]
    consider (nl) "c = ch_nl" | (quote) "c = ch_quote"
      | (esc) e ds where "c = ch_backslash" "cs = e # ds" "e = ch_quote \<or> e = ch_backslash"
      | (other) "c \<noteq> ch_nl" "c \<noteq> ch_quote"
          "\<And>e ds. cs = e # ds \<Longrightarrow> c = ch_backslash \<Longrightarrow> e \<noteq> ch_quote \<and> e \<noteq> ch_backslash"
      by blast
    then show ?thesis
    proof cases
      case nl
      then show ?thesis using eq pk less.prems(2) Cons by (cases cs) auto
    next
      case quote
      then show ?thesis using eq pk less.prems(2) Cons by (cases cs) (auto simp: frame_simps)
    next
      case esc
      let ?s2 = "advance (advance s)" and ?buf = "buffer owned @ concat pre @ e"
      have "scan_quoted_loop (p_chars ?s2) (Some ?buf) ?s2 = (seg', owned', closed', s')"
        using eq pk pk1 esc Cons by (auto simp: Let_def)
      moreover obtain str1 where u: "unquote ds = (str1, closed, rest)" "str = e @ str1"
        using less.prems(2) Cons esc by (auto simp: put_def split: prod.splits)
      ultimately show ?thesis
        using less.hyps [of ?s2 "[]" "Some ?buf" str1] Cons esc by (auto simp: frame_simps)
    next
      case other
      have "scan_quoted_loop (pre @ p_chars s) owned (advance s) = (seg', owned', closed', s')"
        using eq pk pk1 other by (cases cs) (auto split: if_splits)
      moreover obtain str1 where u: "unquote cs = (str1, closed, rest)" "str = c @ str1"
        using less.prems(2) Cons other by (cases cs) (auto simp: put_def split: prod.splits if_splits)
      ultimately show ?thesis
        using step [of str1] Cons by (auto simp: frame_simps)
    qed
  qed
qed

text \<open>C9. \<open>scan_quoted\<close>, which copies nothing until an escape forces it to, interns exactly the
  text a character-by-character reading of the quoted body gives, between quotes even when
  the string is left unclosed; it stops where that reading stops, and reports an error just
  when asked to and the closing quote is missing.\<close>

theorem scan_quoted_reference:
  assumes "p_chars s = ch_quote # body" "unquote body = (str, closed, rest)"
    and "scan_quoted E report s = (tok, s')"
  shows "(tok, p_table s') = intern E (ch_quote @ str @ ch_quote) (p_table s) \<and> p_chars s' = rest
    \<and> p_errors s' = p_errors s @ (if report \<and> \<not> closed
        then [PosError (p_line s) (p_col s) (unclosed_msg (p_line s))] else [])"
proof -
  let ?s1 = "advance s"
  obtain seg owned closed' s2 where l: "scan_quoted_loop body None ?s1 = (seg, owned, closed', s2)"
    by (metis prod.exhaust)
  have c1: "p_chars ?s1 = body" using assms(1) by simp
  note r = scan_quoted_loop_unquote [of "[]" ?s1 None, simplified c1 append_Nil, OF l assms(2)]
  then obtain pre where pre: "seg = pre @ (if closed then [ch_quote] else []) @ rest"
    "buffer owned @ concat pre = ch_quote @ str" by auto
  have r': "closed' = closed" "p_chars s2 = rest" "p_errors s2 = p_errors s" "p_table s2 = p_table s"
    "owned = None \<Longrightarrow> seg = body"
    using r by (auto simp: frame_simps)
  let ?s3 = "if report \<and> \<not> closed then push_error (pos s) (unclosed_msg (p_line s)) s2 else s2"
  have "scan_quoted E report s = intern_in E (ch_quote @ str @ ch_quote) ?s3"
  proof (cases owned)
    case (Some buf)
    then show ?thesis
      using l c1 r' pre assms(1) by (simp add: scan_quoted_def Let_def pos_def) (metis append_Cons append_assoc)
  next
    case None
    then have body: "body = pre @ (if closed then [ch_quote] else []) @ rest" and "concat pre = str"
      using r' pre by simp_all
    moreover have "text_between (p_chars s) rest = ch_quote @ concat pre @ (if closed then ch_quote else [])"
      using text_between_append [of "ch_quote # pre @ (if closed then [ch_quote] else [])" rest] assms(1) body
      by (cases closed) simp_all
    ultimately show ?thesis
      using None l c1 r' by (cases closed) (simp_all add: scan_quoted_def Let_def pos_def)
  qed
  then have "intern_in E (ch_quote @ str @ ch_quote) ?s3 = (tok, s')" using assms(3) by simp
  then show ?thesis
    using r' by (auto simp: intern_in_def push_error_def pos_def split: prod.splits)
qed


lemma scan_quoted_reference_witness:
  "\<exists>tok s'. scan_quoted ascii_env True (parser_new (ch_quote @ ''a'' @ ch_backslash @ ch_quote @ ch_quote @ ''} #'') table_new Preserve)
       = (tok, s')
     \<and> (tok, p_table s') = intern ascii_env (ch_quote @ ''a'' @ ch_quote @ ch_quote) table_new
     \<and> p_chars s' = chars ''} #'' \<and> p_errors s' = []"
proof -
  let ?b = "[''a'', ch_backslash, ch_quote, ch_quote, ''}'', '' '', ''#'']"
  let ?s = "parser_new (ch_quote @ ''a'' @ ch_backslash @ ch_quote @ ch_quote @ ''} #'') table_new Preserve"
  have c: "p_chars ?s = ch_quote # ?b" by code_simp
  have u: "unquote ?b = (''a'' @ ch_quote, True, [''}'', '' '', ''#''])" by code_simp
  have r: "chars ''} #'' = [''}'', '' '', ''#'']" by code_simp
  obtain tok s' where q: "scan_quoted ascii_env True ?s = (tok, s')" by force
  have e: "p_errors ?s = []" by (simp add: parser_new_def)
  show ?thesis using scan_quoted_reference [OF c u q] q r e by simp
qed

section \<open>Operators and numbers\<close>

fun op_chars :: "Operator \<Rightarrow> rchar list" where
  "op_chars Equals = [''='']"
| "op_chars GreaterThan = [''>'']"
| "op_chars LessThan = [''<'']"
| "op_chars GreaterThanOrEqual = [''>'', ''='']"
| "op_chars LessThanOrEqual = [''<'', ''='']"
| "op_chars NotEqual = [''!'', ''='']"
| "op_chars EqualEqual = [''='', ''='']"
| "op_chars QuestionEqual = [''?'', ''='']"

lemma chars_op_as_str: "chars (op_as_str op') = op_chars op'"
  by (cases op') (simp_all add: is_cont_def)

lemma match_operator_spelling:
  "match_operator c (case cs of [] \<Rightarrow> None | d # ds \<Rightarrow> Some d) = Some op' \<longleftrightarrow>
     (\<exists>rest. c # cs = op_chars op' @ rest
        \<and> \<not> (op' \<in> {Equals, GreaterThan, LessThan} \<and> take 1 rest = [''='']))"
  by (cases cs; cases op') (auto simp: match_operator_def)

text \<open>The operator lexer takes the longest operator: it answers \<open>op\<close> exactly when the input
  continues with the spelling of \<open>op\<close> and, for the one-character operators, not with a
  further equals sign; then it consumes the spelling and the white space after it.\<close>

theorem parse_operator_longest_match:
  "(parse_operator s = (Some op', s')) \<longleftrightarrow>
     (\<exists>rest. p_chars s = chars (op_as_str op') @ rest
        \<and> \<not> (op' \<in> {Equals, GreaterThan, LessThan} \<and> take 1 rest = [''='']))
     \<and> s' = skip_whitespace (advance_by (length (op_as_str op')) s)"
proof (cases "p_chars s")
  case Nil
  then show ?thesis by (cases op') (auto simp: parse_operator_def peek_def chars_op_as_str)
next
  case (Cons c cs)
  then have "peek s = Some c" "peek2 s = (case cs of [] \<Rightarrow> None | d # ds \<Rightarrow> Some d)"
    by (simp_all add: peek_def peek2_def split: list.split)
  then have "(parse_operator s = (Some op', s')) \<longleftrightarrow>
      match_operator c (case cs of [] \<Rightarrow> None | d # ds \<Rightarrow> Some d) = Some op'
      \<and> s' = skip_whitespace (advance_by (length (op_as_str op')) s)"
    by (auto simp: parse_operator_def split: option.split)
  then show ?thesis by (simp only: match_operator_spelling chars_op_as_str Cons)
qed







lemma takeWhile_show_nat [simp]:
  "takeWhile is_digit_byte (show_nat n) = show_nat n" "dropWhile is_digit_byte (show_nat n) = []"
  using show_nat_digits [of n] by (auto simp: list_all_iff)










section \<open>Closing braces\<close>










end
