(* ===== verification/Parser_Comments.thy ===== *)
theory Parser_Comments
  imports Parser_Tree
begin

text \<open>
  The two comment modes agree. \<open>erase\<close> drops from a parser state the comments kept so far
  and switches it to discarding them; every parser function commutes with it, so parsing
  without comments is parsing with them and erasing them afterwards.
\<close>

section \<open>Erasing comments\<close>

definition is_comment :: "Child \<Rightarrow> bool" where
  "is_comment c = (case c of ChildComment i \<Rightarrow> True | _ \<Rightarrow> False)"

definition erase_children :: "Child list \<Rightarrow> Child list" where
  "erase_children cs = filter (\<lambda>c. \<not> is_comment c) cs"

definition erase_value :: "AstValue \<Rightarrow> AstValue" where
  "erase_value v = (case v of VClause ch \<Rightarrow> VClause (erase_children ch) | _ \<Rightarrow> v)"

definition erase_leaf :: "Leaf \<Rightarrow> Leaf" where
  "erase_leaf l = l\<lparr>leaf_val := erase_value (leaf_val l)\<rparr>"

definition erase_leaf_value :: "LeafValue \<Rightarrow> LeafValue" where
  "erase_leaf_value lv = lv\<lparr>lv_value := erase_value (lv_value lv)\<rparr>"

definition erase_arena :: "Arena \<Rightarrow> Arena" where
  "erase_arena a = \<lparr>leaves = map erase_leaf (leaves a),
     leaf_values = map erase_leaf_value (leaf_values a), comments = []\<rparr>"

definition erase_file :: "ParsedFile \<Rightarrow> ParsedFile" where
  "erase_file f = \<lparr>pf_arena = erase_arena (pf_arena f), root_children = erase_children (root_children f),
     pf_errors = pf_errors f\<rparr>"

definition erase :: "parser \<Rightarrow> parser" where
  "erase s = s\<lparr>p_mode := Discard, p_arena := erase_arena (p_arena s)\<rparr>"

lemma erase_value_simps [simp]:
  "erase_value (VString tok) = VString tok" "erase_value (VQString tok) = VQString tok"
  "erase_value (VFloat d) = VFloat d" "erase_value (VInt i) = VInt i" "erase_value (VBool b) = VBool b"
  "erase_value (VClause ch) = VClause (erase_children ch)"
  by (simp_all add: erase_value_def)

lemma erase_children_simps [simp]:
  "erase_children [] = []" "erase_children (cs @ ds) = erase_children cs @ erase_children ds"
  "erase_children [ChildLeaf i] = [ChildLeaf i]" "erase_children [ChildLeafValue j] = [ChildLeafValue j]"
  "erase_children [ChildComment k] = []"
  by (simp_all add: erase_children_def is_comment_def)

section \<open>The lexical functions commute with erasing\<close>

named_theorems erase_simps

lemma erase_fields [erase_simps]:
  "p_chars (erase s) = p_chars s" "p_errors (erase s) = p_errors s" "p_table (erase s) = p_table s"
  "p_depth (erase s) = p_depth s" "pos (erase s) = pos s" "peek (erase s) = peek s" "peek2 (erase s) = peek2 s"
  "peek_n n (erase s) = peek_n n s" "save (erase s) = save s" "p_mode (erase s) = Discard"
  by (simp_all add: erase_def pos_def peek_def peek2_def peek_n_def save_def)

lemma restore_erase [erase_simps]: "restore c (erase s) = erase (restore c s)"
  by (simp add: erase_def restore_def)

lemma push_error_erase [erase_simps]: "push_error at msg (erase s) = erase (push_error at msg s)"
  by (simp add: erase_def push_error_def)

lemma intern_in_erase [erase_simps]: "intern_in E str (erase s) = apsnd erase (intern_in E str s)"
  by (simp add: erase_def intern_in_def split: prod.split)

lemma depth_erase [erase_simps]: "(erase s)\<lparr>p_depth := d\<rparr> = erase (s\<lparr>p_depth := d\<rparr>)"
  by (simp add: erase_def)

lemma advance_erase [erase_simps]: "advance (erase s) = erase (advance s)"
  by (simp add: erase_def advance_def split: list.split)

lemma advance_by_erase [erase_simps]: "advance_by n (erase s) = erase (advance_by n s)"
  by (induction n s rule: advance_by.induct) (simp_all add: erase_simps)

lemma advance_while_erase:
  assumes "\<And>s c. P (erase s) c = P s c"
  shows "advance_while P (erase s) = erase (advance_while P s)"
proof (induction "length (p_chars s)" arbitrary: s rule: less_induct)
  case less
  show ?case
  proof (cases "p_chars s")
    case Nil
    then show ?thesis by (simp add: advance_while.simps [of P] erase_simps) (simp add: peek_def)
  next
    case (Cons c cs)
    then have "peek s = Some c" "length (p_chars (advance s)) < length (p_chars s)" by (simp_all add: peek_def)
    with less show ?thesis
      by (simp add: advance_while.simps [of P s] advance_while.simps [of P "erase s"] erase_simps assms)
  qed
qed

lemma skip_erase [erase_simps]:
  "skip_whitespace (erase s) = erase (skip_whitespace s)" "skip_line (erase s) = erase (skip_line s)"
  "skip_comment (erase s) = apsnd erase (skip_comment s)"
  by (simp_all add: skip_whitespace_def skip_line_def skip_comment_def advance_while_erase erase_simps)

lemma skip_comments_erase [erase_simps]: "skip_comments (erase s) = erase (skip_comments s)"
proof (induction s rule: skip_comments.induct)
  case (1 s)
  obtain b s1 where r: "skip_comment s = (b, s1)" by force
  show ?case
    using 1 [OF r [symmetric] refl] r
    by (simp add: skip_comments.simps [of s] skip_comments.simps [of "erase s"] erase_simps)
qed

lemma skip_quoted_loop_erase [erase_simps]: "skip_quoted_loop (erase s) = erase (skip_quoted_loop s)"
proof (induction "length (p_chars s)" arbitrary: s rule: less_induct)
  case less
  show ?case
  proof (cases "p_chars s")
    case Nil
    then show ?thesis by (simp add: skip_quoted_loop.simps erase_simps) (simp add: peek_def)
  next
    case (Cons c cs)
    then have pk: "peek s = Some c" by (simp add: peek_def)
    have "length (tl cs) < Suc (length cs)" by simp
    then have "skip_quoted_loop (erase (advance s)) = erase (skip_quoted_loop (advance s))"
      "skip_quoted_loop (erase (advance (advance s))) = erase (skip_quoted_loop (advance (advance s)))"
      using less Cons by simp_all
    with pk show ?thesis
      by (simp add: skip_quoted_loop.simps [of s] skip_quoted_loop.simps [of "erase s"] erase_simps) auto
  qed
qed

lemma skip_quoted_erase [erase_simps]: "skip_quoted (erase s) = erase (skip_quoted s)"
  by (simp add: skip_quoted_def erase_simps)

lemma skip_clause_loop_erase [erase_simps]: "skip_clause_loop n (erase s) = erase (skip_clause_loop n s)"
proof (induction n s rule: skip_clause_loop.induct)
  case (1 n s)
  then show ?case
    by (cases "peek s")
      (simp_all add: skip_clause_loop.simps [of n s] skip_clause_loop.simps [of n "erase s"] erase_simps)
qed

lemma skip_clause_erase [erase_simps]: "skip_clause (erase s) = erase (skip_clause s)"
  by (simp add: skip_clause_def erase_simps)

lemma parse_operator_erase [erase_simps]: "parse_operator (erase s) = apsnd erase (parse_operator s)"
  by (simp add: parse_operator_def erase_simps split: option.split)

lemma scan_quoted_loop_erase [erase_simps]:
  "scan_quoted_loop seg owned (erase s) = (case scan_quoted_loop seg owned s of (a, b, c, s') \<Rightarrow> (a, b, c, erase s'))"
proof (induction "length (p_chars s)" arbitrary: seg owned s rule: less_induct)
  case less
  show ?case
  proof (cases "p_chars s")
    case Nil
    then show ?thesis by (simp add: scan_quoted_loop.simps erase_simps) (simp add: peek_def)
  next
    case (Cons c cs)
    then have pk: "peek s = Some c" by (simp add: peek_def)
    have "length (tl cs) < Suc (length cs)" by simp
    then have IH: "scan_quoted_loop sg ow (erase (advance s))
        = (case scan_quoted_loop sg ow (advance s) of (a, b, c, s') \<Rightarrow> (a, b, c, erase s'))"
      "scan_quoted_loop sg ow (erase (advance (advance s)))
        = (case scan_quoted_loop sg ow (advance (advance s)) of (a, b, c, s') \<Rightarrow> (a, b, c, erase s'))" for sg ow
      using less Cons by simp_all
    show ?thesis
      unfolding scan_quoted_loop.simps [of seg owned s] scan_quoted_loop.simps [of seg owned "erase s"]
      by (simp add: pk erase_simps IH Let_def split: option.split)
  qed
qed

lemma scan_quoted_erase [erase_simps]: "scan_quoted E b (erase s) = apsnd erase (scan_quoted E b s)"
proof -
  obtain seg owned closed s2
    where l: "scan_quoted_loop (tl (p_chars s)) None (advance s) = (seg, owned, closed, s2)"
    by (metis prod.exhaust)
  show ?thesis by (cases owned) (simp_all add: scan_quoted_def erase_simps l Let_def)
qed

lemma key_cont_erase: "key_cont E (erase s) c = key_cont E s c"
  by (simp add: key_cont_def erase_simps)

lemma parse_key_erase [erase_simps]: "parse_key E (erase s) = apsnd erase (parse_key E s)"
  by (simp add: parse_key_def erase_simps advance_while_erase key_cont_erase Let_def split: prod.split)

lemma at_token_end_erase [erase_simps]: "at_token_end E (erase s) = at_token_end E s"
  by (simp add: at_token_end_def erase_simps)

lemma parse_bool_keyword_erase [erase_simps]:
  "parse_bool_keyword E p (erase s) = apsnd erase (parse_bool_keyword E p s)"
  by (simp add: parse_bool_keyword_def erase_simps)

lemma scan_number_erase [erase_simps]: "scan_number d (erase s) = erase (scan_number d s)"
proof (induction d s rule: scan_number.induct)
  case (1 d s)
  then show ?case
    by (cases "peek s") (simp_all add: scan_number.simps [of d s] scan_number.simps [of d "erase s"] erase_simps)
qed

lemma parse_plain_string_erase [erase_simps]:
  "parse_plain_string E (erase s) = apsnd erase (parse_plain_string E s)"
  by (simp add: parse_plain_string_def erase_simps advance_while_erase Let_def split: prod.split)

lemma erase_if: "(if b then erase x else erase y) = erase (if b then x else y)"
  by simp

lemma parse_number_or_string_erase [erase_simps]:
  "parse_number_or_string E (erase s) = apsnd erase (parse_number_or_string E s)"
proof -
  let ?s1 = "if peek s = Some ''-'' \<or> peek s = Some ''+'' then advance s else s"
  have "(if peek (erase s) = Some ''-'' \<or> peek (erase s) = Some ''+'' then advance (erase s) else erase s) = erase ?s1"
    by (simp add: erase_simps)
  then show ?thesis
    by (simp only: parse_number_or_string_def Let_def) (simp add: erase_simps split: option.split)
qed

lemma parse_metaprogramming_erase [erase_simps]:
  "parse_metaprogramming E (erase s) = apsnd erase (parse_metaprogramming E s)"
  by (simp add: parse_metaprogramming_def erase_simps advance_while_erase Let_def split: prod.split)

lemma color_prefix_erase [erase_simps]: "color_prefix (erase s) = erase (color_prefix s)"
  by (simp add: color_prefix_def erase_simps Let_def)

text \<open>Results: a value is erased too, a list of children filtered.\<close>

lemma finish_value_erase [erase_simps]:
  "finish_value st (map_option erase_value r, erase s)
     = map_prod (map_option (apfst erase_value)) erase (finish_value st (r, s))"
  by (simp add: finish_value_def erase_simps split: option.split)

lemma erase_scalar:
  "parse_bool_keyword E p s = (r, s') \<Longrightarrow> map_option erase_value r = r"
  "parse_metaprogramming E s = (r, s') \<Longrightarrow> map_option erase_value r = r"
  "parse_number_or_string E s = (r, s') \<Longrightarrow> map_option erase_value r = r"
proof -
  show "parse_bool_keyword E p s = (r, s') \<Longrightarrow> map_option erase_value r = r"
    by (auto simp: parse_bool_keyword_def split: if_splits)
  show "parse_metaprogramming E s = (r, s') \<Longrightarrow> map_option erase_value r = r"
    by (auto simp: parse_metaprogramming_def Let_def split: if_splits prod.splits)
  have plain: "map_option erase_value r = r" if "parse_plain_string E u = (r, s')" for u
    using that by (auto simp: parse_plain_string_def Let_def split: if_splits prod.splits)
  have number: "erase_value v = v" if "number_value str = Some v" for str v
    using that by (auto simp: number_value_def split: option.splits)
  assume eq: "parse_number_or_string E s = (r, s')"
  define s2 where "s2 = scan_number False (if peek s = Some ''-'' \<or> peek s = Some ''+'' then advance s else s)"
  define str where "str = text_between (p_chars s) (p_chars s2)"
  define num where "num = (if at_token_end E s2 \<and> str \<noteq> [] \<and> str \<noteq> ''-'' \<and> str \<noteq> ''+''
    then number_value str else None)"
  have res: "(case num of Some v \<Rightarrow> (Some v, s2) | None \<Rightarrow> parse_plain_string E (restore (save s) s2)) = (r, s')"
    using eq unfolding parse_number_or_string_def Let_def num_def str_def s2_def .
  show "map_option erase_value r = r"
  proof (cases num)
    case None
    then show ?thesis using plain res by simp
  next
    case (Some v)
    then have "number_value str = Some v" by (auto simp: num_def split: if_splits)
    then have "erase_value v = v" by (rule number)
    with Some res show ?thesis by auto
  qed
qed

lemma parse_scalar_erase [erase_simps]:
  "parse_scalar E p st (erase s) = map_prod (map_option (apfst erase_value)) erase (parse_scalar E p st s)"
proof -
  obtain b s1 where b: "parse_bool_keyword E p s = (b, s1)" by force
  obtain m s2 where m: "parse_metaprogramming E s1 = (m, s2)" by force
  obtain n s3 where n: "parse_number_or_string E s1 = (n, s3)" by force
  show ?thesis
    using erase_scalar(1) [OF b] erase_scalar(2) [OF m] erase_scalar(3) [OF n]
      finish_value_erase [of st b s1] finish_value_erase [of st m s2] finish_value_erase [of st n s3]
    by (cases b) (simp_all add: parse_scalar_def erase_simps b m n)
qed

lemma peek7_of_erase [erase_simps]: "peek7_of (erase s) = peek7_of s"
  by (simp add: peek7_of_def erase_simps)

lemma add_leaf_erase [erase_simps]:
  "add_leaf (erase_leaf l) (erase_children out) (erase s)
     = map_prod erase_children erase (add_leaf l out s)"
  by (simp add: add_leaf_def push_leaf_def erase_def erase_arena_def)

lemma add_leaf_value_erase [erase_simps]:
  "add_leaf_value (erase_leaf_value l) (erase_children out) (erase s)
     = map_prod erase_children erase (add_leaf_value l out s)"
  by (simp add: add_leaf_value_def push_leaf_value_def erase_def erase_arena_def)

lemma parse_comment_stmt_erase [erase_simps]:
  "peek s = Some ''#'' \<Longrightarrow> parse_comment_stmt (erase_children out) (erase s)
     = map_prod erase_children erase (parse_comment_stmt out s)"
  by (cases "p_mode s")
    (simp_all add: parse_comment_stmt_def consume_comment_def skip_comment_def push_comment_def erase_simps Let_def,
     simp_all add: erase_def erase_arena_def)

lemma missing_value_erase [erase_simps]:
  "missing_value E saved key op' (erase_children out) (erase s)
     = map_prod erase_children erase (missing_value E saved key op' out s)"
proof -
  obtain tok s1 where i: "intern_in E [] s = (tok, s1)" by force
  let ?l = "\<lparr>leaf_key = key, leaf_val = VString tok, leaf_op = op',
     leaf_pos = \<lparr>range_start = saved, range_end = pos s\<rparr>,
     leaf_value_pos = \<lparr>range_start = pos s, range_end = pos s\<rparr>\<rparr>"
  obtain out' s2 where a: "add_leaf ?l out s1 = (out', s2)" by force
  then have "add_leaf ?l (erase_children out) (erase s1) = (erase_children out', erase s2)"
    using add_leaf_erase [of ?l out s1] by (simp add: erase_leaf_def)
  with a i show ?thesis by (simp add: missing_value_def Let_def erase_simps)
qed

section \<open>The grammar commutes with erasing\<close>

abbreviation erase_pv :: "(AstValue \<times> SourceRange) option \<times> parser \<Rightarrow> (AstValue \<times> SourceRange) option \<times> parser" where
  "erase_pv \<equiv> map_prod (map_option (apfst erase_value)) erase"

abbreviation erase_v :: "AstValue option \<times> parser \<Rightarrow> AstValue option \<times> parser" where
  "erase_v \<equiv> map_prod (map_option erase_value) erase"

abbreviation erase_ch :: "Child list \<times> parser \<Rightarrow> Child list \<times> parser" where
  "erase_ch \<equiv> map_prod erase_children erase"

lemma finish_some_erase: "finish_value st (Some (erase_value v), erase s) = erase_pv (finish_value st (Some v, s))"
  using finish_value_erase [of st "Some v" s] by simp

lemma finish_pair_erase: "finish_value st (erase_v r) = erase_pv (finish_value st r)"
  using finish_value_erase [of st "fst r" "snd r"] by (cases r) simp

lemma parse_clause_body_erase:
  assumes "\<And>ch s. loop' (erase_children ch) (erase s) = map_option erase_ch (loop ch s)"
  shows "parse_clause_body loop' (erase s) = map_option erase_v (parse_clause_body loop s)"
proof -
  let ?s1 = "skip_whitespace (advance s)"
  have "loop' [] (erase (?s1\<lparr>p_depth := p_depth ?s1 + 1\<rparr>))
      = map_option erase_ch (loop [] (?s1\<lparr>p_depth := p_depth ?s1 + 1\<rparr>))"
    using assms [of "[]"] by simp
  then show ?thesis
    by (cases "loop [] (?s1\<lparr>p_depth := p_depth ?s1 + 1\<rparr>)")
      (auto simp: parse_clause_body_def erase_simps Let_def)
qed

lemma clause_loop_body_erase:
  assumes "\<And>ch s. stmt' (erase_children ch) (erase s) = map_option erase_ch (stmt ch s)"
    and "\<And>ch s. loop' (erase_children ch) (erase s) = map_option erase_ch (loop ch s)"
  shows "clause_loop_body stmt' loop' (erase_children ch) (erase s)
    = map_option erase_ch (clause_loop_body stmt loop ch s)"
  using assms
  by (cases "stmt ch (skip_whitespace s)") (auto simp: clause_loop_body_def erase_simps Let_def)

lemma leaf_value_stmt_erase:
  assumes "\<And>lv s. val' lv (erase s) = map_option erase_pv (val lv s)"
  shows "leaf_value_stmt val' saved (erase_children out) (erase s)
    = map_option erase_ch (leaf_value_stmt val saved out s)"
proof (cases "val True s")
  case None
  then show ?thesis by (simp add: leaf_value_stmt_def assms)
next
  case (Some r)
  obtain v s1 where r: "r = (v, s1)" by force
  show ?thesis
  proof (cases v)
    case None
    then show ?thesis using Some r by (simp add: leaf_value_stmt_def assms erase_simps)
  next
    case v: (Some x)
    obtain value' rg where x: "x = (value', rg)" by force
    let ?lv = "\<lparr>lv_value = value', lv_pos = \<lparr>range_start = saved, range_end = pos s1\<rparr>\<rparr>"
    have "erase_leaf_value ?lv = ?lv\<lparr>lv_value := erase_value value'\<rparr>" by (simp add: erase_leaf_value_def)
    then show ?thesis
      using Some r v x add_leaf_value_erase [of ?lv out s1] by (simp add: leaf_value_stmt_def assms erase_simps)
  qed
qed

text \<open>The tail of \<open>parse_value\<close>, its two colour attempts named.\<close>

definition try_color :: "bool \<Rightarrow> (parser \<Rightarrow> AstValue option presult) \<Rightarrow> parser \<Rightarrow> AstValue option presult" where
  "try_color b color s = (if b then color s else Some (None, s))"

lemma parse_value_body_tail:
  assumes "peek s1 \<noteq> Some ''{''" "peek s1 \<noteq> Some ch_quote" "skip_comments (skip_whitespace s) = s1"
  shows "parse_value_body E color cl lv s = do {
     (rgb, s2) \<leftarrow> try_color (color_ahead E ''rgb'' (peek7_of s1)) color s1;
     (case rgb of
        Some v \<Rightarrow> Some (finish_value (pos s1) (Some v, s2))
      | None \<Rightarrow> do {
          (hsv, s3) \<leftarrow> try_color (color_ahead E ''hsv'' (peek7_of s1)) color (restore (save s1) s2);
          (case hsv of
             Some v \<Rightarrow> Some (finish_value (pos s1) (Some v, s3))
           | None \<Rightarrow> Some (parse_scalar E (peek7_of s1) (pos s1) (restore (save s1) s3)))
        })
   }"
  using assms by (simp only: parse_value_body_def Let_def try_color_def if_False)

lemma parse_value_body_erase:
  assumes "\<And>s. color' (erase s) = map_option erase_v (color s)" "\<And>s. cl' (erase s) = map_option erase_v (cl s)"
  shows "parse_value_body E color' cl' lv (erase s) = map_option erase_pv (parse_value_body E color cl lv s)"
proof -
  define s1 where "s1 = skip_comments (skip_whitespace s)"
  have e: "skip_comments (skip_whitespace (erase s)) = erase s1" by (simp add: s1_def erase_simps)
  have q: "finish_value st (Some (VQString tok), erase s2) = erase_pv (finish_value st (Some (VQString tok), s2))"
    for st tok s2 using finish_value_erase [of st "Some (VQString tok)" s2] by simp
  have tc: "try_color b color' (erase t) = map_option erase_v (try_color b color t)" for b t
    by (simp add: try_color_def assms)
  let ?p = "peek7_of s1"
  show ?thesis
  proof (cases "peek s1 = Some ''{''")
    case True
    then show ?thesis
      by (cases "cl s1") (simp_all add: parse_value_body_def e s1_def [symmetric] erase_simps assms finish_pair_erase)
  next
    case brace: False
    show ?thesis
    proof (cases "peek s1 = Some ch_quote")
      case True
      obtain tok s2 where "scan_quoted E (\<not> lv) s1 = (tok, s2)" by force
      then show ?thesis
        using True by (simp add: parse_value_body_def e s1_def [symmetric] erase_simps q)
    next
      case quote: False
      have 1: "peek (erase s1) \<noteq> Some ''{''" "peek (erase s1) \<noteq> Some ch_quote"
        using brace quote by (simp_all add: erase_simps)
      note tail = parse_value_body_tail [OF brace quote s1_def [symmetric]] parse_value_body_tail [OF 1 e]
      show ?thesis
        unfolding tail
        by (auto simp: erase_simps tc finish_some_erase bind_eq_None_conv split: Option.bind_splits option.splits)
    qed
  qed
qed

lemma add_leaf_record_erase:
  "add_leaf \<lparr>leaf_key = key, leaf_val = erase_value v, leaf_op = op', leaf_pos = p, leaf_value_pos = vp\<rparr>
     (erase_children out) (erase s)
   = erase_ch (add_leaf \<lparr>leaf_key = key, leaf_val = v, leaf_op = op', leaf_pos = p, leaf_value_pos = vp\<rparr> out s)"
  using add_leaf_erase [of "\<lparr>leaf_key = key, leaf_val = v, leaf_op = op', leaf_pos = p, leaf_value_pos = vp\<rparr>"]
  by (simp add: erase_leaf_def)

lemma parse_statement_body_erase:
  assumes val: "\<And>lv s. val' lv (erase s) = map_option erase_pv (val lv s)"
    and cl: "\<And>s. cl' (erase s) = map_option erase_v (cl s)"
  shows "parse_statement_body E val' cl' (erase_children out) (erase s)
    = map_option erase_ch (parse_statement_body E val cl out s)"
proof -
  define s0 where "s0 = skip_whitespace s"
  note body = parse_statement_body_def skip_erase s0_def [symmetric] erase_simps Let_def
    leaf_value_stmt_erase [of val' val, OF val] add_leaf_record_erase
  show ?thesis
  proof (cases "peek s0 = Some ''#''")
    case True
    then show ?thesis by (simp add: body)
  next
    case hash: False
    obtain ko s1 where k: "parse_key E s0 = (ko, s1)" by force
    show ?thesis
    proof (cases ko)
      case None
      then show ?thesis using hash k by (simp add: body)
    next
      case key: (Some key)
      obtain oo s2 where o: "parse_operator s1 = (oo, s2)" by force
      show ?thesis
      proof (cases oo)
        case (Some op')
        then show ?thesis
          using hash k key o
          by (cases "val False s2") (auto simp: body val split: option.splits)
      next
        case None
        let ?s3 = "skip_whitespace s2"
        show ?thesis
        proof (cases "peek ?s3 = Some ''{''")
          case True
          then show ?thesis
            using hash k key o None
            by (cases "cl ?s3") (auto simp: body cl split: option.splits)
        next
          case False
          then show ?thesis using hash k key o None by (simp add: body)
        qed
      qed
    qed
  qed
qed

lemma grammar_erase:
  "(\<forall>lv s. parse_value E n lv (erase s) = map_option erase_pv (parse_value E n lv s))
   \<and> (\<forall>s. parse_color_clause E n (erase s) = map_option erase_v (parse_color_clause E n s))
   \<and> (\<forall>s. parse_clause E n (erase s) = map_option erase_v (parse_clause E n s))
   \<and> (\<forall>ch s. clause_loop E n (erase_children ch) (erase s) = map_option erase_ch (clause_loop E n ch s))
   \<and> (\<forall>out s. parse_statement E n (erase_children out) (erase s)
        = map_option erase_ch (parse_statement E n out s))"
proof (induction n)
  case (Suc n)
  then show ?case
    by (simp add: parse_value_body_erase parse_clause_body_erase clause_loop_body_erase
        parse_statement_body_erase color_prefix_erase)
qed simp

lemma parse_statement_erase:
  "parse_statement E n (erase_children out) (erase s) = map_option erase_ch (parse_statement E n out s)"
  using grammar_erase by blast

lemma root_loop_erase:
  "root_loop E n (erase_children out) (erase s) = map_option erase_ch (root_loop E n out s)"
proof (induction n arbitrary: out s)
  case (Suc n)
  then show ?case
    by (cases "parse_statement E n out s") (auto simp: erase_simps parse_statement_erase)
qed simp

lemma parse_erase:
  "parse E n (erase s) = map_option (map_prod erase_file id) (parse E n s)"
proof -
  have "root_loop E n [] (erase (skip_whitespace s)) = map_option erase_ch (root_loop E n [] (skip_whitespace s))"
    using root_loop_erase [of E n "[]"] by simp
  then show ?thesis
    by (cases "root_loop E n [] (skip_whitespace s)")
      (auto simp: parse_def erase_simps erase_file_def, auto simp: erase_def)
qed

text \<open>C8. Parsing without comments is parsing with them and dropping the comment nodes: the same
  statements with the same ids, positions and tokens, the same errors and the same string
  table, with every comment removed from the lists of children.\<close>

theorem comment_modes_agree:
  "parse_string_without_comments E input t = map_option (map_prod erase_file id) (parse_string E input t)"
proof -
  have "parser_new i t Discard = erase (parser_new i t Preserve)" for i
    by (simp add: parser_new_def erase_def erase_arena_def arena_new_def)
  then show ?thesis
    by (simp add: parse_string_without_comments_def parse_string_def parse_string_with_comment_mode_def
        Let_def parse_erase)
qed

end
