(* ===== verification/Game_Constants.thy ===== *)
theory Game_Constants
  imports Rust_Prelude
begin

text \<open>
  The games and their hardcoded scope tables (\<open>crates/game/src/constants.rs\<close>,
  \<open>scope.rs\<close>). A \<open>ScopeId\<close> is a newtype of \<open>u32\<close>; \<open>&'static\<close> slices are lists in
  the order of the source.
\<close>

type_synonym ScopeId = u32

datatype Game = Hoi4 | Stellaris | Eu4 | Ck2 | Ck3 | Vic2 | Vic3 | Ir | Eu5 | Custom

fun game_display :: "Game \<Rightarrow> rstr" where
  "game_display Hoi4 = ''hoi4''"
| "game_display Stellaris = ''stellaris''"
| "game_display Eu4 = ''eu4''"
| "game_display Ck2 = ''ck2''"
| "game_display Ck3 = ''ck3''"
| "game_display Vic2 = ''vic2''"
| "game_display Vic3 = ''vic3''"
| "game_display Ir = ''ir''"
| "game_display Eu5 = ''eu5''"
| "game_display Custom = ''custom''"

definition game_from_str :: "rust_env \<Rightarrow> rstr \<Rightarrow> Game option" where
  "game_from_str E s =
     (let l = env_lower E s in
      if l = ''hoi4'' then Some Hoi4
      else if l = ''stellaris'' \<or> l = ''stl'' then Some Stellaris
      else if l = ''eu4'' then Some Eu4
      else if l = ''ck2'' then Some Ck2
      else if l = ''ck3'' then Some Ck3
      else if l = ''vic2'' then Some Vic2
      else if l = ''vic3'' then Some Vic3
      else if l = ''ir'' \<or> l = ''imperator'' then Some Ir
      else if l = ''eu5'' then Some Eu5
      else if l = ''custom'' then Some Custom
      else None)"

record ScopeDef =
  sd_name :: rstr
  sd_aliases :: "rstr list"
  sd_id :: ScopeId
  sd_subscope_of :: "ScopeId list"

definition scope_def :: "rstr \<Rightarrow> rstr list \<Rightarrow> ScopeId \<Rightarrow> ScopeId list \<Rightarrow> ScopeDef" where
  "scope_def name aliases i parents =
     \<lparr>sd_name = name, sd_aliases = aliases, sd_id = i, sd_subscope_of = parents\<rparr>"

section \<open>The tables\<close>

definition STELLARIS_SCOPES :: "ScopeDef list" where
  "STELLARIS_SCOPES = [
     scope_def ''Country'' [''country''] 200 [],
     scope_def ''Leader'' [''leader''] 201 [],
     scope_def ''System'' [''galacticobject'', ''system'', ''galactic_object''] 202 [],
     scope_def ''Planet'' [''planet''] 203 [],
     scope_def ''Ship'' [''ship''] 204 [],
     scope_def ''Fleet'' [''fleet''] 205 [],
     scope_def ''Pop'' [''pop''] 206 [],
     scope_def ''Army'' [''army''] 207 [],
     scope_def ''Species'' [''species''] 208 [],
     scope_def ''Pop Faction'' [''popfaction'', ''pop_faction''] 209 [],
     scope_def ''Sector'' [''sector''] 210 [],
     scope_def ''Federation'' [''alliance'', ''federation''] 211 [],
     scope_def ''War'' [''war''] 212 [],
     scope_def ''Megastructure'' [''megastructure''] 213 [],
     scope_def ''Design'' [''design''] 214 [],
     scope_def ''Starbase'' [''starbase''] 215 [],
     scope_def ''Star'' [''star''] 216 [],
     scope_def ''Deposit'' [''deposit''] 217 [],
     scope_def ''Archaeological Site'' [''archaeologicalsite'', ''archaeological_site''] 218 [],
     scope_def ''Ambient Object'' [''ambientobject'', ''ambient_object''] 219 []]"

definition EU4_SCOPES :: "ScopeDef list" where
  "EU4_SCOPES = [
     scope_def ''Country'' [''country''] 300 [],
     scope_def ''Province'' [''province''] 301 [],
     scope_def ''Trade Node'' [''trade_node'', ''tradenode''] 302 [301],
     scope_def ''Unit'' [''unit''] 303 [],
     scope_def ''Monarch'' [''monarch''] 304 [],
     scope_def ''Heir'' [''heir''] 305 [],
     scope_def ''Consort'' [''consort''] 306 [],
     scope_def ''Rebel Faction'' [''rebel_faction''] 307 [],
     scope_def ''Religion'' [''religion''] 308 [],
     scope_def ''Culture'' [''culture''] 309 [],
     scope_def ''Advisor'' [''advisor''] 310 []]"

definition CK2_SCOPES :: "ScopeDef list" where
  "CK2_SCOPES = [
     scope_def ''Character'' [''character''] 400 [],
     scope_def ''Title'' [''title''] 401 [],
     scope_def ''Province'' [''province''] 402 [],
     scope_def ''Offmap'' [''offmap''] 403 [],
     scope_def ''War'' [''war''] 404 [],
     scope_def ''Siege'' [''siege''] 405 [],
     scope_def ''Unit'' [''unit''] 406 [],
     scope_def ''Religion'' [''religion''] 407 [],
     scope_def ''Culture'' [''culture''] 408 [],
     scope_def ''Society'' [''society''] 409 [],
     scope_def ''Artifact'' [''artifact''] 410 [],
     scope_def ''Bloodline'' [''bloodline''] 411 [],
     scope_def ''Wonder'' [''wonder''] 412 []]"

definition CK3_SCOPES :: "ScopeDef list" where
  "CK3_SCOPES = [
     scope_def ''Value'' [''value''] 500 [],
     scope_def ''Bool'' [''bool''] 501 [],
     scope_def ''Flag'' [''flag''] 502 [],
     scope_def ''Color'' [''color''] 503 [],
     scope_def ''Country'' [''country''] 504 [],
     scope_def ''Character'' [''character''] 505 [],
     scope_def ''Province'' [''province''] 506 [],
     scope_def ''Combat'' [''combat''] 507 [],
     scope_def ''Unit'' [''unit''] 508 [],
     scope_def ''Pop'' [''pop''] 509 [],
     scope_def ''Family'' [''family''] 510 [],
     scope_def ''Party'' [''party''] 511 [],
     scope_def ''Religion'' [''religion''] 512 [],
     scope_def ''Culture'' [''culture''] 513 [],
     scope_def ''Job'' [''job''] 514 [],
     scope_def ''CultureGroup'' [''culture group''] 515 [],
     scope_def ''Area'' [''area''] 516 [],
     scope_def ''State'' [''state''] 517 [],
     scope_def ''Subunit'' [''subunit''] 518 [],
     scope_def ''Governorship'' [''governorship''] 519 [],
     scope_def ''Region'' [''region''] 520 []]"

definition VIC2_SCOPES :: "ScopeDef list" where
  "VIC2_SCOPES = [
     scope_def ''Value'' [''value''] 600 [],
     scope_def ''Bool'' [''bool''] 601 [],
     scope_def ''Flag'' [''flag''] 602 [],
     scope_def ''Color'' [''color''] 603 [],
     scope_def ''Country'' [''country''] 604 [],
     scope_def ''Character'' [''character''] 605 [],
     scope_def ''Province'' [''province''] 606 [],
     scope_def ''Combat'' [''combat''] 607 [],
     scope_def ''Unit'' [''unit''] 608 [],
     scope_def ''Pop'' [''pop''] 609 [],
     scope_def ''Family'' [''family''] 610 [],
     scope_def ''Party'' [''party''] 611 [],
     scope_def ''Religion'' [''religion''] 612 [],
     scope_def ''Culture'' [''culture''] 613 [],
     scope_def ''Job'' [''job''] 614 [],
     scope_def ''CultureGroup'' [''culture group''] 615 [],
     scope_def ''Area'' [''area''] 616 [],
     scope_def ''State'' [''state''] 617 [],
     scope_def ''Subunit'' [''subunit''] 618 [],
     scope_def ''Governorship'' [''governorship''] 619 [],
     scope_def ''Region'' [''region''] 620 []]"

definition VIC3_SCOPES :: "ScopeDef list" where "VIC3_SCOPES = []"

definition IR_SCOPES :: "ScopeDef list" where
  "IR_SCOPES = [
     scope_def ''Value'' [''value''] 700 [],
     scope_def ''Bool'' [''bool''] 701 [],
     scope_def ''Flag'' [''flag''] 702 [],
     scope_def ''Color'' [''color''] 703 [],
     scope_def ''Country'' [''country''] 704 [],
     scope_def ''Character'' [''character''] 705 [],
     scope_def ''Province'' [''province''] 706 [],
     scope_def ''Combat'' [''combat''] 707 [],
     scope_def ''Unit'' [''unit''] 708 [],
     scope_def ''Pop'' [''pop''] 709 [],
     scope_def ''Family'' [''family''] 710 [],
     scope_def ''Party'' [''party''] 711 [],
     scope_def ''Religion'' [''religion''] 712 [],
     scope_def ''Culture'' [''culture''] 713 [],
     scope_def ''Job'' [''job''] 714 [],
     scope_def ''CultureGroup'' [''culture group''] 715 [],
     scope_def ''Area'' [''area''] 716 [],
     scope_def ''State'' [''state''] 717 [],
     scope_def ''Subunit'' [''subunit''] 718 [],
     scope_def ''Governorship'' [''governorship''] 719 [],
     scope_def ''Region'' [''region''] 720 []]"

definition EU5_SCOPES :: "ScopeDef list" where "EU5_SCOPES = []"

definition CUSTOM_SCOPES :: "ScopeDef list" where "CUSTOM_SCOPES = []"

text \<open>HOI4 has no table: its scopes come from its configuration.\<close>

fun scope_defs :: "Game \<Rightarrow> ScopeDef list" where
  "scope_defs Hoi4 = []"
| "scope_defs Stellaris = STELLARIS_SCOPES"
| "scope_defs Eu4 = EU4_SCOPES"
| "scope_defs Ck2 = CK2_SCOPES"
| "scope_defs Ck3 = CK3_SCOPES"
| "scope_defs Vic2 = VIC2_SCOPES"
| "scope_defs Vic3 = VIC3_SCOPES"
| "scope_defs Ir = IR_SCOPES"
| "scope_defs Eu5 = EU5_SCOPES"
| "scope_defs Custom = CUSTOM_SCOPES"

end
