(* ===== verification/Scope_Links.thy ===== *)
theory Scope_Links
  imports Game_Constants
begin

text \<open>
  The hardcoded scope links of each game (\<open>crates/game/src/scope_engine/links.rs\<close>). A link
  map is an association list from lower-case names; inserting an alias a second time
  replaces the earlier link, as \<open>HashMap::insert\<close> does.
\<close>

record ScopeLink =
  valid_scopes :: "ScopeId list"
  target :: "ScopeId option"
  ignore_keys :: "rstr list"

text \<open>\<open>sc\<close>: a link valid in \<open>valid\<close> that produces \<open>tgt\<close>.\<close>

definition sc :: "ScopeId list \<Rightarrow> ScopeId \<Rightarrow> ScopeLink" where
  "sc valid tgt = \<lparr>valid_scopes = valid, target = Some tgt, ignore_keys = []\<rparr>"

fun insert_aliases :: "(rstr \<times> ScopeLink) list \<Rightarrow> rstr list \<Rightarrow> ScopeLink \<Rightarrow> (rstr \<times> ScopeLink) list" where
  "insert_aliases links [] link = links"
| "insert_aliases links (name # names) link = insert_aliases (AList.update name link links) names link"

fun load_entries ::
  "(rstr \<times> ScopeLink) list \<Rightarrow> (rstr list \<times> ScopeId list \<times> ScopeId) list \<Rightarrow> (rstr \<times> ScopeLink) list" where
  "load_entries links [] = links"
| "load_entries links ((aliases, valid, tgt) # entries) =
     load_entries (insert_aliases links aliases (sc valid tgt)) entries"

section \<open>The tables\<close>

text \<open>stellaris: scope ids, then the entries of \<open>load_stellaris_links\<close>.\<close>

abbreviation STL_COUNTRY :: ScopeId where "STL_COUNTRY \<equiv> 200"
abbreviation STL_LEADER :: ScopeId where "STL_LEADER \<equiv> 201"
abbreviation STL_SYSTEM :: ScopeId where "STL_SYSTEM \<equiv> 202"
abbreviation STL_PLANET :: ScopeId where "STL_PLANET \<equiv> 203"
abbreviation STL_SHIP :: ScopeId where "STL_SHIP \<equiv> 204"
abbreviation STL_FLEET :: ScopeId where "STL_FLEET \<equiv> 205"
abbreviation STL_POP :: ScopeId where "STL_POP \<equiv> 206"
abbreviation STL_ARMY :: ScopeId where "STL_ARMY \<equiv> 207"
abbreviation STL_SPECIES :: ScopeId where "STL_SPECIES \<equiv> 208"
abbreviation STL_POP_FACTION :: ScopeId where "STL_POP_FACTION \<equiv> 209"
abbreviation STL_SECTOR :: ScopeId where "STL_SECTOR \<equiv> 210"
abbreviation STL_FEDERATION :: ScopeId where "STL_FEDERATION \<equiv> 211"
abbreviation STL_WAR :: ScopeId where "STL_WAR \<equiv> 212"
abbreviation STL_MEGASTRUCTURE :: ScopeId where "STL_MEGASTRUCTURE \<equiv> 213"
abbreviation STL_DESIGN :: ScopeId where "STL_DESIGN \<equiv> 214"
abbreviation STL_STARBASE :: ScopeId where "STL_STARBASE \<equiv> 215"
abbreviation STL_STAR :: ScopeId where "STL_STAR \<equiv> 216"
abbreviation STL_DEPOSIT :: ScopeId where "STL_DEPOSIT \<equiv> 217"
abbreviation STL_ARCHAEOLOGICAL_SITE :: ScopeId where "STL_ARCHAEOLOGICAL_SITE \<equiv> 218"
abbreviation STL_AMBIENT_OBJECT :: ScopeId where "STL_AMBIENT_OBJECT \<equiv> 219"

definition stellaris_entries_1 :: "(rstr list \<times> ScopeId list \<times> ScopeId) list" where
  "stellaris_entries_1 = [
     ([''every_country'', ''random_country'', ''any_country'', ''country''], [], STL_COUNTRY),
     ([''every_planet'', ''random_planet'', ''any_planet'', ''planet''], [], STL_PLANET),
     ([''every_ship'', ''random_ship'', ''any_ship'', ''ship''], [], STL_SHIP),
     ([''every_fleet'', ''random_fleet'', ''any_fleet'', ''fleet''], [], STL_FLEET),
     ([''every_pop'', ''random_pop'', ''any_pop'', ''pop''], [], STL_POP),
     ([''every_army'', ''random_army'', ''any_army'', ''army''], [], STL_ARMY),
     ([''every_system'', ''random_system'', ''any_system'', ''galactic_object'', ''system'', ''galacticobject''], [], STL_SYSTEM),
     ([''every_leader'', ''random_leader'', ''any_leader'', ''leader''], [], STL_LEADER),
     ([''every_species'', ''random_species'', ''any_species'', ''species''], [], STL_SPECIES),
     ([''every_pop_faction'', ''random_pop_faction'', ''any_pop_faction'', ''pop_faction''], [], STL_POP_FACTION),
     ([''every_megastructure'', ''random_megastructure'', ''any_megastructure'', ''megastructure''], [], STL_MEGASTRUCTURE),
     ([''every_deposit'', ''random_deposit'', ''any_deposit'', ''deposit''], [], STL_DEPOSIT),
     ([''every_war'', ''random_war'', ''any_war'', ''war''], [], STL_WAR),
     ([''every_federation'', ''random_federation'', ''any_federation'', ''federation''], [], STL_FEDERATION),
     ([''every_archaeological_site'', ''random_archaeological_site'', ''any_archaeological_site''], [], STL_ARCHAEOLOGICAL_SITE),
     ([''every_ambient_object'', ''random_ambient_object'', ''any_ambient_object''], [], STL_AMBIENT_OBJECT),
     ([''every_owned_planet'', ''random_owned_planet'', ''any_owned_planet''], [STL_COUNTRY], STL_PLANET)]"

definition stellaris_entries_2 :: "(rstr list \<times> ScopeId list \<times> ScopeId) list" where
  "stellaris_entries_2 = [
     ([''every_controlled_planet'', ''random_controlled_planet'', ''any_controlled_planet''], [STL_COUNTRY], STL_PLANET),
     ([''every_subject'', ''random_subject'', ''any_subject''], [STL_COUNTRY], STL_COUNTRY),
     ([''every_playable_country'', ''random_playable_country'', ''any_playable_country''], [], STL_COUNTRY),
     ([''every_owned_ship'', ''random_owned_ship'', ''any_owned_ship''], [STL_COUNTRY, STL_FLEET], STL_SHIP),
     ([''every_owned_fleet'', ''random_owned_fleet'', ''any_owned_fleet''], [STL_COUNTRY], STL_FLEET),
     ([''every_owned_leader'', ''random_owned_leader'', ''any_owned_leader''], [STL_COUNTRY], STL_LEADER),
     ([''every_owned_species'', ''random_owned_species'', ''any_owned_species''], [STL_COUNTRY], STL_SPECIES),
     ([''every_owned_pop'', ''random_owned_pop'', ''any_owned_pop''], [STL_COUNTRY, STL_PLANET, STL_SECTOR], STL_POP),
     ([''every_owned_starbase'', ''random_owned_starbase'', ''any_owned_starbase''], [STL_COUNTRY], STL_STARBASE),
     ([''every_neighbor_country'', ''random_neighbor_country'', ''any_neighbor_country''], [STL_COUNTRY], STL_COUNTRY),
     ([''every_sector'', ''random_sector'', ''any_sector''], [STL_COUNTRY], STL_SECTOR),
     ([''every_system_planet'', ''random_system_planet'', ''any_system_planet''], [STL_SYSTEM], STL_PLANET),
     ([''every_system_fleet'', ''random_system_fleet'', ''any_system_fleet''], [STL_SYSTEM], STL_FLEET),
     ([''every_fleet_in_system'', ''random_fleet_in_system'', ''any_fleet_in_system''], [STL_SYSTEM], STL_FLEET)]"

definition stellaris_entries_3 :: "(rstr list \<times> ScopeId list \<times> ScopeId) list" where
  "stellaris_entries_3 = [
     ([''every_system_ambient_object'', ''random_system_ambient_object''], [STL_SYSTEM], STL_AMBIENT_OBJECT),
     ([''every_system_deposit'', ''random_system_deposit'', ''any_system_deposit''], [STL_SYSTEM], STL_DEPOSIT),
     ([''every_system_archaeological_site''], [STL_SYSTEM], STL_ARCHAEOLOGICAL_SITE),
     ([''every_planet_pop'', ''random_planet_pop'', ''any_planet_pop''], [STL_PLANET], STL_POP),
     ([''every_planet_army'', ''random_planet_army'', ''any_planet_army''], [STL_PLANET], STL_ARMY),
     ([''every_planet_deposit'', ''random_planet_deposit'', ''any_planet_deposit''], [STL_PLANET], STL_DEPOSIT),
     ([''every_sector_system'', ''random_sector_system'', ''any_sector_system''], [STL_SECTOR], STL_SYSTEM),
     ([''every_sector_planet'', ''random_sector_planet'', ''any_sector_planet''], [STL_SECTOR], STL_PLANET),
     ([''overlord''], [STL_COUNTRY], STL_COUNTRY),
     ([''federation_leader''], [STL_COUNTRY, STL_FEDERATION], STL_COUNTRY),
     ([''capital''], [STL_COUNTRY], STL_PLANET),
     ([''capital_scope''], [STL_COUNTRY], STL_PLANET),
     ([''capital_star''], [STL_COUNTRY], STL_SYSTEM),
     ([''starbase''], [STL_SYSTEM], STL_STARBASE),
     ([''star''], [STL_PLANET], STL_STAR),
     ([''solar_system''], [STL_PLANET, STL_SHIP, STL_FLEET, STL_STARBASE, STL_ARMY, STL_POP], STL_SYSTEM),
     ([''sector''], [STL_PLANET, STL_SYSTEM], STL_SECTOR),
     ([''owner''], [STL_PLANET, STL_SHIP, STL_FLEET, STL_ARMY, STL_POP, STL_POP_FACTION, STL_STARBASE, STL_MEGASTRUCTURE, STL_DEPOSIT, STL_LEADER], STL_COUNTRY),
     ([''controller''], [STL_PLANET], STL_COUNTRY),
     ([''fleet''], [STL_SHIP], STL_FLEET),
     ([''leader''], [STL_SHIP, STL_FLEET, STL_COUNTRY, STL_ARMY], STL_LEADER),
     ([''design''], [STL_SHIP], STL_DESIGN),
     ([''species''], [STL_POP, STL_LEADER], STL_SPECIES),
     ([''pop_faction''], [STL_POP], STL_POP_FACTION)]"

definition load_stellaris_links :: "(rstr \<times> ScopeLink) list \<Rightarrow> (rstr \<times> ScopeLink) list" where
  "load_stellaris_links links = load_entries links (stellaris_entries_1 @ stellaris_entries_2 @ stellaris_entries_3)"

text \<open>eu4: scope ids, then the entries of \<open>load_eu4_links\<close>.\<close>

abbreviation EU4_COUNTRY :: ScopeId where "EU4_COUNTRY \<equiv> 300"
abbreviation EU4_PROVINCE :: ScopeId where "EU4_PROVINCE \<equiv> 301"
abbreviation EU4_TRADE_NODE :: ScopeId where "EU4_TRADE_NODE \<equiv> 302"
abbreviation EU4_UNIT :: ScopeId where "EU4_UNIT \<equiv> 303"
abbreviation EU4_MONARCH :: ScopeId where "EU4_MONARCH \<equiv> 304"
abbreviation EU4_HEIR :: ScopeId where "EU4_HEIR \<equiv> 305"
abbreviation EU4_CONSORT :: ScopeId where "EU4_CONSORT \<equiv> 306"
abbreviation EU4_REBEL_FACTION :: ScopeId where "EU4_REBEL_FACTION \<equiv> 307"
abbreviation EU4_RELIGION :: ScopeId where "EU4_RELIGION \<equiv> 308"
abbreviation EU4_CULTURE :: ScopeId where "EU4_CULTURE \<equiv> 309"
abbreviation EU4_ADVISOR :: ScopeId where "EU4_ADVISOR \<equiv> 310"

definition eu4_entries_1 :: "(rstr list \<times> ScopeId list \<times> ScopeId) list" where
  "eu4_entries_1 = [
     ([''every_country'', ''random_country'', ''any_country'', ''country''], [], EU4_COUNTRY),
     ([''every_province'', ''random_province'', ''any_province'', ''province''], [], EU4_PROVINCE),
     ([''every_subject_country'', ''random_subject_country'', ''any_subject_country''], [EU4_COUNTRY], EU4_COUNTRY),
     ([''every_neighbor_country'', ''random_neighbor_country'', ''any_neighbor_country''], [EU4_COUNTRY], EU4_COUNTRY),
     ([''every_ally'', ''random_ally'', ''any_ally''], [EU4_COUNTRY], EU4_COUNTRY),
     ([''every_enemy_country'', ''random_enemy_country'', ''any_enemy_country''], [EU4_COUNTRY], EU4_COUNTRY),
     ([''every_core_province'', ''random_core_province'', ''any_core_province''], [EU4_COUNTRY], EU4_PROVINCE),
     ([''every_owned_province'', ''random_owned_province'', ''any_owned_province''], [EU4_COUNTRY], EU4_PROVINCE),
     ([''every_controlled_province'', ''random_controlled_province'', ''any_controlled_province''], [EU4_COUNTRY], EU4_PROVINCE)]"

definition eu4_entries_2 :: "(rstr list \<times> ScopeId list \<times> ScopeId) list" where
  "eu4_entries_2 = [
     ([''every_province_in_state'', ''random_province_in_state'', ''any_province_in_state''], [EU4_PROVINCE], EU4_PROVINCE),
     ([''every_neighbor_province'', ''random_neighbor_province'', ''any_neighbor_province''], [EU4_PROVINCE], EU4_PROVINCE),
     ([''owner''], [EU4_PROVINCE, EU4_TRADE_NODE], EU4_COUNTRY),
     ([''controller''], [EU4_PROVINCE], EU4_COUNTRY),
     ([''capital'', ''capital_scope''], [EU4_COUNTRY], EU4_PROVINCE),
     ([''overlord''], [EU4_COUNTRY], EU4_COUNTRY),
     ([''emperor''], [], EU4_COUNTRY),
     ([''trade_node'', ''tradenode''], [], EU4_TRADE_NODE),
     ([''monarch''], [EU4_COUNTRY], EU4_MONARCH),
     ([''heir''], [EU4_COUNTRY], EU4_HEIR),
     ([''consort''], [EU4_COUNTRY], EU4_CONSORT),
     ([''unit''], [], EU4_UNIT),
     ([''every_rebel_faction'', ''random_rebel_faction'', ''any_rebel_faction''], [EU4_COUNTRY, EU4_PROVINCE], EU4_REBEL_FACTION),
     ([''every_advisor'', ''random_advisor'', ''any_advisor''], [EU4_COUNTRY], EU4_ADVISOR),
     ([''every_known_country'', ''random_known_country'', ''any_known_country''], [EU4_COUNTRY], EU4_COUNTRY),
     ([''religion''], [EU4_PROVINCE, EU4_COUNTRY], EU4_RELIGION),
     ([''culture''], [EU4_PROVINCE, EU4_COUNTRY], EU4_CULTURE)]"

definition load_eu4_links :: "(rstr \<times> ScopeLink) list \<Rightarrow> (rstr \<times> ScopeLink) list" where
  "load_eu4_links links = load_entries links (eu4_entries_1 @ eu4_entries_2)"

text \<open>ck2: scope ids, then the entries of \<open>load_ck2_links\<close>.\<close>

abbreviation CK2_CHARACTER :: ScopeId where "CK2_CHARACTER \<equiv> 400"
abbreviation CK2_TITLE :: ScopeId where "CK2_TITLE \<equiv> 401"
abbreviation CK2_PROVINCE :: ScopeId where "CK2_PROVINCE \<equiv> 402"
abbreviation CK2_OFFMAP :: ScopeId where "CK2_OFFMAP \<equiv> 403"
abbreviation CK2_WAR :: ScopeId where "CK2_WAR \<equiv> 404"
abbreviation CK2_UNIT :: ScopeId where "CK2_UNIT \<equiv> 406"
abbreviation CK2_RELIGION :: ScopeId where "CK2_RELIGION \<equiv> 407"
abbreviation CK2_CULTURE :: ScopeId where "CK2_CULTURE \<equiv> 408"
abbreviation CK2_SOCIETY :: ScopeId where "CK2_SOCIETY \<equiv> 409"
abbreviation CK2_ARTIFACT :: ScopeId where "CK2_ARTIFACT \<equiv> 410"

definition ck2_entries_1 :: "(rstr list \<times> ScopeId list \<times> ScopeId) list" where
  "ck2_entries_1 = [
     ([''every_character'', ''random_character'', ''any_character'', ''character''], [], CK2_CHARACTER),
     ([''every_province'', ''random_province'', ''any_province'', ''province''], [], CK2_PROVINCE),
     ([''every_playable_ruler'', ''random_playable_ruler'', ''any_playable_ruler''], [], CK2_CHARACTER),
     ([''every_vassal'', ''random_vassal'', ''any_vassal''], [CK2_CHARACTER], CK2_CHARACTER),
     ([''every_ward'', ''random_ward'', ''any_ward''], [CK2_CHARACTER], CK2_CHARACTER),
     ([''every_child'', ''random_child'', ''any_child''], [CK2_CHARACTER], CK2_CHARACTER),
     ([''every_sibling'', ''random_sibling'', ''any_sibling''], [CK2_CHARACTER], CK2_CHARACTER),
     ([''every_spouse'', ''random_spouse'', ''any_spouse''], [CK2_CHARACTER], CK2_CHARACTER),
     ([''every_courtier'', ''random_courtier'', ''any_courtier''], [CK2_CHARACTER], CK2_CHARACTER),
     ([''every_realm_character'', ''random_realm_character'', ''any_realm_character''], [CK2_CHARACTER], CK2_CHARACTER),
     ([''every_realm_province'', ''random_realm_province'', ''any_realm_province''], [CK2_CHARACTER], CK2_PROVINCE),
     ([''every_demesne_province'', ''random_demesne_province'', ''any_demesne_province''], [CK2_CHARACTER], CK2_PROVINCE),
     ([''every_demesne_title'', ''random_demesne_title'', ''any_demesne_title''], [CK2_CHARACTER], CK2_TITLE)]"

definition ck2_entries_2 :: "(rstr list \<times> ScopeId list \<times> ScopeId) list" where
  "ck2_entries_2 = [
     ([''every_realm_title'', ''random_realm_title'', ''any_realm_title''], [CK2_CHARACTER], CK2_TITLE),
     ([''every_claim'', ''random_claim'', ''any_claim''], [CK2_CHARACTER], CK2_TITLE),
     ([''every_heir_title'', ''random_heir_title''], [CK2_CHARACTER], CK2_TITLE),
     ([''every_artifact'', ''random_artifact'', ''any_artifact''], [CK2_CHARACTER], CK2_ARTIFACT),
     ([''every_neighbor_province'', ''random_neighbor_province'', ''any_neighbor_province''], [CK2_PROVINCE], CK2_PROVINCE),
     ([''every_de_jure_vassal'', ''random_de_jure_vassal''], [CK2_TITLE], CK2_CHARACTER),
     ([''primary_title''], [CK2_CHARACTER], CK2_TITLE),
     ([''mother''], [CK2_CHARACTER], CK2_CHARACTER),
     ([''mother_even_if_dead''], [CK2_CHARACTER], CK2_CHARACTER),
     ([''father''], [CK2_CHARACTER], CK2_CHARACTER),
     ([''father_even_if_dead''], [CK2_CHARACTER], CK2_CHARACTER),
     ([''killer''], [CK2_CHARACTER], CK2_CHARACTER),
     ([''liege''], [CK2_CHARACTER], CK2_CHARACTER),
     ([''liege_before_war''], [CK2_CHARACTER], CK2_CHARACTER),
     ([''top_liege''], [CK2_CHARACTER], CK2_CHARACTER),
     ([''employer''], [CK2_CHARACTER], CK2_CHARACTER),
     ([''host''], [CK2_CHARACTER], CK2_CHARACTER),
     ([''spouse''], [CK2_CHARACTER], CK2_CHARACTER),
     ([''guardian''], [CK2_CHARACTER], CK2_CHARACTER),
     ([''betrothed''], [CK2_CHARACTER], CK2_CHARACTER),
     ([''regent''], [CK2_CHARACTER], CK2_CHARACTER),
     ([''capital_scope''], [CK2_CHARACTER, CK2_TITLE], CK2_PROVINCE),
     ([''owner''], [CK2_PROVINCE], CK2_CHARACTER),
     ([''location''], [CK2_CHARACTER, CK2_UNIT], CK2_PROVINCE),
     ([''realm_capital''], [CK2_CHARACTER], CK2_PROVINCE),
     ([''holder_scope''], [CK2_TITLE], CK2_CHARACTER),
     ([''de_jure_liege_title''], [CK2_TITLE], CK2_TITLE),
     ([''de_facto_liege''], [CK2_TITLE], CK2_TITLE),
     ([''independent_ruler''], [CK2_TITLE], CK2_CHARACTER),
     ([''war''], [CK2_CHARACTER], CK2_WAR),
     ([''attacker''], [CK2_WAR], CK2_CHARACTER),
     ([''defender''], [CK2_WAR], CK2_CHARACTER),
     ([''religion''], [CK2_CHARACTER, CK2_PROVINCE], CK2_RELIGION),
     ([''culture''], [CK2_CHARACTER, CK2_PROVINCE], CK2_CULTURE),
     ([''offmap_ruler''], [CK2_OFFMAP], CK2_CHARACTER),
     ([''any_society_member'', ''every_society_member'', ''random_society_member''], [CK2_SOCIETY], CK2_CHARACTER)]"

definition load_ck2_links :: "(rstr \<times> ScopeLink) list \<Rightarrow> (rstr \<times> ScopeLink) list" where
  "load_ck2_links links = load_entries links (ck2_entries_1 @ ck2_entries_2)"

text \<open>ck3: scope ids, then the entries of \<open>load_ck3_links\<close>.\<close>

abbreviation CK3_CHARACTER :: ScopeId where "CK3_CHARACTER \<equiv> 505"
abbreviation CK3_PROVINCE :: ScopeId where "CK3_PROVINCE \<equiv> 506"
abbreviation CK3_COMBAT :: ScopeId where "CK3_COMBAT \<equiv> 507"
abbreviation CK3_UNIT :: ScopeId where "CK3_UNIT \<equiv> 508"
abbreviation CK3_POP :: ScopeId where "CK3_POP \<equiv> 509"
abbreviation CK3_FAMILY :: ScopeId where "CK3_FAMILY \<equiv> 510"
abbreviation CK3_RELIGION :: ScopeId where "CK3_RELIGION \<equiv> 512"
abbreviation CK3_CULTURE :: ScopeId where "CK3_CULTURE \<equiv> 513"
abbreviation CK3_CULTURE_GROUP :: ScopeId where "CK3_CULTURE_GROUP \<equiv> 515"
abbreviation CK3_STATE :: ScopeId where "CK3_STATE \<equiv> 517"
abbreviation CK3_GOVERNORSHIP :: ScopeId where "CK3_GOVERNORSHIP \<equiv> 519"

definition ck3_entries_1 :: "(rstr list \<times> ScopeId list \<times> ScopeId) list" where
  "ck3_entries_1 = [
     ([''every_character'', ''random_character'', ''any_character'', ''character''], [], CK3_CHARACTER),
     ([''every_province'', ''random_province'', ''any_province'', ''province''], [], CK3_PROVINCE),
     ([''every_ruler'', ''random_ruler'', ''any_ruler''], [], CK3_CHARACTER),
     ([''every_vassal'', ''random_vassal'', ''any_vassal''], [CK3_CHARACTER], CK3_CHARACTER),
     ([''every_direct_vassal_character'', ''random_direct_vassal_character''], [CK3_CHARACTER], CK3_CHARACTER),
     ([''every_child'', ''random_child'', ''any_child''], [CK3_CHARACTER], CK3_CHARACTER),
     ([''every_sibling'', ''random_sibling'', ''any_sibling''], [CK3_CHARACTER], CK3_CHARACTER),
     ([''every_spouse'', ''random_spouse'', ''any_spouse''], [CK3_CHARACTER], CK3_CHARACTER),
     ([''every_courtier'', ''random_courtier'', ''any_courtier''], [CK3_CHARACTER], CK3_CHARACTER),
     ([''every_close_family_member'', ''random_close_family_member'', ''any_close_family_member''], [CK3_CHARACTER], CK3_CHARACTER),
     ([''every_extended_family_member'', ''random_extended_family_member''], [CK3_CHARACTER], CK3_CHARACTER),
     ([''every_realm_province'', ''random_realm_province'', ''any_realm_province''], [CK3_CHARACTER], CK3_PROVINCE)]"

definition ck3_entries_2 :: "(rstr list \<times> ScopeId list \<times> ScopeId) list" where
  "ck3_entries_2 = [
     ([''every_held_title'', ''random_held_title'', ''any_held_title''], [CK3_CHARACTER], CK3_PROVINCE),
     ([''every_claim'', ''random_claim'', ''any_claim''], [CK3_CHARACTER], CK3_PROVINCE),
     ([''every_neighbor_province'', ''random_neighbor_province'', ''any_neighbor_province''], [CK3_PROVINCE], CK3_PROVINCE),
     ([''every_county_province'', ''random_county_province''], [CK3_PROVINCE], CK3_PROVINCE),
     ([''liege''], [CK3_CHARACTER], CK3_CHARACTER),
     ([''top_liege''], [CK3_CHARACTER], CK3_CHARACTER),
     ([''father''], [CK3_CHARACTER], CK3_CHARACTER),
     ([''mother''], [CK3_CHARACTER], CK3_CHARACTER),
     ([''spouse''], [CK3_CHARACTER], CK3_CHARACTER),
     ([''betrothed''], [CK3_CHARACTER], CK3_CHARACTER),
     ([''guardian''], [CK3_CHARACTER], CK3_CHARACTER),
     ([''employer''], [CK3_CHARACTER], CK3_CHARACTER),
     ([''host''], [CK3_CHARACTER], CK3_CHARACTER),
     ([''capital_province''], [CK3_CHARACTER], CK3_PROVINCE),
     ([''holder''], [CK3_PROVINCE], CK3_CHARACTER),
     ([''owner'', ''controller''], [CK3_PROVINCE], CK3_CHARACTER),
     ([''location''], [CK3_CHARACTER], CK3_PROVINCE),
     ([''family''], [CK3_CHARACTER], CK3_FAMILY),
     ([''every_family_member'', ''random_family_member'', ''any_family_member''], [CK3_FAMILY], CK3_CHARACTER),
     ([''governor''], [CK3_GOVERNORSHIP, CK3_STATE], CK3_CHARACTER),
     ([''every_governorship'', ''random_governorship'', ''any_governorship''], [CK3_CHARACTER], CK3_GOVERNORSHIP),
     ([''religion''], [CK3_CHARACTER, CK3_PROVINCE], CK3_RELIGION),
     ([''culture''], [CK3_CHARACTER, CK3_PROVINCE], CK3_CULTURE),
     ([''culture_group''], [CK3_CULTURE], CK3_CULTURE_GROUP),
     ([''every_combat_side'', ''random_combat_side'', ''any_combat_side''], [CK3_COMBAT], CK3_CHARACTER),
     ([''commander''], [CK3_UNIT], CK3_CHARACTER),
     ([''every_pop'', ''random_pop'', ''any_pop''], [CK3_PROVINCE, CK3_STATE], CK3_POP)]"

definition load_ck3_links :: "(rstr \<times> ScopeLink) list \<Rightarrow> (rstr \<times> ScopeLink) list" where
  "load_ck3_links links = load_entries links (ck3_entries_1 @ ck3_entries_2)"

text \<open>vic2: scope ids, then the entries of \<open>load_vic2_links\<close>.\<close>

abbreviation VIC2_COUNTRY :: ScopeId where "VIC2_COUNTRY \<equiv> 604"
abbreviation VIC2_CHARACTER :: ScopeId where "VIC2_CHARACTER \<equiv> 605"
abbreviation VIC2_PROVINCE :: ScopeId where "VIC2_PROVINCE \<equiv> 606"
abbreviation VIC2_UNIT :: ScopeId where "VIC2_UNIT \<equiv> 608"
abbreviation VIC2_POP :: ScopeId where "VIC2_POP \<equiv> 609"
abbreviation VIC2_PARTY :: ScopeId where "VIC2_PARTY \<equiv> 611"
abbreviation VIC2_RELIGION :: ScopeId where "VIC2_RELIGION \<equiv> 612"
abbreviation VIC2_CULTURE :: ScopeId where "VIC2_CULTURE \<equiv> 613"
abbreviation VIC2_STATE :: ScopeId where "VIC2_STATE \<equiv> 617"

definition vic2_entries :: "(rstr list \<times> ScopeId list \<times> ScopeId) list" where
  "vic2_entries = [
     ([''every_country'', ''random_country'', ''any_country'', ''country''], [], VIC2_COUNTRY),
     ([''every_province'', ''random_province'', ''any_province'', ''province''], [], VIC2_PROVINCE),
     ([''every_owned_province'', ''random_owned_province'', ''any_owned_province''], [VIC2_COUNTRY], VIC2_PROVINCE),
     ([''every_core_province'', ''random_core_province'', ''any_core_province''], [VIC2_COUNTRY], VIC2_PROVINCE),
     ([''every_controlled_province'', ''random_controlled_province''], [VIC2_COUNTRY], VIC2_PROVINCE),
     ([''every_state'', ''random_state'', ''any_state''], [VIC2_COUNTRY], VIC2_STATE),
     ([''every_neighbor_country'', ''random_neighbor_country'', ''any_neighbor_country''], [VIC2_COUNTRY], VIC2_COUNTRY),
     ([''every_sphere_member'', ''random_sphere_member''], [VIC2_COUNTRY], VIC2_COUNTRY),
     ([''every_vassal'', ''random_vassal'', ''any_vassal''], [VIC2_COUNTRY], VIC2_COUNTRY),
     ([''every_pop'', ''random_pop'', ''any_pop''], [VIC2_COUNTRY, VIC2_PROVINCE], VIC2_POP),
     ([''every_party'', ''random_party''], [VIC2_COUNTRY], VIC2_PARTY),
     ([''every_neighbor_province'', ''random_neighbor_province''], [VIC2_PROVINCE], VIC2_PROVINCE),
     ([''owner''], [VIC2_PROVINCE], VIC2_COUNTRY),
     ([''controller''], [VIC2_PROVINCE], VIC2_COUNTRY),
     ([''capital''], [VIC2_COUNTRY], VIC2_PROVINCE),
     ([''overlord''], [VIC2_COUNTRY], VIC2_COUNTRY),
     ([''sphere_owner''], [VIC2_COUNTRY], VIC2_COUNTRY),
     ([''union''], [VIC2_COUNTRY], VIC2_COUNTRY),
     ([''ruling_party''], [VIC2_COUNTRY], VIC2_PARTY),
     ([''primary_culture''], [VIC2_COUNTRY], VIC2_CULTURE),
     ([''national_focus''], [VIC2_COUNTRY], VIC2_PROVINCE),
     ([''religion''], [VIC2_COUNTRY, VIC2_PROVINCE, VIC2_POP], VIC2_RELIGION),
     ([''culture''], [VIC2_COUNTRY, VIC2_PROVINCE, VIC2_POP], VIC2_CULTURE),
     ([''location''], [VIC2_CHARACTER, VIC2_UNIT], VIC2_PROVINCE)]"

definition load_vic2_links :: "(rstr \<times> ScopeLink) list \<Rightarrow> (rstr \<times> ScopeLink) list" where
  "load_vic2_links links = load_entries links (vic2_entries)"

text \<open>ir: scope ids, then the entries of \<open>load_ir_links\<close>.\<close>

abbreviation IR_COUNTRY :: ScopeId where "IR_COUNTRY \<equiv> 704"
abbreviation IR_CHARACTER :: ScopeId where "IR_CHARACTER \<equiv> 705"
abbreviation IR_PROVINCE :: ScopeId where "IR_PROVINCE \<equiv> 706"
abbreviation IR_UNIT :: ScopeId where "IR_UNIT \<equiv> 708"
abbreviation IR_POP :: ScopeId where "IR_POP \<equiv> 709"
abbreviation IR_FAMILY :: ScopeId where "IR_FAMILY \<equiv> 710"
abbreviation IR_PARTY :: ScopeId where "IR_PARTY \<equiv> 711"
abbreviation IR_RELIGION :: ScopeId where "IR_RELIGION \<equiv> 712"
abbreviation IR_CULTURE :: ScopeId where "IR_CULTURE \<equiv> 713"
abbreviation IR_STATE :: ScopeId where "IR_STATE \<equiv> 717"
abbreviation IR_SUBUNIT :: ScopeId where "IR_SUBUNIT \<equiv> 718"
abbreviation IR_GOVERNORSHIP :: ScopeId where "IR_GOVERNORSHIP \<equiv> 719"
abbreviation IR_REGION :: ScopeId where "IR_REGION \<equiv> 720"

definition ir_entries_1 :: "(rstr list \<times> ScopeId list \<times> ScopeId) list" where
  "ir_entries_1 = [
     ([''every_country'', ''random_country'', ''any_country'', ''country''], [], IR_COUNTRY),
     ([''every_province'', ''random_province'', ''any_province'', ''province''], [], IR_PROVINCE),
     ([''every_character'', ''random_character'', ''any_character'', ''character''], [], IR_CHARACTER),
     ([''every_ownable_province'', ''random_ownable_province'', ''any_ownable_province''], [], IR_PROVINCE),
     ([''every_owned_province'', ''random_owned_province'', ''any_owned_province''], [IR_COUNTRY], IR_PROVINCE),
     ([''every_allied_country'', ''random_allied_country'', ''any_allied_country''], [IR_COUNTRY], IR_COUNTRY),
     ([''every_subject'', ''random_subject'', ''any_subject''], [IR_COUNTRY], IR_COUNTRY),
     ([''every_neighbor_country'', ''random_neighbour_country'', ''any_neighbor_country'', ''random_neighbor_country''], [IR_COUNTRY], IR_COUNTRY),
     ([''every_army'', ''random_army'', ''any_army''], [IR_COUNTRY], IR_UNIT),
     ([''every_navy'', ''random_navy'', ''any_navy''], [IR_COUNTRY], IR_UNIT),
     ([''every_country_state'', ''random_country_state'', ''any_country_state''], [IR_COUNTRY], IR_STATE),
     ([''every_governor_state'', ''random_governor_state''], [IR_CHARACTER], IR_STATE),
     ([''every_successor'', ''random_successor''], [IR_COUNTRY], IR_CHARACTER)]"

definition ir_entries_2 :: "(rstr list \<times> ScopeId list \<times> ScopeId) list" where
  "ir_entries_2 = [
     ([''every_neighbor_province'', ''random_neighbor_province'', ''any_neighbor_province''], [IR_PROVINCE], IR_PROVINCE),
     ([''every_child'', ''random_child'', ''any_child''], [IR_CHARACTER], IR_CHARACTER),
     ([''every_friend'', ''random_friend'', ''any_friend'', ''ordered_friend''], [IR_CHARACTER], IR_CHARACTER),
     ([''every_support_as_heir'', ''any_support_as_heir''], [IR_CHARACTER], IR_CHARACTER),
     ([''every_area'', ''random_area'', ''any_area''], [], IR_STATE),
     ([''every_region'', ''random_region'', ''any_region''], [], IR_REGION),
     ([''every_region_state'', ''random_region_state''], [IR_REGION], IR_STATE),
     ([''every_area_province'', ''random_area_province''], [IR_STATE], IR_PROVINCE),
     ([''owner''], [IR_PROVINCE], IR_COUNTRY),
     ([''controller''], [IR_PROVINCE], IR_COUNTRY),
     ([''capital''], [IR_COUNTRY], IR_PROVINCE),
     ([''liege''], [IR_CHARACTER], IR_CHARACTER),
     ([''employer''], [IR_CHARACTER], IR_CHARACTER),
     ([''spouse''], [IR_CHARACTER], IR_CHARACTER),
     ([''father''], [IR_CHARACTER], IR_CHARACTER),
     ([''mother''], [IR_CHARACTER], IR_CHARACTER),
     ([''top_liege''], [IR_CHARACTER], IR_CHARACTER),
     ([''family''], [IR_CHARACTER], IR_FAMILY),
     ([''location''], [IR_CHARACTER, IR_UNIT, IR_SUBUNIT], IR_PROVINCE),
     ([''overlord''], [IR_COUNTRY], IR_COUNTRY),
     ([''governor''], [IR_GOVERNORSHIP, IR_STATE], IR_CHARACTER),
     ([''governorship''], [IR_CHARACTER], IR_GOVERNORSHIP),
     ([''ruling_party''], [IR_COUNTRY], IR_PARTY),
     ([''every_pop'', ''random_pop'', ''any_pop''], [IR_PROVINCE, IR_COUNTRY, IR_STATE], IR_POP),
     ([''every_family_member'', ''random_family_member'', ''any_family_member''], [IR_FAMILY], IR_CHARACTER),
     ([''religion''], [IR_CHARACTER, IR_PROVINCE, IR_COUNTRY], IR_RELIGION),
     ([''culture''], [IR_CHARACTER, IR_PROVINCE, IR_COUNTRY], IR_CULTURE)]"

definition load_ir_links :: "(rstr \<times> ScopeLink) list \<Rightarrow> (rstr \<times> ScopeLink) list" where
  "load_ir_links links = load_entries links (ir_entries_1 @ ir_entries_2)"

definition load_vic3_links :: "(rstr \<times> ScopeLink) list \<Rightarrow> (rstr \<times> ScopeLink) list" where
  "load_vic3_links links = links"

definition load_eu5_links :: "(rstr \<times> ScopeLink) list \<Rightarrow> (rstr \<times> ScopeLink) list" where
  "load_eu5_links links = links"

fun load_scope_links :: "Game \<Rightarrow> (rstr \<times> ScopeLink) list \<Rightarrow> (rstr \<times> ScopeLink) list" where
  "load_scope_links Hoi4 links = links"
| "load_scope_links Stellaris links = load_stellaris_links links"
| "load_scope_links Eu4 links = load_eu4_links links"
| "load_scope_links Ck2 links = load_ck2_links links"
| "load_scope_links Ck3 links = load_ck3_links links"
| "load_scope_links Vic2 links = load_vic2_links links"
| "load_scope_links Ir links = load_ir_links links"
| "load_scope_links Vic3 links = load_vic3_links links"
| "load_scope_links Eu5 links = load_eu5_links links"
| "load_scope_links Custom links = links"

end
