(* ===== verification/Scope_Registry.thy ===== *)
theory Scope_Registry
  imports Scope_Links
begin

text \<open>
  The runtime registry of scopes and links (\<open>crates/game/src/scope_registry.rs\<close>): its
  construction from a parsed configuration or from a game's hardcoded tables, and the
  lookups. A hash map is an association list; where the code iterates over one, the order
  it meets the entries in is a parameter (\<open>hash_order\<close>), any permutation.
\<close>

section \<open>State\<close>

definition SCOPE_ANY :: ScopeId where "SCOPE_ANY = 0"
definition SCOPE_INVALID :: ScopeId where "SCOPE_INVALID = 1"

record ScopeInput =
  si_name :: rstr
  si_aliases :: "rstr list"
  si_is_subscope_of :: "rstr list"

record LinkInput =
  li_name :: rstr
  li_output_scope :: "rstr option"
  li_input_scopes :: "rstr list"
  li_prefix :: "rstr option"
  li_from_data :: bool
  li_data_source :: "rstr list"

record ScopeDefOwned =
  so_name :: rstr
  so_aliases :: "rstr list"
  so_subscope_of :: "ScopeId list"

record ScopeRegistry =
  by_id :: "(ScopeId \<times> ScopeDefOwned) list"
  by_name :: "(rstr \<times> ScopeId) list"
  links :: "(rstr \<times> ScopeLink) list"
  prefix_links :: "(rstr \<times> ScopeLink) list"

definition registry_default :: ScopeRegistry where
  "registry_default = \<lparr>by_id = [], by_name = [], links = [], prefix_links = []\<rparr>"

text \<open>The order in which a hash map yields its entries.\<close>

record hash_order =
  ord_defs :: "(ScopeId \<times> ScopeDefOwned) list \<Rightarrow> (ScopeId \<times> ScopeDefOwned) list"
  ord_links :: "(rstr \<times> ScopeLink) list \<Rightarrow> (rstr \<times> ScopeLink) list"

definition insertion_order :: hash_order where
  "insertion_order = \<lparr>ord_defs = (\<lambda>m. m), ord_links = (\<lambda>m. m)\<rparr>"

section \<open>Lookups\<close>

definition name_of :: "ScopeRegistry \<Rightarrow> ScopeId \<Rightarrow> rstr" where
  "name_of reg i =
     (if i = SCOPE_ANY then ''any''
      else if i = SCOPE_INVALID then ''invalid''
      else case map_of (by_id reg) i of
             Some d \<Rightarrow> (case so_aliases d of a # as \<Rightarrow> a | [] \<Rightarrow> so_name d)
           | None \<Rightarrow> ''scope_'' @ show_nat (unat i))"

definition id_of :: "ScopeRegistry \<Rightarrow> rstr \<Rightarrow> ScopeId option" where
  "id_of reg name =
     (let trimmed = trim name in
      if eq_ignore_ascii_case trimmed ''any'' \<or> eq_ignore_ascii_case trimmed ''all''
         \<or> eq_ignore_ascii_case trimmed ''none'' then Some SCOPE_ANY
      else if eq_ignore_ascii_case trimmed ''invalid'' then Some SCOPE_INVALID
      else case map_of (by_name reg) trimmed of
             Some i \<Rightarrow> Some i
           | None \<Rightarrow> if list_ex is_upper_byte trimmed
                     then map_of (by_name reg) (to_ascii_lowercase trimmed) else None)"

definition registry_is_empty :: "ScopeRegistry \<Rightarrow> bool" where
  "registry_is_empty reg \<longleftrightarrow> by_id reg = []"

definition parents_of :: "ScopeRegistry \<Rightarrow> ScopeId \<Rightarrow> ScopeId list" where
  "parents_of reg c = (case map_of (by_id reg) c of Some d \<Rightarrow> so_subscope_of d | None \<Rightarrow> [])"

text \<open>The walk of \<open>is_subscope_or_eq\<close>; the head of \<open>stack\<close> is the top of the code's stack.\<close>

function subscope_loop :: "ScopeRegistry \<Rightarrow> ScopeId \<Rightarrow> ScopeId list \<Rightarrow> ScopeId list \<Rightarrow> bool" where
  "subscope_loop reg tgt [] seen = False"
| "subscope_loop reg tgt (c # stack) seen =
     (if c = tgt then True
      else if c \<in> set seen then subscope_loop reg tgt stack seen
      else subscope_loop reg tgt (rev (parents_of reg c) @ stack) (seen @ [c]))"
  by pat_completeness auto
termination
proof (relation "measures [\<lambda>(reg, tgt, stack, seen). card (set (map fst (by_id reg)) - set seen),
    \<lambda>(reg, tgt, stack, seen). length stack]", goal_cases)
  case (3 reg tgt c stack seen)
  let ?K = "set (map fst (by_id reg))"
  show ?case
  proof (cases "c \<in> ?K")
    case True
    then have "card (?K - set (seen @ [c])) < card (?K - set seen)"
      using 3(2) by (intro psubset_card_mono) auto
    then show ?thesis by simp
  next
    case False
    then have "map_of (by_id reg) c = None" by (simp add: map_of_eq_None_iff)
    then have "parents_of reg c = []" by (simp add: parents_of_def)
    moreover have "?K - set (seen @ [c]) = ?K - set seen" using False by auto
    ultimately show ?thesis by simp
  qed
qed auto

definition is_subscope_or_eq :: "ScopeRegistry \<Rightarrow> ScopeId \<Rightarrow> ScopeId \<Rightarrow> bool" where
  "is_subscope_or_eq reg cur tgt \<longleftrightarrow>
     (if cur = tgt \<or> cur = SCOPE_ANY \<or> tgt = SCOPE_ANY then True else subscope_loop reg tgt [cur] [])"

section \<open>Construction\<close>

definition insert_names :: "rstr \<Rightarrow> rstr list \<Rightarrow> ScopeId \<Rightarrow> (rstr \<times> ScopeId) list \<Rightarrow> (rstr \<times> ScopeId) list" where
  "insert_names name aliases i m =
     foldl (\<lambda>m a. AList.update (to_ascii_lowercase a) i m) (AList.update (to_ascii_lowercase name) i m) aliases"

definition hardcoded_step :: "ScopeRegistry \<Rightarrow> ScopeDef \<Rightarrow> ScopeRegistry" where
  "hardcoded_step reg d =
     reg\<lparr>by_name := insert_names (sd_name d) (sd_aliases d) (sd_id d) (by_name reg),
         by_id := AList.update (sd_id d) \<lparr>so_name = sd_name d, so_aliases = sd_aliases d,
           so_subscope_of = sd_subscope_of d\<rparr> (by_id reg)\<rparr>"

definition from_hardcoded :: "Game \<Rightarrow> ScopeRegistry" where
  "from_hardcoded game =
     (let reg = foldl hardcoded_step registry_default (scope_defs game)
      in reg\<lparr>links := load_scope_links game (links reg)\<rparr>)"

text \<open>Pass 1 gives every configured scope an id, the wildcard or the invalid sentinel.\<close>

definition assign_scope :: "ScopeRegistry \<times> u32 \<Rightarrow> ScopeInput \<Rightarrow> ScopeRegistry \<times> u32" where
  "assign_scope st si =
     (let (reg, next_id) = st;
          is_invalid = eq_ignore_ascii_case (si_name si) ''invalid''
            \<or> list_ex (\<lambda>a. eq_ignore_ascii_case a ''invalid'') (si_aliases si);
          is_any = eq_ignore_ascii_case (si_name si) ''any''
            \<or> list_ex (\<lambda>a. eq_ignore_ascii_case a ''any'') (si_aliases si);
          (i, next_id') = (if is_invalid then (SCOPE_INVALID, next_id)
                           else if is_any then (SCOPE_ANY, next_id)
                           else (next_id, next_id + 1));
          reg1 = reg\<lparr>by_name := insert_names (si_name si) (si_aliases si) i (by_name reg)\<rparr>
      in (if i \<noteq> SCOPE_ANY \<and> i \<noteq> SCOPE_INVALID
          then reg1\<lparr>by_id := AList.update i \<lparr>so_name = si_name si, so_aliases = si_aliases si,
                 so_subscope_of = []\<rparr> (by_id reg1)\<rparr>
          else reg1, next_id'))"

definition set_parents :: "ScopeId \<Rightarrow> ScopeId list \<Rightarrow> ScopeRegistry \<Rightarrow> ScopeRegistry" where
  "set_parents i parents reg =
     (case map_of (by_id reg) i of
        Some d \<Rightarrow> reg\<lparr>by_id := AList.update i (d\<lparr>so_subscope_of := parents\<rparr>) (by_id reg)\<rparr>
      | None \<Rightarrow> reg)"

text \<open>Pass 2 resolves the parents' names.\<close>

definition resolve_parents :: "ScopeRegistry \<Rightarrow> ScopeInput \<Rightarrow> ScopeRegistry" where
  "resolve_parents reg si =
     (case id_of reg (si_name si) of
        None \<Rightarrow> reg
      | Some i \<Rightarrow> set_parents i (List.map_filter (id_of reg) (si_is_subscope_of si)) reg)"

text \<open>Links: an unknown input scope is the wildcard (and a warning, which is not modelled).\<close>

definition add_link :: "ScopeRegistry \<Rightarrow> LinkInput \<Rightarrow> ScopeRegistry" where
  "add_link reg li =
     (let tgt = Option.bind (li_output_scope li) (id_of reg);
          valid = map (\<lambda>n. case id_of reg n of Some i \<Rightarrow> i | None \<Rightarrow> SCOPE_ANY) (li_input_scopes li);
          link = \<lparr>valid_scopes = valid, target = tgt, ignore_keys = []\<rparr>
      in case li_prefix li of
           Some p \<Rightarrow> reg\<lparr>prefix_links := prefix_links reg @ [(to_ascii_lowercase p, link)]\<rparr>
         | None \<Rightarrow> reg\<lparr>links := AList.update (to_ascii_lowercase (li_name li)) link (links reg)\<rparr>)"

text \<open>The iterators \<open>every_/random_/any_/all_<scope>\<close>.\<close>

definition is_iterator_name :: "rstr \<Rightarrow> bool" where
  "is_iterator_name a \<longleftrightarrow> list_all (\<lambda>c. is_ascii_alnum c \<or> c = ''_'') (chars a)"

definition scope_aliases :: "(ScopeId \<times> ScopeDefOwned) list \<Rightarrow> (rstr \<times> ScopeId) list" where
  "scope_aliases defs =
     concat (map (\<lambda>(i, d). map (\<lambda>a. (to_ascii_lowercase a, i))
       (filter is_iterator_name (so_name d # so_aliases d))) defs)"

definition iterator_prefixes :: "rstr list" where
  "iterator_prefixes = [''every_'', ''random_'', ''any_'', ''all_'']"

definition add_iterators :: "ScopeRegistry \<Rightarrow> rstr \<times> ScopeId \<Rightarrow> ScopeRegistry" where
  "add_iterators reg alias =
     (case alias of (a, i) \<Rightarrow>
        reg\<lparr>links := foldl (\<lambda>m pre. or_insert (pre @ a)
              \<lparr>valid_scopes = [], target = Some i, ignore_keys = []\<rparr> m) (links reg) iterator_prefixes\<rparr>)"

section \<open>Backfilling from the hardcoded tables\<close>

type_synonym id_map = "(ScopeId \<times> ScopeId) list"

fun find_map :: "('a \<Rightarrow> 'b option) \<Rightarrow> 'a list \<Rightarrow> 'b option" where
  "find_map f [] = None"
| "find_map f (x # xs) = (case f x of Some y \<Rightarrow> Some y | None \<Rightarrow> find_map f xs)"

definition backfill_scope ::
  "ScopeRegistry \<times> u32 \<times> id_map \<Rightarrow> ScopeId \<times> ScopeDefOwned \<Rightarrow> ScopeRegistry \<times> u32 \<times> id_map" where
  "backfill_scope st entry =
     (let (reg, next_id, hc_to_reg) = st; (hid, hdef) = entry
      in case find_map (id_of reg) (so_name hdef # so_aliases hdef) of
           Some i \<Rightarrow> (reg, next_id, AList.update hid i hc_to_reg)
         | None \<Rightarrow>
             (reg\<lparr>by_name := insert_names (so_name hdef) (so_aliases hdef) next_id (by_name reg),
                  by_id := AList.update next_id \<lparr>so_name = so_name hdef, so_aliases = so_aliases hdef,
                    so_subscope_of = []\<rparr> (by_id reg)\<rparr>,
              next_id + 1, AList.update hid next_id hc_to_reg))"

definition remap :: "id_map \<Rightarrow> ScopeId \<Rightarrow> ScopeId" where
  "remap hc_to_reg i =
     (if i = SCOPE_ANY \<or> i = SCOPE_INVALID then i
      else case map_of hc_to_reg i of Some j \<Rightarrow> j | None \<Rightarrow> i)"

text \<open>\<open>hc_to_reg[hid]\<close> panics on a missing key; every hardcoded id has been mapped before.\<close>

definition backfill_parents :: "id_map \<Rightarrow> ScopeRegistry \<Rightarrow> ScopeId \<times> ScopeDefOwned \<Rightarrow> ScopeRegistry" where
  "backfill_parents hc_to_reg reg entry =
     (case entry of (hid, hdef) \<Rightarrow>
        if so_subscope_of hdef = [] then reg
        else case map_of hc_to_reg hid of
               None \<Rightarrow> reg
             | Some rid \<Rightarrow>
                 (case map_of (by_id reg) rid of
                    Some d \<Rightarrow> if so_subscope_of d = []
                              then set_parents rid (map (remap hc_to_reg) (so_subscope_of hdef)) reg
                              else reg
                  | None \<Rightarrow> reg))"

definition remap_link :: "id_map \<Rightarrow> ScopeLink \<Rightarrow> ScopeLink" where
  "remap_link hc_to_reg link =
     \<lparr>valid_scopes = map (remap hc_to_reg) (valid_scopes link),
      target = map_option (remap hc_to_reg) (target link), ignore_keys = ignore_keys link\<rparr>"

definition backfill_link :: "id_map \<Rightarrow> ScopeRegistry \<Rightarrow> rstr \<times> ScopeLink \<Rightarrow> ScopeRegistry" where
  "backfill_link hc_to_reg reg entry =
     (case entry of (k, link) \<Rightarrow>
        if map_of (links reg) k \<noteq> None then reg
        else reg\<lparr>links := AList.update k (remap_link hc_to_reg link) (links reg)\<rparr>)"

definition backfill_prefix_link :: "id_map \<Rightarrow> ScopeRegistry \<Rightarrow> rstr \<times> ScopeLink \<Rightarrow> ScopeRegistry" where
  "backfill_prefix_link hc_to_reg reg entry =
     (case entry of (p, link) \<Rightarrow>
        if list_ex (\<lambda>(ep, _). ep = p) (prefix_links reg) then reg
        else reg\<lparr>prefix_links := prefix_links reg @ [(p, remap_link hc_to_reg link)]\<rparr>)"

definition backfill_hardcoded :: "hash_order \<Rightarrow> ScopeRegistry \<Rightarrow> Game \<Rightarrow> u32 \<Rightarrow> ScopeRegistry" where
  "backfill_hardcoded H reg game next_id =
     (let hc = from_hardcoded game
      in if registry_is_empty hc then reg
         else let (reg1, _, hc_to_reg) = foldl backfill_scope (reg, next_id, []) (ord_defs H (by_id hc));
                  reg2 = foldl (backfill_parents hc_to_reg) reg1 (ord_defs H (by_id hc));
                  reg3 = foldl (backfill_link hc_to_reg) reg2 (ord_links H (links hc))
              in foldl (backfill_prefix_link hc_to_reg) reg3 (prefix_links hc))"

definition from_config ::
  "hash_order \<Rightarrow> ScopeInput list \<Rightarrow> LinkInput list \<Rightarrow> Game \<Rightarrow> ScopeRegistry" where
  "from_config H scope_inputs link_inputs game =
     (if scope_inputs = [] then from_hardcoded game
      else let (reg1, next_id) = foldl assign_scope (registry_default, 100) scope_inputs;
               reg2 = foldl resolve_parents reg1 scope_inputs;
               reg3 = foldl add_link reg2 link_inputs;
               reg4 = foldl add_iterators reg3 (scope_aliases (ord_defs H (by_id reg3)))
           in backfill_hardcoded H reg4 game next_id)"

section \<open>The subscope walk\<close>

text \<open>\<open>c\<close> reaches \<open>tgt\<close> by following the parents of scopes zero or more times.\<close>

definition parent_rel :: "ScopeRegistry \<Rightarrow> (ScopeId \<times> ScopeId) set" where
  "parent_rel reg = {(c, p). p \<in> set (parents_of reg c)}"

definition walk_closed :: "ScopeRegistry \<Rightarrow> ScopeId \<Rightarrow> ScopeId list \<Rightarrow> ScopeId list \<Rightarrow> bool" where
  "walk_closed reg tgt stack seen \<longleftrightarrow>
     (\<forall>c \<in> set seen. c \<noteq> tgt \<and> set (parents_of reg c) \<subseteq> set seen \<union> set stack)"

lemma walk_closed_escape:
  assumes "walk_closed reg tgt stack seen" "c \<in> set seen" "(c, tgt) \<in> (parent_rel reg)\<^sup>*"
  shows "\<exists>d \<in> set stack. (d, tgt) \<in> (parent_rel reg)\<^sup>*"
  using assms(3,2)
proof (induction rule: converse_rtrancl_induct)
  case base
  then show ?case using assms(1) by (auto simp: walk_closed_def)
next
  case (step y z)
  then have "z \<in> set seen \<union> set stack" using assms(1) by (auto simp: walk_closed_def parent_rel_def)
  with step show ?case by blast
qed

lemma subscope_loop_iff:
  "walk_closed reg tgt stack seen \<Longrightarrow>
     subscope_loop reg tgt stack seen \<longleftrightarrow> (\<exists>c \<in> set stack. (c, tgt) \<in> (parent_rel reg)\<^sup>*)"
proof (induction reg tgt stack seen rule: subscope_loop.induct)
  case (2 reg tgt c stack seen)
  consider "c = tgt" | "c \<noteq> tgt" "c \<in> set seen" | "c \<noteq> tgt" "c \<notin> set seen" by blast
  then show ?case
  proof cases
    case 1
    then show ?thesis by auto
  next
    case 2: 2
    then have closed: "walk_closed reg tgt stack seen"
      using "2.prems" by (auto simp: walk_closed_def)
    then show ?thesis
      using "2.IH"(1) [OF 2] 2 walk_closed_escape [OF closed 2(2)] by auto
  next
    case 3
    have "walk_closed reg tgt (rev (parents_of reg c) @ stack) (seen @ [c])"
      using "2.prems" 3(1) by (auto simp: walk_closed_def)
    then have "subscope_loop reg tgt (c # stack) seen \<longleftrightarrow>
        (\<exists>d \<in> set (parents_of reg c) \<union> set stack. (d, tgt) \<in> (parent_rel reg)\<^sup>*)"
      using "2.IH"(2) [OF 3] 3 by simp
    also have "\<dots> \<longleftrightarrow> (\<exists>d \<in> set (c # stack). (d, tgt) \<in> (parent_rel reg)\<^sup>*)"
      using 3(1) by (auto simp: parent_rel_def elim: converse_rtranclE intro: converse_rtrancl_into_rtrancl)
    finally show ?thesis .
  qed
qed simp

lemma is_subscope_or_eq_iff:
  "is_subscope_or_eq reg c t \<longleftrightarrow> c = SCOPE_ANY \<or> t = SCOPE_ANY \<or> (c, t) \<in> (parent_rel reg)\<^sup>*"
  using subscope_loop_iff [of reg t "[c]" "[]"] by (auto simp: is_subscope_or_eq_def walk_closed_def)

section \<open>Case folding of names\<close>

lemma is_cont_lower_byte [simp]: "is_cont (lower_byte b) = is_cont b"
  using byte_val_lower_byte [of b] by (auto simp: is_cont_def is_upper_byte_def)

lemma takeWhile_cont_map: "takeWhile is_cont (map lower_byte s) = map lower_byte (takeWhile is_cont s)"
  "dropWhile is_cont (map lower_byte s) = map lower_byte (dropWhile is_cont s)"
  by (induction s) auto

lemma chars_lowercase: "chars (to_ascii_lowercase s) = map to_ascii_lowercase (chars s)"
  by (induction s rule: chars.induct) (simp_all add: to_ascii_lowercase_def takeWhile_cont_map)

lemma whitespace_lowercase: "is_whitespace (to_ascii_lowercase c) = is_whitespace c"
proof
  assume "is_whitespace c"
  then show "is_whitespace (to_ascii_lowercase c)"
    unfolding is_whitespace_def whitespace_chars_def
    by (auto simp: to_ascii_lowercase_def lower_byte_def is_upper_byte_def)
next
  assume w: "is_whitespace (to_ascii_lowercase c)"
  have "to_ascii_lowercase c = c"
  proof (rule ccontr)
    assume "to_ascii_lowercase c \<noteq> c"
    then obtain b where b: "b \<in> set c" "lower_byte b \<noteq> b"
      by (metis map_idI to_ascii_lowercase_def)
    then have "is_upper_byte b" by (auto simp: lower_byte_def split: if_splits)
    then have "is_lower_byte (lower_byte b)"
      using byte_val_lower_byte [of b] by (simp add: is_upper_byte_def is_lower_byte_def)
    moreover have "lower_byte b \<in> set (to_ascii_lowercase c)" using b(1) by (simp add: to_ascii_lowercase_def)
    moreover have "list_all (list_all (\<lambda>b. \<not> is_lower_byte b)) whitespace_chars"
      by (simp add: whitespace_chars_def is_lower_byte_def)
    ultimately show False using w by (auto simp: is_whitespace_def list_all_iff)
  qed
  with w show "is_whitespace c" by simp
qed

lemma trim_lowercase: "trim (to_ascii_lowercase s) = to_ascii_lowercase (trim s)"
proof -
  have dw: "dropWhile is_whitespace (map to_ascii_lowercase cs) = map to_ascii_lowercase (dropWhile is_whitespace cs)" for cs
    by (induction cs) (auto simp: whitespace_lowercase)
  have cc: "concat (map to_ascii_lowercase cs) = to_ascii_lowercase (concat cs)" for cs
    by (induction cs) (auto simp: to_ascii_lowercase_def)
  have "trim_start (to_ascii_lowercase s) = to_ascii_lowercase (trim_start s)" for s
    by (simp add: trim_start_def chars_lowercase dw cc)
  moreover have "trim_end (to_ascii_lowercase s) = to_ascii_lowercase (trim_end s)" for s
    by (simp add: trim_end_def chars_lowercase rev_map dw cc)
  ultimately show ?thesis by (simp add: trim_def)
qed


lemma eq_ignore_lowercase [simp]:
  "eq_ignore_ascii_case (to_ascii_lowercase s) t = eq_ignore_ascii_case s t"
  by (simp add: eq_ignore_ascii_case_def)

text \<open>Every key of \<open>by_name\<close> is in lower case.\<close>

definition names_lower :: "ScopeRegistry \<Rightarrow> bool" where
  "names_lower reg \<longleftrightarrow> list_all (\<lambda>(k, i). to_ascii_lowercase k = k) (by_name reg)"

lemma names_lower_lookup:
  "names_lower reg \<Longrightarrow> map_of (by_name reg) k = Some i \<Longrightarrow> to_ascii_lowercase k = k"
  by (auto simp: names_lower_def list_all_iff dest!: map_of_SomeD)

lemma lower_has_no_upper: "to_ascii_lowercase k = k \<Longrightarrow> \<not> list_ex is_upper_byte k"
  using lowercase_has_no_upper [of k] by simp

text \<open>With such keys \<open>id_of\<close> is a lookup of the trimmed, lower-cased name.\<close>

definition id_of_spec :: "ScopeRegistry \<Rightarrow> rstr \<Rightarrow> ScopeId option" where
  "id_of_spec reg name =
     (let k = to_ascii_lowercase (trim name) in
      if k \<in> {''any'', ''all'', ''none''} then Some SCOPE_ANY
      else if k = ''invalid'' then Some SCOPE_INVALID
      else map_of (by_name reg) k)"

lemma lower_constants:
  "to_ascii_lowercase ''any'' = ''any''" "to_ascii_lowercase ''all'' = ''all''"
  "to_ascii_lowercase ''none'' = ''none''" "to_ascii_lowercase ''invalid'' = ''invalid''"
  by code_simp+

lemma id_of_eq_spec:
  assumes "names_lower reg"
  shows "id_of reg name = id_of_spec reg name"
proof -
  let ?t = "trim name"
  have "(case map_of (by_name reg) ?t of Some i \<Rightarrow> Some i
      | None \<Rightarrow> if list_ex is_upper_byte ?t then map_of (by_name reg) (to_ascii_lowercase ?t) else None)
    = map_of (by_name reg) (to_ascii_lowercase ?t)"
    using names_lower_lookup [OF assms] to_ascii_lowercase_no_upper
    by (auto split: option.split)
  then show ?thesis
    by (simp add: id_of_def id_of_spec_def Let_def eq_ignore_ascii_case_def lower_constants)
qed

lemma id_of_spec_lowercase: "id_of_spec reg (to_ascii_lowercase name) = id_of_spec reg name"
  by (simp add: id_of_spec_def trim_lowercase)

section \<open>Well-formed registries\<close>

text \<open>Every id a registry mentions is a sentinel or has a definition.\<close>

definition scope_known :: "ScopeRegistry \<Rightarrow> ScopeId \<Rightarrow> bool" where
  "scope_known reg i \<longleftrightarrow> i = SCOPE_ANY \<or> i = SCOPE_INVALID \<or> i \<in> fst ` set (by_id reg)"

definition link_known :: "ScopeRegistry \<Rightarrow> ScopeLink \<Rightarrow> bool" where
  "link_known reg l \<longleftrightarrow> list_all (scope_known reg) (valid_scopes l)
     \<and> (case target l of None \<Rightarrow> True | Some t \<Rightarrow> scope_known reg t)"

definition registry_wf :: "ScopeRegistry \<Rightarrow> bool" where
  "registry_wf reg \<longleftrightarrow> distinct (map fst (by_id reg)) \<and> distinct (map fst (links reg)) \<and> names_lower reg
     \<and> (\<forall>(k, i) \<in> set (by_name reg). scope_known reg i)
     \<and> (\<forall>(i, d) \<in> set (by_id reg). list_all (scope_known reg) (so_subscope_of d))
     \<and> (\<forall>(k, l) \<in> set (links reg). link_known reg l)
     \<and> (\<forall>(k, l) \<in> set (prefix_links reg). link_known reg l)"

lemma set_update_subset: "set (AList.update k v m) \<subseteq> insert (k, v) (set m)"
  by (induction m) auto

lemma fst_set_update [simp]: "fst ` set (AList.update k v m) = insert k (fst ` set m)"
  by (induction m) auto

lemma scope_known_mono:
  "scope_known reg i \<Longrightarrow> fst ` set (by_id reg) \<subseteq> fst ` set (by_id reg') \<Longrightarrow> scope_known reg' i"
  by (auto simp: scope_known_def)

lemma link_known_mono:
  "link_known reg l \<Longrightarrow> fst ` set (by_id reg) \<subseteq> fst ` set (by_id reg') \<Longrightarrow> link_known reg' l"
  using scope_known_mono [of reg _ reg'] by (auto simp: link_known_def list_all_iff split: option.splits)

lemma registry_default_wf [simp]: "registry_wf registry_default"
  by (simp add: registry_wf_def registry_default_def names_lower_def)

lemma insert_names_set:
  "(k, i') \<in> set (insert_names name aliases i m) \<Longrightarrow>
     (k, i') \<in> set m \<or> i' = i \<and> k \<in> to_ascii_lowercase ` set (name # aliases)"
proof -
  have "(k, i') \<in> set (foldl (\<lambda>m a. AList.update (to_ascii_lowercase a) i m) m0 aliases) \<Longrightarrow>
      (k, i') \<in> set m0 \<or> i' = i \<and> k \<in> to_ascii_lowercase ` set aliases" for m0
    by (induction aliases arbitrary: m0) (auto dest: set_update_subset [THEN subsetD])
  then show "(k, i') \<in> set (insert_names name aliases i m) \<Longrightarrow> ?thesis"
    unfolding insert_names_def by (force dest: set_update_subset [THEN subsetD])
qed

lemma registry_wf_names:
  assumes "registry_wf reg" "scope_known reg i"
  shows "registry_wf (reg\<lparr>by_name := insert_names name aliases i (by_name reg)\<rparr>)"
proof -
  have k: "scope_known (reg\<lparr>by_name := x\<rparr>) = scope_known reg" for x by (simp add: scope_known_def fun_eq_iff)
  have l: "link_known (reg\<lparr>by_name := x\<rparr>) j = link_known reg j" for x j by (simp add: link_known_def k split: option.split)
  have "names_lower (reg\<lparr>by_name := insert_names name aliases i (by_name reg)\<rparr>)"
    using assms(1) insert_names_set [of _ _ name aliases i "by_name reg"]
    by (fastforce simp: registry_wf_def names_lower_def list_all_iff)
  moreover have "\<forall>(k, j) \<in> set (insert_names name aliases i (by_name reg)). scope_known reg j"
    using assms insert_names_set [of _ _ name aliases i "by_name reg"] by (fastforce simp: registry_wf_def)
  ultimately show ?thesis using assms(1) by (simp add: registry_wf_def k l)
qed

lemma registry_wf_define:
  assumes "registry_wf reg" "list_all (scope_known reg) (so_subscope_of d)"
  shows "registry_wf (reg\<lparr>by_id := AList.update i d (by_id reg)\<rparr>)"
proof -
  let ?r = "reg\<lparr>by_id := AList.update i d (by_id reg)\<rparr>"
  have sub: "fst ` set (by_id reg) \<subseteq> fst ` set (by_id ?r)" by auto
  have k: "scope_known reg j \<Longrightarrow> scope_known ?r j" for j using sub by (rule scope_known_mono [rotated])
  have l: "link_known reg j \<Longrightarrow> link_known ?r j" for j using sub by (rule link_known_mono [rotated])
  have "\<forall>(j, e) \<in> set (by_id ?r). list_all (scope_known ?r) (so_subscope_of e)"
  proof (clarify)
    fix j e assume "(j, e) \<in> set (by_id ?r)"
    then have "(j, e) = (i, d) \<or> (j, e) \<in> set (by_id reg)" using set_update_subset by fastforce
    then have "list_all (scope_known reg) (so_subscope_of e)" using assms by (auto simp: registry_wf_def)
    then show "list_all (scope_known ?r) (so_subscope_of e)" using k by (simp add: list_all_iff)
  qed
  moreover have "names_lower ?r" using assms(1) by (simp add: registry_wf_def names_lower_def)
  ultimately show ?thesis
    using assms(1) k l by (fastforce simp: registry_wf_def distinct_update)
qed

lemma registry_wf_link:
  assumes "registry_wf reg" "link_known reg l"
  shows "registry_wf (reg\<lparr>links := AList.update k l (links reg)\<rparr>)"
    and "registry_wf (reg\<lparr>prefix_links := prefix_links reg @ [(k, l)]\<rparr>)"
proof -
  have k: "scope_known (reg\<lparr>links := x\<rparr>) = scope_known reg" for x by (simp add: scope_known_def fun_eq_iff)
  have k': "scope_known (reg\<lparr>prefix_links := x\<rparr>) = scope_known reg" for x by (simp add: scope_known_def fun_eq_iff)
  have l: "link_known (reg\<lparr>links := x\<rparr>) j = link_known reg j" for x j by (simp add: link_known_def k split: option.split)
  have l': "link_known (reg\<lparr>prefix_links := x\<rparr>) j = link_known reg j" for x j by (simp add: link_known_def k' split: option.split)
  have "\<forall>(k, l) \<in> set (AList.update k l (links reg)). link_known reg l"
    using assms set_update_subset [of k l "links reg"] by (fastforce simp: registry_wf_def)
  then show "registry_wf (reg\<lparr>links := AList.update k l (links reg)\<rparr>)"
    using assms(1) by (simp add: registry_wf_def k l names_lower_def distinct_update)
  show "registry_wf (reg\<lparr>prefix_links := prefix_links reg @ [(k, l)]\<rparr>)"
    using assms by (auto simp: registry_wf_def k' l' names_lower_def)
qed

lemma id_of_known: "registry_wf reg \<Longrightarrow> id_of reg n = Some i \<Longrightarrow> scope_known reg i"
  by (fastforce simp: id_of_def Let_def registry_wf_def scope_known_def dest: map_of_SomeD
      split: if_splits option.splits)

section \<open>Construction keeps registries well formed\<close>

lemma foldl_wf: "registry_wf reg \<Longrightarrow> (\<And>r x. registry_wf r \<Longrightarrow> registry_wf (f r x)) \<Longrightarrow> registry_wf (foldl f reg xs)"
  by (rule foldl_invariant [where I = registry_wf])

text \<open>Defining a scope under a fresh or old id, with its names.\<close>

lemma registry_wf_add_scope:
  assumes "registry_wf reg"
  shows "registry_wf (reg\<lparr>by_name := insert_names name aliases i (by_name reg),
     by_id := AList.update i \<lparr>so_name = n, so_aliases = as, so_subscope_of = []\<rparr> (by_id reg)\<rparr>)"
proof -
  let ?d = "\<lparr>so_name = n, so_aliases = as, so_subscope_of = []\<rparr>"
  have "registry_wf (reg\<lparr>by_id := AList.update i ?d (by_id reg)\<rparr>)"
    using registry_wf_define [OF assms, of ?d] by simp
  moreover have "scope_known (reg\<lparr>by_id := AList.update i ?d (by_id reg)\<rparr>) i" by (simp add: scope_known_def)
  ultimately show ?thesis
    using registry_wf_names [of "reg\<lparr>by_id := AList.update i ?d (by_id reg)\<rparr>" i name aliases]
    by (cases reg) simp
qed

lemma assign_scope_wf: "registry_wf (fst st) \<Longrightarrow> registry_wf (fst (assign_scope st si))"
  using registry_wf_add_scope [of "fst st"] registry_wf_names [of "fst st"]
  by (auto simp: assign_scope_def Let_def scope_known_def split: prod.split)

lemma set_parents_wf:
  assumes "registry_wf reg" "list_all (scope_known reg) ps"
  shows "registry_wf (set_parents i ps reg)"
  using registry_wf_define [OF assms(1)] assms
  by (auto simp: set_parents_def split: option.split)

lemma resolve_parents_wf: "registry_wf reg \<Longrightarrow> registry_wf (resolve_parents reg si)"
  using id_of_known [of reg]
  by (auto simp: resolve_parents_def List.map_filter_def list_all_iff split: option.split intro!: set_parents_wf)

lemma add_link_wf:
  assumes "registry_wf reg"
  shows "registry_wf (add_link reg li)"
proof -
  let ?l = "\<lparr>valid_scopes = map (\<lambda>n. case id_of reg n of Some i \<Rightarrow> i | None \<Rightarrow> SCOPE_ANY) (li_input_scopes li),
    target = Option.bind (li_output_scope li) (id_of reg), ignore_keys = []\<rparr>"
  have "link_known reg ?l"
    using id_of_known [OF assms] by (auto simp: link_known_def list_all_iff scope_known_def bind_eq_Some_conv
        split: option.split)
  then show ?thesis
    using registry_wf_link [OF assms] by (simp add: add_link_def Let_def split: option.split)
qed

lemma registry_wf_or_insert:
  "registry_wf reg \<Longrightarrow> link_known reg l \<Longrightarrow> registry_wf (reg\<lparr>links := or_insert k l (links reg)\<rparr>)"
  using registry_wf_link(1) by (auto simp: or_insert_def split: option.split)

lemma add_iterators_wf:
  assumes "registry_wf reg" "scope_known reg (snd alias)"
  shows "registry_wf (add_iterators reg alias) \<and> by_id (add_iterators reg alias) = by_id reg"
proof -
  obtain a i where al: "alias = (a, i)" by force
  let ?l = "\<lparr>valid_scopes = [], target = Some i, ignore_keys = []\<rparr>"
  have "registry_wf (reg\<lparr>links := foldl (\<lambda>m pre. or_insert (pre @ a) ?l m) (links reg) ps\<rparr>)" for ps
  proof (induction ps rule: rev_induct)
    case Nil
    then show ?case using assms(1) by simp
  next
    case (snoc p ps)
    let ?r = "reg\<lparr>links := foldl (\<lambda>m pre. or_insert (pre @ a) ?l m) (links reg) ps\<rparr>"
    have "link_known ?r ?l" using assms(2) al by (simp add: link_known_def scope_known_def)
    from registry_wf_or_insert [OF snoc this, of "p @ a"] show ?case by simp
  qed
  then show ?thesis by (simp add: add_iterators_def al)
qed

lemma add_iterators_fold_wf:
  "registry_wf reg \<Longrightarrow> \<forall>x \<in> set xs. scope_known reg (snd x) \<Longrightarrow> registry_wf (foldl add_iterators reg xs)"
proof (induction xs arbitrary: reg)
  case (Cons x xs)
  then have "registry_wf (add_iterators reg x)" "by_id (add_iterators reg x) = by_id reg"
    using add_iterators_wf by auto
  with Cons show ?case by (simp add: scope_known_def)
qed simp

definition order_ok :: "hash_order \<Rightarrow> bool" where
  "order_ok H \<longleftrightarrow> (\<forall>m. set (ord_defs H m) = set m \<and> length (ord_defs H m) = length m)
     \<and> (\<forall>m. set (ord_links H m) = set m \<and> length (ord_links H m) = length m)"

lemma scope_aliases_known:
  "order_ok H \<Longrightarrow> x \<in> set (scope_aliases (ord_defs H (by_id reg))) \<Longrightarrow> scope_known reg (snd x)"
  by (force simp: scope_aliases_def order_ok_def scope_known_def)

section \<open>The hardcoded tables\<close>

abbreviation owned_def :: "ScopeDef \<Rightarrow> ScopeDefOwned" where
  "owned_def d \<equiv> \<lparr>so_name = sd_name d, so_aliases = sd_aliases d, so_subscope_of = sd_subscope_of d\<rparr>"

lemma hardcoded_defs:
  "set (by_id (foldl hardcoded_step reg ds)) \<subseteq> set (by_id reg) \<union> (\<lambda>d. (sd_id d, owned_def d)) ` set ds"
proof (induction ds arbitrary: reg)
  case (Cons d ds)
  have "set (by_id (hardcoded_step reg d)) \<subseteq> insert (sd_id d, owned_def d) (set (by_id reg))"
    by (simp add: hardcoded_step_def set_update_subset)
  with Cons [of "hardcoded_step reg d"] show ?case by auto
qed simp

lemma hardcoded_ids:
  "fst ` set (by_id (foldl hardcoded_step reg ds)) = fst ` set (by_id reg) \<union> sd_id ` set ds"
  by (induction ds arbitrary: reg) (auto simp: hardcoded_step_def)

lemma hardcoded_distinct:
  "distinct (map fst (by_id reg)) \<Longrightarrow> distinct (map fst (by_id (foldl hardcoded_step reg ds)))"
  by (induction ds arbitrary: reg) (simp_all add: hardcoded_step_def distinct_update)

lemma hardcoded_links [simp]:
  "links (foldl hardcoded_step reg ds) = links reg"
  "prefix_links (foldl hardcoded_step reg ds) = prefix_links reg"
  by (induction ds arbitrary: reg) (simp_all add: hardcoded_step_def)

lemma hardcoded_names:
  "(k, i) \<in> set (by_name (foldl hardcoded_step reg ds)) \<Longrightarrow>
     (k, i) \<in> set (by_name reg) \<or> i \<in> sd_id ` set ds \<and> to_ascii_lowercase k = k"
proof (induction ds arbitrary: reg)
  case (Cons d ds)
  have "(k, i) \<in> set (by_name (hardcoded_step reg d)) \<Longrightarrow>
      (k, i) \<in> set (by_name reg) \<or> i = sd_id d \<and> to_ascii_lowercase k = k"
    using insert_names_set [of k i "sd_name d" "sd_aliases d" "sd_id d" "by_name reg"]
    by (auto simp: hardcoded_step_def)
  with Cons show ?case by fastforce
qed simp

lemma insert_aliases_set:
  "(k, l) \<in> set (insert_aliases m names link) \<Longrightarrow> (k, l) \<in> set m \<or> l = link \<and> k \<in> set names"
  by (induction m names link rule: insert_aliases.induct) (auto dest: set_update_subset [THEN subsetD])

lemma insert_aliases_distinct:
  "distinct (map fst m) \<Longrightarrow> distinct (map fst (insert_aliases m names link))"
  by (induction m names link rule: insert_aliases.induct) (simp_all add: distinct_update)

lemma load_entries_set:
  "(k, l) \<in> set (load_entries m es) \<Longrightarrow>
     (k, l) \<in> set m \<or> (\<exists>(names, valid, t) \<in> set es. l = sc valid t \<and> k \<in> set names)"
  by (induction m es rule: load_entries.induct) (auto dest!: insert_aliases_set)

lemma load_entries_distinct: "distinct (map fst m) \<Longrightarrow> distinct (map fst (load_entries m es))"
  by (induction m es rule: load_entries.induct) (simp_all add: insert_aliases_distinct)


text \<open>The entries behind each game's links.\<close>

fun link_entries :: "Game \<Rightarrow> (rstr list \<times> ScopeId list \<times> ScopeId) list" where
  "link_entries Stellaris = stellaris_entries_1 @ stellaris_entries_2 @ stellaris_entries_3"
| "link_entries Eu4 = eu4_entries_1 @ eu4_entries_2"
| "link_entries Ck2 = ck2_entries_1 @ ck2_entries_2"
| "link_entries Ck3 = ck3_entries_1 @ ck3_entries_2"
| "link_entries Vic2 = vic2_entries"
| "link_entries Ir = ir_entries_1 @ ir_entries_2"
| "link_entries _ = []"

lemma load_scope_links_entries: "load_scope_links game m = load_entries m (link_entries game)"
  by (cases game) (simp_all add: load_stellaris_links_def load_eu4_links_def load_ck2_links_def
      load_ck3_links_def load_vic2_links_def load_ir_links_def load_vic3_links_def load_eu5_links_def)

definition table_ids :: "Game \<Rightarrow> ScopeId list" where
  "table_ids game = map sd_id (scope_defs game)"

definition table_closed :: "Game \<Rightarrow> bool" where
  "table_closed game \<longleftrightarrow>
     list_all (\<lambda>d. list_all (\<lambda>p. p \<in> set (table_ids game)) (sd_subscope_of d)) (scope_defs game)
     \<and> list_all (\<lambda>(names, valid, t). list_all (\<lambda>v. v \<in> set (table_ids game)) valid
         \<and> t \<in> set (table_ids game)) (link_entries game)"

lemmas scope_tables = STELLARIS_SCOPES_def EU4_SCOPES_def CK2_SCOPES_def CK3_SCOPES_def VIC2_SCOPES_def
  VIC3_SCOPES_def IR_SCOPES_def EU5_SCOPES_def CUSTOM_SCOPES_def

lemmas link_tables = stellaris_entries_1_def stellaris_entries_2_def stellaris_entries_3_def
  eu4_entries_1_def eu4_entries_2_def ck2_entries_1_def ck2_entries_2_def ck3_entries_1_def
  ck3_entries_2_def vic2_entries_def ir_entries_1_def ir_entries_2_def

lemma tables_closed: "table_closed game"
  by (cases game) (simp_all add: table_closed_def table_ids_def scope_tables link_tables scope_def_def)

lemma from_hardcoded_ids: "fst ` set (by_id (from_hardcoded game)) = set (table_ids game)"
  by (simp add: from_hardcoded_def Let_def hardcoded_ids table_ids_def registry_default_def)

lemma from_hardcoded_wf: "registry_wf (from_hardcoded game)"
proof -
  let ?R = "from_hardcoded game" and ?r = "foldl hardcoded_step registry_default (scope_defs game)"
  have ids: "scope_known ?R i \<longleftrightarrow> i = SCOPE_ANY \<or> i = SCOPE_INVALID \<or> i \<in> set (table_ids game)" for i
    using from_hardcoded_ids by (simp add: scope_known_def)
  have closed: "table_closed game" by (rule tables_closed)
  have names: "scope_known ?R i \<and> to_ascii_lowercase k = k" if "(k, i) \<in> set (by_name ?r)" for k i
    using hardcoded_names [OF that] by (auto simp: ids table_ids_def registry_default_def)
  have parents: "list_all (scope_known ?R) (so_subscope_of d)" if "(i, d) \<in> set (by_id ?r)" for i d
  proof -
    have "set (by_id ?r) \<subseteq> (\<lambda>d. (sd_id d, owned_def d)) ` set (scope_defs game)"
      using hardcoded_defs [of registry_default "scope_defs game"] by (simp add: registry_default_def)
    with that obtain e where "e \<in> set (scope_defs game)" "d = owned_def e" by auto
    with closed show ?thesis by (auto simp: table_closed_def list_all_iff ids)
  qed
  have lk: "link_known ?R l" if kl: "(k, l) \<in> set (load_entries [] (link_entries game))" for k l
  proof -
    obtain ns v t where "(ns, v, t) \<in> set (link_entries game)" "l = sc v t"
      using load_entries_set [OF kl] by auto
    with closed show ?thesis
      by (fastforce simp: table_closed_def list_all_iff link_known_def sc_def ids)
  qed
  have "distinct (map fst (by_id ?R))" "distinct (map fst (links ?R))"
    by (simp_all add: from_hardcoded_def Let_def hardcoded_distinct load_scope_links_entries
        load_entries_distinct registry_default_def)
  moreover have "by_name ?R = by_name ?r" "by_id ?R = by_id ?r" "prefix_links ?R = []"
    "links ?R = load_entries [] (link_entries game)"
    by (simp_all add: from_hardcoded_def Let_def load_scope_links_entries registry_default_def)
  ultimately show ?thesis
    using names parents lk by (fastforce simp: registry_wf_def names_lower_def list_all_iff)
qed

section \<open>Backfilling keeps registries well formed\<close>

text \<open>The id map of a backfill sends hardcoded ids to ids the registry knows.\<close>

definition id_map_ok :: "ScopeRegistry \<Rightarrow> id_map \<Rightarrow> bool" where
  "id_map_ok reg m \<longleftrightarrow> (\<forall>(h, i) \<in> set m. scope_known reg i)"

lemma id_map_ok_mono:
  "id_map_ok reg m \<Longrightarrow> fst ` set (by_id reg) \<subseteq> fst ` set (by_id reg') \<Longrightarrow> id_map_ok reg' m"
  using scope_known_mono [of reg _ reg'] by (auto simp: id_map_ok_def)

lemma id_map_ok_update:
  "id_map_ok reg m \<Longrightarrow> scope_known reg i \<Longrightarrow> id_map_ok reg (AList.update h i m)"
  unfolding id_map_ok_def using set_update_subset [of h i m] by fastforce

lemma find_map_Some: "find_map f xs = Some y \<Longrightarrow> \<exists>x \<in> set xs. f x = Some y"
  by (induction xs) (auto split: option.splits)

lemma backfill_scope_wf:
  assumes "registry_wf reg" "id_map_ok reg m" "backfill_scope (reg, n, m) e = (reg', n', m')"
  shows "registry_wf reg' \<and> id_map_ok reg' m' \<and> fst ` set m' = insert (fst e) (fst ` set m)
    \<and> fst ` set (by_id reg) \<subseteq> fst ` set (by_id reg')"
proof -
  obtain hid hdef where e: "e = (hid, hdef)" by force
  show ?thesis
  proof (cases "find_map (id_of reg) (so_name hdef # so_aliases hdef)")
    case (Some i)
    have "scope_known reg i" using find_map_Some [OF Some] id_of_known [OF assms(1)] by auto
    moreover have "reg' = reg" "m' = AList.update hid i m" using assms(3) e Some
      by (simp_all add: backfill_scope_def del: find_map.simps)
    moreover have "id_map_ok reg (AList.update hid i m)" if "scope_known reg i"
      using id_map_ok_update [OF assms(2) that] .
    ultimately show ?thesis using assms(1) e by simp
  next
    case None
    let ?r = "reg\<lparr>by_name := insert_names (so_name hdef) (so_aliases hdef) n (by_name reg),
       by_id := AList.update n \<lparr>so_name = so_name hdef, so_aliases = so_aliases hdef, so_subscope_of = []\<rparr> (by_id reg)\<rparr>"
    have r: "reg' = ?r" "m' = AList.update hid n m"
      using assms(3) e None by (simp_all add: backfill_scope_def del: find_map.simps)
    have sub: "fst ` set (by_id reg) \<subseteq> fst ` set (by_id ?r)" by auto
    have "scope_known ?r n" by (simp add: scope_known_def)
    then have "id_map_ok ?r m'" using id_map_ok_update [OF id_map_ok_mono [OF assms(2) sub]] r(2) by simp
    then show ?thesis using registry_wf_add_scope [OF assms(1)] r sub e by simp
  qed
qed

lemma backfill_scopes_wf:
  assumes "registry_wf reg" "id_map_ok reg m" "foldl backfill_scope (reg, n, m) es = (reg', n', m')"
  shows "registry_wf reg' \<and> id_map_ok reg' m' \<and> fst ` set m' = fst ` set es \<union> fst ` set m
    \<and> fst ` set (by_id reg) \<subseteq> fst ` set (by_id reg')"
  using assms
proof (induction es arbitrary: reg n m)
  case (Cons e es)
  obtain r1 n1 m1 where s: "backfill_scope (reg, n, m) e = (r1, n1, m1)" by (metis prod.exhaust)
  note a = backfill_scope_wf [OF Cons.prems(1,2) s]
  have b: "registry_wf reg' \<and> id_map_ok reg' m' \<and> fst ` set m' = fst ` set es \<union> fst ` set m1
      \<and> fst ` set (by_id r1) \<subseteq> fst ` set (by_id reg')"
    by (rule Cons.IH [of r1 m1 n1]) (use a Cons.prems(3) s in simp_all)
  have "fst ` set (by_id reg) \<subseteq> fst ` set (by_id reg')" using a b by (meson subset_trans)
  with a b show ?case by simp
qed auto

lemma remap_known:
  assumes "id_map_ok reg m" "i = SCOPE_ANY \<or> i = SCOPE_INVALID \<or> i \<in> fst ` set m"
  shows "scope_known reg (remap m i)"
proof (cases "i = SCOPE_ANY \<or> i = SCOPE_INVALID")
  case True
  then show ?thesis by (auto simp: remap_def scope_known_def)
next
  case False
  then have "map_of m i \<noteq> None" using assms(2) by (simp add: map_of_eq_None_iff)
  then obtain j where "map_of m i = Some j" by auto
  with False assms(1) show ?thesis by (auto simp: remap_def id_map_ok_def dest: map_of_SomeD)
qed

text \<open>What the later passes keep: well-formedness, and the set of defined ids.\<close>

definition backfill_inv :: "id_map \<Rightarrow> ScopeRegistry \<Rightarrow> bool" where
  "backfill_inv m reg \<longleftrightarrow> registry_wf reg \<and> id_map_ok reg m"

lemma set_parents_ids: "fst ` set (by_id (set_parents i ps reg)) = fst ` set (by_id reg)"
  by (auto simp: set_parents_def dest: map_of_SomeD split: option.split) (force dest: map_of_SomeD)

lemma backfill_parents_inv:
  assumes "backfill_inv m reg" "\<forall>p \<in> set (so_subscope_of (snd e)). p = SCOPE_ANY \<or> p = SCOPE_INVALID \<or> p \<in> fst ` set m"
  shows "backfill_inv m (backfill_parents m reg e)"
proof -
  obtain hid hdef where e: "e = (hid, hdef)" by force
  have "list_all (scope_known reg) (map (remap m) (so_subscope_of hdef))"
    using assms remap_known [of reg m] e by (auto simp: backfill_inv_def list_all_iff)
  then have "backfill_inv m (set_parents rid (map (remap m) (so_subscope_of hdef)) reg)" for rid
    using assms(1) set_parents_wf id_map_ok_mono [of reg m] set_parents_ids by (auto simp: backfill_inv_def)
  then show ?thesis using assms(1) e by (auto simp: backfill_parents_def split: option.split)
qed

lemma remap_link_known:
  assumes "id_map_ok reg m" "link_known hc l" "fst ` set (by_id hc) \<subseteq> fst ` set m"
  shows "link_known reg (remap_link m l)"
proof -
  have "scope_known reg (remap m i)" if "scope_known hc i" for i
  proof -
    have "i = SCOPE_ANY \<or> i = SCOPE_INVALID \<or> i \<in> fst ` set m"
      using that assms(3) unfolding scope_known_def by blast
    then show ?thesis by (rule remap_known [OF assms(1)])
  qed
  then show ?thesis using assms(2) by (auto simp: link_known_def remap_link_def list_all_iff split: option.splits)
qed

lemma backfill_link_inv:
  assumes "backfill_inv m reg" "link_known hc (snd e)" "fst ` set (by_id hc) \<subseteq> fst ` set m"
  shows "backfill_inv m (backfill_link m reg e)" "backfill_inv m (backfill_prefix_link m reg e)"
proof -
  obtain k l where e: "e = (k, l)" by force
  have k: "link_known reg (remap_link m l)"
    using remap_link_known assms e by (auto simp: backfill_inv_def)
  show "backfill_inv m (backfill_link m reg e)"
    using assms(1) k registry_wf_link(1) e id_map_ok_mono [of reg m]
    by (auto simp: backfill_inv_def backfill_link_def)
  show "backfill_inv m (backfill_prefix_link m reg e)"
    using assms(1) k registry_wf_link(2) e id_map_ok_mono [of reg m]
    by (auto simp: backfill_inv_def backfill_prefix_link_def)
qed

lemma backfill_hardcoded_wf:
  assumes "order_ok H" "registry_wf reg"
  shows "registry_wf (backfill_hardcoded H reg game n)"
proof (cases "registry_is_empty (from_hardcoded game)")
  case True
  then show ?thesis using assms(2) by (simp add: backfill_hardcoded_def Let_def)
next
  case False
  let ?hc = "from_hardcoded game"
  have hc: "registry_wf ?hc" by (rule from_hardcoded_wf)
  have od: "set (ord_defs H (by_id ?hc)) = set (by_id ?hc)" "set (ord_links H (links ?hc)) = set (links ?hc)"
    using assms(1) by (simp_all add: order_ok_def)
  obtain r1 n1 m where f: "foldl backfill_scope (reg, n, []) (ord_defs H (by_id ?hc)) = (r1, n1, m)"
    by (metis prod.exhaust)
  have "id_map_ok reg []" by (simp add: id_map_ok_def)
  note s = backfill_scopes_wf [OF assms(2) this f]
  have ids: "fst ` set (by_id ?hc) \<subseteq> fst ` set m" using s od(1) by simp
  have 1: "backfill_inv m r1" using s by (simp add: backfill_inv_def)
  have 2: "backfill_inv m (foldl (backfill_parents m) r1 (ord_defs H (by_id ?hc)))"
  proof (rule foldl_invariant [where I = "backfill_inv m", OF 1])
    fix r e assume e: "e \<in> set (ord_defs H (by_id ?hc))" and r: "backfill_inv m r"
    have "list_all (scope_known ?hc) (so_subscope_of (snd e))"
      using hc e od(1) by (auto simp: registry_wf_def)
    then have "\<forall>p \<in> set (so_subscope_of (snd e)). p = SCOPE_ANY \<or> p = SCOPE_INVALID \<or> p \<in> fst ` set m"
      using ids unfolding scope_known_def list_all_iff by blast
    with r show "backfill_inv m (backfill_parents m r e)" by (rule backfill_parents_inv)
  qed
  have lk: "link_known ?hc (snd e)" if "e \<in> set (links ?hc) \<or> e \<in> set (prefix_links ?hc)" for e
    using hc that by (auto simp: registry_wf_def)
  let ?r2 = "foldl (backfill_parents m) r1 (ord_defs H (by_id ?hc))"
  have 3: "backfill_inv m (foldl (backfill_link m) ?r2 (ord_links H (links ?hc)))"
    by (rule foldl_invariant [where I = "backfill_inv m", OF 2])
      (use backfill_link_inv(1) [OF _ lk ids] od(2) in blast)
  have "backfill_inv m (foldl (backfill_prefix_link m)
      (foldl (backfill_link m) ?r2 (ord_links H (links ?hc))) (prefix_links ?hc))"
    by (rule foldl_invariant [where I = "backfill_inv m", OF 3])
      (use backfill_link_inv(2) [OF _ lk ids] in blast)
  then show ?thesis using False f by (simp add: backfill_hardcoded_def Let_def backfill_inv_def)
qed

lemma assign_scopes_wf: "registry_wf (fst st) \<Longrightarrow> registry_wf (fst (foldl assign_scope st sis))"
  by (rule foldl_invariant [where I = "\<lambda>s. registry_wf (fst s)"]) (auto intro: assign_scope_wf)

lemma from_config_wf:
  assumes "order_ok H"
  shows "registry_wf (from_config H sis lis game)"
proof (cases "sis = []")
  case True
  then show ?thesis by (simp add: from_config_def from_hardcoded_wf)
next
  case False
  obtain r1 n1 where a: "foldl assign_scope (registry_default, 100) sis = (r1, n1)" by force
  have 1: "registry_wf r1" using assign_scopes_wf [of "(registry_default, 100)" sis] a by simp
  have 2: "registry_wf (foldl resolve_parents r1 sis)"
    using 1 by (rule foldl_wf) (rule resolve_parents_wf)
  let ?r3 = "foldl add_link (foldl resolve_parents r1 sis) lis"
  have 3: "registry_wf ?r3" using 2 by (rule foldl_wf) (rule add_link_wf)
  have "registry_wf (foldl add_iterators ?r3 (scope_aliases (ord_defs H (by_id ?r3))))"
    using add_iterators_fold_wf [OF 3] scope_aliases_known [OF assms] by blast
  then show ?thesis using backfill_hardcoded_wf [OF assms] False a by (simp add: from_config_def Let_def)
qed

section \<open>Ids of configured scopes\<close>

definition is_sentinel_input :: "ScopeInput \<Rightarrow> bool" where
  "is_sentinel_input si \<longleftrightarrow> list_ex (\<lambda>a. eq_ignore_ascii_case a ''invalid'' \<or> eq_ignore_ascii_case a ''any'')
     (si_name si # si_aliases si)"

lemma assign_scope_plain:
  assumes "\<not> is_sentinel_input si" "n \<noteq> 0" "n \<noteq> 1"
  shows "assign_scope (reg, n) si = (reg\<lparr>by_name := insert_names (si_name si) (si_aliases si) n (by_name reg),
     by_id := AList.update n \<lparr>so_name = si_name si, so_aliases = si_aliases si, so_subscope_of = []\<rparr> (by_id reg)\<rparr>, n + 1)"
  using assms by (auto simp: assign_scope_def Let_def is_sentinel_input_def list_ex_iff SCOPE_ANY_def SCOPE_INVALID_def)

lemma assign_scope_sentinel:
  assumes "is_sentinel_input si"
  shows "by_id (fst (assign_scope (reg, n) si)) = by_id reg \<and> snd (assign_scope (reg, n) si) = n"
  using assms by (auto simp: assign_scope_def Let_def is_sentinel_input_def list_ex_iff SCOPE_ANY_def SCOPE_INVALID_def
      split: if_splits)

definition assigned :: "ScopeInput list \<Rightarrow> (ScopeId \<times> ScopeDefOwned) list" where
  "assigned sis = map (\<lambda>(k, si). (of_nat (100 + k), \<lparr>so_name = si_name si, so_aliases = si_aliases si,
     so_subscope_of = []\<rparr>)) (enumerate 0 (filter (\<lambda>si. \<not> is_sentinel_input si) sis))"

lemma update_new: "k \<notin> fst ` set m \<Longrightarrow> AList.update k v m = m @ [(k, v)]"
  by (induction m) auto

lemma assign_scopes_ids:
  assumes "length sis < 2 ^ 32 - 100"
  shows "by_id (fst (foldl assign_scope (registry_default, 100) sis)) = assigned sis
    \<and> snd (foldl assign_scope (registry_default, 100) sis)
      = of_nat (100 + length (filter (\<lambda>si. \<not> is_sentinel_input si) sis))"
  using assms
proof (induction sis rule: rev_induct)
  case Nil
  then show ?case by (simp add: assigned_def registry_default_def)
next
  case (snoc si sis)
  let ?n = "length (filter (\<lambda>si. \<not> is_sentinel_input si) sis)"
  obtain r n where f: "foldl assign_scope (registry_default, 100) sis = (r, n)" by force
  have IH: "by_id r = assigned sis" "n = of_nat (100 + ?n)" using snoc f by auto
  have le: "?n \<le> length sis" by (rule length_filter_le)
  show ?case
  proof (cases "is_sentinel_input si")
    case True
    then show ?thesis
      using f IH assign_scope_sentinel [OF True, of r n] by (simp add: assigned_def)
  next
    case False
    have b: "100 + ?n < 2 ^ 32" using le snoc.prems by (simp del: length_filter_le)
    have un: "unat n = 100 + ?n" unfolding IH(2) by (rule unat_of_nat_u32 [OF b])
    then have "n \<noteq> 0" "n \<noteq> 1" by auto
    note step = assign_scope_plain [OF False this, of r]
    have "n \<notin> fst ` set (by_id r)"
    proof
      assume "n \<in> fst ` set (by_id r)"
      then obtain k where k: "k < ?n" "n = of_nat (100 + k)"
        using IH(1) by (auto simp: assigned_def in_set_enumerate_eq simp del: of_nat_add)
      then have "unat n = 100 + k" using b by (simp only: k(2)) (rule unat_of_nat_u32, simp)
      with un k(1) show False by simp
    qed
    then show ?thesis
      using f IH step False by (simp add: update_new assigned_def enumerate_append_eq)
  qed
qed

section \<open>Backfilling overrides nothing\<close>

text \<open>Names without surrounding white space and not spelled like a sentinel.\<close>

definition plain_name :: "rstr \<Rightarrow> bool" where
  "plain_name n \<longleftrightarrow> trim n = n \<and> to_ascii_lowercase n \<notin> {''any'', ''all'', ''none'', ''invalid''}"

lemma id_of_plain:
  "names_lower reg \<Longrightarrow> plain_name n \<Longrightarrow> id_of reg n = map_of (by_name reg) (to_ascii_lowercase n)"
  by (simp add: id_of_eq_spec id_of_spec_def plain_name_def Let_def)

lemma map_of_insert_names:
  "map_of (insert_names name aliases i m) k =
     (if k \<in> to_ascii_lowercase ` set (name # aliases) then Some i else map_of m k)"
proof -
  have "map_of (foldl (\<lambda>m a. AList.update (to_ascii_lowercase a) i m) m0 aliases) k =
      (if k \<in> to_ascii_lowercase ` set aliases then Some i else map_of m0 k)" for m0
    by (induction aliases arbitrary: m0) auto
  then show ?thesis by (auto simp: insert_names_def)
qed

lemma find_map_None: "find_map f xs = None \<longleftrightarrow> (\<forall>x \<in> set xs. f x = None)"
  by (induction xs) (auto split: option.splits)

definition def_names :: "ScopeDefOwned \<Rightarrow> rstr list" where
  "def_names d = so_name d # so_aliases d"

text \<open>\<open>reg'\<close> resolves every name \<open>reg\<close> resolves, to the same id, and keeps its links.\<close>

definition registry_extends :: "ScopeRegistry \<Rightarrow> ScopeRegistry \<Rightarrow> bool" where
  "registry_extends reg reg' \<longleftrightarrow> map_of (by_name reg) \<subseteq>\<^sub>m map_of (by_name reg')
     \<and> map_of (links reg) \<subseteq>\<^sub>m map_of (links reg') \<and> prefix (prefix_links reg) (prefix_links reg')"

lemma registry_extends_refl [simp]: "registry_extends reg reg"
  by (simp add: registry_extends_def)

lemma registry_extends_trans: "registry_extends a b \<Longrightarrow> registry_extends b c \<Longrightarrow> registry_extends a c"
  by (auto simp: registry_extends_def intro: map_le_trans prefix_order.trans)

lemma backfill_scope_extends:
  assumes "registry_wf reg" "list_all plain_name (def_names (snd e))" "backfill_scope (reg, n, m) e = (reg', n', m')"
  shows "registry_extends reg reg'"
proof (cases "find_map (id_of reg) (def_names (snd e))")
  case (Some i)
  then show ?thesis using assms(3) by (cases e) (simp add: backfill_scope_def def_names_def del: find_map.simps)
next
  case None
  let ?d = "snd e"
  have fresh: "map_of (by_name reg) (to_ascii_lowercase a) = None" if "a \<in> set (def_names ?d)" for a
  proof -
    have "id_of reg a = None" using None that by (simp add: find_map_None)
    moreover have "plain_name a" using assms(2) that by (simp add: list_all_iff)
    ultimately show ?thesis using id_of_plain assms(1) by (simp add: registry_wf_def)
  qed
  have "map_of (by_name reg) \<subseteq>\<^sub>m map_of (insert_names (so_name ?d) (so_aliases ?d) n (by_name reg))"
    using fresh by (auto simp: map_le_def map_of_insert_names def_names_def)
  then show ?thesis
    using assms(3) None
    by (cases e) (auto simp: backfill_scope_def def_names_def registry_extends_def simp del: find_map.simps)
qed

lemma set_parents_extends: "registry_extends reg (set_parents i ps reg)"
  by (simp add: set_parents_def registry_extends_def split: option.split)

lemma backfill_parents_extends: "registry_extends reg (backfill_parents m reg e)"
  by (auto simp: backfill_parents_def set_parents_extends split: prod.split option.split)

lemma backfill_link_extends: "registry_extends reg (backfill_link m reg e)"
  by (auto simp: backfill_link_def registry_extends_def map_le_def split: prod.split)

lemma backfill_prefix_link_extends: "registry_extends reg (backfill_prefix_link m reg e)"
  by (auto simp: backfill_prefix_link_def registry_extends_def split: prod.split)

lemma foldl_extends: "(\<And>r x. registry_extends r (f r x)) \<Longrightarrow> registry_extends reg (foldl f reg xs)"
  by (rule foldl_invariant [where I = "registry_extends reg"]) (auto intro: registry_extends_trans)

lemma backfill_scopes_extends:
  assumes "registry_wf reg" "id_map_ok reg m" "\<forall>e \<in> set es. list_all plain_name (def_names (snd e))"
    and "foldl backfill_scope (reg, n, m) es = (reg', n', m')"
  shows "registry_extends reg reg'"
  using assms
proof (induction es arbitrary: reg n m)
  case (Cons e es)
  obtain r1 n1 m1 where s: "backfill_scope (reg, n, m) e = (r1, n1, m1)" by (metis prod.exhaust)
  have wf: "registry_wf r1" "id_map_ok r1 m1" using backfill_scope_wf [OF Cons.prems(1,2) s] by auto
  have "registry_extends reg r1" using backfill_scope_extends [OF Cons.prems(1) _ s] Cons.prems(3) by simp
  moreover have "registry_extends r1 reg'"
    by (rule Cons.IH [OF wf, of n1]) (use Cons.prems s in simp_all)
  ultimately show ?case by (rule registry_extends_trans)
qed simp

text \<open>A name that starts and ends with an ASCII letter or digit is left alone by \<open>trim\<close>.\<close>

lemma whitespace_bytes:
  "is_whitespace c \<Longrightarrow> c \<noteq> [] \<and> \<not> is_alnum_byte (hd c) \<and> \<not> is_alnum_byte (last c)"
proof -
  have "list_all (\<lambda>c. c \<noteq> [] \<and> \<not> is_alnum_byte (hd c) \<and> \<not> is_alnum_byte (last c)) whitespace_chars"
    by (simp add: whitespace_chars_def is_alnum_byte_def is_upper_byte_def is_lower_byte_def is_digit_byte_def)
  then show "is_whitespace c \<Longrightarrow> ?thesis" by (auto simp: is_whitespace_def list_all_iff)
qed

lemma hd_chars: "s \<noteq> [] \<Longrightarrow> hd (hd (chars s)) = hd s"
  by (cases s) auto

lemma last_chars: "s \<noteq> [] \<Longrightarrow> last (last (chars s)) = last s"
proof -
  assume "s \<noteq> []"
  then have ne: "chars s \<noteq> []" by simp
  then have "last (chars s) \<noteq> []" using chars_nonempty [of "last (chars s)" s] by simp
  moreover have "s = concat (butlast (chars s)) @ last (chars s)"
    using concat_append [of "butlast (chars s)" "[last (chars s)]"] append_butlast_last_id [OF ne] by simp
  ultimately show ?thesis by (metis last_appendR)
qed

lemma trim_alnum:
  assumes "n \<noteq> []" "is_alnum_byte (hd n)" "is_alnum_byte (last n)"
  shows "trim n = n"
proof -
  have ne: "chars n \<noteq> []" using assms(1) by simp
  have h: "\<not> is_whitespace (hd (chars n))" and l: "\<not> is_whitespace (last (chars n))"
    using whitespace_bytes hd_chars [OF assms(1)] last_chars [OF assms(1)] assms(2,3) by metis+
  have "dropWhile is_whitespace (chars n) = chars n" using ne h by (cases "chars n") auto
  moreover have "dropWhile is_whitespace (rev (chars n)) = rev (chars n)"
    using ne l by (cases "chars n" rule: rev_cases) auto
  ultimately show ?thesis by (simp add: trim_def trim_start_def trim_end_def)
qed

definition simple_name :: "rstr \<Rightarrow> bool" where
  "simple_name n \<longleftrightarrow> n \<noteq> [] \<and> is_alnum_byte (hd n) \<and> is_alnum_byte (last n)
     \<and> (length n \<in> {3, 4, 7} \<longrightarrow> to_ascii_lowercase n \<notin> {''any'', ''all'', ''none'', ''invalid''})"

lemma simple_name_plain: "simple_name n \<Longrightarrow> plain_name n"
proof -
  assume n: "simple_name n"
  have "to_ascii_lowercase n \<notin> {''any'', ''all'', ''none'', ''invalid''}"
  proof
    assume m: "to_ascii_lowercase n \<in> {''any'', ''all'', ''none'', ''invalid''}"
    then have "length (to_ascii_lowercase n) \<in> {3, 4, 7}" by (elim insertE emptyE) (simp_all del: length_to_ascii_lowercase)
    with n m show False by (auto simp: simple_name_def)
  qed
  with n show ?thesis by (simp add: plain_name_def simple_name_def trim_alnum)
qed

lemma tables_simple:
  "list_all (\<lambda>d. list_all simple_name (sd_name d # sd_aliases d)) (scope_defs game)"
  by (cases game) (simp_all add: scope_tables scope_def_def simple_name_def is_alnum_byte_def is_upper_byte_def
      is_lower_byte_def is_digit_byte_def to_ascii_lowercase_def lower_byte_def)

end
