(* ===== verification/Scope_Engine.thy ===== *)
theory Scope_Engine
  imports Scope_Registry
begin

text \<open>
  The scope-transition machine (\<open>crates/game/src/scope_engine/engine.rs\<close>). A context is a
  record; every \<open>&mut self\<close> method returns the new context. \<open>scopes\<close> is the code's \<open>Vec\<close>,
  its last element the current scope. The registry behind the \<open>Arc\<close> is never written.
\<close>

section \<open>State\<close>

datatype ScopeResult =
    NewScope ScopeId "rstr list"
  | WrongScope rstr ScopeId "ScopeId list"
  | VarFound
  | VarNotFound rstr
  | ValueFound
  | NotFound
  | AnyScope

record SavedContext =
  saved_root :: ScopeId
  saved_scopes :: "ScopeId list"
  saved_from :: "ScopeId list"

record ScopeContext =
  ctx_root :: ScopeId
  scopes :: "ScopeId list"
  ctx_from :: "ScopeId list"
  registry :: ScopeRegistry

definition context_from_registry :: "ScopeRegistry \<Rightarrow> ScopeId \<Rightarrow> ScopeContext" where
  "context_from_registry reg root = \<lparr>ctx_root = root, scopes = [root], ctx_from = [], registry = reg\<rparr>"

definition context_new :: "Game \<Rightarrow> ScopeId \<Rightarrow> ScopeContext" where
  "context_new game root = context_from_registry (from_hardcoded game) root"

text \<open>\<open>scopes.last().copied().unwrap_or(self.root)\<close>.\<close>

definition current :: "ScopeContext \<Rightarrow> ScopeId" where
  "current ctx = (if scopes ctx = [] then ctx_root ctx else last (scopes ctx))"

definition scope_depth :: "ScopeContext \<Rightarrow> nat" where
  "scope_depth ctx = length (scopes ctx)"

definition push_scope :: "ScopeId \<Rightarrow> ScopeContext \<Rightarrow> ScopeContext" where
  "push_scope s ctx = ctx\<lparr>scopes := scopes ctx @ [s]\<rparr>"

definition get_from :: "nat \<Rightarrow> ScopeContext \<Rightarrow> ScopeId" where
  "get_from i ctx = (if i \<ge> 1 \<and> length (ctx_from ctx) \<ge> i then ctx_from ctx ! (i - 1) else SCOPE_ANY)"

definition save_context :: "ScopeContext \<Rightarrow> SavedContext" where
  "save_context ctx = \<lparr>saved_root = ctx_root ctx, saved_scopes = scopes ctx, saved_from = ctx_from ctx\<rparr>"

definition restore_context :: "SavedContext \<Rightarrow> ScopeContext \<Rightarrow> ScopeContext" where
  "restore_context saved ctx =
     ctx\<lparr>ctx_root := saved_root saved, scopes := saved_scopes saved, ctx_from := saved_from saved\<rparr>"

section \<open>Replacing scopes\<close>

definition resolve_scope_name :: "ScopeRegistry \<Rightarrow> rstr \<Rightarrow> ScopeId option" where
  "resolve_scope_name reg name =
     (case id_of reg name of Some i \<Rightarrow> Some i | None \<Rightarrow> parse_u32 (trim name))"

definition apply_replace_scope ::
  "rstr option \<Rightarrow> rstr option \<Rightarrow> rstr list \<Rightarrow> rstr list \<Rightarrow> ScopeContext \<Rightarrow> ScopeContext" where
  "apply_replace_scope root this froms prevs ctx =
     (let resolve = resolve_scope_name (registry ctx);
          root_id = Option.bind root resolve;
          this_id = Option.bind this resolve;
          from_ids = List.map_filter resolve froms;
          prev_ids = List.map_filter resolve prevs;
          ctx1 = (case root_id of Some r \<Rightarrow> ctx\<lparr>ctx_root := r\<rparr> | None \<Rightarrow> ctx);
          ctx2 = (case this_id of
                    Some t \<Rightarrow> if scopes ctx1 = [] then ctx1
                              else ctx1\<lparr>scopes := butlast (scopes ctx1) @ [t]\<rparr>
                  | None \<Rightarrow> ctx1);
          ctx3 = (if from_ids \<noteq> [] then ctx2\<lparr>ctx_from := from_ids\<rparr> else ctx2)
      in if prev_ids \<noteq> [] then ctx3\<lparr>scopes := prev_ids @ [current ctx3]\<rparr> else ctx3)"

section \<open>Meta keywords\<close>

definition pop_scope :: "ScopeContext \<Rightarrow> ScopeContext" where
  "pop_scope ctx = (if length (scopes ctx) > 1 then ctx\<lparr>scopes := butlast (scopes ctx)\<rparr> else ctx)"

definition apply_prev :: "nat \<Rightarrow> ScopeContext \<Rightarrow> ScopeResult \<times> ScopeContext" where
  "apply_prev hops ctx =
     (let ctx' = (pop_scope ^^ hops) ctx in (NewScope (current ctx') [], ctx'))"

definition apply_from :: "nat \<Rightarrow> ScopeContext \<Rightarrow> ScopeResult \<times> ScopeContext" where
  "apply_from i ctx = (let s = get_from i ctx in (NewScope s [], push_scope s ctx))"

definition pass_through_keywords :: "rstr list" where
  "pass_through_keywords =
     [''and'', ''or'', ''not'', ''nor'', ''nand'', ''if'', ''else'', ''else_if'', ''hidden_effect'',
      ''hidden_trigger'', ''limit'', ''trigger_if'', ''trigger_else'', ''trigger_else_if'']"

definition resolve_meta_keyword :: "rstr \<Rightarrow> ScopeContext \<Rightarrow> (ScopeResult \<times> ScopeContext) option" where
  "resolve_meta_keyword lower ctx =
     (if lower \<in> {''this'', ''self''} then Some (NewScope (current ctx) [], push_scope (current ctx) ctx)
      else if lower = ''root'' then Some (NewScope (ctx_root ctx) [], push_scope (ctx_root ctx) ctx)
      else if lower = ''prev'' then Some (apply_prev 1 ctx)
      else if lower \<in> {''prevprev'', ''prev_prev''} then Some (apply_prev 2 ctx)
      else if lower \<in> {''prevprevprev'', ''prev_prev_prev''} then Some (apply_prev 3 ctx)
      else if lower \<in> {''prevprevprevprev'', ''prev_prev_prev_prev''} then Some (apply_prev 4 ctx)
      else if lower = ''from'' then Some (apply_from 1 ctx)
      else if lower = ''fromfrom'' then Some (apply_from 2 ctx)
      else if lower = ''fromfromfrom'' then Some (apply_from 3 ctx)
      else if lower = ''fromfromfromfrom'' then Some (apply_from 4 ctx)
      else if lower = ''root_from'' then Some (apply_from 1 (push_scope (ctx_root ctx) ctx))
      else if lower = ''root_fromfrom'' then Some (apply_from 2 (push_scope (ctx_root ctx) ctx))
      else if lower = ''root_fromfromfrom'' then Some (apply_from 3 (push_scope (ctx_root ctx) ctx))
      else if lower = ''root_fromfromfromfrom'' then Some (apply_from 4 (push_scope (ctx_root ctx) ctx))
      else if lower \<in> set pass_through_keywords then Some (NewScope (current ctx) [], ctx)
      else None)"

section \<open>Changing scope\<close>

definition lower_key :: "rstr \<Rightarrow> rstr" where
  "lower_key key = (if list_ex is_upper_byte key then to_ascii_lowercase key else key)"

definition link_valid :: "ScopeRegistry \<Rightarrow> ScopeLink \<Rightarrow> ScopeId \<Rightarrow> bool" where
  "link_valid reg link cur \<longleftrightarrow>
     cur = SCOPE_ANY \<or> valid_scopes link = [] \<or> list_ex (is_subscope_or_eq reg cur) (valid_scopes link)"

definition resolve_single_with_lower ::
  "rstr \<Rightarrow> rstr \<Rightarrow> ScopeContext \<Rightarrow> ScopeResult \<times> ScopeContext" where
  "resolve_single_with_lower key lower ctx =
     (if starts_with lower ''@'' then (VarFound, push_scope SCOPE_ANY ctx)
      else case resolve_meta_keyword lower ctx of
             Some r \<Rightarrow> r
           | None \<Rightarrow>
               (case map_of (links (registry ctx)) lower of
                  Some link \<Rightarrow>
                    (if link_valid (registry ctx) link (current ctx)
                     then (case target link of
                             Some t \<Rightarrow> (NewScope t (ignore_keys link), push_scope t ctx)
                           | None \<Rightarrow> (ValueFound, ctx))
                     else (WrongScope key (current ctx) (valid_scopes link), ctx))
                | None \<Rightarrow> (NotFound, ctx)))"

definition resolve_single :: "rstr \<Rightarrow> ScopeContext \<Rightarrow> ScopeResult \<times> ScopeContext" where
  "resolve_single key ctx = resolve_single_with_lower key (lower_key key) ctx"

text \<open>The fold over the segments of a dotted key.\<close>

fun dotted_loop :: "rstr list \<Rightarrow> ScopeResult \<Rightarrow> ScopeContext \<Rightarrow> ScopeResult \<times> ScopeContext" where
  "dotted_loop [] last_result ctx = (last_result, ctx)"
| "dotted_loop (seg # segs) last_result ctx =
     (case resolve_single seg ctx of
        (NewScope s ks, ctx') \<Rightarrow> dotted_loop segs (NewScope s ks) ctx'
      | (AnyScope, ctx') \<Rightarrow> dotted_loop segs AnyScope ctx'
      | (result, ctx') \<Rightarrow> (result, ctx'))"

definition change_scope_dotted :: "rstr \<Rightarrow> ScopeContext \<Rightarrow> ScopeResult \<times> ScopeContext" where
  "change_scope_dotted key ctx = dotted_loop (split_byte (CHR ''.'') key) NotFound ctx"

text \<open>\<open>key.get(..7)\<close>: the first seven bytes, unless they would cut a character in two.\<close>

definition strip_hidden :: "rstr \<Rightarrow> rstr" where
  "strip_hidden key =
     (if 7 \<le> length key \<and> (length key = 7 \<or> \<not> is_cont (key ! 7))
         \<and> eq_ignore_ascii_case (take 7 key) ''hidden:''
      then drop 7 key else key)"

fun find_prefix_link :: "rstr \<Rightarrow> (rstr \<times> ScopeLink) list \<Rightarrow> ScopeLink option" where
  "find_prefix_link lower [] = None"
| "find_prefix_link lower ((p, link) # rest) =
     (if starts_with lower p then Some link else find_prefix_link lower rest)"

definition change_scope :: "rstr \<Rightarrow> ScopeContext \<Rightarrow> ScopeResult \<times> ScopeContext" where
  "change_scope full_key ctx =
     (let key = strip_hidden full_key;
          lower = lower_key key
      in case (if CHR '':'' \<in> set lower then find_prefix_link lower (prefix_links (registry ctx)) else None) of
           Some link \<Rightarrow>
             (case target link of
                Some t \<Rightarrow> (NewScope t (ignore_keys link), push_scope t ctx)
              | None \<Rightarrow> (AnyScope, push_scope SCOPE_ANY ctx))
         | None \<Rightarrow>
             if starts_with lower ''event_target:'' \<or> starts_with lower ''parameter:''
                \<or> starts_with lower ''scope:'' \<or> starts_with lower ''@''
             then (AnyScope, push_scope SCOPE_ANY ctx)
             else if CHR ''.'' \<in> set key then change_scope_dotted key ctx
             else resolve_single_with_lower key lower ctx)"

end
