(* ===== verification/Scope_Properties.thy ===== *)
theory Scope_Properties
  imports Scope_Engine
begin

text \<open>
  What the scope registry and the scope engine promise. First the laws of subscopes as a
  locale, interpreted on \<open>is_subscope_or_eq\<close>; then the shape of a transition of the engine
  (\<open>scope_step\<close>), which every case of \<open>change_scope\<close> has; then what the registry keeps of
  a configuration; then the properties.
\<close>

section \<open>Subscopes as an interface\<close>

text \<open>
  What the engine relies on when it asks whether a scope satisfies a requirement: the
  wildcard satisfies and is satisfied by everything, and satisfaction is reflexive and
  transitive as long as the scope in the middle is a real one.
\<close>

locale scope_order =
  fixes sub :: "'s \<Rightarrow> 's \<Rightarrow> bool" and any :: 's
  assumes sub_refl: "sub c c"
    and sub_any: "sub any c" "sub c any"
    and sub_trans: "b \<noteq> any \<Longrightarrow> sub a b \<Longrightarrow> sub b c \<Longrightarrow> sub a c"
begin

text \<open>A requirement: one of a list of scopes, or none at all.\<close>

lemma requirement_inherited:
  assumes "vs = [] \<or> c = any \<or> list_ex (sub c) vs" "sub d c" "c \<noteq> any"
  shows "vs = [] \<or> d = any \<or> list_ex (sub d) vs"
  using assms sub_trans by (auto simp: list_ex_iff)

lemma requirement_any: "list_ex (sub any) vs \<longleftrightarrow> vs \<noteq> []"
  using sub_any(1) by (cases vs) (auto simp: list_ex_iff)

end

interpretation scopes: scope_order "is_subscope_or_eq reg" SCOPE_ANY for reg
  by unfold_locales (auto simp: is_subscope_or_eq_iff intro: rtrancl_trans elim: rtranclE)


section \<open>Transitions of the engine\<close>

text \<open>
  What every transition respects: root, FROM chain and registry stay, the stack is not
  empty, and a result that names a scope names the new top of the stack.
\<close>

definition scope_step :: "ScopeContext \<Rightarrow> ScopeResult \<times> ScopeContext \<Rightarrow> bool" where
  "scope_step ctx r \<longleftrightarrow>
     (case r of (res, ctx') \<Rightarrow>
        (\<exists>st. st \<noteq> [] \<and> ctx' = ctx\<lparr>scopes := st\<rparr>)
        \<and> (case res of
             NewScope s ks \<Rightarrow> current ctx' = s
           | AnyScope \<Rightarrow> current ctx' = SCOPE_ANY
           | VarFound \<Rightarrow> current ctx' = SCOPE_ANY
           | _ \<Rightarrow> True))"

lemma current_push [simp]: "current (push_scope s ctx) = s"
  by (simp add: current_def push_scope_def)

lemma scope_step_push: "scope_step ctx (NewScope s ks, push_scope s ctx)"
  "scope_step ctx (AnyScope, push_scope SCOPE_ANY ctx)" "scope_step ctx (VarFound, push_scope SCOPE_ANY ctx)"
  by (auto simp: scope_step_def) (auto simp: push_scope_def)

lemma scope_step_same:
  assumes "scopes ctx \<noteq> []" "(case res of NewScope s ks \<Rightarrow> current ctx = s | AnyScope \<Rightarrow> False | VarFound \<Rightarrow> False | _ \<Rightarrow> True)"
  shows "scope_step ctx (res, ctx)"
  using assms by (auto simp: scope_step_def split: ScopeResult.splits intro!: exI [of _ "scopes ctx"])

lemma pop_scope_update:
  "pop_scope (ctx\<lparr>scopes := st\<rparr>) = ctx\<lparr>scopes := if length st > 1 then butlast st else st\<rparr>"
  by (simp add: pop_scope_def)

lemma pop_scopes:
  "scopes ctx \<noteq> [] \<Longrightarrow> \<exists>st. st \<noteq> [] \<and> prefix st (scopes ctx) \<and> (pop_scope ^^ n) ctx = ctx\<lparr>scopes := st\<rparr>"
proof (induction n)
  case (Suc n)
  then obtain st where st: "st \<noteq> []" "prefix st (scopes ctx)" "(pop_scope ^^ n) ctx = ctx\<lparr>scopes := st\<rparr>" by auto
  let ?st = "if length st > 1 then butlast st else st"
  have "?st \<noteq> []" using st(1) by (cases st) auto
  moreover have "prefix ?st (scopes ctx)" 
    using prefix_order.trans [OF prefixeq_butlast [of st] st(2)] st(2) by simp
  moreover have "(pop_scope ^^ Suc n) ctx = ctx\<lparr>scopes := ?st\<rparr>"
    unfolding funpow.simps o_apply st(3) by (rule pop_scope_update)
  ultimately show ?case by blast
qed (intro exI [of _ "scopes ctx"], simp)

lemma scope_step_prev: "scopes ctx \<noteq> [] \<Longrightarrow> scope_step ctx (apply_prev n ctx)"
  using pop_scopes [of ctx n] by (auto simp: apply_prev_def scope_step_def Let_def)

lemma scope_step_from: "scope_step ctx (apply_from i ctx)"
  by (simp add: apply_from_def Let_def scope_step_push)

lemma scope_step_root_from: "scope_step ctx (apply_from i (push_scope (ctx_root ctx) ctx))"
  by (auto simp: apply_from_def Let_def scope_step_def push_scope_def current_def get_from_def)

lemma pred_option_if: "pred_option P x \<Longrightarrow> pred_option P y \<Longrightarrow> pred_option P (if b then x else y)"
  by simp

lemma scope_step_meta: "scopes ctx \<noteq> [] \<Longrightarrow> pred_option (scope_step ctx) (resolve_meta_keyword lower ctx)"
  unfolding resolve_meta_keyword_def
  by (intro pred_option_if)
    (simp_all add: scope_step_push scope_step_prev scope_step_from scope_step_root_from scope_step_same del: One_nat_def)

lemma scope_step_single_lower:
  "scopes ctx \<noteq> [] \<Longrightarrow> scope_step ctx (resolve_single_with_lower key lower ctx)"
  using scope_step_meta [of ctx lower]
  by (auto simp: resolve_single_with_lower_def scope_step_push scope_step_same split: option.splits)

lemma scope_step_trans:
  assumes "scope_step ctx (res1, ctx1)" "scope_step ctx1 r"
  shows "scope_step ctx r"
  using assms by (auto simp: scope_step_def split: prod.splits)

lemma scope_step_nonempty: "scope_step ctx (res, ctx') \<Longrightarrow> scopes ctx' \<noteq> []"
  by (auto simp: scope_step_def)

lemma scope_step_dotted:
  assumes "scopes ctx \<noteq> []"
    "segs = [] \<Longrightarrow> (case lr of NewScope s ks \<Rightarrow> current ctx = s | AnyScope \<Rightarrow> current ctx = SCOPE_ANY | VarFound \<Rightarrow> False | _ \<Rightarrow> True)"
  shows "scope_step ctx (dotted_loop segs lr ctx)"
  using assms
proof (induction segs lr ctx rule: dotted_loop.induct)
  case (1 lr ctx)
  then show ?case by (auto simp: scope_step_def split: ScopeResult.splits intro!: exI [of _ "scopes ctx"])
next
  case (2 seg segs lr ctx)
  obtain res ctx1 where r: "resolve_single seg ctx = (res, ctx1)" by force
  have s: "scope_step ctx (res, ctx1)"
    using scope_step_single_lower [OF 2(3), of seg "lower_key seg"] r by (simp add: resolve_single_def)
  then have ne: "scopes ctx1 \<noteq> []" by (rule scope_step_nonempty)
  show ?case
  proof (cases res)
    case (NewScope t ks)
    then have "current ctx1 = t" using s by (simp add: scope_step_def)
    then have "scope_step ctx1 (dotted_loop segs (NewScope t ks) ctx1)"
      using 2(1) [OF r [symmetric] NewScope ne] by simp
    then show ?thesis using s r NewScope by (auto intro: scope_step_trans)
  next
    case AnyScope
    then have "current ctx1 = SCOPE_ANY" using s by (simp add: scope_step_def)
    then have "scope_step ctx1 (dotted_loop segs AnyScope ctx1)"
      using 2(2) [OF r [symmetric] AnyScope ne] by simp
    then show ?thesis using s r AnyScope by (auto intro: scope_step_trans)
  qed (use s r in simp_all)
qed

lemma scope_step_change: "scopes ctx \<noteq> [] \<Longrightarrow> scope_step ctx (change_scope key ctx)"
  unfolding change_scope_def Let_def
  by (auto simp: scope_step_push change_scope_dotted_def scope_step_dotted scope_step_single_lower split: option.splits)

section \<open>What backfilling keeps\<close>

lemma hardcoded_names_plain:
  assumes "e \<in> set (by_id (from_hardcoded game))"
  shows "list_all plain_name (def_names (snd e))"
proof -
  have "set (by_id (from_hardcoded game)) \<subseteq> (\<lambda>d. (sd_id d, owned_def d)) ` set (scope_defs game)"
    using hardcoded_defs [of registry_default "scope_defs game"]
    by (simp add: from_hardcoded_def Let_def registry_default_def)
  with assms obtain d where "d \<in> set (scope_defs game)" "e = (sd_id d, owned_def d)" by blast
  with tables_simple [of game] show ?thesis by (auto simp: list_all_iff def_names_def simple_name_plain)
qed

lemma backfill_hardcoded_extends:
  assumes "order_ok H" "registry_wf reg"
  shows "registry_extends reg (backfill_hardcoded H reg game n)"
proof (cases "registry_is_empty (from_hardcoded game)")
  case True
  then show ?thesis by (simp add: backfill_hardcoded_def Let_def)
next
  case False
  let ?hc = "from_hardcoded game"
  let ?es = "ord_defs H (by_id ?hc)"
  obtain r1 n1 m where f: "foldl backfill_scope (reg, n, []) ?es = (r1, n1, m)" by (metis prod.exhaust)
  have "\<forall>e \<in> set ?es. list_all plain_name (def_names (snd e))"
    using assms(1) hardcoded_names_plain by (simp add: order_ok_def)
  then have 1: "registry_extends reg r1"
    using backfill_scopes_extends [OF assms(2) _ _ f] by (simp add: id_map_ok_def)
  have 2: "registry_extends r1 (foldl (backfill_parents m) r1 ?es)"
    by (rule foldl_extends, rule backfill_parents_extends)
  let ?r2 = "foldl (backfill_parents m) r1 ?es"
  have 3: "registry_extends ?r2 (foldl (backfill_link m) ?r2 (ord_links H (links ?hc)))"
    by (rule foldl_extends, rule backfill_link_extends)
  let ?r3 = "foldl (backfill_link m) ?r2 (ord_links H (links ?hc))"
  have 4: "registry_extends ?r3 (foldl (backfill_prefix_link m) ?r3 (prefix_links ?hc))"
    by (rule foldl_extends, rule backfill_prefix_link_extends)
  show ?thesis
    using 1 2 3 4 False f
    by (auto simp: backfill_hardcoded_def Let_def intro: registry_extends_trans)
qed

lemma id_of_extends:
  assumes "registry_extends reg reg'" "names_lower reg" "names_lower reg'" "id_of reg n = Some i"
  shows "id_of reg' n = Some i"
  using assms by (auto simp: id_of_eq_spec id_of_spec_def Let_def registry_extends_def map_le_def dom_def split: if_splits)

section \<open>Names of configured scopes\<close>

lemma by_name_frames:
  "by_name (resolve_parents reg si) = by_name reg" "by_name (add_link reg li) = by_name reg"
  "by_name (add_iterators reg a) = by_name reg"
  by (simp_all add: resolve_parents_def set_parents_def add_link_def add_iterators_def Let_def
      split: option.split prod.split)

lemma by_name_folds:
  "by_name (foldl resolve_parents reg sis) = by_name reg" "by_name (foldl add_link reg lis) = by_name reg"
  "by_name (foldl add_iterators reg as) = by_name reg"
  by (induction sis arbitrary: reg) (simp_all add: by_name_frames,
    induction lis arbitrary: reg, simp_all add: by_name_frames,
    induction as arbitrary: reg, simp_all add: by_name_frames)

lemma assign_scope_by_name:
  "\<exists>i. by_name (fst (assign_scope st si)) = insert_names (si_name si) (si_aliases si) i (by_name (fst st))"
  by (cases st) (auto simp: assign_scope_def Let_def)

lemma assign_scopes_other:
  assumes "\<forall>si \<in> set sis. k \<notin> to_ascii_lowercase ` set (si_name si # si_aliases si)"
  shows "map_of (by_name (fst (foldl assign_scope st sis))) k = map_of (by_name (fst st)) k"
  using assms
proof (induction sis arbitrary: st)
  case (Cons si sis)
  obtain i where "by_name (fst (assign_scope st si)) = insert_names (si_name si) (si_aliases si) i (by_name (fst st))"
    using assign_scope_by_name by blast
  moreover have "k \<notin> to_ascii_lowercase ` set (si_name si # si_aliases si)" using Cons.prems by (meson list.set_intros(1))
  moreover have "\<forall>si \<in> set sis. k \<notin> to_ascii_lowercase ` set (si_name si # si_aliases si)"
    using Cons.prems by (meson list.set_intros(2))
  ultimately show ?case using Cons.IH [of "assign_scope st si"] by (simp only: foldl_Cons map_of_insert_names if_False)
qed simp

lemma assigned_scope_name:
  assumes "length (before @ si # after) < 2 ^ 32 - 100" "\<not> is_sentinel_input si"
    and "n \<in> set (si_name si # si_aliases si)"
    and "\<forall>sj \<in> set after. to_ascii_lowercase n \<notin> to_ascii_lowercase ` set (si_name sj # si_aliases sj)"
  shows "map_of (by_name (fst (foldl assign_scope (registry_default, 100) (before @ si # after)))) (to_ascii_lowercase n)
    = Some (of_nat (100 + length (filter (\<lambda>s. \<not> is_sentinel_input s) before)))"
proof -
  let ?k = "length (filter (\<lambda>s. \<not> is_sentinel_input s) before)"
  let ?st = "foldl assign_scope (registry_default, 100) before"
  have le: "?k \<le> length before" by (rule length_filter_le)
  have len: "length before < 2 ^ 32 - 100" using assms(1) by simp
  have next_id: "snd ?st = of_nat (100 + ?k)" using assign_scopes_ids [OF len] by simp
  have "100 + ?k < 2 ^ 32" using len le by linarith
  then have un: "unat (snd ?st) = 100 + ?k" unfolding next_id by (rule unat_of_nat_u32)
  then have "snd ?st \<noteq> 0" "snd ?st \<noteq> 1" by auto
  moreover obtain r where st: "?st = (r, snd ?st)" by (metis prod.collapse)
  ultimately have "assign_scope ?st si = (r\<lparr>by_name := insert_names (si_name si) (si_aliases si) (snd ?st) (by_name r),
      by_id := AList.update (snd ?st) \<lparr>so_name = si_name si, so_aliases = si_aliases si, so_subscope_of = []\<rparr> (by_id r)\<rparr>,
      snd ?st + 1)"
    using assign_scope_plain [OF assms(2), of "snd ?st" r] by metis
  then have "map_of (by_name (fst (assign_scope ?st si))) (to_ascii_lowercase n) = Some (snd ?st)"
    using assms(3) by (simp add: map_of_insert_names) blast
  then show ?thesis using assign_scopes_other [OF assms(4), of "assign_scope ?st si"] next_id by simp
qed

text \<open>The registry \<open>from_config\<close> builds before it backfills, with the next free id.\<close>

lemma from_config_stages:
  assumes "order_ok H" "sis \<noteq> []"
  shows "\<exists>reg n. registry_wf reg \<and> from_config H sis lis game = backfill_hardcoded H reg game n
     \<and> by_name reg = by_name (fst (foldl assign_scope (registry_default, 100) sis))"
proof -
  obtain r1 n1 where a: "foldl assign_scope (registry_default, 100) sis = (r1, n1)" by force
  have 1: "registry_wf r1" using assign_scopes_wf [of "(registry_default, 100)" sis] a by simp
  let ?r3 = "foldl add_link (foldl resolve_parents r1 sis) lis"
  have 3: "registry_wf ?r3"
    by (rule foldl_wf [OF foldl_wf [OF 1]]) (rule resolve_parents_wf, assumption, rule add_link_wf)
  let ?r4 = "foldl add_iterators ?r3 (scope_aliases (ord_defs H (by_id ?r3)))"
  have "registry_wf ?r4" using add_iterators_fold_wf [OF 3] scope_aliases_known [OF assms(1)] by blast
  moreover have "from_config H sis lis game = backfill_hardcoded H ?r4 game n1"
    using assms(2) a by (simp add: from_config_def Let_def)
  ultimately show ?thesis using a by (intro exI [of _ ?r4] exI [of _ n1]) (simp add: by_name_folds)
qed

section \<open>Known scopes\<close>

text \<open>Every scope a context holds is a sentinel or defined in its registry.\<close>

definition context_wf :: "ScopeContext \<Rightarrow> bool" where
  "context_wf ctx \<longleftrightarrow> registry_wf (registry ctx) \<and> scopes ctx \<noteq> []
     \<and> list_all (scope_known (registry ctx)) (ctx_root ctx # scopes ctx @ ctx_from ctx)"

lemma context_wf_push: "context_wf ctx \<Longrightarrow> scope_known (registry ctx) s \<Longrightarrow> context_wf (push_scope s ctx)"
  by (simp add: context_wf_def push_scope_def)

lemma context_wf_current: "context_wf ctx \<Longrightarrow> scope_known (registry ctx) (current ctx)"
  by (auto simp: context_wf_def current_def list_all_iff)

lemma context_wf_any [simp]: "scope_known reg SCOPE_ANY"
  by (simp add: scope_known_def)

lemma context_wf_root: "context_wf ctx \<Longrightarrow> scope_known (registry ctx) (ctx_root ctx)"
  by (simp add: context_wf_def)

lemma context_wf_from: "context_wf ctx \<Longrightarrow> scope_known (registry ctx) (get_from i ctx)"
  by (auto simp: context_wf_def get_from_def list_all_iff)

lemma context_wf_pops: "context_wf ctx \<Longrightarrow> context_wf ((pop_scope ^^ n) ctx)"
proof -
  assume wf: "context_wf ctx"
  then obtain st where "st \<noteq> []" "prefix st (scopes ctx)" "(pop_scope ^^ n) ctx = ctx\<lparr>scopes := st\<rparr>"
    using pop_scopes [of ctx n] by (auto simp: context_wf_def)
  with wf show ?thesis by (auto simp: context_wf_def list_all_iff dest: set_mono_prefix)
qed

lemmas context_wf_intros = context_wf_push context_wf_current context_wf_root context_wf_from context_wf_pops

lemma context_wf_from_step: "context_wf ctx \<Longrightarrow> context_wf (snd (apply_from i ctx))"
  by (simp add: apply_from_def Let_def context_wf_intros)

lemma context_wf_prev_step: "context_wf ctx \<Longrightarrow> context_wf (snd (apply_prev i ctx))"
  by (simp add: apply_prev_def Let_def context_wf_intros)

lemma context_wf_root_push: "context_wf ctx \<Longrightarrow> context_wf (push_scope (ctx_root ctx) ctx)"
  by (rule context_wf_push [OF _ context_wf_root])

lemma context_wf_current_push: "context_wf ctx \<Longrightarrow> context_wf (push_scope (current ctx) ctx)"
  by (rule context_wf_push [OF _ context_wf_current])

lemma context_wf_meta: "context_wf ctx \<Longrightarrow> pred_option (\<lambda>r. context_wf (snd r)) (resolve_meta_keyword lower ctx)"
  unfolding resolve_meta_keyword_def
  by (intro pred_option_if)
    (simp_all add: context_wf_from_step context_wf_prev_step context_wf_root_push context_wf_current_push del: One_nat_def)

lemma context_wf_link:
  "context_wf ctx \<Longrightarrow> (k, l) \<in> set (links (registry ctx)) \<union> set (prefix_links (registry ctx)) \<Longrightarrow>
     target l = Some t \<Longrightarrow> scope_known (registry ctx) t"
  by (auto simp: context_wf_def registry_wf_def link_known_def split: option.splits)

lemma context_wf_single_lower: "context_wf ctx \<Longrightarrow> context_wf (snd (resolve_single_with_lower key lower ctx))"
  using context_wf_meta [of ctx lower]
  by (auto simp: resolve_single_with_lower_def context_wf_push dest!: map_of_SomeD
      intro!: context_wf_push context_wf_link split: option.splits)

lemma context_wf_dotted: "context_wf ctx \<Longrightarrow> context_wf (snd (dotted_loop segs lr ctx))"
proof (induction segs lr ctx rule: dotted_loop.induct)
  case (2 seg segs lr ctx)
  have "context_wf (snd (resolve_single seg ctx))" using 2(3) by (simp add: resolve_single_def context_wf_single_lower)
  then show ?case using 2(1,2) by (auto split: prod.split ScopeResult.split)
qed simp

lemma find_prefix_link_in: "find_prefix_link lower ps = Some l \<Longrightarrow> \<exists>p. (p, l) \<in> set ps"
  by (induction ps) (auto split: if_splits)

lemma context_wf_change: "context_wf ctx \<Longrightarrow> context_wf (snd (change_scope key ctx))"
  unfolding change_scope_def Let_def
  by (auto simp: change_scope_dotted_def context_wf_dotted context_wf_single_lower
      intro!: context_wf_push dest!: find_prefix_link_in intro: context_wf_link split: option.splits if_splits)

section \<open>Failures\<close>

text \<open>What a failing result says: the current scope satisfies none of the scopes expected.\<close>

definition failure_ok :: "ScopeResult \<times> ScopeContext \<Rightarrow> bool" where
  "failure_ok r \<longleftrightarrow>
     (case r of
        (WrongScope cmd cur expected, ctx') \<Rightarrow>
          cur = current ctx' \<and> cur \<noteq> SCOPE_ANY \<and> expected \<noteq> []
          \<and> (\<forall>s \<in> set expected. s \<noteq> SCOPE_ANY \<and> (cur, s) \<notin> (parent_rel (registry ctx'))\<^sup>*)
      | _ \<Rightarrow> True)"

lemma failure_ok_found [simp]:
  "failure_ok (NewScope s ks, c)" "failure_ok (AnyScope, c)" "failure_ok (VarFound, c)"
  "failure_ok (ValueFound, c)" "failure_ok (NotFound, c)" "failure_ok (apply_prev n c)" "failure_ok (apply_from n c)"
  by (simp_all add: failure_ok_def apply_prev_def apply_from_def Let_def)

lemma failure_ok_meta: "pred_option failure_ok (resolve_meta_keyword lower ctx)"
  unfolding resolve_meta_keyword_def by (intro pred_option_if) (simp_all del: One_nat_def)

lemma failure_ok_wrong:
  "\<not> link_valid (registry ctx) link (current ctx) \<Longrightarrow> failure_ok (WrongScope key (current ctx) (valid_scopes link), ctx)"
  by (auto simp: failure_ok_def link_valid_def list_ex_iff is_subscope_or_eq_iff)

lemma failure_ok_single_lower: "failure_ok (resolve_single_with_lower key lower ctx)"
  using failure_ok_meta [of lower ctx]
  by (auto simp: resolve_single_with_lower_def failure_ok_wrong split: option.split)

lemma failure_ok_dotted:
  "(\<And>c. failure_ok (lr, c)) \<Longrightarrow> failure_ok (dotted_loop segs lr ctx)"
proof (induction segs lr ctx rule: dotted_loop.induct)
  case (2 seg segs lr ctx)
  have "failure_ok (resolve_single seg ctx)" by (simp add: resolve_single_def failure_ok_single_lower)
  then show ?case using 2(1,2) by (auto split: prod.split ScopeResult.split)
qed simp

lemma failure_ok_change: "failure_ok (change_scope key ctx)"
  unfolding change_scope_def Let_def
  by (auto simp: change_scope_dotted_def failure_ok_dotted failure_ok_single_lower split: option.split)

text \<open>A key that is not dotted leaves the context alone unless it is found.\<close>

definition keeps_on_failure :: "ScopeContext \<Rightarrow> ScopeResult \<times> ScopeContext \<Rightarrow> bool" where
  "keeps_on_failure ctx r \<longleftrightarrow>
     (case r of (NewScope s ks, _) \<Rightarrow> True | (AnyScope, _) \<Rightarrow> True | (VarFound, _) \<Rightarrow> True | (_, ctx') \<Rightarrow> ctx' = ctx)"

lemma keeps_on_failure_simps [simp]:
  "keeps_on_failure ctx (NewScope s ks, c)" "keeps_on_failure ctx (AnyScope, c)" "keeps_on_failure ctx (VarFound, c)"
  "keeps_on_failure ctx (apply_prev n c)" "keeps_on_failure ctx (apply_from n c)" "keeps_on_failure ctx (res, ctx)"
  by (simp_all add: keeps_on_failure_def apply_prev_def apply_from_def Let_def split: ScopeResult.split)

lemma keeps_on_failure_meta: "pred_option (keeps_on_failure ctx) (resolve_meta_keyword lower ctx)"
  unfolding resolve_meta_keyword_def by (intro pred_option_if) (simp_all del: One_nat_def)

lemma keeps_on_failure_single: "keeps_on_failure ctx (resolve_single_with_lower key lower ctx)"
  using keeps_on_failure_meta [of ctx lower]
  by (auto simp: resolve_single_with_lower_def split: option.split)

section \<open>Case folding of keys\<close>

lemma lower_key_eq: "lower_key key = to_ascii_lowercase key"
  using to_ascii_lowercase_no_upper [of key] by (auto simp: lower_key_def)

lemma lowercase_mem: "\<not> is_upper_byte c \<Longrightarrow> \<not> is_lower_byte c \<Longrightarrow> c \<in> set (to_ascii_lowercase s) \<longleftrightarrow> c \<in> set s"
proof -
  assume c: "\<not> is_upper_byte c" "\<not> is_lower_byte c"
  have "lower_byte b = c \<longleftrightarrow> b = c" for b
  proof
    assume b: "lower_byte b = c"
    show "b = c"
    proof (cases "is_upper_byte b")
      case True
      then have "is_lower_byte (lower_byte b)"
        using byte_val_lower_byte [of b] by (simp add: is_upper_byte_def is_lower_byte_def)
      with b c(2) show ?thesis by simp
    qed (use b in \<open>simp add: lower_byte_def\<close>)
  qed (use c(1) in \<open>simp add: lower_byte_def\<close>)
  then show ?thesis by (force simp: to_ascii_lowercase_def)
qed

lemma lower_byte_dot: "lower_byte b = CHR ''.'' \<longleftrightarrow> b = CHR ''.''"
  using lowercase_mem [of "CHR ''.''" "[b]"]
  by (auto simp: is_upper_byte_def is_lower_byte_def to_ascii_lowercase_def)

lemma split_dot_lowercase: "split_byte (CHR ''.'') (to_ascii_lowercase s) = map to_ascii_lowercase (split_byte (CHR ''.'') s)"
  unfolding to_ascii_lowercase_def
  by (induction s) (auto simp: lower_byte_dot split: list.split)

lemma strip_hidden_lowercase: "strip_hidden (to_ascii_lowercase key) = to_ascii_lowercase (strip_hidden key)"
proof -
  have "take 7 (to_ascii_lowercase key) = to_ascii_lowercase (take 7 key)"
    "drop 7 (to_ascii_lowercase key) = to_ascii_lowercase (drop 7 key)"
    by (simp_all add: to_ascii_lowercase_def take_map drop_map)
  moreover have "7 < length key \<Longrightarrow> is_cont (to_ascii_lowercase key ! 7) = is_cont (key ! 7)"
    by (simp add: to_ascii_lowercase_def)
  ultimately show ?thesis
    by (cases "length key = 7") (auto simp: strip_hidden_def)
qed

text \<open>Two results that differ at most in how the key is spelled.\<close>

fun forget_command :: "ScopeResult \<Rightarrow> ScopeResult" where
  "forget_command (WrongScope cmd cur expected) = WrongScope [] cur expected"
| "forget_command res = res"

definition same_outcome :: "ScopeResult \<times> ScopeContext \<Rightarrow> ScopeResult \<times> ScopeContext \<Rightarrow> bool" where
  "same_outcome a b \<longleftrightarrow> map_prod forget_command id a = map_prod forget_command id b"

lemma single_lower_command:
  "same_outcome (resolve_single_with_lower key lower ctx) (resolve_single_with_lower key' lower ctx)"
  by (auto simp: resolve_single_with_lower_def same_outcome_def split: option.split)

lemma resolve_single_lowercase: "same_outcome (resolve_single (to_ascii_lowercase k) ctx) (resolve_single k ctx)"
  by (simp add: resolve_single_def lower_key_eq single_lower_command)

lemma forget_command_eq:
  "forget_command a = forget_command b \<Longrightarrow> (\<exists>c1 c2 x y. a = WrongScope c1 x y \<and> b = WrongScope c2 x y) \<or> a = b"
  by (cases a; cases b) auto

lemma dotted_lowercase: "same_outcome (dotted_loop (map to_ascii_lowercase segs) lr ctx) (dotted_loop segs lr ctx)"
proof (induction segs lr ctx rule: dotted_loop.induct)
  case (2 seg segs lr ctx)
  obtain a c b d where r: "resolve_single (to_ascii_lowercase seg) ctx = (a, c)" "resolve_single seg ctx = (b, d)" by force
  then have "forget_command a = forget_command b" "c = d"
    using resolve_single_lowercase [of seg ctx] by (simp_all add: same_outcome_def)
  then have "(\<exists>c1 c2 x y. a = WrongScope c1 x y \<and> b = WrongScope c2 x y) \<or> a = b" "c = d"
    by (simp_all add: forget_command_eq)
  then show ?case
    using 2 r by (cases b) (auto simp: same_outcome_def)
qed (simp add: same_outcome_def)

lemma change_scope_lowercase: "same_outcome (change_scope (to_ascii_lowercase key) ctx) (change_scope key ctx)"
proof -
  have dot: "CHR ''.'' \<in> set (to_ascii_lowercase s) \<longleftrightarrow> CHR ''.'' \<in> set s" for s
    by (rule lowercase_mem) (simp_all add: is_upper_byte_def is_lower_byte_def)
  have refl: "same_outcome r r" for r by (simp add: same_outcome_def)
  show ?thesis
    unfolding change_scope_def Let_def strip_hidden_lowercase lower_key_eq to_ascii_lowercase_idem dot change_scope_dotted_def
      split_dot_lowercase
    by (auto simp: refl dotted_lowercase single_lower_command split: option.split)
qed

section \<open>Properties of the registry\<close>

text \<open>The subscope walk, an explicit stack with a list of visited scopes, always ends and
  answers whether the target is reached from the current scope along the parents of scopes,
  cycles included; the wildcard on either side satisfies any requirement.\<close>

theorem is_subscope_reachable:
  "is_subscope_or_eq reg cur tgt = (cur = SCOPE_ANY \<or> tgt = SCOPE_ANY \<or> (cur, tgt) \<in> (parent_rel reg)\<^sup>*)"
  by (rule is_subscope_or_eq_iff)

text \<open>C12. A registry built from a configuration, whatever the configuration and whatever the
  order in which the hash maps are iterated, is well formed: ids and link names are unique,
  names are in lower case, and every id named by a name, a parent list, a link or a prefix
  link is a sentinel or has a definition, the ids remapped from the hardcoded tables included.\<close>

theorem from_config_closed:
  assumes "order_ok H"
  shows "registry_wf (from_config H scope_inputs link_inputs game)"
  using assms by (rule from_config_wf)

lemma order_ok_insertion [simp]: "order_ok insertion_order"
  by (simp add: order_ok_def insertion_order_def)

lemma from_config_closed_witness:
  "registry_wf (from_config insertion_order
     [\<lparr>si_name = ''Country'', si_aliases = [''country''], si_is_subscope_of = [''any'']\<rparr>]
     [\<lparr>li_name = ''owner'', li_output_scope = Some ''country'', li_input_scopes = [''nowhere''], li_prefix = None,
       li_from_data = False, li_data_source = []\<rparr>] Eu4)"
  by (rule from_config_closed) simp

text \<open>In a registry built from a configuration a name is looked up without regard to case
  and surrounding white space: the two probes of the code, the name as written and then its
  lower-case copy, find what one lookup of the trimmed lower-case name finds.\<close>

theorem config_lookup_ignores_case:
  assumes "order_ok H"
  shows "id_of (from_config H sis lis game) name = id_of_spec (from_config H sis lis game) name
     \<and> id_of (from_config H sis lis game) (to_ascii_lowercase name) = id_of (from_config H sis lis game) name"
proof -
  have "names_lower (from_config H sis lis game)"
    using from_config_wf [OF assms] by (simp add: registry_wf_def)
  then show ?thesis by (simp add: id_of_eq_spec id_of_spec_lowercase)
qed

lemma config_lookup_ignores_case_witness:
  "id_of (from_config insertion_order
       [\<lparr>si_name = ''Country'', si_aliases = [], si_is_subscope_of = []\<rparr>] [] Hoi4) ''COUNTRY''
   = id_of_spec (from_config insertion_order
       [\<lparr>si_name = ''Country'', si_aliases = [], si_is_subscope_of = []\<rparr>] [] Hoi4) ''COUNTRY''"
  using config_lookup_ignores_case [of insertion_order] by simp



text \<open>A configured scope is found under its name and under each of its aliases, through
  links, iterators and backfilling: its id is 100 plus the number of real scopes configured
  before it, provided no later scope of the configuration takes the name over, the name is
  not spelled like a sentinel and the ids do not run out.\<close>

theorem configured_scope_found:
  assumes "order_ok H" "length (before @ si # after) < 2 ^ 32 - 100" "\<not> is_sentinel_input si"
    and "n \<in> set (si_name si # si_aliases si)" "plain_name n"
    and "\<forall>sj \<in> set after. to_ascii_lowercase n \<notin> to_ascii_lowercase ` set (si_name sj # si_aliases sj)"
  shows "id_of (from_config H (before @ si # after) lis game) n
    = Some (of_nat (100 + length (filter (\<lambda>s. \<not> is_sentinel_input s) before)))"
proof -
  obtain reg k where reg: "registry_wf reg"
      "from_config H (before @ si # after) lis game = backfill_hardcoded H reg game k"
      "by_name reg = by_name (fst (foldl assign_scope (registry_default, 100) (before @ si # after)))"
    using from_config_stages [OF assms(1), of "before @ si # after" lis game] by blast
  have lower: "names_lower reg" "names_lower (backfill_hardcoded H reg game k)"
    using reg(1) backfill_hardcoded_wf [OF assms(1) reg(1)] by (simp_all add: registry_wf_def)
  have "id_of reg n = Some (of_nat (100 + length (filter (\<lambda>s. \<not> is_sentinel_input s) before)))"
    using assigned_scope_name [OF assms(2,3,4,6)] id_of_plain [OF lower(1) assms(5)] reg(3) by simp
  then show ?thesis
    unfolding reg(2) by (rule id_of_extends [OF backfill_hardcoded_extends [OF assms(1) reg(1)] lower])
qed

lemma configured_scope_found_witness:
  "id_of (from_config insertion_order
      [\<lparr>si_name = ''Invalid'', si_aliases = [], si_is_subscope_of = []\<rparr>,
       \<lparr>si_name = ''Country'', si_aliases = [''country''], si_is_subscope_of = []\<rparr>,
       \<lparr>si_name = ''State'', si_aliases = [''state''], si_is_subscope_of = [''country'']\<rparr>] [] Hoi4) ''State'' = Some 101"
proof -
  let ?i = "\<lparr>si_name = ''Invalid'', si_aliases = [], si_is_subscope_of = []\<rparr> :: ScopeInput"
  let ?c = "\<lparr>si_name = ''Country'', si_aliases = [''country''], si_is_subscope_of = []\<rparr> :: ScopeInput"
  let ?s = "\<lparr>si_name = ''State'', si_aliases = [''state''], si_is_subscope_of = [''country'']\<rparr> :: ScopeInput"
  have "is_sentinel_input ?i" "\<not> is_sentinel_input ?c" "\<not> is_sentinel_input ?s" "simple_name ''State''"
    by code_simp+
  then show ?thesis
    using configured_scope_found [of insertion_order "[?i, ?c]" ?s "[]" "''State''" "[]" Hoi4]
    by (simp add: simple_name_plain)
qed

section \<open>Properties of the engine\<close>

text \<open>C14. Whatever the key, \<open>change_scope\<close> leaves the root, the FROM chain and the registry
  alone and never empties the scope stack, and when it answers with a scope (or the wildcard)
  that scope is the current one afterwards. This is the invariant the code's debug assertions
  state.\<close>

theorem change_scope_invariant:
  assumes "scopes ctx \<noteq> []" "change_scope key ctx = (res, ctx')"
  shows "scopes ctx' \<noteq> [] \<and> ctx' = ctx\<lparr>scopes := scopes ctx'\<rparr>
    \<and> (\<forall>s ks. res = NewScope s ks \<longrightarrow> current ctx' = s)
    \<and> (res = AnyScope \<or> res = VarFound \<longrightarrow> current ctx' = SCOPE_ANY)"
  using scope_step_change [OF assms(1), of key] assms(2) by (auto simp: scope_step_def)

lemma change_scope_invariant_witness:
  "scopes (snd (change_scope ''PREV.root'' (context_from_registry registry_default 7))) \<noteq> []"
  using change_scope_invariant [of "context_from_registry registry_default 7" "''PREV.root''"]
  by (simp add: context_from_registry_def prod_eq_iff)

text \<open>The engine never invents a scope: if the root, the stack and the FROM chain hold only
  sentinels and scopes defined in a well-formed registry, so they do after any sequence of
  \<open>change_scope\<close> calls.\<close>

theorem change_scopes_known:
  assumes "context_wf ctx"
  shows "context_wf (foldl (\<lambda>c key. snd (change_scope key c)) ctx keys)"
  by (rule foldl_invariant [where I = context_wf, OF assms]) (rule context_wf_change)

lemma change_scopes_known_witness:
  "context_wf (foldl (\<lambda>c key. snd (change_scope key c)) (context_from_registry (from_hardcoded Eu4) 300)
     [''capital_scope'', ''Owner.PREV'', ''event_target:x''])"
proof -
  have "(300 :: u32) \<in> fst ` set (by_id (from_hardcoded Eu4))"
    unfolding from_hardcoded_ids by (simp add: table_ids_def EU4_SCOPES_def scope_def_def)
  then have "context_wf (context_from_registry (from_hardcoded Eu4) 300)"
    using from_hardcoded_wf [of Eu4] by (simp add: context_wf_def context_from_registry_def scope_known_def)
  then show ?thesis by (rule change_scopes_known)
qed

text \<open>\<open>save\<close> before and \<open>restore\<close> after a block undo whatever the keys in between did to
  the scopes, whether they succeeded or not.\<close>

theorem save_restore_undoes:
  assumes "scopes ctx \<noteq> []"
  shows "restore_context (save_context ctx) (foldl (\<lambda>c key. snd (change_scope key c)) ctx keys) = ctx"
proof -
  have "\<exists>st. st \<noteq> [] \<and> foldl (\<lambda>c key. snd (change_scope key c)) ctx keys = ctx\<lparr>scopes := st\<rparr>"
  proof (rule foldl_invariant [where I = "\<lambda>c. \<exists>st. st \<noteq> [] \<and> c = ctx\<lparr>scopes := st\<rparr>"])
    show "\<exists>st. st \<noteq> [] \<and> ctx = ctx\<lparr>scopes := st\<rparr>" by (rule exI [of _ "scopes ctx"]) (simp add: assms)
    fix c key assume "\<exists>st. st \<noteq> [] \<and> c = ctx\<lparr>scopes := st\<rparr>"
    then obtain st where c: "st \<noteq> []" "c = ctx\<lparr>scopes := st\<rparr>" by blast
    then have "scope_step c (change_scope key c)" by (intro scope_step_change) simp
    with c show "\<exists>st. st \<noteq> [] \<and> snd (change_scope key c) = ctx\<lparr>scopes := st\<rparr>"
      by (auto simp: scope_step_def split: prod.splits)
  qed
  then show ?thesis by (auto simp: restore_context_def save_context_def)
qed

lemma save_restore_undoes_witness:
  "restore_context (save_context (context_from_registry registry_default 7))
     (foldl (\<lambda>c key. snd (change_scope key c)) (context_from_registry registry_default 7) [''root.prev'', ''nope''])
   = context_from_registry registry_default 7"
  by (rule save_restore_undoes) (simp add: context_from_registry_def)

text \<open>C15. A \<open>WrongScope\<close> error is justified: it reports the scope that is current, which is not
  the wildcard, and a non-empty list of expected scopes of which none is the wildcard and
  none is reached from the current scope along its parents.\<close>

theorem wrong_scope_justified:
  assumes "change_scope key ctx = (WrongScope cmd cur expected, ctx')"
  shows "cur = current ctx' \<and> cur \<noteq> SCOPE_ANY \<and> expected \<noteq> []
    \<and> (\<forall>s \<in> set expected. s \<noteq> SCOPE_ANY \<and> (cur, s) \<notin> (parent_rel (registry ctx'))\<^sup>*)"
  using failure_ok_change [of key ctx] unfolding assms failure_ok_def prod.case ScopeResult.case .

lemma wrong_scope_justified_witness:
  "let reg = registry_default\<lparr>links := [(''owner'', \<lparr>valid_scopes = [5], target = Some 6, ignore_keys = []\<rparr>)]\<rparr>
   in (7, 5) \<notin> (parent_rel reg)\<^sup>*"
proof -
  let ?reg = "registry_default\<lparr>links := [(''owner'', \<lparr>valid_scopes = [5], target = Some 6, ignore_keys = []\<rparr>)]\<rparr>"
  have "change_scope ''Owner'' (context_from_registry ?reg 7)
      = (WrongScope ''Owner'' 7 [5], context_from_registry ?reg 7)"
    by code_simp
  from wrong_scope_justified [OF this] show ?thesis by (simp add: context_from_registry_def)
qed

text \<open>A key without a dot that is not found, that is a value, or that is used in the wrong
  scope leaves the context exactly as it was.\<close>

theorem failed_key_keeps_context:
  assumes "change_scope key ctx = (res, ctx')" "CHR ''.'' \<notin> set (strip_hidden key)"
    and "\<forall>s ks. res \<noteq> NewScope s ks" "res \<noteq> AnyScope" "res \<noteq> VarFound"
  shows "ctx' = ctx"
proof -
  have "keeps_on_failure ctx (change_scope key ctx)"
    using assms(2) by (auto simp: change_scope_def Let_def keeps_on_failure_single split: option.split)
  with assms show ?thesis by (auto simp: keeps_on_failure_def split: ScopeResult.splits)
qed

lemma failed_key_keeps_context_witness:
  "snd (change_scope ''hidden:Nothing'' (context_from_registry registry_default 7)) = context_from_registry registry_default 7"
proof -
  have "change_scope ''hidden:Nothing'' (context_from_registry registry_default 7)
      = (NotFound, snd (change_scope ''hidden:Nothing'' (context_from_registry registry_default 7)))"
    by code_simp
  moreover have "CHR ''.'' \<notin> set (strip_hidden ''hidden:Nothing'')" by code_simp
  ultimately show ?thesis using failed_key_keeps_context by blast
qed

text \<open>Keys are resolved without regard to case: a key and its lower-case copy give the same
  context and the same result, except that an error repeats the key as it was written.\<close>

theorem change_scope_ignores_case:
  "map_prod forget_command id (change_scope (to_ascii_lowercase key) ctx)
     = map_prod forget_command id (change_scope key ctx)"
  using change_scope_lowercase [of key ctx] by (simp add: same_outcome_def)

text \<open>\<open>prev\<close> undoes a push: after any scope is pushed on a non-empty stack, \<open>prev\<close> (in any
  spelling of its case) pops it again and answers with the scope that was current before.\<close>

theorem prev_undoes_push:
  assumes "scopes ctx \<noteq> []" "to_ascii_lowercase key = ''prev''"
  shows "change_scope key (push_scope s ctx) = (NewScope (current ctx) [], ctx)"
proof -
  have 1: "change_scope ''prev'' c = apply_prev 1 c" for c
  proof -
    have "strip_hidden ''prev'' = ''prev''" "lower_key ''prev'' = ''prev''"
      "\<not> starts_with ''prev'' ''event_target:''" "\<not> starts_with ''prev'' ''parameter:''"
      "\<not> starts_with ''prev'' ''scope:''" "\<not> starts_with ''prev'' ''@''"
      by code_simp+
    then show ?thesis
      by (simp add: change_scope_def Let_def resolve_single_with_lower_def resolve_meta_keyword_def del: One_nat_def)
  qed
  have "apply_prev 1 (push_scope s ctx) = (NewScope (current ctx) [], ctx)"
    using assms(1) by (auto simp: apply_prev_def push_scope_def pop_scope_def current_def Let_def)
  then have "change_scope ''prev'' (push_scope s ctx) = (NewScope (current ctx) [], ctx)" by (simp only: 1)
  then have "map_prod forget_command id (change_scope key (push_scope s ctx)) = (NewScope (current ctx) [], ctx)"
    using change_scope_lowercase [of key "push_scope s ctx"] by (simp add: same_outcome_def assms(2))
  moreover have "forget_command r = NewScope t ks \<Longrightarrow> r = NewScope t ks" for r t ks by (cases r) auto
  ultimately show ?thesis by (cases "change_scope key (push_scope s ctx)") auto
qed

lemma prev_undoes_push_witness:
  "change_scope ''PREV'' (push_scope 9 (context_from_registry registry_default 7))
     = (NewScope 7 [], context_from_registry registry_default 7)"
proof -
  have "to_ascii_lowercase ''PREV'' = ''prev''" by code_simp
  from prev_undoes_push [OF _ this, of "context_from_registry registry_default 7" 9] show ?thesis
    by (simp add: context_from_registry_def current_def)
qed

text \<open>What a scope may use, its subscopes may use: a link that is valid in a real scope is
  valid in every scope that is a subscope of it.\<close>

theorem link_valid_inherited:
  assumes "link_valid reg link cur" "is_subscope_or_eq reg sub cur" "cur \<noteq> SCOPE_ANY"
  shows "link_valid reg link sub"
  using scopes.requirement_inherited [of "valid_scopes link" cur reg sub] assms by (auto simp: link_valid_def)

lemma link_valid_inherited_witness:
  "let reg = registry_default\<lparr>by_id := [(8, \<lparr>so_name = ''army'', so_aliases = [], so_subscope_of = [5]\<rparr>)]\<rparr>
   in link_valid reg \<lparr>valid_scopes = [5], target = None, ignore_keys = []\<rparr> 8"
proof -
  let ?reg = "registry_default\<lparr>by_id := [(8, \<lparr>so_name = ''army'', so_aliases = [], so_subscope_of = [5]\<rparr>)]\<rparr>"
  have "link_valid ?reg \<lparr>valid_scopes = [5], target = None, ignore_keys = []\<rparr> 5" "is_subscope_or_eq ?reg 8 5"
    by code_simp+
  from link_valid_inherited [OF this] show ?thesis by (simp add: SCOPE_ANY_def)
qed

text \<open>\<open>replace_scope\<close>: the stack stays non-empty; a \<open>this\<close> that resolves becomes the current
  scope, otherwise the current scope stays; a \<open>root\<close> that resolves becomes the root; FROM
  names that resolve become the FROM chain in their order; and when PREV names resolve, the
  last of them is what \<open>prev\<close> then leads to.\<close>

theorem replace_scope_effect:
  assumes "scopes ctx \<noteq> []" "ctx' = apply_replace_scope root this froms prevs ctx"
    and "resolve = resolve_scope_name (registry ctx)"
  shows "scopes ctx' \<noteq> [] \<and> registry ctx' = registry ctx
    \<and> current ctx' = (case Option.bind this resolve of Some t \<Rightarrow> t | None \<Rightarrow> current ctx)
    \<and> ctx_root ctx' = (case Option.bind root resolve of Some r \<Rightarrow> r | None \<Rightarrow> ctx_root ctx)
    \<and> (\<forall>i. get_from i ctx' = (let ids = List.map_filter resolve froms in
         if ids = [] then get_from i ctx else if 1 \<le> i \<and> i \<le> length ids then ids ! (i - 1) else SCOPE_ANY))
    \<and> (List.map_filter resolve prevs \<noteq> [] \<longrightarrow>
         fst (apply_prev 1 ctx') = NewScope (last (List.map_filter resolve prevs)) [])"
proof -
  show ?thesis
    unfolding assms(2,3) apply_replace_scope_def Let_def
    using assms(1)
    by (auto simp: current_def get_from_def apply_prev_def pop_scope_def Let_def split: option.split)
qed


lemma replace_scope_effect_witness:
  "current (apply_replace_scope (Some ''3'') (Some '' 4 '') [''5'', ''nope''] [''6''] (context_from_registry registry_default 7)) = 4"
proof -
  let ?ctx = "context_from_registry registry_default 7"
  have "Option.bind (Some '' 4 '') (resolve_scope_name (registry ?ctx)) = Some 4" by code_simp
  moreover have "scopes ?ctx \<noteq> []" by (simp add: context_from_registry_def)
  ultimately show ?thesis
    using replace_scope_effect [OF _ refl refl, of ?ctx "Some ''3''" "Some '' 4 ''" "[''5'', ''nope'']" "[''6'']"]
    by (simp del: bind.simps)
qed

end
