(* ===== verification/Rust_Strings.thy ===== *)
theory Rust_Strings
  imports Rust_Prelude
begin

text \<open>
  More of the Rust standard library's \<open>str\<close>: substring search, pieces between separators,
  char boundaries, lines and words, each with the lemmas the components that use it share.
\<close>

lemma unat_u32_less: "unat (w :: u32) < 4294967296"
  using unsigned_less [of w] by simp

section \<open>Substring search\<close>

text \<open>\<open>str::find\<close> with a string pattern: the first byte offset at which it occurs.\<close>

fun find_sub :: "rstr \<Rightarrow> rstr \<Rightarrow> nat option" where
  "find_sub needle [] = (if needle = [] then Some 0 else None)"
| "find_sub needle (b # bs) =
     (if starts_with (b # bs) needle then Some 0 else map_option Suc (find_sub needle bs))"

lemma find_sub_SomeD:
  "find_sub needle s = Some i \<Longrightarrow> i \<le> length s \<and> starts_with (drop i s) needle
     \<and> (\<forall>j < i. \<not> starts_with (drop j s) needle)"
proof (induction needle s arbitrary: i rule: find_sub.induct)
  case (2 needle b bs)
  show ?case
  proof (cases "starts_with (b # bs) needle")
    case False
    with 2 obtain k where k: "i = Suc k" "find_sub needle bs = Some k" by auto
    have "\<not> starts_with (drop j (b # bs)) needle" if "j < i" for j
      using False k 2(1) [OF False k(2)] that by (cases j) auto
    with 2(1) [OF False k(2)] k show ?thesis by auto
  qed (use 2 in simp)
qed (auto simp: starts_with_def split: if_splits)

lemma find_sub_NoneD: "find_sub needle s = None \<Longrightarrow> \<not> starts_with (drop i s) needle"
proof (induction needle s arbitrary: i rule: find_sub.induct)
  case (2 needle b bs)
  then show ?case by (cases i) (auto split: if_splits)
qed (auto simp: starts_with_def split: if_splits)

definition strip_prefix :: "rstr \<Rightarrow> rstr \<Rightarrow> rstr option" where
  "strip_prefix s p = (if starts_with s p then Some (drop (length p) s) else None)"

definition strip_suffix :: "rstr \<Rightarrow> rstr \<Rightarrow> rstr option" where
  "strip_suffix s suf = (if ends_with s suf then Some (take (length s - length suf) s) else None)"

text \<open>\<open>str::split_once\<close> for a separator of several bytes.\<close>

definition split_once_str :: "rstr \<Rightarrow> rstr \<Rightarrow> (rstr \<times> rstr) option" where
  "split_once_str sep s =
     (case find_sub sep s of None \<Rightarrow> None | Some i \<Rightarrow> Some (take i s, drop (i + length sep) s))"

lemma find_sub_single:
  "find_sub [c] s = Some i \<Longrightarrow> i < length s \<and> s = take i s @ c # drop (Suc i) s \<and> c \<notin> set (take i s)
     \<and> drop i s = c # drop (Suc i) s"
proof (induction "[c]" s arbitrary: i rule: find_sub.induct)
  case (2 b bs)
  then show ?case by (auto simp: starts_with_def split: if_splits)
qed simp

lemma strip_prefix_append [simp]: "strip_prefix (p @ s) p = Some s"
  by (simp add: strip_prefix_def starts_with_def)

lemma strip_prefix_SomeD: "strip_prefix s p = Some r \<Longrightarrow> s = p @ r"
  using append_take_drop_id [of "length p" s, symmetric]
  by (auto simp: strip_prefix_def starts_with_def split: if_splits simp del: append_take_drop_id)

lemma strip_suffix_append [simp]: "strip_suffix (s @ p) p = Some s"
  by (simp add: strip_suffix_def ends_with_def)

lemma strip_suffix_SomeD: "strip_suffix s p = Some r \<Longrightarrow> s = r @ p"
  using append_take_drop_id [of "length s - length p" s, symmetric]
  by (auto simp: strip_suffix_def ends_with_def split: if_splits simp del: append_take_drop_id)

lemma chars_take_drop:
  "chars (concat (take n (chars s))) = take n (chars s) \<and> chars (concat (drop n (chars s))) = drop n (chars s)"
proof (induction s arbitrary: n rule: chars.induct)
  case (2 b bs)
  show ?case
  proof (cases n)
    case 0
    then show ?thesis by simp
  next
    case (Suc m)
    have cont: "chars (b # takeWhile is_cont bs @ t) = (b # takeWhile is_cont bs) # chars t"
      if "t = [] \<or> \<not> is_cont (hd t)" for t
    proof -
      have "dropWhile is_cont (takeWhile is_cont bs) = []" "takeWhile is_cont (takeWhile is_cont bs) = takeWhile is_cont bs"
        by (simp_all add: dropWhile_eq_Nil_conv takeWhile_eq_all_conv) (meson set_takeWhileD)+
      then show ?thesis using chars_append [OF that, of "b # takeWhile is_cont bs"] by simp
    qed
    let ?t = "concat (take m (chars (dropWhile is_cont bs)))"
    have "?t = [] \<or> \<not> is_cont (hd ?t)"
    proof (cases "m = 0 \<or> dropWhile is_cont bs = []")
      case False
      then obtain c cs k where c: "dropWhile is_cont bs = c # cs" "m = Suc k"
        by (cases "dropWhile is_cont bs"; cases m) auto
      have "\<not> is_cont c" using c(1) hd_dropWhile [of is_cont bs] by simp
      then show ?thesis using c by simp
    next
      case True
      then have "?t = []" by (elim disjE) (simp_all only: take_0 concat.simps chars.simps take_Nil)
      then show ?thesis by simp
    qed
    then show ?thesis using 2 [of m] Suc cont by simp
  qed
qed simp

lemma trim_start_suffix: "\<exists>pre. s = pre @ trim_start s"
proof -
  have "concat (takeWhile is_whitespace (chars s)) @ trim_start s = s"
    unfolding trim_start_def by (metis concat_append concat_chars takeWhile_dropWhile_id)
  then show ?thesis by metis
qed

lemma chars_single_snoc:
  assumes "is_ascii_byte b"
  shows "chars (s @ [b]) = chars s @ [[b]]"
proof -
  have "\<not> is_cont b" using assms by (rule ascii_not_cont)
  then have "chars (s @ [b]) = chars s @ chars [b]" by (intro chars_append) simp
  then show ?thesis by simp
qed

lemma trim_edges:
  assumes "s = a # t" "s = u @ [z]" "is_ascii_byte a" "is_ascii_byte z"
    "t = [] \<or> \<not> is_cont (hd t)" "\<not> is_whitespace [a]" "\<not> is_whitespace [z]"
  shows "trim s = s"
proof -
  have "chars (a # t) = [a] # chars t"
    using chars_append [of t "[a]"] assms(5) by simp
  then have "trim_start s = s" using assms(1,6) by (simp add: trim_start_def)
  moreover have "trim_end s = s"
    using assms(2,4,7) by (simp add: trim_end_def chars_single_snoc)
  ultimately show ?thesis by (simp add: trim_def)
qed

lemma trim_solid:
  assumes "list_all (\<lambda>b. is_ascii_byte b \<and> \<not> is_whitespace [b]) s"
  shows "trim s = s"
proof (cases s)
  case Nil
  then show ?thesis by (simp add: trim_def trim_start_def trim_end_def)
next
  case 1: (Cons a t)
  then have "s \<noteq> []" by simp
  then obtain u z where 2: "s = u @ [z]" by (meson rev_exhaust)
  have a: "is_ascii_byte a" "\<not> is_whitespace [a]" using assms 1 by simp_all
  have z: "is_ascii_byte z" "\<not> is_whitespace [z]" using assms 2 by simp_all
  have "t = [] \<or> \<not> is_cont (hd t)" using assms 1 ascii_not_cont by (cases t) auto
  then show ?thesis using trim_edges [OF 1 2 a(1) z(1) _ a(2) z(2)] by simp
qed

section \<open>Pieces between separators\<close>

lemma split_byte_Cons:
  "split_byte d (b # bs) = (if b = d then [] # split_byte d bs
     else (b # hd (split_byte d bs)) # tl (split_byte d bs))"
  by (auto split: list.split)

lemma split_byte_snoc_sep: "split_byte d (s @ d # t) = split_byte d s @ split_byte d t"
  by (induction s) (auto simp: split_byte_Cons hd_append simp del: split_byte.simps(2))

text \<open>\<open>join\<close> puts the pieces together again.\<close>

fun join :: "char \<Rightarrow> rstr list \<Rightarrow> rstr" where
  "join d [] = []"
| "join d [p] = p"
| "join d (p # ps) = p @ d # join d ps"

lemma join_Cons: "ps \<noteq> [] \<Longrightarrow> join d (p # ps) = p @ d # join d ps"
  by (cases ps) auto

lemma join_split [simp]: "join d (split_byte d s) = s"
proof (induction s)
  case (Cons b bs)
  obtain p ps where ps: "split_byte d bs = p # ps" by (meson list.exhaust split_byte_neq_Nil)
  then show ?case using Cons by (cases ps) (auto simp: split_byte_Cons simp del: split_byte.simps(2))
qed simp

lemma join_append: "ps \<noteq> [] \<Longrightarrow> qs \<noteq> [] \<Longrightarrow> join d (ps @ qs) = join d ps @ d # join d qs"
  by (induction ps rule: join.induct) (auto simp: join_Cons)

text \<open>Where one string occurs in another between separators, its pieces occur in a row.\<close>

definition at_pieces :: "char \<Rightarrow> rstr \<Rightarrow> rstr \<Rightarrow> bool" where
  "at_pieces d pre post \<longleftrightarrow> (pre = [] \<or> last pre = d) \<and> (post = [] \<or> hd post = d)"

lemma sublist_pieces:
  "sublist (split_byte d n) (split_byte d h) \<longleftrightarrow> (\<exists>pre post. h = pre @ n @ post \<and> at_pieces d pre post)"
proof
  assume "sublist (split_byte d n) (split_byte d h)"
  then obtain ps qs where h: "split_byte d h = ps @ split_byte d n @ qs" by (auto simp: sublist_def)
  have "h = join d (ps @ split_byte d n @ qs)" using join_split [of d h] h by simp
  also have "\<dots> = (if ps = [] then [] else join d ps @ [d]) @ n @ (if qs = [] then [] else d # join d qs)"
    by (simp add: join_append)
  finally show "\<exists>pre post. h = pre @ n @ post \<and> at_pieces d pre post"
    by (intro exI conjI, assumption) (auto simp: at_pieces_def)
next
  assume "\<exists>pre post. h = pre @ n @ post \<and> at_pieces d pre post"
  then obtain pre post where h: "h = pre @ n @ post" "at_pieces d pre post" by blast
  have right: "\<exists>qs. split_byte d (n @ post) = split_byte d n @ qs"
    using h(2) by (cases post) (auto simp: at_pieces_def split_byte_snoc_sep)
  show "sublist (split_byte d n) (split_byte d h)"
  proof (cases "pre = []")
    case True
    with right h show ?thesis by (auto simp: sublist_def intro: exI [of _ "[]"])
  next
    case False
    then have "pre = butlast pre @ [d]" using h(2) by (metis append_butlast_last_id at_pieces_def)
    then have "h = butlast pre @ d # (n @ post)" using h(1) by (metis append.assoc append_Cons append_Nil)
    then show ?thesis using right by (auto simp: split_byte_snoc_sep sublist_def)
  qed
qed

lemma suffix_pieces:
  "suffix (split_byte d n) (split_byte d h) \<longleftrightarrow> (\<exists>pre. h = pre @ n \<and> at_pieces d pre [])"
proof
  assume "suffix (split_byte d n) (split_byte d h)"
  then obtain ps where h: "split_byte d h = ps @ split_byte d n" by (auto simp: suffix_def)
  have "h = join d (ps @ split_byte d n)" using join_split [of d h] h by simp
  also have "\<dots> = (if ps = [] then [] else join d ps @ [d]) @ n" by (simp add: join_append)
  finally show "\<exists>pre. h = pre @ n \<and> at_pieces d pre []"
    by (intro exI conjI, assumption) (auto simp: at_pieces_def)
next
  assume "\<exists>pre. h = pre @ n \<and> at_pieces d pre []"
  then obtain pre where h: "h = pre @ n" "at_pieces d pre []" by blast
  show "suffix (split_byte d n) (split_byte d h)"
  proof (cases "pre = []")
    case False
    then have "pre = butlast pre @ [d]" using h(2) by (metis append_butlast_last_id at_pieces_def)
    then have "h = butlast pre @ d # n" using h(1) by (metis append.assoc append_Cons append_Nil)
    then show ?thesis by (auto simp: split_byte_snoc_sep suffix_def)
  qed (use h in simp)
qed

text \<open>\<open>rsplit(d).next()\<close>, \<open>&s[..s.rfind(d)]\<close>, \<open>trim_matches(d)\<close> and \<open>replace(a, b)\<close> for ASCII characters.\<close>

definition last_piece :: "char \<Rightarrow> rstr \<Rightarrow> rstr" where
  "last_piece d s = last (split_byte d s)"

definition before_last :: "char \<Rightarrow> rstr \<Rightarrow> rstr" where
  "before_last d s = join d (butlast (split_byte d s))"

definition trim_matches :: "char \<Rightarrow> rstr \<Rightarrow> rstr" where
  "trim_matches d s = rev (dropWhile ((=) d) (rev (dropWhile ((=) d) s)))"

definition replace_byte :: "char \<Rightarrow> char \<Rightarrow> rstr \<Rightarrow> rstr" where
  "replace_byte a b s = map (\<lambda>c. if c = a then b else c) s"

lemma last_piece_no_sep: "d \<notin> set (last_piece d s)"
  using split_byte_pieces [of "last (split_byte d s)" d s] by (simp add: last_piece_def)

lemma split_last_piece: "d \<in> set s \<Longrightarrow> s = before_last d s @ d # last_piece d s"
proof -
  assume "d \<in> set s"
  have sp: "split_byte d s = butlast (split_byte d s) @ [last_piece d s]"
    by (simp add: last_piece_def)
  have "butlast (split_byte d s) \<noteq> []"
  proof
    assume "butlast (split_byte d s) = []"
    with sp have "split_byte d s = [last_piece d s]" by simp
    then have "s = last_piece d s" using join_split [of d s] by simp
    with last_piece_no_sep [of d s] \<open>d \<in> set s\<close> show False by simp
  qed
  then show ?thesis using join_split [of d s] sp by (metis before_last_def join.simps(2) join_append not_Cons_self2)
qed

section \<open>Char boundaries\<close>

text \<open>\<open>str::is_char_boundary\<close>.\<close>

definition is_boundary :: "rstr \<Rightarrow> nat \<Rightarrow> bool" where
  "is_boundary s i \<longleftrightarrow> i = 0 \<or> i = length s \<or> i < length s \<and> \<not> is_cont (s ! i)"

text \<open>What every Rust \<open>str\<close> satisfies: no continuation byte starts it or follows an ASCII byte.\<close>

definition str_ok :: "rstr \<Rightarrow> bool" where
  "str_ok s \<longleftrightarrow> (s = [] \<or> \<not> is_cont (hd s)) \<and> (\<forall>i. Suc i < length s \<longrightarrow> is_ascii_byte (s ! i) \<longrightarrow> \<not> is_cont (s ! Suc i))"

lemma str_ok_ascii: "is_ascii s \<Longrightarrow> str_ok s"
  by (cases s) (auto simp: str_ok_def is_ascii_def list_all_iff ascii_not_cont)


section \<open>Lines and words\<close>

text \<open>\<open>str::lines\<close>: a newline ends a line, with the carriage return before it.\<close>

definition strip_cr :: "rstr \<Rightarrow> rstr" where
  "strip_cr s = (if s \<noteq> [] \<and> last s = CHR 0x0D then butlast s else s)"

definition lines :: "rstr \<Rightarrow> rstr list" where
  "lines s =
     (let ps = split_byte (CHR 0x0A) s
      in map strip_cr (butlast ps) @ (if last ps = [] then [] else [last ps]))"

text \<open>\<open>str::split_whitespace\<close>.\<close>

function words :: "rchar list \<Rightarrow> rstr list" where
  "words cs =
     (let cs1 = dropWhile is_whitespace cs
      in if cs1 = [] then []
         else concat (takeWhile (\<lambda>c. \<not> is_whitespace c) cs1) # words (dropWhile (\<lambda>c. \<not> is_whitespace c) cs1))"
  by pat_completeness auto
termination
proof (relation "measure length")
  fix cs cs1 assume cs1: "cs1 = dropWhile is_whitespace cs" "cs1 \<noteq> []"
  then have "\<not> is_whitespace (hd cs1)" using hd_dropWhile by blast
  then have "length (dropWhile (\<lambda>c. \<not> is_whitespace c) cs1) < length cs1"
    using cs1(2) by (cases cs1) (auto simp: le_imp_less_Suc length_dropWhile_le)
  then show "(dropWhile (\<lambda>c. \<not> is_whitespace c) cs1, cs) \<in> measure length"
    using length_dropWhile_le [of is_whitespace cs] cs1(1) by simp
qed simp

declare words.simps [simp del]

definition split_whitespace :: "rstr \<Rightarrow> rstr list" where
  "split_whitespace s = words (chars s)"

lemma piece_infix: "p \<in> set (split_byte d s) \<Longrightarrow> \<exists>pre post. s = pre @ p @ post"
proof -
  assume "p \<in> set (split_byte d s)"
  then obtain ps qs where sp: "split_byte d s = ps @ [p] @ qs" by (metis append_Cons append_Nil split_list)
  have "s = join d (ps @ [p] @ qs)" using join_split [of d s] sp by simp
  also have "\<dots> = (if ps = [] then [] else join d ps @ [d]) @ p @ (if qs = [] then [] else d # join d qs)"
    by (simp add: join_append join_Cons)
  finally show ?thesis by blast
qed

lemma line_infix: "l \<in> set (lines s) \<Longrightarrow> \<exists>pre post. s = pre @ l @ post"
proof -
  assume "l \<in> set (lines s)"
  moreover have "set (lines s) \<subseteq> strip_cr ` set (butlast (split_byte (CHR 0x0A) s)) \<union> {last (split_byte (CHR 0x0A) s)}"
    by (auto simp: lines_def Let_def)
  ultimately obtain p where p: "p \<in> set (split_byte (CHR 0x0A) s)" "l = p \<or> l = strip_cr p"
    using last_in_set [OF split_byte_neq_Nil [of "CHR 0x0A" s]] in_set_butlastD by fastforce
  then obtain pre post where s: "s = pre @ p @ post" using piece_infix by blast
  have "\<exists>q. p = strip_cr p @ q"
    by (cases p rule: rev_cases) (simp_all add: strip_cr_def)
  then obtain q where "p = l @ q" using p(2) by blast
  then have "s = pre @ l @ (q @ post)" using s by simp
  then show ?thesis by blast
qed

lemma trim_matches_edges:
  assumes "s = a # t" "s = u @ [z]" "a \<noteq> d" "z \<noteq> d"
  shows "trim_matches d s = s"
proof -
  have "dropWhile ((=) d) s = s" using assms(1,3) by simp
  moreover have "dropWhile ((=) d) (rev s) = rev s" using assms(2,4) by simp
  ultimately show ?thesis by (simp add: trim_matches_def)
qed

end
