(* ===== verification/Path_Match.thy ===== *)
theory Path_Match
  imports Rust_Strings
begin

text \<open>
  Path matching (\<open>crates/index/src/path_match.rs\<close>): whether the options of a type cover a
  file. \<open>PathOptions\<close> and the normalisation of its patterns come from
  \<open>crates/rules/src/rules_types.rs\<close>. The reference the scanning code is compared with cuts
  both paths at their slashes and looks for the pattern among the pieces.
\<close>

section \<open>The code\<close>

record PathOptions =
  paths :: "rstr list"
  path_strict :: bool
  path_file :: "rstr option"
  path_extension :: "rstr option"
  paths_lower :: "rstr list"
  path_file_lower :: "rstr option"
  path_ext_lower :: "rstr option"

text \<open>The scan advances by the width of the char at the last occurrence.\<close>

definition char_width :: "rstr \<Rightarrow> nat" where
  "char_width s = (case chars s of [] \<Rightarrow> 1 | c # cs \<Rightarrow> length c)"

lemma char_width_pos: "0 < char_width s"
  using chars_nonempty [of "hd (chars s)" s] by (cases "chars s") (auto simp: char_width_def)

function contains_loop :: "rstr \<Rightarrow> rstr \<Rightarrow> nat \<Rightarrow> bool" where
  "contains_loop haystack needle start =
     (case find_sub needle (drop start haystack) of
        None \<Rightarrow> False
      | Some p \<Rightarrow>
          (let at = start + p;
               left_ok = (at = 0 \<or> haystack ! (at - 1) = CHR ''/'');
               right = at + length needle;
               right_ok = (right = length haystack \<or> right < length haystack \<and> haystack ! right = CHR ''/'');
               next_start = at + char_width (drop at haystack)
           in if left_ok \<and> right_ok then True
              else if next_start \<ge> length haystack then False
              else contains_loop haystack needle next_start))"
  by pat_completeness auto
termination
  by (relation "measure (\<lambda>(h, n, s). length h - s)") (use char_width_pos in \<open>auto simp: diff_less_mono2 trans_less_add1\<close>)

declare contains_loop.simps [simp del]

definition path_contains_segment :: "rstr \<Rightarrow> rstr \<Rightarrow> bool" where
  "path_contains_segment haystack needle \<longleftrightarrow> (if needle = [] then True else contains_loop haystack needle 0)"

definition dir_matches_pattern :: "rstr \<Rightarrow> rstr \<Rightarrow> bool \<Rightarrow> bool" where
  "dir_matches_pattern dir_lower pat_lower strict \<longleftrightarrow>
     (if strict
      then dir_lower = pat_lower
        \<or> length dir_lower > length pat_lower \<and> ends_with dir_lower pat_lower
          \<and> dir_lower ! (length dir_lower - length pat_lower - 1) = CHR ''/''
      else path_contains_segment dir_lower pat_lower)"

record NormalizedPath =
  dir_lower :: rstr
  basename_lower :: rstr

definition normalized_path :: "rstr \<Rightarrow> NormalizedPath" where
  "normalized_path logical_path =
     (let norm = replace_byte (CHR 0x5C) (CHR ''/'') logical_path
      in \<lparr>dir_lower = to_ascii_lowercase (if CHR ''/'' \<in> set norm then before_last (CHR ''/'') norm else []),
          basename_lower = to_ascii_lowercase (last_piece (CHR ''/'') norm)\<rparr>)"

definition check_ext :: "rstr \<Rightarrow> rstr \<Rightarrow> bool" where
  "check_ext basename ext \<longleftrightarrow> ext = [] \<or> last_piece (CHR ''.'') basename = ext"

definition strip_dot :: "rstr \<Rightarrow> rstr" where
  "strip_dot ext = (if starts_with ext ''.'' then drop 1 ext else ext)"

definition check_path_dir_norm :: "PathOptions \<Rightarrow> NormalizedPath \<Rightarrow> bool" where
  "check_path_dir_norm opts np \<longleftrightarrow>
     (case path_file_lower opts of
        Some pf_lower \<Rightarrow> basename_lower np = pf_lower
      | None \<Rightarrow> (case path_file opts of
          Some pf \<Rightarrow> basename_lower np = to_ascii_lowercase pf | None \<Rightarrow> True))
     \<and> (case path_ext_lower opts of
        Some ext \<Rightarrow> check_ext (basename_lower np) ext
      | None \<Rightarrow> (case path_extension opts of
          Some ext \<Rightarrow> check_ext (basename_lower np) (strip_dot (to_ascii_lowercase ext)) | None \<Rightarrow> True))
     \<and> (if paths opts = [] then True
        else if paths_lower opts = []
        then list_ex (\<lambda>p. dir_matches_pattern (dir_lower np)
          (to_ascii_lowercase (trim_matches (CHR ''/'') (replace_byte (CHR 0x5C) (CHR ''/'') p))) (path_strict opts)) (paths opts)
        else list_ex (\<lambda>p. dir_matches_pattern (dir_lower np) p (path_strict opts)) (paths_lower opts))"

definition check_path_dir :: "PathOptions \<Rightarrow> rstr \<Rightarrow> bool" where
  "check_path_dir opts logical_path = check_path_dir_norm opts (normalized_path logical_path)"

text \<open>\<open>rules_types.rs\<close>: what \<open>RuleSet::reindex\<close> precomputes.\<close>

definition normalize_path_lower :: "rstr \<Rightarrow> rstr" where
  "normalize_path_lower p =
     (if CHR 0x5C \<in> set p
      then to_ascii_lowercase (trim_matches (CHR ''/'') (replace_byte (CHR 0x5C) (CHR ''/'') p))
      else to_ascii_lowercase (trim_matches (CHR ''/'') p))"

definition normalize_path_options :: "PathOptions \<Rightarrow> PathOptions" where
  "normalize_path_options opts =
     opts\<lparr>paths_lower := map normalize_path_lower (paths opts),
          path_file_lower := map_option to_ascii_lowercase (path_file opts),
          path_ext_lower := map_option (\<lambda>s. strip_dot (to_ascii_lowercase s)) (path_extension opts)\<rparr>"

section \<open>The scan against its reference\<close>

definition segments :: "rstr \<Rightarrow> rstr list" where
  "segments = split_byte (CHR ''/'')"

text \<open>An occurrence of the needle between slashes.\<close>

definition occurs_at :: "rstr \<Rightarrow> rstr \<Rightarrow> nat \<Rightarrow> bool" where
  "occurs_at h n i \<longleftrightarrow> i \<le> length h \<and> starts_with (drop i h) n \<and> (i = 0 \<or> h ! (i - 1) = CHR ''/'')
     \<and> (i + length n = length h \<or> i + length n < length h \<and> h ! (i + length n) = CHR ''/'')"

lemma last_take: "0 < k \<Longrightarrow> k \<le> length xs \<Longrightarrow> last (take k xs) = xs ! (k - 1)"
  by (cases k) (auto simp: take_Suc_conv_app_nth)

lemma occurs_at_pieces:
  "(\<exists>i. occurs_at h n i) \<longleftrightarrow> (\<exists>pre post. h = pre @ n @ post \<and> at_pieces (CHR ''/'') pre post)"
proof
  assume "\<exists>i. occurs_at h n i"
  then obtain i where i: "i \<le> length h" "starts_with (drop i h) n" "i = 0 \<or> h ! (i - 1) = CHR ''/''"
      "i + length n = length h \<or> i + length n < length h \<and> h ! (i + length n) = CHR ''/''"
    by (auto simp: occurs_at_def)
  from i(2) obtain post where post: "drop i h = n @ post" by (auto simp: starts_with_iff_prefix prefix_def)
  then have h: "h = take i h @ n @ post" by (metis append_take_drop_id)
  have "take i h = [] \<or> last (take i h) = CHR ''/''"
    using i(1,3) by (auto simp: last_take)
  moreover have "post = [] \<or> hd post = CHR ''/''"
  proof -
    have "length h = i + length n + length post" using arg_cong [OF h, of length] i(1) by simp
    moreover have "h ! (i + length n) = hd post" if "post \<noteq> []"
      using arg_cong [OF h, of "\<lambda>x. x ! (i + length n)"] that i(1) by (simp add: nth_append hd_conv_nth)
    ultimately show ?thesis using i(4) by auto
  qed
  ultimately show "\<exists>pre post. h = pre @ n @ post \<and> at_pieces (CHR ''/'') pre post"
    using h unfolding at_pieces_def by blast
next
  assume "\<exists>pre post. h = pre @ n @ post \<and> at_pieces (CHR ''/'') pre post"
  then obtain pre post where h: "h = pre @ n @ post" "at_pieces (CHR ''/'') pre post" by blast
  then have "occurs_at h n (length pre)"
    by (cases pre rule: rev_cases; cases post) (auto simp: occurs_at_def at_pieces_def starts_with_def nth_append)
  then show "\<exists>i. occurs_at h n i" ..
qed


lemma char_width_conts:
  assumes "at < length h" "at < j" "j < at + char_width (drop at h)"
  shows "j < length h \<and> is_cont (h ! j)"
proof -
  obtain b bs where b: "drop at h = b # bs" using assms(1) by (metis Cons_nth_drop_Suc)
  have w: "char_width (drop at h) = Suc (length (takeWhile is_cont bs))" by (simp add: b char_width_def)
  have k: "j - at - 1 < length (takeWhile is_cont bs)" using assms(2,3) w by simp
  then have "is_cont (bs ! (j - at - 1))" by (metis nth_mem set_takeWhileD takeWhile_nth)
  moreover have "j - at - 1 < length bs" using k length_takeWhile_le [of is_cont bs] by linarith
  moreover have "drop (Suc at) h = bs" using b by (metis drop_Suc list.sel(3) tl_drop)
  ultimately show ?thesis using assms(1,2) by (auto simp: nth_drop [symmetric])
qed

lemma contains_loop_iff:
  assumes "n \<noteq> []" "\<not> is_cont (hd n)" "start \<le> length h"
  shows "contains_loop h n start \<longleftrightarrow> (\<exists>i \<ge> start. occurs_at h n i)"
  using assms
proof (induction h n start rule: contains_loop.induct)
  case (1 h n start)
  note assms = 1(2,3)
  show ?case
  proof (cases "find_sub n (drop start h)")
    case None
    have "\<not> occurs_at h n i" if "start \<le> i" for i
      using find_sub_NoneD [OF None, of "i - start"] that by (auto simp: occurs_at_def)
    then show ?thesis using None by (auto simp: contains_loop.simps [of h n start])
  next
    case (Some p)
    let ?at = "start + p" and ?next = "start + p + char_width (drop (start + p) h)"
    note f = find_sub_SomeD [OF Some]
    have at_less: "?at < length h"
      using f 1(4) assms(1) by (cases "?at = length h") (auto simp: starts_with_def)
    have here: "occurs_at h n ?at \<longleftrightarrow> (?at = 0 \<or> h ! (?at - 1) = CHR ''/'')
        \<and> (?at + length n = length h \<or> ?at + length n < length h \<and> h ! (?at + length n) = CHR ''/'')"
      using f at_less by (simp add: occurs_at_def add.commute)
    have before: "\<not> occurs_at h n i" if "start \<le> i" "i < ?at" for i
      using f that by (auto simp: occurs_at_def dest!: spec [of _ "i - start"])
    have inside: "\<not> occurs_at h n i" if "?at < i" "i < ?next" for i
    proof
      assume "occurs_at h n i"
      then have "starts_with (drop i h) n" by (simp add: occurs_at_def)
      moreover have "i < length h" "is_cont (h ! i)" using char_width_conts [OF at_less that] by auto
      ultimately show False using assms by (auto simp: starts_with_iff_prefix prefix_def hd_drop_conv_nth dest: arg_cong [of _ _ hd])
    qed
    have beyond: "\<not> occurs_at h n i" if "length h \<le> i" for i
      using that assms(1) by (auto simp: occurs_at_def starts_with_def)
    have split: "(\<exists>i \<ge> start. occurs_at h n i) \<longleftrightarrow> occurs_at h n ?at \<or> (\<exists>i \<ge> ?next. occurs_at h n i)"
      using before inside char_width_pos [of "drop ?at h"]
      by (metis add_leE le_add1 le_eq_less_or_eq not_less)
    show ?thesis
    proof (cases "occurs_at h n ?at")
      case True
      then have "\<exists>i \<ge> start. occurs_at h n i" using le_add1 by blast
      moreover have "contains_loop h n start"
        using True here Some by (auto simp: contains_loop.simps [of h n start] Let_def)
      ultimately show ?thesis by simp
    next
      case False
      show ?thesis
      proof (cases "?next \<ge> length h")
        case True
        then have "\<not> (\<exists>i \<ge> ?next. occurs_at h n i)" using beyond by (meson order_trans)
        with False here Some split True show ?thesis
          by (simp add: contains_loop.simps [of h n start] Let_def del: ex_simps)
      next
        case cont: False
        have "contains_loop h n ?next \<longleftrightarrow> (\<exists>i \<ge> ?next. occurs_at h n i)"
          using 1(1) [OF Some refl refl refl refl refl] False here cont assms by simp
        moreover have "contains_loop h n start = contains_loop h n ?next"
          using False here Some cont by (auto simp: contains_loop.simps [of h n start] Let_def)
        ultimately show ?thesis using split False by blast
      qed
    qed
  qed
qed

lemma path_contains_segment_iff:
  assumes "n \<noteq> []" "\<not> is_cont (hd n)"
  shows "path_contains_segment h n \<longleftrightarrow> sublist (segments n) (segments h)"
  using assms contains_loop_iff [OF assms, of 0 h] occurs_at_pieces [of h n]
  by (simp add: path_contains_segment_def segments_def sublist_pieces)

lemma dir_matches_strict_iff:
  assumes "n \<noteq> []"
  shows "dir_matches_pattern d n True \<longleftrightarrow> suffix (segments n) (segments d)"
proof -
  have "(\<exists>pre. d = pre @ n \<and> at_pieces (CHR ''/'') pre []) \<longleftrightarrow> dir_matches_pattern d n True"
  proof
    assume "\<exists>pre. d = pre @ n \<and> at_pieces (CHR ''/'') pre []"
    then obtain pre where d: "d = pre @ n" "pre = [] \<or> last pre = CHR ''/''" by (auto simp: at_pieces_def)
    show "dir_matches_pattern d n True"
    proof (cases "pre = []")
      case False
      with d show ?thesis
        by (simp add: dir_matches_pattern_def ends_with_def nth_append last_conv_nth)
    qed (use d in \<open>simp add: dir_matches_pattern_def\<close>)
  next
    assume m: "dir_matches_pattern d n True"
    show "\<exists>pre. d = pre @ n \<and> at_pieces (CHR ''/'') pre []"
    proof (cases "d = n")
      case False
      with m have len: "length n < length d" "ends_with d n" "d ! (length d - length n - 1) = CHR ''/''"
        by (auto simp: dir_matches_pattern_def)
      let ?pre = "take (length d - length n) d"
      have "d = ?pre @ n" using len(2) by (metis append_take_drop_id ends_with_def)
      moreover have "last ?pre = CHR ''/''" using len(1,3) by (simp add: last_take)
      ultimately show ?thesis unfolding at_pieces_def by blast
    qed (auto simp: at_pieces_def intro: exI [of _ "[]"])
  qed
  then show ?thesis by (simp add: segments_def suffix_pieces)
qed


lemma normalize_path_lower_eq:
  "normalize_path_lower p = to_ascii_lowercase (trim_matches (CHR ''/'') (replace_byte (CHR 0x5C) (CHR ''/'') p))"
proof (cases "CHR 0x5C \<in> set p")
  case False
  then have "replace_byte (CHR 0x5C) (CHR ''/'') p = p" by (auto simp: replace_byte_def intro: map_idI)
  then show ?thesis using False by (simp add: normalize_path_lower_def)
qed (simp add: normalize_path_lower_def)

section \<open>Properties\<close>

text \<open>C16. The byte scan for a run of path segments, which resumes one char after an occurrence
  that is not between slashes, finds exactly what the reference finds: with paths cut at
  their slashes, the pieces of the pattern in a row among the pieces of the directory; and
  the strict test is that they are its last pieces.\<close>

theorem dir_matches_segments:
  assumes "pat \<noteq> []" "str_ok pat"
  shows "dir_matches_pattern dir pat strict \<longleftrightarrow>
    (if strict then suffix (segments pat) (segments dir) else sublist (segments pat) (segments dir))"
proof (cases strict)
  case True
  then show ?thesis using dir_matches_strict_iff [OF assms(1)] by simp
next
  case False
  then show ?thesis using assms path_contains_segment_iff by (simp add: dir_matches_pattern_def str_ok_def)
qed

lemma dir_matches_segments_witness:
  "dir_matches_pattern ''dlc/dlc022/gfx/models/units'' ''gfx/models'' False
     \<and> \<not> dir_matches_pattern ''gfx/models2'' ''gfx/models'' True"
proof -
  have ok: "str_ok ''gfx/models''" by (rule str_ok_ascii) code_simp
  have "sublist (segments ''gfx/models'') (segments ''dlc/dlc022/gfx/models/units'')"
    "\<not> suffix (segments ''gfx/models'') (segments ''gfx/models2'')"
    by code_simp+
  then show ?thesis
    using dir_matches_segments [OF _ ok, of "''dlc/dlc022/gfx/models/units''" False]
      dir_matches_segments [OF _ ok, of "''gfx/models2''" True] by simp
qed

text \<open>The indexed test and the unindexed one agree: precomputing the lower-case patterns, file
  name and extension with \<open>normalize_path_options\<close> never changes which files a type covers,
  so the indexer and the validator classify a file the same way.\<close>

theorem reindex_keeps_paths:
  assumes "paths_lower opts = []" "path_file_lower opts = None" "path_ext_lower opts = None"
  shows "check_path_dir (normalize_path_options opts) path = check_path_dir opts path"
  using assms
  by (auto simp: check_path_dir_def check_path_dir_norm_def normalize_path_options_def normalize_path_lower_eq
      list_ex_iff split: option.splits)

lemma reindex_keeps_paths_witness:
  "let opts = \<lparr>paths = [''Common'' @ [CHR 0x5C] @ ''ideas''], path_strict = True, path_file = None,
       path_extension = Some ''.TXT'', paths_lower = [], path_file_lower = None, path_ext_lower = None\<rparr>
   in check_path_dir (normalize_path_options opts) ''common/ideas/GER.txt'' = check_path_dir opts ''common/ideas/GER.txt''"
  using reindex_keeps_paths by simp

end
