(* ===== verification/Suggested_Fix.thy ===== *)
theory Suggested_Fix
  imports Ast Rust_Strings "HOL-Library.Multiset"
begin

text \<open>
  Suggested fixes (\<open>crates/parser/src/fix.rs\<close>): edits of source ranges, their translation to
  byte offsets, the planning that drops overlapping edits, and their application from the
  last to the first. The reference for an application is a splice of the text in file order.
  \<open>String::replace_range\<close> panics off a char boundary; the model answers \<open>None\<close> there.
\<close>

section \<open>The code\<close>

record SpanEdit =
  edit_range :: SourceRange
  replacement :: rstr

record SuggestedFix =
  fix_title :: rstr
  fix_edits :: "SpanEdit list"
  fix_create_loc_key :: "rstr option"

definition fix_replace :: "rstr \<Rightarrow> SourceRange \<Rightarrow> rstr \<Rightarrow> SuggestedFix" where
  "fix_replace title rng repl =
     \<lparr>fix_title = title, fix_edits = [\<lparr>edit_range = rng, replacement = repl\<rparr>], fix_create_loc_key = None\<rparr>"

definition fix_delete :: "rstr \<Rightarrow> SourceRange \<Rightarrow> SuggestedFix" where
  "fix_delete title rng = fix_replace title rng []"

definition create_loc_key :: "rstr \<Rightarrow> rstr \<Rightarrow> SuggestedFix" where
  "create_loc_key title key = \<lparr>fix_title = title, fix_edits = [], fix_create_loc_key = Some key\<rparr>"

text \<open>\<open>char_len as u16\<close> truncates; the addition saturates.\<close>

definition key_token_range :: "SourcePos \<Rightarrow> nat \<Rightarrow> SourceRange" where
  "key_token_range start char_len =
     \<lparr>range_start = start,
      range_end = SourcePos (pos_line start) (sat_add_u16 (pos_col start) (of_nat char_len))\<rparr>"

definition line_start_bytes :: "rstr \<Rightarrow> nat list" where
  "line_start_bytes text = 0 # map Suc (filter (\<lambda>i. text ! i = CHR 0x0A) [0..<length text])"

fun col_bytes :: "nat \<Rightarrow> rchar list \<Rightarrow> nat" where
  "col_bytes n [] = 0"
| "col_bytes n (c # cs) = (if n = 0 \<or> c = ch_nl then 0 else length c + col_bytes (n - 1) cs)"

definition pos_to_byte :: "rstr \<Rightarrow> nat list \<Rightarrow> SourcePos \<Rightarrow> nat" where
  "pos_to_byte text line_starts p =
     (let line_idx = unat (sat_sub_u32 (pos_line p) 1)
      in if line_idx < length line_starts
         then (let line_start = line_starts ! line_idx
               in line_start + col_bytes (unat (pos_col p)) (chars (drop line_start text)))
         else length text)"

text \<open>\<open>sort_by_key\<close> is stable, and so is \<open>sort_key\<close>.\<close>

fun plan_loop ::
  "rstr \<Rightarrow> nat list \<Rightarrow> nat option \<Rightarrow> ('t \<times> SpanEdit) list \<Rightarrow> SpanEdit list \<times> 't list" where
  "plan_loop text starts last_end [] = ([], [])"
| "plan_loop text starts last_end ((tag, edit) # rest) =
     (let s = pos_to_byte text starts (range_start (edit_range edit));
          e = pos_to_byte text starts (range_end (edit_range edit))
      in if (case last_end of None \<Rightarrow> False | Some l \<Rightarrow> s < l)
         then (let (kept, skipped) = plan_loop text starts last_end rest in (kept, tag # skipped))
         else (let (kept, skipped) = plan_loop text starts (Some e) rest in (edit # kept, skipped)))"

definition plan_file_edits :: "rstr \<Rightarrow> ('t \<times> SpanEdit) list \<Rightarrow> SpanEdit list \<times> 't list" where
  "plan_file_edits text planned =
     (let starts = line_start_bytes text
      in plan_loop text starts None
           (sort_key (\<lambda>(_, e). pos_to_byte text starts (range_start (edit_range e))) planned))"

type_synonym span = "nat \<times> nat \<times> rstr"

definition edit_span :: "rstr \<Rightarrow> SpanEdit \<Rightarrow> span" where
  "edit_span text e =
     (pos_to_byte text (line_start_bytes text) (range_start (edit_range e)),
      pos_to_byte text (line_start_bytes text) (range_end (edit_range e)), replacement e)"

definition replace_range :: "nat \<Rightarrow> nat \<Rightarrow> rstr \<Rightarrow> rstr \<Rightarrow> rstr option" where
  "replace_range s e repl out =
     (if is_boundary out s \<and> is_boundary out e then Some (take s out @ repl @ drop e out) else None)"

fun apply_ranges :: "span list \<Rightarrow> rstr \<Rightarrow> rstr option" where
  "apply_ranges [] out = Some out"
| "apply_ranges ((s, e, repl) # rest) out =
     (if s \<le> e \<and> e \<le> length out
      then Option.bind (replace_range s e repl out) (apply_ranges rest)
      else apply_ranges rest out)"

text \<open>\<open>sort_by_key(Reverse(start))\<close>: descending by start, ties in the order of the list.\<close>

definition apply_edits :: "rstr \<Rightarrow> SpanEdit list \<Rightarrow> rstr option" where
  "apply_edits text edits =
     apply_ranges (rev (sort_key fst (rev (map (edit_span text) edits)))) text"


section \<open>Byte offsets\<close>

lemma line_start_ok:
  "ls \<in> set (line_start_bytes text) \<Longrightarrow> ls \<le> length text \<and> (ls = 0 \<or> text ! (ls - 1) = CHR 0x0A)"
  by (auto simp: line_start_bytes_def)

lemma is_boundary_append:
  assumes "is_boundary r k" "k \<le> length r" "r = [] \<or> \<not> is_cont (hd r)" "c \<noteq> []"
  shows "is_boundary (c @ r) (length c + k)"
proof (cases "k = 0")
  case True
  then show ?thesis using assms by (cases r) (auto simp: is_boundary_def nth_append)
qed (use assms in \<open>auto simp: is_boundary_def nth_append\<close>)

lemma col_bytes_boundary: "is_boundary s (col_bytes n (chars s)) \<and> col_bytes n (chars s) \<le> length s"
proof (induction s arbitrary: n rule: chars.induct)
  case (2 b bs)
  let ?c = "b # takeWhile is_cont bs" and ?r = "dropWhile is_cont bs"
  have s: "b # bs = ?c @ ?r" by simp
  show ?case
  proof (cases "n = 0 \<or> ?c = ch_nl")
    case False
    let ?k = "col_bytes (n - 1) (chars ?r)"
    have k: "is_boundary ?r ?k" "?k \<le> length ?r" using 2 by auto
    have eq: "col_bytes n (chars (b # bs)) = length ?c + ?k" using False by auto
    have "is_boundary (?c @ ?r) (length ?c + ?k)"
      by (rule is_boundary_append [OF k]) (use hd_dropWhile [of is_cont bs] in blast, simp)
    then show ?thesis using k(2) unfolding eq s [symmetric] by (metis add_le_cancel_left length_append s)
  qed (auto simp: is_boundary_def)
qed (simp add: is_boundary_def)

lemma is_boundary_drop:
  "ls \<le> length text \<Longrightarrow> is_boundary (drop ls text) k \<Longrightarrow> 0 < k \<Longrightarrow> is_boundary text (ls + k)"
  by (auto simp: is_boundary_def)

lemma is_boundary_line_start:
  assumes "str_ok text" "ls \<in> set (line_start_bytes text)"
  shows "is_boundary text ls"
proof (cases "ls = 0 \<or> ls = length text")
  case False
  then have "ls < length text" "text ! (ls - 1) = CHR 0x0A" "0 < ls" using line_start_ok [OF assms(2)] by auto
  then have "\<not> is_cont (text ! ls)"
    using assms(1) by (cases ls) (auto simp: str_ok_def is_ascii_byte_def)
  then show ?thesis using \<open>ls < length text\<close> by (simp add: is_boundary_def)
qed (auto simp: is_boundary_def)

lemma pos_to_byte_boundary:
  assumes "str_ok text"
  shows "is_boundary text (pos_to_byte text (line_start_bytes text) p) \<and> pos_to_byte text (line_start_bytes text) p \<le> length text"
proof (cases "unat (sat_sub_u32 (pos_line p) 1) < length (line_start_bytes text)")
  case True
  let ?ls = "line_start_bytes text ! unat (sat_sub_u32 (pos_line p) 1)"
  let ?k = "col_bytes (unat (pos_col p)) (chars (drop ?ls text))"
  have ls: "?ls \<in> set (line_start_bytes text)" using True by simp
  have k: "is_boundary (drop ?ls text) ?k" "?k \<le> length (drop ?ls text)" using col_bytes_boundary by blast+
  have "is_boundary text (?ls + ?k)"
    using is_boundary_line_start [OF assms ls] is_boundary_drop [OF _ k(1)] line_start_ok [OF ls]
    by (cases "?k = 0") auto
  moreover have "?ls + ?k \<le> length text" using k(2) line_start_ok [OF ls] by auto
  ultimately show ?thesis using True by (simp add: pos_to_byte_def Let_def)
qed (simp add: pos_to_byte_def Let_def is_boundary_def)

section \<open>Planning\<close>

abbreviation start_byte :: "rstr \<Rightarrow> SpanEdit \<Rightarrow> nat" where
  "start_byte text e \<equiv> fst (edit_span text e)"

abbreviation end_byte :: "rstr \<Rightarrow> SpanEdit \<Rightarrow> nat" where
  "end_byte text e \<equiv> fst (snd (edit_span text e))"

text \<open>Spans in file order that do not overlap.\<close>

fun chained_spans :: "nat \<Rightarrow> span list \<Rightarrow> bool" where
  "chained_spans at [] \<longleftrightarrow> True"
| "chained_spans at ((s, e, r) # rest) \<longleftrightarrow> at \<le> s \<and> chained_spans e rest"

text \<open>Every planned edit is kept or skipped, the kept ones do not overlap, and a skipped one
  starts inside one that was kept.\<close>

definition plan_ok ::
  "rstr \<Rightarrow> SpanEdit option \<Rightarrow> ('t \<times> SpanEdit) list \<Rightarrow> SpanEdit list \<times> 't list \<Rightarrow> bool" where
  "plan_ok text before planned result \<longleftrightarrow>
     (\<exists>ks ss. mset ks + mset ss = mset planned \<and> fst result = map snd ks \<and> snd result = map fst ss
        \<and> chained_spans (case before of None \<Rightarrow> 0 | Some b \<Rightarrow> end_byte text b) (map (edit_span text) (map snd ks))
        \<and> (\<forall>x \<in> set ss. \<exists>k \<in> set_option before \<union> set (map snd ks).
             start_byte text k \<le> start_byte text (snd x) \<and> start_byte text (snd x) < end_byte text k))"

lemma plan_loop_ok:
  assumes "sorted (map (\<lambda>x. start_byte text (snd x)) planned)"
    and "\<forall>b \<in> set_option before. \<forall>x \<in> set planned. start_byte text b \<le> start_byte text (snd x)"
  shows "plan_ok text before planned
    (plan_loop text (line_start_bytes text) (map_option (end_byte text) before) planned)"
  using assms
proof (induction planned arbitrary: before)
  case Nil
  then show ?case by (simp add: plan_ok_def)
next
  case (Cons x rest)
  obtain tag e where x: "x = (tag, e)" by force
  let ?skip = "case before of None \<Rightarrow> False | Some b \<Rightarrow> start_byte text e < end_byte text b"
  have srt: "sorted (map (\<lambda>x. start_byte text (snd x)) rest)" "\<forall>y \<in> set rest. start_byte text e \<le> start_byte text (snd y)"
    using Cons.prems(1) x by auto
  show ?case
  proof (cases ?skip)
    case True
    then obtain b where b: "before = Some b" "start_byte text e < end_byte text b" by (auto split: option.splits)
    have "plan_ok text before rest (plan_loop text (line_start_bytes text) (map_option (end_byte text) before) rest)"
      using Cons.IH srt(1) Cons.prems(2) by simp
    then obtain ks ss where ih: "mset ks + mset ss = mset rest"
      "plan_loop text (line_start_bytes text) (map_option (end_byte text) before) rest = (map snd ks, map fst ss)"
      "chained_spans (end_byte text b) (map (edit_span text) (map snd ks))"
      "\<forall>x \<in> set ss. \<exists>k \<in> set_option before \<union> set (map snd ks).
             start_byte text k \<le> start_byte text (snd x) \<and> start_byte text (snd x) < end_byte text k"
      unfolding plan_ok_def b(1) by (auto simp: prod_eq_iff)
    have "plan_loop text (line_start_bytes text) (map_option (end_byte text) before) (x # rest) = (map snd ks, map fst (x # ss))"
      using b ih(2) x by (simp add: edit_span_def)
    moreover have "\<exists>k \<in> set_option before \<union> set (map snd ks).
        start_byte text k \<le> start_byte text (snd x) \<and> start_byte text (snd x) < end_byte text k"
      using b Cons.prems(2) x by auto
    ultimately show ?thesis
      using ih b(1) unfolding plan_ok_def by (intro exI [of _ ks] exI [of _ "x # ss"]) auto
  next
    case False
    have "plan_ok text (Some e) rest (plan_loop text (line_start_bytes text) (map_option (end_byte text) (Some e)) rest)"
      using Cons.IH [of "Some e"] srt by simp
    then obtain ks ss where ih: "mset ks + mset ss = mset rest"
      "plan_loop text (line_start_bytes text) (Some (end_byte text e)) rest = (map snd ks, map fst ss)"
      "chained_spans (end_byte text e) (map (edit_span text) (map snd ks))"
      "\<forall>x \<in> set ss. \<exists>k \<in> set_option (Some e) \<union> set (map snd ks).
             start_byte text k \<le> start_byte text (snd x) \<and> start_byte text (snd x) < end_byte text k"
      unfolding plan_ok_def by (auto simp: prod_eq_iff)
    have "plan_loop text (line_start_bytes text) (map_option (end_byte text) before) (x # rest) = (map snd (x # ks), map fst ss)"
      using False ih(2) x by (simp add: edit_span_def split: option.splits)
    moreover have "chained_spans (case before of None \<Rightarrow> 0 | Some b \<Rightarrow> end_byte text b) (map (edit_span text) (map snd (x # ks)))"
      using False ih(3) x by (cases "edit_span text e") (auto simp: not_less split: option.splits)
    ultimately show ?thesis
      using ih(1,4) x unfolding plan_ok_def by (intro exI [of _ "x # ks"] exI [of _ ss]) auto
  qed
qed

lemma plan_file_edits_ok: "plan_ok text None planned (plan_file_edits text planned)"
proof -
  let ?f = "\<lambda>(_, e). pos_to_byte text (line_start_bytes text) (range_start (edit_range e))"
  have f: "?f = (\<lambda>x. start_byte text (snd x))" by (auto simp: edit_span_def)
  have "plan_ok text None (sort_key ?f planned) (plan_file_edits text planned)"
    using plan_loop_ok [of "text" "sort_key ?f planned" None]
    by (simp add: plan_file_edits_def Let_def f sorted_sort_key)
  then show ?thesis by (simp add: plan_ok_def)
qed

section \<open>Application\<close>

text \<open>The reference: copy the text, replacing each span on the way.\<close>

fun splice :: "rstr \<Rightarrow> nat \<Rightarrow> span list \<Rightarrow> rstr" where
  "splice text at [] = drop at text"
| "splice text at ((s, e, r) # rest) = take (s - at) (drop at text) @ r @ splice text e rest"

text \<open>A span that is not empty, on char boundaries, whose replacement is a \<open>str\<close>.\<close>

definition span_ok :: "rstr \<Rightarrow> span \<Rightarrow> bool" where
  "span_ok text sp \<longleftrightarrow> (case sp of (s, e, r) \<Rightarrow>
     s < e \<and> e \<le> length text \<and> is_boundary text s \<and> is_boundary text e \<and> (r = [] \<or> \<not> is_cont (hd r)))"

lemma span_ok_simp [simp]:
  "span_ok text (s, e, r) \<longleftrightarrow>
     s < e \<and> e \<le> length text \<and> is_boundary text s \<and> is_boundary text e \<and> (r = [] \<or> \<not> is_cont (hd r))"
  by (simp add: span_ok_def)

lemma splice_extend:
  "chained_spans at spans \<Longrightarrow> list_all (span_ok text) spans \<Longrightarrow> b \<le> at \<Longrightarrow> at \<le> length text \<Longrightarrow>
     splice text b spans = take (at - b) (drop b text) @ splice text at spans"
proof (cases spans)
  case Nil
  assume "b \<le> at"
  moreover have "drop b text = take (at - b) (drop b text) @ drop (at - b) (drop b text)"
    by (rule append_take_drop_id [symmetric])
  moreover have "drop (at - b) (drop b text) = drop at text" using \<open>b \<le> at\<close> by simp
  ultimately show ?thesis using Nil by (simp only: splice.simps)
next
  case (Cons sp rest)
  assume *: "chained_spans at spans" "b \<le> at" "at \<le> length text"
  obtain s e r where sp: "sp = (s, e, r)" by (cases sp)
  have "take (s - b) (drop b text) = take (at - b) (drop b text) @ take (s - at) (drop at text)"
    using * Cons sp take_add [of "at - b" "s - at" "drop b text"] by simp
  then show ?thesis using Cons sp by simp
qed

lemma splice_starts:
  assumes "list_all (span_ok text) spans" "chained_spans at spans" "is_boundary text at" "at \<le> length text" "0 < at"
  shows "splice text at spans = [] \<or> \<not> is_cont (hd (splice text at spans))"
  using assms
proof (induction spans arbitrary: at)
  case Nil
  then show ?case by (auto simp: is_boundary_def hd_drop_conv_nth)
next
  case (Cons sp rest)
  obtain s e r where sp: "sp = (s, e, r)" by (cases sp)
  have ok: "s < e" "e \<le> length text" "is_boundary text e" "r = [] \<or> \<not> is_cont (hd r)" "at \<le> s"
    using Cons.prems sp by auto
  have "splice text e rest = [] \<or> \<not> is_cont (hd (splice text e rest))"
    using Cons ok sp by auto
  moreover have "\<not> is_cont (hd (take (s - at) (drop at text)))" if "at < s"
    using that Cons.prems(3,5) ok by (auto simp: is_boundary_def hd_drop_conv_nth)
  ultimately show ?case using ok sp by (cases "at < s") (auto simp: hd_append)
qed

lemma apply_ranges_splice:
  assumes "list_all (span_ok text) spans" "chained_spans at spans"
  shows "apply_ranges (rev spans) text = Some (splice text 0 spans)"
  using assms
proof (induction spans arbitrary: at)
  case (Cons sp rest)
  obtain s e r where sp: "sp = (s, e, r)" by (cases sp)
  have ok: "s < e" "e \<le> length text" "is_boundary text s" "is_boundary text e" "list_all (span_ok text) rest"
      "chained_spans e rest"
    using Cons.prems sp by auto
  let ?out = "splice text 0 rest"
  have out: "?out = take e text @ splice text e rest" using splice_extend [OF ok(6,5), of 0] ok(2) by simp
  have "splice text e rest = [] \<or> \<not> is_cont (hd (splice text e rest))"
    using splice_starts [OF ok(5,6,4,2)] ok(1) by simp
  then have "is_boundary ?out e"
    unfolding out using ok(2) by (cases "splice text e rest") (auto simp: is_boundary_def nth_append)
  moreover have "is_boundary ?out s"
    unfolding out using ok(1-3) by (auto simp: is_boundary_def nth_append)
  ultimately have "apply_ranges [(s, e, r)] ?out = Some (splice text 0 (sp # rest))"
    using ok(1,2) sp by (simp add: replace_range_def out)
  moreover have "apply_ranges (xs @ ys) o' = Option.bind (apply_ranges xs o') (apply_ranges ys)" for xs ys o'
    by (induction xs o' rule: apply_ranges.induct) (auto split: Option.bind_split)
  ultimately show ?case using Cons.IH [OF ok(5,6)] sp by simp
qed simp

lemma chained_sorted:
  "list_all (span_ok text) spans \<Longrightarrow> chained_spans at spans \<Longrightarrow>
     sorted (map fst spans) \<and> distinct (map fst spans) \<and> (\<forall>sp \<in> set spans. at \<le> fst sp)"
proof (induction spans arbitrary: at)
  case (Cons sp rest)
  obtain s e r where sp: "sp = (s, e, r)" by (cases sp)
  then have "s < e" "at \<le> s" "list_all (span_ok text) rest" "chained_spans e rest" using Cons.prems by auto
  with Cons.IH [of e] sp show ?case by fastforce
qed simp

lemma apply_edits_splice:
  assumes "list_all (span_ok text) (map (edit_span text) edits)" "chained_spans at (map (edit_span text) edits)"
  shows "apply_edits text edits = Some (splice text 0 (map (edit_span text) edits))"
proof -
  let ?spans = "map (edit_span text) edits"
  note srt = chained_sorted [OF assms]
  have "inj_on fst (set ?spans)" using srt by (simp only: distinct_map)
  then have "sort_key fst (rev ?spans) = ?spans"
    by (intro sort_key_inj_key_eq) (use srt in \<open>simp_all only: set_rev mset_rev\<close>)
  then show ?thesis using apply_ranges_splice [OF assms] by (simp add: apply_edits_def)
qed


section \<open>Properties\<close>

text \<open>A source position always denotes a char boundary of the text: the byte offset
  \<open>pos_to_byte\<close> answers lies in the text and never inside a character, for any line and
  column, those past the end of a line or of the text included.\<close>

theorem pos_to_byte_in_text:
  assumes "str_ok text"
  shows "pos_to_byte text (line_start_bytes text) p \<le> length text
    \<and> is_boundary text (pos_to_byte text (line_start_bytes text) p)"
  using pos_to_byte_boundary [OF assms] by blast

lemma pos_to_byte_in_text_witness:
  "pos_to_byte (''a = '' @ [CHR 0xC3, CHR 0xA9, CHR 0x0A]) (line_start_bytes (''a = '' @ [CHR 0xC3, CHR 0xA9, CHR 0x0A]))
     (SourcePos 1 5) \<le> 7"
proof -
  let ?text = "''a = '' @ [CHR 0xC3, CHR 0xA9, CHR 0x0A]"
  have "i < 7 \<Longrightarrow> i \<in> {0, 1, 2, 3, 4, 5, 6}" for i :: nat by auto
  then have "str_ok ?text"
    by (auto simp: str_ok_def is_cont_def is_ascii_byte_def less_Suc_eq nth_Cons')
  from pos_to_byte_in_text [OF this, of "SourcePos 1 5"] show ?thesis by simp
qed

text \<open>Planning the edits of a file keeps or skips each of them exactly once; the kept ones, in
  file order, do not overlap; and every skipped one starts inside one that is kept.\<close>

theorem plan_file_edits_sound:
  "\<exists>ks ss. mset ks + mset ss = mset planned \<and> plan_file_edits text planned = (map snd ks, map fst ss)
     \<and> chained_spans 0 (map (edit_span text) (map snd ks))
     \<and> (\<forall>x \<in> set ss. \<exists>k \<in> set (map snd ks).
          fst (edit_span text k) \<le> fst (edit_span text (snd x))
          \<and> fst (edit_span text (snd x)) < fst (snd (edit_span text k)))"
  using plan_file_edits_ok [of "text" planned] by (auto simp: plan_ok_def prod_eq_iff)

lemma plan_file_edits_sound_witness:
  "\<exists>ks ss. mset ks + mset ss = {#(True, \<lparr>edit_range = \<lparr>range_start = SourcePos 1 0, range_end = SourcePos 1 2\<rparr>, replacement = []\<rparr>),
       (False, \<lparr>edit_range = \<lparr>range_start = SourcePos 1 1, range_end = SourcePos 1 3\<rparr>, replacement = []\<rparr>)#}
     \<and> chained_spans 0 (map (edit_span ''abcd'') (map snd ks))"
  using plan_file_edits_sound [of "[(True, \<lparr>edit_range = \<lparr>range_start = SourcePos 1 0, range_end = SourcePos 1 2\<rparr>, replacement = []\<rparr>),
       (False, \<lparr>edit_range = \<lparr>range_start = SourcePos 1 1, range_end = SourcePos 1 3\<rparr>, replacement = []\<rparr>)]" "''abcd''"]
  by auto

text \<open>C17. Applying the planned edits is editing the text in one pass: if no kept edit is empty
  and every replacement is a string, the later-first application succeeds (it never cuts a
  character in two) and yields the text copied in file order with each span replaced.\<close>

theorem planned_edits_apply:
  assumes "str_ok text" "kept = fst (plan_file_edits text planned)"
    and "\<forall>e \<in> set kept. fst (edit_span text e) < fst (snd (edit_span text e)) \<and> str_ok (replacement e)"
  shows "apply_edits text kept = Some (splice text 0 (map (edit_span text) kept))"
proof -
  have "span_ok text (edit_span text e)" if "e \<in> set kept" for e
    using assms(3) that pos_to_byte_boundary [OF assms(1)] by (auto simp: edit_span_def str_ok_def)
  then have "list_all (span_ok text) (map (edit_span text) kept)" by (simp add: list_all_iff)
  moreover have "chained_spans 0 (map (edit_span text) kept)"
    using plan_file_edits_ok [of "text" planned] unfolding assms(2) plan_ok_def by auto
  ultimately show ?thesis by (rule apply_edits_splice)
qed

lemma planned_edits_apply_witness:
  "apply_edits ''a = b'' (fst (plan_file_edits ''a = b''
      [((), \<lparr>edit_range = \<lparr>range_start = SourcePos 1 4, range_end = SourcePos 1 5\<rparr>, replacement = ''no''\<rparr>),
       ((), \<lparr>edit_range = \<lparr>range_start = SourcePos 1 0, range_end = SourcePos 1 1\<rparr>, replacement = ''key''\<rparr>)]))
   = Some ''key = no''"
proof -
  let ?planned = "[((), \<lparr>edit_range = \<lparr>range_start = SourcePos 1 4, range_end = SourcePos 1 5\<rparr>, replacement = ''no''\<rparr>),
       ((), \<lparr>edit_range = \<lparr>range_start = SourcePos 1 0, range_end = SourcePos 1 1\<rparr>, replacement = ''key''\<rparr>)]"
  let ?kept = "fst (plan_file_edits ''a = b'' ?planned)"
  have ok: "str_ok ''a = b''" "str_ok ''key''" "str_ok ''no''" by (rule str_ok_ascii, code_simp)+
  have k: "?kept = [snd (?planned ! 1), snd (?planned ! 0)]" by code_simp
  have "\<forall>e \<in> set ?kept. fst (edit_span ''a = b'' e) < fst (snd (edit_span ''a = b'' e))" by code_simp
  moreover have "\<forall>e \<in> set ?kept. str_ok (replacement e)" unfolding k using ok by simp
  moreover have "splice ''a = b'' 0 (map (edit_span ''a = b'') ?kept) = ''key = no''" by code_simp
  ultimately show ?thesis using planned_edits_apply [OF ok(1) refl, of ?planned] by simp
qed

text \<open>An insertion and a replacement at the same place do not both survive: planning keeps
  both, because the insertion is empty and overlaps nothing, but applying them puts the
  insertion in first, so that the replacement overwrites the inserted text instead of the
  text it was meant for.\<close>

theorem insertion_lost:
  "let insert_at = \<lparr>edit_range = \<lparr>range_start = SourcePos 1 0, range_end = SourcePos 1 0\<rparr>, replacement = ''new_''\<rparr>;
       replace_at = \<lparr>edit_range = \<lparr>range_start = SourcePos 1 0, range_end = SourcePos 1 3\<rparr>, replacement = ''bar''\<rparr>
   in plan_file_edits ''foo = 1'' [((), insert_at), ((), replace_at)] = ([insert_at, replace_at], [])
      \<and> apply_edits ''foo = 1'' [insert_at, replace_at] = Some ''bar_foo = 1''"
  by code_simp

end
