(* ===== verification/Inline_Ignore.thy ===== *)
theory Inline_Ignore
  imports Rust_Strings
begin

text \<open>
  Inline suppression of diagnostics (\<open>crates/validation/src/inline_ignore.rs\<close>): comments
  naming diagnostic codes to ignore on their own line and the two lines next to it. The
  specification reads the directive of a line straight off the text; the code first scans
  the whole text for the directive word and keeps the directives in a map by line number.
\<close>

section \<open>The code\<close>

definition IGNORE_DIRECTIVE :: rstr where "IGNORE_DIRECTIVE = ''cwtools-ignore''"

type_synonym InlineIgnoreMap = "(u32 \<times> rstr set) list"

definition directive_head :: "rstr \<Rightarrow> bool" where
  "directive_head after \<longleftrightarrow> length IGNORE_DIRECTIVE \<le> length after
     \<and> is_boundary after (length IGNORE_DIRECTIVE)
     \<and> eq_ignore_ascii_case (take (length IGNORE_DIRECTIVE) after) IGNORE_DIRECTIVE"

definition directive_codes :: "rstr \<Rightarrow> rstr list" where
  "directive_codes after =
     map to_ascii_lowercase
       (split_whitespace (hd (split_byte (CHR ''#'') (drop (length IGNORE_DIRECTIVE) after))))"

text \<open>The loop over the places of a comment marker.\<close>

fun inline_directive_codes :: "rstr \<Rightarrow> rstr list option" where
  "inline_directive_codes [] = None"
| "inline_directive_codes (b # rest) =
     (if b = CHR ''#'' \<and> directive_head (trim_start rest)
      then Some (directive_codes (trim_start rest))
      else inline_directive_codes rest)"

text \<open>\<open>windows(n).any(eq_ignore_ascii_case)\<close>.\<close>

fun mentions :: "rstr \<Rightarrow> rstr \<Rightarrow> bool" where
  "mentions needle [] = (needle = [])"
| "mentions needle (b # bs) \<longleftrightarrow>
     length needle \<le> length (b # bs) \<and> eq_ignore_ascii_case (take (length needle) (b # bs)) needle
     \<or> mentions needle bs"

definition collect_directives :: "rstr list \<Rightarrow> InlineIgnoreMap" where
  "collect_directives ls =
     foldl (\<lambda>m (i, line). case inline_directive_codes line of
         Some codes \<Rightarrow> AList.update (of_nat i + 1) (set codes) m
       | None \<Rightarrow> m) [] (enumerate 0 ls)"

definition extract_inline_ignored_codes :: "rstr \<Rightarrow> InlineIgnoreMap" where
  "extract_inline_ignored_codes text =
     (if mentions IGNORE_DIRECTIVE text then collect_directives (lines text) else [])"

text \<open>\<open>candidate += 1\<close> overflows at the last line number a \<open>u32\<close> holds; that is the \<open>None\<close>.\<close>

function suppress_loop :: "InlineIgnoreMap \<Rightarrow> rstr \<Rightarrow> u32 \<Rightarrow> u32 \<Rightarrow> bool option" where
  "suppress_loop m code candidate ceiling =
     (if candidate \<le> ceiling
      then if (case map_of m candidate of Some codes \<Rightarrow> code \<in> codes | None \<Rightarrow> False) then Some True
           else if candidate = 4294967295 then None
           else suppress_loop m code (candidate + 1) ceiling
      else Some False)"
  by pat_completeness auto
termination
proof (relation "measure (\<lambda>(m, code, c, ceiling). 4294967296 - unat c)")
  fix candidate :: u32 assume "candidate \<noteq> 4294967295"
  then have "unat candidate \<noteq> 4294967295" using word_unat_eq_iff [of candidate 4294967295] by simp
  with unat_u32_less [of candidate] have "unat (candidate + 1) = unat candidate + 1" by (simp add: unat_word_ariths)
  then show "((m, code, candidate + 1, ceiling), m, code, candidate, ceiling)
      \<in> measure (\<lambda>(m, code, c, ceiling). 4294967296 - unat c)" for m code ceiling
    using unat_u32_less [of candidate] by simp
qed simp

declare suppress_loop.simps [simp del]

definition inline_suppressed :: "InlineIgnoreMap \<Rightarrow> u32 \<Rightarrow> rstr \<Rightarrow> bool option" where
  "inline_suppressed m line code =
     (if m = [] \<or> line = 0 \<or> code = [] then Some False
      else suppress_loop m (to_ascii_lowercase code) (sat_sub_u32 line 1) (sat_add_u32 line 1))"


section \<open>The map of directives\<close>

lemma mentions_iff:
  "needle \<noteq> [] \<Longrightarrow> mentions needle s \<longleftrightarrow> (\<exists>pre w post. s = pre @ w @ post \<and> eq_ignore_ascii_case w needle)"
proof (induction s)
  case (Cons b bs)
  have len: "eq_ignore_ascii_case w needle \<Longrightarrow> length w = length needle" for w
    unfolding eq_ignore_ascii_case_def by (metis length_to_ascii_lowercase)
  show ?case
  proof
    assume "mentions needle (b # bs)"
    then consider "eq_ignore_ascii_case (take (length needle) (b # bs)) needle" | "mentions needle bs" by auto
    then show "\<exists>pre w post. b # bs = pre @ w @ post \<and> eq_ignore_ascii_case w needle"
    proof cases
      case 1
      then show ?thesis by (metis append_Nil append_take_drop_id)
    next
      case 2
      then show ?thesis using Cons by (metis append_Cons)
    qed
  next
    assume "\<exists>pre w post. b # bs = pre @ w @ post \<and> eq_ignore_ascii_case w needle"
    then obtain pre w post where w: "b # bs = pre @ w @ post" "eq_ignore_ascii_case w needle" by blast
    show "mentions needle (b # bs)"
    proof (cases pre)
      case Nil
      then have "take (length needle) (b # bs) = w" "length needle \<le> length (b # bs)" using w len by auto
      with w(2) show ?thesis by simp
    next
      case (Cons c cs)
      then show ?thesis using w Cons.IH Cons.prems by auto
    qed
  qed
qed (auto simp: eq_ignore_ascii_case_def eq_commute [of "[]"])

lemma IGNORE_DIRECTIVE_nonempty: "IGNORE_DIRECTIVE \<noteq> []"
  by (simp add: IGNORE_DIRECTIVE_def)

lemmas mentions_directive = mentions_iff [OF IGNORE_DIRECTIVE_nonempty]

lemma directive_mentions: "inline_directive_codes s = Some codes \<Longrightarrow> mentions IGNORE_DIRECTIVE s"
proof (induction s)
  case (Cons b rest)
  show ?case
  proof (cases "b = CHR ''#'' \<and> directive_head (trim_start rest)")
    case True
    let ?w = "take (length IGNORE_DIRECTIVE) (trim_start rest)"
    have "eq_ignore_ascii_case ?w IGNORE_DIRECTIVE" using True by (simp add: directive_head_def)
    moreover obtain pre where "rest = pre @ trim_start rest" using trim_start_suffix by blast
    then have "b # rest = (b # pre) @ ?w @ drop (length IGNORE_DIRECTIVE) (trim_start rest)" by simp
    ultimately show ?thesis unfolding mentions_directive by metis
  next
    case False
    then show ?thesis using Cons by (auto split: if_splits)
  qed
qed simp

lemma mentions_infix:
  "mentions IGNORE_DIRECTIVE l \<Longrightarrow> l \<in> set (lines s) \<Longrightarrow> mentions IGNORE_DIRECTIVE s"
proof -
  assume "mentions IGNORE_DIRECTIVE l" "l \<in> set (lines s)"
  then obtain pre w post pre' post' where "l = pre @ w @ post" "s = pre' @ l @ post'" "eq_ignore_ascii_case w IGNORE_DIRECTIVE"
    unfolding mentions_directive using line_infix by metis
  then have "s = (pre' @ pre) @ w @ (post @ post')" by simp
  then show ?thesis
    using \<open>eq_ignore_ascii_case w IGNORE_DIRECTIVE\<close> unfolding mentions_directive by blast
qed

text \<open>The codes the text names on the line with a given number, which counts from 1.\<close>

definition directive_at :: "rstr list \<Rightarrow> nat \<Rightarrow> rstr set option" where
  "directive_at ls n =
     (if 1 \<le> n \<and> n \<le> length ls then map_option set (inline_directive_codes (ls ! (n - 1))) else None)"

lemma collect_snoc:
  "collect_directives (ls @ [l]) =
     (case inline_directive_codes l of
        Some codes \<Rightarrow> AList.update (of_nat (length ls) + 1) (set codes) (collect_directives ls)
      | None \<Rightarrow> collect_directives ls)"
  by (simp add: collect_directives_def enumerate_append_eq split: option.split)

lemma collect_directives_lookup:
  "length ls < 2 ^ 32 - 1 \<Longrightarrow> map_of (collect_directives ls) d = directive_at ls (unat d)"
proof (induction ls rule: rev_induct)
  case Nil
  then show ?case by (auto simp: collect_directives_def directive_at_def)
next
  case (snoc l ls)
  have n: "unat (of_nat (length ls) + 1 :: u32) = Suc (length ls)"
    using unat_of_nat_u32 [of "Suc (length ls)"] snoc.prems by (simp add: add.commute)
  have eq: "d = of_nat (length ls) + 1 \<longleftrightarrow> unat d = Suc (length ls)"
    using n by (metis word_unat_eq_iff)
  have at: "directive_at (ls @ [l]) k = (if k = Suc (length ls) then map_option set (inline_directive_codes l)
      else directive_at ls k)" for k
    by (auto simp: directive_at_def nth_append)
  have old: "directive_at ls (Suc (length ls)) = None" by (simp add: directive_at_def)
  show ?case using snoc old eq by (auto simp: collect_snoc at split: option.split)
qed

lemma extract_lookup:
  assumes "length (lines text) < 2 ^ 32 - 1"
  shows "map_of (extract_inline_ignored_codes text) d = directive_at (lines text) (unat d)"
proof (cases "mentions IGNORE_DIRECTIVE text")
  case True
  then show ?thesis using collect_directives_lookup [OF assms] by (simp add: extract_inline_ignored_codes_def)
next
  case False
  then have "inline_directive_codes l = None" if "l \<in> set (lines text)" for l
    using directive_mentions mentions_infix that by (cases "inline_directive_codes l") blast+
  then have "directive_at (lines text) (unat d) = None" by (auto simp: directive_at_def)
  then show ?thesis using False by (simp add: extract_inline_ignored_codes_def)
qed

section \<open>The three lines\<close>

lemma suppress_loop_spec:
  assumes "unat ceiling < 4294967295"
  shows "suppress_loop m code candidate ceiling =
    Some (\<exists>d codes. candidate \<le> d \<and> d \<le> ceiling \<and> map_of m d = Some codes \<and> code \<in> codes)"
  using assms
proof (induction m code candidate ceiling rule: suppress_loop.induct)
  case (1 m code candidate ceiling)
  let ?hit = "case map_of m candidate of Some codes \<Rightarrow> code \<in> codes | None \<Rightarrow> False"
  show ?case
  proof (cases "candidate \<le> ceiling \<and> \<not> ?hit")
    case False
    then show ?thesis by (subst suppress_loop.simps) (auto split: option.splits dest: order_trans)
  next
    case True
    have "unat candidate \<le> unat ceiling" using True by (simp add: word_le_nat_alt)
    then have c: "candidate \<noteq> 4294967295" using 1(2) by auto
    have un: "unat (candidate + 1) = unat candidate + 1"
      using \<open>unat candidate \<le> unat ceiling\<close> 1(2) by (simp add: unat_word_ariths)
    have "candidate \<le> d \<longleftrightarrow> d = candidate \<or> candidate + 1 \<le> d" for d
      using un by (auto simp: word_le_nat_alt word_unat_eq_iff)
    then have "(\<exists>d codes. candidate \<le> d \<and> d \<le> ceiling \<and> map_of m d = Some codes \<and> code \<in> codes)
        = (\<exists>d codes. candidate + 1 \<le> d \<and> d \<le> ceiling \<and> map_of m d = Some codes \<and> code \<in> codes)"
      using True by (auto split: option.splits)
    moreover have "suppress_loop m code candidate ceiling = suppress_loop m code (candidate + 1) ceiling"
      using True c by (subst suppress_loop.simps) simp
    moreover have "suppress_loop m code (candidate + 1) ceiling =
        Some (\<exists>d codes. candidate + 1 \<le> d \<and> d \<le> ceiling \<and> map_of m d = Some codes \<and> code \<in> codes)"
      using 1(1) [OF _ _ c 1(2)] True by blast
    ultimately show ?thesis by simp
  qed
qed


section \<open>Properties\<close>

text \<open>Scanning the whole text for the directive word first never loses a directive, and the
  map by line number forgets none and invents none: for a text of fewer than 2^32 - 1 lines,
  looking a line up in the extracted map gives the codes its text names, and nothing for a
  line the text does not have.\<close>

theorem extracted_directives:
  assumes "length (lines text) < 2 ^ 32 - 1"
  shows "map_of (extract_inline_ignored_codes text) d = directive_at (lines text) (unat d)"
  using assms by (rule extract_lookup)

lemma extracted_directives_witness:
  "map_of (extract_inline_ignored_codes (''a = 1 #CWTOOLS-ignore Cw100 cw2 # why'' @ [CHR 0x0A] @ ''b'')) 1
     = Some {''cw100'', ''cw2''}"
proof -
  let ?text = "''a = 1 #CWTOOLS-ignore Cw100 cw2 # why'' @ [CHR 0x0A] @ ''b''"
  have l: "lines ?text = [''a = 1 #CWTOOLS-ignore Cw100 cw2 # why'', ''b'']" by code_simp
  have "inline_directive_codes ''a = 1 #CWTOOLS-ignore Cw100 cw2 # why'' = Some [''cw100'', ''cw2'']" by code_simp
  then show ?thesis using extracted_directives [of ?text 1] unfolding l by (simp add: directive_at_def)
qed

text \<open>C40. A diagnostic is suppressed exactly when its line, the line above or the line below
  carries a directive naming its code, in any case; a diagnostic without a line, or without a
  code, never is. This holds for every line but the last two a 32-bit line number can name.\<close>

theorem suppressed_iff_adjacent:
  assumes "unat line < 4294967294" "m = extract_inline_ignored_codes text" "length (lines text) < 2 ^ 32 - 1"
  shows "inline_suppressed m line code = Some (line \<noteq> 0 \<and> code \<noteq> [] \<and>
    (\<exists>n codes. unat line - 1 \<le> n \<and> n \<le> unat line + 1 \<and> directive_at (lines text) n = Some codes
       \<and> to_ascii_lowercase code \<in> codes))"
proof (cases "m = [] \<or> line = 0 \<or> code = []")
  case True
  have "directive_at (lines text) n = None" if "m = []" "n \<le> unat line + 1" for n
    using extract_lookup [OF assms(3), of "of_nat n"] that assms(1,2) by (simp add: unat_of_nat_u32)
  with True show ?thesis by (auto simp: inline_suppressed_def)
next
  case False
  have c: "unat (sat_add_u32 line 1) = unat line + 1" "unat (sat_sub_u32 line 1) = unat line - 1"
    using assms(1) by (simp_all add: unat_sat_add_u32 unat_sat_sub_u32)
  have "(\<exists>d codes. sat_sub_u32 line 1 \<le> d \<and> d \<le> sat_add_u32 line 1 \<and> map_of m d = Some codes \<and> to_ascii_lowercase code \<in> codes)
      = (\<exists>n codes. unat line - 1 \<le> n \<and> n \<le> unat line + 1 \<and> directive_at (lines text) n = Some codes
           \<and> to_ascii_lowercase code \<in> codes)" (is "?L = ?R")
  proof
    assume ?L
    then show ?R using extract_lookup [OF assms(3)] assms(2) c by (auto simp: word_le_nat_alt)
  next
    assume ?R
    then obtain n codes where n: "unat line - 1 \<le> n" "n \<le> unat line + 1"
      "directive_at (lines text) n = Some codes" "to_ascii_lowercase code \<in> codes" by blast
    have "unat (of_nat n :: u32) = n" using n(2) assms(1) by (simp add: unat_of_nat_u32)
    then show ?L using n c extract_lookup [OF assms(3), of "of_nat n"] assms(2)
      by (intro exI [of _ "of_nat n"] exI [of _ codes]) (simp add: word_le_nat_alt)
  qed
  moreover have "inline_suppressed m line code = Some (\<exists>d codes. sat_sub_u32 line 1 \<le> d \<and> d \<le> sat_add_u32 line 1
      \<and> map_of m d = Some codes \<and> to_ascii_lowercase code \<in> codes)"
    using False suppress_loop_spec [of "sat_add_u32 line 1"] c(1) assms(1) by (simp add: inline_suppressed_def)
  ultimately show ?thesis using False by simp
qed

lemma suppressed_iff_adjacent_witness:
  "inline_suppressed (extract_inline_ignored_codes (''# cwtools-ignore CW246'' @ [CHR 0x0A] @ ''b'')) 2 ''cw246'' = Some True
   \<and> inline_suppressed (extract_inline_ignored_codes (''# cwtools-ignore CW246'' @ [CHR 0x0A] @ ''b'')) 3 ''cw246'' = Some False"
proof -
  let ?text = "''# cwtools-ignore CW246'' @ [CHR 0x0A] @ ''b''"
  have l: "lines ?text = [''# cwtools-ignore CW246'', ''b'']" by code_simp
  have d: "inline_directive_codes ''# cwtools-ignore CW246'' = Some [''cw246'']" "inline_directive_codes ''b'' = None"
    "to_ascii_lowercase ''cw246'' = ''cw246''"
    by code_simp+
  let ?ls = "[''# cwtools-ignore CW246'', ''b'']"
  have at: "directive_at ?ls 1 = Some {''cw246''}" "2 \<le> n \<Longrightarrow> directive_at ?ls n = None" for n
    using d by (auto simp: directive_at_def le_Suc_eq)
  have "inline_suppressed (extract_inline_ignored_codes ?text) 2 ''cw246'' =
      Some (\<exists>n codes. 1 \<le> n \<and> n \<le> 3 \<and> directive_at ?ls n = Some codes \<and> ''cw246'' \<in> codes)"
    by (subst suppressed_iff_adjacent [OF _ refl]) (simp_all add: l [simplified] d(3))
  moreover have "inline_suppressed (extract_inline_ignored_codes ?text) 3 ''cw246'' =
      Some (\<exists>n codes. 2 \<le> n \<and> n \<le> 4 \<and> directive_at ?ls n = Some codes \<and> ''cw246'' \<in> codes)"
    by (subst suppressed_iff_adjacent [OF _ refl]) (simp_all add: l [simplified] d(3))
  moreover have "\<exists>n codes. (1 :: nat) \<le> n \<and> n \<le> 3 \<and> directive_at ?ls n = Some codes \<and> ''cw246'' \<in> codes"
    using at(1) by (intro exI [of _ 1] exI [of _ "{''cw246''}"]) simp
  moreover have "\<not> (\<exists>n codes. (2 :: nat) \<le> n \<and> n \<le> 4 \<and> directive_at ?ls n = Some codes \<and> ''cw246'' \<in> codes)"
    using at(2) by (metis option.distinct(1))
  ultimately show ?thesis by simp
qed

end
