(* ===== verification/Suggest.thy ===== *)
theory Suggest
  imports Rust_Strings
begin

text \<open>
  Did-you-mean suggestions (\<open>crates/validation/src/rule_core/suggest.rs\<close>): a bounded edit
  distance by dynamic programming over two rows, abandoned as soon as a row is too large,
  and the choice of the single closest candidate. The specification of the distance is the
  length of a shortest edit script.
\<close>

section \<open>The code\<close>

definition MAX_DISTANCE :: nat where "MAX_DISTANCE = 2"

definition MIN_CANDIDATE_LEN :: nat where "MIN_CANDIDATE_LEN = 3"

text \<open>The chars of a string, each in ASCII lower case.\<close>

definition folded_chars :: "rstr \<Rightarrow> rchar list" where
  "folded_chars s = map to_ascii_lowercase (chars s)"

text \<open>One turn of the inner loop: the cell \<open>cur[j]\<close> and the running minimum of the row.\<close>

definition fill_cell ::
  "'c list \<Rightarrow> 'c list \<Rightarrow> nat \<Rightarrow> nat list \<Rightarrow> nat list \<times> nat \<Rightarrow> nat \<Rightarrow> nat list \<times> nat" where
  "fill_cell a b i prev st j =
     (let (cur, row_min) = st;
          cost = (if a ! (i - 1) \<noteq> b ! (j - 1) then 1 else 0);
          c = min (min (prev ! j + 1) (cur ! (j - 1) + 1)) (prev ! (j - 1) + cost)
      in (cur[j := c], min row_min c))"

definition fill_row :: "'c list \<Rightarrow> 'c list \<Rightarrow> nat \<Rightarrow> nat list \<Rightarrow> nat list \<Rightarrow> nat list \<times> nat" where
  "fill_row a b i prev cur = foldl (fill_cell a b i prev) (cur[0 := i], i) [1..<Suc (length b)]"

text \<open>The outer loop over the rows; the two buffers are swapped after each.\<close>

fun rows_loop :: "'c list \<Rightarrow> 'c list \<Rightarrow> nat \<Rightarrow> nat list \<Rightarrow> nat list \<Rightarrow> nat list \<Rightarrow> nat list option" where
  "rows_loop a b mx [] prev cur = Some prev"
| "rows_loop a b mx (i # is) prev cur =
     (let (cur', row_min) = fill_row a b i prev cur
      in if row_min > mx then None else rows_loop a b mx is cur' prev)"

definition bounded_distance :: "rstr \<Rightarrow> rstr \<Rightarrow> nat \<Rightarrow> nat option" where
  "bounded_distance s t mx =
     (let a = folded_chars s; b = folded_chars t; n = length a; m = length b
      in if max n m - min n m > mx then None
         else (case rows_loop a b mx [1..<Suc n] [0..<Suc m] (replicate (m + 1) 0) of
                 None \<Rightarrow> None
               | Some prev \<Rightarrow> if prev ! m \<le> mx then Some (prev ! m) else None))"

text \<open>The scan for the closest candidate: the best so far with its distance, and whether it is tied.\<close>

definition consider_candidate ::
  "rstr \<Rightarrow> (rstr \<times> nat) option \<times> bool \<Rightarrow> rstr \<Rightarrow> (rstr \<times> nat) option \<times> bool" where
  "consider_candidate key st cand =
     (if length (chars cand) < MIN_CANDIDATE_LEN then st
      else case bounded_distance key cand MAX_DISTANCE of
             None \<Rightarrow> st
           | Some d \<Rightarrow>
               (case st of
                  (Some (bstr, bd), tied) \<Rightarrow>
                    if d < bd then (Some (cand, d), False)
                    else if d = bd \<and> \<not> eq_ignore_ascii_case cand bstr then (Some (bstr, bd), True)
                    else (Some (bstr, bd), tied)
                | (None, tied) \<Rightarrow> (Some (cand, d), tied)))"

definition best_suggestion :: "rstr \<Rightarrow> rstr list \<Rightarrow> rstr option" where
  "best_suggestion key candidates =
     (case foldl (consider_candidate key) (None, False) candidates of
        (Some (cand, _), False) \<Rightarrow> Some cand
      | _ \<Rightarrow> None)"

section \<open>Edit scripts\<close>

text \<open>\<open>edits n xs ys\<close>: some script of \<open>n\<close> deletions, insertions and substitutions turns
  \<open>xs\<close> into \<open>ys\<close>.\<close>

inductive edits :: "nat \<Rightarrow> 'c list \<Rightarrow> 'c list \<Rightarrow> bool" where
  edits_Nil: "edits 0 [] []"
| edits_keep: "edits n xs ys \<Longrightarrow> edits n (x # xs) (x # ys)"
| edits_subst: "edits n xs ys \<Longrightarrow> edits (Suc n) (x # xs) (y # ys)"
| edits_delete: "edits n xs ys \<Longrightarrow> edits (Suc n) (x # xs) ys"
| edits_insert: "edits n xs ys \<Longrightarrow> edits (Suc n) xs (y # ys)"

text \<open>The length of a shortest script.\<close>

fun edit_distance :: "'c list \<Rightarrow> 'c list \<Rightarrow> nat" where
  "edit_distance [] ys = length ys"
| "edit_distance xs [] = length xs"
| "edit_distance (x # xs) (y # ys) =
     min (min (edit_distance xs (y # ys) + 1) (edit_distance (x # xs) ys + 1))
       (edit_distance xs ys + (if x \<noteq> y then 1 else 0))"

lemma edit_distance_Nil2 [simp]: "edit_distance xs [] = length xs"
  by (cases xs) auto

lemma edits_inserts: "edits (length ys) [] ys"
  by (induction ys) (auto intro: edits.intros)

lemma edits_deletes: "edits (length xs) xs []"
  by (induction xs) (auto intro: edits.intros)

lemma edits_edit_distance: "edits (edit_distance xs ys) xs ys"
proof (induction xs ys rule: edit_distance.induct)
  case (3 x xs y ys)
  have "edits (edit_distance xs ys + (if x \<noteq> y then 1 else 0)) (x # xs) (y # ys)"
    using 3(3) by (auto intro: edits.intros)
  moreover have "edits (edit_distance xs (y # ys) + 1) (x # xs) (y # ys)"
    "edits (edit_distance (x # xs) ys + 1) (x # xs) (y # ys)"
    using 3(1,2) by (auto intro: edits.intros)
  ultimately show ?case by (simp add: min_def)
next
  case (2 x xs)
  then show ?case using edits_deletes [of "x # xs"] by simp
qed (simp add: edits_inserts)

lemma edit_distance_Cons:
  "edit_distance (x # xs) ys \<le> Suc (edit_distance xs ys)" "edit_distance xs (y # ys) \<le> Suc (edit_distance xs ys)"
  by (cases ys; simp) (cases xs; simp)

lemma edit_distance_least: "edits n xs ys \<Longrightarrow> edit_distance xs ys \<le> n"
proof (induction rule: edits.induct)
  case (edits_delete n xs ys x)
  then show ?case using edit_distance_Cons(1) [of x xs ys] by simp
next
  case (edits_insert n xs ys y)
  then show ?case using edit_distance_Cons(2) [of xs y ys] by simp
qed auto


lemma edits_append: "edits n xs ys \<Longrightarrow> edits k us vs \<Longrightarrow> edits (n + k) (xs @ us) (ys @ vs)"
  by (induction rule: edits.induct) (auto intro: edits.intros)

lemma edits_single:
  "edits 0 [x] [x]" "edits (Suc 0) [x] [y]" "edits (Suc 0) [x] []" "edits (Suc 0) [] [y]"
  by (auto intro: edits.intros)

lemma edits_rev: "edits n xs ys \<Longrightarrow> edits n (rev xs) (rev ys)"
proof (induction rule: edits.induct)
  case (edits_keep n xs ys x)
  then show ?case using edits_append [OF edits_keep(2) edits_single(1) [of x]] by simp
next
  case (edits_subst n xs ys x y)
  then show ?case using edits_append [OF edits_subst(2) edits_single(2) [of x y]] by simp
next
  case (edits_delete n xs ys x)
  then show ?case using edits_append [OF edits_delete(2) edits_single(3) [of x]] by simp
next
  case (edits_insert n xs ys y)
  then show ?case using edits_append [OF edits_insert(2) edits_single(4) [of y]] by simp
qed (simp add: edits_Nil)

lemma edit_distance_rev: "edit_distance (rev xs) (rev ys) = edit_distance xs ys"
proof (rule antisym)
  show "edit_distance (rev xs) (rev ys) \<le> edit_distance xs ys"
    by (rule edit_distance_least [OF edits_rev [OF edits_edit_distance]])
  have "edit_distance (rev (rev xs)) (rev (rev ys)) \<le> edit_distance (rev xs) (rev ys)"
    by (rule edit_distance_least [OF edits_rev [OF edits_edit_distance]])
  then show "edit_distance xs ys \<le> edit_distance (rev xs) (rev ys)" by simp
qed

lemma edit_distance_length:
  "length xs \<le> length ys + edit_distance xs ys" "length ys \<le> length xs + edit_distance xs ys"
proof -
  have "edits n xs ys \<Longrightarrow> length xs \<le> length ys + n \<and> length ys \<le> length xs + n" for n
    by (induction rule: edits.induct) auto
  then show "length xs \<le> length ys + edit_distance xs ys" "length ys \<le> length xs + edit_distance xs ys"
    using edits_edit_distance by blast+
qed

section \<open>The rows\<close>

text \<open>The distance between two prefixes, which is what a cell of the table holds.\<close>

definition dist :: "'c list \<Rightarrow> 'c list \<Rightarrow> nat \<Rightarrow> nat \<Rightarrow> nat" where
  "dist a b i j = edit_distance (rev (take i a)) (rev (take j b))"

lemma dist_zero: "i \<le> length a \<Longrightarrow> dist a b i 0 = i" "j \<le> length b \<Longrightarrow> dist a b 0 j = j"
  by (simp_all add: dist_def)

lemma dist_Suc:
  assumes "i < length a" "j < length b"
  shows "dist a b (Suc i) (Suc j) =
    min (min (dist a b i (Suc j) + 1) (dist a b (Suc i) j + 1)) (dist a b i j + (if a ! i \<noteq> b ! j then 1 else 0))"
  using assms by (simp add: dist_def take_Suc_conv_app_nth)

text \<open>Each row bounds the later ones from below.\<close>

lemma dist_row_step:
  assumes "i < length a" "j \<le> length b"
  shows "\<exists>k \<le> j. dist a b i k \<le> dist a b (Suc i) j"
  using assms(2)
proof (induction j)
  case 0
  then show ?case using assms(1) by (simp add: dist_zero)
next
  case (Suc j)
  then obtain k where k: "k \<le> j" "dist a b i k \<le> dist a b (Suc i) j" by auto
  have "dist a b (Suc i) (Suc j) \<in> {dist a b i (Suc j) + 1, dist a b (Suc i) j + 1, dist a b i j + (if a ! i \<noteq> b ! j then 1 else 0)}"
    using dist_Suc [OF assms(1), of j b] Suc.prems by (simp add: min_def)
  then show ?case
  proof (elim insertE emptyE)
    assume "dist a b (Suc i) (Suc j) = dist a b i (Suc j) + 1"
    then show ?thesis by (intro exI [of _ "Suc j"]) simp
  next
    assume "dist a b (Suc i) (Suc j) = dist a b (Suc i) j + 1"
    then show ?thesis using k by (intro exI [of _ k]) simp
  next
    assume "dist a b (Suc i) (Suc j) = dist a b i j + (if a ! i \<noteq> b ! j then 1 else 0)"
    then show ?thesis by (intro exI [of _ j]) simp
  qed
qed

lemma dist_row_mono:
  assumes "i \<le> i'" "i' \<le> length a"
  shows "j \<le> length b \<Longrightarrow> \<exists>k \<le> j. dist a b i k \<le> dist a b i' j"
  using assms
proof (induction i' arbitrary: j rule: dec_induct)
  case (step n)
  then obtain k where k: "k \<le> j" "dist a b n k \<le> dist a b (Suc n) j" using dist_row_step [of n a j b] by auto
  then obtain k' where "k' \<le> k" "dist a b i k' \<le> dist a b n k"
    using step.IH [of k] step.prems by auto
  with k show ?case by (meson order_trans)
qed auto

text \<open>The inner loop fills a row: every cell up to \<open>k\<close> is a distance, and the running minimum
  is at most each of them and one of them.\<close>

definition row_filled :: "'c list \<Rightarrow> 'c list \<Rightarrow> nat \<Rightarrow> nat \<Rightarrow> nat list \<times> nat \<Rightarrow> bool" where
  "row_filled a b i k st \<longleftrightarrow>
     (case st of (cur, row_min) \<Rightarrow> length cur = Suc (length b) \<and> (\<forall>j \<le> k. cur ! j = dist a b i j)
        \<and> (\<forall>j \<le> k. row_min \<le> dist a b i j) \<and> (\<exists>j \<le> k. row_min = dist a b i j))"

lemma fill_cell_filled:
  assumes "row_filled a b (Suc i) k st" "\<forall>j \<le> length b. prev ! j = dist a b i j" "i < length a" "k < length b"
  shows "row_filled a b (Suc i) (Suc k) (fill_cell a b (Suc i) prev st (Suc k))"
proof -
  obtain cur rm where st: "st = (cur, rm)" by force
  have cell: "min (min (prev ! Suc k + 1) (cur ! k + 1)) (prev ! k + (if a ! i \<noteq> b ! k then 1 else 0)) = dist a b (Suc i) (Suc k)"
    using assms st dist_Suc [OF assms(3,4)] by (simp add: row_filled_def)
  have eq: "fill_cell a b (Suc i) prev st (Suc k) = (cur[Suc k := dist a b (Suc i) (Suc k)], min rm (dist a b (Suc i) (Suc k)))"
    using cell by (simp add: fill_cell_def st Let_def)
  have rm: "length cur = Suc (length b)" "\<forall>j \<le> k. cur ! j = dist a b (Suc i) j" "\<forall>j \<le> k. rm \<le> dist a b (Suc i) j"
    "\<exists>j \<le> k. rm = dist a b (Suc i) j"
    using assms(1) st by (auto simp: row_filled_def)
  have "\<exists>j \<le> Suc k. min rm (dist a b (Suc i) (Suc k)) = dist a b (Suc i) j"
    using rm(4) by (metis le_SucI min_def order_refl)
  then show ?thesis
    unfolding eq using rm(1-3) assms(4) by (auto simp: row_filled_def nth_list_update le_Suc_eq min.coboundedI1)
qed

lemma fill_row_filled:
  assumes "\<forall>j \<le> length b. prev ! j = dist a b i j" "i < length a" "length cur = Suc (length b)"
  shows "row_filled a b (Suc i) (length b) (fill_row a b (Suc i) prev cur)"
proof -
  have "k \<le> length b \<Longrightarrow>
      row_filled a b (Suc i) k (foldl (fill_cell a b (Suc i) prev) (cur[0 := Suc i], Suc i) [1..<Suc k])" for k
  proof (induction k)
    case 0
    then show ?case using assms(2,3) by (simp add: row_filled_def dist_zero)
  next
    case (Suc k)
    then show ?case using fill_cell_filled [OF Suc.IH assms(1,2)] by simp
  qed
  then show ?thesis unfolding fill_row_def by blast
qed

lemma rows_loop_spec:
  assumes "\<forall>j \<le> length b. prev ! j = dist a b i j" "length prev = Suc (length b)" "length cur = Suc (length b)" "i \<le> length a"
  shows "case rows_loop a b mx [Suc i..<Suc (length a)] prev cur of
      Some row \<Rightarrow> \<forall>j \<le> length b. row ! j = dist a b (length a) j
    | None \<Rightarrow> mx < dist a b (length a) (length b)"
  using assms
proof (induction "length a - i" arbitrary: i prev cur)
  case 0
  then show ?case by simp
next
  case (Suc n)
  then have i: "i < length a" by simp
  obtain cur' rm where f: "fill_row a b (Suc i) prev cur = (cur', rm)" by force
  have filled: "length cur' = Suc (length b)" "\<forall>j \<le> length b. cur' ! j = dist a b (Suc i) j"
    "\<forall>j \<le> length b. rm \<le> dist a b (Suc i) j"
    using fill_row_filled [OF Suc.prems(1) i Suc.prems(3)] f by (auto simp: row_filled_def)
  have step: "rows_loop a b mx [Suc i..<Suc (length a)] prev cur =
      (if rm > mx then None else rows_loop a b mx [Suc (Suc i)..<Suc (length a)] cur' prev)"
    using i f by (simp add: upt_conv_Cons del: upt_Suc)
  show ?case
  proof (cases "rm > mx")
    case True
    obtain k where "k \<le> length b" "dist a b (Suc i) k \<le> dist a b (length a) (length b)"
      using dist_row_mono [of "Suc i" "length a" a "length b" b] i by auto
    then have "mx < dist a b (length a) (length b)" using True filled(3) by fastforce
    then show ?thesis using step True by simp
  next
    case False
    then show ?thesis
      using step Suc.hyps(1) [of "Suc i" cur' prev] Suc.hyps(2) filled Suc.prems(2) i by simp
  qed
qed

lemma bounded_distance_eq:
  "bounded_distance s t mx =
     (let d = edit_distance (folded_chars s) (folded_chars t) in if d \<le> mx then Some d else None)"
proof -
  let ?a = "folded_chars s" and ?b = "folded_chars t"
  let ?n = "length ?a" and ?m = "length ?b"
  have d: "dist ?a ?b ?n ?m = edit_distance ?a ?b" by (simp add: dist_def edit_distance_rev)
  show ?thesis
  proof (cases "max ?n ?m - min ?n ?m > mx")
    case True
    then have "mx < edit_distance ?a ?b"
      using edit_distance_length [where xs = ?a and ys = ?b] by (auto simp: max_def min_def split: if_splits)
    then show ?thesis using True by (simp add: bounded_distance_def Let_def)
  next
    case False
    have "\<forall>j \<le> ?m. [0..<Suc ?m] ! j = dist ?a ?b 0 j" by (auto simp: dist_zero simp del: upt_Suc)
    from rows_loop_spec [OF this, of "replicate (?m + 1) 0" mx] show ?thesis
      using False d by (auto simp: bounded_distance_def Let_def simp del: upt_Suc split: option.splits)
  qed
qed


section \<open>The choice of a candidate\<close>

definition candidate_distance :: "rstr \<Rightarrow> rstr \<Rightarrow> nat" where
  "candidate_distance key c = edit_distance (folded_chars key) (folded_chars c)"

definition close_candidates :: "rstr \<Rightarrow> rstr list \<Rightarrow> rstr list" where
  "close_candidates key cs =
     filter (\<lambda>c. MIN_CANDIDATE_LEN \<le> length (chars c) \<and> candidate_distance key c \<le> MAX_DISTANCE) cs"

definition least_distance :: "rstr \<Rightarrow> rstr list \<Rightarrow> nat" where
  "least_distance key cs = Min (candidate_distance key ` set cs)"

text \<open>The candidates nobody is closer than.\<close>

definition closest :: "rstr \<Rightarrow> rstr list \<Rightarrow> rstr list" where
  "closest key cs = filter (\<lambda>c. candidate_distance key c = least_distance key cs) cs"

lemma least_distance_snoc:
  "cs \<noteq> [] \<Longrightarrow> least_distance key (cs @ [c]) = min (least_distance key cs) (candidate_distance key c)"
  by (simp add: least_distance_def min.commute)

lemma least_distance_le: "c \<in> set cs \<Longrightarrow> least_distance key cs \<le> candidate_distance key c"
  by (simp add: least_distance_def)

lemma closest_nonempty: "cs \<noteq> [] \<Longrightarrow> closest key cs \<noteq> []"
proof -
  assume "cs \<noteq> []"
  then have "least_distance key cs \<in> candidate_distance key ` set cs" unfolding least_distance_def by (intro Min_in) auto
  then show ?thesis by (auto simp: closest_def filter_empty_conv)
qed

lemma closest_snoc:
  assumes "cs \<noteq> []"
  shows "closest key (cs @ [c]) =
    (if candidate_distance key c < least_distance key cs then [c]
     else if candidate_distance key c = least_distance key cs then closest key cs @ [c]
     else closest key cs)"
proof -
  have "candidate_distance key x \<noteq> candidate_distance key c"
    if "candidate_distance key c < least_distance key cs" "x \<in> set cs" for x
    using least_distance_le [OF that(2), of key] that(1) by simp
  then show ?thesis
    using assms by (auto simp: closest_def least_distance_snoc min_def filter_empty_conv not_less)
qed

definition scan_state :: "rstr \<Rightarrow> rstr list \<Rightarrow> (rstr \<times> nat) option \<times> bool" where
  "scan_state key cs =
     (if cs = [] then (None, False)
      else (Some (hd (closest key cs), least_distance key cs),
            \<not> list_all (\<lambda>c. eq_ignore_ascii_case c (hd (closest key cs))) (closest key cs)))"

lemma consider_candidates:
  "foldl (consider_candidate key) (None, False) cs = scan_state key (close_candidates key cs)"
proof (induction cs rule: rev_induct)
  case Nil
  then show ?case by (simp add: scan_state_def close_candidates_def)
next
  case (snoc c cs)
  let ?el = "close_candidates key cs" and ?d = "candidate_distance key c"
  have bd: "bounded_distance key c MAX_DISTANCE = (if ?d \<le> MAX_DISTANCE then Some ?d else None)"
    by (simp add: bounded_distance_eq candidate_distance_def Let_def)
  show ?case
  proof (cases "MIN_CANDIDATE_LEN \<le> length (chars c) \<and> ?d \<le> MAX_DISTANCE")
    case False
    then have "close_candidates key (cs @ [c]) = ?el" by (auto simp: close_candidates_def)
    then show ?thesis using False snoc bd by (auto simp: consider_candidate_def)
  next
    case True
    then have el: "close_candidates key (cs @ [c]) = ?el @ [c]" by (auto simp: close_candidates_def)
    show ?thesis
    proof (cases "?el = []")
      case True': True
      then show ?thesis
        using True snoc bd el by (simp add: consider_candidate_def scan_state_def closest_def least_distance_def
            eq_ignore_ascii_case_def)
    next
      case False
      note ne = closest_nonempty [OF False, of key]
      then have hd: "hd (closest key ?el @ [c]) = hd (closest key ?el)" by simp
      show ?thesis
        using True False snoc bd el ne hd
        by (auto simp: consider_candidate_def scan_state_def closest_snoc least_distance_snoc eq_ignore_ascii_case_def)
    qed
  qed
qed

section \<open>Properties\<close>

text \<open>C39. The bounded two-row computation is the edit distance: it answers \<open>Some d\<close> exactly when
  some script of \<open>d\<close> deletions, insertions and substitutions turns one folded string into the
  other, none shorter does, and \<open>d\<close> is within the bound; the early exits, on the difference
  of the lengths and on a row that is too large, never lose a distance within the bound.\<close>

theorem bounded_distance_shortest_script:
  "bounded_distance s t mx = Some d \<longleftrightarrow>
     edits d (folded_chars s) (folded_chars t) \<and> d \<le> mx
     \<and> \<not> (\<exists>k. k < d \<and> edits k (folded_chars s) (folded_chars t))"
proof -
  let ?e = "edit_distance (folded_chars s) (folded_chars t)"
  have "edits d (folded_chars s) (folded_chars t) \<and> \<not> (\<exists>k. k < d \<and> edits k (folded_chars s) (folded_chars t)) \<longleftrightarrow> d = ?e"
    using edits_edit_distance [of "folded_chars s" "folded_chars t"]
      edit_distance_least [of _ "folded_chars s" "folded_chars t"] by (metis leD le_neq_implies_less)
  then show ?thesis by (auto simp: bounded_distance_eq Let_def)
qed

text \<open>A suggestion is the closest candidate, if that is one key: among the candidates of at
  least three characters within distance two, those at the least distance must all be one
  key up to case, and the first of them is answered; otherwise nothing is.\<close>

theorem best_suggestion_closest:
  "best_suggestion key candidates =
     (case closest key (close_candidates key candidates) of
        [] \<Rightarrow> None
      | c # cs \<Rightarrow> if list_all (\<lambda>x. eq_ignore_ascii_case x c) cs then Some c else None)"
  using closest_nonempty [of "close_candidates key candidates" key]
  by (auto simp: best_suggestion_def consider_candidates scan_state_def closest_def eq_ignore_ascii_case_def
      split: list.split)

end
