(* ===== verification/Ref_Count.thy ===== *)
theory Ref_Count
  imports Rust_Prelude "HOL-Library.Multiset"
begin

text \<open>
  Reference counts over hash maps (\<open>crates/index/src/lib.rs\<close>): every index that can be updated
  one file at a time keeps, for each name, how many definitions carry it, and forgets a name
  only with its last definition. The locale \<open>ref_counts\<close> is what the indexes rely on: adding
  and releasing one definition moves one count by one, and releasing what was added never
  fails. It is interpreted here on plain counters and in \<open>Type_Index\<close> on the counters that
  tell the base game from the workspace.
\<close>

section \<open>Loops that may panic\<close>

text \<open>A loop over a list whose body may panic (\<open>None\<close>).\<close>

primrec fold_opt :: "('a \<Rightarrow> 's \<Rightarrow> 's option) \<Rightarrow> 'a list \<Rightarrow> 's \<Rightarrow> 's option" where
  "fold_opt f [] s = Some s"
| "fold_opt f (x # xs) s = Option.bind (f x s) (fold_opt f xs)"

lemma fold_opt_append: "fold_opt f (xs @ ys) s = Option.bind (fold_opt f xs s) (fold_opt f ys)"
  by (induction xs arbitrary: s) (auto simp: bind_eq_Some_conv split: Option.bind_splits)

section \<open>Entries of a hash map\<close>

text \<open>\<open>*m.entry(k).or_default()\<close>, read and then updated in place.\<close>

definition get_or :: "'v \<Rightarrow> ('k \<times> 'v) list \<Rightarrow> 'k \<Rightarrow> 'v" where
  "get_or d m k = (case map_of m k of None \<Rightarrow> d | Some v \<Rightarrow> v)"

definition upd_entry :: "'v \<Rightarrow> 'k \<Rightarrow> ('v \<Rightarrow> 'v) \<Rightarrow> ('k \<times> 'v) list \<Rightarrow> ('k \<times> 'v) list" where
  "upd_entry d k f m = AList.update k (f (get_or d m k)) m"

lemma get_or_update [simp]: "get_or d (AList.update k v m) x = (if x = k then v else get_or d m x)"
  by (simp add: get_or_def)

lemma get_or_upd_entry [simp]:
  "get_or d (upd_entry d k f m) x = (if x = k then f (get_or d m x) else get_or d m x)"
  by (simp add: upd_entry_def)

lemma get_or_delete [simp]: "get_or d (AList.delete k m) x = (if x = k then d else get_or d m x)"
  by (simp add: get_or_def delete_conv')

lemma get_or_absent: "k \<notin> fst ` set m \<Longrightarrow> get_or d m k = d"
  by (simp add: get_or_def map_of_eq_None_iff [THEN iffD2])

lemma get_or_Nil [simp]: "get_or d [] x = d"
  by (simp add: get_or_def)

lemma distinct_upd_entry: "distinct (map fst m) \<Longrightarrow> distinct (map fst (upd_entry d k f m))"
  by (simp add: upd_entry_def distinct_update)

lemma map_of_upd_entry [simp]: "map_of (upd_entry d k f m) = (map_of m)(k \<mapsto> f (get_or d m k))"
  by (simp add: upd_entry_def)

section \<open>Counters\<close>

text \<open>
  \<open>dec_ref\<close> drops one reference and removes the entry with its last one; a count of zero would
  underflow.
\<close>

definition dec_ref :: "'k \<Rightarrow> ('k \<times> nat) list \<Rightarrow> ('k \<times> nat) list option" where
  "dec_ref k m =
     (case map_of m k of
        None \<Rightarrow> Some m
      | Some c \<Rightarrow> if c = 0 then None
                  else if c - 1 = 0 then Some (AList.delete k m)
                  else Some (AList.update k (c - 1) m))"

text \<open>\<open>*m.entry(k).or_insert(0) += 1\<close>.\<close>

definition inc_ref :: "'k \<Rightarrow> ('k \<times> nat) list \<Rightarrow> ('k \<times> nat) list" where
  "inc_ref k m = upd_entry 0 k (\<lambda>c. c + 1) m"

definition counters_ok :: "('k \<times> nat) list \<Rightarrow> bool" where
  "counters_ok m \<longleftrightarrow> distinct (map fst m) \<and> 0 \<notin> ran (map_of m)"

lemma counter_zero_iff:
  "counters_ok m \<Longrightarrow> get_or 0 m k = 0 \<longleftrightarrow> map_of m k = None"
  by (auto simp: counters_ok_def get_or_def ran_def split: option.splits intro!: gr0I)

section \<open>The interface\<close>

locale ref_counts =
  fixes cnt :: "'t \<Rightarrow> 'k \<Rightarrow> nat" and ok :: "'t \<Rightarrow> bool"
    and incr :: "'k \<Rightarrow> 't \<Rightarrow> 't" and decr :: "'k \<Rightarrow> 't \<Rightarrow> 't option"
  assumes ok_incr: "ok t \<Longrightarrow> ok (incr k t)"
    and cnt_incr: "ok t \<Longrightarrow> cnt (incr k t) x = cnt t x + (if x = k then 1 else 0)"
    and decr_some: "ok t \<Longrightarrow> 0 < cnt t k \<Longrightarrow>
      \<exists>t'. decr k t = Some t' \<and> ok t' \<and> (\<forall>x. cnt t' x = cnt t x - (if x = k then 1 else 0))"
begin

lemma fold_incr:
  assumes "ok t"
  shows "ok (fold incr ks t)" "cnt (fold incr ks t) x = cnt t x + count_list ks x"
proof -
  have "ok (fold incr ks t) \<and> cnt (fold incr ks t) x = cnt t x + count_list ks x"
    using assms by (induction ks arbitrary: t) (auto simp: ok_incr cnt_incr)
  then show "ok (fold incr ks t)" "cnt (fold incr ks t) x = cnt t x + count_list ks x" by auto
qed

lemma fold_decr:
  assumes "ok t" "\<And>x. count_list ks x \<le> cnt t x"
  shows "\<exists>t'. fold_opt decr ks t = Some t' \<and> ok t' \<and> (\<forall>x. cnt t' x = cnt t x - count_list ks x)"
  using assms
proof (induction ks arbitrary: t)
  case (Cons k ks)
  have "0 < cnt t k" using Cons.prems(2) [of k] by simp
  then obtain t1 where t1: "decr k t = Some t1" "ok t1"
    "\<And>x. cnt t1 x = cnt t x - (if x = k then 1 else 0)"
    using decr_some Cons.prems(1) by blast
  have "count_list ks x \<le> cnt t1 x" for x
    using Cons.prems(2) [of x] t1(3) [of x] by (auto split: if_splits)
  then obtain t2 where "fold_opt decr ks t1 = Some t2" "ok t2"
    "\<And>x. cnt t2 x = cnt t1 x - count_list ks x"
    using Cons.IH [OF t1(2)] by blast
  then show ?case using t1 by auto
qed simp

text \<open>Releasing what was just added brings every count back.\<close>

lemma add_release:
  assumes "ok t"
  shows "\<exists>t'. fold_opt decr ks (fold incr ks t) = Some t' \<and> ok t' \<and> (\<forall>x. cnt t' x = cnt t x)"
  using fold_decr [of "fold incr ks t" ks] fold_incr [OF assms] by auto

text \<open>
  A table of what each file contributed, counted in \<open>t\<close>: dropping a file's entry, and adding
  one for a file that has none, keep the counts equal to the table.
\<close>

lemma drop_file:
  assumes "ok t" "distinct (map fst per)" "map_of per f = Some ks"
    and sync: "\<And>x. cnt t x = count_list (concat (map snd per)) x"
  shows "\<exists>t'. fold_opt decr ks t = Some t' \<and> ok t' \<and>
    (\<forall>x. cnt t' x = count_list (concat (map snd (AList.delete f per))) x)"
proof -
  have split: "count_list (concat (map snd per)) x =
      count_list ks x + count_list (concat (map snd (AList.delete f per))) x" for x
    using assms(2,3)
  proof (induction per)
    case (Cons p per)
    show ?case
    proof (cases "fst p = f")
      case True
      then have "f \<notin> set (map fst per)" "snd p = ks" using Cons.prems by (auto split: if_splits)
      then show ?thesis using True by (simp add: delete_simps delete_id)
    next
      case False
      then show ?thesis using Cons by (cases p) auto
    qed
  qed simp
  have "count_list ks x \<le> cnt t x" for x
    by (simp add: sync split)
  from fold_decr [OF assms(1) this] show ?thesis by (auto simp: sync split)
qed

lemma add_file:
  assumes "ok t" "f \<notin> fst ` set per"
    and sync: "\<And>x. cnt t x = count_list (concat (map snd per)) x"
  shows "ok (fold incr ks t)"
    "cnt (fold incr ks t) x = count_list (concat (map snd (AList.update f ks per))) x"
proof -
  have "AList.update f ks per = per @ [(f, ks)]"
    using assms(2) by (induction per) auto
  then show "ok (fold incr ks t)"
    "cnt (fold incr ks t) x = count_list (concat (map snd (AList.update f ks per))) x"
    using fold_incr [OF assms(1), of ks] by (auto simp: sync)
qed

end

lemma inc_ref_ok: "counters_ok m \<Longrightarrow> counters_ok (inc_ref k m)"
  by (auto simp: counters_ok_def inc_ref_def distinct_upd_entry ran_def split: if_splits)

lemma dec_ref_some:
  assumes "counters_ok m" "0 < get_or 0 m k"
  shows "\<exists>m'. dec_ref k m = Some m' \<and> counters_ok m' \<and>
    (\<forall>x. get_or 0 m' x = get_or 0 m x - (if x = k then 1 else 0))"
proof -
  obtain c where c: "map_of m k = Some c" "0 < c"
    using assms(2) by (auto simp: get_or_def split: option.splits)
  show ?thesis
  proof (cases "c = 1")
    case True
    then show ?thesis
      using assms c
      by (auto simp: dec_ref_def counters_ok_def distinct_delete delete_conv' ran_def get_or_def
        split: if_splits)
  next
    case False
    then show ?thesis
      using assms c
      by (auto simp: dec_ref_def counters_ok_def distinct_update ran_def get_or_def split: if_splits)
  qed
qed

interpretation counters: ref_counts "get_or (0 :: nat)" counters_ok inc_ref dec_ref
  by unfold_locales (auto simp: inc_ref_ok dec_ref_some, simp_all add: inc_ref_def)

end
