(* ===== verification/Name_Index.thy ===== *)
theory Name_Index
  imports Ref_Count Rust_Strings
begin

text \<open>
  The name tables of the index: values collected per enum or namespace
  (\<open>crates/index/src/dynamic_values.rs\<close>, \<open>NamedValueIndex\<close>), script variables and scripted
  localisation (\<open>VarIndex\<close> and \<open>ScriptedLocIndex\<close> of \<open>crates/index/src/type_index.rs\<close>). Each
  counts how often a name is defined; two of them also remember what every file contributed,
  so that a file can be indexed again. The properties: the counts always equal the table of
  contributions, a lookup finds exactly the names some file contributes, and an update never
  underflows. An iteration over a hash map's entries takes them in the order of the
  association list that stands for it; the properties hold for every such list.
\<close>

section \<open>Values by name\<close>

record NamedValueIndex =
  by_name :: "(rstr \<times> (rstr \<times> nat) list) list"
  per_file :: "(rstr \<times> (rstr \<times> rstr) list) list"

definition nvi_new :: NamedValueIndex where
  "nvi_new = \<lparr>by_name = [], per_file = []\<rparr>"

text \<open>One step of each loop: count a value of a name, and drop one.\<close>

definition nv_add :: "rstr \<times> rstr \<Rightarrow> (rstr \<times> (rstr \<times> nat) list) list \<Rightarrow> (rstr \<times> (rstr \<times> nat) list) list" where
  "nv_add nv m = upd_entry [] (fst nv) (inc_ref (snd nv)) m"

definition nv_release ::
  "rstr \<times> rstr \<Rightarrow> (rstr \<times> (rstr \<times> nat) list) list \<Rightarrow> (rstr \<times> (rstr \<times> nat) list) list option" where
  "nv_release nv m =
     (case map_of m (fst nv) of
        None \<Rightarrow> Some m
      | Some vals \<Rightarrow>
          Option.bind (dec_ref (snd nv) vals) (\<lambda>vals'.
            Some (if vals' = [] then AList.delete (fst nv) m else AList.update (fst nv) vals' m)))"

definition nvi_remove_file :: "rstr \<Rightarrow> NamedValueIndex \<Rightarrow> NamedValueIndex option" where
  "nvi_remove_file f idx =
     (case map_of (per_file idx) f of
        None \<Rightarrow> Some idx
      | Some flat \<Rightarrow>
          Option.bind (fold_opt nv_release flat (by_name idx)) (\<lambda>m.
            Some \<lparr>by_name = m, per_file = AList.delete f (per_file idx)\<rparr>))"

text \<open>The inner and the outer loop of \<open>merge_file\<close>, over \<open>by_name\<close> and the flat list.\<close>

definition merge_values ::
  "rstr \<times> rstr list \<Rightarrow> (rstr \<times> (rstr \<times> nat) list) list \<times> (rstr \<times> rstr) list
   \<Rightarrow> (rstr \<times> (rstr \<times> nat) list) list \<times> (rstr \<times> rstr) list" where
  "merge_values item st =
     fold (\<lambda>v (m, flat). (nv_add (fst item, v) m, flat @ [(fst item, v)])) (snd item) st"

definition nvi_merge_file :: "rstr \<Rightarrow> (rstr \<times> rstr list) list \<Rightarrow> NamedValueIndex \<Rightarrow> NamedValueIndex option" where
  "nvi_merge_file f items idx =
     Option.bind (nvi_remove_file f idx) (\<lambda>idx1.
       let (m, flat) = fold merge_values items (by_name idx1, [])
       in Some \<lparr>by_name = m,
            per_file = (if flat \<noteq> [] then AList.update f flat (per_file idx1) else per_file idx1)\<rparr>)"

definition nvi_contains :: "NamedValueIndex \<Rightarrow> rstr \<Rightarrow> rstr \<Rightarrow> bool" where
  "nvi_contains idx name v =
     (case map_of (by_name idx) name of None \<Rightarrow> False | Some m \<Rightarrow> map_of m v \<noteq> None)"

definition nvi_values :: "NamedValueIndex \<Rightarrow> rstr \<Rightarrow> rstr list" where
  "nvi_values idx name = map fst (get_or [] (by_name idx) name)"

definition nvi_is_empty :: "NamedValueIndex \<Rightarrow> bool" where
  "nvi_is_empty idx \<longleftrightarrow> by_name idx = []"

definition nvi_export :: "NamedValueIndex \<Rightarrow> (rstr \<times> rstr list) list" where
  "nvi_export idx = map (\<lambda>(name, vals). (name, map fst vals)) (by_name idx)"

text \<open>What a file contributes, and the state every operation keeps.\<close>

definition contribution :: "NamedValueIndex \<Rightarrow> rstr \<Rightarrow> (rstr \<times> rstr) list" where
  "contribution idx f = get_or [] (per_file idx) f"

definition nv_count :: "(rstr \<times> (rstr \<times> nat) list) list \<Rightarrow> rstr \<times> rstr \<Rightarrow> nat" where
  "nv_count m nv = get_or 0 (get_or [] m (fst nv)) (snd nv)"

definition nv_ok :: "(rstr \<times> (rstr \<times> nat) list) list \<Rightarrow> bool" where
  "nv_ok m \<longleftrightarrow> distinct (map fst m) \<and> (\<forall>name vals. map_of m name = Some vals \<longrightarrow> counters_ok vals \<and> vals \<noteq> [])"

definition nvi_ok :: "NamedValueIndex \<Rightarrow> bool" where
  "nvi_ok idx \<longleftrightarrow> nv_ok (by_name idx) \<and> distinct (map fst (per_file idx)) \<and>
     (\<forall>nv. nv_count (by_name idx) nv = count_list (concat (map snd (per_file idx))) nv)"

lemma upd_entry_neq_Nil [simp]: "upd_entry d k f m \<noteq> []"
  by (cases m) (auto simp: upd_entry_def split: prod.splits)

lemma nv_ok_get: "nv_ok m \<Longrightarrow> counters_ok (get_or [] m name)"
  by (auto simp: nv_ok_def get_or_def counters_ok_def split: option.splits)

lemma nv_ok_add: "nv_ok m \<Longrightarrow> nv_ok (nv_add nv m)"
  using inc_ref_ok [OF nv_ok_get]
  by (auto simp: nv_ok_def nv_add_def distinct_upd_entry inc_ref_def simp flip: fun_upd_def split: if_splits)

lemma nv_release_some:
  assumes "nv_ok m" "0 < nv_count m k"
  shows "\<exists>m'. nv_release k m = Some m' \<and> nv_ok m' \<and>
    (\<forall>x. nv_count m' x = nv_count m x - (if x = k then 1 else 0))"
proof -
  obtain vals where vals: "map_of m (fst k) = Some vals"
    using assms(2) by (auto simp: nv_count_def get_or_def split: option.splits)
  then have pos: "0 < get_or 0 vals (snd k)" and ok: "counters_ok vals"
    using assms by (auto simp: nv_count_def nv_ok_def get_or_def)
  obtain vals' where v': "dec_ref (snd k) vals = Some vals'" "counters_ok vals'"
    "\<And>x. get_or 0 vals' x = get_or 0 vals x - (if x = snd k then 1 else 0)"
    using dec_ref_some [OF ok pos] by auto
  let ?m = "if vals' = [] then AList.delete (fst k) m else AList.update (fst k) vals' m"
  have "nv_release k m = Some ?m" using vals v' by (simp add: nv_release_def)
  moreover have "nv_ok ?m"
    using assms(1) v'(2)
    by (auto simp: nv_ok_def distinct_delete distinct_update delete_conv' simp del: map_of_eq_Some_iff split: if_splits)
  moreover have "get_or [] ?m x = (if x = fst k then vals' else get_or [] m x)" for x by simp
  then have "nv_count ?m x = nv_count m x - (if x = k then 1 else 0)" for x
    using v'(3) vals by (cases x; cases k) (auto simp: nv_count_def get_or_def)
  ultimately show ?thesis by blast
qed

interpretation named_values: ref_counts nv_count nv_ok nv_add nv_release
proof
  show "nv_count (nv_add k t) x = nv_count t x + (if x = k then 1 else 0)" for t k x
    by (cases x; cases k) (auto simp: nv_count_def nv_add_def inc_ref_def)
qed (simp_all only: nv_ok_add nv_release_some)

lemma merge_values_fold:
  "fold merge_values items (m, acc) =
     (fold nv_add (concat (map (\<lambda>(n, vs). map (Pair n) vs) items)) m,
      acc @ concat (map (\<lambda>(n, vs). map (Pair n) vs) items))"
proof -
  have inner: "fold (\<lambda>v (m, flat). (nv_add (n, v) m, flat @ [(n, v)])) vs (m, flat) =
      (fold nv_add (map (Pair n) vs) m, flat @ map (Pair n) vs)" for n vs m flat
    by (induction vs arbitrary: m flat) auto
  show ?thesis
    by (induction items arbitrary: m acc) (auto simp: merge_values_def inner)
qed

lemma contribution_delete:
  "get_or [] (AList.delete f per) g = (if g = f then [] else get_or [] per g)"
  by simp

lemma nvi_remove_some:
  assumes "nvi_ok idx"
  shows "\<exists>idx'. nvi_remove_file f idx = Some idx' \<and> nvi_ok idx' \<and>
    contribution idx' f = [] \<and> map_of (per_file idx') f = None \<and>
    (\<forall>g. g \<noteq> f \<longrightarrow> contribution idx' g = contribution idx g)"
proof (cases "map_of (per_file idx) f")
  case None
  then show ?thesis using assms by (simp add: nvi_remove_file_def contribution_def get_or_def)
next
  case (Some flat)
  obtain m where m: "fold_opt nv_release flat (by_name idx) = Some m" "nv_ok m"
    "\<forall>x. nv_count m x = count_list (concat (map snd (AList.delete f (per_file idx)))) x"
    using named_values.drop_file [of "by_name idx" "per_file idx" f flat] assms Some
    unfolding nvi_ok_def by blast
  let ?idx = "\<lparr>by_name = m, per_file = AList.delete f (per_file idx)\<rparr>"
  have "nvi_remove_file f idx = Some ?idx" using Some m(1) by (simp add: nvi_remove_file_def)
  moreover have "nvi_ok ?idx" using assms m(2,3) by (simp add: nvi_ok_def distinct_delete)
  moreover have "map_of (per_file ?idx) f = None" by (simp add: delete_conv')
  ultimately show ?thesis by (auto simp: contribution_def)
qed

lemma nvi_merge_some:
  assumes "nvi_ok idx"
  shows "\<exists>idx'. nvi_merge_file f items idx = Some idx' \<and> nvi_ok idx' \<and>
    contribution idx' f = concat (map (\<lambda>(n, vs). map (Pair n) vs) items) \<and>
    (\<forall>g. g \<noteq> f \<longrightarrow> contribution idx' g = contribution idx g)"
proof -
  obtain idx1 where idx1: "nvi_remove_file f idx = Some idx1" "nvi_ok idx1"
    "contribution idx1 f = []" "map_of (per_file idx1) f = None"
    "\<forall>g. g \<noteq> f \<longrightarrow> contribution idx1 g = contribution idx g"
    using nvi_remove_some [OF assms] by blast
  define flat where "flat = concat (map (\<lambda>(n, vs). map (Pair n) vs) items)"
  let ?idx = "\<lparr>by_name = fold nv_add flat (by_name idx1),
    per_file = (if flat \<noteq> [] then AList.update f flat (per_file idx1) else per_file idx1)\<rparr>"
  have merge: "nvi_merge_file f items idx = Some ?idx"
    by (simp add: nvi_merge_file_def idx1(1) merge_values_fold flat_def)
  have fresh: "f \<notin> fst ` set (per_file idx1)" using idx1(4) by (simp add: map_of_eq_None_iff)
  have "nvi_ok ?idx"
  proof (cases "flat = []")
    case True
    then show ?thesis using idx1(2) by (simp add: nvi_ok_def)
  next
    case False
    then show ?thesis
      using idx1(2) named_values.add_file [OF _ fresh, of "by_name idx1" flat]
      by (auto simp: nvi_ok_def distinct_update)
  qed
  moreover have "contribution ?idx f = flat"
    using idx1(3) by (auto simp: contribution_def)
  moreover have "\<forall>g. g \<noteq> f \<longrightarrow> contribution ?idx g = contribution idx g"
    using idx1(5) by (auto simp: contribution_def)
  ultimately show ?thesis
    using merge unfolding flat_def by blast
qed

lemma nvi_contains_iff:
  assumes "nvi_ok idx"
  shows "nvi_contains idx n v \<longleftrightarrow> (\<exists>f. (n, v) \<in> set (contribution idx f))"
proof -
  have ok: "nv_ok (by_name idx)" and dist: "distinct (map fst (per_file idx))"
    and sync: "nv_count (by_name idx) (n, v) = count_list (concat (map snd (per_file idx))) (n, v)"
    using assms by (auto simp: nvi_ok_def)
  have "nvi_contains idx n v \<longleftrightarrow> 0 < nv_count (by_name idx) (n, v)"
    using counter_zero_iff [of "get_or [] (by_name idx) n" v] nv_ok_get [OF ok, of n]
    by (auto simp: nvi_contains_def nv_count_def get_or_def split: option.splits)
  also have "\<dots> \<longleftrightarrow> (n, v) \<in> set (concat (map snd (per_file idx)))"
    using count_list_0_iff [of "concat (map snd (per_file idx))" "(n, v)"] by (auto simp: sync)
  also have "\<dots> \<longleftrightarrow> (\<exists>f. (n, v) \<in> set (contribution idx f))"
    using dist by (force simp: contribution_def get_or_def split: option.splits)
  finally show ?thesis .
qed

section \<open>Variables\<close>

text \<open>Splitting on any of several bytes.\<close>

fun split_bytes :: "(char \<Rightarrow> bool) \<Rightarrow> rstr \<Rightarrow> rstr list" where
  "split_bytes P [] = [[]]"
| "split_bytes P (b # bs) =
     (if P b then [] # split_bytes P bs
      else (case split_bytes P bs of p # ps \<Rightarrow> (b # p) # ps | [] \<Rightarrow> [[b]]))"

record VarIndex =
  var_names :: "(rstr \<times> nat) list"
  var_vanilla :: "rstr set"

definition var_new :: VarIndex where
  "var_new = \<lparr>var_names = [], var_vanilla = {}\<rparr>"

definition var_is_empty :: "VarIndex \<Rightarrow> bool" where
  "var_is_empty vi \<longleftrightarrow> var_names vi = [] \<and> var_vanilla vi = {}"

definition var_len :: "VarIndex \<Rightarrow> nat" where
  "var_len vi = length (var_names vi) + card {v \<in> var_vanilla vi. map_of (var_names vi) v = None}"

definition var_normalize :: "rstr \<Rightarrow> rstr" where
  "var_normalize raw =
     (let s = trim_matches (CHR 0x22) (trim raw);
          before_amp = hd (split_byte (CHR ''@'') s);
          last_seg = last_piece (CHR ''.'') before_amp;
          core = hd (split_bytes (\<lambda>b. b = CHR ''?'' \<or> b = CHR ''^'') last_seg)
      in to_ascii_lowercase (trim core))"

definition var_add_name :: "rstr \<Rightarrow> VarIndex \<Rightarrow> VarIndex" where
  "var_add_name raw vi =
     (let n = var_normalize raw
      in if n \<noteq> [] then vi\<lparr>var_names := inc_ref n (var_names vi)\<rparr> else vi)"

definition var_remove_name :: "rstr \<Rightarrow> VarIndex \<Rightarrow> VarIndex option" where
  "var_remove_name raw vi =
     Option.bind (dec_ref (var_normalize raw) (var_names vi)) (\<lambda>m. Some (vi\<lparr>var_names := m\<rparr>))"

definition var_contains :: "VarIndex \<Rightarrow> rstr \<Rightarrow> bool" where
  "var_contains vi raw =
     (let n = var_normalize raw in map_of (var_names vi) n \<noteq> None \<or> n \<in> var_vanilla vi)"

definition var_set_vanilla_names :: "rstr list \<Rightarrow> VarIndex \<Rightarrow> VarIndex" where
  "var_set_vanilla_names names vi =
     vi\<lparr>var_vanilla := fold (\<lambda>raw s. let n = var_normalize raw in if n \<noteq> [] then insert n s else s) names {}\<rparr>"

definition var_clear_vanilla_names :: "VarIndex \<Rightarrow> VarIndex" where
  "var_clear_vanilla_names vi = vi\<lparr>var_vanilla := {}\<rparr>"

definition var_merge :: "VarIndex \<Rightarrow> VarIndex \<Rightarrow> VarIndex" where
  "var_merge other vi =
     vi\<lparr>var_names := fold (\<lambda>(name, c). upd_entry 0 name (\<lambda>d. d + c)) (var_names other) (var_names vi)\<rparr>"

text \<open>How often a raw token's variable is defined by the workspace.\<close>

abbreviation var_count :: "VarIndex \<Rightarrow> rstr \<Rightarrow> nat" where
  "var_count vi raw \<equiv> get_or 0 (var_names vi) (var_normalize raw)"

lemma var_add_names:
  assumes "counters_ok (var_names vi)"
  shows "counters_ok (var_names (fold var_add_name raws vi))"
    "var_vanilla (fold var_add_name raws vi) = var_vanilla vi"
    "n \<noteq> [] \<Longrightarrow> get_or 0 (var_names (fold var_add_name raws vi)) n =
       get_or 0 (var_names vi) n + count_list (map var_normalize raws) n"
proof -
  have "var_names (fold var_add_name raws vi) =
      fold inc_ref (filter (\<lambda>n. n \<noteq> []) (map var_normalize raws)) (var_names vi)"
    by (induction raws arbitrary: vi) (auto simp: var_add_name_def Let_def)
  moreover have "count_list (filter (\<lambda>n. n \<noteq> []) ns) n = count_list ns n" if "n \<noteq> []" for ns n
    using that by (induction ns) auto
  ultimately show "counters_ok (var_names (fold var_add_name raws vi))"
    "n \<noteq> [] \<Longrightarrow> get_or 0 (var_names (fold var_add_name raws vi)) n =
       get_or 0 (var_names vi) n + count_list (map var_normalize raws) n"
    using counters.fold_incr [OF assms] by auto
  show "var_vanilla (fold var_add_name raws vi) = var_vanilla vi"
    by (induction raws arbitrary: vi) (auto simp: var_add_name_def Let_def)
qed

lemma var_remove_some:
  assumes "counters_ok (var_names vi)"
  shows "\<exists>vi'. var_remove_name raw vi = Some vi' \<and> counters_ok (var_names vi') \<and>
    var_vanilla vi' = var_vanilla vi \<and>
    (\<forall>n. get_or 0 (var_names vi') n = get_or 0 (var_names vi) n - (if n = var_normalize raw then 1 else 0))"
proof (cases "get_or 0 (var_names vi) (var_normalize raw) = 0")
  case True
  then have "map_of (var_names vi) (var_normalize raw) = None"
    using assms by (simp only: counter_zero_iff)
  then have "var_remove_name raw vi = Some vi" by (simp add: var_remove_name_def dec_ref_def)
  then show ?thesis using assms True by auto
next
  case False
  then show ?thesis
    using dec_ref_some [OF assms, of "var_normalize raw"] by (auto simp: var_remove_name_def)
qed

section \<open>Scripted localisation\<close>

record ScriptedLocIndex =
  sl_names :: "(rstr \<times> nat) list"
  sl_per_file :: "(rstr \<times> rstr list) list"
  sl_vanilla :: "rstr set"

definition sl_new :: ScriptedLocIndex where
  "sl_new = \<lparr>sl_names = [], sl_per_file = [], sl_vanilla = {}\<rparr>"

definition sl_remove_file :: "rstr \<Rightarrow> ScriptedLocIndex \<Rightarrow> ScriptedLocIndex option" where
  "sl_remove_file f idx =
     (case map_of (sl_per_file idx) f of
        None \<Rightarrow> Some idx
      | Some flat \<Rightarrow>
          Option.bind (fold_opt dec_ref flat (sl_names idx)) (\<lambda>m.
            Some (idx\<lparr>sl_names := m, sl_per_file := AList.delete f (sl_per_file idx)\<rparr>)))"

definition sl_merge_file :: "rstr \<Rightarrow> rstr list \<Rightarrow> ScriptedLocIndex \<Rightarrow> ScriptedLocIndex option" where
  "sl_merge_file f names idx =
     Option.bind (sl_remove_file f idx) (\<lambda>idx1.
       if names = [] then Some idx1
       else (let (m, flat) =
               fold (\<lambda>name (m, flat). let key = to_ascii_lowercase name in (inc_ref key m, flat @ [key]))
                 names (sl_names idx1, [])
             in Some (idx1\<lparr>sl_names := m, sl_per_file := AList.update f flat (sl_per_file idx1)\<rparr>)))"

definition sl_set_vanilla_names :: "rstr list \<Rightarrow> ScriptedLocIndex \<Rightarrow> ScriptedLocIndex" where
  "sl_set_vanilla_names names idx =
     idx\<lparr>sl_vanilla := set (map to_ascii_lowercase (filter (\<lambda>n. n \<noteq> []) names))\<rparr>"

definition sl_is_empty :: "ScriptedLocIndex \<Rightarrow> bool" where
  "sl_is_empty idx \<longleftrightarrow> sl_names idx = [] \<and> sl_vanilla idx = {}"

definition sl_contains :: "ScriptedLocIndex \<Rightarrow> rstr \<Rightarrow> bool" where
  "sl_contains idx name =
     (let lower = to_ascii_lowercase name
      in map_of (sl_names idx) lower \<noteq> None \<or> lower \<in> sl_vanilla idx)"

definition sl_ok :: "ScriptedLocIndex \<Rightarrow> bool" where
  "sl_ok idx \<longleftrightarrow> counters_ok (sl_names idx) \<and> distinct (map fst (sl_per_file idx)) \<and>
     (\<forall>n. get_or 0 (sl_names idx) n = count_list (concat (map snd (sl_per_file idx))) n)"

lemma sl_remove_some:
  assumes "sl_ok idx"
  shows "\<exists>idx'. sl_remove_file f idx = Some idx' \<and> sl_ok idx' \<and> sl_vanilla idx' = sl_vanilla idx \<and>
    map_of (sl_per_file idx') f = None \<and>
    (\<forall>g. g \<noteq> f \<longrightarrow> get_or [] (sl_per_file idx') g = get_or [] (sl_per_file idx) g)"
proof (cases "map_of (sl_per_file idx) f")
  case None
  then show ?thesis using assms by (simp add: sl_remove_file_def)
next
  case (Some flat)
  obtain m where m: "fold_opt dec_ref flat (sl_names idx) = Some m" "counters_ok m"
    "\<forall>x. get_or 0 m x = count_list (concat (map snd (AList.delete f (sl_per_file idx)))) x"
    using counters.drop_file [of "sl_names idx" "sl_per_file idx" f flat] assms Some
    unfolding sl_ok_def by blast
  then show ?thesis
    using assms Some by (auto simp: sl_remove_file_def sl_ok_def distinct_delete delete_conv')
qed

lemma sl_merge_some:
  assumes "sl_ok idx"
  shows "\<exists>idx'. sl_merge_file f names idx = Some idx' \<and> sl_ok idx' \<and> sl_vanilla idx' = sl_vanilla idx \<and>
    get_or [] (sl_per_file idx') f = map to_ascii_lowercase names \<and>
    (\<forall>g. g \<noteq> f \<longrightarrow> get_or [] (sl_per_file idx') g = get_or [] (sl_per_file idx) g)"
proof -
  obtain idx1 where idx1: "sl_remove_file f idx = Some idx1" "sl_ok idx1" "sl_vanilla idx1 = sl_vanilla idx"
    "map_of (sl_per_file idx1) f = None"
    "\<forall>g. g \<noteq> f \<longrightarrow> get_or [] (sl_per_file idx1) g = get_or [] (sl_per_file idx) g"
    using sl_remove_some [OF assms] by blast
  define flat where "flat = map to_ascii_lowercase names"
  have loop: "fold (\<lambda>name (m, flat). let key = to_ascii_lowercase name in (inc_ref key m, flat @ [key])) names (m, acc)
      = (fold inc_ref (map to_ascii_lowercase names) m, acc @ map to_ascii_lowercase names)" for m acc
    by (induction names arbitrary: m acc) (auto simp: Let_def)
  let ?idx = "if names = [] then idx1
    else idx1\<lparr>sl_names := fold inc_ref flat (sl_names idx1), sl_per_file := AList.update f flat (sl_per_file idx1)\<rparr>"
  have merge: "sl_merge_file f names idx = Some ?idx"
    by (simp add: sl_merge_file_def idx1(1) loop flat_def)
  have fresh: "f \<notin> fst ` set (sl_per_file idx1)" using idx1(4) by (simp add: map_of_eq_None_iff)
  have "sl_ok ?idx"
    using idx1(2) counters.add_file [OF _ fresh, of "sl_names idx1" flat]
    by (auto simp: sl_ok_def distinct_update)
  moreover have "get_or [] (sl_per_file ?idx) f = flat"
    using idx1(4) by (auto simp: flat_def get_or_def)
  moreover have "sl_vanilla ?idx = sl_vanilla idx"
    "\<forall>g. g \<noteq> f \<longrightarrow> get_or [] (sl_per_file ?idx) g = get_or [] (sl_per_file idx) g"
    using idx1(3,5) by auto
  ultimately show ?thesis
    using merge unfolding flat_def by blast
qed

lemma sl_contains_iff:
  assumes "sl_ok idx"
  shows "sl_contains idx n \<longleftrightarrow> to_ascii_lowercase n \<in> sl_vanilla idx \<or>
    (\<exists>f. to_ascii_lowercase n \<in> set (get_or [] (sl_per_file idx) f))"
proof -
  let ?n = "to_ascii_lowercase n"
  have "map_of (sl_names idx) ?n \<noteq> None \<longleftrightarrow> 0 < get_or 0 (sl_names idx) ?n"
    using counter_zero_iff [of "sl_names idx" ?n] assms by (auto simp: sl_ok_def)
  also have "\<dots> \<longleftrightarrow> ?n \<in> set (concat (map snd (sl_per_file idx)))"
    using assms count_list_0_iff [of "concat (map snd (sl_per_file idx))" ?n] by (auto simp: sl_ok_def)
  also have "\<dots> \<longleftrightarrow> (\<exists>f. ?n \<in> set (get_or [] (sl_per_file idx) f))"
    using assms by (force simp: sl_ok_def get_or_def split: option.splits)
  finally show ?thesis by (auto simp: sl_contains_def Let_def)
qed

section \<open>Files\<close>

record FileIndex =
  fi_files :: "rstr set"
  fi_exact :: "(rstr \<times> rstr) list"
  fi_case_sensitive :: bool

definition fi_new :: FileIndex where
  "fi_new = \<lparr>fi_files = {}, fi_exact = [], fi_case_sensitive = False\<rparr>"

abbreviation is_sep :: "char \<Rightarrow> bool" where
  "is_sep b \<equiv> b = CHR ''/'' \<or> b = CHR 0x5C"

text \<open>Split on both separators, drop the empty segments, join with a slash.\<close>

definition path_segments :: "rstr \<Rightarrow> rstr list" where
  "path_segments p = filter (\<lambda>s. s \<noteq> []) (split_bytes is_sep p)"

definition norm_path :: "rstr \<Rightarrow> rstr" where
  "norm_path p = join (CHR ''/'') (path_segments (trim p))"

definition fi_contains_ci :: "FileIndex \<Rightarrow> rstr \<Rightarrow> bool" where
  "fi_contains_ci fi p \<longleftrightarrow> to_ascii_lowercase (norm_path p) \<in> fi_files fi"

definition fi_contains_exact :: "FileIndex \<Rightarrow> rstr \<Rightarrow> bool" where
  "fi_contains_exact fi p =
     (let norm = norm_path p; ci = to_ascii_lowercase norm
      in case map_of (fi_exact fi) ci of Some orig \<Rightarrow> orig = norm | None \<Rightarrow> ci \<in> fi_files fi)"

definition fi_contains :: "FileIndex \<Rightarrow> rstr \<Rightarrow> bool" where
  "fi_contains fi p = (if fi_case_sensitive fi then fi_contains_exact fi p else fi_contains_ci fi p)"

definition on_disk_case :: "FileIndex \<Rightarrow> rstr \<Rightarrow> rstr option" where
  "on_disk_case fi p =
     (let norm = norm_path p
      in case map_of (fi_exact fi) (to_ascii_lowercase norm) of
           None \<Rightarrow> None
         | Some orig \<Rightarrow> if orig \<noteq> norm then Some orig else None)"

definition fi_insert :: "rstr \<Rightarrow> FileIndex \<Rightarrow> FileIndex" where
  "fi_insert p fi =
     (let norm = replace_byte (CHR 0x5C) (CHR ''/'') p; ci = to_ascii_lowercase norm;
          fi1 = fi\<lparr>fi_files := insert ci (fi_files fi)\<rparr>
      in if fi_case_sensitive fi1 then fi1\<lparr>fi_exact := AList.update ci norm (fi_exact fi1)\<rparr> else fi1)"

definition fi_remove :: "rstr \<Rightarrow> FileIndex \<Rightarrow> FileIndex" where
  "fi_remove p fi =
     (let norm = to_ascii_lowercase (replace_byte (CHR 0x5C) (CHR ''/'') p);
          fi1 = fi\<lparr>fi_files := fi_files fi - {norm}\<rparr>
      in if fi_case_sensitive fi1 then fi1\<lparr>fi_exact := AList.delete norm (fi_exact fi1)\<rparr> else fi1)"

definition fi_add_paths :: "rstr list \<Rightarrow> FileIndex \<Rightarrow> FileIndex" where
  "fi_add_paths paths fi =
     (if fi_case_sensitive fi
      then fold (\<lambda>p fi. let ci = to_ascii_lowercase p
                  in fi\<lparr>fi_files := insert ci (fi_files fi), fi_exact := AList.update ci p (fi_exact fi)\<rparr>) paths fi
      else fold (\<lambda>p fi. fi\<lparr>fi_files := insert (to_ascii_lowercase p) (fi_files fi)\<rparr>) paths fi)"

text \<open>The walk of a root; the relative paths the file system yields are the argument.\<close>

definition fi_add_root :: "rstr list \<Rightarrow> FileIndex \<Rightarrow> FileIndex" where
  "fi_add_root rels fi =
     fold (\<lambda>s fi.
       let norm = replace_byte (CHR 0x5C) (CHR ''/'') s; ci = to_ascii_lowercase norm;
           fi1 = fi\<lparr>fi_files := insert ci (fi_files fi)\<rparr>
       in if fi_case_sensitive fi then fi1\<lparr>fi_exact := AList.update ci norm (fi_exact fi1)\<rparr> else fi1) rels fi"

definition fi_set_case_sensitive :: "bool \<Rightarrow> FileIndex \<Rightarrow> FileIndex" where
  "fi_set_case_sensitive b fi = fi\<lparr>fi_case_sensitive := b\<rparr>"

fun resolve_from :: "FileIndex \<Rightarrow> rstr \<Rightarrow> rstr list \<Rightarrow> bool" where
  "resolve_from fi val (a # b # segs) =
     (if join (CHR ''/'') (a # b # segs) \<in> fi_files fi
      then (let dir = butlast (a # b # segs);
                sibling = (if dir = [] then val else join (CHR ''/'') dir @ ''/'' @ val)
            in fi_contains_ci fi sibling)
      else resolve_from fi val (b # segs))"
| "resolve_from fi val _ = False"

definition resolve_relative :: "FileIndex \<Rightarrow> rstr \<Rightarrow> rstr \<Rightarrow> bool" where
  "resolve_relative fi file val = resolve_from fi val (map to_ascii_lowercase (path_segments file))"

text \<open>The recorded spellings belong to indexed files.\<close>

definition fi_ok :: "FileIndex \<Rightarrow> bool" where
  "fi_ok fi \<longleftrightarrow> distinct (map fst (fi_exact fi)) \<and>
     (\<forall>k orig. map_of (fi_exact fi) k = Some orig \<longrightarrow> to_ascii_lowercase orig = k \<and> k \<in> fi_files fi)"

lemma fi_ok_insert: "fi_ok fi \<Longrightarrow> fi_ok (fi_insert p fi)"
  by (auto simp: fi_ok_def fi_insert_def Let_def distinct_update simp del: map_of_eq_Some_iff split: if_splits)

lemma fi_ok_remove: "fi_ok fi \<Longrightarrow> fi_case_sensitive fi \<Longrightarrow> fi_ok (fi_remove p fi)"
  by (auto simp: fi_ok_def fi_remove_def Let_def distinct_delete delete_conv'
    simp del: map_of_eq_Some_iff split: if_splits)

lemma fi_ok_record:
  assumes "fi_ok fi"
  shows "fi_ok (fi\<lparr>fi_files := insert x (fi_files fi)\<rparr>)"
    "fi_ok (fi\<lparr>fi_files := insert (to_ascii_lowercase p) (fi_files fi),
       fi_exact := AList.update (to_ascii_lowercase p) p (fi_exact fi)\<rparr>)"
  using assms by (simp_all add: fi_ok_def distinct_update del: map_of_eq_Some_iff)

lemma fi_ok_add_paths:
  assumes "fi_ok fi"
  shows "fi_ok (fi_add_paths ps fi)"
proof -
  have "fi_ok (fold (\<lambda>p fi. fi\<lparr>fi_files := insert (to_ascii_lowercase p) (fi_files fi)\<rparr>) ps fi)"
    using assms by (induction ps arbitrary: fi) (simp_all add: fi_ok_record)
  moreover have "fi_ok (fold (\<lambda>p fi. fi\<lparr>fi_files := insert (to_ascii_lowercase p) (fi_files fi),
      fi_exact := AList.update (to_ascii_lowercase p) p (fi_exact fi)\<rparr>) ps fi)"
    using assms by (induction ps arbitrary: fi) (simp_all add: fi_ok_record)
  ultimately show ?thesis by (simp add: fi_add_paths_def Let_def)
qed

lemma to_ascii_lowercase_join:
  "to_ascii_lowercase (join (CHR ''/'') ps) = join (CHR ''/'') (map to_ascii_lowercase ps)"
proof -
  have slash: "lower_byte (CHR ''/'') = CHR ''/''" by (simp add: lower_byte_def is_upper_byte_def)
  show ?thesis
    by (induction "CHR ''/''" ps rule: join.induct) (auto simp: to_ascii_lowercase_def slash)
qed

end
