(* ===== verification/Type_Index.thy ===== *)
theory Type_Index
  imports Name_Index
begin

text \<open>
  The cross-file index of type instances (\<open>TypeIndex\<close> of \<open>crates/index/src/type_index.rs\<close>): for
  every type the instances defined in any file, with counters that answer lookups without a
  scan, and for every file the positions of its own entries, which a removal by \<open>swap_remove\<close>
  has to repair. The operations are loops over these five tables; an out-of-range position or
  an underflow would be \<open>None\<close>.

  The specification is a multiset of entries \<open>(type, file, instance)\<close>: \<open>index_ok\<close> says that the
  counters and the positions are functions of it, and each operation is proved to act on it
  as its name says.
\<close>

section \<open>State\<close>

record SourceLocation =
  loc_line :: u32
  loc_col :: u16
  loc_end :: "u32 \<times> u16"

record TypeInstance =
  inst_name :: rstr
  inst_location :: SourceLocation
  inst_primary_loc_key :: "rstr option"
  inst_required_loc_keys :: "rstr list"

record NameRefs =
  refs_total :: nat
  refs_workspace :: nat

record TypeIndex =
  ti_map :: "(rstr \<times> (rstr \<times> TypeInstance) list) list"
  name_counts :: "(rstr \<times> nat) list"
  instance_sets :: "(rstr \<times> (rstr \<times> NameRefs) list) list"
  base_game_uris :: "rstr set"
  file_positions :: "(rstr \<times> (rstr \<times> nat list) list) list"
  file_index :: FileIndex
  var_index :: VarIndex
  scripted_loc_index :: ScriptedLocIndex
  ti_complete :: bool
  complex_enum_values :: NamedValueIndex
  value_set_values :: NamedValueIndex

definition ti_new :: TypeIndex where
  "ti_new = \<lparr>ti_map = [], name_counts = [], instance_sets = [], base_game_uris = {},
     file_positions = [], file_index = fi_new, var_index = var_new, scripted_loc_index = sl_new,
     ti_complete = False, complex_enum_values = nvi_new, value_set_values = nvi_new\<rparr>"

definition is_subtype_key :: "rstr \<Rightarrow> bool" where
  "is_subtype_key t \<longleftrightarrow> CHR ''.'' \<in> set t"

definition refs_default :: NameRefs where
  "refs_default = \<lparr>refs_total = 0, refs_workspace = 0\<rparr>"

definition refs_add :: "bool \<Rightarrow> NameRefs \<Rightarrow> NameRefs" where
  "refs_add base r =
     \<lparr>refs_total = refs_total r + 1,
      refs_workspace = (if base then refs_workspace r else refs_workspace r + 1)\<rparr>"

text \<open>The counts after a release (both saturate at zero), and whether the name is gone.\<close>

definition refs_release :: "bool \<Rightarrow> NameRefs \<Rightarrow> NameRefs \<times> bool" where
  "refs_release base r =
     (let total = refs_total r - 1;
          ws = (if base then refs_workspace r else refs_workspace r - 1)
      in (\<lparr>refs_total = total, refs_workspace = ws\<rparr>, total = 0))"

definition release_name :: "rstr \<Rightarrow> bool \<Rightarrow> (rstr \<times> NameRefs) list \<Rightarrow> (rstr \<times> NameRefs) list" where
  "release_name name base m =
     (case map_of m name of
        None \<Rightarrow> m
      | Some r \<Rightarrow> (let (r', gone) = refs_release base r
                   in if gone then AList.delete name m else AList.update name r' m))"

section \<open>Queries\<close>

definition ti_contains :: "TypeIndex \<Rightarrow> rstr \<Rightarrow> rstr \<Rightarrow> bool" where
  "ti_contains idx t inst =
     (case map_of (instance_sets idx) t of
        None \<Rightarrow> False
      | Some names \<Rightarrow>
          if list_ex is_upper_byte inst then map_of names (to_ascii_lowercase inst) \<noteq> None
          else map_of names inst \<noteq> None)"

definition workspace_definition_count :: "TypeIndex \<Rightarrow> rstr \<Rightarrow> rstr \<Rightarrow> nat" where
  "workspace_definition_count idx t inst =
     (case map_of (instance_sets idx) t of
        None \<Rightarrow> 0
      | Some names \<Rightarrow>
          (case (if list_ex is_upper_byte inst then map_of names (to_ascii_lowercase inst)
                 else map_of names inst) of
             None \<Rightarrow> 0 | Some r \<Rightarrow> refs_workspace r))"

definition is_any_instance :: "TypeIndex \<Rightarrow> rstr \<Rightarrow> bool" where
  "is_any_instance idx name =
     (if list_ex is_upper_byte name then map_of (name_counts idx) (to_ascii_lowercase name) \<noteq> None
      else map_of (name_counts idx) name \<noteq> None)"

definition ti_instances :: "TypeIndex \<Rightarrow> rstr \<Rightarrow> (rstr \<times> TypeInstance) list" where
  "ti_instances idx t = get_or [] (ti_map idx) t"

definition instance_locations :: "TypeIndex \<Rightarrow> rstr \<Rightarrow> (rstr \<times> SourceLocation) list" where
  "instance_locations idx name =
     map (\<lambda>(uri, inst). (uri, inst_location inst))
       (filter (\<lambda>(uri, inst). eq_ignore_ascii_case (inst_name inst) name)
         (concat (map snd (ti_map idx))))"

fun find_loc_key :: "rstr \<Rightarrow> (rstr \<times> TypeInstance) list \<Rightarrow> rstr option" where
  "find_loc_key name [] = None"
| "find_loc_key name ((uri, inst) # es) =
     (if eq_ignore_ascii_case (inst_name inst) name \<and> inst_primary_loc_key inst \<noteq> None
      then inst_primary_loc_key inst
      else find_loc_key name es)"

definition primary_loc_key :: "TypeIndex \<Rightarrow> rstr \<Rightarrow> rstr \<Rightarrow> rstr option" where
  "primary_loc_key idx t name = find_loc_key name (get_or [] (ti_map idx) t)"

text \<open>A position past the end of a bucket panics.\<close>

definition instances_in_file :: "TypeIndex \<Rightarrow> rstr \<Rightarrow> (rstr \<times> TypeInstance) list option" where
  "instances_in_file idx f =
     (case map_of (file_positions idx) f of
        None \<Rightarrow> Some []
      | Some by_type \<Rightarrow>
          fold_opt (\<lambda>(t, positions) out.
            if is_subtype_key t then Some out
            else case map_of (ti_map idx) t of
                   None \<Rightarrow> Some out
                 | Some entries \<Rightarrow>
                     fold_opt (\<lambda>pos out.
                       if pos < length entries then Some (out @ [(t, snd (entries ! pos))]) else None)
                       positions out)
            by_type [])"

section \<open>Adding\<close>

text \<open>One instance of the loops of \<open>merge_from\<close> and \<open>merge_base_game_with_uris\<close>.\<close>

definition add_instance :: "rstr \<Rightarrow> bool \<Rightarrow> rstr \<Rightarrow> TypeInstance \<Rightarrow> TypeIndex \<Rightarrow> TypeIndex" where
  "add_instance t base uri inst idx =
     (let lower = to_ascii_lowercase (inst_name inst)
      in idx\<lparr>name_counts := (if is_subtype_key t then name_counts idx else inc_ref lower (name_counts idx)),
             instance_sets := upd_entry [] t (upd_entry refs_default lower (refs_add base)) (instance_sets idx),
             file_positions := upd_entry [] uri (upd_entry [] t
               (\<lambda>positions. positions @ [length (get_or [] (ti_map idx) t)])) (file_positions idx),
             ti_map := upd_entry [] t (\<lambda>entry. entry @ [(uri, inst)]) (ti_map idx)\<rparr>)"

definition merge_type :: "rstr \<Rightarrow> bool \<Rightarrow> rstr \<times> TypeInstance list \<Rightarrow> TypeIndex \<Rightarrow> TypeIndex" where
  "merge_type uri base per idx =
     (let (t, instances) = per;
          idx1 = idx\<lparr>instance_sets := upd_entry [] t (\<lambda>s. s) (instance_sets idx),
                     ti_map := upd_entry [] t (\<lambda>e. e) (ti_map idx),
                     file_positions := upd_entry [] uri (upd_entry [] t (\<lambda>p. p)) (file_positions idx)\<rparr>
      in fold (add_instance t base uri) instances idx1)"

definition merge_from :: "rstr \<Rightarrow> (rstr \<times> TypeInstance list) list \<Rightarrow> bool \<Rightarrow> TypeIndex \<Rightarrow> TypeIndex" where
  "merge_from uri per_type base idx =
     (let idx1 = (if base then idx\<lparr>base_game_uris := insert uri (base_game_uris idx)\<rparr> else idx)
      in fold (merge_type uri base) per_type idx1)"

definition ti_merge :: "rstr \<Rightarrow> (rstr \<times> TypeInstance list) list \<Rightarrow> TypeIndex \<Rightarrow> TypeIndex" where
  "ti_merge uri per_type idx = merge_from uri per_type False idx"

definition merge_base_game :: "rstr \<Rightarrow> (rstr \<times> TypeInstance list) list \<Rightarrow> TypeIndex \<Rightarrow> TypeIndex" where
  "merge_base_game uri per_type idx = merge_from uri per_type True idx"

definition merge_base_game_with_uris ::
  "(rstr \<times> (rstr \<times> TypeInstance) list) list \<Rightarrow> TypeIndex \<Rightarrow> TypeIndex" where
  "merge_base_game_with_uris per_type idx =
     fold (\<lambda>(t, instances) idx.
       let idx1 = idx\<lparr>instance_sets := upd_entry [] t (\<lambda>s. s) (instance_sets idx),
                      ti_map := upd_entry [] t (\<lambda>e. e) (ti_map idx)\<rparr>
       in fold (\<lambda>(uri, inst) idx.
            let idx1 = idx\<lparr>base_game_uris := insert uri (base_game_uris idx)\<rparr>
            in add_instance t True uri inst idx1) instances idx1) per_type idx"

section \<open>Removing\<close>

definition swap_remove :: "nat \<Rightarrow> 'a list \<Rightarrow> 'a list" where
  "swap_remove i xs = butlast (xs[i := last xs])"

text \<open>\<open>positions.iter_mut().find(|p| **p == last)\<close>, set to the freed index.\<close>

fun repair :: "nat \<Rightarrow> nat \<Rightarrow> nat list \<Rightarrow> nat list" where
  "repair old new [] = []"
| "repair old new (p # ps) = (if p = old then new # ps else p # repair old new ps)"

definition swap_remove_instance :: "rstr \<Rightarrow> nat \<Rightarrow> TypeIndex \<Rightarrow> TypeIndex option" where
  "swap_remove_instance t index idx =
     (case map_of (ti_map idx) t of
        None \<Rightarrow> Some idx
      | Some v \<Rightarrow>
          if v = [] \<or> \<not> index < length v then None
          else (let last_pos = length v - 1; v' = swap_remove index v;
                    idx1 = idx\<lparr>ti_map := AList.update t v' (ti_map idx)\<rparr>
                in if index = last_pos then Some idx1
                   else (let moved_uri = fst (v' ! index)
                         in case map_of (file_positions idx1) moved_uri of
                              None \<Rightarrow> Some idx1
                            | Some by_type \<Rightarrow>
                                (case map_of by_type t of
                                   None \<Rightarrow> Some idx1
                                 | Some positions \<Rightarrow>
                                     Some (idx1\<lparr>file_positions :=
                                       AList.update moved_uri (AList.update t (repair last_pos index positions) by_type)
                                         (file_positions idx1)\<rparr>)))))"

text \<open>Dropping one entry from the counters; shared by the two removal paths.\<close>

definition release_counts :: "rstr \<Rightarrow> bool \<Rightarrow> TypeInstance \<Rightarrow> TypeIndex \<Rightarrow> TypeIndex option" where
  "release_counts t base inst idx =
     (let lower = to_ascii_lowercase (inst_name inst)
      in Option.bind (if is_subtype_key t then Some (name_counts idx) else dec_ref lower (name_counts idx)) (\<lambda>counts.
           Some (idx\<lparr>name_counts := counts,
             instance_sets := (case map_of (instance_sets idx) t of
                None \<Rightarrow> instance_sets idx
              | Some names \<Rightarrow> AList.update t (release_name lower base names) (instance_sets idx))\<rparr>)))"

definition remove_position :: "rstr \<Rightarrow> bool \<Rightarrow> nat \<Rightarrow> TypeIndex \<Rightarrow> TypeIndex option" where
  "remove_position t base index idx =
     (case map_of (ti_map idx) t of
        None \<Rightarrow> Some idx
      | Some v \<Rightarrow>
          if \<not> index < length v then None
          else Option.bind (release_counts t base (snd (v ! index)) idx) (swap_remove_instance t index))"

definition remove_type :: "bool \<Rightarrow> rstr \<times> nat list \<Rightarrow> TypeIndex \<Rightarrow> TypeIndex option" where
  "remove_type base tp idx =
     (let (t, positions) = tp
      in Option.bind (fold_opt (remove_position t base) (rev (sort positions)) idx) (\<lambda>idx1.
           Some (if map_of (ti_map idx1) t = Some []
                 then idx1\<lparr>ti_map := AList.delete t (ti_map idx1),
                           instance_sets := AList.delete t (instance_sets idx1)\<rparr>
                 else idx1)))"

definition remove_type_instances :: "rstr \<Rightarrow> TypeIndex \<Rightarrow> TypeIndex option" where
  "remove_type_instances f idx =
     (case map_of (file_positions idx) f of
        None \<Rightarrow> Some idx
      | Some type_positions \<Rightarrow>
          fold_opt (remove_type (f \<in> base_game_uris idx)) type_positions
            (idx\<lparr>file_positions := AList.delete f (file_positions idx),
                 base_game_uris := base_game_uris idx - {f}\<rparr>))"

definition ti_remove_file :: "rstr \<Rightarrow> TypeIndex \<Rightarrow> TypeIndex option" where
  "ti_remove_file f idx =
     Option.bind (nvi_remove_file f (complex_enum_values idx)) (\<lambda>enums.
     Option.bind (nvi_remove_file f (value_set_values idx)) (\<lambda>sets.
     Option.bind (sl_remove_file f (scripted_loc_index idx)) (\<lambda>sl.
       remove_type_instances f
         (idx\<lparr>complex_enum_values := enums, value_set_values := sets, scripted_loc_index := sl\<rparr>))))"

text \<open>The bulk removal: one pass over the buckets, then the positions are rebuilt.\<close>

definition release_dropped :: "rstr set \<Rightarrow> rstr \<times> (rstr \<times> TypeInstance) list \<Rightarrow> TypeIndex \<Rightarrow> TypeIndex option" where
  "release_dropped uris tv idx =
     fold_opt (\<lambda>(uri, inst) idx.
       if uri \<in> uris then release_counts (fst tv) (uri \<in> base_game_uris idx) inst idx else Some idx) (snd tv) idx"

definition rebuild_positions ::
  "(rstr \<times> (rstr \<times> TypeInstance) list) list \<Rightarrow> (rstr \<times> (rstr \<times> nat list) list) list" where
  "rebuild_positions m =
     fold (\<lambda>(t, entries) fp.
       fold (\<lambda>(i, (uri, inst)) fp. upd_entry [] uri (upd_entry [] t (\<lambda>ps. ps @ [i])) fp)
         (enumerate 0 entries) fp) m []"

definition ti_remove_files :: "rstr set \<Rightarrow> TypeIndex \<Rightarrow> TypeIndex option" where
  "ti_remove_files uris idx =
     (if uris = {} then Some idx
      else Option.bind (fold_opt (release_dropped uris) (ti_map idx) idx) (\<lambda>idx1.
        let kept = filter (\<lambda>(t, v). v \<noteq> [])
                     (map (\<lambda>(t, v). (t, filter (\<lambda>(uri, inst). uri \<notin> uris) v)) (ti_map idx1))
        in Some (idx1\<lparr>base_game_uris := base_game_uris idx1 - uris,
                      ti_map := kept,
                      instance_sets := filter (\<lambda>(t, names). names \<noteq> []) (instance_sets idx1),
                      file_positions := rebuild_positions kept\<rparr>)))"

end
