(* ===== verification/Type_Index_Lemmas.thy ===== *)
theory Type_Index_Lemmas
  imports Type_Index
begin

text \<open>
  The lemmas on \<open>Type_Index\<close>: the entries of an index as a multiset, the counters as functions of
  it (the second interpretation of \<open>ref_counts\<close>), the recorded positions as the inverse of the
  buckets, and for every operation that it keeps \<open>index_ok\<close>, what it does to the entries, and
  that it does not panic.
\<close>

section \<open>Lemmas on the tables\<close>

subsection \<open>The entries of an index\<close>

type_synonym index_entry = "rstr \<times> rstr \<times> TypeInstance"

abbreviation entry_uri :: "index_entry \<Rightarrow> rstr" where
  "entry_uri e \<equiv> fst (snd e)"

definition entry_key :: "index_entry \<Rightarrow> rstr" where
  "entry_key e = to_ascii_lowercase (inst_name (snd (snd e)))"

definition bucket_entries :: "(rstr \<times> (rstr \<times> TypeInstance) list) list \<Rightarrow> index_entry multiset" where
  "bucket_entries m = mset (concat (map (\<lambda>(t, v). map (Pair t) v) m))"

definition index_entries :: "TypeIndex \<Rightarrow> index_entry multiset" where
  "index_entries idx = bucket_entries (ti_map idx)"

abbreviation bucket :: "(rstr \<times> (rstr \<times> TypeInstance) list) list \<Rightarrow> rstr \<Rightarrow> (rstr \<times> TypeInstance) list" where
  "bucket m t \<equiv> get_or [] m t"

lemma bucket_entries_simps [simp]:
  "bucket_entries [] = {#}"
  "bucket_entries ((t, v) # m) = mset (map (Pair t) v) + bucket_entries m"
  by (simp_all add: bucket_entries_def)

lemma bucket_entries_update:
  assumes "distinct (map fst m)"
  shows "bucket_entries (AList.update t v m) + mset (map (Pair t) (bucket m t)) =
    bucket_entries m + mset (map (Pair t) v)"
  using assms
proof (induction m)
  case (Cons p m)
  obtain t' v' where p: "p = (t', v')" by force
  show ?case
  proof (cases "t' = t")
    case True
    then show ?thesis by (simp add: p get_or_def)
  next
    case False
    then show ?thesis using Cons by (simp add: p get_or_def ac_simps)
  qed
qed simp

lemma bucket_entries_delete_empty: "bucket m t = [] \<Longrightarrow> distinct (map fst m) \<Longrightarrow>
    bucket_entries (AList.delete t m) = bucket_entries m"
proof (induction m)
  case (Cons p m)
  obtain t' v' where p: "p = (t', v')" by force
  show ?case
  proof (cases "t' = t")
    case True
    then show ?thesis using Cons.prems by (simp add: p get_or_def)
  next
    case False
    then show ?thesis using Cons by (simp add: p get_or_def)
  qed
qed simp

lemma mem_bucket_entries:
  assumes "distinct (map fst m)"
  shows "(t, e) \<in># bucket_entries m \<longleftrightarrow> e \<in> set (bucket m t)"
  using assms
proof (induction m)
  case (Cons p m)
  obtain t' v' where p: "p = (t', v')" by force
  then show ?case using Cons get_or_absent [of t m "[]"] by (auto simp: p get_or_def)
qed simp

lemma bucket_entries_type:
  assumes "distinct (map fst m)"
  shows "filter_mset (\<lambda>e. fst e = t) (bucket_entries m) = mset (map (Pair t) (bucket m t))"
  using assms
proof (induction m)
  case (Cons p m)
  obtain t' v' where p: "p = (t', v')" by force
  have other: "t' \<noteq> t \<Longrightarrow> filter_mset (\<lambda>e. fst e = t) (mset (map (Pair t') v')) = {#}"
    and same: "filter_mset (\<lambda>e. fst e = t) (mset (map (Pair t) v')) = mset (map (Pair t) v')"
    by (auto simp: filter_mset_eq_conv)
  show ?case
  proof (cases "t' = t")
    case True
    then show ?thesis using Cons get_or_absent [of t m "[]"] same by (simp add: p get_or_def)
  next
    case False
    then show ?thesis using Cons other by (simp add: p get_or_def)
  qed
qed simp

subsection \<open>Positions\<close>

definition posn :: "rstr \<Rightarrow> (rstr \<times> TypeInstance) list \<Rightarrow> nat set" where
  "posn u v = {i. i < length v \<and> fst (v ! i) = u}"

lemma length_swap_remove [simp]: "length (swap_remove i v) = length v - 1"
  by (simp add: swap_remove_def)

lemma nth_swap_remove:
  assumes "i < length v" "j < length v - 1"
  shows "swap_remove i v ! j = (if j = i then v ! (length v - 1) else v ! j)"
proof -
  have "last v = v ! (length v - 1)" using assms by (intro last_conv_nth) auto
  then show ?thesis using assms by (simp add: swap_remove_def nth_butlast)
qed

lemma mset_swap_remove:
  assumes "i < length v"
  shows "mset v = add_mset (v ! i) (mset (swap_remove i v))"
proof -
  obtain w x where v: "v = w @ [x]" using assms by (cases v rule: rev_cases) auto
  show ?thesis
  proof (cases "i = length w")
    case True
    then show ?thesis by (simp add: v swap_remove_def)
  next
    case False
    then have "i < length w" using assms v by simp
    then have "swap_remove i v = w[i := x]" "v ! i = w ! i"
      by (simp_all add: v swap_remove_def list_update_append butlast_append nth_append)
    then show ?thesis
      using \<open>i < length w\<close> by (simp add: v mset_update)
  qed
qed

lemma posn_swap_remove:
  assumes "i < length v"
  shows "posn u (swap_remove i v) = (posn u v - {i, length v - 1}) \<union>
    (if fst (v ! (length v - 1)) = u \<and> i \<noteq> length v - 1 then {i} else {})"
  using assms by (auto simp: posn_def nth_swap_remove)

lemma posn_append: "posn u (v @ [e]) = posn u v \<union> (if fst e = u then {length v} else {})"
  by (auto simp: posn_def nth_append less_Suc_eq split: if_splits)

lemma posn_empty [simp]: "posn u [] = {}"
  by (simp add: posn_def)

lemma repair_absent: "old \<notin> set ps \<Longrightarrow> repair old new ps = ps"
  by (induction ps) auto

lemma repair_props:
  assumes "distinct ps" "old \<in> set ps" "new \<notin> set ps"
  shows "distinct (repair old new ps)" "set (repair old new ps) = insert new (set ps - {old})"
proof -
  have "distinct (repair old new ps) \<and> set (repair old new ps) = insert new (set ps - {old})"
    using assms by (induction ps) auto
  then show "distinct (repair old new ps)" "set (repair old new ps) = insert new (set ps - {old})"
    by auto
qed

text \<open>
  The second use of the interface: a set of names per type, whose counters tell the base game
  from the workspace. The key of a count is a type, a name and the provenance.
\<close>

definition refs_ok :: "(rstr \<times> NameRefs) list \<Rightarrow> bool" where
  "refs_ok m \<longleftrightarrow> distinct (map fst m) \<and>
     (\<forall>n r. map_of m n = Some r \<longrightarrow> 0 < refs_total r \<and> refs_workspace r \<le> refs_total r)"

definition sets_ok :: "(rstr \<times> (rstr \<times> NameRefs) list) list \<Rightarrow> bool" where
  "sets_ok S \<longleftrightarrow> distinct (map fst S) \<and> (\<forall>t names. map_of S t = Some names \<longrightarrow> refs_ok names)"

definition refs_count :: "(rstr \<times> NameRefs) list \<Rightarrow> rstr \<Rightarrow> bool \<Rightarrow> nat" where
  "refs_count m n base =
     (let r = get_or refs_default m n
      in if base then refs_total r - refs_workspace r else refs_workspace r)"

definition sets_count :: "(rstr \<times> (rstr \<times> NameRefs) list) list \<Rightarrow> rstr \<times> rstr \<times> bool \<Rightarrow> nat" where
  "sets_count S k = refs_count (get_or [] S (fst k)) (fst (snd k)) (snd (snd k))"

definition sets_add ::
  "rstr \<times> rstr \<times> bool \<Rightarrow> (rstr \<times> (rstr \<times> NameRefs) list) list \<Rightarrow> (rstr \<times> (rstr \<times> NameRefs) list) list" where
  "sets_add k S = upd_entry [] (fst k) (upd_entry refs_default (fst (snd k)) (refs_add (snd (snd k)))) S"

definition sets_release ::
  "rstr \<times> rstr \<times> bool \<Rightarrow> (rstr \<times> (rstr \<times> NameRefs) list) list \<Rightarrow> (rstr \<times> (rstr \<times> NameRefs) list) list" where
  "sets_release k S =
     (case map_of S (fst k) of
        None \<Rightarrow> S
      | Some names \<Rightarrow> AList.update (fst k) (release_name (fst (snd k)) (snd (snd k)) names) S)"

lemma refs_default_simps [simp]: "refs_total refs_default = 0" "refs_workspace refs_default = 0"
  by (simp_all add: refs_default_def)

lemma ref_entry_ok_Nil [simp]: "refs_ok []"
  by (simp add: refs_ok_def)

lemma refs_ok_get:
  "refs_ok m \<Longrightarrow> refs_workspace (get_or refs_default m n) \<le> refs_total (get_or refs_default m n)"
  by (auto simp: refs_ok_def get_or_def split: option.splits)

lemma sets_ok_get: "sets_ok S \<Longrightarrow> refs_ok (get_or [] S t)"
  by (auto simp: sets_ok_def get_or_def split: option.splits)

lemma refs_ok_add:
  assumes "refs_ok m"
  shows "refs_ok (upd_entry refs_default n (refs_add b) m)"
  using assms refs_ok_get [OF assms, of n]
  by (auto simp: refs_ok_def distinct_upd_entry refs_add_def simp del: map_of_eq_Some_iff split: if_splits)

lemma refs_count_add:
  assumes "refs_ok m"
  shows "refs_count (upd_entry refs_default n (refs_add b) m) x c =
    refs_count m x c + (if x = n \<and> c = b then 1 else 0)"
  using refs_ok_get [OF assms, of n] by (auto simp: refs_count_def refs_add_def Let_def)

lemma release_name_ok:
  assumes "refs_ok m" "0 < refs_count m n b"
  shows "refs_ok (release_name n b m)"
    "refs_count (release_name n b m) x c = refs_count m x c - (if x = n \<and> c = b then 1 else 0)"
proof -
  obtain r where r: "map_of m n = Some r"
    using assms(2) by (auto simp: refs_count_def Let_def get_or_def split: option.splits if_splits)
  have bounds: "0 < refs_total r" "refs_workspace r \<le> refs_total r"
    using assms(1) r by (auto simp: refs_ok_def simp del: map_of_eq_Some_iff)
  have used: "0 < (if b then refs_total r - refs_workspace r else refs_workspace r)"
    using assms(2) r by (simp add: refs_count_def Let_def get_or_def)
  define r' where "r' = \<lparr>refs_total = refs_total r - 1,
    refs_workspace = (if b then refs_workspace r else refs_workspace r - 1)\<rparr>"
  have step: "release_name n b m = (if refs_total r - 1 = 0 then AList.delete n m else AList.update n r' m)"
    using r by (simp add: release_name_def refs_release_def Let_def r'_def)
  show "refs_ok (release_name n b m)"
    unfolding step using assms(1) used bounds
    by (auto simp: refs_ok_def distinct_delete distinct_update delete_conv' r'_def
      simp del: map_of_eq_Some_iff split: if_splits)
  have "get_or refs_default m n = r" using r by (simp add: get_or_def)
  then show "refs_count (release_name n b m) x c = refs_count m x c - (if x = n \<and> c = b then 1 else 0)"
    unfolding step using used bounds by (auto simp: refs_count_def Let_def r'_def split: if_splits)
qed

lemma sets_release_some:
  assumes "sets_ok S" "0 < sets_count S k"
  shows "sets_ok (sets_release k S)"
    "sets_count (sets_release k S) x = sets_count S x - (if x = k then 1 else 0)"
proof -
  obtain t n b where k: "k = (t, n, b)" by (cases k) auto
  obtain names where names: "map_of S t = Some names"
    using assms(2) by (auto simp: k sets_count_def refs_count_def get_or_def Let_def split: option.splits if_splits)
  have ok: "refs_ok names" and pos: "0 < refs_count names n b"
    using assms names by (auto simp: sets_ok_def sets_count_def k get_or_def simp del: map_of_eq_Some_iff)
  have step: "sets_release k S = AList.update t (release_name n b names) S"
    by (simp add: sets_release_def k names)
  show "sets_ok (sets_release k S)"
    unfolding step using assms(1) release_name_ok(1) [OF ok pos]
    by (auto simp: sets_ok_def distinct_update simp del: map_of_eq_Some_iff split: if_splits)
  show "sets_count (sets_release k S) x = sets_count S x - (if x = k then 1 else 0)"
    unfolding step using release_name_ok(2) [OF ok pos, of "fst (snd x)" "snd (snd x)"] names
    by (cases x) (auto simp: sets_count_def k get_or_def)
qed

lemma sets_ok_add: "sets_ok S \<Longrightarrow> sets_ok (sets_add k S)"
  using refs_ok_add [OF sets_ok_get]
  by (auto simp: sets_ok_def sets_add_def distinct_upd_entry simp del: map_of_eq_Some_iff split: if_splits)

lemma sets_count_add:
  "sets_ok S \<Longrightarrow> sets_count (sets_add k S) x = sets_count S x + (if x = k then 1 else 0)"
  using refs_count_add [OF sets_ok_get]
  by (cases x; cases k) (auto simp: sets_count_def sets_add_def)

interpretation type_sets: ref_counts sets_count sets_ok sets_add "\<lambda>k S. Some (sets_release k S)"
  by unfold_locales (simp_all only: sets_ok_add sets_count_add, blast intro: sets_release_some)

text \<open>
  The counters as functions of the entries: \<open>bg\<close> says which files count as base game.
\<close>

definition counts_match ::
  "(rstr \<Rightarrow> bool) \<Rightarrow> index_entry multiset \<Rightarrow> (rstr \<times> nat) list \<Rightarrow> (rstr \<times> (rstr \<times> NameRefs) list) list \<Rightarrow> bool" where
  "counts_match bg E nc S \<longleftrightarrow> counters_ok nc \<and> sets_ok S \<and>
     (\<forall>n. get_or 0 nc n = count (image_mset entry_key (filter_mset (\<lambda>e. \<not> is_subtype_key (fst e)) E)) n) \<and>
     (\<forall>k. sets_count S k = count (image_mset (\<lambda>e. (fst e, entry_key e, bg (entry_uri e))) E) k)"

lemma counts_match_add:
  assumes "counts_match bg E nc S"
  shows "counts_match bg (add_mset e E)
    (if is_subtype_key (fst e) then nc else inc_ref (entry_key e) nc)
    (sets_add (fst e, entry_key e, bg (entry_uri e)) S)"
  using assms counters.cnt_incr [of nc "entry_key e"]
  by (simp add: counts_match_def inc_ref_ok sets_ok_add sets_count_add)

lemma counts_match_release:
  assumes "counts_match bg (add_mset e E) nc S"
  shows "\<exists>nc'. (if is_subtype_key (fst e) then Some nc else dec_ref (entry_key e) nc) = Some nc' \<and>
    counts_match bg E nc' (sets_release (fst e, entry_key e, bg (entry_uri e)) S)"
proof -
  define k where "k = (fst e, entry_key e, bg (entry_uri e))"
  have old: "counters_ok nc" "sets_ok S"
    "\<And>n. get_or 0 nc n = count (image_mset entry_key (filter_mset (\<lambda>e. \<not> is_subtype_key (fst e)) (add_mset e E))) n"
    "\<And>x. sets_count S x = count (image_mset (\<lambda>e. (fst e, entry_key e, bg (entry_uri e))) E) x + (if x = k then 1 else 0)"
    using assms by (simp_all add: counts_match_def k_def eq_commute del: split_paired_All)
  have sets: "sets_ok (sets_release k S)"
    "\<And>x. sets_count (sets_release k S) x = count (image_mset (\<lambda>e. (fst e, entry_key e, bg (entry_uri e))) E) x"
    using sets_release_some [OF old(2), of k] by (simp_all add: old(4))
  have "\<exists>nc'. (if is_subtype_key (fst e) then Some nc else dec_ref (entry_key e) nc) = Some nc' \<and> counters_ok nc' \<and>
    (\<forall>n. get_or 0 nc' n = count (image_mset entry_key (filter_mset (\<lambda>e. \<not> is_subtype_key (fst e)) E)) n)"
  proof (cases "is_subtype_key (fst e)")
    case True
    then show ?thesis using old(1,3) by simp
  next
    case False
    then have "0 < get_or 0 nc (entry_key e)" by (simp add: old(3))
    from dec_ref_some [OF old(1) this] show ?thesis
      using False by (auto simp: old(3) split: if_splits)
  qed
  then show ?thesis
    unfolding counts_match_def k_def [symmetric] using sets by auto
qed

lemma counts_match_cong:
  assumes "counts_match bg E nc S" "\<And>e. e \<in># E \<Longrightarrow> bg (entry_uri e) = bg' (entry_uri e)"
  shows "counts_match bg' E nc S"
proof -
  have "image_mset (\<lambda>e. (fst e, entry_key e, bg (entry_uri e))) E =
      image_mset (\<lambda>e. (fst e, entry_key e, bg' (entry_uri e))) E"
    using assms(2) by (intro image_mset_cong) simp
  then show ?thesis using assms(1) by (simp add: counts_match_def)
qed

text \<open>The recorded positions of the files of \<open>U\<close>, as the inverse of the buckets.\<close>

definition fp_get :: "(rstr \<times> (rstr \<times> nat list) list) list \<Rightarrow> rstr \<Rightarrow> rstr \<Rightarrow> nat list" where
  "fp_get fp u t = get_or [] (get_or [] fp u) t"

definition positions_match ::
  "rstr set \<Rightarrow> (rstr \<times> (rstr \<times> TypeInstance) list) list \<Rightarrow> (rstr \<times> (rstr \<times> nat list) list) list \<Rightarrow> bool" where
  "positions_match U m fp \<longleftrightarrow> distinct (map fst fp) \<and> (\<forall>u. distinct (map fst (get_or [] fp u))) \<and>
     (\<forall>u\<in>U. \<forall>t. distinct (fp_get fp u t) \<and> set (fp_get fp u t) = posn u (bucket m t))"

lemma length_notin_posn [simp]: "length v \<notin> posn u v"
  by (simp add: posn_def)

lemma fp_get_upd:
  "fp_get (upd_entry [] u (upd_entry [] t g) fp) u' t' =
     (if u' = u \<and> t' = t then g (fp_get fp u t) else fp_get fp u' t')"
  by (simp add: fp_get_def)

text \<open>The type half of the state, and the whole invariant.\<close>

definition core_ok :: "(rstr \<Rightarrow> bool) \<Rightarrow> TypeIndex \<Rightarrow> bool" where
  "core_ok bg idx \<longleftrightarrow> distinct (map fst (ti_map idx)) \<and>
     counts_match bg (index_entries idx) (name_counts idx) (instance_sets idx) \<and>
     positions_match UNIV (ti_map idx) (file_positions idx)"

definition index_ok :: "TypeIndex \<Rightarrow> bool" where
  "index_ok idx \<longleftrightarrow> core_ok (\<lambda>u. u \<in> base_game_uris idx) idx \<and>
     nvi_ok (complex_enum_values idx) \<and> nvi_ok (value_set_values idx) \<and> sl_ok (scripted_loc_index idx)"

lemma bucket_entries_snoc:
  assumes "distinct (map fst m)"
  shows "bucket_entries (upd_entry [] t (\<lambda>v. v @ [e]) m) = add_mset (t, e) (bucket_entries m)"
  using bucket_entries_update [OF assms, of t "bucket m t @ [e]"] by (simp add: upd_entry_def)

lemma bucket_entries_touch:
  assumes "distinct (map fst m)"
  shows "bucket_entries (upd_entry [] t (\<lambda>v. v) m) = bucket_entries m"
  using bucket_entries_update [OF assms, of t "bucket m t"] by (simp add: upd_entry_def)

lemma add_instance_core:
  assumes "core_ok bg idx" "bg uri = base"
  shows "core_ok bg (add_instance t base uri inst idx)"
    "index_entries (add_instance t base uri inst idx) = add_mset (t, uri, inst) (index_entries idx)"
proof -
  let ?idx = "add_instance t base uri inst idx"
  have dist: "distinct (map fst (ti_map idx))"
    and counts: "counts_match bg (index_entries idx) (name_counts idx) (instance_sets idx)"
    and pos: "positions_match UNIV (ti_map idx) (file_positions idx)"
    using assms(1) by (auto simp: core_ok_def)
  show E: "index_entries ?idx = add_mset (t, uri, inst) (index_entries idx)"
    using bucket_entries_snoc [OF dist] by (simp add: index_entries_def add_instance_def Let_def)
  have "counts_match bg (index_entries ?idx) (name_counts ?idx) (instance_sets ?idx)"
    unfolding E using counts_match_add [OF counts, of "(t, uri, inst)"] assms(2)
    by (cases "is_subtype_key t") (simp_all add: add_instance_def Let_def entry_key_def sets_add_def)
  moreover have "positions_match UNIV (ti_map ?idx) (file_positions ?idx)"
    using pos
    by (auto simp: positions_match_def add_instance_def Let_def fp_get_upd distinct_upd_entry posn_append)
  moreover have "distinct (map fst (ti_map ?idx))"
    using dist by (simp add: add_instance_def Let_def distinct_upd_entry)
  ultimately show "core_ok bg ?idx" by (simp add: core_ok_def)
qed

lemma add_instance_frame [simp]:
  "base_game_uris (add_instance t base uri inst idx) = base_game_uris idx"
  "complex_enum_values (add_instance t base uri inst idx) = complex_enum_values idx"
  "value_set_values (add_instance t base uri inst idx) = value_set_values idx"
  "scripted_loc_index (add_instance t base uri inst idx) = scripted_loc_index idx"
  by (simp_all add: add_instance_def Let_def)

subsection \<open>Adding\<close>

definition tables_ok :: "TypeIndex \<Rightarrow> bool" where
  "tables_ok idx \<longleftrightarrow>
     nvi_ok (complex_enum_values idx) \<and> nvi_ok (value_set_values idx) \<and> sl_ok (scripted_loc_index idx)"

text \<open>Creating empty entries for a type (and for a file) changes nothing that is counted.\<close>

lemma core_ok_touch:
  assumes "core_ok bg idx"
  shows "core_ok bg (idx\<lparr>instance_sets := upd_entry [] t (\<lambda>s. s) (instance_sets idx),
      ti_map := upd_entry [] t (\<lambda>e. e) (ti_map idx)\<rparr>)"
    "core_ok bg (idx\<lparr>instance_sets := upd_entry [] t (\<lambda>s. s) (instance_sets idx),
      ti_map := upd_entry [] t (\<lambda>e. e) (ti_map idx),
      file_positions := upd_entry [] uri (upd_entry [] t (\<lambda>p. p)) (file_positions idx)\<rparr>)"
proof -
  have dist: "distinct (map fst (ti_map idx))" using assms by (simp add: core_ok_def)
  have sets: "sets_count (upd_entry [] t (\<lambda>s. s) S) k = sets_count S k"
    "sets_ok S \<Longrightarrow> sets_ok (upd_entry [] t (\<lambda>s. s) S)" for S k
    using sets_ok_get [of S t]
    by (auto simp: sets_count_def sets_ok_def distinct_upd_entry simp del: map_of_eq_Some_iff split: if_splits)
  show "core_ok bg (idx\<lparr>instance_sets := upd_entry [] t (\<lambda>s. s) (instance_sets idx),
      ti_map := upd_entry [] t (\<lambda>e. e) (ti_map idx)\<rparr>)"
    "core_ok bg (idx\<lparr>instance_sets := upd_entry [] t (\<lambda>s. s) (instance_sets idx),
      ti_map := upd_entry [] t (\<lambda>e. e) (ti_map idx),
      file_positions := upd_entry [] uri (upd_entry [] t (\<lambda>p. p)) (file_positions idx)\<rparr>)"
    using assms bucket_entries_touch [OF dist, of t]
    by (auto simp: core_ok_def index_entries_def counts_match_def sets positions_match_def fp_get_upd
      distinct_upd_entry del: split_paired_All)
qed

lemma merge_type_core:
  assumes "core_ok bg idx" "bg uri = base"
  shows "core_ok bg (merge_type uri base (t, insts) idx)"
    "index_entries (merge_type uri base (t, insts) idx) =
       index_entries idx + mset (map (\<lambda>i. (t, uri, i)) insts)"
    "base_game_uris (merge_type uri base (t, insts) idx) = base_game_uris idx"
    "tables_ok (merge_type uri base (t, insts) idx) = tables_ok idx"
proof -
  let ?idx = "idx\<lparr>instance_sets := upd_entry [] t (\<lambda>s. s) (instance_sets idx),
      ti_map := upd_entry [] t (\<lambda>e. e) (ti_map idx),
      file_positions := upd_entry [] uri (upd_entry [] t (\<lambda>p. p)) (file_positions idx)\<rparr>"
  have loop: "core_ok bg (fold (add_instance t base uri) insts i) \<and>
      index_entries (fold (add_instance t base uri) insts i) =
        index_entries i + mset (map (\<lambda>i. (t, uri, i)) insts) \<and>
      base_game_uris (fold (add_instance t base uri) insts i) = base_game_uris i \<and>
      tables_ok (fold (add_instance t base uri) insts i) = tables_ok i" if "core_ok bg i" for i
    using that
  proof (induction insts arbitrary: i)
    case (Cons x insts)
    from Cons.IH [OF add_instance_core(1) [OF Cons.prems assms(2), of t x]]
    show ?case using add_instance_core(2) [OF Cons.prems assms(2)] by (simp add: tables_ok_def)
  qed simp
  have step: "merge_type uri base (t, insts) idx = fold (add_instance t base uri) insts ?idx"
    by (simp add: merge_type_def)
  have entries: "index_entries ?idx = index_entries idx"
    using assms(1) by (simp add: index_entries_def core_ok_def bucket_entries_touch)
  note loop = loop [OF core_ok_touch(2) [OF assms(1), where t = t and uri = uri]]
  show "core_ok bg (merge_type uri base (t, insts) idx)"
    "index_entries (merge_type uri base (t, insts) idx) =
       index_entries idx + mset (map (\<lambda>i. (t, uri, i)) insts)"
    "base_game_uris (merge_type uri base (t, insts) idx) = base_game_uris idx"
    "tables_ok (merge_type uri base (t, insts) idx) = tables_ok idx"
    unfolding step using loop entries by (simp_all add: tables_ok_def)
qed

text \<open>What a file's results hold, as entries.\<close>

definition file_entries :: "rstr \<Rightarrow> (rstr \<times> TypeInstance list) list \<Rightarrow> index_entry multiset" where
  "file_entries uri per = mset (concat (map (\<lambda>(t, insts). map (\<lambda>i. (t, uri, i)) insts) per))"

text \<open>
  A file belongs to the base game or to the workspace: it is merged as it was before, or it is
  a base game file with no entries yet.
\<close>

definition merges_consistently :: "rstr \<Rightarrow> bool \<Rightarrow> TypeIndex \<Rightarrow> bool" where
  "merges_consistently uri base idx \<longleftrightarrow>
     (uri \<in> base_game_uris idx) = base \<or> base \<and> (\<forall>e \<in># index_entries idx. entry_uri e \<noteq> uri)"

lemma merge_types_core:
  assumes "core_ok bg idx" "bg uri = base"
  shows "core_ok bg (fold (merge_type uri base) per idx)"
    "index_entries (fold (merge_type uri base) per idx) = index_entries idx + file_entries uri per"
    "base_game_uris (fold (merge_type uri base) per idx) = base_game_uris idx"
    "tables_ok (fold (merge_type uri base) per idx) = tables_ok idx"
proof -
  have "core_ok bg (fold (merge_type uri base) per idx) \<and>
    index_entries (fold (merge_type uri base) per idx) = index_entries idx + file_entries uri per \<and>
    base_game_uris (fold (merge_type uri base) per idx) = base_game_uris idx \<and>
    tables_ok (fold (merge_type uri base) per idx) = tables_ok idx"
    using assms(1)
  proof (induction per arbitrary: idx)
    case (Cons p per)
    obtain t insts where p: "p = (t, insts)" by force
    show ?case
      using Cons.IH [OF merge_type_core(1) [OF Cons.prems assms(2)], of t insts]
        merge_type_core(2-4) [OF Cons.prems assms(2), of t insts]
      by (simp add: p file_entries_def ac_simps)
  qed (simp add: file_entries_def)
  then show "core_ok bg (fold (merge_type uri base) per idx)"
    "index_entries (fold (merge_type uri base) per idx) = index_entries idx + file_entries uri per"
    "base_game_uris (fold (merge_type uri base) per idx) = base_game_uris idx"
    "tables_ok (fold (merge_type uri base) per idx) = tables_ok idx"
    by auto
qed

lemma core_ok_cong:
  assumes "core_ok bg idx" "\<And>e. e \<in># index_entries idx \<Longrightarrow> bg (entry_uri e) = bg' (entry_uri e)"
  shows "core_ok bg' idx"
  using assms counts_match_cong [of bg "index_entries idx" _ _ bg'] by (auto simp: core_ok_def)

lemma core_ok_base_uris [simp]: "core_ok bg (idx\<lparr>base_game_uris := U\<rparr>) = core_ok bg idx"
  by (simp add: core_ok_def index_entries_def)

lemma index_entries_base_uris [simp]: "index_entries (idx\<lparr>base_game_uris := U\<rparr>) = index_entries idx"
  by (simp add: index_entries_def)

lemma index_ok_alt: "index_ok idx \<longleftrightarrow> core_ok (\<lambda>u. u \<in> base_game_uris idx) idx \<and> tables_ok idx"
  by (simp add: index_ok_def tables_ok_def)

lemma merge_from_ok:
  assumes "index_ok idx" "merges_consistently uri base idx"
  shows "index_ok (merge_from uri per base idx)"
    "index_entries (merge_from uri per base idx) = index_entries idx + file_entries uri per"
proof -
  define idx1 where "idx1 = (if base then idx\<lparr>base_game_uris := insert uri (base_game_uris idx)\<rparr> else idx)"
  have "core_ok (\<lambda>u. u \<in> base_game_uris idx1) idx"
  proof (rule core_ok_cong)
    show "core_ok (\<lambda>u. u \<in> base_game_uris idx) idx" using assms(1) by (simp add: index_ok_alt)
    show "(entry_uri e \<in> base_game_uris idx) = (entry_uri e \<in> base_game_uris idx1)"
      if "e \<in># index_entries idx" for e
      using assms(2) that by (cases base) (auto simp: idx1_def merges_consistently_def)
  qed
  then have core: "core_ok (\<lambda>u. u \<in> base_game_uris idx1) idx1"
    by (cases base) (simp_all add: idx1_def)
  have base: "(uri \<in> base_game_uris idx1) = base"
    using assms(2) by (cases base) (auto simp: merges_consistently_def idx1_def)
  have tables: "tables_ok idx1" "index_entries idx1 = index_entries idx"
    using assms(1) by (simp_all add: idx1_def index_ok_alt tables_ok_def)
  have step: "merge_from uri per base idx = fold (merge_type uri base) per idx1"
    by (simp add: merge_from_def idx1_def Let_def)
  show "index_ok (merge_from uri per base idx)"
    "index_entries (merge_from uri per base idx) = index_entries idx + file_entries uri per"
    unfolding step index_ok_alt using merge_types_core [OF core base, of per] tables by simp_all
qed

text \<open>A batch whose instances carry their own files: none of them is a workspace file.\<close>

definition batch_entries :: "(rstr \<times> (rstr \<times> TypeInstance) list) list \<Rightarrow> index_entry multiset" where
  "batch_entries per = mset (concat (map (\<lambda>(t, insts). map (Pair t) insts) per))"

definition base_or_new :: "rstr \<Rightarrow> TypeIndex \<Rightarrow> bool" where
  "base_or_new u idx \<longleftrightarrow> u \<in> base_game_uris idx \<or> (\<forall>e \<in># index_entries idx. entry_uri e \<noteq> u)"

lemma add_base_instance:
  assumes "index_ok idx" "base_or_new uri idx"
  shows "index_ok (add_instance t True uri inst (idx\<lparr>base_game_uris := insert uri (base_game_uris idx)\<rparr>))"
    "index_entries (add_instance t True uri inst (idx\<lparr>base_game_uris := insert uri (base_game_uris idx)\<rparr>)) =
       add_mset (t, uri, inst) (index_entries idx)"
    "base_or_new u idx \<Longrightarrow>
       base_or_new u (add_instance t True uri inst (idx\<lparr>base_game_uris := insert uri (base_game_uris idx)\<rparr>))"
proof -
  let ?idx = "idx\<lparr>base_game_uris := insert uri (base_game_uris idx)\<rparr>"
  have "core_ok (\<lambda>u. u \<in> base_game_uris ?idx) idx"
  proof (rule core_ok_cong)
    show "core_ok (\<lambda>u. u \<in> base_game_uris idx) idx" using assms(1) by (simp add: index_ok_alt)
    show "(entry_uri e \<in> base_game_uris idx) = (entry_uri e \<in> base_game_uris ?idx)"
      if "e \<in># index_entries idx" for e
      using assms(2) that by (auto simp: base_or_new_def)
  qed
  then have core: "core_ok (\<lambda>u. u \<in> base_game_uris ?idx) ?idx" by simp
  have base: "(uri \<in> base_game_uris ?idx) = True" by simp
  show entries: "index_entries (add_instance t True uri inst ?idx) = add_mset (t, uri, inst) (index_entries idx)"
    using add_instance_core(2) [OF core base] by simp
  show "index_ok (add_instance t True uri inst ?idx)"
    using add_instance_core(1) [OF core base, where t = t and inst = inst] assms(1) by (simp add: index_ok_alt tables_ok_def)
  show "base_or_new u idx \<Longrightarrow> base_or_new u (add_instance t True uri inst ?idx)"
    by (auto simp: base_or_new_def entries)
qed

lemma touch_type_ok:
  assumes "index_ok idx"
  shows "index_ok (idx\<lparr>instance_sets := upd_entry [] t (\<lambda>s. s) (instance_sets idx),
      ti_map := upd_entry [] t (\<lambda>e. e) (ti_map idx)\<rparr>)"
    "index_entries (idx\<lparr>instance_sets := upd_entry [] t (\<lambda>s. s) (instance_sets idx),
      ti_map := upd_entry [] t (\<lambda>e. e) (ti_map idx)\<rparr>) = index_entries idx"
  using assms core_ok_touch(1) [of "\<lambda>u. u \<in> base_game_uris idx" idx, where t = t]
  by (auto simp: index_ok_alt tables_ok_def index_entries_def core_ok_def bucket_entries_touch)

lemma merge_batch_ok:
  assumes "index_ok idx" "\<And>t insts u i. (t, insts) \<in> set per \<Longrightarrow> (u, i) \<in> set insts \<Longrightarrow> base_or_new u idx"
  shows "index_ok (merge_base_game_with_uris per idx)"
    "index_entries (merge_base_game_with_uris per idx) = index_entries idx + batch_entries per"
proof -
  let ?one = "\<lambda>t (uri, inst) idx.
    let idx1 = idx\<lparr>base_game_uris := insert uri (base_game_uris idx)\<rparr> in add_instance t True uri inst idx1"
  have inner: "index_ok (fold (?one t) insts i) \<and>
      index_entries (fold (?one t) insts i) = index_entries i + mset (map (Pair t) insts) \<and>
      (\<forall>u. base_or_new u i \<longrightarrow> base_or_new u (fold (?one t) insts i))"
    if "index_ok i" "\<And>u x. (u, x) \<in> set insts \<Longrightarrow> base_or_new u i" for t insts i
    using that
  proof (induction insts arbitrary: i)
    case (Cons p insts)
    obtain uri inst where p: "p = (uri, inst)" by force
    have new: "base_or_new uri i" using Cons.prems(2) p by force
    let ?i = "add_instance t True uri inst (i\<lparr>base_game_uris := insert uri (base_game_uris i)\<rparr>)"
    note step = add_base_instance [OF Cons.prems(1) new, where t = t and inst = inst]
    have "base_or_new u ?i" if "(u, x) \<in> set insts" for u x
      using Cons.prems(2) [of u x] that step(3) by auto
    from Cons.IH [OF step(1) this] show ?case using step(2,3) by (simp add: p)
  qed simp
  have "index_ok (merge_base_game_with_uris per idx) \<and>
      index_entries (merge_base_game_with_uris per idx) = index_entries idx + batch_entries per"
    using assms
  proof (induction per arbitrary: idx)
    case (Cons p per)
    obtain t insts where p: "p = (t, insts)" by force
    let ?i = "idx\<lparr>instance_sets := upd_entry [] t (\<lambda>s. s) (instance_sets idx),
      ti_map := upd_entry [] t (\<lambda>e. e) (ti_map idx)\<rparr>"
    have same: "base_or_new u ?i = base_or_new u idx" for u
      using touch_type_ok(2) [OF Cons.prems(1)] by (simp add: base_or_new_def)
    have "base_or_new u ?i" if "(u, x) \<in> set insts" for u x
      using Cons.prems(2) [of t insts u x] that p same by simp
    note step = inner [OF touch_type_ok(1) [OF Cons.prems(1)] this, where t = t]
    have "base_or_new u (fold (?one t) insts ?i)" if "(t', insts') \<in> set per" "(u, x) \<in> set insts'" for t' insts' u x
      using Cons.prems(2) [of t' insts' u x] that step same by auto
    from Cons.IH [OF conjunct1 [OF step] this] show ?case
      using step touch_type_ok(2) [OF Cons.prems(1), of t]
      by (simp add: merge_base_game_with_uris_def p batch_entries_def Let_def ac_simps)
  qed (simp add: merge_base_game_with_uris_def batch_entries_def)
  then show "index_ok (merge_base_game_with_uris per idx)"
    "index_entries (merge_base_game_with_uris per idx) = index_entries idx + batch_entries per" by auto
qed

subsection \<open>Removing\<close>

text \<open>
  Half way through a removal of \<open>f\<close>: its own positions are gone from the table and \<open>Q\<close> holds
  those still to be removed.
\<close>

definition removing :: "rstr \<Rightarrow> (rstr \<Rightarrow> bool) \<Rightarrow> (rstr \<Rightarrow> nat set) \<Rightarrow> TypeIndex \<Rightarrow> bool" where
  "removing f bg Q idx \<longleftrightarrow> distinct (map fst (ti_map idx)) \<and>
     counts_match bg (index_entries idx) (name_counts idx) (instance_sets idx) \<and>
     positions_match (- {f}) (ti_map idx) (file_positions idx) \<and>
     map_of (file_positions idx) f = None \<and> (\<forall>t. posn f (bucket (ti_map idx) t) = Q t)"

lemma release_counts_some:
  assumes "counts_match bg (add_mset (t, u, inst) E) (name_counts idx) (instance_sets idx)"
  shows "\<exists>nc' S'. release_counts t (bg u) inst idx = Some (idx\<lparr>name_counts := nc', instance_sets := S'\<rparr>) \<and>
    counts_match bg E nc' S'"
proof -
  let ?S = "sets_release (t, to_ascii_lowercase (inst_name inst), bg u) (instance_sets idx)"
  have key: "entry_key (t, u, inst) = to_ascii_lowercase (inst_name inst)" by (simp add: entry_key_def)
  obtain nc where nc: "counts_match bg E nc ?S"
    "(if is_subtype_key t then Some (name_counts idx)
      else dec_ref (to_ascii_lowercase (inst_name inst)) (name_counts idx)) = Some nc"
    using counts_match_release [OF assms, unfolded key fst_conv snd_conv] by blast
  then have "release_counts t (bg u) inst idx = Some (idx\<lparr>name_counts := nc, instance_sets := ?S\<rparr>)"
    by (simp add: release_counts_def sets_release_def Let_def split: option.split)
  then show ?thesis using nc(1) by blast
qed

lemma mem_posn: "j \<in> posn u v \<longleftrightarrow> j < length v \<and> fst (v ! j) = u"
  by (simp add: posn_def)

lemma swap_remove_instance_some:
  assumes "map_of (ti_map idx) t = Some v" "i < length v" "fst (v ! i) = f"
    and dist: "distinct (map fst (ti_map idx))"
    and pos: "positions_match (- {f}) (ti_map idx) (file_positions idx)"
    and gone: "map_of (file_positions idx) f = None"
    and largest: "\<And>j. j \<in> posn f v \<Longrightarrow> j \<le> i"
  shows "\<exists>fp. swap_remove_instance t i idx =
      Some (idx\<lparr>ti_map := AList.update t (swap_remove i v) (ti_map idx), file_positions := fp\<rparr>) \<and>
    positions_match (- {f}) (AList.update t (swap_remove i v) (ti_map idx)) fp \<and> map_of fp f = None \<and>
    posn f (swap_remove i v) = posn f v - {i}"
proof -
  let ?m = "AList.update t (swap_remove i v) (ti_map idx)"
  let ?fp = "file_positions idx"
  define l where "l = length v - 1"
  have l_len: "l < length v" using assms(2) by (simp add: l_def)
  have bucket: "bucket (ti_map idx) t = v" using assms(1) by (simp add: get_or_def)
  have mine: "posn f (swap_remove i v) = posn f v - {i}"
    using largest [of l] l_len assms(2) by (auto simp: posn_swap_remove mem_posn l_def)
  show ?thesis
  proof (cases "i = l")
    case True
    have "swap_remove_instance t i idx = Some (idx\<lparr>ti_map := ?m, file_positions := ?fp\<rparr>)"
      using assms(1,2) True by (auto simp: swap_remove_instance_def Let_def l_def)
    moreover have "posn u (swap_remove i v) = posn u v" if "u \<noteq> f" for u
      using that assms(2,3) True by (auto simp: posn_swap_remove mem_posn l_def)
    then have "positions_match (- {f}) ?m ?fp"
      using pos bucket by (auto simp: positions_match_def)
    ultimately show ?thesis using gone mine by blast
  next
    case False
    define u where "u = fst (v ! l)"
    have last: "swap_remove i v ! i = v ! l" using assms(2) False by (simp add: nth_swap_remove l_def)
    have "u \<noteq> f" using largest [of l] l_len assms(2) False by (auto simp: u_def mem_posn l_def)
    have "l \<in> posn u v" using assms(2) by (auto simp: mem_posn u_def l_def)
    then have pu: "l \<in> set (fp_get ?fp u t)" "distinct (fp_get ?fp u t)" "set (fp_get ?fp u t) = posn u v"
      using pos bucket \<open>u \<noteq> f\<close> by (auto simp: positions_match_def)
    then obtain by_type where by_type: "map_of ?fp u = Some by_type" "map_of by_type t = Some (fp_get ?fp u t)"
      by (auto simp: fp_get_def get_or_def split: option.splits)
    let ?ps = "repair l i (fp_get ?fp u t)"
    let ?fp' = "AList.update u (AList.update t ?ps by_type) ?fp"
    have step: "swap_remove_instance t i idx = Some (idx\<lparr>ti_map := ?m, file_positions := ?fp'\<rparr>)"
      using assms(1,2) False by_type last by (auto simp: swap_remove_instance_def Let_def u_def l_def)
    have "i \<notin> set (fp_get ?fp u t)" using pu(3) assms(3) \<open>u \<noteq> f\<close> by (auto simp: mem_posn)
    note ps = repair_props [OF pu(2,1) this]
    have get: "fp_get ?fp' u' t' = (if u' = u \<and> t' = t then ?ps else fp_get ?fp u' t')" for u' t'
      using by_type by (auto simp: fp_get_def get_or_def)
    have others: "posn u' (swap_remove i v) = (if u' = u then insert i (posn u v - {l}) else posn u' v)"
      if "u' \<noteq> f" for u'
      using that assms(2,3) False by (auto simp: posn_swap_remove u_def mem_posn l_def)
    have "positions_match (- {f}) ?m ?fp'"
      unfolding positions_match_def
    proof (intro conjI allI ballI)
      have inner: "get_or [] ?fp u = by_type" using by_type by (simp add: get_or_def)
      show "distinct (map fst ?fp')" using pos by (simp add: positions_match_def distinct_update)
      show "distinct (map fst (get_or [] ?fp' u'))" for u'
        using pos by (auto simp: positions_match_def distinct_update simp flip: inner)
      fix u' t' assume u': "u' \<in> - {f}"
      then have old: "distinct (fp_get ?fp u' t')" "set (fp_get ?fp u' t') = posn u' (bucket (ti_map idx) t')"
        using pos by (auto simp: positions_match_def)
      show "distinct (fp_get ?fp' u' t')" using old ps by (simp add: get)
      show "set (fp_get ?fp' u' t') = posn u' (bucket ?m t')"
        using old ps others [of u'] u' pu(3) bucket by (auto simp: get)
    qed
    moreover have "map_of ?fp' f = None" using gone \<open>u \<noteq> f\<close> by simp
    ultimately show ?thesis using step mine by blast
  qed
qed

lemma remove_position_some:
  assumes rem: "removing f bg Q idx" and i: "i \<in> Q t" "\<And>j. j \<in> Q t \<Longrightarrow> j \<le> i"
  shows "\<exists>idx'. remove_position t (bg f) i idx = Some idx' \<and> removing f bg (Q(t := Q t - {i})) idx' \<and>
    (\<exists>e. entry_uri e = f \<and> index_entries idx = add_mset e (index_entries idx')) \<and>
    base_game_uris idx' = base_game_uris idx \<and> tables_ok idx' = tables_ok idx"
proof -
  define v where "v = bucket (ti_map idx) t"
  have dist: "distinct (map fst (ti_map idx))"
    and counts: "counts_match bg (index_entries idx) (name_counts idx) (instance_sets idx)"
    and pos: "positions_match (- {f}) (ti_map idx) (file_positions idx)"
    and gone: "map_of (file_positions idx) f = None"
    and Q: "\<And>t. posn f (bucket (ti_map idx) t) = Q t"
    using rem by (auto simp: removing_def)
  have len: "i < length v" and mine: "fst (v ! i) = f" using i(1) Q [of t] by (auto simp: mem_posn v_def)
  then have v: "map_of (ti_map idx) t = Some v"
    by (auto simp: v_def get_or_def split: option.splits)
  obtain inst where inst: "v ! i = (f, inst)" using mine by (cases "v ! i") auto
  let ?m = "AList.update t (swap_remove i v) (ti_map idx)"
  have entries: "index_entries idx = add_mset (t, f, inst) (bucket_entries ?m)"
    using bucket_entries_update [OF dist, of t "swap_remove i v"] mset_swap_remove [OF len] inst
    by (simp add: index_entries_def v_def)
  obtain nc S where rel: "release_counts t (bg f) inst idx = Some (idx\<lparr>name_counts := nc, instance_sets := S\<rparr>)"
    and cm: "counts_match bg (bucket_entries ?m) nc S"
    using release_counts_some [of bg t f inst "bucket_entries ?m" idx] counts entries by auto
  let ?idx = "idx\<lparr>name_counts := nc, instance_sets := S\<rparr>"
  have "\<And>j. j \<in> posn f v \<Longrightarrow> j \<le> i" using i(2) Q [of t] by (simp add: v_def)
  then obtain fp where swap: "swap_remove_instance t i ?idx =
      Some (?idx\<lparr>ti_map := ?m, file_positions := fp\<rparr>)"
    "positions_match (- {f}) ?m fp" "map_of fp f = None" "posn f (swap_remove i v) = posn f v - {i}"
    using swap_remove_instance_some [of ?idx t v i f] v len mine dist pos gone by auto
  let ?idx' = "?idx\<lparr>ti_map := ?m, file_positions := fp\<rparr>"
  have "remove_position t (bg f) i idx = Some ?idx'"
    using v len rel swap(1) inst by (simp add: remove_position_def)
  moreover have "removing f bg (Q(t := Q t - {i})) ?idx'"
    using dist cm swap Q by (auto simp: removing_def index_entries_def distinct_update v_def)
  moreover have "index_entries idx = add_mset (t, f, inst) (index_entries ?idx')"
    using entries by (simp add: index_entries_def)
  ultimately show ?thesis by (intro exI [of _ ?idx']) (auto simp: tables_ok_def)
qed

text \<open>What a removal of \<open>f\<close> did so far: entries of \<open>f\<close> are gone, and nothing else changed.\<close>

definition removed :: "rstr \<Rightarrow> TypeIndex \<Rightarrow> TypeIndex \<Rightarrow> bool" where
  "removed f idx idx' \<longleftrightarrow>
     (\<exists>R. index_entries idx = index_entries idx' + R \<and> (\<forall>e\<in>#R. entry_uri e = f)) \<and>
     base_game_uris idx' = base_game_uris idx \<and> tables_ok idx' = tables_ok idx"

lemma removed_refl: "removed f idx idx"
  by (auto simp: removed_def intro: exI [of _ "{#}"])

lemma removed_trans:
  assumes "removed f a b" "removed f b c"
  shows "removed f a c"
proof -
  obtain R R' where "index_entries a = index_entries b + R" "\<forall>e\<in>#R. entry_uri e = f"
    "index_entries b = index_entries c + R'" "\<forall>e\<in>#R'. entry_uri e = f"
    using assms by (auto simp: removed_def)
  then show ?thesis using assms
    by (auto simp: removed_def intro!: exI [of _ "R' + R"])
qed

lemma remove_positions_some:
  assumes "removing f bg Q idx" "sorted_wrt (>) ps" "set ps = Q t"
  shows "\<exists>idx'. fold_opt (remove_position t (bg f)) ps idx = Some idx' \<and>
    removing f bg (Q(t := {})) idx' \<and> removed f idx idx'"
  using assms
proof (induction ps arbitrary: Q idx)
  case Nil
  then have "Q(t := {}) = Q" by (auto simp: fun_eq_iff)
  then show ?case using Nil by (simp add: removed_refl)
next
  case (Cons i ps)
  have i: "i \<in> Q t" "\<And>j. j \<in> Q t \<Longrightarrow> j \<le> i"
    using Cons.prems(2) by (auto simp flip: Cons.prems(3))
  obtain idx1 where idx1: "remove_position t (bg f) i idx = Some idx1"
    "removing f bg (Q(t := Q t - {i})) idx1" "removed f idx idx1"
    using remove_position_some [OF Cons.prems(1) i] by (fastforce simp: removed_def)
  have "set ps = (Q(t := Q t - {i})) t" using Cons.prems(2,3) by auto
  moreover have "(Q(t := Q t - {i}))(t := {}) = Q(t := {})" by simp
  moreover have "sorted_wrt (>) ps" using Cons.prems(2) by simp
  ultimately obtain idx2 where idx2:
    "fold_opt (remove_position t (bg f)) ps idx1 = Some idx2"
    "removing f bg (Q(t := {})) idx2" "removed f idx1 idx2"
    using Cons.IH [OF idx1(2)] by metis
  have "fold_opt (remove_position t (bg f)) (i # ps) idx = Some idx2" using idx1(1) idx2(1) by simp
  then show ?case using idx2(2) removed_trans [OF idx1(3) idx2(3)] by blast
qed

lemma removing_delete_empty:
  assumes "removing f bg Q idx" "map_of (ti_map idx) t = Some []"
  shows "removing f bg Q (idx\<lparr>ti_map := AList.delete t (ti_map idx),
      instance_sets := AList.delete t (instance_sets idx)\<rparr>)"
    "removed f idx (idx\<lparr>ti_map := AList.delete t (ti_map idx),
      instance_sets := AList.delete t (instance_sets idx)\<rparr>)"
proof -
  have dist: "distinct (map fst (ti_map idx))"
    and counts: "counts_match bg (index_entries idx) (name_counts idx) (instance_sets idx)"
    using assms(1) by (auto simp: removing_def)
  have empty: "bucket (ti_map idx) t = []" using assms(2) by (simp add: get_or_def)
  have same: "bucket_entries (AList.delete t (ti_map idx)) = index_entries idx"
    using bucket_entries_delete_empty [OF empty dist] by (simp add: index_entries_def)
  have buckets: "bucket (AList.delete t (ti_map idx)) x = bucket (ti_map idx) x" for x
    using empty by simp
  have none: "fst e \<noteq> t" if "e \<in># index_entries idx" for e
    using that mem_bucket_entries [OF dist, of "fst e" "snd e"] empty by (auto simp: index_entries_def)
  have zero: "sets_count (instance_sets idx) (t, k) = 0" for k
  proof -
    have "count (image_mset (\<lambda>e. (fst e, entry_key e, bg (entry_uri e))) (index_entries idx)) (t, k) = 0"
      using none by (auto simp: count_eq_zero_iff)
    then show ?thesis using counts by (simp add: counts_match_def del: split_paired_All)
  qed
  have "sets_count (AList.delete t (instance_sets idx)) x = sets_count (instance_sets idx) x" for x
    using zero [of "snd x"] by (cases x) (auto simp: sets_count_def refs_count_def)
  moreover have "sets_ok (AList.delete t (instance_sets idx))"
    using counts by (auto simp: counts_match_def sets_ok_def distinct_delete delete_conv'
      simp del: map_of_eq_Some_iff split: if_splits)
  ultimately have "counts_match bg (index_entries idx) (name_counts idx) (AList.delete t (instance_sets idx))"
    using counts by (simp add: counts_match_def del: split_paired_All)
  then show "removing f bg Q (idx\<lparr>ti_map := AList.delete t (ti_map idx),
      instance_sets := AList.delete t (instance_sets idx)\<rparr>)"
    using assms(1) same buckets
    by (simp add: removing_def index_entries_def distinct_delete positions_match_def)
  show "removed f idx (idx\<lparr>ti_map := AList.delete t (ti_map idx),
      instance_sets := AList.delete t (instance_sets idx)\<rparr>)"
    using same by (simp add: removed_def index_entries_def tables_ok_def)
qed

lemma rev_sort_strict: "distinct ps \<Longrightarrow> sorted_wrt (>) (rev (sort ps))" for ps :: "nat list"
  by (simp add: sorted_wrt_rev strict_sorted_iff)

lemma remove_type_some:
  assumes "removing f bg Q idx" "distinct ps" "set ps = Q t"
  shows "\<exists>idx'. remove_type (bg f) (t, ps) idx = Some idx' \<and>
    removing f bg (Q(t := {})) idx' \<and> removed f idx idx'"
proof -
  obtain idx1 where idx1: "fold_opt (remove_position t (bg f)) (rev (sort ps)) idx = Some idx1"
    "removing f bg (Q(t := {})) idx1" "removed f idx idx1"
    using remove_positions_some [OF assms(1) rev_sort_strict [OF assms(2)]] assms(3) by auto
  show ?thesis
  proof (cases "map_of (ti_map idx1) t = Some []")
    case True
    let ?idx = "idx1\<lparr>ti_map := AList.delete t (ti_map idx1), instance_sets := AList.delete t (instance_sets idx1)\<rparr>"
    have "remove_type (bg f) (t, ps) idx = Some ?idx" using idx1(1) True by (simp add: remove_type_def)
    moreover have "removed f idx ?idx"
      using removed_trans [OF idx1(3) removing_delete_empty(2) [OF idx1(2) True]] .
    ultimately show ?thesis using removing_delete_empty(1) [OF idx1(2) True] by blast
  next
    case False
    then show ?thesis using idx1 by (auto simp: remove_type_def)
  qed
qed

lemma remove_types_some:
  assumes "removing f bg Q idx" "distinct (map fst tps)"
    "\<And>t ps. (t, ps) \<in> set tps \<Longrightarrow> distinct ps \<and> set ps = Q t"
  shows "\<exists>idx'. fold_opt (remove_type (bg f)) tps idx = Some idx' \<and>
    removing f bg (\<lambda>t. if t \<in> fst ` set tps then {} else Q t) idx' \<and> removed f idx idx'"
  using assms
proof (induction tps arbitrary: Q idx)
  case Nil
  then show ?case by (simp add: removed_refl)
next
  case (Cons p tps)
  obtain t ps where p: "p = (t, ps)" by force
  have ps: "distinct ps" "set ps = Q t" using Cons.prems(3) [of t ps] by (auto simp: p)
  obtain idx1 where idx1: "remove_type (bg f) (t, ps) idx = Some idx1"
    "removing f bg (Q(t := {})) idx1" "removed f idx idx1"
    using remove_type_some [OF Cons.prems(1) ps] by blast
  have fresh: "t \<notin> fst ` set tps" "distinct (map fst tps)" using Cons.prems(2) by (simp_all add: p)
  have tps: "distinct ps' \<and> set ps' = (Q(t := {})) t'" if "(t', ps') \<in> set tps" for t' ps'
  proof -
    have "t' \<noteq> t" using that fresh(1) by force
    then show ?thesis using Cons.prems(3) [of t' ps'] that by simp
  qed
  have Q: "(\<lambda>x. if x \<in> fst ` set tps then {} else (Q(t := {})) x) =
      (\<lambda>x. if x \<in> fst ` set (p # tps) then {} else Q x)"
    by (auto simp: p fun_eq_iff)
  obtain idx2 where "fold_opt (remove_type (bg f)) tps idx1 = Some idx2"
    "removing f bg (\<lambda>x. if x \<in> fst ` set (p # tps) then {} else Q x) idx2" "removed f idx1 idx2"
    using Cons.IH [OF idx1(2) fresh(2) tps] unfolding Q by blast
  then show ?case using idx1(1) removed_trans [OF idx1(3)] by (simp add: p)
qed

lemma entries_posn:
  assumes "distinct (map fst (ti_map idx))"
  shows "(\<exists>e \<in># index_entries idx. fst e = t \<and> entry_uri e = u) \<longleftrightarrow> posn u (bucket (ti_map idx) t) \<noteq> {}"
proof
  assume "\<exists>e \<in># index_entries idx. fst e = t \<and> entry_uri e = u"
  then obtain i where "(t, u, i) \<in># index_entries idx" by (metis prod.collapse)
  then have "(u, i) \<in> set (bucket (ti_map idx) t)"
    using mem_bucket_entries [OF assms] by (simp add: index_entries_def)
  then obtain j where "j < length (bucket (ti_map idx) t)" "bucket (ti_map idx) t ! j = (u, i)"
    by (auto simp: in_set_conv_nth)
  then show "posn u (bucket (ti_map idx) t) \<noteq> {}" using mem_posn by force
next
  assume "posn u (bucket (ti_map idx) t) \<noteq> {}"
  then obtain j where j: "j < length (bucket (ti_map idx) t)" "fst (bucket (ti_map idx) t ! j) = u"
    by (auto simp: posn_def)
  then have "(t, bucket (ti_map idx) t ! j) \<in># index_entries idx"
    using mem_bucket_entries [OF assms] by (simp add: index_entries_def)
  then show "\<exists>e \<in># index_entries idx. fst e = t \<and> entry_uri e = u" using j(2) by force
qed

lemma positions_matchD:
  assumes "positions_match UNIV m fp"
  shows "distinct (fp_get fp u t)" "posn u (bucket m t) = set (fp_get fp u t)"
  using assms by (simp_all add: positions_match_def)

lemma remove_type_instances_some:
  assumes "index_ok idx"
  shows "\<exists>idx'. remove_type_instances f idx = Some idx' \<and> index_ok idx' \<and>
    (\<forall>u. u \<noteq> f \<longrightarrow> (u \<in> base_game_uris idx') = (u \<in> base_game_uris idx)) \<and>
    index_entries idx' = filter_mset (\<lambda>e. entry_uri e \<noteq> f) (index_entries idx)"
proof -
  define bg where "bg = (\<lambda>u. u \<in> base_game_uris idx)"
  have dist: "distinct (map fst (ti_map idx))"
    and counts: "counts_match bg (index_entries idx) (name_counts idx) (instance_sets idx)"
    and pos: "positions_match UNIV (ti_map idx) (file_positions idx)" and tables: "tables_ok idx"
    using assms by (auto simp: index_ok_alt core_ok_def bg_def)
  note posn_iff = entries_posn [OF dist]
  show ?thesis
  proof (cases "map_of (file_positions idx) f")
    case None
    then have "get_or [] (file_positions idx) f = []" by (simp add: get_or_def)
    then have "fp_get (file_positions idx) f t = []" for t by (simp add: fp_get_def)
    then have "posn f (bucket (ti_map idx) t) = {}" for t
      using positions_matchD(2) [OF pos, of f t] by simp
    then have "entry_uri e \<noteq> f" if "e \<in># index_entries idx" for e using posn_iff that by blast
    then have "filter_mset (\<lambda>e. entry_uri e \<noteq> f) (index_entries idx) = index_entries idx"
      by (simp add: filter_mset_eq_conv)
    then show ?thesis using None assms by (simp add: remove_type_instances_def)
  next
    case (Some tps)
    let ?idx0 = "idx\<lparr>file_positions := AList.delete f (file_positions idx),
      base_game_uris := base_game_uris idx - {f}\<rparr>"
    let ?Q = "\<lambda>t. posn f (bucket (ti_map idx) t)"
    have get: "get_or [] (file_positions idx) f = tps" using Some by (simp add: get_or_def)
    have inner: "distinct (map fst tps)" using pos by (auto simp: positions_match_def simp flip: get)
    have rem: "removing f bg ?Q ?idx0"
      using dist counts pos
      by (auto simp: removing_def index_entries_def positions_match_def fp_get_def distinct_delete delete_conv')
    have tp: "distinct ps \<and> set ps = ?Q t" if "(t, ps) \<in> set tps" for t ps
    proof -
      have "fp_get (file_positions idx) f t = ps"
        using that inner by (simp add: fp_get_def get) (simp add: get_or_def)
      then show ?thesis using pos by (auto simp: positions_match_def)
    qed
    obtain idx' where idx': "fold_opt (remove_type (bg f)) tps ?idx0 = Some idx'"
      "removing f bg (\<lambda>t. if t \<in> fst ` set tps then {} else ?Q t) idx'" "removed f ?idx0 idx'"
      using remove_types_some [OF rem inner tp] by blast
    have none: "posn f (bucket (ti_map idx') t) = {}" for t
    proof (cases "t \<in> fst ` set tps")
      case False
      then have "map_of tps t = None" by (simp add: map_of_eq_None_iff)
      then have "fp_get (file_positions idx) f t = []" by (simp add: fp_get_def get) (simp add: get_or_def)
      then have "?Q t = {}" using positions_matchD(2) [OF pos, of f t] by simp
      then show ?thesis using idx'(2) by (simp add: removing_def)
    qed (use idx'(2) in \<open>simp add: removing_def\<close>)
    have dist': "distinct (map fst (ti_map idx'))" using idx'(2) by (simp add: removing_def)
    have none_e: "entry_uri e \<noteq> f" if "e \<in># index_entries idx'" for e
      using entries_posn [OF dist'] none that by blast
    obtain R where R: "index_entries idx = index_entries idx' + R" "\<forall>e\<in>#R. entry_uri e = f"
      using idx'(3) by (auto simp: removed_def index_entries_def)
    have "filter_mset (\<lambda>e. entry_uri e \<noteq> f) (index_entries idx') = index_entries idx'"
      "filter_mset (\<lambda>e. entry_uri e \<noteq> f) R = {#}"
      using none_e R(2) by (auto simp: filter_mset_eq_conv)
    then have entries: "index_entries idx' = filter_mset (\<lambda>e. entry_uri e \<noteq> f) (index_entries idx)"
      by (simp add: R(1))
    have base: "base_game_uris idx' = base_game_uris idx - {f}" using idx'(3) by (simp add: removed_def)
    have "counts_match (\<lambda>u. u \<in> base_game_uris idx') (index_entries idx') (name_counts idx') (instance_sets idx')"
    proof (rule counts_match_cong)
      show "counts_match bg (index_entries idx') (name_counts idx') (instance_sets idx')"
        using idx'(2) by (simp add: removing_def)
      show "bg (entry_uri e) = (entry_uri e \<in> base_game_uris idx')" if "e \<in># index_entries idx'" for e
        using none_e [OF that] by (simp add: base bg_def)
    qed
    moreover have "positions_match UNIV (ti_map idx') (file_positions idx')"
      unfolding positions_match_def
    proof (intro conjI allI ballI)
      fix u t
      have "get_or [] (file_positions idx') f = []" using idx'(2) by (simp add: removing_def get_or_def)
      then have own: "fp_get (file_positions idx') f t = []" by (simp add: fp_get_def)
      show "distinct (fp_get (file_positions idx') u t)"
        "set (fp_get (file_positions idx') u t) = posn u (bucket (ti_map idx') t)"
        using idx'(2) own none [of t]
        by (cases "u = f"; simp add: removing_def positions_match_def)+
    qed (use idx'(2) in \<open>simp_all add: removing_def positions_match_def\<close>)
    ultimately have "index_ok idx'"
      using dist' idx'(3) tables by (simp add: index_ok_alt core_ok_def removed_def tables_ok_def)
    moreover have "remove_type_instances f idx = Some idx'"
      using Some idx'(1) by (simp add: remove_type_instances_def bg_def)
    ultimately show ?thesis using entries base by auto
  qed
qed

lemma remove_file_some:
  assumes "index_ok idx"
  shows "\<exists>idx'. ti_remove_file f idx = Some idx' \<and> index_ok idx' \<and>
    (\<forall>u. u \<noteq> f \<longrightarrow> (u \<in> base_game_uris idx') = (u \<in> base_game_uris idx)) \<and>
    index_entries idx' = filter_mset (\<lambda>e. entry_uri e \<noteq> f) (index_entries idx)"
proof -
  obtain enums where enums: "nvi_remove_file f (complex_enum_values idx) = Some enums" "nvi_ok enums"
    using nvi_remove_some [of "complex_enum_values idx" f] assms by (auto simp: index_ok_def)
  obtain sets where sets: "nvi_remove_file f (value_set_values idx) = Some sets" "nvi_ok sets"
    using nvi_remove_some [of "value_set_values idx" f] assms by (auto simp: index_ok_def)
  obtain sl where sl: "sl_remove_file f (scripted_loc_index idx) = Some sl" "sl_ok sl"
    using sl_remove_some [of "scripted_loc_index idx" f] assms by (auto simp: index_ok_def)
  let ?idx = "idx\<lparr>complex_enum_values := enums, value_set_values := sets, scripted_loc_index := sl\<rparr>"
  have "index_ok ?idx"
    using assms enums(2) sets(2) sl(2) by (simp add: index_ok_def core_ok_def index_entries_def)
  from remove_type_instances_some [OF this, of f] show ?thesis
    by (simp add: ti_remove_file_def enums(1) sets(1) sl(1) index_entries_def)
qed

subsection \<open>The bulk removal\<close>

text \<open>Its first pass drops the counts of the entries of the files to remove, and only those.\<close>

lemma release_dropped_eq:
  "release_dropped U tv = fold_opt (\<lambda>(uri, inst) idx.
     if uri \<in> U then release_counts (fst tv) (uri \<in> base_game_uris idx) inst idx else Some idx) (snd tv)"
  by (rule ext) (simp only: release_dropped_def)

lemma release_dropped_simps:
  "release_dropped U (t, []) idx = Some idx"
  "release_dropped U (t, (u, i) # v) idx =
     Option.bind (if u \<in> U then release_counts t (u \<in> base_game_uris idx) i idx else Some idx)
       (release_dropped U (t, v))"
  by (simp_all add: release_dropped_eq cong: if_cong)

lemma release_dropped_some:
  assumes "counts_match bg (E + mset (map (Pair t) v)) (name_counts idx) (instance_sets idx)"
    "\<And>u. bg u = (u \<in> base_game_uris idx)"
  shows "\<exists>nc S. release_dropped U (t, v) idx = Some (idx\<lparr>name_counts := nc, instance_sets := S\<rparr>) \<and>
    counts_match bg (E + mset (map (Pair t) (filter (\<lambda>(u, i). u \<notin> U) v))) nc S"
  using assms
proof (induction v arbitrary: idx E)
  case Nil
  then show ?case
    by (intro exI [of _ "name_counts idx"] exI [of _ "instance_sets idx"]) (simp add: release_dropped_simps)
next
  case (Cons p v)
  obtain u inst where p: "p = (u, inst)" by force
  show ?case
  proof (cases "u \<in> U")
    case True
    have "counts_match bg (add_mset (t, u, inst) (E + mset (map (Pair t) v))) (name_counts idx) (instance_sets idx)"
      using Cons.prems(1) by (simp add: p)
    from release_counts_some [OF this] obtain nc S where
      rel: "release_counts t (bg u) inst idx = Some (idx\<lparr>name_counts := nc, instance_sets := S\<rparr>)"
      "counts_match bg (E + mset (map (Pair t) v)) nc S" by blast
    have "counts_match bg (E + mset (map (Pair t) v)) (name_counts (idx\<lparr>name_counts := nc, instance_sets := S\<rparr>))
      (instance_sets (idx\<lparr>name_counts := nc, instance_sets := S\<rparr>))" using rel(2) by simp
    from Cons.IH [OF this] show ?thesis
      using True rel(1) Cons.prems(2) by (simp add: release_dropped_simps p)
  next
    case False
    have "counts_match bg (add_mset (t, u, inst) E + mset (map (Pair t) v)) (name_counts idx) (instance_sets idx)"
      using Cons.prems(1) by (simp add: p)
    from Cons.IH [OF this Cons.prems(2)] show ?thesis
      using False by (simp add: release_dropped_simps p)
  qed
qed

definition keep_files :: "rstr set \<Rightarrow> (rstr \<times> (rstr \<times> TypeInstance) list) list \<Rightarrow> (rstr \<times> (rstr \<times> TypeInstance) list) list" where
  "keep_files U m = map (\<lambda>(t, v). (t, filter (\<lambda>(uri, inst). uri \<notin> U) v)) m"

lemma bucket_entries_keep:
  "bucket_entries (keep_files U m) = filter_mset (\<lambda>e. entry_uri e \<notin> U) (bucket_entries m)"
proof (induction m)
  case (Cons p m)
  obtain t v where p: "p = (t, v)" by force
  have "mset (map (Pair t) (filter (\<lambda>(uri, inst). uri \<notin> U) v)) =
      filter_mset (\<lambda>e. entry_uri e \<notin> U) (mset (map (Pair t) v))"
    by (induction v) auto
  with Cons show ?case by (simp add: p keep_files_def)
qed (simp add: keep_files_def)

lemma release_all_some:
  assumes "counts_match bg (E + bucket_entries m) (name_counts idx) (instance_sets idx)"
    "\<And>u. bg u = (u \<in> base_game_uris idx)"
  shows "\<exists>nc S. fold_opt (release_dropped U) m idx = Some (idx\<lparr>name_counts := nc, instance_sets := S\<rparr>) \<and>
    counts_match bg (E + bucket_entries (keep_files U m)) nc S"
  using assms
proof (induction m arbitrary: idx E)
  case Nil
  then show ?case
    by (intro exI [of _ "name_counts idx"] exI [of _ "instance_sets idx"]) (simp add: keep_files_def)
next
  case (Cons p m)
  obtain t v where p: "p = (t, v)" by force
  let ?kept = "mset (map (Pair t) (filter (\<lambda>(u, i). u \<notin> U) v))"
  have "counts_match bg ((E + bucket_entries m) + mset (map (Pair t) v)) (name_counts idx) (instance_sets idx)"
    using Cons.prems(1) by (simp add: p ac_simps)
  from release_dropped_some [OF this Cons.prems(2)] obtain nc S where
    rel: "release_dropped U (t, v) idx = Some (idx\<lparr>name_counts := nc, instance_sets := S\<rparr>)"
    "counts_match bg ((E + bucket_entries m) + ?kept) nc S" by blast
  have "counts_match bg ((E + ?kept) + bucket_entries m) (name_counts (idx\<lparr>name_counts := nc, instance_sets := S\<rparr>))
    (instance_sets (idx\<lparr>name_counts := nc, instance_sets := S\<rparr>))" using rel(2) by (simp add: ac_simps)
  from Cons.IH [OF this] show ?case
    using rel(1) Cons.prems(2) by (simp add: p keep_files_def ac_simps)
qed

text \<open>Dropping empty entries is not seen by a lookup.\<close>

abbreviation drop_empty :: "('k \<times> 'v list) list \<Rightarrow> ('k \<times> 'v list) list" where
  "drop_empty m \<equiv> filter (\<lambda>(k, v). v \<noteq> []) m"

lemma get_or_drop_empty: "distinct (map fst m) \<Longrightarrow> get_or [] (drop_empty m) k = get_or [] m k"
proof (induction m)
  case (Cons p m)
  obtain k' v where p: "p = (k', v)" by force
  with Cons show ?case using get_or_absent [of k' m "[]"] by (auto simp: p get_or_def)
qed simp

lemma distinct_drop_empty: "distinct (map fst m) \<Longrightarrow> distinct (map fst (drop_empty m))"
  by (simp add: distinct_map_filter)

lemma bucket_entries_drop_empty: "bucket_entries (drop_empty m) = bucket_entries m"
  by (induction m) auto

lemma sets_drop_empty:
  assumes "sets_ok S"
  shows "sets_ok (drop_empty S)" "sets_count (drop_empty S) k = sets_count S k"
proof -
  have dist: "distinct (map fst S)" using assms by (simp add: sets_ok_def)
  have "refs_ok names" if "map_of (drop_empty S) t = Some names" for t names
  proof -
    have "get_or [] S t = names" using get_or_drop_empty [OF dist, of t] that by (simp add: get_or_def)
    then show ?thesis using sets_ok_get [OF assms, of t] by simp
  qed
  then show "sets_ok (drop_empty S)"
    using dist by (simp add: sets_ok_def distinct_drop_empty del: map_of_eq_Some_iff)
  show "sets_count (drop_empty S) k = sets_count S k"
    using get_or_drop_empty [OF dist] by (simp add: sets_count_def)
qed

text \<open>The rebuilt positions: every file's indices in every bucket, in order.\<close>

definition poslist :: "rstr \<Rightarrow> (nat \<times> rstr \<times> TypeInstance) list \<Rightarrow> nat list" where
  "poslist u ns = map fst (filter (\<lambda>(i, e). fst e = u) ns)"

lemma fp_get_rebuild_bucket:
  "fp_get (fold (\<lambda>(i, (uri, inst)) fp. upd_entry [] uri (upd_entry [] t (\<lambda>ps. ps @ [i])) fp) ns fp) u t' =
     fp_get fp u t' @ (if t' = t then poslist u ns else [])"
  by (induction ns arbitrary: fp) (auto simp: poslist_def fp_get_upd)

lemma fp_get_rebuild:
  "fp_get (fold (\<lambda>(t, entries) fp.
       fold (\<lambda>(i, (uri, inst)) fp. upd_entry [] uri (upd_entry [] t (\<lambda>ps. ps @ [i])) fp)
         (enumerate 0 entries) fp) m fp) u t =
     fp_get fp u t @ concat (map (\<lambda>(t', v). if t' = t then poslist u (enumerate 0 v) else []) m)"
  by (induction m arbitrary: fp) (auto simp: fp_get_rebuild_bucket)

lemma distinct_rebuild:
  fixes fp :: "(rstr \<times> (rstr \<times> nat list) list) list" and m :: "(rstr \<times> (rstr \<times> TypeInstance) list) list"
  assumes "distinct (map fst fp)" "\<And>u. distinct (map fst (get_or [] fp u))"
  shows "distinct (map fst (fold (\<lambda>(t, entries) fp.
       fold (\<lambda>(i, (uri, inst)) fp. upd_entry [] uri (upd_entry [] t (\<lambda>ps. ps @ [i])) fp)
         (enumerate 0 entries) fp) m fp))"
    "distinct (map fst (get_or [] (fold (\<lambda>(t, entries) fp.
       fold (\<lambda>(i, (uri, inst)) fp. upd_entry [] uri (upd_entry [] t (\<lambda>ps. ps @ [i])) fp)
         (enumerate 0 entries) fp) m fp) u))"
proof -
  define dd where "dd = (\<lambda>fp :: (rstr \<times> (rstr \<times> nat list) list) list.
    distinct (map fst fp) \<and> (\<forall>u. distinct (map fst (get_or [] fp u))))"
  have one: "dd fp \<Longrightarrow> dd (fold (\<lambda>(i, (uri, inst)) fp. upd_entry [] uri (upd_entry [] t (\<lambda>ps. ps @ [i])) fp) ns fp)"
    for t and ns :: "(nat \<times> rstr \<times> TypeInstance) list" and fp
    by (induction ns arbitrary: fp) (auto simp: dd_def distinct_upd_entry)
  have "dd fp \<Longrightarrow> dd (fold (\<lambda>(t, entries) fp.
       fold (\<lambda>(i, (uri, inst)) fp. upd_entry [] uri (upd_entry [] t (\<lambda>ps. ps @ [i])) fp)
         (enumerate 0 entries) fp) m fp)"
    by (induction m arbitrary: fp) (auto simp: one)
  with assms show "distinct (map fst (fold (\<lambda>(t, entries) fp.
       fold (\<lambda>(i, (uri, inst)) fp. upd_entry [] uri (upd_entry [] t (\<lambda>ps. ps @ [i])) fp)
         (enumerate 0 entries) fp) m fp))"
    "distinct (map fst (get_or [] (fold (\<lambda>(t, entries) fp.
       fold (\<lambda>(i, (uri, inst)) fp. upd_entry [] uri (upd_entry [] t (\<lambda>ps. ps @ [i])) fp)
         (enumerate 0 entries) fp) m fp) u))"
    by (simp_all add: dd_def)
qed

lemma poslist_posn:
  "distinct (poslist u (enumerate 0 v))" "set (poslist u (enumerate 0 v)) = posn u v"
proof -
  show "distinct (poslist u (enumerate 0 v))"
    by (simp add: poslist_def distinct_map_filter)
  show "set (poslist u (enumerate 0 v)) = posn u v"
    by (auto simp: poslist_def posn_def in_set_enumerate_eq image_iff)
qed

lemma positions_match_rebuild:
  assumes "distinct (map fst m)"
  shows "positions_match UNIV m (rebuild_positions m)"
proof -
  have "concat (map (\<lambda>(t', v). if t' = t then poslist u (enumerate 0 v) else []) m) =
      poslist u (enumerate 0 (bucket m t))" for u t
    using assms
  proof (induction m)
    case (Cons p m)
    obtain t' v where p: "p = (t', v)" by force
    with Cons show ?case using get_or_absent [of t' m "[]"] by (auto simp: p get_or_def poslist_def)
  qed (simp add: poslist_def)
  then have "fp_get (rebuild_positions m) u t = poslist u (enumerate 0 (bucket m t))" for u t
    using fp_get_rebuild [of m "[]" u t] by (simp add: rebuild_positions_def fp_get_def)
  then show ?thesis
    using distinct_rebuild [of "[]" m] poslist_posn
    by (simp add: positions_match_def rebuild_positions_def)
qed

lemma remove_files_some:
  assumes "index_ok idx"
  shows "\<exists>idx'. ti_remove_files U idx = Some idx' \<and> index_ok idx' \<and>
    (\<forall>u. u \<notin> U \<longrightarrow> (u \<in> base_game_uris idx') = (u \<in> base_game_uris idx)) \<and>
    index_entries idx' = filter_mset (\<lambda>e. entry_uri e \<notin> U) (index_entries idx)"
proof (cases "U = {}")
  case True
  then show ?thesis using assms by (simp add: ti_remove_files_def)
next
  case False
  define bg where "bg = (\<lambda>u. u \<in> base_game_uris idx)"
  have dist: "distinct (map fst (ti_map idx))"
    and counts: "counts_match bg ({#} + bucket_entries (ti_map idx)) (name_counts idx) (instance_sets idx)"
    and tables: "tables_ok idx"
    using assms by (auto simp: index_ok_alt core_ok_def bg_def index_entries_def)
  obtain nc S where rel: "fold_opt (release_dropped U) (ti_map idx) idx =
      Some (idx\<lparr>name_counts := nc, instance_sets := S\<rparr>)"
    "counts_match bg (bucket_entries (keep_files U (ti_map idx))) nc S"
    using release_all_some [OF counts, of U] by (auto simp: bg_def)
  let ?kept = "drop_empty (keep_files U (ti_map idx))"
  let ?idx = "idx\<lparr>name_counts := nc, instance_sets := drop_empty S, base_game_uris := base_game_uris idx - U,
    ti_map := ?kept, file_positions := rebuild_positions ?kept\<rparr>"
  have step: "ti_remove_files U idx = Some ?idx"
    using False rel(1) by (simp add: ti_remove_files_def keep_files_def Let_def)
  have entries: "index_entries ?idx = filter_mset (\<lambda>e. entry_uri e \<notin> U) (index_entries idx)"
    by (simp add: index_entries_def bucket_entries_drop_empty bucket_entries_keep)
  have keys: "map fst (keep_files U m) = map fst m" for m
    by (induction m) (auto simp: keep_files_def)
  have kept: "distinct (map fst ?kept)" using dist keys by (metis distinct_drop_empty)
  have "sets_ok S" using rel(2) by (simp add: counts_match_def)
  then have "counts_match bg (index_entries ?idx) nc (drop_empty S)"
    using rel(2) sets_drop_empty
    by (simp add: counts_match_def index_entries_def bucket_entries_drop_empty del: split_paired_All)
  then have "counts_match (\<lambda>u. u \<in> base_game_uris ?idx) (index_entries ?idx) nc (drop_empty S)"
  proof (rule counts_match_cong)
    show "bg (entry_uri e) = (entry_uri e \<in> base_game_uris ?idx)" if "e \<in># index_entries ?idx" for e
      using that by (auto simp: entries bg_def)
  qed
  then have "index_ok ?idx"
    using kept positions_match_rebuild [OF kept] tables by (simp add: index_ok_alt core_ok_def tables_ok_def)
  moreover have "\<forall>u. u \<notin> U \<longrightarrow> (u \<in> base_game_uris ?idx) = (u \<in> base_game_uris idx)" by simp
  ultimately show ?thesis using step entries by blast
qed

section \<open>Queries\<close>

lemma count_image_size: "count (image_mset f M) x = size {#e \<in># M. f e = x#}"
  by (induction M) auto

lemma size_filter_pos: "0 < size (filter_mset P M) \<longleftrightarrow> (\<exists>e \<in># M. P e)"
  by (auto simp: nonempty_has_size [symmetric])

lemma index_sets_count:
  assumes "index_ok idx"
  shows "sets_count (instance_sets idx) (t, n, b) =
    size {#e \<in># index_entries idx. fst e = t \<and> entry_key e = n \<and> (entry_uri e \<in> base_game_uris idx) = b#}"
proof -
  have "sets_count (instance_sets idx) (t, n, b) =
      count (image_mset (\<lambda>e. (fst e, entry_key e, entry_uri e \<in> base_game_uris idx)) (index_entries idx)) (t, n, b)"
    using assms by (simp add: index_ok_alt core_ok_def counts_match_def del: split_paired_All)
  then show ?thesis by (simp add: count_image_size)
qed

lemma lower_probe:
  "(if list_ex is_upper_byte s then map_of m (to_ascii_lowercase s) else map_of m s) = map_of m (to_ascii_lowercase s)"
  by (simp add: to_ascii_lowercase_no_upper)

lemma ti_contains_iff:
  assumes "index_ok idx"
  shows "ti_contains idx t n \<longleftrightarrow>
    (\<exists>e \<in># index_entries idx. fst e = t \<and> eq_ignore_ascii_case (inst_name (snd (snd e))) n)"
proof -
  let ?S = "instance_sets idx" and ?n = "to_ascii_lowercase n"
  have "sets_ok ?S" using assms by (simp add: index_ok_alt core_ok_def counts_match_def)
  then have "refs_ok (get_or [] ?S t)" by (rule sets_ok_get)
  then have "map_of (get_or [] ?S t) ?n \<noteq> None \<longleftrightarrow> 0 < sets_count ?S (t, ?n, True) + sets_count ?S (t, ?n, False)"
    by (auto simp: refs_ok_def sets_count_def refs_count_def Let_def get_or_def
      simp del: map_of_eq_Some_iff split: option.splits)
  moreover have "ti_contains idx t n \<longleftrightarrow> map_of (get_or [] ?S t) ?n \<noteq> None"
    by (auto simp: ti_contains_def get_or_def to_ascii_lowercase_no_upper split: option.splits)
  ultimately have "ti_contains idx t n \<longleftrightarrow> 0 < sets_count ?S (t, ?n, True) + sets_count ?S (t, ?n, False)"
    by simp
  also have "\<dots> \<longleftrightarrow> (\<exists>e \<in># index_entries idx. fst e = t \<and> entry_key e = ?n)"
    unfolding index_sets_count [OF assms] add_gr_0 size_filter_pos by blast
  finally show ?thesis by (simp add: eq_ignore_ascii_case_def entry_key_def)
qed

lemma workspace_count_eq:
  assumes "index_ok idx"
  shows "workspace_definition_count idx t n =
    size {#e \<in># index_entries idx. fst e = t \<and> eq_ignore_ascii_case (inst_name (snd (snd e))) n \<and>
      entry_uri e \<notin> base_game_uris idx#}"
proof -
  have "workspace_definition_count idx t n = sets_count (instance_sets idx) (t, to_ascii_lowercase n, False)"
    by (auto simp: workspace_definition_count_def sets_count_def refs_count_def Let_def get_or_def
      to_ascii_lowercase_no_upper split: option.splits)
  then show ?thesis
    by (simp add: index_sets_count [OF assms] eq_ignore_ascii_case_def entry_key_def)
qed

lemma is_any_instance_iff:
  assumes "index_ok idx"
  shows "is_any_instance idx n \<longleftrightarrow>
    (\<exists>e \<in># index_entries idx. \<not> is_subtype_key (fst e) \<and> eq_ignore_ascii_case (inst_name (snd (snd e))) n)"
proof -
  let ?n = "to_ascii_lowercase n"
  have nc: "counters_ok (name_counts idx)"
    and count: "get_or 0 (name_counts idx) ?n =
      size {#e \<in># {#e \<in># index_entries idx. \<not> is_subtype_key (fst e)#}. entry_key e = ?n#}"
    using assms by (simp_all add: index_ok_alt core_ok_def counts_match_def count_image_size)
  have "is_any_instance idx n \<longleftrightarrow> map_of (name_counts idx) ?n \<noteq> None"
    by (simp add: is_any_instance_def to_ascii_lowercase_no_upper)
  also have "\<dots> \<longleftrightarrow> 0 < get_or 0 (name_counts idx) ?n"
    using counter_zero_iff [OF nc, of ?n] by (metis bot_nat_0.not_eq_extremum)
  also have "\<dots> \<longleftrightarrow> (\<exists>e \<in># index_entries idx. \<not> is_subtype_key (fst e) \<and> entry_key e = ?n)"
    unfolding count size_filter_pos Bex_def by (simp add: conj_assoc del: split_paired_Ex)
  finally show ?thesis by (simp add: eq_ignore_ascii_case_def entry_key_def)
qed

text \<open>The outline of a file reads exactly the file's own entries.\<close>

lemma read_positions:
  assumes "\<forall>i \<in> set ps. i < length v"
  shows "fold_opt (\<lambda>pos out. if pos < length v then Some (out @ [(t, snd (v ! pos))]) else None) ps out =
    Some (out @ map (\<lambda>i. (t, snd (v ! i))) ps)"
  using assms by (induction ps arbitrary: out) auto

lemma mset_poslist:
  assumes "distinct ps" "set ps = posn u v"
  shows "mset (map (\<lambda>i. v ! i) ps) = filter_mset (\<lambda>e. fst e = u) (mset v)"
proof -
  have "mset ps = mset (filter (\<lambda>i. fst (v ! i) = u) [0..<length v])"
    using assms by (intro set_eq_iff_mset_eq_distinct [THEN iffD1]) (auto simp: posn_def)
  then have "mset (map (\<lambda>i. v ! i) ps) = mset (map (\<lambda>i. v ! i) (filter (\<lambda>i. fst (v ! i) = u) [0..<length v]))"
    by simp
  also have "map (\<lambda>i. v ! i) (filter (\<lambda>i. fst (v ! i) = u) [0..<length v]) =
      filter (\<lambda>e. fst e = u) (map (\<lambda>i. v ! i) [0..<length v])"
    by (simp add: filter_map comp_def)
  finally show ?thesis by (simp add: map_nth)
qed

lemma filter_mset_types:
  assumes "distinct ts"
  shows "filter_mset (\<lambda>e. fst e \<in> set ts) M = (\<Sum>t\<leftarrow>ts. filter_mset (\<lambda>e. fst e = t) M)"
  using assms
proof (induction ts)
  case (Cons t ts)
  have "filter_mset (\<lambda>e. fst e \<in> set (t # ts)) M =
      filter_mset (\<lambda>e. fst e = t) M + filter_mset (\<lambda>e. fst e \<in> set ts) M"
    using Cons.prems by (auto intro!: multiset_eqI)
  then show ?case using Cons by simp
qed simp

lemma instances_in_file_some:
  assumes "index_ok idx"
  shows "\<exists>out. instances_in_file idx f = Some out \<and>
    mset out = image_mset (\<lambda>e. (fst e, snd (snd e)))
      {#e \<in># index_entries idx. entry_uri e = f \<and> \<not> is_subtype_key (fst e)#}"
proof -
  have dist: "distinct (map fst (ti_map idx))"
    and pos: "positions_match UNIV (ti_map idx) (file_positions idx)"
    using assms by (simp_all add: index_ok_alt core_ok_def)
  note own = positions_matchD [OF pos, of f]
  define by_type where "by_type = get_or [] (file_positions idx) f"
  have keys: "distinct (map fst by_type)" using pos by (simp add: positions_match_def by_type_def)
  have entry: "fp_get (file_positions idx) f t = ps" if "(t, ps) \<in> set by_type" for t ps
    using that keys by (simp add: fp_get_def by_type_def [symmetric]) (simp add: get_or_def)
  define part where "part = (\<lambda>(t, ps). if is_subtype_key t then []
    else map (\<lambda>i. (t, snd (bucket (ti_map idx) t ! i))) ps)"
  let ?step = "\<lambda>(t, positions) out.
    if is_subtype_key t then Some out
    else case map_of (ti_map idx) t of
           None \<Rightarrow> Some out
         | Some entries \<Rightarrow>
             fold_opt (\<lambda>pos out. if pos < length entries then Some (out @ [(t, snd (entries ! pos))]) else None)
               positions out"
  have step: "?step (t, ps) out = Some (out @ part (t, ps))" if "(t, ps) \<in> set by_type" for t ps out
  proof -
    have ps: "set ps = posn f (bucket (ti_map idx) t)" using own(2) entry [OF that] by simp
    show ?thesis
    proof (cases "map_of (ti_map idx) t")
      case None
      then have "bucket (ti_map idx) t = []" by (simp add: get_or_def)
      then have "ps = []" using ps by simp
      then show ?thesis using None by (simp add: part_def)
    next
      case (Some v)
      then have "bucket (ti_map idx) t = v" by (simp add: get_or_def)
      then show ?thesis
        using Some ps read_positions [of ps v t out] by (auto simp: part_def posn_def)
    qed
  qed
  have "fold_opt ?step tps out = Some (out @ concat (map part tps))" if "set tps \<subseteq> set by_type" for tps out
    using that step by (induction tps arbitrary: out) auto
  then have run: "instances_in_file idx f = Some (concat (map part by_type))"
    by (auto simp: instances_in_file_def by_type_def get_or_def split: option.splits)
  let ?g = "\<lambda>e. (fst e, snd (snd e))"
  define M where "M = {#e \<in># index_entries idx. entry_uri e = f \<and> \<not> is_subtype_key (fst e)#}"
  have part_mset: "mset (part (t, ps)) = image_mset ?g {#e \<in># M. fst e = t#}" if "(t, ps) \<in> set by_type" for t ps
  proof (cases "is_subtype_key t")
    case True
    then show ?thesis by (auto simp: part_def M_def)
  next
    case False
    let ?v = "bucket (ti_map idx) t"
    have "mset (map (\<lambda>i. ?v ! i) ps) = filter_mset (\<lambda>e. fst e = f) (mset ?v)"
      using mset_poslist [of ps f ?v] own [of t] entry [OF that] by simp
    then have "image_mset (\<lambda>e. (t, snd e)) (mset (map (\<lambda>i. ?v ! i) ps)) =
        image_mset (\<lambda>e. (t, snd e)) (filter_mset (\<lambda>e. fst e = f) (mset ?v))" by simp
    moreover have "{#e \<in># M. fst e = t#} =
        filter_mset (\<lambda>e. entry_uri e = f) (filter_mset (\<lambda>e. fst e = t) (index_entries idx))"
      using False by (auto simp: M_def filter_filter_mset intro: filter_mset_cong)
    then have "{#e \<in># M. fst e = t#} = filter_mset (\<lambda>e. entry_uri e = f) (mset (map (Pair t) ?v))"
      using bucket_entries_type [OF dist, of t] by (simp add: index_entries_def)
    moreover have "image_mset ?g (filter_mset (\<lambda>e. entry_uri e = f) (mset (map (Pair t) w))) =
        image_mset (\<lambda>e. (t, snd e)) (filter_mset (\<lambda>e. fst e = f) (mset w))" for w
      by (induction w) auto
    ultimately show ?thesis using False by (simp add: part_def comp_def multiset.map_comp)
  qed
  have "fst e \<in> set (map fst by_type)" if "e \<in># M" for e
  proof (rule ccontr)
    assume "fst e \<notin> set (map fst by_type)"
    then have "fp_get (file_positions idx) f (fst e) = []"
      by (simp add: fp_get_def by_type_def [symmetric] get_or_absent)
    then have "posn f (bucket (ti_map idx) (fst e)) = {}" using own(2) by simp
    moreover have "entry_uri e = f" "e \<in># index_entries idx" using that by (auto simp: M_def)
    ultimately show False using entries_posn [OF dist, of "fst e" f] by blast
  qed
  then have "M = filter_mset (\<lambda>e. fst e \<in> set (map fst by_type)) M"
    using filter_mset_cong [of M M "\<lambda>e. fst e \<in> set (map fst by_type)" "\<lambda>e. True"] by simp
  also have "\<dots> = (\<Sum>t\<leftarrow>map fst by_type. filter_mset (\<lambda>e. fst e = t) M)"
    by (rule filter_mset_types [OF keys])
  finally have split: "M = (\<Sum>t\<leftarrow>map fst by_type. filter_mset (\<lambda>e. fst e = t) M)" .
  have "mset (concat (map part tps)) = image_mset ?g (\<Sum>t\<leftarrow>map fst tps. filter_mset (\<lambda>e. fst e = t) M)"
    if "set tps \<subseteq> set by_type" for tps
    using that part_mset by (induction tps) auto
  from this [of by_type] have "mset (concat (map part by_type)) = image_mset ?g M"
    using split by simp
  then show ?thesis using run unfolding M_def by blast
qed

end
