(* ===== verification/Index_Properties.thy ===== *)
theory Index_Properties
  imports Type_Index_Lemmas
begin

text \<open>
  What the index promises: a sample index for concrete runs, then the properties of the type
  index over its multiset of entries, and those of the name tables over what each file
  contributed.
\<close>

section \<open>Examples\<close>

lemma index_ok_new: "index_ok ti_new"
  by (simp add: index_ok_alt core_ok_def tables_ok_def ti_new_def index_entries_def counts_match_def
    counters_ok_def sets_ok_def sets_count_def refs_count_def positions_match_def fp_get_def nvi_ok_def
    nvi_new_def nv_ok_def nv_count_def sl_ok_def sl_new_def)

definition sample_instance :: "rstr \<Rightarrow> TypeInstance" where
  "sample_instance name = \<lparr>inst_name = name,
     inst_location = \<lparr>loc_line = 1, loc_col = 0, loc_end = (1, 0)\<rparr>,
     inst_primary_loc_key = None, inst_required_loc_keys = []\<rparr>"

definition sample_file :: "(rstr \<times> TypeInstance list) list" where
  "sample_file = [(''event'', [sample_instance ''Start'', sample_instance ''end'']),
     (''event.hidden'', [sample_instance ''Start''])]"

definition sample_index :: TypeIndex where
  "sample_index = ti_merge ''b.txt'' [(''event'', [sample_instance ''start''])]
     (ti_merge ''a.txt'' sample_file ti_new)"

lemma index_entries_new [simp]: "index_entries ti_new = {#}"
  by (simp add: index_entries_def ti_new_def)

lemma merge_workspace_ok:
  assumes "index_ok idx" "uri \<notin> base_game_uris idx"
  shows "index_ok (ti_merge uri per idx)"
    "index_entries (ti_merge uri per idx) = index_entries idx + file_entries uri per"
  using merge_from_ok [OF assms(1), of uri False per] assms(2)
  by (simp_all add: ti_merge_def merges_consistently_def)

lemma ti_merge_base [simp]: "base_game_uris (ti_merge uri per idx) = base_game_uris idx"
proof -
  have "base_game_uris (fold (add_instance t False uri) insts idx) = base_game_uris idx" for t insts idx
    by (induction insts arbitrary: idx) auto
  then have "base_game_uris (merge_type uri False p idx) = base_game_uris idx" for p idx
    by (simp add: merge_type_def split: prod.split)
  then have "base_game_uris (fold (merge_type uri False) per idx) = base_game_uris idx" for idx
    by (induction per arbitrary: idx) auto
  then show ?thesis by (simp add: ti_merge_def merge_from_def)
qed

lemma sample_index_ok: "index_ok sample_index" "base_game_uris sample_index = {}"
  unfolding sample_index_def using index_ok_new
  by (auto intro!: merge_workspace_ok(1)) (auto simp: ti_new_def)

section \<open>Properties of the index\<close>

text \<open>Indexing a file adds exactly its instances: the state stays consistent (every counter
  and every recorded position is a function of the entries), and the entries of the index grow
  by those of the file, under the file's name.\<close>

theorem index_merge_exact:
  assumes "index_ok idx" "merges_consistently uri base idx"
  shows "index_ok (merge_from uri per_type base idx) \<and>
    index_entries (merge_from uri per_type base idx) = index_entries idx + file_entries uri per_type"
  using merge_from_ok [OF assms] by simp

theorem index_merge_exact_witness:
  "index_ok (merge_from ''c.txt'' sample_file True sample_index) \<and>
    index_entries (merge_from ''c.txt'' sample_file True sample_index) =
      index_entries sample_index + file_entries ''c.txt'' sample_file"
proof (rule index_merge_exact)
  show "index_ok sample_index" by (rule sample_index_ok)
  have "entry_uri e \<noteq> ''c.txt''" if "e \<in># index_entries sample_index" for e
    using that index_ok_new
    by (auto simp: sample_index_def merge_workspace_ok ti_new_def [THEN arg_cong, of base_game_uris]
      file_entries_def sample_file_def)
  then show "merges_consistently ''c.txt'' True sample_index" by (simp add: merges_consistently_def)
qed

text \<open>C18. Forgetting a file never panics (no recorded position is out of range, no counter
  underflows), keeps the state consistent, and removes exactly the entries of that file,
  although every removal moves an entry of some other file.\<close>

theorem index_remove_exact:
  assumes "index_ok idx"
  shows "\<exists>idx'. ti_remove_file f idx = Some idx' \<and> index_ok idx' \<and>
    index_entries idx' = {#e \<in># index_entries idx. entry_uri e \<noteq> f#}"
  using remove_file_some [OF assms] by blast

theorem index_remove_exact_witness:
  "\<exists>idx'. ti_remove_file ''a.txt'' sample_index = Some idx' \<and> index_ok idx' \<and>
    index_entries idx' = {#e \<in># index_entries sample_index. entry_uri e \<noteq> ''a.txt''#}"
  by (rule index_remove_exact [OF sample_index_ok(1)])

text \<open>C19. Lookups answer for the entries: a name is found under a type exactly when some file
  defines it there, case aside; it is an instance of any type exactly when some plain type has
  it; and the workspace's definition count is the number of its definitions outside the base
  game.\<close>

theorem index_lookups_exact:
  assumes "index_ok idx"
  shows "(ti_contains idx t n \<longleftrightarrow>
      (\<exists>e \<in># index_entries idx. fst e = t \<and> eq_ignore_ascii_case (inst_name (snd (snd e))) n)) \<and>
    (is_any_instance idx n \<longleftrightarrow>
      (\<exists>e \<in># index_entries idx. \<not> is_subtype_key (fst e) \<and> eq_ignore_ascii_case (inst_name (snd (snd e))) n)) \<and>
    workspace_definition_count idx t n =
      size {#e \<in># index_entries idx. fst e = t \<and> eq_ignore_ascii_case (inst_name (snd (snd e))) n \<and>
        entry_uri e \<notin> base_game_uris idx#}"
  using ti_contains_iff [OF assms] is_any_instance_iff [OF assms] workspace_count_eq [OF assms] by blast

theorem index_lookups_exact_witness:
  "workspace_definition_count sample_index ''event'' ''START'' =
      size {#e \<in># index_entries sample_index. fst e = ''event'' \<and>
        eq_ignore_ascii_case (inst_name (snd (snd e))) ''START'' \<and> entry_uri e \<notin> base_game_uris sample_index#} \<and>
    workspace_definition_count sample_index ''event'' ''START'' = 2"
proof
  show "workspace_definition_count sample_index ''event'' ''START'' =
      size {#e \<in># index_entries sample_index. fst e = ''event'' \<and>
        eq_ignore_ascii_case (inst_name (snd (snd e))) ''START'' \<and> entry_uri e \<notin> base_game_uris sample_index#}"
    using index_lookups_exact [OF sample_index_ok(1), of "''event''" "''START''"] by blast
  show "workspace_definition_count sample_index ''event'' ''START'' = 2" by code_simp
qed

text \<open>The outline of a file lists exactly the file's own entries of plain types, each once,
  and never reads past the end of a bucket.\<close>

theorem file_outline_exact:
  assumes "index_ok idx"
  shows "\<exists>out. instances_in_file idx f = Some out \<and>
    mset out = image_mset (\<lambda>e. (fst e, snd (snd e)))
      {#e \<in># index_entries idx. entry_uri e = f \<and> \<not> is_subtype_key (fst e)#}"
  using instances_in_file_some [OF assms] .

theorem file_outline_exact_witness:
  "\<exists>out. instances_in_file sample_index ''a.txt'' = Some out \<and>
    mset out = image_mset (\<lambda>e. (fst e, snd (snd e)))
      {#e \<in># index_entries sample_index. entry_uri e = ''a.txt'' \<and> \<not> is_subtype_key (fst e)#}"
  by (rule file_outline_exact [OF sample_index_ok(1)])

text \<open>What lookups can see of an index.\<close>

definition same_lookups :: "TypeIndex \<Rightarrow> TypeIndex \<Rightarrow> bool" where
  "same_lookups a b \<longleftrightarrow> (\<forall>t n. ti_contains a t n = ti_contains b t n \<and>
     is_any_instance a n = is_any_instance b n \<and>
     workspace_definition_count a t n = workspace_definition_count b t n)"

lemma same_lookups_entries:
  assumes "index_ok a" "index_ok b" "index_entries a = index_entries b"
    "\<And>e. e \<in># index_entries a \<Longrightarrow> (entry_uri e \<in> base_game_uris a) = (entry_uri e \<in> base_game_uris b)"
  shows "same_lookups a b"
proof -
  have "{#e \<in># index_entries a. fst e = t \<and> eq_ignore_ascii_case (inst_name (snd (snd e))) n \<and>
        entry_uri e \<notin> base_game_uris a#} =
      {#e \<in># index_entries b. fst e = t \<and> eq_ignore_ascii_case (inst_name (snd (snd e))) n \<and>
        entry_uri e \<notin> base_game_uris b#}" for t n
    using assms(3,4) by (intro filter_mset_cong) auto
  then show ?thesis
    using assms(3)
    by (simp add: same_lookups_def ti_contains_iff [OF assms(1)] ti_contains_iff [OF assms(2)]
      is_any_instance_iff [OF assms(1)] is_any_instance_iff [OF assms(2)]
      workspace_count_eq [OF assms(1)] workspace_count_eq [OF assms(2)])
qed

lemma remove_each_some:
  assumes "index_ok idx"
  shows "\<exists>idx'. fold_opt ti_remove_file fs idx = Some idx' \<and> index_ok idx' \<and>
    (\<forall>u. u \<notin> set fs \<longrightarrow> (u \<in> base_game_uris idx') = (u \<in> base_game_uris idx)) \<and>
    index_entries idx' = {#e \<in># index_entries idx. entry_uri e \<notin> set fs#}"
  using assms
proof (induction fs arbitrary: idx)
  case Nil
  then show ?case by simp
next
  case (Cons f fs)
  obtain idx1 where idx1: "ti_remove_file f idx = Some idx1" "index_ok idx1"
    "\<forall>u. u \<noteq> f \<longrightarrow> (u \<in> base_game_uris idx1) = (u \<in> base_game_uris idx)"
    "index_entries idx1 = {#e \<in># index_entries idx. entry_uri e \<noteq> f#}"
    using remove_file_some [OF Cons.prems, of f] by blast
  obtain idx2 where idx2: "fold_opt ti_remove_file fs idx1 = Some idx2" "index_ok idx2"
    "\<forall>u. u \<notin> set fs \<longrightarrow> (u \<in> base_game_uris idx2) = (u \<in> base_game_uris idx1)"
    "index_entries idx2 = {#e \<in># index_entries idx1. entry_uri e \<notin> set fs#}"
    using Cons.IH [OF idx1(2)] by blast
  have "{#e \<in># {#e \<in># index_entries idx. entry_uri e \<noteq> f#}. entry_uri e \<notin> set fs#} =
      {#e \<in># index_entries idx. entry_uri e \<notin> set (f # fs)#}"
    by (simp add: filter_filter_mset conj_commute)
  then have "index_entries idx2 = {#e \<in># index_entries idx. entry_uri e \<notin> set (f # fs)#}"
    using idx1(4) idx2(4) by simp
  then show ?case using idx1(1,3) idx2(1-3) by auto
qed

text \<open>Forgetting many files in one pass and forgetting them one at a time are the same to
  every lookup.\<close>

theorem bulk_removal_agrees:
  assumes "index_ok idx"
  shows "\<exists>a b. ti_remove_files (set fs) idx = Some a \<and> fold_opt ti_remove_file fs idx = Some b \<and>
    same_lookups a b"
proof -
  obtain a where a: "ti_remove_files (set fs) idx = Some a" "index_ok a"
    "\<forall>u. u \<notin> set fs \<longrightarrow> (u \<in> base_game_uris a) = (u \<in> base_game_uris idx)"
    "index_entries a = {#e \<in># index_entries idx. entry_uri e \<notin> set fs#}"
    using remove_files_some [OF assms, of "set fs"] by blast
  obtain b where b: "fold_opt ti_remove_file fs idx = Some b" "index_ok b"
    "\<forall>u. u \<notin> set fs \<longrightarrow> (u \<in> base_game_uris b) = (u \<in> base_game_uris idx)"
    "index_entries b = {#e \<in># index_entries idx. entry_uri e \<notin> set fs#}"
    using remove_each_some [OF assms, of fs] by blast
  have "same_lookups a b"
    using a b by (intro same_lookups_entries) auto
  then show ?thesis using a(1) b(1) by blast
qed

theorem bulk_removal_agrees_witness:
  "\<exists>a b. ti_remove_files (set [''a.txt'', ''z.txt'']) sample_index = Some a \<and>
    fold_opt ti_remove_file [''a.txt'', ''z.txt''] sample_index = Some b \<and> same_lookups a b"
  by (rule bulk_removal_agrees [OF sample_index_ok(1)])

text \<open>Indexing a new workspace file and forgetting it again leaves every lookup as it was,
  whatever the file defines.\<close>

theorem reindex_roundtrip:
  assumes "index_ok idx" "f \<notin> base_game_uris idx" "\<forall>e \<in># index_entries idx. entry_uri e \<noteq> f"
  shows "\<exists>idx'. ti_remove_file f (ti_merge f per_type idx) = Some idx' \<and> same_lookups idx idx'"
proof -
  note merged = merge_workspace_ok [OF assms(1,2), of per_type]
  obtain idx' where idx': "ti_remove_file f (ti_merge f per_type idx) = Some idx'" "index_ok idx'"
    "\<forall>u. u \<noteq> f \<longrightarrow> (u \<in> base_game_uris idx') = (u \<in> base_game_uris idx)"
    "index_entries idx' = {#e \<in># index_entries idx + file_entries f per_type. entry_uri e \<noteq> f#}"
    using remove_file_some [OF merged(1), of f] by (auto simp: merged(2))
  have "entry_uri e = f" if "e \<in># file_entries f per_type" for e
    using that by (auto simp: file_entries_def)
  then have "{#e \<in># file_entries f per_type. entry_uri e \<noteq> f#} = {#}" by simp
  moreover have "{#e \<in># index_entries idx. entry_uri e \<noteq> f#} = index_entries idx"
    using filter_mset_cong [of "index_entries idx" "index_entries idx" "\<lambda>e. entry_uri e \<noteq> f" "\<lambda>e. True"] assms(3)
    by simp
  ultimately have "index_entries idx' = index_entries idx" by (simp add: idx'(4))
  then have "same_lookups idx idx'"
    using assms idx'(2,3) by (intro same_lookups_entries) auto
  then show ?thesis using idx'(1) by blast
qed

theorem reindex_roundtrip_witness:
  "\<exists>idx'. ti_remove_file ''c.txt'' (ti_merge ''c.txt'' sample_file sample_index) = Some idx' \<and>
    same_lookups sample_index idx'"
proof (rule reindex_roundtrip)
  show "index_ok sample_index" "''c.txt'' \<notin> base_game_uris sample_index"
    using sample_index_ok by simp_all
  show "\<forall>e \<in># index_entries sample_index. entry_uri e \<noteq> ''c.txt''"
    using index_ok_new
    by (auto simp: sample_index_def merge_workspace_ok ti_new_def [THEN arg_cong, of base_game_uris]
      file_entries_def sample_file_def)
qed

section \<open>Properties of the name tables\<close>

text \<open>Values by name: indexing a file again replaces its values and nothing else. The update
  never underflows, the counts stay those of the contributions, and a value is known under a
  name exactly when the new file or some other file contributes it.\<close>

theorem named_values_follow_files:
  assumes "nvi_ok idx"
  shows "\<exists>idx'. nvi_merge_file f items idx = Some idx' \<and> nvi_ok idx' \<and>
    (\<forall>n v. nvi_contains idx' n v \<longleftrightarrow>
      (\<exists>vs. (n, vs) \<in> set items \<and> v \<in> set vs) \<or> (\<exists>g. g \<noteq> f \<and> (n, v) \<in> set (contribution idx g)))"
proof -
  obtain idx' where idx': "nvi_merge_file f items idx = Some idx'" "nvi_ok idx'"
    "contribution idx' f = concat (map (\<lambda>(n, vs). map (Pair n) vs) items)"
    "\<forall>g. g \<noteq> f \<longrightarrow> contribution idx' g = contribution idx g"
    using nvi_merge_some [OF assms] by blast
  have "(n, v) \<in> set (contribution idx' f) \<longleftrightarrow> (\<exists>vs. (n, vs) \<in> set items \<and> v \<in> set vs)" for n v
    by (auto simp: idx'(3))
  moreover have "(\<exists>g. (n, v) \<in> set (contribution idx' g)) \<longleftrightarrow>
      (n, v) \<in> set (contribution idx' f) \<or> (\<exists>g. g \<noteq> f \<and> (n, v) \<in> set (contribution idx g))" for n v
    using idx'(4) by metis
  ultimately show ?thesis using idx'(1,2) by (auto simp: nvi_contains_iff [OF idx'(2)])
qed

lemma nvi_ok_new: "nvi_ok nvi_new"
  by (simp add: nvi_ok_def nvi_new_def nv_ok_def nv_count_def)

theorem named_values_follow_files_witness:
  "\<exists>idx'. nvi_merge_file ''a'' [(''flag'', [''x'', ''y'', ''x''])] nvi_new = Some idx' \<and> nvi_ok idx' \<and>
    nvi_contains idx' ''flag'' ''y'' \<and> \<not> nvi_contains idx' ''flag'' ''z''"
  using named_values_follow_files [OF nvi_ok_new, of "''a''" "[(''flag'', [''x'', ''y'', ''x''])]"]
  by (auto simp: contribution_def nvi_new_def)

text \<open>Scripted localisation: a name is known exactly when the base game has it or some file
  does, case aside; a file that is indexed again replaces its own names only, so forgetting a
  mod's file never strips a name of the base game.\<close>

theorem scripted_loc_follows_files:
  assumes "sl_ok idx"
  shows "\<exists>idx'. sl_merge_file f names idx = Some idx' \<and> sl_ok idx' \<and>
    (\<forall>n. sl_contains idx' n \<longleftrightarrow> to_ascii_lowercase n \<in> sl_vanilla idx \<or>
      (\<exists>m \<in> set names. eq_ignore_ascii_case m n) \<or>
      (\<exists>g. g \<noteq> f \<and> to_ascii_lowercase n \<in> set (get_or [] (sl_per_file idx) g)))"
proof -
  obtain idx' where idx': "sl_merge_file f names idx = Some idx'" "sl_ok idx'" "sl_vanilla idx' = sl_vanilla idx"
    "get_or [] (sl_per_file idx') f = map to_ascii_lowercase names"
    "\<forall>g. g \<noteq> f \<longrightarrow> get_or [] (sl_per_file idx') g = get_or [] (sl_per_file idx) g"
    using sl_merge_some [OF assms] by blast
  have "(\<exists>g. x \<in> set (get_or [] (sl_per_file idx') g)) \<longleftrightarrow>
      x \<in> set (map to_ascii_lowercase names) \<or> (\<exists>g. g \<noteq> f \<and> x \<in> set (get_or [] (sl_per_file idx) g))" for x
    using idx'(4,5) by metis
  then have "sl_contains idx' n \<longleftrightarrow> to_ascii_lowercase n \<in> sl_vanilla idx \<or>
      to_ascii_lowercase n \<in> set (map to_ascii_lowercase names) \<or>
      (\<exists>g. g \<noteq> f \<and> to_ascii_lowercase n \<in> set (get_or [] (sl_per_file idx) g))" for n
    by (simp add: sl_contains_iff [OF idx'(2)] idx'(3))
  moreover have "to_ascii_lowercase n \<in> set (map to_ascii_lowercase names) \<longleftrightarrow>
      (\<exists>m \<in> set names. eq_ignore_ascii_case m n)" for n
    unfolding eq_ignore_ascii_case_def set_map image_iff by metis
  ultimately show ?thesis using idx'(1,2) by simp
qed

theorem scripted_loc_follows_files_witness:
  "\<exists>idx'. sl_merge_file ''a'' [''GetName''] sl_new = Some idx' \<and> sl_ok idx' \<and>
    sl_contains idx' ''getname'' \<and> \<not> sl_contains idx' ''gettag''"
proof -
  have "sl_ok sl_new" by (simp add: sl_ok_def sl_new_def counters_ok_def)
  moreover have "eq_ignore_ascii_case ''GetName'' ''getname''" "\<not> eq_ignore_ascii_case ''GetName'' ''gettag''"
    by code_simp+
  ultimately show ?thesis
    using scripted_loc_follows_files [of sl_new "''a''" "[''GetName'']"] by (auto simp: sl_new_def)
qed

text \<open>A reference that finds its file only if case is ignored is exactly one that the
  case-sensitive check rejects and for which the spelling on disk is offered; a reference the
  check accepts gets no such suggestion.\<close>

theorem case_mismatch_explained:
  assumes "fi_ok fi" "fi_case_sensitive fi"
  shows "(fi_contains_ci fi p \<longleftrightarrow> fi_contains fi p \<or> on_disk_case fi p \<noteq> None) \<and>
    \<not> (fi_contains fi p \<and> on_disk_case fi p \<noteq> None) \<and>
    (\<forall>q. on_disk_case fi p = Some q \<longrightarrow> to_ascii_lowercase q = to_ascii_lowercase (norm_path p) \<and> q \<noteq> norm_path p)"
proof (cases "map_of (fi_exact fi) (to_ascii_lowercase (norm_path p))")
  case None
  then show ?thesis
    using assms(2) by (simp add: fi_contains_ci_def fi_contains_def fi_contains_exact_def on_disk_case_def Let_def)
next
  case (Some q)
  then have "to_ascii_lowercase q = to_ascii_lowercase (norm_path p)"
    "to_ascii_lowercase (norm_path p) \<in> fi_files fi"
    using assms(1) unfolding fi_ok_def by blast+
  then show ?thesis
    using Some assms(2)
    by (auto simp: fi_contains_ci_def fi_contains_def fi_contains_exact_def on_disk_case_def Let_def)
qed

lemma fi_ok_new: "fi_ok (fi_set_case_sensitive True fi_new)"
  by (simp add: fi_ok_def fi_new_def fi_set_case_sensitive_def)

theorem case_mismatch_explained_witness:
  "let fi = fi_insert ''gfx/Flag.dds'' (fi_set_case_sensitive True fi_new)
   in fi_contains_ci fi ''gfx/flag.dds'' \<and> \<not> fi_contains fi ''gfx/flag.dds'' \<and>
     on_disk_case fi ''gfx/flag.dds'' = Some ''gfx/Flag.dds''"
proof -
  let ?fi = "fi_insert ''gfx/Flag.dds'' (fi_set_case_sensitive True fi_new)"
  have "fi_ok ?fi" by (rule fi_ok_insert [OF fi_ok_new])
  moreover have "fi_case_sensitive ?fi" by code_simp
  moreover have disk: "on_disk_case ?fi ''gfx/flag.dds'' = Some ''gfx/Flag.dds''" by code_simp
  ultimately show ?thesis
    using case_mismatch_explained [of ?fi "''gfx/flag.dds''"] by (simp add: Let_def)
qed

end
