(* ===== verification/Rust_Numbers.thy ===== *)
theory Rust_Numbers
  imports Rust_Strings
begin

text \<open>
  Numbers in configuration and script text: \<open>i32\<close> values as 32-bit words read with their sign,
  and the grammar of \<open>str::parse::<f64>\<close>. A parsed \<open>f64\<close> is kept as the exact decimal it was
  read from; no code modelled here computes with it.
\<close>

section \<open>Signed words\<close>

type_synonym i32 = "32 word"

definition i32_min :: "i32 \<Rightarrow> i32 \<Rightarrow> i32" where
  "i32_min a b = (if sint a \<le> sint b then a else b)"

definition i32_max :: "i32 \<Rightarrow> i32 \<Rightarrow> i32" where
  "i32_max a b = (if sint a \<le> sint b then b else a)"

text \<open>\<open>parse::<i32>\<close>: an optional sign, one digit or more, within range.\<close>

definition signed_digits :: "rstr \<Rightarrow> bool \<times> rstr" where
  "signed_digits s =
     (case s of
        b # bs \<Rightarrow> if b = CHR ''-'' then (True, bs) else if b = CHR ''+'' then (False, bs) else (False, s)
      | [] \<Rightarrow> (False, s))"

definition parse_i32 :: "rstr \<Rightarrow> i32 option" where
  "parse_i32 s =
     (let (neg, ds) = signed_digits s;
          v = (if neg then - int (digits_val ds) else int (digits_val ds))
      in if ds \<noteq> [] \<and> list_all is_digit_byte ds \<and> - 2147483648 \<le> v \<and> v < 2147483648
         then Some (word_of_int v) else None)"

definition show_int :: "int \<Rightarrow> rstr" where
  "show_int v = (if v < 0 then CHR ''-'' # show_nat (nat (- v)) else show_nat (nat v))"

lemma show_nat_digit: "b \<in> set (show_nat n) \<Longrightarrow> is_digit_byte b"
  using show_nat_digits [of n] by (simp add: list_all_iff)

lemma signed_digits_show_int:
  "signed_digits (show_int v) = (v < 0, show_nat (nat \<bar>v\<bar>))"
proof (cases "v < 0")
  case True
  then show ?thesis by (simp add: show_int_def signed_digits_def)
next
  case False
  obtain b bs where b: "show_nat (nat v) = b # bs" by (meson list.exhaust show_nat_neq_Nil)
  then have "is_digit_byte b" using show_nat_digit [of b "nat v"] by simp
  then have "b \<noteq> CHR ''-''" "b \<noteq> CHR ''+''" by (auto simp: is_digit_byte_def)
  then show ?thesis using False b by (simp add: show_int_def signed_digits_def)
qed

lemma sint_i32_range: "- 2147483648 \<le> sint (w :: i32)" "sint (w :: i32) < 2147483648"
  using sint_ge [of w] sint_lt [of w] by simp_all

lemma parse_i32_show: "parse_i32 (show_int (sint w)) = Some w"
proof -
  have "list_all is_digit_byte (show_nat n)" for n by (rule show_nat_digits)
  then show ?thesis
    using sint_i32_range [of w] by (auto simp: parse_i32_def signed_digits_show_int)
qed

section \<open>Floating point literals\<close>

datatype f64 =
    Finite (f64_neg: bool) (f64_digits: nat) (f64_exp10: int)
  | Infinite bool
  | NotANumber

text \<open>The optional exponent: \<open>e\<close>, a sign, digits.\<close>

definition parse_exponent :: "rstr \<Rightarrow> int option" where
  "parse_exponent s =
     (case s of
        [] \<Rightarrow> Some 0
      | e # rest \<Rightarrow>
          if e \<noteq> CHR ''e'' \<and> e \<noteq> CHR ''E'' then None
          else (let (neg, ds) = signed_digits rest
                in if ds \<noteq> [] \<and> list_all is_digit_byte ds
                   then Some (if neg then - int (digits_val ds) else int (digits_val ds))
                   else None))"

text \<open>Digits, an optional dot and digits (at least one digit in all), an exponent.\<close>

definition parse_decimal :: "bool \<Rightarrow> rstr \<Rightarrow> f64 option" where
  "parse_decimal neg s =
     (let whole = takeWhile is_digit_byte s; rest = dropWhile is_digit_byte s;
          (frac, rest2) = (case rest of
              b # bs \<Rightarrow> if b = CHR ''.'' then (takeWhile is_digit_byte bs, dropWhile is_digit_byte bs) else ([], rest)
            | [] \<Rightarrow> ([], []))
      in if whole = [] \<and> frac = [] then None
         else map_option (\<lambda>e. Finite neg (digits_val (whole @ frac)) (e - int (length frac))) (parse_exponent rest2))"

definition parse_f64 :: "rstr \<Rightarrow> f64 option" where
  "parse_f64 s =
     (let (neg, body) = signed_digits s; lower = to_ascii_lowercase body
      in if lower = ''inf'' \<or> lower = ''infinity'' then Some (Infinite neg)
         else if lower = ''nan'' then Some NotANumber
         else parse_decimal neg body)"

definition f64_of_i32 :: "i32 \<Rightarrow> f64" where
  "f64_of_i32 w = Finite (sint w < 0) (nat \<bar>sint w\<bar>) 0"

end
