(* ===== verification/Rules_Types.thy ===== *)
theory Rules_Types
  imports Rust_Numbers Path_Match Scope_Registry Ref_Count
begin

text \<open>
  The rules of a game's configuration (\<open>crates/rules/src/rules_types.rs\<close>): fields, rules and
  their options, type definitions, enums, and the rule set with the lookup tables that
  \<open>reindex\<close> builds from it. An \<open>f64\<close> bound is the exact decimal it was written as, hash maps are
  association lists and hash sets are sets.
\<close>

definition or_else :: "'a option \<Rightarrow> 'a option \<Rightarrow> 'a option" where
  "or_else a b = (case a of Some x \<Rightarrow> Some x | None \<Rightarrow> b)"

lemma or_else_simps [simp]:
  "or_else (Some x) b = Some x" "or_else None b = b" "or_else (or_else a b) c = or_else a (or_else b c)"
  by (simp_all add: or_else_def split: option.split)

section \<open>Fields and rules\<close>

datatype ValueType =
    VtEnum rstr
  | VtFloat f64 f64
  | VtBool
  | VtInt i32 i32
  | VtPercent
  | VtDate
  | VtDateTime
  | VtCk2Dna
  | VtCk2DnaProperty
  | VtIrFamilyName
  | VtStlNameFormat rstr
  | VtMathExpr

datatype TypeType =
    TtSimple rstr
  | TtComplex (tt_prefix: rstr) (tt_name: rstr) (tt_suffix: rstr)

datatype Marker = MkColourField | MkIrCountryTag

datatype NewField =
    ValueField ValueType
  | SpecificField rstr
  | ScalarField
  | TypeField TypeType
  | ScopeField "rstr list"
  | LocalisationField (lf_synced: bool) (lf_is_inline: bool)
  | FilepathField (ff_prefix: "rstr option") (ff_extension: "rstr option")
  | IconField rstr
  | AliasValueKeysField rstr
  | AliasField rstr
  | SingleAliasField rstr
  | VariableSetField rstr
  | VariableGetField rstr
  | VariableField (vf_is_int: bool) (vf_is_32bit: bool) (vf_min: f64) (vf_max: f64)
  | ValueScopeMarkerField bool f64 f64
  | ValueScopeField bool f64 f64
  | MarkerField Marker
  | IgnoreMarkerField
  | IgnoreField NewField

datatype Severity = SevError | SevWarning | SevInformation | SevHint

datatype ReferenceDetail = RefOutgoing rstr | RefIncoming rstr

record ReplaceScopes =
  rs_root :: "rstr option"
  rs_this :: "rstr option"
  rs_froms :: "rstr list"
  rs_prevs :: "rstr list"

record Options =
  opt_min :: i32
  opt_max :: i32
  opt_strict_min :: bool
  opt_leafvalue :: bool
  opt_description :: "rstr option"
  opt_push_scope :: "rstr option"
  opt_replace_scopes :: "ReplaceScopes option"
  opt_severity :: "Severity option"
  opt_required_scopes :: "rstr list"
  opt_comparison :: bool
  opt_reference_details :: "ReferenceDetail option"
  opt_error_if_only_match :: "rstr option"
  opt_default_bool :: "bool option"

definition options_default :: Options where
  "options_default = \<lparr>opt_min = 0, opt_max = 1000, opt_strict_min = True, opt_leafvalue = False,
     opt_description = None, opt_push_scope = None, opt_replace_scopes = None, opt_severity = None,
     opt_required_scopes = [], opt_comparison = False, opt_reference_details = None,
     opt_error_if_only_match = None, opt_default_bool = None\<rparr>"

datatype RuleType =
    NodeRule (nr_left: NewField) (nr_rules: "(RuleType \<times> Options) list")
  | LeafRule (lr_left: NewField) (lr_right: NewField)
  | LeafValueRule (lvr_right: NewField)
  | ValueClauseRule (vcr_rules: "(RuleType \<times> Options) list")
  | SubtypeRule (sr_name: rstr) (sr_positive: bool) (sr_rules: "(RuleType \<times> Options) list")

type_synonym NewRule = "RuleType \<times> Options"

datatype RootRule =
    AliasRule rstr NewRule
  | SingleAliasRule rstr NewRule
  | TypeRule rstr NewRule

text \<open>\<open>str::split_once\<close> for a single byte.\<close>

fun split_once :: "char \<Rightarrow> rstr \<Rightarrow> (rstr \<times> rstr) option" where
  "split_once d [] = None"
| "split_once d (b # bs) =
     (if b = d then Some ([], bs) else map_option (\<lambda>(l, r). (b # l, r)) (split_once d bs))"

lemma split_once_append [simp]:
  "d \<notin> set s \<Longrightarrow> split_once d (s @ d # t) = Some (s, t)"
  by (induction s) auto

definition base_name :: "TypeType \<Rightarrow> rstr" where
  "base_name t =
     (let name = (case t of TtSimple n \<Rightarrow> n | TtComplex p n s \<Rightarrow> n)
      in case split_once (CHR ''.'') name of Some (base, _) \<Rightarrow> base | None \<Rightarrow> name)"

section \<open>Type definitions and enums\<close>

record TypeLocalisation =
  tl_name :: rstr
  tl_prefix :: rstr
  tl_suffix :: rstr
  tl_required :: bool
  tl_optional :: bool
  tl_explicit_field :: "rstr option"
  tl_replace_scopes :: "ReplaceScopes option"
  tl_primary :: bool

definition is_required_name_derived :: "TypeLocalisation \<Rightarrow> bool" where
  "is_required_name_derived l \<longleftrightarrow> tl_required l \<and> \<not> tl_optional l \<and> tl_explicit_field l = None"

definition required_explicit_field :: "TypeLocalisation \<Rightarrow> rstr option" where
  "required_explicit_field l = (if \<not> tl_required l \<or> tl_optional l then None else tl_explicit_field l)"

definition derived_key :: "TypeLocalisation \<Rightarrow> rstr \<Rightarrow> rstr" where
  "derived_key l name = tl_prefix l @ name @ tl_suffix l"

record TypeModifier =
  tm_prefix :: rstr
  tm_suffix :: rstr
  tm_category :: rstr
  tm_documentation :: "rstr option"
  tm_explicit :: bool

datatype MatchKind = MatchEquals | MatchNotEquals

definition match_kind_from_equals :: "bool \<Rightarrow> MatchKind" where
  "match_kind_from_equals b = (if b then MatchEquals else MatchNotEquals)"

definition match_kind_is_equals :: "MatchKind \<Rightarrow> bool" where
  "match_kind_is_equals k \<longleftrightarrow> k = MatchEquals"

datatype SkipRootKey = SkipSpecificKey rstr | SkipAnyKey | SkipMultipleKeys "rstr list" MatchKind

record SubTypeDefinition =
  st_name :: rstr
  st_display_name :: "rstr option"
  st_abbreviation :: "rstr option"
  st_rules :: "NewRule list"
  st_type_key_field :: "rstr option"
  st_starts_with :: "rstr option"
  st_push_scope :: "rstr option"
  st_localisation :: "TypeLocalisation list"
  st_only_if_not :: "rstr list"
  st_modifiers :: "TypeModifier list"
  st_type_key_filter :: "rstr list"

record TypeDefinition =
  td_name :: rstr
  td_name_field :: "rstr option"
  td_path_options :: PathOptions
  td_subtypes :: "SubTypeDefinition list"
  td_type_key_filter :: "(rstr list \<times> bool) option"
  td_skip_root_key :: "SkipRootKey list"
  td_starts_with :: "rstr option"
  td_type_per_file :: bool
  td_key_prefix :: "rstr option"
  td_warning_only :: bool
  td_unique :: bool
  td_should_be_referenced :: bool
  td_localisation :: "TypeLocalisation list"
  td_graph_related_types :: "rstr list"
  td_modifiers :: "TypeModifier list"

record EnumDefinition =
  ed_key :: rstr
  ed_description :: rstr
  ed_values :: "rstr list"

datatype ComplexEnumNameTree =
    NameTreeEmpty
  | NameTreeEntries "ComplexEnumNameTreeEntry list"
and ComplexEnumNameTreeEntry =
    EntryLeaf rstr bool
  | EntryNode rstr ComplexEnumNameTree
  | EntryBareName

record ComplexEnumDef =
  ce_name :: rstr
  ce_description :: rstr
  ce_path_options :: PathOptions
  ce_name_tree :: ComplexEnumNameTree
  ce_start_from_root :: bool

section \<open>Alias patterns\<close>

datatype PatternKind = PatType | PatEnum | PatValue

record ParsedAliasPattern =
  pat_alias_idx :: nat
  pat_prefix :: rstr
  pat_suffix :: rstr
  pat_kind :: PatternKind
  pat_placeholder_name :: rstr

record AliasCategoryIndex =
  parsed_patterns :: "ParsedAliasPattern list"
  scope_field_idx :: "nat option"

text \<open>
  The loop over the bracket markers: the earliest marker wins, and a marker that is never
  closed ends the whole parse (the outer \<open>None\<close>).
\<close>

definition pattern_markers :: "(rstr \<times> PatternKind) list" where
  "pattern_markers = [(''value_set['', PatValue), (''complex_enum['', PatEnum), (''value['', PatValue),
     (''enum['', PatEnum)]"

fun find_markers ::
  "rstr \<Rightarrow> (rstr \<times> PatternKind) list \<Rightarrow> (nat \<times> nat \<times> nat \<times> PatternKind) option
   \<Rightarrow> (nat \<times> nat \<times> nat \<times> PatternKind) option option" where
  "find_markers rest [] found = Some found"
| "find_markers rest ((marker, kind) # ms) found =
     (case find_sub marker rest of
        None \<Rightarrow> find_markers rest ms found
      | Some op \<Rightarrow>
          (let inner = op + length marker
           in case find_sub '']'' (drop inner rest) of
                None \<Rightarrow> None
              | Some c \<Rightarrow>
                  (let close = inner + c;
                       earlier = (case found of None \<Rightarrow> True | Some (o', _) \<Rightarrow> op < o')
                   in find_markers rest ms (if earlier then Some (op, inner, close, kind) else found))))"

definition parse_alias_pattern :: "rstr \<Rightarrow> nat \<Rightarrow> ParsedAliasPattern option" where
  "parse_alias_pattern rest alias_idx =
     (case find_sub ''<'' rest of
        Some op \<Rightarrow>
          (case find_sub ''>'' (drop op rest) of
             None \<Rightarrow> None
           | Some c \<Rightarrow>
               (let close = op + c
                in Some \<lparr>pat_alias_idx = alias_idx, pat_prefix = take op rest, pat_suffix = drop (close + 1) rest,
                     pat_kind = PatType, pat_placeholder_name = take (close - (op + 1)) (drop (op + 1) rest)\<rparr>))
      | None \<Rightarrow>
          (case find_markers rest pattern_markers None of
             None \<Rightarrow> None
           | Some None \<Rightarrow> None
           | Some (Some (op, inner, close, kind)) \<Rightarrow>
               Some \<lparr>pat_alias_idx = alias_idx, pat_prefix = take op rest, pat_suffix = drop (close + 1) rest,
                 pat_kind = kind, pat_placeholder_name = take (close - inner) (drop inner rest)\<rparr>))"

end
