(* ===== verification/Rule_Set.thy ===== *)
theory Rule_Set
  imports Rules_Types
begin

text \<open>
  The rule set (\<open>RuleSet\<close> of \<open>crates/rules/src/rules_types.rs\<close>): what the configuration declares,
  the lookup tables \<open>reindex\<close> derives from it, and the lookups, which fall back to a scan when a
  table is not built. The properties: every table answers as the scan it replaces.
\<close>

section \<open>State\<close>

record TypeReferenceRule =
  ref_type :: rstr
  ref_root_type :: "rstr option"

datatype CwtDefKind = DefType | DefEnum | DefSingleAlias

record CwtDefPosition =
  dp_kind :: CwtDefKind
  dp_name :: rstr
  dp_file :: rstr
  dp_line :: u32
  dp_col :: u16

record RuleSet =
  rule_types :: "TypeDefinition list"
  rule_aliases :: "(rstr \<times> NewRule) list"
  rule_single_aliases :: "(rstr \<times> NewRule) list"
  rule_enums :: "EnumDefinition list"
  rule_complex_enums :: "ComplexEnumDef list"
  rule_root_rules :: "RootRule list"
  rule_values :: "(rstr \<times> rstr list) list"
  rule_modifiers :: "(rstr \<times> rstr) list"
  rule_modifier_categories :: "(rstr \<times> rstr list) list"
  rule_scope_links :: "rstr set"
  rule_scope_inputs :: "ScopeInput list"
  rule_link_inputs :: "LinkInput list"
  rule_folders :: "rstr list"
  rule_localisation_commands :: "rstr set"
  alias_exact :: "(rstr \<times> (rstr \<times> nat list) list) list"
  alias_categories :: "(rstr \<times> AliasCategoryIndex) list"
  type_by_name :: "(rstr \<times> nat) list"
  enum_by_name :: "(rstr \<times> nat) list"
  type_rules_idx :: "(rstr \<times> nat) list"
  type_reference_rules :: "(rstr \<times> TypeReferenceRule list) list"
  value_set_effects :: "(rstr \<times> rstr) list"
  value_set_effect_fields :: "(rstr \<times> (rstr \<times> rstr) list) list"
  enum_values_lower :: "rstr set list"
  enum_has_at :: "bool list"
  value_sets :: "(rstr \<times> rstr set) list"
  builtin_variable_bases :: "rstr set"
  pretriggers :: "(rstr \<times> rstr set) list"
  def_positions :: "CwtDefPosition list"

definition ruleset_new :: RuleSet where
  "ruleset_new = \<lparr>rule_types = [], rule_aliases = [], rule_single_aliases = [], rule_enums = [],
     rule_complex_enums = [], rule_root_rules = [], rule_values = [], rule_modifiers = [],
     rule_modifier_categories = [], rule_scope_links = {}, rule_scope_inputs = [], rule_link_inputs = [],
     rule_folders = [], rule_localisation_commands = {}, alias_exact = [], alias_categories = [],
     type_by_name = [], enum_by_name = [], type_rules_idx = [], type_reference_rules = [],
     value_set_effects = [], value_set_effect_fields = [], enum_values_lower = [], enum_has_at = [],
     value_sets = [], builtin_variable_bases = {}, pretriggers = [], def_positions = []\<rparr>"

section \<open>Building the tables\<close>

text \<open>Which value-set namespace a rule tree declares first.\<close>

definition ns_of_field :: "NewField \<Rightarrow> rstr option" where
  "ns_of_field f = (case f of VariableSetField ns \<Rightarrow> Some ns | _ \<Rightarrow> None)"

fun first_value_set_ns :: "RuleType \<Rightarrow> rstr option"
  and first_ns_rules :: "(RuleType \<times> Options) list \<Rightarrow> rstr option" where
  "first_value_set_ns (LeafRule left right) = or_else (ns_of_field left) (ns_of_field right)"
| "first_value_set_ns (LeafValueRule right) = ns_of_field right"
| "first_value_set_ns (NodeRule left rules) = or_else (ns_of_field left) (first_ns_rules rules)"
| "first_value_set_ns (ValueClauseRule rules) = first_ns_rules rules"
| "first_value_set_ns (SubtypeRule _ _ rules) = first_ns_rules rules"
| "first_ns_rules [] = None"
| "first_ns_rules ((rt, _) # rules) = or_else (first_value_set_ns rt) (first_ns_rules rules)"

text \<open>Every \<open>key = value_set[ns]\<close> binding of a rule tree, in order.\<close>

definition direct_bindings :: "NewField \<Rightarrow> (RuleType \<times> Options) list \<Rightarrow> (rstr \<times> rstr) list" where
  "direct_bindings left rules =
     (case left of
        SpecificField key \<Rightarrow>
          List.map_filter (\<lambda>(rt, _). case rt of
              LeafValueRule (VariableSetField ns) \<Rightarrow> Some (to_ascii_lowercase key, ns)
            | _ \<Rightarrow> None) rules
      | _ \<Rightarrow> [])"

fun collect_binding_fields :: "RuleType \<Rightarrow> (rstr \<times> rstr) list"
  and collect_binding_rules :: "(RuleType \<times> Options) list \<Rightarrow> (rstr \<times> rstr) list" where
  "collect_binding_fields (LeafRule left right) =
     (case (left, right) of
        (SpecificField key, VariableSetField ns) \<Rightarrow> [(to_ascii_lowercase key, ns)]
      | _ \<Rightarrow> [])"
| "collect_binding_fields (NodeRule left rules) = direct_bindings left rules @ collect_binding_rules rules"
| "collect_binding_fields (ValueClauseRule rules) = collect_binding_rules rules"
| "collect_binding_fields (SubtypeRule _ _ rules) = collect_binding_rules rules"
| "collect_binding_fields (LeafValueRule _) = []"
| "collect_binding_rules [] = []"
| "collect_binding_rules ((rt, _) # rules) = collect_binding_fields rt @ collect_binding_rules rules"

text \<open>The body of the loop over the aliases, one table at a time.\<close>

definition index_pretrigger :: "rstr \<Rightarrow> rstr \<Rightarrow> RuleSet \<Rightarrow> RuleSet" where
  "index_pretrigger cat key rs =
     (case strip_suffix cat ''_pre_trigger'' of
        None \<Rightarrow> rs
      | Some scope \<Rightarrow> rs\<lparr>pretriggers :=
          upd_entry {} (to_ascii_lowercase scope) (insert (to_ascii_lowercase key)) (pretriggers rs)\<rparr>)"

definition index_value_sets :: "rstr \<Rightarrow> rstr \<Rightarrow> RuleType \<Rightarrow> RuleSet \<Rightarrow> RuleSet" where
  "index_value_sets cat key rule rs =
     (if cat = ''effect'' \<or> cat = ''trigger''
      then (let rs1 = (case first_value_set_ns rule of
                  None \<Rightarrow> rs
                | Some ns \<Rightarrow> rs\<lparr>value_set_effects := or_insert (to_ascii_lowercase key) ns (value_set_effects rs)\<rparr>);
                fields = collect_binding_fields rule
            in if fields \<noteq> []
               then rs1\<lparr>value_set_effect_fields :=
                 upd_entry [] (to_ascii_lowercase key) (\<lambda>fs. fs @ fields) (value_set_effect_fields rs1)\<rparr>
               else rs1)
      else rs)"

definition push_alias :: "rstr \<Rightarrow> rstr \<Rightarrow> nat \<Rightarrow> RuleSet \<Rightarrow> RuleSet" where
  "push_alias cat key i rs =
     rs\<lparr>alias_exact := upd_entry [] cat (upd_entry [] key (\<lambda>is. is @ [i])) (alias_exact rs)\<rparr>"

definition index_exact :: "rstr \<Rightarrow> rstr \<Rightarrow> nat \<Rightarrow> RuleSet \<Rightarrow> RuleSet" where
  "index_exact cat key i rs =
     (let rs1 = push_alias cat key i rs;
          lower_cat = to_ascii_lowercase cat; lower_key = to_ascii_lowercase key
      in if lower_cat \<noteq> cat \<or> lower_key \<noteq> key then push_alias lower_cat lower_key i rs1 else rs1)"

definition category_default :: AliasCategoryIndex where
  "category_default = \<lparr>parsed_patterns = [], scope_field_idx = None\<rparr>"

definition index_category :: "rstr \<Rightarrow> rstr \<Rightarrow> nat \<Rightarrow> RuleSet \<Rightarrow> RuleSet" where
  "index_category cat rest i rs =
     rs\<lparr>alias_categories := upd_entry category_default cat (\<lambda>entry.
       if rest = ''scope_field'' then entry\<lparr>scope_field_idx := Some i\<rparr>
       else (case parse_alias_pattern rest i of
               Some parsed \<Rightarrow> entry\<lparr>parsed_patterns := parsed_patterns entry @ [parsed]\<rparr>
             | None \<Rightarrow> entry)) (alias_categories rs)\<rparr>"

definition index_alias :: "nat \<times> rstr \<times> NewRule \<Rightarrow> RuleSet \<Rightarrow> RuleSet" where
  "index_alias ia rs =
     (let (i, name, rule, opts) = ia
      in case split_once (CHR '':'') name of
           None \<Rightarrow> rs
         | Some (cat, key) \<Rightarrow>
             index_category cat key i (index_exact cat key i
               (index_value_sets cat key rule (index_pretrigger cat key rs))))"

text \<open>The loop over the root rules.\<close>

definition index_reference :: "rstr option \<Rightarrow> RuleType \<times> Options \<Rightarrow> RuleSet \<Rightarrow> RuleSet" where
  "index_reference root_type inner rs =
     (case fst inner of
        LeafRule (SpecificField key) (TypeField (TtSimple rt)) \<Rightarrow>
          rs\<lparr>type_reference_rules := upd_entry [] (to_ascii_lowercase key)
            (\<lambda>refs. refs @ [\<lparr>ref_type = rt, ref_root_type = root_type\<rparr>]) (type_reference_rules rs)\<rparr>
      | _ \<Rightarrow> rs)"

definition index_root_rule :: "nat \<times> RootRule \<Rightarrow> RuleSet \<Rightarrow> RuleSet" where
  "index_root_rule ir rs =
     (let (i, root_rule) = ir;
          (root_type, rule, rs1) = (case root_rule of
             TypeRule name rule \<Rightarrow> (Some name, rule, rs\<lparr>type_rules_idx := or_insert name i (type_rules_idx rs)\<rparr>)
           | AliasRule _ rule \<Rightarrow> (None, rule, rs)
           | SingleAliasRule _ rule \<Rightarrow> (None, rule, rs))
      in case fst rule of
           NodeRule _ rules \<Rightarrow> fold (index_reference root_type) rules rs1
         | _ \<Rightarrow> rs1)"

definition starts_with_at :: "rstr \<Rightarrow> bool" where
  "starts_with_at v = starts_with v ''@''"

text \<open>The name of a built-in variable before its own scope suffix.\<close>

definition variable_base :: "rstr \<Rightarrow> rstr" where
  "variable_base m = hd (split_byte (CHR ''@'') m)"

definition reindex :: "RuleSet \<Rightarrow> RuleSet" where
  "reindex rs =
     (let cleared = rs\<lparr>alias_exact := [], alias_categories := [], pretriggers := [],
            value_set_effects := [], value_set_effect_fields := []\<rparr>;
          rs1 = fold index_alias (enumerate 0 (rule_aliases rs)) cleared;
          rs2 = rs1\<lparr>
            rule_types := map (\<lambda>td. td\<lparr>td_path_options := normalize_path_options (td_path_options td)\<rparr>) (rule_types rs1),
            rule_complex_enums := map (\<lambda>ce. ce\<lparr>ce_path_options := normalize_path_options (ce_path_options ce)\<rparr>) (rule_complex_enums rs1),
            type_by_name := fold (\<lambda>(i, td) m. AList.update (td_name td) i m) (enumerate 0 (rule_types rs1)) [],
            enum_by_name := fold (\<lambda>(i, e) m. AList.update (ed_key e) i m) (enumerate 0 (rule_enums rs1)) [],
            enum_values_lower := map (\<lambda>e. set (map to_ascii_lowercase (ed_values e))) (rule_enums rs1),
            enum_has_at := map (\<lambda>e. list_ex starts_with_at (ed_values e)) (rule_enums rs1),
            value_sets := map (\<lambda>(k, vs). (k, set vs)) (rule_values rs1),
            builtin_variable_bases := (case map_of (rule_values rs1) ''variable'' of
                None \<Rightarrow> {}
              | Some members \<Rightarrow> set (map (\<lambda>m. to_ascii_lowercase (variable_base m)) members)),
            type_rules_idx := [], type_reference_rules := []\<rparr>
      in fold index_root_rule (enumerate 0 (rule_root_rules rs2)) rs2)"

text \<open>\<open>merge_ruleset\<close> of \<open>ruleset_loader.rs\<close>: what another file declares comes after.\<close>

definition merge_ruleset :: "RuleSet \<Rightarrow> RuleSet \<Rightarrow> RuleSet" where
  "merge_ruleset src dst =
     dst\<lparr>rule_types := rule_types dst @ rule_types src,
         rule_enums := rule_enums dst @ rule_enums src,
         rule_aliases := rule_aliases dst @ rule_aliases src,
         rule_single_aliases := rule_single_aliases dst @ rule_single_aliases src,
         rule_complex_enums := rule_complex_enums dst @ rule_complex_enums src,
         rule_root_rules := rule_root_rules dst @ rule_root_rules src,
         rule_values := fold (\<lambda>(name, vals). upd_entry [] name (\<lambda>vs. vs @ vals)) (rule_values src) (rule_values dst),
         rule_modifiers := rule_modifiers dst @ rule_modifiers src,
         rule_modifier_categories := fold (\<lambda>(k, v). AList.update k v) (rule_modifier_categories src) (rule_modifier_categories dst),
         rule_scope_links := rule_scope_links dst \<union> rule_scope_links src,
         rule_scope_inputs := rule_scope_inputs dst @ rule_scope_inputs src,
         rule_link_inputs := rule_link_inputs dst @ rule_link_inputs src,
         rule_folders := rule_folders dst @ rule_folders src,
         rule_localisation_commands := rule_localisation_commands dst \<union> rule_localisation_commands src\<rparr>"

section \<open>Lookups\<close>

definition lower_if_upper :: "rstr \<Rightarrow> rstr" where
  "lower_if_upper s = (if list_ex is_upper_byte s then to_ascii_lowercase s else s)"

definition type_reference_rules_for_key :: "RuleSet \<Rightarrow> rstr \<Rightarrow> TypeReferenceRule list option" where
  "type_reference_rules_for_key rs key = map_of (type_reference_rules rs) (lower_if_upper key)"

text \<open>An enum index out of range panics.\<close>

definition enum_values_contains_ci :: "RuleSet \<Rightarrow> nat \<Rightarrow> rstr \<Rightarrow> bool option" where
  "enum_values_contains_ci rs idx val =
     (if idx < length (enum_values_lower rs)
      then Some (lower_if_upper val \<in> enum_values_lower rs ! idx)
      else if idx < length (rule_enums rs)
      then Some (list_ex (\<lambda>v. eq_ignore_ascii_case v val) (ed_values (rule_enums rs ! idx)))
      else None)"

definition enum_has_at_constant :: "RuleSet \<Rightarrow> nat \<Rightarrow> bool option" where
  "enum_has_at_constant rs idx =
     (if idx < length (enum_has_at rs) then Some (enum_has_at rs ! idx)
      else if idx < length (rule_enums rs) then Some (list_ex starts_with_at (ed_values (rule_enums rs ! idx)))
      else None)"

definition value_set_lookup :: "RuleSet \<Rightarrow> rstr \<Rightarrow> rstr \<Rightarrow> bool option" where
  "value_set_lookup rs name val =
     (case map_of (value_sets rs) name of
        Some s \<Rightarrow> if s \<noteq> {} then Some (val \<in> s)
          else (case map_of (rule_values rs) name of
                  Some vs \<Rightarrow> if vs \<noteq> [] then Some (val \<in> set vs) else None | None \<Rightarrow> None)
      | None \<Rightarrow> (case map_of (rule_values rs) name of
                  Some vs \<Rightarrow> if vs \<noteq> [] then Some (val \<in> set vs) else None | None \<Rightarrow> None))"

definition is_builtin_variable_base :: "RuleSet \<Rightarrow> rstr \<Rightarrow> bool" where
  "is_builtin_variable_base rs base =
     (if builtin_variable_bases rs = {}
      then (case map_of (rule_values rs) ''variable'' of
              Some members \<Rightarrow> list_ex (\<lambda>m. eq_ignore_ascii_case (variable_base m) base) members
            | None \<Rightarrow> False)
      else to_ascii_lowercase base \<in> builtin_variable_bases rs)"

text \<open>The debug assertion of every accessor.\<close>

definition assert_reindexed :: "RuleSet \<Rightarrow> bool" where
  "assert_reindexed rs \<longleftrightarrow>
     length (rule_types rs) = length (type_by_name rs) \<and> length (rule_enums rs) = length (enum_by_name rs) \<and>
     (rule_aliases rs = [] \<or> alias_exact rs \<noteq> [] \<or> alias_categories rs = []) \<and>
     length (rule_enums rs) = length (enum_values_lower rs) \<and> length (rule_enums rs) = length (enum_has_at rs)"

definition alias_exact_for :: "RuleSet \<Rightarrow> rstr \<Rightarrow> rstr \<Rightarrow> nat list option" where
  "alias_exact_for rs category key =
     (case map_of (alias_exact rs) category of None \<Rightarrow> None | Some m \<Rightarrow> map_of m key)"

definition alias_category :: "RuleSet \<Rightarrow> rstr \<Rightarrow> AliasCategoryIndex option" where
  "alias_category rs category = map_of (alias_categories rs) category"

end
