(* ===== verification/Rule_Set_Properties.thy ===== *)
theory Rule_Set_Properties
  imports Rule_Set
begin

text \<open>
  The lookup tables of a rule set answer as the scans they replace: first what each loop of
  \<open>reindex\<close> leaves alone, then every table as a function of the declared part, then the
  properties. The last section is about alias patterns.
\<close>

section \<open>What a loop leaves alone\<close>

text \<open>The declared part of a rule set, and the tables the root-rule loop does not touch.\<close>

definition declared :: "RuleSet \<Rightarrow> _" where
  "declared rs = (rule_types rs, rule_aliases rs, rule_enums rs, rule_complex_enums rs, rule_root_rules rs, rule_values rs,
     rule_single_aliases rs)"

definition derived :: "RuleSet \<Rightarrow> _" where
  "derived rs = (alias_exact rs, alias_categories rs, type_by_name rs, enum_by_name rs, enum_values_lower rs,
     enum_has_at rs, value_sets rs, builtin_variable_bases rs, pretriggers rs)"

lemma declared_index_alias [simp]: "declared (index_alias ia rs) = declared rs"
  by (auto simp: declared_def index_alias_def index_category_def index_exact_def push_alias_def
    index_value_sets_def index_pretrigger_def Let_def split: prod.split option.split)

lemma index_reference_frame [simp]:
  "declared (index_reference rt inner rs) = declared rs" "derived (index_reference rt inner rs) = derived rs"
  by (auto simp: declared_def derived_def index_reference_def split: RuleType.split NewField.split TypeType.split)

lemma fold_frame: "(\<And>x s. f (g x s) = f s) \<Longrightarrow> f (fold g xs s) = f s"
  by (induction xs arbitrary: s) auto

lemma index_root_rule_frame [simp]:
  "declared (index_root_rule ir rs) = declared rs" "derived (index_root_rule ir rs) = derived rs"
proof -
  have "declared (fold (index_reference rt) rules s) = declared s"
    "derived (fold (index_reference rt) rules s) = derived s" for rt rules s
    by (intro fold_frame; simp)+
  moreover have "declared (s\<lparr>type_rules_idx := m\<rparr>) = declared s" "derived (s\<lparr>type_rules_idx := m\<rparr>) = derived s" for s m
    by (simp_all add: declared_def derived_def)
  ultimately show "declared (index_root_rule ir rs) = declared rs" "derived (index_root_rule ir rs) = derived rs"
    by (auto simp: index_root_rule_def Let_def split: prod.split RootRule.split RuleType.split)
qed

section \<open>The tables of a reindexed rule set\<close>

lemma reindex_tables:
  fixes rs :: RuleSet
  shows "alias_exact (reindex rs) = alias_exact (fold index_alias (enumerate 0 (rule_aliases rs))
      (rs\<lparr>alias_exact := [], alias_categories := [], pretriggers := [], value_set_effects := [], value_set_effect_fields := []\<rparr>))"
    "alias_categories (reindex rs) = alias_categories (fold index_alias (enumerate 0 (rule_aliases rs))
      (rs\<lparr>alias_exact := [], alias_categories := [], pretriggers := [], value_set_effects := [], value_set_effect_fields := []\<rparr>))"
    "type_by_name (reindex rs) = fold (\<lambda>(i, td) m. AList.update (td_name td) i m) (enumerate 0 (rule_types rs)) []"
    "enum_by_name (reindex rs) = fold (\<lambda>(i, e) m. AList.update (ed_key e) i m) (enumerate 0 (rule_enums rs)) []"
    "enum_values_lower (reindex rs) = map (\<lambda>e. set (map to_ascii_lowercase (ed_values e))) (rule_enums rs)"
    "enum_has_at (reindex rs) = map (\<lambda>e. list_ex starts_with_at (ed_values e)) (rule_enums rs)"
    "value_sets (reindex rs) = map (\<lambda>(k, vs). (k, set vs)) (rule_values rs)"
    "builtin_variable_bases (reindex rs) = (case map_of (rule_values rs) ''variable'' of
        None \<Rightarrow> {} | Some members \<Rightarrow> set (map (\<lambda>m. to_ascii_lowercase (variable_base m)) members))"
    "rule_enums (reindex rs) = rule_enums rs" "rule_values (reindex rs) = rule_values rs"
    "rule_aliases (reindex rs) = rule_aliases rs" "length (rule_types (reindex rs)) = length (rule_types rs)"
    "rule_single_aliases (reindex rs) = rule_single_aliases rs"
    "map ce_name (rule_complex_enums (reindex rs)) = map ce_name (rule_complex_enums rs)"
proof -
  let ?rs1 = "fold index_alias (enumerate 0 (rule_aliases rs))
      (rs\<lparr>alias_exact := [], alias_categories := [], pretriggers := [], value_set_effects := [], value_set_effect_fields := []\<rparr>)"
  let ?rs2 = "?rs1\<lparr>
            rule_types := map (\<lambda>td. td\<lparr>td_path_options := normalize_path_options (td_path_options td)\<rparr>) (rule_types ?rs1),
            rule_complex_enums := map (\<lambda>ce. ce\<lparr>ce_path_options := normalize_path_options (ce_path_options ce)\<rparr>) (rule_complex_enums ?rs1),
            type_by_name := fold (\<lambda>(i, td) m. AList.update (td_name td) i m) (enumerate 0 (rule_types ?rs1)) [],
            enum_by_name := fold (\<lambda>(i, e) m. AList.update (ed_key e) i m) (enumerate 0 (rule_enums ?rs1)) [],
            enum_values_lower := map (\<lambda>e. set (map to_ascii_lowercase (ed_values e))) (rule_enums ?rs1),
            enum_has_at := map (\<lambda>e. list_ex starts_with_at (ed_values e)) (rule_enums ?rs1),
            value_sets := map (\<lambda>(k, vs). (k, set vs)) (rule_values ?rs1),
            builtin_variable_bases := (case map_of (rule_values ?rs1) ''variable'' of
                None \<Rightarrow> {}
              | Some members \<Rightarrow> set (map (\<lambda>m. to_ascii_lowercase (variable_base m)) members)),
            type_rules_idx := [], type_reference_rules := []\<rparr>"
  have step: "reindex rs = fold index_root_rule (enumerate 0 (rule_root_rules ?rs2)) ?rs2"
    by (simp only: reindex_def Let_def)
  have frame: "declared (reindex rs) = declared ?rs2" "derived (reindex rs) = derived ?rs2"
    unfolding step by (intro fold_frame; simp)+
  have "declared ?rs1 = declared (rs\<lparr>alias_exact := [], alias_categories := [], pretriggers := [],
      value_set_effects := [], value_set_effect_fields := []\<rparr>)"
    by (intro fold_frame) simp
  then have decl: "rule_types ?rs1 = rule_types rs" "rule_enums ?rs1 = rule_enums rs"
    "rule_values ?rs1 = rule_values rs" "rule_aliases ?rs1 = rule_aliases rs"
    "rule_single_aliases ?rs1 = rule_single_aliases rs" "rule_complex_enums ?rs1 = rule_complex_enums rs"
    by (simp_all add: declared_def)
  show "alias_exact (reindex rs) = alias_exact ?rs1" "alias_categories (reindex rs) = alias_categories ?rs1"
    "type_by_name (reindex rs) = fold (\<lambda>(i, td) m. AList.update (td_name td) i m) (enumerate 0 (rule_types rs)) []"
    "enum_by_name (reindex rs) = fold (\<lambda>(i, e) m. AList.update (ed_key e) i m) (enumerate 0 (rule_enums rs)) []"
    "enum_values_lower (reindex rs) = map (\<lambda>e. set (map to_ascii_lowercase (ed_values e))) (rule_enums rs)"
    "enum_has_at (reindex rs) = map (\<lambda>e. list_ex starts_with_at (ed_values e)) (rule_enums rs)"
    "value_sets (reindex rs) = map (\<lambda>(k, vs). (k, set vs)) (rule_values rs)"
    "builtin_variable_bases (reindex rs) = (case map_of (rule_values rs) ''variable'' of
        None \<Rightarrow> {} | Some members \<Rightarrow> set (map (\<lambda>m. to_ascii_lowercase (variable_base m)) members))"
    using frame(2) by (simp_all add: derived_def decl)
  show "rule_enums (reindex rs) = rule_enums rs" "rule_values (reindex rs) = rule_values rs"
    "rule_aliases (reindex rs) = rule_aliases rs" "length (rule_types (reindex rs)) = length (rule_types rs)"
    "rule_single_aliases (reindex rs) = rule_single_aliases rs"
    "map ce_name (rule_complex_enums (reindex rs)) = map ce_name (rule_complex_enums rs)"
    using frame(1) by (simp_all add: declared_def decl)
qed

section \<open>Alias lookups\<close>

text \<open>The aliases a category and a key select: their name splits into that category and key, as
  written or lower-cased.\<close>

definition alias_hits :: "rstr \<Rightarrow> rstr \<Rightarrow> rstr \<Rightarrow> bool" where
  "alias_hits category key name \<longleftrightarrow>
     (case split_once (CHR '':'') name of
        None \<Rightarrow> False
      | Some (c, k) \<Rightarrow> (c, k) = (category, key) \<or> (to_ascii_lowercase c, to_ascii_lowercase k) = (category, key))"

definition exact_idxs :: "RuleSet \<Rightarrow> rstr \<Rightarrow> rstr \<Rightarrow> nat list" where
  "exact_idxs rs category key = get_or [] (get_or [] (alias_exact rs) category) key"

definition no_empty_entry :: "RuleSet \<Rightarrow> bool" where
  "no_empty_entry rs \<longleftrightarrow> (\<forall>c k. (\<exists>m. map_of (alias_exact rs) c = Some m \<and> map_of m k = Some []) \<longrightarrow> False)"

lemma exact_idxs_push:
  "exact_idxs (push_alias c k i rs) category key =
     exact_idxs rs category key @ (if (c, k) = (category, key) then [i] else [])"
  by (auto simp: exact_idxs_def push_alias_def)

lemma no_empty_push: "no_empty_entry rs \<Longrightarrow> no_empty_entry (push_alias c k i rs)"
  by (auto simp: no_empty_entry_def push_alias_def get_or_def simp del: map_of_eq_Some_iff
    split: if_splits option.splits)

lemma alias_exact_frame [simp]:
  "alias_exact (index_category cat key i rs) = alias_exact rs"
  "alias_exact (index_value_sets cat key rule rs) = alias_exact rs"
  "alias_exact (index_pretrigger cat key rs) = alias_exact rs"
  by (auto simp: index_category_def index_value_sets_def index_pretrigger_def Let_def split: option.split)

lemma index_alias_exact:
  "exact_idxs (index_alias (i, name, rule) rs) category key =
     exact_idxs rs category key @ (if alias_hits category key name then [i] else [])"
  "no_empty_entry rs \<Longrightarrow> no_empty_entry (index_alias (i, name, rule) rs)"
proof -
  have cong: "alias_exact a = alias_exact b \<Longrightarrow> exact_idxs a c k = exact_idxs b c k"
    "alias_exact a = alias_exact b \<Longrightarrow> no_empty_entry a = no_empty_entry b" for a b c k
    by (simp_all add: exact_idxs_def no_empty_entry_def)
  show "exact_idxs (index_alias (i, name, rule) rs) category key =
     exact_idxs rs category key @ (if alias_hits category key name then [i] else [])"
  proof (cases "split_once (CHR '':'') name")
    case None
    then show ?thesis by (simp add: index_alias_def alias_hits_def split: prod.split)
  next
    case (Some ck)
    obtain c k where ck: "ck = (c, k)" by force
    obtain rt opts where rule: "rule = (rt, opts)" by force
    let ?rs = "index_value_sets c k rt (index_pretrigger c k rs)"
    have "exact_idxs (index_alias (i, name, rule) rs) category key = exact_idxs (index_exact c k i ?rs) category key"
      using Some by (intro cong) (simp add: index_alias_def ck rule)
    also have "\<dots> = exact_idxs ?rs category key @ (if alias_hits category key name then [i] else [])"
      using Some by (auto simp: index_exact_def Let_def exact_idxs_push alias_hits_def ck)
    also have "exact_idxs ?rs category key = exact_idxs rs category key" by (intro cong) simp
    finally show ?thesis .
  qed
  show "no_empty_entry (index_alias (i, name, rule) rs)" if "no_empty_entry rs"
  proof (cases "split_once (CHR '':'') name")
    case None
    then show ?thesis using that by (simp add: index_alias_def split: prod.split)
  next
    case (Some ck)
    obtain c k where ck: "ck = (c, k)" by force
    obtain rt opts where rule: "rule = (rt, opts)" by force
    let ?rs = "index_value_sets c k rt (index_pretrigger c k rs)"
    have "no_empty_entry ?rs" using that cong(2) [of ?rs rs] by simp
    then have "no_empty_entry (index_exact c k i ?rs)"
      by (simp add: index_exact_def Let_def no_empty_push)
    moreover have "alias_exact (index_alias (i, name, rule) rs) = alias_exact (index_exact c k i ?rs)"
      using Some by (simp add: index_alias_def ck rule)
    ultimately show ?thesis using cong(2) by blast
  qed
qed

lemma fold_index_alias:
  "exact_idxs (fold index_alias xs rs) category key =
     exact_idxs rs category key @ map fst (filter (\<lambda>x. alias_hits category key (fst (snd x))) xs)"
  "no_empty_entry rs \<Longrightarrow> no_empty_entry (fold index_alias xs rs)"
proof -
  show "exact_idxs (fold index_alias xs rs) category key =
     exact_idxs rs category key @ map fst (filter (\<lambda>x. alias_hits category key (fst (snd x))) xs)"
  proof (induction xs arbitrary: rs)
    case (Cons x xs)
    then show ?case using index_alias_exact(1) [of "fst x" "fst (snd x)" "snd (snd x)"] by simp
  qed simp
  show "no_empty_entry rs \<Longrightarrow> no_empty_entry (fold index_alias xs rs)"
  proof (induction xs arbitrary: rs)
    case (Cons x xs)
    then show ?case using index_alias_exact(2) [of rs "fst x" "fst (snd x)" "snd (snd x)"] by simp
  qed simp
qed

lemma alias_exact_for_eq:
  "no_empty_entry rs \<Longrightarrow> alias_exact_for rs category key =
     (if exact_idxs rs category key = [] then None else Some (exact_idxs rs category key))"
  by (auto simp: alias_exact_for_def exact_idxs_def get_or_def no_empty_entry_def
    simp del: map_of_eq_Some_iff split: option.splits)

lemma filter_enumerate:
  "map fst (filter (\<lambda>x. P (snd x)) (enumerate 0 xs)) = filter (\<lambda>i. P (xs ! i)) [0..<length xs]"
proof -
  have "filter (\<lambda>x. P (snd x)) (enumerate 0 xs) = filter (\<lambda>x. P (xs ! fst x)) (enumerate 0 xs)"
    by (rule filter_cong) (auto simp: in_set_enumerate_eq)
  moreover have "map fst (filter ((\<lambda>i. P (xs ! i)) \<circ> fst) (enumerate 0 xs)) =
      filter (\<lambda>i. P (xs ! i)) (map fst (enumerate 0 xs))"
    by (simp only: filter_map)
  ultimately show ?thesis by (simp add: comp_def)
qed

lemma reindexed_aliases:
  "alias_exact_for (reindex rs) category key =
     (let is = filter (\<lambda>i. alias_hits category key (fst (rule_aliases rs ! i))) [0..<length (rule_aliases rs)]
      in if is = [] then None else Some is)"
proof -
  let ?rs0 = "rs\<lparr>alias_exact := [], alias_categories := [], pretriggers := [], value_set_effects := [],
    value_set_effect_fields := []\<rparr>"
  let ?rs1 = "fold index_alias (enumerate 0 (rule_aliases rs)) ?rs0"
  have "exact_idxs ?rs0 category key = []" "no_empty_entry ?rs0"
    by (simp_all add: exact_idxs_def no_empty_entry_def)
  then have "exact_idxs ?rs1 category key =
      filter (\<lambda>i. alias_hits category key (fst (rule_aliases rs ! i))) [0..<length (rule_aliases rs)]"
    "no_empty_entry ?rs1"
    using fold_index_alias [where rs = ?rs0 and xs = "enumerate 0 (rule_aliases rs)"]
      filter_enumerate [of "\<lambda>a. alias_hits category key (fst a)" "rule_aliases rs"] by simp_all
  moreover have "alias_exact_for (reindex rs) category key = alias_exact_for ?rs1 category key"
    by (simp add: alias_exact_for_def reindex_tables(1))
  ultimately show ?thesis by (simp add: alias_exact_for_eq Let_def)
qed

text \<open>C38. After \<open>reindex\<close>, the alias table yields for a category and a key exactly the indices of
  the aliases whose name splits into them, as written or lower-cased: all of them, each once,
  in declaration order; and no entry when there is none.\<close>

theorem alias_lookup_exact:
  "alias_exact_for (reindex rs) category key =
     (let is = filter (\<lambda>i. alias_hits category key (fst (rule_aliases rs ! i))) [0..<length (rule_aliases rs)]
      in if is = [] then None else Some is)"
  by (rule reindexed_aliases)

section \<open>Tables and scans\<close>

lemma lower_if_upper_eq: "lower_if_upper s = to_ascii_lowercase s"
  by (simp add: lower_if_upper_def to_ascii_lowercase_no_upper)

lemma lower_image_iff:
  "to_ascii_lowercase v \<in> (\<lambda>m. to_ascii_lowercase (f m)) ` A \<longleftrightarrow> (\<exists>m \<in> A. eq_ignore_ascii_case (f m) v)"
  unfolding eq_ignore_ascii_case_def image_iff by metis

text \<open>A lookup in a table that \<open>reindex\<close> built gives what the scan of the declarations gives:
  enum members and built-in variables by name with case ignored, value sets exactly, and the
  flag of scripted constants.\<close>

theorem index_agrees_with_scan:
  "enum_values_contains_ci (reindex rs) i v =
     (if i < length (rule_enums rs) then Some (\<exists>m \<in> set (ed_values (rule_enums rs ! i)). eq_ignore_ascii_case m v)
      else None) \<and>
   enum_has_at_constant (reindex rs) i =
     (if i < length (rule_enums rs) then Some (\<exists>m \<in> set (ed_values (rule_enums rs ! i)). starts_with_at m)
      else None) \<and>
   value_set_lookup (reindex rs) name v =
     (case map_of (rule_values rs) name of Some vs \<Rightarrow> if vs = [] then None else Some (v \<in> set vs) | None \<Rightarrow> None) \<and>
   is_builtin_variable_base (reindex rs) v =
     (case map_of (rule_values rs) ''variable'' of
        Some members \<Rightarrow> \<exists>m \<in> set members. eq_ignore_ascii_case (variable_base m) v
      | None \<Rightarrow> False)"
proof (intro conjI)
  show "enum_values_contains_ci (reindex rs) i v =
     (if i < length (rule_enums rs) then Some (\<exists>m \<in> set (ed_values (rule_enums rs ! i)). eq_ignore_ascii_case m v)
      else None)"
    using lower_image_iff [of v "\<lambda>m. m"]
    by (simp add: enum_values_contains_ci_def reindex_tables lower_if_upper_eq)
  show "enum_has_at_constant (reindex rs) i =
     (if i < length (rule_enums rs) then Some (\<exists>m \<in> set (ed_values (rule_enums rs ! i)). starts_with_at m)
      else None)"
    by (simp add: enum_has_at_constant_def reindex_tables list_ex_iff)
  have "map_of (value_sets (reindex rs)) name = map_option set (map_of (rule_values rs) name)"
    by (simp add: reindex_tables map_of_map)
  then show "value_set_lookup (reindex rs) name v =
      (case map_of (rule_values rs) name of Some vs \<Rightarrow> if vs = [] then None else Some (v \<in> set vs) | None \<Rightarrow> None)"
    by (auto simp: value_set_lookup_def reindex_tables split: option.split)
  show "is_builtin_variable_base (reindex rs) v =
     (case map_of (rule_values rs) ''variable'' of
        Some members \<Rightarrow> \<exists>m \<in> set members. eq_ignore_ascii_case (variable_base m) v
      | None \<Rightarrow> False)"
    using lower_image_iff [of v variable_base]
    by (simp add: is_builtin_variable_base_def reindex_tables list_ex_iff split: option.split)
qed

section \<open>The assertion on the tables\<close>

lemma length_name_table:
  "length (fold (\<lambda>(i, x) m. AList.update (f x) i m) xs m) = length m + card (f ` snd ` set xs - fst ` set m)"
proof (induction xs arbitrary: m)
  case (Cons p xs)
  obtain i x where p: "p = (i, x)" by force
  have keys: "fst ` set (AList.update (f x) i m) = insert (f x) (fst ` set m)" by (simp add: dom_update)
  have len: "length (AList.update (f x) i l) = (if f x \<in> fst ` set l then length l else length l + 1)" for l
    by (induction l) auto
  have "f ` snd ` set (p # xs) - fst ` set m =
      (f ` snd ` set xs - insert (f x) (fst ` set m)) \<union> ({f x} - fst ` set m)"
    by (auto simp: p)
  moreover have "card ((f ` snd ` set xs - insert (f x) (fst ` set m)) \<union> ({f x} - fst ` set m)) =
      card (f ` snd ` set xs - insert (f x) (fst ` set m)) + card ({f x} - fst ` set m)"
    by (intro card_Un_disjoint) auto
  moreover have "card ({f x} - fst ` set m) = (if f x \<in> fst ` set m then 0 else 1)"
    by (simp add: insert_Diff_if)
  ultimately show ?case
    using Cons.IH [of "AList.update (f x) i m"] by (simp add: p keys len)
qed simp

lemma length_enumerate_table:
  "length (fold (\<lambda>(i, x) m. AList.update (f x) i m) (enumerate 0 xs) []) = card (f ` set xs)"
proof -
  have "snd ` set (enumerate 0 xs) = set xs" by (metis enumerate_eq_zip length_upt map_snd_zip minus_nat.diff_0 plus_nat.add_0 set_map)
  then show ?thesis using length_name_table [of f "enumerate 0 xs" "[]"] by simp
qed

lemma exact_or_no_category:
  assumes "alias_exact rs = [] \<Longrightarrow> alias_categories rs = []"
  shows "alias_exact (fold index_alias xs rs) = [] \<Longrightarrow> alias_categories (fold index_alias xs rs) = []"
proof -
  have neq: "upd_entry d k f m \<noteq> []" for d k f and m :: "('a \<times> 'b) list"
    by (cases m) (auto simp: upd_entry_def split: prod.splits)
  have step: "alias_exact (index_alias x s) = [] \<Longrightarrow> alias_categories (index_alias x s) = []"
    if "alias_exact s = [] \<Longrightarrow> alias_categories s = []" for x s
    using that
    by (auto simp: index_alias_def index_exact_def push_alias_def neq Let_def split: prod.splits option.splits if_splits)
  show "alias_exact (fold index_alias xs rs) = [] \<Longrightarrow> alias_categories (fold index_alias xs rs) = []"
    using assms by (induction xs arbitrary: rs) (auto simp: step)
qed

text \<open>The assertion behind every table accessor holds after \<open>reindex\<close> exactly when no type name
  and no enum name is declared twice; a second declaration, from another configuration file
  for instance, makes the accessors fail although the tables have just been rebuilt.\<close>

theorem reindexed_assertion:
  "assert_reindexed (reindex rs) \<longleftrightarrow>
     distinct (map td_name (rule_types rs)) \<and> distinct (map ed_key (rule_enums rs))"
proof -
  let ?rs0 = "rs\<lparr>alias_exact := [], alias_categories := [], pretriggers := [], value_set_effects := [],
    value_set_effect_fields := []\<rparr>"
  have card: "length xs = card (f ` set xs) \<longleftrightarrow> distinct (map f xs)" for f :: "'a \<Rightarrow> 'b" and xs
    by (metis card_distinct distinct_card length_map list.set_map)
  have "alias_exact (fold index_alias xs ?rs0) = [] \<Longrightarrow> alias_categories (fold index_alias xs ?rs0) = []" for xs
    by (rule exact_or_no_category) simp
  then show ?thesis
    using card [of _ td_name] card [of _ ed_key]
    by (auto simp: assert_reindexed_def reindex_tables length_enumerate_table)
qed

section \<open>Alias patterns\<close>

lemma find_sub_split:
  assumes "find_sub needle s = Some i"
  shows "s = take i s @ needle @ drop (i + length needle) s" "i + length needle \<le> length s"
    "\<And>j. j < i \<Longrightarrow> \<not> starts_with (drop j s) needle"
proof -
  have *: "i \<le> length s" "take (length needle) (drop i s) = needle"
    "\<forall>j < i. \<not> starts_with (drop j s) needle"
    using find_sub_SomeD [OF assms] by (auto simp: starts_with_def)
  have len: "length needle \<le> length s - i" using arg_cong [OF *(2), of length] by simp
  then show "i + length needle \<le> length s" using *(1) by simp
  have "drop i s = needle @ drop (length needle) (drop i s)" using *(2) by (metis append_take_drop_id)
  then show "s = take i s @ needle @ drop (i + length needle) s"
    by (metis append_take_drop_id drop_drop add.commute)
  show "\<And>j. j < i \<Longrightarrow> \<not> starts_with (drop j s) needle" using *(3) by blast
qed

definition marker_at :: "rstr \<Rightarrow> rstr \<times> PatternKind \<Rightarrow> nat \<times> nat \<times> nat \<times> PatternKind \<Rightarrow> bool" where
  "marker_at rest mk r \<longleftrightarrow> (case r of (op, inner, close, kind) \<Rightarrow>
     find_sub (fst mk) rest = Some op \<and> inner = op + length (fst mk) \<and> kind = snd mk \<and>
     (\<exists>c. find_sub '']'' (drop inner rest) = Some c \<and> close = inner + c))"

lemma find_markers_some:
  assumes "find_markers rest ms found = Some (Some r)"
  shows "found = Some r \<or> (\<exists>mk \<in> set ms. marker_at rest mk r)"
    "\<And>r'. found = Some r' \<Longrightarrow> fst r \<le> fst r'"
    "\<And>mk o'. mk \<in> set ms \<Longrightarrow> find_sub (fst mk) rest = Some o' \<Longrightarrow> fst r \<le> o'"
proof -
  have "(found = Some r \<or> (\<exists>mk \<in> set ms. marker_at rest mk r)) \<and>
    (\<forall>r'. found = Some r' \<longrightarrow> fst r \<le> fst r') \<and>
    (\<forall>mk o'. mk \<in> set ms \<longrightarrow> find_sub (fst mk) rest = Some o' \<longrightarrow> fst r \<le> o')"
    using assms
  proof (induction rest ms found rule: find_markers.induct)
    case (1 rest found)
    then show ?case by simp
  next
    case (2 rest marker kind ms found)
    show ?case
    proof (cases "find_sub marker rest")
      case None
      then show ?thesis using 2 by auto
    next
      case (Some op)
      then obtain c where c: "find_sub '']'' (drop (op + length marker) rest) = Some c"
        using 2(3) by (auto simp: Let_def split: option.splits)
      let ?new = "(op, op + length marker, op + length marker + c, kind)"
      let ?found = "if (case found of None \<Rightarrow> True | Some (o', _) \<Rightarrow> op < o') then Some ?new else found"
      have run: "find_markers rest ms ?found = Some (Some r)"
        using 2(3) Some c by (simp add: Let_def)
      have "(?found = Some r \<or> (\<exists>mk \<in> set ms. marker_at rest mk r)) \<and>
        (\<forall>r'. ?found = Some r' \<longrightarrow> fst r \<le> fst r') \<and>
        (\<forall>mk o'. mk \<in> set ms \<longrightarrow> find_sub (fst mk) rest = Some o' \<longrightarrow> fst r \<le> o')"
        using 2(2) [OF Some refl c refl refl] run by simp
      moreover have "marker_at rest (marker, kind) ?new" using Some c by (simp add: marker_at_def)
      ultimately show ?thesis
        using Some by (auto split: option.splits if_splits)
    qed
  qed
  then show "found = Some r \<or> (\<exists>mk \<in> set ms. marker_at rest mk r)"
    "\<And>r'. found = Some r' \<Longrightarrow> fst r \<le> fst r'"
    "\<And>mk o'. mk \<in> set ms \<Longrightarrow> find_sub (fst mk) rest = Some o' \<Longrightarrow> fst r \<le> o'"
    by blast+
qed


text \<open>The bracket that opens a placeholder, and the byte that closes it.\<close>

definition opening_markers :: "PatternKind \<Rightarrow> rstr list" where
  "opening_markers k = (case k of PatType \<Rightarrow> [''<''] | PatEnum \<Rightarrow> [''complex_enum['', ''enum['']
     | PatValue \<Rightarrow> [''value_set['', ''value[''])"

definition closing_byte :: "PatternKind \<Rightarrow> char" where
  "closing_byte k = (if k = PatType then CHR ''>'' else CHR '']'')"

lemma find_sub_single_None: "find_sub [c] s = None \<longleftrightarrow> c \<notin> set s"
  by (induction "[c]" s rule: find_sub.induct) (auto simp: starts_with_def)

text \<open>A parsed alias pattern accounts for every byte of the alias name: the name is the prefix, an
opening bracket of the pattern's kind, the placeholder, the closing bracket and the suffix; the
placeholder does not itself contain a closing bracket; and no recognised bracket opens earlier in the
name, so the prefix is literal text. A pattern with \<open><\<close> is always a type pattern.\<close>

theorem alias_pattern_pieces:
  assumes "parse_alias_pattern rest idx = Some p"
  shows "pat_alias_idx p = idx \<and>
    (\<exists>opening \<in> set (opening_markers (pat_kind p)).
       rest = pat_prefix p @ opening @ pat_placeholder_name p @ closing_byte (pat_kind p) # pat_suffix p) \<and>
    closing_byte (pat_kind p) \<notin> set (pat_placeholder_name p) \<and>
    (if CHR ''<'' \<in> set rest then pat_kind p = PatType \<and> CHR ''<'' \<notin> set (pat_prefix p)
     else pat_kind p \<noteq> PatType \<and>
       list_all (\<lambda>mk. list_all (\<lambda>j. \<not> starts_with (drop j rest) (fst mk)) [0..<length (pat_prefix p)])
         pattern_markers)"
proof (cases "find_sub ''<'' rest")
  case (Some op)
  then obtain c where c: "find_sub ''>'' (drop op rest) = Some c"
    and p: "p = \<lparr>pat_alias_idx = idx, pat_prefix = take op rest, pat_suffix = drop (op + c + 1) rest,
       pat_kind = PatType, pat_placeholder_name = take (op + c - (op + 1)) (drop (op + 1) rest)\<rparr>"
    using assms by (auto simp: parse_alias_pattern_def Let_def split: option.splits)
  note o = find_sub_single [OF Some] and cl = find_sub_single [OF c]
  have "drop op rest = CHR ''<'' # drop (Suc op) rest" using o by blast
  moreover from this cl have "c \<noteq> 0" by (cases c) auto
  then obtain k where "c = Suc k" by (cases c) auto
  ultimately have pieces: "drop (Suc op) rest = take k (drop (Suc op) rest) @ CHR ''>'' # drop (op + c + 1) rest"
    "CHR ''>'' \<notin> set (take k (drop (Suc op) rest))"
    using cl by (auto simp: add.commute add.left_commute)
  have "rest = take op rest @ ''<'' @ take k (drop (Suc op) rest) @ CHR ''>'' # drop (op + c + 1) rest"
    using o pieces(1) by simp
  moreover have "CHR ''<'' \<in> set rest" using o by (metis in_set_conv_decomp)
  ultimately show ?thesis
    using o pieces(2) \<open>c = Suc k\<close> by (simp add: p opening_markers_def closing_byte_def)
next
  case None
  then have no: "CHR ''<'' \<notin> set rest" by (simp add: find_sub_single_None)
  obtain op inner close kind where f: "find_markers rest pattern_markers None = Some (Some (op, inner, close, kind))"
    and p: "p = \<lparr>pat_alias_idx = idx, pat_prefix = take op rest, pat_suffix = drop (close + 1) rest,
       pat_kind = kind, pat_placeholder_name = take (close - inner) (drop inner rest)\<rparr>"
    using assms None by (auto simp: parse_alias_pattern_def split: option.splits)
  obtain mk c where mk: "mk \<in> set pattern_markers" "find_sub (fst mk) rest = Some op"
    "inner = op + length (fst mk)" "kind = snd mk"
    "find_sub '']'' (drop inner rest) = Some c" "close = inner + c"
    using find_markers_some(1) [OF f] by (auto simp: marker_at_def)
  note o = find_sub_split [OF mk(2)] and cl = find_sub_single [OF mk(5)]
  have "drop inner rest = take c (drop inner rest) @ CHR '']'' # drop (Suc close) rest"
    using cl mk(6) by (metis add_Suc_right drop_drop add.commute)
  then have "rest = take op rest @ fst mk @ take c (drop inner rest) @ CHR '']'' # drop (close + 1) rest"
    using o(1) mk(3) by simp
  moreover have "fst mk \<in> set (opening_markers kind) \<and> kind \<noteq> PatType"
    using mk(1,4) by (auto simp: pattern_markers_def opening_markers_def)
  moreover have "list_all (\<lambda>m. list_all (\<lambda>j. \<not> starts_with (drop j rest) (fst m)) [0..<op]) pattern_markers"
    unfolding list_all_iff
  proof (intro ballI)
    fix m j assume m: "m \<in> set pattern_markers" and j: "j \<in> set [0..<op]"
    show "\<not> starts_with (drop j rest) (fst m)"
    proof (cases "find_sub (fst m) rest")
      case None
      then show ?thesis by (rule find_sub_NoneD)
    next
      case (Some o')
      then have "op \<le> o'" using find_markers_some(3) [OF f m Some] by simp
      then show ?thesis using find_sub_split(3) [OF Some] j by simp
    qed
  qed
  moreover have "op \<le> length rest" using o(2) by simp
  ultimately show ?thesis
    using no cl mk(6) by (auto simp: p closing_byte_def min_def)
qed

lemma alias_pattern_pieces_witness:
  "pat_alias_idx \<lparr>pat_alias_idx = 4, pat_prefix = ''add_'', pat_suffix = ''_x'', pat_kind = PatEnum,
     pat_placeholder_name = ''mods''\<rparr> = 4 \<and>
   parse_alias_pattern ''add_complex_enum[mods]_x'' 4 = Some \<lparr>pat_alias_idx = 4, pat_prefix = ''add_'',
     pat_suffix = ''_x'', pat_kind = PatEnum, pat_placeholder_name = ''mods''\<rparr>"
proof -
  have p: "parse_alias_pattern ''add_complex_enum[mods]_x'' 4 = Some \<lparr>pat_alias_idx = 4, pat_prefix = ''add_'',
     pat_suffix = ''_x'', pat_kind = PatEnum, pat_placeholder_name = ''mods''\<rparr>"
    by code_simp
  show ?thesis using alias_pattern_pieces [OF p] p by blast
qed

end
