(* ===== verification/Field_Parser.thy ===== *)
theory Field_Parser
  imports Rules_Types
begin

text \<open>
  The texts of fields in configuration files (\<open>crates/rules/src/rules_converter/field_parser.rs\<close>):
  keywords, bracket forms, ranges and type references, tried in the order of the code, with a
  literal as the last resort. The tables of keywords and bracket forms are the source's chains of
  comparisons, in the source's order.
\<close>

section \<open>Helpers\<close>

definition FLOAT_MAX :: f64 where "FLOAT_MAX = Finite False 1 12"
definition FLOAT_MIN :: f64 where "FLOAT_MIN = Finite True 1 12"
definition INT_MAX :: i32 where "INT_MAX = 2147483647"
definition INT_MIN :: i32 where "INT_MIN = - 2147483648"

definition strip_bracket :: "rstr \<Rightarrow> rstr \<Rightarrow> rstr option" where
  "strip_bracket trimmed pre =
     (case strip_prefix trimmed pre of
        None \<Rightarrow> None
      | Some body \<Rightarrow>
          (case strip_prefix body ''['' of None \<Rightarrow> None | Some inner \<Rightarrow> strip_suffix inner '']''))"

definition parse_int_sentinel :: "rstr \<Rightarrow> i32 option" where
  "parse_int_sentinel s =
     (if s = ''inf'' then Some INT_MAX else if s = ''-inf'' then Some INT_MIN else parse_i32 s)"

definition parse_float_sentinel :: "rstr \<Rightarrow> f64 option" where
  "parse_float_sentinel s =
     (if s = ''inf'' then Some FLOAT_MAX else if s = ''-inf'' then Some FLOAT_MIN else parse_f64 s)"

definition unwrap_or :: "'a option \<Rightarrow> 'a \<Rightarrow> 'a" where
  "unwrap_or x d = (case x of None \<Rightarrow> d | Some v \<Rightarrow> v)"

definition parse_float_range :: "rstr \<Rightarrow> f64 \<Rightarrow> f64 \<Rightarrow> f64 \<times> f64" where
  "parse_float_range inner default_min default_max =
     (case split_once_str ''..'' inner of
        None \<Rightarrow> (default_min, default_max)
      | Some (min_s, max_s) \<Rightarrow>
          (unwrap_or (parse_float_sentinel (trim min_s)) default_min,
           unwrap_or (parse_float_sentinel (trim max_s)) default_max))"

definition parse_int_range_as_float :: "rstr \<Rightarrow> f64 \<Rightarrow> f64 \<Rightarrow> f64 \<times> f64" where
  "parse_int_range_as_float inner default_min default_max =
     (case split_once_str ''..'' inner of
        None \<Rightarrow> (default_min, default_max)
      | Some (min_s, max_s) \<Rightarrow>
          (unwrap_or (map_option f64_of_i32 (parse_int_sentinel (trim min_s))) default_min,
           unwrap_or (map_option f64_of_i32 (parse_int_sentinel (trim max_s))) default_max))"

section \<open>The forms\<close>

definition simple_keywords :: "(rstr \<times> NewField) list" where
  "simple_keywords =
     [(''scalar'', ScalarField),
      (''math_expr'', ValueField VtMathExpr),
      (''bool'', ValueField VtBool),
      (''int'', ValueField (VtInt INT_MIN INT_MAX)),
      (''float'', ValueField (VtFloat FLOAT_MIN FLOAT_MAX)),
      (''percentage_field'', ValueField VtPercent),
      (''localisation'', LocalisationField False False),
      (''localisation_synced'', LocalisationField True False),
      (''localisation_inline'', LocalisationField False True),
      (''filepath'', FilepathField None None),
      (''date_field'', ValueField VtDate),
      (''datetime_field'', ValueField VtDateTime),
      (''scope_field'', ScopeField [''any'']),
      (''variable_field'', VariableField False False FLOAT_MIN FLOAT_MAX),
      (''int_variable_field'', VariableField True False (f64_of_i32 INT_MIN) (f64_of_i32 INT_MAX)),
      (''variable_field_32'', VariableField False True FLOAT_MIN FLOAT_MAX),
      (''int_variable_field_32'', VariableField True True (f64_of_i32 INT_MIN) (f64_of_i32 INT_MAX)),
      (''value_field'', ValueScopeMarkerField False FLOAT_MIN FLOAT_MAX),
      (''int_value_field'', ValueScopeMarkerField True (f64_of_i32 INT_MIN) (f64_of_i32 INT_MAX)),
      (''portrait_dna_field'', ValueField VtCk2Dna),
      (''portrait_properties_field'', ValueField VtCk2DnaProperty),
      (''ck2_dna_field'', ValueField VtCk2Dna),
      (''ck2_dna_property_field'', ValueField VtCk2DnaProperty),
      (''ir_family_name_field'', ValueField VtIrFamilyName),
      (''ir_country_tag_field'', MarkerField MkIrCountryTag),
      (''colour_field'', MarkerField MkColourField),
      (''color_field'', MarkerField MkColourField),
      (''ignore_field'', IgnoreMarkerField),
      (''stellaris_name_format'', ValueField (VtStlNameFormat [])),
      (''percent_field'', ValueField VtPercent)]"

definition parse_simple_keyword :: "rstr \<Rightarrow> NewField option" where
  "parse_simple_keyword trimmed = map_of simple_keywords trimmed"

definition parse_filepath_bracket :: "rstr \<Rightarrow> NewField option" where
  "parse_filepath_bracket trimmed =
     map_option (\<lambda>inner. case split_once (CHR '','') inner of
         Some (folder, ext) \<Rightarrow> FilepathField (Some folder) (Some ext)
       | None \<Rightarrow> FilepathField (Some inner) None) (strip_bracket trimmed ''filepath'')"

definition int_range :: "rstr \<Rightarrow> ValueType" where
  "int_range inner =
     (case split_once_str ''..'' inner of
        None \<Rightarrow> VtInt INT_MIN INT_MAX
      | Some (min_s, max_s) \<Rightarrow>
          (case (parse_int_sentinel (trim min_s), parse_int_sentinel (trim max_s)) of
             (Some mn, Some mx) \<Rightarrow> VtInt mn mx
           | _ \<Rightarrow> VtInt INT_MIN INT_MAX))"

definition float_range :: "rstr \<Rightarrow> ValueType" where
  "float_range inner =
     (case split_once_str ''..'' inner of
        None \<Rightarrow> VtFloat FLOAT_MIN FLOAT_MAX
      | Some (min_s, max_s) \<Rightarrow>
          (case (parse_float_sentinel (trim min_s), parse_float_sentinel (trim max_s)) of
             (Some mn, Some mx) \<Rightarrow> VtFloat mn mx
           | _ \<Rightarrow> VtFloat FLOAT_MIN FLOAT_MAX))"

definition parse_numeric_range :: "rstr \<Rightarrow> NewField option" where
  "parse_numeric_range trimmed =
     (case strip_bracket trimmed ''int'' of
        Some inner \<Rightarrow> Some (ValueField (int_range inner))
      | None \<Rightarrow>
          (case strip_bracket trimmed ''float'' of
             Some inner \<Rightarrow> Some (ValueField (float_range inner))
           | None \<Rightarrow> None))"

text \<open>The chains of \<open>if let Some(x) = strip_bracket(...) { return ... }\<close>.\<close>

fun first_bracket :: "rstr \<Rightarrow> (rstr \<times> (rstr \<Rightarrow> NewField)) list \<Rightarrow> NewField option" where
  "first_bracket trimmed [] = None"
| "first_bracket trimmed ((kw, mk) # forms) =
     (case strip_bracket trimmed kw of Some inner \<Rightarrow> Some (mk inner) | None \<Rightarrow> first_bracket trimmed forms)"

definition named_brackets :: "(rstr \<times> (rstr \<Rightarrow> NewField)) list" where
  "named_brackets =
     [(''enum'', \<lambda>name. ValueField (VtEnum name)),
      (''complex_enum'', \<lambda>name. ValueField (VtEnum name)),
      (''value'', VariableGetField),
      (''value_set'', VariableSetField)]"

definition parse_named_bracket :: "rstr \<Rightarrow> NewField option" where
  "parse_named_bracket trimmed = first_bracket trimmed named_brackets"

definition scope_alias_brackets :: "(rstr \<times> (rstr \<Rightarrow> NewField)) list" where
  "scope_alias_brackets =
     [(''scope'', \<lambda>scope. ScopeField [scope]),
      (''event_target'', \<lambda>scope. ScopeField [scope]),
      (''scope_group'', \<lambda>_. ScopeField [''any'']),
      (''alias_keys_field'', AliasValueKeysField),
      (''alias_name'', AliasField),
      (''alias_match_left'', AliasField),
      (''single_alias_right'', SingleAliasField)]"

definition parse_scope_alias_bracket :: "rstr \<Rightarrow> NewField option" where
  "parse_scope_alias_bracket trimmed = first_bracket trimmed scope_alias_brackets"

definition ranged_brackets :: "(rstr \<times> (rstr \<Rightarrow> NewField)) list" where
  "ranged_brackets =
        [(''variable_field'', \<lambda>inner. case parse_float_range inner FLOAT_MIN FLOAT_MAX
          of (mn, mx) \<Rightarrow> VariableField False False mn mx),
         (''int_variable_field'', \<lambda>inner. case parse_int_range_as_float inner (f64_of_i32 INT_MIN) (f64_of_i32 INT_MAX)
          of (mn, mx) \<Rightarrow> VariableField True False mn mx),
         (''variable_field_32'', \<lambda>inner. case parse_float_range inner FLOAT_MIN FLOAT_MAX
          of (mn, mx) \<Rightarrow> VariableField False True mn mx),
         (''int_variable_field_32'', \<lambda>inner. case parse_int_range_as_float inner (f64_of_i32 INT_MIN) (f64_of_i32 INT_MAX)
          of (mn, mx) \<Rightarrow> VariableField True True mn mx),
         (''value_field'', \<lambda>inner. case parse_float_range inner FLOAT_MIN FLOAT_MAX
          of (mn, mx) \<Rightarrow> ValueScopeMarkerField False mn mx),
         (''int_value_field'', \<lambda>inner. case parse_int_range_as_float inner (f64_of_i32 INT_MIN) (f64_of_i32 INT_MAX)
          of (mn, mx) \<Rightarrow> ValueScopeMarkerField True mn mx)]"

definition parse_variable_value_range :: "rstr \<Rightarrow> NewField option" where
  "parse_variable_value_range trimmed = first_bracket trimmed ranged_brackets"

definition misc_brackets :: "(rstr \<times> (rstr \<Rightarrow> NewField)) list" where
  "misc_brackets =
     [(''icon'', IconField),
      (''stellaris_name_format'', \<lambda>var. ValueField (VtStlNameFormat var)),
      (''colour'', \<lambda>_. MarkerField MkColourField)]"

definition parse_misc_bracket :: "rstr \<Rightarrow> NewField option" where
  "parse_misc_bracket trimmed = first_bracket trimmed misc_brackets"

definition complex_type :: "rstr \<Rightarrow> NewField option" where
  "complex_type trimmed =
     (if CHR ''<'' \<in> set trimmed \<and> CHR ''>'' \<in> set trimmed
      then (let s = trim_matches (CHR 0x22) trimmed
            in case (find_sub ''<'' s, find_sub ''>'' s) of
                 (Some pi, Some si) \<Rightarrow>
                   if pi < si
                   then Some (TypeField (TtComplex (take pi s) (take (si - (pi + 1)) (drop (pi + 1) s)) (drop (si + 1) s)))
                   else None
               | _ \<Rightarrow> None)
      else None)"

definition parse_type_form :: "rstr \<Rightarrow> NewField option" where
  "parse_type_form trimmed =
     (case (case strip_prefix trimmed ''<'' of
              None \<Rightarrow> None
            | Some t \<Rightarrow> (case strip_suffix t ''>'' of
                None \<Rightarrow> None
              | Some type_ref \<Rightarrow> if CHR '' '' \<in> set type_ref then None else Some type_ref)) of
        Some type_ref \<Rightarrow> Some (TypeField (TtSimple type_ref))
      | None \<Rightarrow> complex_type trimmed)"

definition field_text :: "rstr \<Rightarrow> rstr" where
  "field_text s = trim_matches (CHR 0x22) (trim s)"

definition field_from_string :: "rstr \<Rightarrow> NewField" where
  "field_from_string s =
     (let trimmed = field_text s
      in unwrap_or
           (or_else (parse_simple_keyword trimmed)
           (or_else (parse_filepath_bracket trimmed)
           (or_else (parse_numeric_range trimmed)
           (or_else (parse_named_bracket trimmed)
           (or_else (parse_scope_alias_bracket trimmed)
           (or_else (parse_variable_value_range trimmed)
           (or_else (parse_misc_bracket trimmed)
                    (parse_type_form trimmed))))))))
           (SpecificField trimmed))"

end
