(* ===== verification/Comment_Directives.thy ===== *)
theory Comment_Directives
  imports Field_Parser Ast
begin

text \<open>
  The comments before a rule (\<open>crates/rules/src/rules_converter/comment_directives.rs\<close>): lines that
  begin with exactly two hashes carry \<open>key = value\<close> options, lines with three are documentation. The
  options of a rule, the scopes it replaces and requires, and the check of malformed options.
\<close>

section \<open>Lines\<close>

text \<open>One balanced pair of surrounding double quotes (\<open>mod.rs\<close>).\<close>

definition strip_quotes :: "rstr \<Rightarrow> rstr" where
  "strip_quotes s =
     (if length s \<ge> 2 \<and> starts_with s [CHR 0x22] \<and> ends_with s [CHR 0x22]
      then butlast (tl s) else s)"

definition join_lines :: "rstr list \<Rightarrow> rstr" where
  "join_lines ls = join (CHR 0x0A) ls"

definition extract_description_from_comments :: "rstr list \<Rightarrow> rstr option" where
  "extract_description_from_comments cs =
     (let desc_lines = map (\<lambda>s. trim (dropWhile ((=) (CHR ''#'')) s)) (filter (\<lambda>s. starts_with s ''###'') cs)
      in case desc_lines of [] \<Rightarrow> None | [d] \<Rightarrow> Some d | _ \<Rightarrow> Some (join_lines desc_lines))"

definition directive_body :: "rstr \<Rightarrow> rstr option" where
  "directive_body c =
     (case strip_prefix c ''##'' of
        None \<Rightarrow> None
      | Some rest \<Rightarrow> if starts_with rest ''#'' then None else Some (trim_start rest))"

definition directive_bodies :: "rstr list \<Rightarrow> rstr list" where
  "directive_bodies cs = List.map_filter directive_body (rev cs)"

definition starts_with_whitespace :: "rstr \<Rightarrow> bool" where
  "starts_with_whitespace s = (case chars s of [] \<Rightarrow> False | c # _ \<Rightarrow> is_whitespace c)"

definition has_directive :: "rstr list \<Rightarrow> rstr \<Rightarrow> bool" where
  "has_directive cs key \<longleftrightarrow>
     list_ex (\<lambda>rest. case strip_prefix rest key of
         None \<Rightarrow> False
       | Some after \<Rightarrow> after = [] \<or> starts_with after ''='' \<or> starts_with_whitespace after)
       (directive_bodies cs)"

definition directive_value :: "rstr \<Rightarrow> rstr \<Rightarrow> rstr option" where
  "directive_value key rest =
     (case strip_prefix rest key of
        None \<Rightarrow> None
      | Some after \<Rightarrow>
          (case strip_prefix (trim_start after) ''='' of
             None \<Rightarrow> None
           | Some rhs \<Rightarrow> Some (strip_quotes (trim rhs))))"

definition find_directive :: "rstr list \<Rightarrow> rstr \<Rightarrow> rstr option" where
  "find_directive cs key = find_map (directive_value key) (directive_bodies cs)"

definition directive_entry :: "rstr \<Rightarrow> (rstr \<times> rstr) option" where
  "directive_entry rest =
     (case split_once (CHR ''='') rest of
        None \<Rightarrow> None
      | Some (key, rhs) \<Rightarrow> Some (trim_end key, strip_quotes (trim rhs)))"

definition collect_line :: "rstr \<Rightarrow> (rstr \<times> rstr) list \<Rightarrow> (rstr \<times> rstr) list" where
  "collect_line c m =
     (case directive_body c of
        None \<Rightarrow> m
      | Some rest \<Rightarrow> (case directive_entry rest of None \<Rightarrow> m | Some (k, v) \<Rightarrow> AList.update k v m))"

definition collect_directives :: "rstr list \<Rightarrow> (rstr \<times> rstr) list" where
  "collect_directives cs = fold collect_line cs []"

section \<open>Options\<close>

definition strip_tilde :: "rstr \<Rightarrow> rstr \<times> bool" where
  "strip_tilde min_s = (case strip_prefix min_s ''~'' of Some rest \<Rightarrow> (rest, False) | None \<Rightarrow> (min_s, True))"

definition parse_cardinality :: "rstr option \<Rightarrow> i32 \<times> i32 \<times> bool" where
  "parse_cardinality directive =
     (case directive of
        None \<Rightarrow> (1, 1, True)
      | Some spec \<Rightarrow>
          (case split_once_str ''..'' spec of
             None \<Rightarrow> (1, 1, True)
           | Some (min_s, max_s) \<Rightarrow>
               (let (digits, strict) = strip_tilde (trim min_s)
                in (unwrap_or (parse_i32 digits) 1,
                    (if trim max_s = ''inf'' then INT_MAX else unwrap_or (parse_i32 (trim max_s)) 1),
                    strict))))"

definition parse_severity :: "rstr \<Rightarrow> Severity option" where
  "parse_severity sev =
     (if sev = ''error'' then Some SevError
      else if sev = ''warning'' then Some SevWarning
      else if sev = ''info'' \<or> sev = ''information'' then Some SevInformation
      else if sev = ''hint'' then Some SevHint
      else None)"

definition parse_default_bool :: "rstr \<Rightarrow> bool option" where
  "parse_default_bool v =
     (let l = to_ascii_lowercase v
      in if l = ''yes'' \<or> l = ''true'' then Some True
         else if l = ''no'' \<or> l = ''false'' then Some False else None)"

definition non_empty :: "rstr option \<Rightarrow> rstr option" where
  "non_empty v = (case v of Some s \<Rightarrow> if s = [] then None else Some s | None \<Rightarrow> None)"

text \<open>
  The scopes a rule replaces: \<open>key = value\<close> triples among the blank-separated tokens. A token that is not
  followed by \<open>=\<close> is dropped, and a trailing \<open>key =\<close> ends the loop.
\<close>

definition set_level :: "rstr list \<Rightarrow> nat \<Rightarrow> rstr \<Rightarrow> rstr list" where
  "set_level xs i v = (xs @ replicate (Suc i - length xs) [])[i := v]"

definition apply_scope_token :: "rstr \<Rightarrow> rstr \<Rightarrow> ReplaceScopes \<Rightarrow> ReplaceScopes" where
  "apply_scope_token key v rs =
     (let k = to_ascii_lowercase key
      in if k = ''this'' then rs\<lparr>rs_this := Some v\<rparr>
         else if k = ''root'' then rs\<lparr>rs_root := Some v\<rparr>
         else if k = ''from'' then rs\<lparr>rs_froms := (if rs_froms rs = [] then [v] else (rs_froms rs)[0 := v])\<rparr>
         else if k = ''fromfrom'' then rs\<lparr>rs_froms := set_level (rs_froms rs) 1 v\<rparr>
         else if k = ''fromfromfrom'' then rs\<lparr>rs_froms := set_level (rs_froms rs) 2 v\<rparr>
         else if k = ''fromfromfromfrom'' then rs\<lparr>rs_froms := set_level (rs_froms rs) 3 v\<rparr>
         else if k = ''prev'' then rs\<lparr>rs_prevs := (if rs_prevs rs = [] then [v] else (rs_prevs rs)[0 := v])\<rparr>
         else if k = ''prevprev'' then rs\<lparr>rs_prevs := set_level (rs_prevs rs) 1 v\<rparr>
         else if k = ''prevprevprev'' then rs\<lparr>rs_prevs := set_level (rs_prevs rs) 2 v\<rparr>
         else if k = ''prevprevprevprev'' then rs\<lparr>rs_prevs := set_level (rs_prevs rs) 3 v\<rparr>
         else rs)"

fun scope_tokens :: "rstr list \<Rightarrow> ReplaceScopes \<Rightarrow> ReplaceScopes" where
  "scope_tokens [] rs = rs"
| "scope_tokens [key] rs = rs"
| "scope_tokens (key # sep # tokens) rs =
     (if sep \<noteq> ''='' then scope_tokens (sep # tokens) rs
      else (case tokens of
              [] \<Rightarrow> rs
            | v # rest \<Rightarrow> scope_tokens rest (apply_scope_token key (strip_quotes v) rs)))"

definition no_scopes :: ReplaceScopes where
  "no_scopes = \<lparr>rs_root = None, rs_this = None, rs_froms = [], rs_prevs = []\<rparr>"

definition scope_pairs :: "rstr \<Rightarrow> rstr option" where
  "scope_pairs rhs =
     (if starts_with rhs ''{''
      then map_option (\<lambda>close. take (close - 1) (drop 1 rhs)) (find_sub ''}'' rhs)
      else Some rhs)"

definition parse_replace_scopes_from_comments :: "rstr list \<Rightarrow> ReplaceScopes option" where
  "parse_replace_scopes_from_comments cs =
     (case or_else (find_directive cs ''replace_scopes'') (find_directive cs ''replace_scope'') of
        None \<Rightarrow> None
      | Some rhs \<Rightarrow>
          (case scope_pairs rhs of
             None \<Rightarrow> None
           | Some pairs \<Rightarrow>
               (let rs = scope_tokens (split_whitespace pairs) no_scopes
                in if rs = no_scopes then None else Some rs)))"

definition parse_required_scopes :: "rstr list \<Rightarrow> rstr list" where
  "parse_required_scopes cs =
     (case find_directive cs ''scope'' of
        None \<Rightarrow> []
      | Some rhs \<Rightarrow>
          (if starts_with rhs ''{'' \<and> ends_with rhs ''}''
           then map strip_quotes (split_whitespace (butlast (tl rhs)))
           else if rhs \<noteq> [] then [rhs] else []))"

definition options_from_comments :: "rstr list \<Rightarrow> bool \<Rightarrow> Options" where
  "options_from_comments cs is_comparison =
     (let directives = map_of (collect_directives cs);
          (mn, mx, strict) = parse_cardinality (directives ''cardinality'')
      in \<lparr>opt_min = mn, opt_max = mx, opt_strict_min = strict, opt_leafvalue = False,
          opt_description = extract_description_from_comments cs,
          opt_push_scope = non_empty (directives ''push_scope''),
          opt_replace_scopes = parse_replace_scopes_from_comments cs,
          opt_severity = Option.bind (directives ''severity'') parse_severity,
          opt_required_scopes = parse_required_scopes cs,
          opt_comparison = is_comparison,
          opt_reference_details =
            or_else (map_option RefOutgoing (directives ''outgoingReferenceLabel''))
                    (map_option RefIncoming (directives ''incomingReferenceLabel'')),
          opt_error_if_only_match = non_empty (directives ''error_if_only_match''),
          opt_default_bool = Option.bind (directives ''default_bool'') parse_default_bool\<rparr>)"

section \<open>The check of directives\<close>

definition cardinality_spec_is_malformed :: "rstr \<Rightarrow> bool" where
  "cardinality_spec_is_malformed spec \<longleftrightarrow>
     (case split_once_str ''..'' spec of
        None \<Rightarrow> False
      | Some (min_s, max_s) \<Rightarrow>
          (let mn = unwrap_or (strip_prefix (trim min_s) ''~'') (trim min_s); mx = trim max_s
           in parse_i32 mn = None \<or> mx \<noteq> ''inf'' \<and> parse_i32 mx = None))"

definition severity_value_is_unrecognized :: "rstr \<Rightarrow> bool" where
  "severity_value_is_unrecognized v \<longleftrightarrow> v \<notin> {''error'', ''warning'', ''info'', ''information'', ''hint''}"

record RuleParseError =
  rpe_file :: rstr
  rpe_line :: u32
  rpe_col :: u16
  rpe_code :: rstr
  rpe_severity :: Severity
  rpe_message :: rstr

definition directive_message :: "rstr \<Rightarrow> rstr option" where
  "directive_message line =
     (case Option.bind (directive_body (trim line)) directive_entry of
        None \<Rightarrow> None
      | Some (key, rhs) \<Rightarrow>
          (if key = ''cardinality'' \<and> cardinality_spec_is_malformed rhs
           then Some (''malformed `cardinality` bound `'' @ rhs @ ''`'')
           else if key = ''severity'' \<and> severity_value_is_unrecognized rhs
           then Some (''unrecognized `severity` value `'' @ rhs @ ''`'')
           else None))"

definition validate_comment_directives :: "ParsedFile \<Rightarrow> rstr \<Rightarrow> RuleParseError list" where
  "validate_comment_directives ast path =
     List.map_filter (\<lambda>c. map_option (\<lambda>message.
         \<lparr>rpe_file = path, rpe_line = pos_line (range_start (comment_pos c)),
          rpe_col = pos_col (range_start (comment_pos c)), rpe_code = ''CW603'', rpe_severity = SevWarning, rpe_message = message\<rparr>)
         (directive_message (comment_text c))) (comments (pf_arena ast))"

end
