(* ===== verification/Field_Properties.thy ===== *)
theory Field_Properties
  imports Field_Parser
begin

text \<open>
  What the field parser reads: every bracket form keeps its payload whole, integer ranges are read
  back as printed, and a text without brackets is a keyword, a type reference or a literal.
\<close>

section \<open>Bracket forms\<close>

lemma strip_bracket_form [simp]: "strip_bracket (kw @ ''['' @ n @ '']'') kw = Some n"
  using strip_prefix_append [of "''[''" "n @ '']''"] strip_suffix_append [of n "'']''"]
  by (simp add: strip_bracket_def)

text \<open>Two forms whose keywords are plain words are only confused when the keywords agree.\<close>

lemma strip_bracket_other:
  assumes "CHR ''['' \<notin> set kw" "CHR ''['' \<notin> set kw'" "kw \<noteq> kw'"
  shows "strip_bracket (kw @ CHR ''['' # n) kw' = None"
proof (cases "strip_prefix (kw @ CHR ''['' # n) kw'")
  case (Some body)
  then have eq: "kw @ CHR ''['' # n = kw' @ body"
    by (rule strip_prefix_SomeD)
  have "strip_prefix body ''['' = None"
  proof (rule ccontr)
    assume "strip_prefix body ''['' \<noteq> None"
    then obtain r where "body = CHR ''['' # r"
      by (cases body) (auto simp: strip_prefix_def starts_with_def split: if_splits)
    with eq have "split_once (CHR ''['') (kw @ CHR ''['' # n) = split_once (CHR ''['') (kw' @ CHR ''['' # r)"
      by simp
    then show False using assms by (simp add: split_once_append)
  qed
  then show ?thesis using Some by (simp add: strip_bracket_def)
qed (simp add: strip_bracket_def)

definition plain_word :: "rstr \<Rightarrow> bool" where
  "plain_word w \<longleftrightarrow> w \<noteq> [] \<and> list_all (\<lambda>b. is_lower_byte b \<or> is_digit_byte b \<or> b = CHR ''_'') w"

lemma plain_byte:
  assumes "is_lower_byte b \<or> is_digit_byte b \<or> b = CHR ''_''"
  shows "is_ascii_byte b \<and> \<not> is_whitespace [b] \<and> b \<noteq> CHR 0x22 \<and> b \<noteq> CHR ''['' \<and> b \<noteq> CHR ''<''"
  using assms
  by (auto simp: is_lower_byte_def is_digit_byte_def is_ascii_byte_def is_whitespace_def whitespace_chars_def)

lemma field_text_bracket:
  assumes "plain_word kw"
  shows "field_text (kw @ CHR ''['' # n @ '']'') = kw @ CHR ''['' # n @ '']''"
proof -
  obtain a t where kw: "kw = a # t" using assms by (cases kw) (auto simp: plain_word_def)
  let ?s = "kw @ CHR ''['' # n @ '']''"
  have a: "is_ascii_byte a" "\<not> is_whitespace [a]" "a \<noteq> CHR 0x22"
    using assms plain_byte [of a] by (auto simp: plain_word_def kw)
  have t: "\<not> is_cont (hd (t @ CHR ''['' # n @ '']''))"
  proof (cases t)
    case Nil then show ?thesis by (simp add: is_cont_def)
  next
    case (Cons b u)
    then have "is_ascii_byte b" using assms plain_byte [of b] by (auto simp: plain_word_def kw)
    then show ?thesis using Cons ascii_not_cont by simp
  qed
  have z: "is_ascii_byte (CHR '']'')" "\<not> is_whitespace '']''"
    by (simp_all add: is_ascii_byte_def is_whitespace_def whitespace_chars_def)
  have "trim ?s = ?s"
    by (rule trim_edges [of ?s a "t @ CHR ''['' # n @ '']''" "kw @ CHR ''['' # n" "CHR '']''"])
      (use a t z kw in simp_all)
  moreover have "trim_matches (CHR 0x22) ?s = ?s"
    by (rule trim_matches_edges [of ?s a "t @ CHR ''['' # n @ '']''" "kw @ CHR ''['' # n" "CHR '']''"])
      (use a kw in simp_all)
  ultimately show ?thesis by (simp add: field_text_def)
qed


lemma strip_bracket_plain:
  assumes "plain_word kw" "CHR ''['' \<notin> set kw'"
  shows "strip_bracket (kw @ CHR ''['' # n @ '']'') kw' = (if kw' = kw then Some n else None)"
proof -
  have "CHR ''['' \<notin> set kw" using assms(1) plain_byte by (auto simp: plain_word_def list_all_iff)
  then show ?thesis using strip_bracket_form [of kw n] strip_bracket_other [of kw kw' "n @ '']''"] assms(2) by auto
qed

lemma first_bracket_plain:
  assumes "plain_word kw" "list_all (\<lambda>(k, _). CHR ''['' \<notin> set k) forms"
  shows "first_bracket (kw @ CHR ''['' # n @ '']'') forms = map_option (\<lambda>mk. mk n) (map_of forms kw)"
  using assms(2) by (induction forms) (auto simp: strip_bracket_plain [OF assms(1)])

lemma keyword_no_bracket: "CHR ''['' \<in> set s \<Longrightarrow> parse_simple_keyword s = None"
proof -
  have "list_all (\<lambda>(k, _). CHR ''['' \<notin> set k) simple_keywords" by (simp add: simple_keywords_def)
  then show "CHR ''['' \<in> set s \<Longrightarrow> parse_simple_keyword s = None"
    by (auto simp: parse_simple_keyword_def map_of_eq_None_iff list_all_iff)
qed

definition filepath_field :: "rstr \<Rightarrow> NewField" where
  "filepath_field n = (case split_once (CHR '','') n of
      Some (folder, ext) \<Rightarrow> FilepathField (Some folder) (Some ext)
    | None \<Rightarrow> FilepathField (Some n) None)"

text \<open>All bracket forms in the order the parser tries them.\<close>

definition bracket_forms :: "(rstr \<times> (rstr \<Rightarrow> NewField)) list" where
  "bracket_forms =
     (''filepath'', filepath_field) # (''int'', \<lambda>n. ValueField (int_range n)) #
     (''float'', \<lambda>n. ValueField (float_range n)) #
     named_brackets @ scope_alias_brackets @ ranged_brackets @ misc_brackets"

lemmas bracket_lists = named_brackets_def scope_alias_brackets_def ranged_brackets_def misc_brackets_def

lemma bracket_keywords:
  "list_all (\<lambda>(k, _). CHR ''['' \<notin> set k) named_brackets"
  "list_all (\<lambda>(k, _). CHR ''['' \<notin> set k) scope_alias_brackets"
  "list_all (\<lambda>(k, _). CHR ''['' \<notin> set k) ranged_brackets"
  "list_all (\<lambda>(k, _). CHR ''['' \<notin> set k) misc_brackets"
  by (simp_all add: bracket_lists)

lemma map_of_append_or_else: "map_of (xs @ ys) k = or_else (map_of xs k) (map_of ys k)"
  by (simp add: or_else_def map_add_def)

lemma map_option_or_else: "map_option f (or_else a b) = or_else (map_option f a) (map_option f b)"
  by (simp add: or_else_def split: option.split)

lemma field_bracket:
  assumes "plain_word kw" "map_of bracket_forms kw = Some mk"
  shows "field_from_string (kw @ CHR ''['' # n @ '']'') = mk n"
proof -
  define s where "s = kw @ CHR ''['' # n @ '']''"
  define ap where "ap = map_option (\<lambda>mk :: rstr \<Rightarrow> NewField. mk n)"
  have key: "parse_simple_keyword s = None" by (rule keyword_no_bracket) (simp add: s_def)
  have fp: "parse_filepath_bracket s = ap (map_of [(''filepath'', filepath_field)] kw)"
    by (simp add: ap_def s_def parse_filepath_bracket_def strip_bracket_plain [OF assms(1)] filepath_field_def)
  have num: "parse_numeric_range s = ap (map_of [(''int'', \<lambda>n. ValueField (int_range n)),
      (''float'', \<lambda>n. ValueField (float_range n))] kw)"
    by (simp add: ap_def s_def parse_numeric_range_def strip_bracket_plain [OF assms(1)])
  note rest = first_bracket_plain [OF assms(1), of _ n, folded s_def ap_def]
  have whole: "field_text s = s" by (simp add: s_def field_text_bracket [OF assms(1)])
  have forms: "bracket_forms = [(''filepath'', filepath_field)] @
      [(''int'', \<lambda>n. ValueField (int_range n)), (''float'', \<lambda>n. ValueField (float_range n))] @
      named_brackets @ scope_alias_brackets @ ranged_brackets @ misc_brackets"
    by (simp add: bracket_forms_def)
  have "field_from_string s = unwrap_or (or_else (ap (map_of bracket_forms kw)) (parse_type_form s)) (SpecificField s)"
    unfolding field_from_string_def whole Let_def key fp num parse_named_bracket_def parse_scope_alias_bracket_def
      parse_variable_value_range_def parse_misc_bracket_def rest [OF bracket_keywords(1)]
      rest [OF bracket_keywords(2)] rest [OF bracket_keywords(3)] rest [OF bracket_keywords(4)]
      forms map_of_append_or_else ap_def map_option_or_else or_else_simps
    by (rule refl)
  also have "\<dots> = mk n" using assms(2) by (simp add: ap_def unwrap_or_def)
  finally show ?thesis by (simp add: s_def)
qed

lemma bracket_words: "list_all (\<lambda>(k, _). plain_word k) bracket_forms"
  by (simp add: bracket_forms_def bracket_lists plain_word_def is_lower_byte_def is_digit_byte_def)

lemma bracket_keys_distinct: "distinct (map fst bracket_forms)"
  by (simp add: bracket_forms_def bracket_lists)

text \<open>A bracket form keeps its payload: for every keyword of the format and every text between the
brackets (brackets, quotes and blanks included), the field is the one that keyword stands for, built
from exactly that text; no keyword is shadowed by another one that the parser tries earlier.\<close>

theorem bracket_payload_kept:
  "list_all (\<lambda>(kw, mk). field_from_string (kw @ ''['' @ n @ '']'') = mk n) bracket_forms"
  unfolding list_all_iff
proof (clarify)
  fix kw mk assume form: "(kw, mk) \<in> set bracket_forms"
  then have "map_of bracket_forms kw = Some mk" using bracket_keys_distinct by simp
  moreover have "plain_word kw" using form bracket_words by (auto simp: list_all_iff)
  ultimately show "field_from_string (kw @ ''['' @ n @ '']'') = mk n" using field_bracket by simp
qed

section \<open>Ranges\<close>

lemma find_sub_dots: "CHR ''.'' \<notin> set s \<Longrightarrow> find_sub ''..'' (s @ CHR ''.'' # CHR ''.'' # t) = Some (length s)"
  by (induction s) (auto simp: starts_with_def)

lemma split_dots:
  assumes "CHR ''.'' \<notin> set s"
  shows "split_once_str ''..'' (s @ ''..'' @ t) = Some (s, t)"
  using find_sub_dots [OF assms, of t] by (simp add: split_once_str_def)

definition is_int_byte :: "char \<Rightarrow> bool" where
  "is_int_byte b \<longleftrightarrow> is_digit_byte b \<or> b = CHR ''-''"

lemma show_int_bytes: "b \<in> set (show_int v) \<Longrightarrow> is_int_byte b"
  using show_nat_digit by (auto simp: show_int_def is_int_byte_def split: if_splits)

lemma show_int_neq_Nil: "show_int v \<noteq> []"
  by (simp add: show_int_def del: show_nat.simps)

lemma int_byte: "is_int_byte b \<Longrightarrow> is_ascii_byte b \<and> \<not> is_whitespace [b] \<and> b \<noteq> CHR ''.'' \<and> b \<noteq> CHR ''i''"
  by (auto simp: is_int_byte_def is_digit_byte_def is_ascii_byte_def is_whitespace_def whitespace_chars_def)

lemma trim_show_int: "trim (show_int v) = show_int v"
  by (rule trim_solid) (use show_int_bytes int_byte in \<open>auto simp: list_all_iff\<close>)

lemma sentinel_show_int: "parse_int_sentinel (show_int (sint w)) = Some w"
proof -
  have "CHR ''i'' \<notin> set (show_int (sint w))" using show_int_bytes int_byte by blast
  then have "show_int (sint w) \<noteq> ''inf''" "show_int (sint w) \<noteq> ''-inf''" by auto
  then show ?thesis by (simp add: parse_int_sentinel_def parse_i32_show)
qed

definition show_range :: "i32 \<Rightarrow> i32 \<Rightarrow> rstr" where
  "show_range a b = show_int (sint a) @ ''..'' @ show_int (sint b)"

lemma split_show_range: "split_once_str ''..'' (show_range a b) = Some (show_int (sint a), show_int (sint b))"
proof -
  have "CHR ''.'' \<notin> set (show_int (sint a))" using show_int_bytes int_byte by blast
  then show ?thesis unfolding show_range_def by (rule split_dots)
qed

lemma field_bracket_form:
  assumes "map_of bracket_forms kw = Some mk"
  shows "field_from_string (kw @ ''['' @ n @ '']'') = mk n"
proof -
  have "(kw, mk) \<in> set bracket_forms" using assms by (rule map_of_SomeD)
  then have "plain_word kw" using bracket_words by (auto simp: list_all_iff)
  then show ?thesis using field_bracket [OF _ assms] by simp
qed

text \<open>Integer ranges are read back exactly: a range printed with the decimal bounds of two 32-bit
integers, in any of the three integer forms, gives the field with those bounds, down to the least and
greatest integer; the words \<open>-inf\<close> and \<open>inf\<close> stand for these two, and a range with an unreadable bound
is the unbounded one.\<close>

theorem int_range_roundtrip:
  "field_from_string (''int'' @ ''['' @ show_range a b @ '']'') = ValueField (VtInt a b) \<and>
   field_from_string (''int_variable_field'' @ ''['' @ show_range a b @ '']'') =
     VariableField True False (f64_of_i32 a) (f64_of_i32 b) \<and>
   field_from_string (''int_value_field'' @ ''['' @ show_range a b @ '']'') =
     ValueScopeMarkerField True (f64_of_i32 a) (f64_of_i32 b) \<and>
   field_from_string ''int[-inf..inf]'' = field_from_string ''int'' \<and>
   field_from_string ''int[0..ten]'' = field_from_string ''int''"
proof -
  have fld: "field_from_string (kw @ ''['' @ n @ '']'') = mk n"
    if "map_of bracket_forms kw = Some mk" for kw mk n using field_bracket_form [OF that] .
  have range: "int_range (show_range a b) = VtInt a b"
    by (simp add: int_range_def split_show_range trim_show_int sentinel_show_int)
  have frange: "parse_int_range_as_float (show_range a b) lo hi = (f64_of_i32 a, f64_of_i32 b)" for lo hi
    by (simp add: parse_int_range_as_float_def split_show_range trim_show_int sentinel_show_int unwrap_or_def)
  have solid: "list_all (\<lambda>b. is_ascii_byte b \<and> \<not> is_whitespace [b]) ''-inf''"
    "list_all (\<lambda>b. is_ascii_byte b \<and> \<not> is_whitespace [b]) ''inf''"
    "list_all (\<lambda>b. is_ascii_byte b \<and> \<not> is_whitespace [b]) ''0''"
    "list_all (\<lambda>b. is_ascii_byte b \<and> \<not> is_whitespace [b]) ''ten''"
    "list_all (\<lambda>b. is_ascii_byte b \<and> \<not> is_whitespace [b]) ''int''"
    by (simp_all add: is_ascii_byte_def is_whitespace_def whitespace_chars_def)
  note trims = solid [THEN trim_solid]
  have "field_text ''int'' = ''int''"
    unfolding field_text_def trims
    by (rule trim_matches_edges [of _ "CHR ''i''" "''nt''" "''in''" "CHR ''t''"]) simp_all
  then have full: "field_from_string ''int'' = ValueField (VtInt INT_MIN INT_MAX)"
    by (simp add: field_from_string_def parse_simple_keyword_def simple_keywords_def unwrap_or_def)
  have "split_once_str ''..'' ''-inf..inf'' = Some (''-inf'', ''inf'')"
    "split_once_str ''..'' ''0..ten'' = Some (''0'', ''ten'')"
    by (simp_all add: split_once_str_def starts_with_def)
  moreover have "parse_int_sentinel ''-inf'' = Some INT_MIN" "parse_int_sentinel ''inf'' = Some INT_MAX"
    "parse_int_sentinel ''ten'' = None"
    by (simp_all add: parse_int_sentinel_def parse_i32_def signed_digits_def is_digit_byte_def)
  ultimately have "int_range ''-inf..inf'' = VtInt INT_MIN INT_MAX" "int_range ''0..ten'' = VtInt INT_MIN INT_MAX"
    by (simp_all add: int_range_def trims split: option.split)
  then have "field_from_string ''int[-inf..inf]'' = field_from_string ''int''"
    "field_from_string ''int[0..ten]'' = field_from_string ''int''"
    using fld [of "''int''" "\<lambda>n. ValueField (int_range n)" "''-inf..inf''"]
      fld [of "''int''" "\<lambda>n. ValueField (int_range n)" "''0..ten''"] full
    by (simp_all add: bracket_forms_def)
  moreover have "field_from_string (''int'' @ ''['' @ show_range a b @ '']'') = ValueField (VtInt a b)"
    by (subst fld [of "''int''" "\<lambda>n. ValueField (int_range n)"]) (simp_all add: bracket_forms_def range)
  moreover have "field_from_string (''int_variable_field'' @ ''['' @ show_range a b @ '']'') =
     VariableField True False (f64_of_i32 a) (f64_of_i32 b)"
    using fld [of "''int_variable_field''" "\<lambda>inner. case parse_int_range_as_float inner (f64_of_i32 INT_MIN) (f64_of_i32 INT_MAX)
      of (mn, mx) \<Rightarrow> VariableField True False mn mx" "show_range a b"]
    by (simp add: bracket_forms_def bracket_lists frange)
  moreover have "field_from_string (''int_value_field'' @ ''['' @ show_range a b @ '']'') =
     ValueScopeMarkerField True (f64_of_i32 a) (f64_of_i32 b)"
    using fld [of "''int_value_field''" "\<lambda>inner. case parse_int_range_as_float inner (f64_of_i32 INT_MIN) (f64_of_i32 INT_MAX)
      of (mn, mx) \<Rightarrow> ValueScopeMarkerField True mn mx" "show_range a b"]
    by (simp add: bracket_forms_def bracket_lists frange)
  ultimately show ?thesis by blast
qed

section \<open>Type references and literals\<close>

lemma strip_bracket_needs: "CHR ''['' \<notin> set s \<Longrightarrow> strip_bracket s kw = None"
proof -
  have "strip_prefix body ''['' = None" if "strip_prefix s kw = Some body" "CHR ''['' \<notin> set s" for body
    using strip_prefix_SomeD [OF that(1)] that(2) strip_prefix_SomeD [of body "''[''"]
    by (cases "strip_prefix body ''[''") auto
  then show "CHR ''['' \<notin> set s \<Longrightarrow> strip_bracket s kw = None"
    by (simp add: strip_bracket_def split: option.split)
qed

lemma first_bracket_needs: "CHR ''['' \<notin> set s \<Longrightarrow> first_bracket s forms = None"
  by (induction s forms rule: first_bracket.induct) (auto simp: strip_bracket_needs)

lemma field_no_bracket:
  assumes "CHR ''['' \<notin> set (field_text s)"
  shows "field_from_string s = unwrap_or (or_else (parse_simple_keyword (field_text s))
    (parse_type_form (field_text s))) (SpecificField (field_text s))"
  using first_bracket_needs [OF assms] strip_bracket_needs [OF assms]
  by (simp add: field_from_string_def Let_def parse_filepath_bracket_def parse_numeric_range_def
      parse_named_bracket_def parse_scope_alias_bracket_def parse_variable_value_range_def parse_misc_bracket_def)

lemma type_form_cases:
  assumes "parse_type_form t = Some g"
  shows "(\<exists>n. g = TypeField (TtSimple n) \<and> t = ''<'' @ n @ ''>'' \<and> CHR '' '' \<notin> set n) \<or> complex_type t = Some g"
  using assms strip_prefix_SomeD [of t "''<''"] strip_suffix_SomeD [of _ "''>''"]
  by (fastforce simp: parse_type_form_def split: option.splits if_splits)

lemma trimmed_field_text: "trim_matches (CHR 0x22) (field_text s) = field_text s"
proof -
  have idem: "dropWhile P (rev (dropWhile P (rev (dropWhile P xs)))) = rev (dropWhile P (rev (dropWhile P xs)))"
    for P :: "char \<Rightarrow> bool" and xs
  proof -
    let ?ys = "dropWhile P xs"
    have "\<exists>zs. ?ys = rev (dropWhile P (rev ?ys)) @ zs"
      by (metis rev_append rev_rev_ident takeWhile_dropWhile_id)
    then have "rev (dropWhile P (rev ?ys)) = [] \<or> hd (rev (dropWhile P (rev ?ys))) = hd ?ys \<and> ?ys \<noteq> []"
      by (metis hd_append2 append_is_Nil_conv)
    then show ?thesis by (metis dropWhile.simps(1) dropWhile_eq_self_iff hd_dropWhile)
  qed
  show ?thesis by (simp add: field_text_def trim_matches_def idem dropWhile_idem)
qed

lemma complex_type_pieces:
  assumes "complex_type t = Some g" "trim_matches (CHR 0x22) t = t"
  shows "\<exists>p n q. g = TypeField (TtComplex p n q) \<and> t = p @ ''<'' @ n @ ''>'' @ q \<and>
    CHR ''<'' \<notin> set p \<and> CHR ''>'' \<notin> set p \<and> CHR ''>'' \<notin> set n"
proof -
  obtain i j where ij: "find_sub ''<'' t = Some i" "find_sub ''>'' t = Some j" "i < j"
    and g: "g = TypeField (TtComplex (take i t) (take (j - (i + 1)) (drop (i + 1) t)) (drop (j + 1) t))"
    using assms by (auto simp: complex_type_def Let_def split: if_splits option.splits)
  note a = find_sub_single [OF ij(1)] and b = find_sub_single [OF ij(2)]
  have "take j t = take i t @ CHR ''<'' # take (j - (i + 1)) (drop (i + 1) t)"
  proof -
    have "take j t = take i t @ take (j - i) (drop i t)" using ij(3) take_add [of i "j - i" t] by simp
    also have "take (j - i) (drop i t) = CHR ''<'' # take (j - (i + 1)) (drop (i + 1) t)"
    proof -
      have "j - i = Suc (j - (i + 1))" using ij(3) by simp
      then show ?thesis using a by simp
    qed
    finally show ?thesis .
  qed
  then show ?thesis using a b g by (intro exI [of _ "take i t"] exI [of _ "take (j - (i + 1)) (drop (i + 1) t)"]
      exI [of _ "drop (j + 1) t"]) auto
qed

text \<open>A text without brackets is a keyword, a type reference or itself: it is the field of the
keyword it spells; otherwise, when it holds an opening angle bracket followed by a closing one, it is
the reference to the type named between the first of each, with the text before and after as prefix
and suffix (none of it lost); and without an opening angle bracket it is a literal, after removing the
blanks and then the quotes around it.\<close>

theorem field_without_brackets:
  assumes "CHR ''['' \<notin> set (field_text s)"
  shows "(case map_of simple_keywords (field_text s) of
      Some f \<Rightarrow> field_from_string s = f
    | None \<Rightarrow> (case field_from_string s of
          SpecificField t \<Rightarrow> t = field_text s
        | TypeField (TtSimple n) \<Rightarrow> field_text s = ''<'' @ n @ ''>'' \<and> CHR '' '' \<notin> set n
        | TypeField (TtComplex p n q) \<Rightarrow> field_text s = p @ ''<'' @ n @ ''>'' @ q \<and>
            CHR ''<'' \<notin> set p \<and> CHR ''>'' \<notin> set p \<and> CHR ''>'' \<notin> set n
        | _ \<Rightarrow> False) \<and>
      (CHR ''<'' \<in> set (field_text s) \<or> field_from_string s = SpecificField (field_text s)))"
proof (cases "map_of simple_keywords (field_text s)")
  case (Some f)
  then show ?thesis using field_no_bracket [OF assms] by (simp add: parse_simple_keyword_def unwrap_or_def)
next
  case None
  define t where "t = field_text s"
  have f: "field_from_string s = unwrap_or (parse_type_form t) (SpecificField t)"
    using field_no_bracket [OF assms] None by (simp add: parse_simple_keyword_def t_def)
  show ?thesis
  proof (cases "parse_type_form t")
    case no: None
    then show ?thesis using None f by (simp add: unwrap_or_def t_def)
  next
    case (Some g)
    consider (simple) n where "g = TypeField (TtSimple n)" "t = ''<'' @ n @ ''>''" "CHR '' '' \<notin> set n"
      | (complex) "complex_type t = Some g"
      using Some type_form_cases by blast
    then show ?thesis
    proof cases
      case simple
      then show ?thesis using None f Some by (simp add: unwrap_or_def t_def)
    next
      case complex
      then obtain p n q where "g = TypeField (TtComplex p n q)" "t = p @ ''<'' @ n @ ''>'' @ q"
        "CHR ''<'' \<notin> set p" "CHR ''>'' \<notin> set p" "CHR ''>'' \<notin> set n"
        using complex_type_pieces [OF complex] trimmed_field_text [of s] by (auto simp: t_def)
      then show ?thesis using None f Some by (simp add: unwrap_or_def t_def)
    qed
  qed
qed

lemma field_without_brackets_witness:
  "field_text ''add_<tech>_x'' = ''add_<tech>_x'' \<and>
   field_from_string ''add_<tech>_x'' = TypeField (TtComplex ''add_'' ''tech'' ''_x'') \<and>
   (case field_from_string ''add_<tech>_x'' of
      TypeField (TtComplex p n q) \<Rightarrow> field_text ''add_<tech>_x'' = p @ ''<'' @ n @ ''>'' @ q | _ \<Rightarrow> False)"
proof -
  have "trim ''add_<tech>_x'' = ''add_<tech>_x''"
    by (rule trim_solid) (simp add: is_ascii_byte_def is_whitespace_def whitespace_chars_def)
  then have t: "field_text ''add_<tech>_x'' = ''add_<tech>_x''"
    by (simp add: field_text_def trim_matches_def)
  then have n: "CHR ''['' \<notin> set (field_text ''add_<tech>_x'')" by simp
  have "map_of simple_keywords ''add_<tech>_x'' = None" by (simp add: simple_keywords_def)
  moreover have "field_from_string ''add_<tech>_x'' = TypeField (TtComplex ''add_'' ''tech'' ''_x'')"
    using field_no_bracket [OF n] calculation
    by (simp add: t parse_simple_keyword_def parse_type_form_def strip_prefix_def starts_with_def complex_type_def
        trim_matches_def unwrap_or_def)
  ultimately show ?thesis using field_without_brackets [OF n] t by simp
qed

end
