(* ===== verification/Directive_Properties.thy ===== *)
theory Directive_Properties
  imports Comment_Directives Field_Properties
begin

text \<open>
  What the comment directives say: the table of options answers as the scan of the comments, and
  cardinalities and replaced scopes are read back as they are written.
\<close>

section \<open>Blanks\<close>

definition blank :: "rstr \<Rightarrow> bool" where
  "blank w \<longleftrightarrow> list_all is_whitespace (chars w)"

lemma whitespace_hd: "is_whitespace c \<Longrightarrow> c \<noteq> [] \<and> \<not> is_cont (hd c) \<and> CHR ''='' \<notin> set c"
proof -
  have "list_all (\<lambda>c. c \<noteq> [] \<and> \<not> is_cont (hd c) \<and> CHR ''='' \<notin> set c) whitespace_chars"
    by (simp add: whitespace_chars_def is_cont_def)
  then show "is_whitespace c \<Longrightarrow> c \<noteq> [] \<and> \<not> is_cont (hd c) \<and> CHR ''='' \<notin> set c"
    by (simp add: is_whitespace_def list_all_iff)
qed

lemma blank_Nil [simp]: "blank []"
  by (simp add: blank_def)

lemma blank_hd: "blank w \<Longrightarrow> w = [] \<or> \<not> is_cont (hd w)"
  using whitespace_hd [of "hd (chars w)"] by (cases w) (auto simp: blank_def)

lemma blank_no_eq: "blank w \<Longrightarrow> CHR ''='' \<notin> set w"
proof -
  assume "blank w"
  then have "CHR ''='' \<notin> set (concat (chars w))"
    using whitespace_hd by (auto simp: blank_def list_all_iff simp del: concat_chars)
  then show ?thesis by simp
qed

lemma trim_start_split: "\<exists>w. s = w @ trim_start s \<and> blank w"
proof -
  let ?n = "length (takeWhile is_whitespace (chars s))"
  have "s = concat (takeWhile is_whitespace (chars s)) @ trim_start s"
    unfolding trim_start_def concat_append [symmetric] by simp
  moreover have "chars (concat (take ?n (chars s))) = take ?n (chars s)" using chars_take_drop by blast
  then have "blank (concat (takeWhile is_whitespace (chars s)))"
    by (simp add: blank_def takeWhile_eq_take [symmetric] list_all_iff) (meson set_takeWhileD)
  ultimately show ?thesis by blast
qed

lemma trim_end_split: "\<exists>w. s = trim_end s @ w \<and> blank w"
proof -
  let ?cs = "chars s" let ?w = "rev (takeWhile is_whitespace (rev ?cs))"
  have split: "?cs = rev (dropWhile is_whitespace (rev ?cs)) @ ?w"
    by (metis rev_append rev_rev_ident takeWhile_dropWhile_id)
  then have "s = trim_end s @ concat ?w"
    unfolding trim_end_def concat_append [symmetric] by (metis concat_chars)
  moreover have "?w = drop (length (rev (dropWhile is_whitespace (rev ?cs)))) ?cs"
    by (metis split append_eq_conv_conj)
  then have "chars (concat ?w) = ?w" using chars_take_drop by metis
  then have "blank (concat ?w)"
    by (simp add: blank_def list_all_iff) (meson set_takeWhileD)
  ultimately show ?thesis by blast
qed

lemma trim_end_blank: "blank w \<Longrightarrow> trim_end (k @ w) = trim_end k"
proof -
  assume w: "blank w"
  have "dropWhile is_whitespace (rev (chars w) @ rev (chars k)) = dropWhile is_whitespace (rev (chars k))"
    using w by (intro dropWhile_append2) (auto simp: blank_def list_all_iff)
  then show ?thesis using chars_append [OF blank_hd [OF w], of k] by (simp add: trim_end_def)
qed

lemma trim_start_blank_eq: "blank w \<Longrightarrow> trim_start (w @ CHR ''='' # rhs) = CHR ''='' # rhs"
proof -
  assume w: "blank w"
  have "chars (w @ CHR ''='' # rhs) = chars w @ chars (CHR ''='' # rhs)"
    by (rule chars_append) (simp add: is_cont_def)
  moreover have "\<not> is_whitespace (CHR ''='' # takeWhile is_cont rhs)"
    using whitespace_hd [of "CHR ''='' # takeWhile is_cont rhs"] by auto
  ultimately show ?thesis
    using w by (simp add: trim_start_def blank_def list_all_iff dropWhile_append2)
qed

section \<open>The table of directives\<close>

lemma split_once_SomeD: "split_once d s = Some (a, b) \<Longrightarrow> s = a @ d # b \<and> d \<notin> set a"
  by (induction s arbitrary: a b) (auto split: if_splits)

lemma split_once_NoneD: "split_once d s = None \<Longrightarrow> d \<notin> set s"
  by (induction s) (auto split: if_splits)

lemma directive_value_entry:
  assumes key: "CHR ''='' \<notin> set key" "trim_end key = key"
  shows "directive_value key rest =
    (case directive_entry rest of Some (k, v) \<Rightarrow> if k = key then Some v else None | None \<Rightarrow> None)"
proof -
  have 1: "directive_entry rest = Some (key, v)" if val: "directive_value key rest = Some v" for v
  proof -
    obtain after rhs where a: "strip_prefix rest key = Some after" "strip_prefix (trim_start after) ''='' = Some rhs"
      "v = strip_quotes (trim rhs)"
      using val by (auto simp: directive_value_def split: option.splits)
    obtain w where w: "after = w @ trim_start after" "blank w" using trim_start_split by blast
    have "rest = (key @ w) @ CHR ''='' # rhs"
      using strip_prefix_SomeD [OF a(1)] strip_prefix_SomeD [OF a(2)] w(1) by simp
    moreover have "CHR ''='' \<notin> set (key @ w)" using key(1) blank_no_eq [OF w(2)] by simp
    ultimately have "split_once (CHR ''='') rest = Some (key @ w, rhs)"
      using split_once_append [of "CHR ''=''" "key @ w" rhs] by simp
    then show ?thesis by (simp add: directive_entry_def trim_end_blank [OF w(2)] key(2) a(3))
  qed
  have 2: "directive_value key rest = Some v" if ent: "directive_entry rest = Some (key, v)" for v
  proof -
    obtain k rhs where k: "split_once (CHR ''='') rest = Some (k, rhs)" "key = trim_end k" "v = strip_quotes (trim rhs)"
      using ent by (auto simp: directive_entry_def split: option.splits)
    obtain w where w: "k = trim_end k @ w" "blank w" using trim_end_split by blast
    have "rest = key @ w @ CHR ''='' # rhs" using split_once_SomeD [OF k(1)] k(2) w(1) by simp
    then show ?thesis
      using trim_start_blank_eq [OF w(2)] strip_prefix_append [of "''=''" rhs] by (simp add: directive_value_def k(3))
  qed
  show ?thesis
    using 1 2 by (cases "directive_value key rest"; cases "directive_entry rest") (auto split: prod.splits if_splits)
qed

text \<open>C36. The table of options that is collected once per rule answers every lookup as the scan of the
comments does: for every option name (a text without an equals sign that does not end in blanks) the
value found in the table is that of the last line with exactly two hashes that sets it, with the blanks
and one pair of quotes around it removed, whatever the blanks around the equals sign.\<close>

theorem directive_table_agrees:
  assumes "CHR ''='' \<notin> set key" "trim_end key = key"
  shows "map_of (collect_directives cs) key = find_directive cs key"
proof (induction cs rule: rev_induct)
  case Nil
  then show ?case by (simp add: collect_directives_def find_directive_def directive_bodies_def map_filter_simps)
next
  case (snoc c cs)
  have "find_directive (cs @ [c]) key = (case directive_body c of
      None \<Rightarrow> find_directive cs key
    | Some rest \<Rightarrow> (case directive_value key rest of Some v \<Rightarrow> Some v | None \<Rightarrow> find_directive cs key))"
    by (simp add: find_directive_def directive_bodies_def map_filter_simps split: option.split)
  then show ?case
    using snoc
    by (auto simp: collect_directives_def collect_line_def directive_value_entry [OF assms] split: option.splits prod.splits if_splits)
qed



lemma directive_table_agrees_witness:
  "find_directive [''## severity=  hint'', ''## push_scope = \"planet\"'', ''## severity = warning''] ''severity'' = Some ''warning'' \<and>
   map_of (collect_directives [''## severity=  hint'', ''## push_scope = \"planet\"'', ''## severity = warning'']) ''severity'' =
     Some ''warning''"
proof -
  have k: "CHR ''='' \<notin> set ''severity''" "trim_end ''severity'' = ''severity''" by code_simp+
  have "find_directive [''## severity=  hint'', ''## push_scope = \"planet\"'', ''## severity = warning''] ''severity'' = Some ''warning''"
    by code_simp
  then show ?thesis using directive_table_agrees [OF k] by simp
qed

section \<open>Directives written out\<close>

text \<open>A directive line that comes last wins.\<close>

lemma find_directive_last:
  assumes "directive_body c = Some rest" "directive_value key rest = Some v"
  shows "find_directive (cs @ [c]) key = Some v"
  using assms by (simp add: find_directive_def directive_bodies_def map_filter_simps)

lemma trim_start_blank_hd:
  assumes "\<not> is_cont (hd s)" "\<not> is_whitespace (hd (chars s))" "s \<noteq> []"
  shows "trim_start (CHR '' '' # s) = s"
proof -
  have "chars (CHR '' '' # s) = '' '' # chars s"
    using chars_append [of s "'' ''"] assms(1) by simp
  moreover have "chars s = hd (chars s) # tl (chars s)" using assms(3) by simp
  then have "dropWhile is_whitespace (chars s) = chars s" using assms(2) by (metis dropWhile.simps(2))
  moreover have "is_whitespace '' ''" by (simp add: is_whitespace_def whitespace_chars_def)
  ultimately show ?thesis by (simp add: trim_start_def)
qed

lemma hd_chars_ascii: "is_ascii_byte b \<Longrightarrow> \<not> is_cont (hd s) \<or> s = [] \<Longrightarrow> hd (chars (b # s)) = [b]"
  by (cases s) auto

definition solid :: "rstr \<Rightarrow> bool" where
  "solid s \<longleftrightarrow> s \<noteq> [] \<and> list_all (\<lambda>b. is_ascii_byte b \<and> \<not> is_whitespace [b] \<and> b \<noteq> CHR 0x22) s"

lemma solid_trim: "solid s \<Longrightarrow> trim s = s"
  by (rule trim_solid) (auto simp: solid_def list_all_iff)

lemma solid_edges:
  assumes "solid s"
  shows "\<not> is_cont (hd s)" "\<not> is_whitespace (hd (chars s))" "s \<noteq> []"
proof -
  obtain b t where s: "s = b # t" using assms by (cases s) (auto simp: solid_def)
  have b: "is_ascii_byte b" "\<not> is_whitespace [b]" using assms by (simp_all add: s solid_def)
  have "\<not> is_cont (hd t) \<or> t = []" using assms ascii_not_cont by (cases t) (auto simp: s solid_def)
  then show "\<not> is_whitespace (hd (chars s))" using hd_chars_ascii [OF b(1)] b(2) s by simp
  show "\<not> is_cont (hd s)" "s \<noteq> []" using b ascii_not_cont s by auto
qed

lemma solid_trim_blank: "solid s \<Longrightarrow> trim (CHR '' '' # s) = s"
  using trim_start_blank_hd [OF solid_edges] solid_trim [of s] trim_start_split
proof -
  assume s: "solid s"
  have "trim_start (CHR '' '' # s) = s" by (rule trim_start_blank_hd [OF solid_edges [OF s]])
  moreover have "trim_start s = s" "trim_end s = s"
  proof -
    have "dropWhile is_whitespace (chars s) = chars s"
      using solid_edges [OF s] by (metis chars_eq_Nil dropWhile.simps(2) list.collapse)
    then show "trim_start s = s" by (simp add: trim_start_def)
    then show "trim_end s = s" using solid_trim [OF s] by (simp add: trim_def)
  qed
  ultimately show ?thesis by (simp add: trim_def)
qed

lemma solid_unquoted: "solid s \<Longrightarrow> strip_quotes s = s"
  by (cases s) (auto simp: solid_def strip_quotes_def starts_with_def)

lemma solid_int_range: "solid (show_range a b)"
  using show_int_bytes int_byte show_int_neq_Nil
  by (fastforce simp: solid_def show_range_def list_all_iff is_ascii_byte_def is_whitespace_def whitespace_chars_def
      is_int_byte_def is_digit_byte_def)

definition directive_line :: "rstr \<Rightarrow> rstr \<Rightarrow> rstr" where
  "directive_line key v = ''## '' @ key @ '' = '' @ v"

definition option_name :: "rstr \<Rightarrow> bool" where
  "option_name k \<longleftrightarrow> solid k \<and> CHR ''='' \<notin> set k"

lemma directive_line_body:
  assumes "solid key"
  shows "directive_body (directive_line key v) = Some (key @ '' = '' @ v)"
proof -
  obtain b t where k: "key = b # t" using assms by (cases key) (auto simp: solid_def)
  have b: "is_ascii_byte b" "\<not> is_whitespace [b]" using assms by (simp_all add: k solid_def)
  have "\<not> is_cont (hd (t @ '' = '' @ v))"
    using assms ascii_not_cont by (cases t) (auto simp: k solid_def is_cont_def)
  then have "trim_start (CHR '' '' # key @ '' = '' @ v) = key @ '' = '' @ v"
    using b ascii_not_cont hd_chars_ascii [OF b(1)] k by (intro trim_start_blank_hd) auto
  moreover have "strip_prefix (''## '' @ key @ '' = '' @ v) ''##'' = Some (CHR '' '' # key @ '' = '' @ v)"
    using strip_prefix_append [of "''##''" "CHR '' '' # key @ '' = '' @ v"] by simp
  ultimately show ?thesis
    by (simp add: directive_body_def directive_line_def starts_with_def)
qed

lemma directive_line_value:
  assumes "trim (CHR '' '' # v) = v" "strip_quotes v = v"
  shows "directive_value key (key @ '' = '' @ v) = Some v"
proof -
  have "trim_start (CHR '' '' # CHR ''='' # CHR '' '' # v) = CHR ''='' # CHR '' '' # v"
    using trim_start_blank_eq [of "'' ''"] by (simp add: blank_def is_whitespace_def whitespace_chars_def)
  then show ?thesis
    using assms strip_prefix_append [of "''=''" "CHR '' '' # v"] strip_prefix_append [of key "'' = '' @ v"]
    by (simp add: directive_value_def)
qed

lemma directive_last:
  assumes "solid key" "trim (CHR '' '' # v) = v" "strip_quotes v = v"
  shows "find_directive (cs @ [directive_line key v]) key = Some v"
  using find_directive_last [OF directive_line_body [OF assms(1)] directive_line_value [OF assms(2,3)]] .

lemma option_last:
  assumes "option_name key" "trim (CHR '' '' # v) = v" "strip_quotes v = v"
  shows "map_of (collect_directives (cs @ [directive_line key v])) key = Some v"
proof -
  have "trim_end key = key"
  proof -
    have "trim_start key = key"
      using solid_edges [of key] assms(1)
      by (simp add: trim_start_def option_name_def) (metis concat_chars dropWhile_eq_self_iff)
    then show ?thesis using solid_trim [of key] assms(1) by (simp add: trim_def option_name_def)
  qed
  then show ?thesis
    using directive_table_agrees [of key] directive_last [OF _ assms(2,3)] assms(1) by (simp add: option_name_def)
qed

lemma options_cardinality:
  "opt_min (options_from_comments cs c) = fst (parse_cardinality (map_of (collect_directives cs) ''cardinality''))"
  "opt_max (options_from_comments cs c) = fst (snd (parse_cardinality (map_of (collect_directives cs) ''cardinality'')))"
  "opt_strict_min (options_from_comments cs c) =
     snd (snd (parse_cardinality (map_of (collect_directives cs) ''cardinality'')))"
  by (simp_all add: options_from_comments_def Let_def split: prod.splits)

lemma solid_simps: "solid (s @ t) \<longleftrightarrow> (s @ t \<noteq> []) \<and> (s = [] \<or> solid s) \<and> (t = [] \<or> solid t)"
  by (auto simp: solid_def)

lemma solid_show_int: "solid (show_int v)"
  using show_int_bytes int_byte show_int_neq_Nil
  by (fastforce simp: solid_def list_all_iff is_ascii_byte_def is_whitespace_def whitespace_chars_def
      is_int_byte_def is_digit_byte_def)

lemma solid_words: "solid ''~''" "solid ''..''" "solid ''..inf''" "option_name ''cardinality''"
  "solid ''replace_scopes''"
  by (simp_all add: solid_def option_name_def is_ascii_byte_def is_whitespace_def whitespace_chars_def)

lemma solid_option_last:
  "option_name key \<Longrightarrow> solid v \<Longrightarrow> map_of (collect_directives (cs @ [directive_line key v])) key = Some v"
  by (rule option_last [OF _ solid_trim_blank solid_unquoted])

lemma strip_tilde_show: "strip_tilde (show_int v) = (show_int v, True)"
proof -
  have "CHR ''~'' \<notin> set (show_int v)" using show_int_bytes [of "CHR ''~''" v] by (auto simp: is_int_byte_def is_digit_byte_def)
  then have "strip_prefix (show_int v) ''~'' = None"
    by (cases "show_int v") (auto simp: strip_prefix_def starts_with_def)
  then show ?thesis by (simp add: strip_tilde_def)
qed

lemma cardinality_spec:
  fixes mx :: rstr
  assumes "trim mx = mx"
  shows "parse_cardinality (Some ((if strict then [] else ''~'') @ show_int (sint a) @ ''..'' @ mx)) =
    (a, if mx = ''inf'' then INT_MAX else unwrap_or (parse_i32 mx) 1, strict)"
proof -
  let ?t = "(if strict then [] else ''~'') :: rstr"
  have "CHR ''.'' \<notin> set (show_int (sint a))" using show_int_bytes int_byte by blast
  then have "CHR ''.'' \<notin> set (?t @ show_int (sint a))" by simp
  then have split: "split_once_str ''..'' (?t @ show_int (sint a) @ ''..'' @ mx) = Some (?t @ show_int (sint a), mx)"
    using split_dots [of "?t @ show_int (sint a)" mx] by simp
  have "trim (?t @ show_int (sint a)) = ?t @ show_int (sint a)"
    using solid_show_int [of "sint a"] solid_words(1) by (intro solid_trim) (auto simp: solid_simps solid_def)
  moreover have "strip_tilde (?t @ show_int (sint a)) = (show_int (sint a), strict)"
    using strip_tilde_show strip_prefix_append [of "''~''" "show_int (sint a)"] by (simp add: strip_tilde_def [of "CHR ''~'' # _"])
  ultimately show ?thesis
    unfolding parse_cardinality_def option.case split prod.case
    by (simp only: assms prod.case Let_def) (simp add: parse_i32_show unwrap_or_def)
qed

text \<open>C37. A cardinality is read back as it is written: when the last option line before a rule is a
cardinality with the decimal bounds of two 32-bit integers, the rule has exactly these bounds, and its
minimum is strict unless a tilde stands before it; \<open>inf\<close> as the upper bound is the greatest integer. A
rule without any comment occurs exactly once.\<close>

theorem cardinality_roundtrip:
  "(let o1 = options_from_comments (cs @ [directive_line ''cardinality'' ((if strict then [] else ''~'') @ show_range a b)]) c
    in opt_min o1 = a \<and> opt_max o1 = b \<and> opt_strict_min o1 = strict) \<and>
   (let o2 = options_from_comments (cs @ [directive_line ''cardinality'' (show_int (sint a) @ ''..inf'')]) c
    in opt_min o2 = a \<and> opt_max o2 = INT_MAX \<and> opt_strict_min o2) \<and>
   (let o3 = options_from_comments [] c in opt_min o3 = 1 \<and> opt_max o3 = 1 \<and> opt_strict_min o3)"
proof -
  let ?t = "(if strict then [] else ''~'') :: rstr"
  have "solid (?t @ show_range a b)" using solid_int_range [of a b] solid_words(1) by (auto simp: solid_simps solid_def)
  note 1 = solid_option_last [OF solid_words(4) this]
  have "parse_cardinality (Some (?t @ show_range a b)) = (a, b, strict)"
    using cardinality_spec [OF trim_show_int, of strict a "sint b"] sentinel_show_int [of b]
    by (simp add: show_range_def parse_int_sentinel_def parse_i32_show unwrap_or_def split: if_splits)
  moreover have "solid (show_int (sint a) @ ''..inf'')" using solid_show_int solid_words(3) solid_simps by blast
  note 2 = solid_option_last [OF solid_words(4) this]
  have "trim ''inf'' = ''inf''"
    by (rule trim_solid) (simp add: is_ascii_byte_def is_whitespace_def whitespace_chars_def)
  from cardinality_spec [OF this, of True a]
  have "parse_cardinality (Some (show_int (sint a) @ ''..inf'')) = (a, INT_MAX, True)" by simp
  ultimately show ?thesis
    by (simp add: options_cardinality 1 2 Let_def) (simp add: collect_directives_def parse_cardinality_def)
qed

section \<open>Replaced scopes written out\<close>

definition scope_level :: "rstr \<Rightarrow> nat \<Rightarrow> rstr" where
  "scope_level base i = concat (replicate (Suc i) base)"

definition level_tokens :: "rstr \<Rightarrow> nat \<Rightarrow> rstr list \<Rightarrow> rstr list" where
  "level_tokens base i vs = concat (map (\<lambda>(j, v). [scope_level base j, ''='', v]) (enumerate i vs))"

definition scope_token_list :: "ReplaceScopes \<Rightarrow> rstr list" where
  "scope_token_list rs =
     (case rs_this rs of None \<Rightarrow> [] | Some v \<Rightarrow> [''THIS'', ''='', v]) @
     (case rs_root rs of None \<Rightarrow> [] | Some v \<Rightarrow> [''ROOT'', ''='', v]) @
     level_tokens ''FROM'' 0 (rs_froms rs) @ level_tokens ''PREV'' 0 (rs_prevs rs)"

definition show_replace_scopes :: "ReplaceScopes \<Rightarrow> rstr" where
  "show_replace_scopes rs = ''{'' @ '' '' @ concat (map (\<lambda>t. t @ '' '') (scope_token_list rs)) @ ''}''"

definition scope_names :: "ReplaceScopes \<Rightarrow> rstr list" where
  "scope_names rs = List.map_filter id [rs_this rs, rs_root rs] @ rs_froms rs @ rs_prevs rs"

lemma scope_tokens_step [simp]:
  "strip_quotes v = v \<Longrightarrow> scope_tokens (key # ''='' # v # rest) rs = scope_tokens rest (apply_scope_token key v rs)"
  by simp

lemma set_level_end: "length xs = i \<Longrightarrow> set_level xs i v = xs @ [v]"
  by (auto simp: set_level_def list_update_append Suc_diff_le)

lemma less_four: "(i :: nat) < 4 \<Longrightarrow> i = 0 \<or> i = 1 \<or> i = 2 \<or> i = 3"
  by linarith

lemma lower_words [simp]:
  "to_ascii_lowercase ''FROM'' = ''from''" "to_ascii_lowercase ''PREV'' = ''prev''"
  "to_ascii_lowercase ''THIS'' = ''this''" "to_ascii_lowercase ''ROOT'' = ''root''"
  by code_simp+

lemma lower_level: "to_ascii_lowercase (scope_level base i) = scope_level (to_ascii_lowercase base) i"
  by (simp add: scope_level_def to_ascii_lowercase_def map_concat)

lemma level_words:
  "scope_level ''from'' 0 = ''from''" "scope_level ''from'' (Suc 0) = ''fromfrom''" "scope_level ''from'' 2 = ''fromfromfrom''"
  "scope_level ''from'' 3 = ''fromfromfromfrom''" "scope_level ''prev'' 0 = ''prev''" "scope_level ''prev'' (Suc 0) = ''prevprev''"
  "scope_level ''prev'' 2 = ''prevprevprev''" "scope_level ''prev'' 3 = ''prevprevprevprev''"
  by (simp_all add: scope_level_def numeral_2_eq_2 numeral_3_eq_3)

lemma apply_from:
  assumes "length (rs_froms rs) = i" "i < 4"
  shows "apply_scope_token (scope_level ''FROM'' i) v rs = rs\<lparr>rs_froms := rs_froms rs @ [v]\<rparr>"
proof -
  note app = apply_scope_token_def Let_def lower_level lower_words level_words
  consider "i = 0" | "i = 1" | "i = 2" | "i = 3" using less_four [OF assms(2)] by blast
  then show ?thesis
  proof cases
    case 1
    then have "rs_froms rs = []" using assms(1) by simp
    then show ?thesis using 1 by (simp add: app)
  next
    case 2
    then show ?thesis using set_level_end [OF assms(1), of v] by (simp add: app)
  next
    case 3
    then show ?thesis using set_level_end [OF assms(1), of v] by (simp add: app)
  next
    case 4
    then show ?thesis using set_level_end [OF assms(1), of v] by (simp add: app)
  qed
qed

lemma apply_prev_level:
  assumes "length (rs_prevs rs) = i" "i < 4"
  shows "apply_scope_token (scope_level ''PREV'' i) v rs = rs\<lparr>rs_prevs := rs_prevs rs @ [v]\<rparr>"
proof -
  note app = apply_scope_token_def Let_def lower_level lower_words level_words
  consider "i = 0" | "i = 1" | "i = 2" | "i = 3" using less_four [OF assms(2)] by blast
  then show ?thesis
  proof cases
    case 1
    then have "rs_prevs rs = []" using assms(1) by simp
    then show ?thesis using 1 by (simp add: app)
  next
    case 2
    then show ?thesis using set_level_end [OF assms(1), of v] by (simp add: app)
  next
    case 3
    then show ?thesis using set_level_end [OF assms(1), of v] by (simp add: app)
  next
    case 4
    then show ?thesis using set_level_end [OF assms(1), of v] by (simp add: app)
  qed
qed

lemma from_tokens:
  "length (rs_froms rs) = i \<Longrightarrow> i + length vs \<le> 4 \<Longrightarrow> list_all (\<lambda>v. strip_quotes v = v) vs \<Longrightarrow>
   scope_tokens (level_tokens ''FROM'' i vs @ rest) rs = scope_tokens rest (rs\<lparr>rs_froms := rs_froms rs @ vs\<rparr>)"
  by (induction vs arbitrary: i rs) (simp_all add: level_tokens_def apply_from del: scope_tokens.simps)

lemma prev_tokens:
  "length (rs_prevs rs) = i \<Longrightarrow> i + length vs \<le> 4 \<Longrightarrow> list_all (\<lambda>v. strip_quotes v = v) vs \<Longrightarrow>
   scope_tokens (level_tokens ''PREV'' i vs @ rest) rs = scope_tokens rest (rs\<lparr>rs_prevs := rs_prevs rs @ vs\<rparr>)"
  by (induction vs arbitrary: i rs) (simp_all add: level_tokens_def apply_prev_level del: scope_tokens.simps)

lemma apply_this_root:
  "apply_scope_token ''THIS'' v rs = rs\<lparr>rs_this := Some v\<rparr>"
  "apply_scope_token ''ROOT'' v rs = rs\<lparr>rs_root := Some v\<rparr>"
  by (simp_all add: apply_scope_token_def)

lemma scope_tokens_list:
  assumes "length (rs_froms rs) \<le> 4" "length (rs_prevs rs) \<le> 4" "list_all (\<lambda>v. strip_quotes v = v) (scope_names rs)"
  shows "scope_tokens (scope_token_list rs) no_scopes = rs"
proof -
  have q: "list_all (\<lambda>v. strip_quotes v = v) (rs_froms rs)" "list_all (\<lambda>v. strip_quotes v = v) (rs_prevs rs)"
    "\<And>v. rs_this rs = Some v \<Longrightarrow> strip_quotes v = v" "\<And>v. rs_root rs = Some v \<Longrightarrow> strip_quotes v = v"
    using assms(3) by (auto simp: scope_names_def map_filter_simps split: option.splits)
  have prevs: "scope_tokens (level_tokens ''PREV'' 0 (rs_prevs rs)) r = r\<lparr>rs_prevs := rs_prevs rs\<rparr>"
    if "rs_prevs r = []" for r using prev_tokens [of r 0 "rs_prevs rs" "[]"] that assms(2) q(2) by simp
  have froms: "scope_tokens (level_tokens ''FROM'' 0 (rs_froms rs) @ rest) r = scope_tokens rest (r\<lparr>rs_froms := rs_froms rs\<rparr>)"
    if "rs_froms r = []" for r rest using from_tokens [of r 0 "rs_froms rs" rest] that assms(1) q(1) by simp
  show ?thesis
    using q(3,4)
    by (cases "rs_this rs"; cases "rs_root rs")
      (auto simp: scope_token_list_def apply_this_root froms prevs no_scopes_def simp del: scope_tokens.simps(3))
qed

text \<open>Splitting the tokens at blanks again.\<close>

lemma words_skip: "is_whitespace c \<Longrightarrow> words (c # cs) = words cs"
  by (simp add: words.simps [of "c # cs"] words.simps [of cs])

lemma words_token:
  assumes "t \<noteq> []" "list_all (\<lambda>c. \<not> is_whitespace c) t" "is_whitespace c"
  shows "words (t @ c # cs) = concat t # words cs"
proof -
  have "\<not> is_whitespace (hd t)" using assms by (cases t) auto
  then have "dropWhile is_whitespace (t @ c # cs) = t @ c # cs" using assms(1) by (cases t) auto
  moreover have "takeWhile (\<lambda>c. \<not> is_whitespace c) (t @ c # cs) = t"
    "dropWhile (\<lambda>c. \<not> is_whitespace c) (t @ c # cs) = c # cs"
    using assms by (simp_all add: takeWhile_append2 dropWhile_append2 list_all_iff)
  ultimately show ?thesis using assms(1) words_skip [OF assms(3)] by (subst words.simps) simp
qed

lemma split_tokens:
  assumes "list_all solid ts"
  shows "split_whitespace ('' '' @ concat (map (\<lambda>t. t @ '' '') ts)) = ts"
proof -
  have ws: "is_whitespace '' ''" by (simp add: is_whitespace_def whitespace_chars_def)
  have asc: "is_ascii ('' '' @ concat (map (\<lambda>t. t @ '' '') ts))"
    using assms by (auto simp: is_ascii_def list_all_iff solid_def is_ascii_byte_def)
  have "words (map (\<lambda>b. [b]) (concat (map (\<lambda>t. t @ '' '') ts))) = ts" using assms
  proof (induction ts)
    case (Cons t ts)
    have "list_all (\<lambda>c. \<not> is_whitespace c) (map (\<lambda>b. [b]) t)" "t \<noteq> []"
      using Cons.prems by (auto simp: solid_def list_all_iff)
    then have "words (map (\<lambda>b. [b]) t @ '' '' # map (\<lambda>b. [b]) (concat (map (\<lambda>t. t @ '' '') ts))) = t # ts"
      using words_token [OF _ _ ws, of "map (\<lambda>b. [b]) t"] Cons by simp
    then show ?case by simp
  qed (simp add: words.simps)
  then show ?thesis using chars_ascii [OF asc] words_skip [OF ws] by (simp add: split_whitespace_def)
qed

lemma level_tokens_set:
  assumes "t \<in> set (level_tokens base i vs)"
  shows "(\<exists>j. t = scope_level base j) \<or> t = ''='' \<or> t \<in> set vs"
proof -
  obtain j v where "(j, v) \<in> set (enumerate i vs)" "t \<in> {scope_level base j, ''='', v}"
    using assms by (auto simp: level_tokens_def)
  then show ?thesis by (auto simp: in_set_enumerate_eq)
qed

lemma scope_tokens_solid:
  assumes "list_all (\<lambda>v. solid v \<and> CHR ''}'' \<notin> set v) (scope_names rs)" "t \<in> set (scope_token_list rs)"
  shows "solid t \<and> CHR ''}'' \<notin> set t"
proof -
  have lvl: "solid (scope_level b j) \<and> CHR ''}'' \<notin> set (scope_level b j)" if "solid b" "CHR ''}'' \<notin> set b" for b j
  proof -
    have "set (scope_level b j) = set b" by (induction j) (simp_all add: scope_level_def)
    moreover have "scope_level b j \<noteq> []" using that(1) by (simp add: scope_level_def solid_def)
    ultimately show ?thesis using that by (simp add: solid_def list_all_iff)
  qed
  have w: "solid ''FROM''" "solid ''PREV''" "solid ''THIS''" "solid ''ROOT''" "solid ''=''"
    by (simp_all add: solid_def is_ascii_byte_def is_whitespace_def whitespace_chars_def)
  have names: "set (rs_froms rs) \<subseteq> set (scope_names rs)" "set (rs_prevs rs) \<subseteq> set (scope_names rs)"
    "\<And>v. rs_this rs = Some v \<Longrightarrow> v \<in> set (scope_names rs)" "\<And>v. rs_root rs = Some v \<Longrightarrow> v \<in> set (scope_names rs)"
    by (auto simp: scope_names_def map_filter_simps split: option.splits)
  consider (this) "t \<in> set (case rs_this rs of None \<Rightarrow> [] | Some v \<Rightarrow> [''THIS'', ''='', v])"
    | (root) "t \<in> set (case rs_root rs of None \<Rightarrow> [] | Some v \<Rightarrow> [''ROOT'', ''='', v])"
    | (froms) "t \<in> set (level_tokens ''FROM'' 0 (rs_froms rs))" | (prevs) "t \<in> set (level_tokens ''PREV'' 0 (rs_prevs rs))"
    using assms(2) unfolding scope_token_list_def set_append by blast
  then have "t = ''THIS'' \<or> t = ''ROOT'' \<or> t = ''='' \<or> t \<in> set (scope_names rs) \<or>
    (\<exists>j. t = scope_level ''FROM'' j) \<or> (\<exists>j. t = scope_level ''PREV'' j)"
  proof cases
    case this
    then show ?thesis using names(3) by (cases "rs_this rs") auto
  next
    case root
    then show ?thesis using names(4) by (cases "rs_root rs") auto
  next
    case froms
    from level_tokens_set [OF this] show ?thesis using names(1) by blast
  next
    case prevs
    from level_tokens_set [OF this] show ?thesis using names(2) by blast
  qed
  then show ?thesis using assms(1) lvl w by (auto simp: list_all_iff)
qed

lemma show_replace_scopes_ends:
  "\<exists>u. show_replace_scopes rs = u @ ''}''" "\<exists>u. show_replace_scopes rs = CHR ''{'' # CHR '' '' # u"
  by (auto simp: show_replace_scopes_def)

lemma find_sub_byte_append: "c \<notin> set s \<Longrightarrow> find_sub [c] (s @ [c]) = Some (length s)"
  by (induction s) (auto simp: starts_with_def)

lemma scope_pairs_show:
  assumes "list_all (\<lambda>v. solid v \<and> CHR ''}'' \<notin> set v) (scope_names rs)"
  shows "scope_pairs (show_replace_scopes rs) = Some ('' '' @ concat (map (\<lambda>t. t @ '' '') (scope_token_list rs)))"
proof -
  let ?in = "'' '' @ concat (map (\<lambda>t. t @ '' '') (scope_token_list rs))"
  have "CHR ''}'' \<notin> set (''{'' @ ?in)" using scope_tokens_solid [OF assms] by auto
  then have find: "find_sub ''}'' ((''{'' @ ?in) @ ''}'') = Some (length (''{'' @ ?in))"
    by (rule find_sub_byte_append)
  show ?thesis
    using find by (simp add: scope_pairs_def show_replace_scopes_def starts_with_def)
qed

text \<open>The scopes a rule replaces are read back as they are written: whatever the scopes for \<open>THIS\<close> and
\<open>ROOT\<close> and up to four levels each of \<open>FROM\<close> and \<open>PREV\<close>, the directive that lists them (each name without
blanks, quotes or a closing brace) gives exactly these scopes, in order, when it is the last one before
the rule, and nothing when no scope is replaced.\<close>

theorem replace_scopes_roundtrip:
  assumes "length (rs_froms rs) \<le> 4" "length (rs_prevs rs) \<le> 4"
    "list_all (\<lambda>v. solid v \<and> CHR ''}'' \<notin> set v) (scope_names rs)"
  shows "parse_replace_scopes_from_comments (cs @ [directive_line ''replace_scopes'' (show_replace_scopes rs)]) =
    (if rs = no_scopes then None else Some rs)"
proof -
  let ?v = "show_replace_scopes rs"
  obtain u w where ends: "?v = u @ ''}''" "?v = CHR ''{'' # CHR '' '' # w" using show_replace_scopes_ends by metis
  have asc: "is_ascii_byte (CHR ''{'')" "is_ascii_byte (CHR ''}'')" "\<not> is_whitespace ''{''" "\<not> is_whitespace ''}''"
    "\<not> is_cont (CHR '' '')" "\<not> is_cont (CHR ''{'')"
    by (simp_all add: is_ascii_byte_def is_whitespace_def whitespace_chars_def is_cont_def)
  have hd: "hd (chars ?v) = ''{''" using hd_chars_ascii [OF asc(1), of "CHR '' '' # w"] asc(5) ends(2) by simp
  have "trim_start (CHR '' '' # ?v) = ?v" by (rule trim_start_blank_hd) (use hd asc ends(2) in simp_all)
  moreover have "trim ?v = ?v" by (rule trim_edges [OF ends(2,1)]) (use asc in simp_all)
  moreover have "trim_start ?v = ?v"
  proof -
    have "dropWhile is_whitespace (chars ?v) = chars ?v" using hd asc(3) by (intro dropWhile_eq_self_iff [THEN iffD2]) simp
    then show ?thesis by (simp add: trim_start_def)
  qed
  ultimately have tr: "trim (CHR '' '' # ?v) = ?v" by (simp add: trim_def)
  have "strip_quotes ?v = ?v" using ends(2) by (simp add: strip_quotes_def starts_with_def)
  then have find: "find_directive (cs @ [directive_line ''replace_scopes'' ?v]) ''replace_scopes'' = Some ?v"
    using directive_last [OF solid_words(5) tr] by simp
  have "list_all solid (scope_token_list rs)" using scope_tokens_solid [OF assms(3)] by (simp add: list_all_iff)
  note tokens = split_tokens [OF this]
  have "list_all (\<lambda>v. strip_quotes v = v) (scope_names rs)" using assms(3) solid_unquoted by (auto simp: list_all_iff)
  note scopes = scope_tokens_list [OF assms(1,2) this]
  show ?thesis
    by (simp only: parse_replace_scopes_from_comments_def find or_else_simps option.case scope_pairs_show [OF assms(3)]
        tokens scopes Let_def)
qed

lemma replace_scopes_roundtrip_witness:
  "parse_replace_scopes_from_comments
     [directive_line ''replace_scopes'' ''{ THIS = state FROM = country FROMFROM = any PREV = state }''] =
   Some \<lparr>rs_root = None, rs_this = Some ''state'', rs_froms = [''country'', ''any''], rs_prevs = [''state'']\<rparr>"
proof -
  let ?rs = "\<lparr>rs_root = None, rs_this = Some ''state'', rs_froms = [''country'', ''any''], rs_prevs = [''state'']\<rparr>"
  have "show_replace_scopes ?rs = ''{ THIS = state FROM = country FROMFROM = any PREV = state }''"
    by (simp add: show_replace_scopes_def scope_token_list_def level_tokens_def scope_level_def)
  moreover have "list_all (\<lambda>v. solid v \<and> CHR ''}'' \<notin> set v) (scope_names ?rs)"
    by (simp add: scope_names_def map_filter_simps solid_def is_ascii_byte_def is_whitespace_def whitespace_chars_def)
  ultimately show ?thesis using replace_scopes_roundtrip [of ?rs "[]"] by (simp add: no_scopes_def)
qed

end
