(* ===== verification/Rules_Source.thy ===== *)
theory Rules_Source
  imports Comment_Directives String_Table
begin

text \<open>
  Reading a parsed configuration file (\<open>crates/rules/src/rules_converter/mod.rs\<close>): access to the nodes
  of the arena, the comments before each child, values as text, and the names in brackets. An index
  past the arena, which panics in the source, is \<open>None\<close> of the operation. The text of a floating point
  value (\<open>f64::to_string\<close>) is a parameter, as the arena keeps the number as written.
\<close>

section \<open>Nodes\<close>

record Source =
  src_arena :: Arena
  src_table :: StringTable
  src_show :: "Decimal \<Rightarrow> rstr"

definition leaf_at :: "Source \<Rightarrow> LeafIdx \<Rightarrow> Leaf option" where
  "leaf_at S i =
     (if unat i < length (leaves (src_arena S)) then Some (leaves (src_arena S) ! unat i) else None)"

definition leaf_value_at :: "Source \<Rightarrow> LeafValueIdx \<Rightarrow> LeafValue option" where
  "leaf_value_at S i =
     (if unat i < length (leaf_values (src_arena S)) then Some (leaf_values (src_arena S) ! unat i) else None)"

definition comment_at :: "Source \<Rightarrow> CommentIdx \<Rightarrow> Comment option" where
  "comment_at S i =
     (if unat i < length (comments (src_arena S)) then Some (comments (src_arena S) ! unat i) else None)"

definition text_of :: "Source \<Rightarrow> StringTokens \<Rightarrow> rstr" where
  "text_of S tok = unwrap_or (get_string (src_table S) (tok_normal tok)) []"

text \<open>A loop over children that may panic: the results of all of them, in order.\<close>

definition traverse :: "('a \<Rightarrow> 'b option) \<Rightarrow> 'a list \<Rightarrow> 'b list option" where
  "traverse f xs = those (map f xs)"

definition collect :: "('a \<Rightarrow> 'b list option) \<Rightarrow> 'a list \<Rightarrow> 'b list option" where
  "collect f xs = map_option concat (traverse f xs)"

section \<open>Comments before a child\<close>

fun comments_from :: "Source \<Rightarrow> Child list \<Rightarrow> rstr list \<Rightarrow> rstr list list option" where
  "comments_from S [] pending = Some []"
| "comments_from S (ChildComment i # cs) pending =
     (case comment_at S i of
        None \<Rightarrow> None
      | Some c \<Rightarrow> map_option (\<lambda>r. [] # r) (comments_from S cs (pending @ [trim (comment_text c)])))"
| "comments_from S (c # cs) pending = map_option (\<lambda>r. pending # r) (comments_from S cs [])"

definition precompute_comments :: "Source \<Rightarrow> Child list \<Rightarrow> rstr list list option" where
  "precompute_comments S children = comments_from S children []"

text \<open>The loop shape of the converter: each child with the comments before it.\<close>

definition collect_commented :: "Source \<Rightarrow> (rstr list \<Rightarrow> Child \<Rightarrow> 'b list option) \<Rightarrow> Child list \<Rightarrow> 'b list option" where
  "collect_commented S f children =
     (case precompute_comments S children of
        None \<Rightarrow> None
      | Some cms \<Rightarrow> collect (\<lambda>(cm, c). f cm c) (zip cms children))"

section \<open>Values and names\<close>

definition value_to_string :: "Source \<Rightarrow> AstValue \<Rightarrow> rstr" where
  "value_to_string S v =
     (case v of
        VString t \<Rightarrow> strip_quotes (text_of S t)
      | VQString t \<Rightarrow> strip_quotes (text_of S t)
      | VFloat f \<Rightarrow> src_show S f
      | VInt i \<Rightarrow> show_int i
      | VBool b \<Rightarrow> if b then ''yes'' else ''no''
      | VClause _ \<Rightarrow> [])"

definition leaf_value_string :: "Source \<Rightarrow> Leaf \<Rightarrow> rstr" where
  "leaf_value_string S l = value_to_string S (leaf_val l)"

definition child_text :: "Source \<Rightarrow> Child \<Rightarrow> rstr list option" where
  "child_text S c =
     (case c of
        ChildLeafValue i \<Rightarrow>
          (case leaf_value_at S i of
             None \<Rightarrow> None
           | Some lv \<Rightarrow> (let v = value_to_string S (lv_value lv) in Some (if v \<noteq> [] then [v] else [])))
      | ChildLeaf i \<Rightarrow>
          (case leaf_at S i of
             None \<Rightarrow> None
           | Some l \<Rightarrow> (let v = text_of S (leaf_key l) in Some (if v \<noteq> [] then [v] else [])))
      | ChildComment _ \<Rightarrow> Some [])"

definition collect_leaf_values_from_children :: "Source \<Rightarrow> Child list \<Rightarrow> rstr list option" where
  "collect_leaf_values_from_children S children = collect (child_text S) children"

definition collect_leaf_values_from_clause :: "Source \<Rightarrow> AstValue \<Rightarrow> rstr list option" where
  "collect_leaf_values_from_clause S v =
     (case v of VClause ch \<Rightarrow> collect_leaf_values_from_children S ch | _ \<Rightarrow> Some [])"

definition extract_bracket_content :: "rstr \<Rightarrow> rstr \<Rightarrow> rstr option" where
  "extract_bracket_content full pre =
     (case strip_prefix full pre of
        None \<Rightarrow> None
      | Some body \<Rightarrow>
          (case strip_prefix body ''['' of None \<Rightarrow> None | Some inner \<Rightarrow> strip_suffix inner '']''))"

definition get_setting_from_string :: "rstr \<Rightarrow> rstr \<Rightarrow> rstr option" where
  "get_setting_from_string full key =
     (let expected = key @ ''[''
      in if starts_with full expected \<and> ends_with full '']''
         then Some (take (length full - 1 - length expected) (drop (length expected) full)) else None)"

definition get_alias_settings :: "rstr \<Rightarrow> rstr \<Rightarrow> (rstr \<times> rstr) option" where
  "get_alias_settings full pre =
     (case get_setting_from_string full pre of None \<Rightarrow> None | Some s \<Rightarrow> split_once (CHR '':'') s)"

definition clean_path :: "rstr \<Rightarrow> rstr" where
  "clean_path path =
     (let normalized = replace_byte (CHR 0x5C) (CHR ''/'') path
      in unwrap_or (strip_prefix normalized ''game/'') normalized)"

end
