(* ===== verification/Rules_Converter.thy ===== *)
theory Rules_Converter
  imports Rules_Source
begin

text \<open>
  From the children of a clause to rules (\<open>children_to_rules\<close> of
  \<open>crates/rules/src/rules_converter/mod.rs\<close>). One child is converted by a definition that takes the
  conversion of nested clauses as a parameter; the recursion itself runs on fuel, one unit per level
  of clauses, and \<open>None\<close> is a panic or the end of the fuel.
\<close>

section \<open>Rules\<close>

definition colour_option :: Options where
  "colour_option = options_default\<lparr>opt_min := 3, opt_max := 4, opt_strict_min := True, opt_leafvalue := True\<rparr>"

definition rgb_rule :: NewRule where
  "rgb_rule = (LeafValueRule (ValueField (VtInt 0 255)), colour_option)"

definition hsv_rule :: NewRule where
  "hsv_rule = (LeafValueRule (ValueField (VtFloat (Finite False 0 0) (Finite False 2 0))), colour_option)"

definition build_colour_rules :: "rstr \<Rightarrow> NewRule list" where
  "build_colour_rules colour_spec =
     (let inner = (if starts_with colour_spec ''colour['' \<and> ends_with colour_spec '']''
                   then take (length colour_spec - 1 - 7) (drop 7 colour_spec) else [])
      in if inner = ''rgb'' then [rgb_rule]
         else if inner = ''hsv'' then [hsv_rule]
         else [rgb_rule, hsv_rule])"

definition leaf_is_eqeq :: "Leaf \<Rightarrow> bool" where
  "leaf_is_eqeq l \<longleftrightarrow> leaf_op l = EqualEqual"

text \<open>One child of a clause; \<open>rec\<close> converts the children of a nested clause.\<close>

definition subtype_rule ::
  "(Child list \<Rightarrow> NewRule list option) \<Rightarrow> rstr list \<Rightarrow> Leaf \<Rightarrow> rstr \<Rightarrow> NewRule list option" where
  "subtype_rule rec cm l key =
     (case extract_bracket_content key ''subtype'' of
        None \<Rightarrow> Some []
      | Some sub \<Rightarrow>
          (let positive = (\<not> starts_with sub ''!'');
               name = (if positive then sub else drop 1 sub)
           in map_option (\<lambda>inner. [(SubtypeRule name positive inner, options_from_comments cm False)])
                (case leaf_val l of VClause ch \<Rightarrow> rec ch | _ \<Rightarrow> Some [])))"

definition leaf_rule ::
  "(Child list \<Rightarrow> NewRule list option) \<Rightarrow> Source \<Rightarrow> rstr list \<Rightarrow> Leaf \<Rightarrow> rstr \<Rightarrow> NewRule list option" where
  "leaf_rule rec S cm l key =
     (let opts = options_from_comments cm (leaf_is_eqeq l)
      in case leaf_val l of
           VClause ch \<Rightarrow> map_option (\<lambda>inner. [(NodeRule (field_from_string key) inner, opts)]) (rec ch)
         | v \<Rightarrow>
             (let right_str = value_to_string S v
              in Some [(if starts_with right_str ''colour['' \<and> ends_with right_str '']''
                        then NodeRule (field_from_string key) (build_colour_rules right_str)
                        else LeafRule (field_from_string key) (field_from_string right_str), opts)]))"

definition leaf_value_rule ::
  "(Child list \<Rightarrow> NewRule list option) \<Rightarrow> Source \<Rightarrow> rstr list \<Rightarrow> LeafValue \<Rightarrow> NewRule list option" where
  "leaf_value_rule rec S cm lv =
     (let opts = options_from_comments cm False
      in case lv_value lv of
           VClause ch \<Rightarrow> map_option (\<lambda>inner. [(ValueClauseRule inner, opts)]) (rec ch)
         | v \<Rightarrow> Some [(LeafValueRule (field_from_string (value_to_string S v)), opts\<lparr>opt_leafvalue := True\<rparr>)])"

definition child_rule ::
  "(Child list \<Rightarrow> NewRule list option) \<Rightarrow> Source \<Rightarrow> rstr list \<Rightarrow> Child \<Rightarrow> NewRule list option" where
  "child_rule rec S cm c =
     (case c of
        ChildLeaf i \<Rightarrow>
          (case leaf_at S i of
             None \<Rightarrow> None
           | Some l \<Rightarrow>
               (let key = text_of S (leaf_key l)
                in if starts_with key ''subtype['' then subtype_rule rec cm l key else leaf_rule rec S cm l key))
      | ChildLeafValue i \<Rightarrow>
          (case leaf_value_at S i of None \<Rightarrow> None | Some lv \<Rightarrow> leaf_value_rule rec S cm lv)
      | ChildComment _ \<Rightarrow> Some [])"

text \<open>The recursion follows the clauses of the arena; the fuel is the number of levels.\<close>

primrec children_to_rules :: "nat \<Rightarrow> Source \<Rightarrow> Child list \<Rightarrow> NewRule list option" where
  "children_to_rules 0 S children = None"
| "children_to_rules (Suc n) S children = collect_commented S (child_rule (children_to_rules n S) S) children"

definition leaf_to_rule :: "nat \<Rightarrow> Source \<Rightarrow> Leaf \<Rightarrow> RuleType option" where
  "leaf_to_rule n S l =
     (case leaf_val l of
        VClause ch \<Rightarrow>
          map_option (\<lambda>inner. NodeRule (SpecificField (text_of S (leaf_key l))) inner) (children_to_rules n S ch)
      | v \<Rightarrow> Some (LeafRule (field_from_string (text_of S (leaf_key l))) (field_from_string (value_to_string S v))))"

end
