(* ===== verification/Types_Converter.thy ===== *)
theory Types_Converter
  imports Rules_Converter Rule_Set
begin

text \<open>
  Type definitions (\<open>types.rs\<close> and \<open>subtypes.rs\<close> of \<open>crates/rules/src/rules_converter\<close>): the directives
  before a type, the options in its body, its subtypes, and its localisation and modifier blocks.
\<close>

section \<open>Types\<close>

definition split_brace_list :: "rstr \<Rightarrow> rstr list" where
  "split_brace_list rhs =
     (let brace = (\<lambda>c. c = CHR ''{'' \<or> c = CHR ''}'');
          inner = rev (dropWhile brace (rev (dropWhile brace rhs)))
      in filter (\<lambda>s. s \<noteq> []) (split_whitespace inner))"

definition brace_list_or_word :: "rstr \<Rightarrow> rstr list" where
  "brace_list_or_word rhs =
     (if starts_with rhs ''{'' \<and> ends_with rhs ''}'' then split_brace_list rhs
      else if rhs \<noteq> [] then [rhs] else [])"

definition type_key_filter_line :: "rstr \<Rightarrow> (rstr list \<times> bool) option" where
  "type_key_filter_line c =
     (case directive_body c of
        None \<Rightarrow> None
      | Some rest \<Rightarrow>
          (case strip_prefix rest ''type_key_filter'' of
             None \<Rightarrow> None
           | Some tail \<Rightarrow>
               (let after = trim_start tail;
                    spec = (case strip_prefix after ''<>'' of
                        Some r \<Rightarrow> Some (trim r, True)
                      | None \<Rightarrow> (case strip_prefix after ''='' of Some r \<Rightarrow> Some (trim r, False) | None \<Rightarrow> None))
                in map_option (\<lambda>(rhs, negative).
                     ((if starts_with rhs ''{'' \<and> ends_with rhs ''}'' then split_brace_list rhs else [rhs]), negative)) spec)))"

definition parse_type_key_filter_from_comments :: "rstr list \<Rightarrow> (rstr list \<times> bool) option" where
  "parse_type_key_filter_from_comments cs = find_map type_key_filter_line (rev cs)"

definition parse_graph_related_types_from_comments :: "rstr list \<Rightarrow> rstr list" where
  "parse_graph_related_types_from_comments cs =
     (case find_directive cs ''graph_related_types'' of None \<Rightarrow> [] | Some rhs \<Rightarrow> brace_list_or_word rhs)"

definition parse_only_if_not_from_comments :: "rstr list \<Rightarrow> rstr list" where
  "parse_only_if_not_from_comments cs =
     (case find_directive cs ''only_if_not'' of None \<Rightarrow> [] | Some rhs \<Rightarrow> brace_list_or_word rhs)"

definition extract_comment_value :: "rstr list \<Rightarrow> rstr \<Rightarrow> rstr option" where
  "extract_comment_value cs key = non_empty (find_directive cs key)"

text \<open>The options of a type that a directive may set before the body does.\<close>

definition apply_option_directives :: "rstr list \<Rightarrow> TypeDefinition \<Rightarrow> TypeDefinition" where
  "apply_option_directives cs def =
     (let yes = (\<lambda>key. find_directive cs key = Some ''yes'')
      in def\<lparr>td_unique := yes ''unique'', td_type_per_file := yes ''type_per_file'',
           td_path_options := (td_path_options def)\<lparr>path_strict := yes ''path_strict''\<rparr>,
           td_should_be_referenced := yes ''should_be_used'',
           td_warning_only := (find_directive cs ''severity'' = Some ''warning''),
           td_starts_with := find_directive cs ''starts_with''\<rparr>)"

text \<open>The two forms of \<open>skip_root_key\<close>.\<close>

definition skip_block_child :: "Source \<Rightarrow> Child \<Rightarrow> SkipRootKey list option" where
  "skip_block_child S c =
     (case c of
        ChildLeafValue i \<Rightarrow>
          (case leaf_value_at S i of
             None \<Rightarrow> None
           | Some lv \<Rightarrow>
               (let v = value_to_string S (lv_value lv)
                in Some (if v = [] then [] else if v = ''any'' then [SkipAnyKey] else [SkipSpecificKey v])))
      | _ \<Rightarrow> Some [])"

definition parse_skip_root_key_block :: "Source \<Rightarrow> Child list \<Rightarrow> SkipRootKey list \<Rightarrow> SkipRootKey list option" where
  "parse_skip_root_key_block S children out = map_option (\<lambda>ks. out @ ks) (collect (skip_block_child S) children)"

definition skip_key_texts :: "SkipRootKey \<Rightarrow> rstr list" where
  "skip_key_texts k = (case k of SkipSpecificKey t \<Rightarrow> [t] | SkipMultipleKeys ks _ \<Rightarrow> ks | SkipAnyKey \<Rightarrow> [])"

definition parse_skip_root_key_leaf :: "Operator \<Rightarrow> rstr \<Rightarrow> SkipRootKey list \<Rightarrow> SkipRootKey list" where
  "parse_skip_root_key_leaf op v out =
     (if v = ''any'' then out @ [SkipAnyKey]
      else (case out of
              [] \<Rightarrow> [SkipSpecificKey v]
            | first # _ \<Rightarrow>
                (let first_match_kind = (case first of
                       SkipMultipleKeys _ mk \<Rightarrow> mk
                     | _ \<Rightarrow> match_kind_from_equals (op = Equals))
                 in [SkipMultipleKeys (concat (map skip_key_texts out) @ [v]) first_match_kind])))"

section \<open>Localisation and modifier blocks\<close>

definition block_leaf :: "Source \<Rightarrow> (rstr list \<Rightarrow> rstr \<Rightarrow> rstr \<Rightarrow> 'b) \<Rightarrow> rstr list \<Rightarrow> Child \<Rightarrow> 'b list option" where
  "block_leaf S f cm c =
     (case c of
        ChildLeaf i \<Rightarrow>
          (case leaf_at S i of
             None \<Rightarrow> None
           | Some l \<Rightarrow>
               (let key = text_of S (leaf_key l)
                in Some (if starts_with key ''subtype['' then [] else [f cm key (value_to_string S (leaf_val l))])))
      | _ \<Rightarrow> Some [])"

definition for_each_block_leaf :: "Source \<Rightarrow> (rstr list \<Rightarrow> rstr \<Rightarrow> rstr \<Rightarrow> 'b) \<Rightarrow> Child list \<Rightarrow> 'b list option" where
  "for_each_block_leaf S f children = collect_commented S (block_leaf S f) children"

definition localisation_entry :: "rstr list \<Rightarrow> rstr \<Rightarrow> rstr \<Rightarrow> TypeLocalisation" where
  "localisation_entry cm key v =
     (let base = \<lparr>tl_name = key, tl_prefix = [], tl_suffix = [], tl_required = has_directive cm ''required'',
            tl_optional = has_directive cm ''optional'', tl_explicit_field = None,
            tl_replace_scopes = parse_replace_scopes_from_comments cm, tl_primary = has_directive cm ''primary''\<rparr>
      in case split_once (CHR ''$'') v of
           Some (pre, suf) \<Rightarrow> base\<lparr>tl_prefix := pre, tl_suffix := suf\<rparr>
         | None \<Rightarrow> base\<lparr>tl_explicit_field := Some v\<rparr>)"

definition parse_localisation_block :: "Source \<Rightarrow> Child list \<Rightarrow> TypeLocalisation list option" where
  "parse_localisation_block S children = for_each_block_leaf S localisation_entry children"

definition modifier_entry :: "rstr list \<Rightarrow> rstr \<Rightarrow> rstr \<Rightarrow> TypeModifier" where
  "modifier_entry cm key v =
     (let documentation = map_option (\<lambda>s. trim (dropWhile ((=) (CHR ''#'')) s)) (List.find (\<lambda>s. starts_with s ''###'') cm);
          (pre, suf) = (case split_once (CHR ''$'') v of Some (p, s) \<Rightarrow> (p, s) | None \<Rightarrow> ([], []))
      in \<lparr>tm_prefix = pre, tm_suffix = suf, tm_category = key, tm_documentation = documentation,
          tm_explicit = has_directive cm ''explicit''\<rparr>)"

definition parse_modifiers_block :: "Source \<Rightarrow> Child list \<Rightarrow> TypeModifier list option" where
  "parse_modifiers_block S children = for_each_block_leaf S modifier_entry children"

text \<open>The \<open>subtype[x] = { ... }\<close> blocks inside such a block.\<close>

definition subtype_block ::
  "Source \<Rightarrow> (Child list \<Rightarrow> 'b list option) \<Rightarrow> Child \<Rightarrow> (rstr \<times> 'b list) list option" where
  "subtype_block S read_block c =
     (case keyed_clause (src_arena S) c of
        None \<Rightarrow> None
      | Some None \<Rightarrow> Some []
      | Some (Some kc) \<Rightarrow>
          (let nk = text_of S (kc_key kc)
           in if starts_with nk ''subtype[''
              then (case extract_bracket_content nk ''subtype'' of
                      None \<Rightarrow> Some []
                    | Some st \<Rightarrow> map_option (\<lambda>xs. [(st, xs)]) (read_block (kc_children kc)))
              else Some []))"

definition parse_subtype_localisation :: "Source \<Rightarrow> Child list \<Rightarrow> (rstr \<times> TypeLocalisation list) list option" where
  "parse_subtype_localisation S children = collect (subtype_block S (parse_localisation_block S)) children"

definition parse_subtype_modifiers :: "Source \<Rightarrow> Child list \<Rightarrow> (rstr \<times> TypeModifier list) list option" where
  "parse_subtype_modifiers S children = collect (subtype_block S (parse_modifiers_block S)) children"

section \<open>Type definitions\<close>

text \<open>A subtype: the directives before it, and its body without the \<open>type_key_field\<close> leaves.\<close>

definition type_key_field_value :: "Source \<Rightarrow> Child \<Rightarrow> rstr option option" where
  "type_key_field_value S c =
     (case c of
        ChildLeaf i \<Rightarrow>
          map_option (\<lambda>l. if text_of S (leaf_key l) = ''type_key_field''
             then Some (value_to_string S (leaf_val l)) else None) (leaf_at S i)
      | _ \<Rightarrow> Some None)"

definition build_subtype :: "nat \<Rightarrow> Source \<Rightarrow> rstr \<Rightarrow> Child list \<Rightarrow> rstr list \<Rightarrow> SubTypeDefinition option" where
  "build_subtype n S name children cm =
     (case traverse (type_key_field_value S) children of
        None \<Rightarrow> None
      | Some keys \<Rightarrow>
          (let filtered_children = map fst (filter (\<lambda>(c, k). k = None) (zip children keys))
           in map_option (\<lambda>rules.
                \<lparr>st_name = name, st_display_name = extract_comment_value cm ''display_name'',
                 st_abbreviation = extract_comment_value cm ''abbreviation'', st_rules = rules,
                 st_type_key_field = find_map id keys,
                 st_starts_with = extract_comment_value cm ''starts_with'',
                 st_push_scope = extract_comment_value cm ''push_scope'', st_localisation = [],
                 st_only_if_not = parse_only_if_not_from_comments cm, st_modifiers = [],
                 st_type_key_filter = (case parse_type_key_filter_from_comments cm of
                    Some (vals, _) \<Rightarrow> vals | None \<Rightarrow> [])\<rparr>)
                (children_to_rules n S filtered_children)))"

definition process_subtype_node_from_leaf :: "nat \<Rightarrow> Source \<Rightarrow> rstr \<Rightarrow> Leaf \<Rightarrow> rstr list \<Rightarrow> SubTypeDefinition option" where
  "process_subtype_node_from_leaf n S name l cm =
     build_subtype n S name (case leaf_val l of VClause ch \<Rightarrow> ch | _ \<Rightarrow> []) cm"

definition update_paths :: "(PathOptions \<Rightarrow> PathOptions) \<Rightarrow> TypeDefinition \<Rightarrow> TypeDefinition" where
  "update_paths f def = def\<lparr>td_path_options := f (td_path_options def)\<rparr>"

definition type_option :: "Source \<Rightarrow> Leaf \<Rightarrow> rstr \<Rightarrow> TypeDefinition \<Rightarrow> TypeDefinition option" where
  "type_option S l k def =
     (let v = leaf_value_string S l
      in if k = ''path'' then Some (update_paths (\<lambda>p. p\<lparr>paths := paths p @ [clean_path v]\<rparr>) def)
         else if k = ''path_strict'' then Some (update_paths (\<lambda>p. p\<lparr>path_strict := (v = ''yes'')\<rparr>) def)
         else if k = ''path_file'' then Some (update_paths (\<lambda>p. p\<lparr>path_file := Some v\<rparr>) def)
         else if k = ''path_extension'' then Some (update_paths (\<lambda>p. p\<lparr>path_extension := Some v\<rparr>) def)
         else if k = ''name_field'' then Some (def\<lparr>td_name_field := Some v\<rparr>)
         else if k = ''type_per_file'' then Some (def\<lparr>td_type_per_file := (v = ''yes'')\<rparr>)
         else if k = ''starts_with'' then Some (def\<lparr>td_starts_with := Some v\<rparr>)
         else if k = ''type_key_prefix'' then Some (def\<lparr>td_key_prefix := Some v\<rparr>)
         else if k = ''severity'' then Some (def\<lparr>td_warning_only := (v = ''warning'')\<rparr>)
         else if k = ''unique'' then Some (def\<lparr>td_unique := (v = ''yes'')\<rparr>)
         else if k = ''should_be_used'' then Some (def\<lparr>td_should_be_referenced := (v = ''yes'')\<rparr>)
         else if k = ''skip_root_key''
         then map_option (\<lambda>ks. def\<lparr>td_skip_root_key := ks\<rparr>)
           (case leaf_val l of
              VClause block_children \<Rightarrow> parse_skip_root_key_block S block_children (td_skip_root_key def)
            | _ \<Rightarrow> Some (parse_skip_root_key_leaf (leaf_op l) v (td_skip_root_key def)))
         else Some def)"

record TypeBody =
  tb_def :: TypeDefinition
  tb_localisation :: "Child list option"
  tb_modifiers :: "Child list option"

definition type_body_child :: "nat \<Rightarrow> Source \<Rightarrow> rstr list \<times> Child \<Rightarrow> TypeBody \<Rightarrow> TypeBody option" where
  "type_body_child n S cc tb =
     (case snd cc of
        ChildLeaf i \<Rightarrow>
          (case leaf_at S i of
             None \<Rightarrow> None
           | Some l \<Rightarrow>
               (let k = text_of S (leaf_key l)
                in if starts_with k ''subtype[''
                   then (case extract_bracket_content k ''subtype'' of
                           None \<Rightarrow> Some tb
                         | Some sub \<Rightarrow>
                             map_option (\<lambda>st. tb\<lparr>tb_def := (tb_def tb)\<lparr>td_subtypes := td_subtypes (tb_def tb) @ [st]\<rparr>\<rparr>)
                               (process_subtype_node_from_leaf n S sub l (fst cc)))
                   else if k = ''localisation'' \<or> k = ''modifiers''
                   then Some (case leaf_val l of
                       VClause ch \<Rightarrow>
                         (if k = ''localisation'' then tb\<lparr>tb_localisation := Some ch\<rparr> else tb\<lparr>tb_modifiers := Some ch\<rparr>)
                     | _ \<Rightarrow> tb)
                   else map_option (\<lambda>d. tb\<lparr>tb_def := d\<rparr>) (type_option S l k (tb_def tb))))
      | _ \<Rightarrow> Some tb)"

text \<open>What a subtype-scoped block adds goes to the first subtype of that name.\<close>

fun update_first :: "('a \<Rightarrow> bool) \<Rightarrow> ('a \<Rightarrow> 'a) \<Rightarrow> 'a list \<Rightarrow> 'a list" where
  "update_first P f [] = []"
| "update_first P f (x # xs) = (if P x then f x # xs else x # update_first P f xs)"

definition attach_localisation :: "rstr \<times> TypeLocalisation list \<Rightarrow> SubTypeDefinition list \<Rightarrow> SubTypeDefinition list" where
  "attach_localisation e sts =
     update_first (\<lambda>s. st_name s = fst e) (\<lambda>st. st\<lparr>st_localisation := st_localisation st @ snd e\<rparr>) sts"

definition attach_modifiers :: "rstr \<times> TypeModifier list \<Rightarrow> SubTypeDefinition list \<Rightarrow> SubTypeDefinition list" where
  "attach_modifiers e sts =
     update_first (\<lambda>s. st_name s = fst e) (\<lambda>st. st\<lparr>st_modifiers := st_modifiers st @ snd e\<rparr>) sts"

definition apply_localisation_block :: "Source \<Rightarrow> Child list option \<Rightarrow> TypeDefinition \<Rightarrow> TypeDefinition option" where
  "apply_localisation_block S blk def =
     (case blk of
        None \<Rightarrow> Some def
      | Some ch \<Rightarrow>
          (case (parse_localisation_block S ch, parse_subtype_localisation S ch) of
             (Some locs, Some subs) \<Rightarrow>
               Some (def\<lparr>td_localisation := locs, td_subtypes := fold attach_localisation subs (td_subtypes def)\<rparr>)
           | _ \<Rightarrow> None))"

definition apply_modifiers_block :: "Source \<Rightarrow> Child list option \<Rightarrow> TypeDefinition \<Rightarrow> TypeDefinition option" where
  "apply_modifiers_block S blk def =
     (case blk of
        None \<Rightarrow> Some def
      | Some ch \<Rightarrow>
          (case (parse_modifiers_block S ch, parse_subtype_modifiers S ch) of
             (Some mods, Some subs) \<Rightarrow>
               Some (def\<lparr>td_modifiers := mods, td_subtypes := fold attach_modifiers subs (td_subtypes def)\<rparr>)
           | _ \<Rightarrow> None))"

definition no_paths :: PathOptions where
  "no_paths = \<lparr>paths = [], path_strict = False, path_file = None, path_extension = None, paths_lower = [],
     path_file_lower = None, path_ext_lower = None\<rparr>"

definition type_new :: "rstr \<Rightarrow> TypeDefinition" where
  "type_new name =
     \<lparr>td_name = name, td_name_field = None, td_path_options = no_paths, td_subtypes = [], td_type_key_filter = None,
      td_skip_root_key = [], td_starts_with = None, td_type_per_file = False, td_key_prefix = None,
      td_warning_only = False, td_unique = False, td_should_be_referenced = False, td_localisation = [],
      td_graph_related_types = [], td_modifiers = []\<rparr>"

definition type_before_body :: "rstr \<Rightarrow> rstr list \<Rightarrow> TypeDefinition" where
  "type_before_body name cm =
     apply_option_directives cm ((type_new name)\<lparr>
       td_type_key_filter := parse_type_key_filter_from_comments cm,
       td_graph_related_types := parse_graph_related_types_from_comments cm\<rparr>)"

definition process_type_node :: "nat \<Rightarrow> Source \<Rightarrow> rstr \<Rightarrow> Leaf \<Rightarrow> rstr list \<Rightarrow> TypeDefinition option" where
  "process_type_node n S name l cm =
     (let def = type_before_body name cm
      in case leaf_val l of
           VClause children \<Rightarrow>
             (case precompute_comments S children of
                None \<Rightarrow> None
              | Some cms \<Rightarrow>
                  (case fold_opt (type_body_child n S) (zip cms children)
                          \<lparr>tb_def = def, tb_localisation = None, tb_modifiers = None\<rparr> of
                     None \<Rightarrow> None
                   | Some tb \<Rightarrow>
                       (case apply_localisation_block S (tb_localisation tb) (tb_def tb) of
                          None \<Rightarrow> None
                        | Some d \<Rightarrow> apply_modifiers_block S (tb_modifiers tb) d)))
         | _ \<Rightarrow> Some def)"

definition extract_one_type :: "nat \<Rightarrow> Source \<Rightarrow> rstr list \<Rightarrow> Child \<Rightarrow> TypeDefinition list option" where
  "extract_one_type n S cm c =
     (case c of
        ChildLeaf i \<Rightarrow>
          (case leaf_at S i of
             None \<Rightarrow> None
           | Some l \<Rightarrow>
               (let key = text_of S (leaf_key l)
                in if starts_with key ''type[''
                   then (case extract_bracket_content key ''type'' of
                           None \<Rightarrow> Some []
                         | Some typename \<Rightarrow> map_option (\<lambda>d. [d]) (process_type_node n S typename l cm))
                   else Some []))
      | _ \<Rightarrow> Some [])"

definition extract_types_from_children :: "nat \<Rightarrow> Source \<Rightarrow> Child list \<Rightarrow> RuleSet \<Rightarrow> RuleSet option" where
  "extract_types_from_children n S children rs =
     map_option (\<lambda>ts. rs\<lparr>rule_types := rule_types rs @ ts\<rparr>) (collect_commented S (extract_one_type n S) children)"

end
