(* ===== verification/Config_Converter.thy ===== *)
theory Config_Converter
  imports Types_Converter
begin

text \<open>
  Enums, value sets, scopes, links and modifiers (\<open>enums.rs\<close> and \<open>scopes_links.rs\<close> of
  \<open>crates/rules/src/rules_converter\<close>), and the conversion of a whole configuration file (\<open>mod.rs\<close>).
\<close>

section \<open>Enums and value sets\<close>

definition process_enum_node :: "Source \<Rightarrow> rstr \<Rightarrow> Leaf \<Rightarrow> rstr list \<Rightarrow> EnumDefinition option" where
  "process_enum_node S name l cm =
     map_option (\<lambda>values.
       \<lparr>ed_key = name, ed_description = unwrap_or (extract_description_from_comments cm) name, ed_values = values\<rparr>)
       (collect_leaf_values_from_clause S (leaf_val l))"

text \<open>The tree of a complex enum's \<open>name\<close> block; the fuel is the number of levels.\<close>

definition name_entry ::
  "(Child list \<Rightarrow> ComplexEnumNameTree option) \<Rightarrow> Source \<Rightarrow> Child \<Rightarrow> ComplexEnumNameTreeEntry list option" where
  "name_entry rec S c =
     (case c of
        ChildLeaf i \<Rightarrow>
          (case leaf_at S i of
             None \<Rightarrow> None
           | Some l \<Rightarrow>
               (let k = text_of S (leaf_key l)
                in case leaf_val l of
                     VClause sub_ch \<Rightarrow> map_option (\<lambda>sub. [EntryNode k sub]) (rec sub_ch)
                   | _ \<Rightarrow> (let v = leaf_value_string S l in Some [EntryLeaf k (v = ''enum_name'' \<or> v = ''this'')])))
      | ChildLeafValue i \<Rightarrow>
          (case leaf_value_at S i of
             None \<Rightarrow> None
           | Some lv \<Rightarrow>
               (let bare = (\<lambda>t. case get_string (src_table S) (tok_normal t) of
                      Some s \<Rightarrow> s = ''enum_name'' \<or> s = ''this'' | None \<Rightarrow> False)
                in Some (case lv_value lv of
                     VString t \<Rightarrow> if bare t then [EntryBareName] else []
                   | VQString t \<Rightarrow> if bare t then [EntryBareName] else []
                   | _ \<Rightarrow> [])))
      | ChildComment _ \<Rightarrow> Some [])"

primrec build_name_tree :: "nat \<Rightarrow> Source \<Rightarrow> Child list \<Rightarrow> ComplexEnumNameTree option" where
  "build_name_tree 0 S children = None"
| "build_name_tree (Suc n) S children =
     map_option NameTreeEntries (collect (name_entry (build_name_tree n S) S) children)"

record EnumBody =
  eb_paths :: PathOptions
  eb_start_from_root :: bool
  eb_name_tree :: "ComplexEnumNameTree option"

definition enum_body_child :: "nat \<Rightarrow> Source \<Rightarrow> Child \<Rightarrow> EnumBody \<Rightarrow> EnumBody option" where
  "enum_body_child n S c eb =
     (case c of
        ChildLeaf i \<Rightarrow>
          (case leaf_at S i of
             None \<Rightarrow> None
           | Some l \<Rightarrow>
               (let k = text_of S (leaf_key l); v = leaf_value_string S l; p = eb_paths eb;
                    simple =
                      (if k = ''path'' then eb\<lparr>eb_paths := p\<lparr>paths := paths p @ [clean_path v]\<rparr>\<rparr>
                       else if k = ''path_strict'' \<and> v = ''yes'' then eb\<lparr>eb_paths := p\<lparr>path_strict := True\<rparr>\<rparr>
                       else if k = ''path_file'' then eb\<lparr>eb_paths := p\<lparr>path_file := Some v\<rparr>\<rparr>
                       else if k = ''path_extension'' then eb\<lparr>eb_paths := p\<lparr>path_extension := Some v\<rparr>\<rparr>
                       else if k = ''start_from_root'' \<and> v = ''yes'' then eb\<lparr>eb_start_from_root := True\<rparr>
                       else eb)
                in case leaf_val l of
                     VClause name_ch \<Rightarrow>
                       if k = ''name'' then map_option (\<lambda>t. eb\<lparr>eb_name_tree := Some t\<rparr>) (build_name_tree n S name_ch)
                       else Some simple
                   | _ \<Rightarrow> Some simple))
      | _ \<Rightarrow> Some eb)"

definition process_complex_enum_from_children ::
  "nat \<Rightarrow> Source \<Rightarrow> rstr \<Rightarrow> Child list \<Rightarrow> rstr list \<Rightarrow> ComplexEnumDef option" where
  "process_complex_enum_from_children n S name children cm =
     map_option (\<lambda>eb.
       \<lparr>ce_name = name, ce_description = unwrap_or (extract_description_from_comments cm) name,
        ce_path_options = eb_paths eb, ce_name_tree = unwrap_or (eb_name_tree eb) NameTreeEmpty,
        ce_start_from_root = eb_start_from_root eb\<rparr>)
       (fold_opt (enum_body_child n S) children
         \<lparr>eb_paths = no_paths, eb_start_from_root = False, eb_name_tree = None\<rparr>)"

definition extract_enum_child :: "nat \<Rightarrow> Source \<Rightarrow> rstr list \<times> Child \<Rightarrow> RuleSet \<Rightarrow> RuleSet option" where
  "extract_enum_child n S cc rs =
     (case snd cc of
        ChildLeaf i \<Rightarrow>
          (case leaf_at S i of
             None \<Rightarrow> None
           | Some l \<Rightarrow>
               (let key = text_of S (leaf_key l)
                in if starts_with key ''enum[''
                   then (case extract_bracket_content key ''enum'' of
                           None \<Rightarrow> Some rs
                         | Some enum_name \<Rightarrow>
                             map_option (\<lambda>d. rs\<lparr>rule_enums := rule_enums rs @ [d]\<rparr>)
                               (process_enum_node S enum_name l (fst cc)))
                   else if starts_with key ''complex_enum[''
                   then (case (extract_bracket_content key ''complex_enum'', leaf_val l) of
                           (Some enum_name, VClause ch) \<Rightarrow>
                             map_option (\<lambda>d. rs\<lparr>rule_complex_enums := rule_complex_enums rs @ [d]\<rparr>)
                               (process_complex_enum_from_children n S enum_name ch (fst cc))
                         | _ \<Rightarrow> Some rs)
                   else Some rs))
      | _ \<Rightarrow> Some rs)"

definition extract_enums_from_children :: "nat \<Rightarrow> Source \<Rightarrow> Child list \<Rightarrow> RuleSet \<Rightarrow> RuleSet option" where
  "extract_enums_from_children n S children rs =
     (case precompute_comments S children of
        None \<Rightarrow> None
      | Some cms \<Rightarrow> fold_opt (extract_enum_child n S) (zip cms children) rs)"

text \<open>The shape of the loops that look at leaves only.\<close>

definition with_leaf :: "Source \<Rightarrow> (Leaf \<Rightarrow> rstr \<Rightarrow> 'r \<Rightarrow> 'r option) \<Rightarrow> Child \<Rightarrow> 'r \<Rightarrow> 'r option" where
  "with_leaf S f c r =
     (case c of
        ChildLeaf i \<Rightarrow>
          (case leaf_at S i of None \<Rightarrow> None | Some l \<Rightarrow> f l (text_of S (leaf_key l)) r)
      | _ \<Rightarrow> Some r)"

definition extract_value_leaf :: "Source \<Rightarrow> Leaf \<Rightarrow> rstr \<Rightarrow> RuleSet \<Rightarrow> RuleSet option" where
  "extract_value_leaf S l key rs =
     (if starts_with key ''value[''
      then (case extract_bracket_content key ''value'' of
              None \<Rightarrow> Some rs
            | Some value_name \<Rightarrow>
                map_option (\<lambda>vals. rs\<lparr>rule_values := upd_entry [] value_name (\<lambda>vs. vs @ vals) (rule_values rs)\<rparr>)
                  (collect_leaf_values_from_clause S (leaf_val l)))
      else Some rs)"

definition extract_values_from_children :: "Source \<Rightarrow> Child list \<Rightarrow> RuleSet \<Rightarrow> RuleSet option" where
  "extract_values_from_children S children rs = fold_opt (with_leaf S (extract_value_leaf S)) children rs"

section \<open>Scopes, links and modifiers\<close>

definition extract_modifier_leaf :: "Source \<Rightarrow> Leaf \<Rightarrow> rstr \<Rightarrow> RuleSet \<Rightarrow> RuleSet option" where
  "extract_modifier_leaf S l name rs =
     Some (if name \<noteq> [] then rs\<lparr>rule_modifiers := rule_modifiers rs @ [(name, value_to_string S (leaf_val l))]\<rparr> else rs)"

definition extract_modifier_names :: "Source \<Rightarrow> Child list \<Rightarrow> RuleSet \<Rightarrow> RuleSet option" where
  "extract_modifier_names S children rs = fold_opt (with_leaf S (extract_modifier_leaf S)) children rs"

definition entry_body :: "Source \<Rightarrow> Child \<Rightarrow> (rstr \<times> Child list) option option" where
  "entry_body S c =
     map_option (map_option (\<lambda>kc. (text_of S (kc_key kc), kc_children kc))) (keyed_clause (src_arena S) c)"

text \<open>The first leaf with the key; the values of its clause.\<close>

fun child_clause_values :: "Source \<Rightarrow> Child list \<Rightarrow> rstr \<Rightarrow> rstr list option" where
  "child_clause_values S [] key = Some []"
| "child_clause_values S (ChildLeaf i # cs) key =
     (case leaf_at S i of
        None \<Rightarrow> None
      | Some l \<Rightarrow> if text_of S (leaf_key l) = key then collect_leaf_values_from_clause S (leaf_val l)
                  else child_clause_values S cs key)"
| "child_clause_values S (c # cs) key = child_clause_values S cs key"

fun is_clause :: "AstValue \<Rightarrow> bool" where
  "is_clause (VClause _) = True"
| "is_clause _ = False"

definition scalar_of :: "Source \<Rightarrow> rstr \<Rightarrow> Child \<Rightarrow> rstr list option" where
  "scalar_of S key c =
     (case c of
        ChildLeaf i \<Rightarrow>
          map_option (\<lambda>l. if text_of S (leaf_key l) = key \<and> \<not> is_clause (leaf_val l)
            then [value_to_string S (leaf_val l)] else []) (leaf_at S i)
      | _ \<Rightarrow> Some [])"

fun child_scalar :: "Source \<Rightarrow> Child list \<Rightarrow> rstr \<Rightarrow> rstr option option" where
  "child_scalar S [] key = Some None"
| "child_scalar S (c # cs) key =
     (case scalar_of S key c of None \<Rightarrow> None | Some [] \<Rightarrow> child_scalar S cs key | Some (v # _) \<Rightarrow> Some (Some v))"

definition child_scalars :: "Source \<Rightarrow> Child list \<Rightarrow> rstr \<Rightarrow> rstr list option" where
  "child_scalars S children key = collect (scalar_of S key) children"

definition child_scope_list :: "Source \<Rightarrow> Child list \<Rightarrow> rstr \<Rightarrow> rstr list option" where
  "child_scope_list S children key =
     (case child_clause_values S children key of
        None \<Rightarrow> None
      | Some [] \<Rightarrow> map_option (\<lambda>s. case s of None \<Rightarrow> [] | Some v \<Rightarrow> [v]) (child_scalar S children key)
      | Some vs \<Rightarrow> Some vs)"

definition extract_category :: "Source \<Rightarrow> Child \<Rightarrow> RuleSet \<Rightarrow> RuleSet option" where
  "extract_category S c rs =
     (case entry_body S c of
        None \<Rightarrow> None
      | Some None \<Rightarrow> Some rs
      | Some (Some (name, body)) \<Rightarrow>
          if name = [] then Some rs
          else map_option (\<lambda>ss. rs\<lparr>rule_modifier_categories := AList.update name ss (rule_modifier_categories rs)\<rparr>)
            (child_clause_values S body ''supported_scopes''))"

definition extract_modifier_categories :: "Source \<Rightarrow> Child list \<Rightarrow> RuleSet \<Rightarrow> RuleSet option" where
  "extract_modifier_categories S children rs = fold_opt (extract_category S) children rs"

definition extract_scope_def :: "Source \<Rightarrow> Child \<Rightarrow> RuleSet \<Rightarrow> RuleSet option" where
  "extract_scope_def S c rs =
     (case entry_body S c of
        None \<Rightarrow> None
      | Some None \<Rightarrow> Some rs
      | Some (Some (raw, body)) \<Rightarrow>
          (let name = trim_matches (CHR 0x22) raw
           in if name = [] then Some rs
              else (case (child_clause_values S body ''aliases'', child_clause_values S body ''is_subscope_of'') of
                      (Some als, Some sups) \<Rightarrow>
                        Some (rs\<lparr>rule_scope_inputs := rule_scope_inputs rs @
                          [\<lparr>si_name = name, si_aliases = als, si_is_subscope_of = sups\<rparr>]\<rparr>)
                    | _ \<Rightarrow> None)))"

definition extract_scope_defs :: "Source \<Rightarrow> Child list \<Rightarrow> RuleSet \<Rightarrow> RuleSet option" where
  "extract_scope_defs S children rs = fold_opt (extract_scope_def S) children rs"

definition extract_command_leaf :: "Leaf \<Rightarrow> rstr \<Rightarrow> RuleSet \<Rightarrow> RuleSet option" where
  "extract_command_leaf l key rs =
     (let name = trim_matches (CHR 0x22) (trim key)
      in Some (if name = [] \<or> starts_with name ''<'' \<and> ends_with name ''>'' then rs
               else rs\<lparr>rule_localisation_commands := insert (to_ascii_lowercase name) (rule_localisation_commands rs)\<rparr>))"

definition extract_localisation_commands :: "Source \<Rightarrow> Child list \<Rightarrow> RuleSet \<Rightarrow> RuleSet option" where
  "extract_localisation_commands S children rs = fold_opt (with_leaf S extract_command_leaf) children rs"

definition shorthand_link :: "Leaf \<Rightarrow> rstr \<Rightarrow> RuleSet \<Rightarrow> RuleSet option" where
  "shorthand_link l n rs =
     Some (if n \<noteq> [] then rs\<lparr>rule_scope_links := insert (to_ascii_lowercase n) (rule_scope_links rs)\<rparr> else rs)"

definition link_input :: "Source \<Rightarrow> rstr \<Rightarrow> Child list \<Rightarrow> LinkInput option" where
  "link_input S name body =
     (case (child_scalar S body ''prefix'', child_scalar S body ''output_scope'', child_scope_list S body ''input_scopes'',
            child_scalar S body ''from_data'', child_scalars S body ''data_source'') of
        (Some pre, Some out, Some ins, Some fd, Some ds) \<Rightarrow>
          Some \<lparr>li_name = name, li_output_scope = out, li_input_scopes = ins, li_prefix = pre,
            li_from_data = (case fd of None \<Rightarrow> False | Some v \<Rightarrow> eq_ignore_ascii_case v ''yes''), li_data_source = ds\<rparr>
      | _ \<Rightarrow> None)"

definition extract_link :: "Source \<Rightarrow> Child \<Rightarrow> RuleSet \<Rightarrow> RuleSet option" where
  "extract_link S c rs =
     (case entry_body S c of
        None \<Rightarrow> None
      | Some None \<Rightarrow> with_leaf S shorthand_link c rs
      | Some (Some (raw, body)) \<Rightarrow>
          (let name = trim_matches (CHR 0x22) raw
           in if name = [] then Some rs
              else map_option (\<lambda>li.
                rs\<lparr>rule_scope_links := insert (to_ascii_lowercase name) (rule_scope_links rs),
                   rule_link_inputs := rule_link_inputs rs @ [li]\<rparr>) (link_input S name body)))"

definition extract_links :: "Source \<Rightarrow> Child list \<Rightarrow> RuleSet \<Rightarrow> RuleSet option" where
  "extract_links S children rs = fold_opt (extract_link S) children rs"

section \<open>A whole file\<close>

definition process_root_leaf :: "nat \<Rightarrow> Source \<Rightarrow> rstr \<Rightarrow> Leaf \<Rightarrow> rstr list \<Rightarrow> RuleSet \<Rightarrow> RuleSet option" where
  "process_root_leaf n S key l cm rs =
     (let opts = options_from_comments cm (leaf_is_eqeq l)
      in if starts_with key ''alias[''
         then (case get_alias_settings key ''alias'' of
                 None \<Rightarrow> Some rs
               | Some (category, alias_name) \<Rightarrow>
                   map_option (\<lambda>rule. rs\<lparr>rule_aliases := rule_aliases rs @ [(category @ '':'' @ alias_name, (rule, opts))]\<rparr>)
                     (leaf_to_rule n S l))
         else if starts_with key ''single_alias[''
         then (case get_setting_from_string key ''single_alias'' of
                 None \<Rightarrow> Some rs
               | Some alias_name \<Rightarrow>
                   map_option (\<lambda>rule. rs\<lparr>rule_single_aliases := rule_single_aliases rs @ [(alias_name, (rule, opts))]\<rparr>)
                     (leaf_to_rule n S l))
         else map_option (\<lambda>rule. rs\<lparr>rule_root_rules := rule_root_rules rs @ [TypeRule key (rule, opts)]\<rparr>)
                (leaf_to_rule n S l))"

definition on_clause :: "AstValue \<Rightarrow> (Child list \<Rightarrow> RuleSet \<Rightarrow> RuleSet option) \<Rightarrow> RuleSet \<Rightarrow> RuleSet option" where
  "on_clause v f rs = (case v of VClause children \<Rightarrow> f children rs | _ \<Rightarrow> Some rs)"

definition root_child :: "nat \<Rightarrow> Source \<Rightarrow> rstr list \<times> Child \<Rightarrow> RuleSet \<Rightarrow> RuleSet option" where
  "root_child n S cc =
     with_leaf S (\<lambda>l key rs.
       if key = ''types'' then on_clause (leaf_val l) (extract_types_from_children n S) rs
       else if key = ''enums'' then on_clause (leaf_val l) (extract_enums_from_children n S) rs
       else if key = ''values'' then on_clause (leaf_val l) (extract_values_from_children S) rs
       else if key = ''modifiers'' then on_clause (leaf_val l) (extract_modifier_names S) rs
       else if key = ''modifier_categories'' then on_clause (leaf_val l) (extract_modifier_categories S) rs
       else if key = ''links'' then on_clause (leaf_val l) (extract_links S) rs
       else if key = ''scopes'' then on_clause (leaf_val l) (extract_scope_defs S) rs
       else if key = ''localisation_commands'' then on_clause (leaf_val l) (extract_localisation_commands S) rs
       else process_root_leaf n S key l (fst cc) rs) (snd cc)"

definition fill_ruleset :: "nat \<Rightarrow> Source \<Rightarrow> Child list \<Rightarrow> RuleSet option" where
  "fill_ruleset n S root =
     (case precompute_comments S root of
        None \<Rightarrow> None
      | Some cms \<Rightarrow> fold_opt (root_child n S) (zip cms root) ruleset_new)"

text \<open>Enough for every file the parser returns: it nests at most 256 levels of nodes.\<close>

definition CONVERT_LEVELS :: nat where
  "CONVERT_LEVELS = 258"

definition source_of :: "(Decimal \<Rightarrow> rstr) \<Rightarrow> ParsedFile \<Rightarrow> StringTable \<Rightarrow> Source" where
  "source_of show ast table = \<lparr>src_arena = pf_arena ast, src_table = table, src_show = show\<rparr>"

definition ast_to_ruleset_raw :: "(Decimal \<Rightarrow> rstr) \<Rightarrow> ParsedFile \<Rightarrow> StringTable \<Rightarrow> RuleSet option" where
  "ast_to_ruleset_raw show ast table = fill_ruleset CONVERT_LEVELS (source_of show ast table) (root_children ast)"

definition ast_to_ruleset :: "(Decimal \<Rightarrow> rstr) \<Rightarrow> ParsedFile \<Rightarrow> StringTable \<Rightarrow> RuleSet option" where
  "ast_to_ruleset show ast table = map_option reindex (ast_to_ruleset_raw show ast table)"

end
