(* ===== verification/Converter_Totality.thy ===== *)
theory Converter_Totality
  imports Config_Converter Parser_Properties
begin

text \<open>
  The conversion of a configuration file never panics and never runs out of fuel on a file the
  parser returned: every index is in range and clauses nest within the parser's limit.
\<close>

section \<open>Loops that may panic\<close>

lemma those_Some: "(\<forall>x \<in> set xs. x \<noteq> None) \<Longrightarrow> those xs \<noteq> None"
  by (induction xs) auto

lemma traverse_some: "(\<And>x. x \<in> set xs \<Longrightarrow> f x \<noteq> None) \<Longrightarrow> traverse f xs \<noteq> None"
  using those_Some [of "map f xs"] by (auto simp: traverse_def)

lemma collect_some: "(\<And>x. x \<in> set xs \<Longrightarrow> f x \<noteq> None) \<Longrightarrow> collect f xs \<noteq> None"
  using traverse_some [of xs f] by (simp add: collect_def)

lemma fold_opt_some: "(\<And>x s. x \<in> set xs \<Longrightarrow> f x s \<noteq> None) \<Longrightarrow> fold_opt f xs s \<noteq> None"
  by (induction xs arbitrary: s) (auto simp: bind_eq_None_conv)

section \<open>Nodes in range\<close>

abbreviation in_range :: "Source \<Rightarrow> Child \<Rightarrow> bool" where
  "in_range S c \<equiv> child_in (src_arena S) c"

abbreviation levels_ok :: "Source \<Rightarrow> nat \<Rightarrow> Child list \<Rightarrow> bool" where
  "levels_ok S d cs \<equiv> refs_ok (src_arena S) d cs"

lemma access_some [simp]:
  "leaf_at S i \<noteq> None \<longleftrightarrow> in_range S (ChildLeaf i)"
  "leaf_value_at S i \<noteq> None \<longleftrightarrow> in_range S (ChildLeafValue i)"
  "comment_at S i \<noteq> None \<longleftrightarrow> in_range S (ChildComment i)"
  by (simp_all add: leaf_at_def leaf_value_at_def comment_at_def)

lemma child_ok_le: "child_ok a d c \<Longrightarrow> d \<le> d' \<Longrightarrow> child_ok a d' c"
proof (induction d arbitrary: c d')
  case 0
  then show ?case by (cases d') auto
next
  case (Suc d)
  then obtain e where "d' = Suc e" "d \<le> e" by (cases d') auto
  then show ?case using Suc by (auto simp: list_all_iff)
qed

lemma refs_ok_le: "refs_ok a d cs \<Longrightarrow> d \<le> d' \<Longrightarrow> refs_ok a d' cs"
  by (cases d; cases d') (auto simp: refs_ok_def list_all_iff intro: child_ok_le)

lemma refs_ok_in: "refs_ok a d cs \<Longrightarrow> c \<in> set cs \<Longrightarrow> child_in a c"
  by (cases d) (auto simp: refs_ok_def list_all_iff child_ok_iff)

lemma leaf_clause_ok:
  "refs_ok a (Suc d) cs \<Longrightarrow> ChildLeaf i \<in> set cs \<Longrightarrow> leaf_val (leaves a ! unat i) = VClause ch \<Longrightarrow> refs_ok a d ch"
  by (auto simp: refs_ok_def [of a "Suc d"] list_all_iff child_ok_iff value_children_def)

lemma leaf_value_clause_ok:
  "refs_ok a (Suc d) cs \<Longrightarrow> ChildLeafValue i \<in> set cs \<Longrightarrow> lv_value (leaf_values a ! unat i) = VClause ch \<Longrightarrow> refs_ok a d ch"
  by (auto simp: refs_ok_def [of a "Suc d"] list_all_iff child_ok_iff value_children_def)

lemma leaf_at_Some: "leaf_at S i = Some l \<Longrightarrow> l = leaves (src_arena S) ! unat i"
  by (simp add: leaf_at_def split: if_splits)

lemma leaf_value_at_Some: "leaf_value_at S i = Some l \<Longrightarrow> l = leaf_values (src_arena S) ! unat i"
  by (simp add: leaf_value_at_def split: if_splits)

lemma comments_from_some:
  "(\<And>c. c \<in> set cs \<Longrightarrow> in_range S c) \<Longrightarrow> \<exists>cms. comments_from S cs pending = Some cms \<and> length cms = length cs"
proof (induction cs arbitrary: pending)
  case (Cons c cs)
  then have rest: "\<exists>cms. comments_from S cs p = Some cms \<and> length cms = length cs" for p by simp
  show ?case
  proof (cases c)
    case (ChildComment i)
    have "in_range S c" by (rule Cons.prems) simp
    then have "in_range S (ChildComment i)" by (simp only: ChildComment)
    then obtain c' where "comment_at S i = Some c'" using access_some(3) [of S i] by blast
    then show ?thesis using rest [of "pending @ [trim (comment_text c')]"] ChildComment by auto
  qed (use rest [of "[]"] in auto)
qed simp

lemma precompute_some:
  assumes "levels_ok S d cs"
  shows "\<exists>cms. precompute_comments S cs = Some cms \<and> length cms = length cs"
  using comments_from_some [of cs S "[]"] refs_ok_in [OF assms] by (simp add: precompute_comments_def)

lemma collect_commented_some:
  assumes "levels_ok S d cs" "\<And>cm c. c \<in> set cs \<Longrightarrow> f cm c \<noteq> None"
  shows "collect_commented S f cs \<noteq> None"
proof -
  obtain cms where cms: "precompute_comments S cs = Some cms" using precompute_some [OF assms(1)] by blast
  have "collect (\<lambda>(cm, c). f cm c) (zip cms cs) \<noteq> None"
    by (rule collect_some) (use assms(2) in \<open>auto dest: set_zip_rightD\<close>)
  then show ?thesis by (simp add: collect_commented_def cms)
qed

section \<open>The converter never panics\<close>

lemma child_rule_some:
  assumes "levels_ok S (Suc d) cs" "c \<in> set cs" "\<And>ch. levels_ok S d ch \<Longrightarrow> rec ch \<noteq> None"
  shows "child_rule rec S cm c \<noteq> None"
proof (cases c)
  case (ChildLeaf i)
  have "in_range S c" using refs_ok_in [OF assms(1,2)] .
  then obtain l where l: "leaf_at S i = Some l" using access_some(1) [of S i] ChildLeaf by blast
  have "rec ch \<noteq> None" if "leaf_val l = VClause ch" for ch
    using leaf_clause_ok [OF assms(1), of i ch] assms(2,3) that leaf_at_Some [OF l] ChildLeaf by auto
  then show ?thesis
    by (auto simp: child_rule_def ChildLeaf l subtype_rule_def leaf_rule_def Let_def split: AstValue.splits option.splits)
next
  case (ChildLeafValue i)
  have "in_range S c" using refs_ok_in [OF assms(1,2)] .
  then obtain l where l: "leaf_value_at S i = Some l" using access_some(2) [of S i] ChildLeafValue by blast
  have "rec ch \<noteq> None" if "lv_value l = VClause ch" for ch
    using leaf_value_clause_ok [OF assms(1), of i ch] assms(2,3) that leaf_value_at_Some [OF l] ChildLeafValue by auto
  then show ?thesis
    by (auto simp: child_rule_def ChildLeafValue l leaf_value_rule_def Let_def split: AstValue.splits)
qed (simp add: child_rule_def)

lemma children_to_rules_some: "levels_ok S d cs \<Longrightarrow> d < n \<Longrightarrow> children_to_rules n S cs \<noteq> None"
proof (induction n arbitrary: d cs)
  case (Suc n)
  show ?case
  proof (cases d)
    case 0
    then show ?thesis using Suc.prems
      by (simp add: refs_ok_def collect_commented_def precompute_comments_def collect_def traverse_def)
  next
    case (Suc e)
    have "child_rule (children_to_rules n S) S cm c \<noteq> None" if "c \<in> set cs" for cm c
      using child_rule_some [of S e cs c "children_to_rules n S"] Suc.prems Suc.IH [of e] Suc that by auto
    then have "collect_commented S (child_rule (children_to_rules n S) S) cs \<noteq> None"
      by (rule collect_commented_some [OF Suc.prems(1)])
    then show ?thesis by simp
  qed
qed simp


lemma leaf_of:
  assumes "levels_ok S d cs" "ChildLeaf i \<in> set cs"
  obtains l where "leaf_at S i = Some l" "l = leaves (src_arena S) ! unat i"
    "\<And>ch. leaf_val l = VClause ch \<Longrightarrow> \<exists>e. d = Suc e \<and> levels_ok S e ch"
proof -
  have "in_range S (ChildLeaf i)" by (rule refs_ok_in [OF assms])
  then obtain l where l: "leaf_at S i = Some l" using access_some(1) [of S i] by blast
  have "\<exists>e. d = Suc e \<and> levels_ok S e ch" if "leaf_val l = VClause ch" for ch
  proof (cases d)
    case 0
    then show ?thesis using assms by (simp add: refs_ok_def)
  next
    case (Suc e)
    then show ?thesis using leaf_clause_ok [of "src_arena S" e cs i ch] assms that leaf_at_Some [OF l] by auto
  qed
  then show ?thesis by (rule that [OF l leaf_at_Some [OF l]])
qed

lemma leaf_value_of:
  assumes "levels_ok S d cs" "ChildLeafValue i \<in> set cs"
  obtains lv where "leaf_value_at S i = Some lv"
proof -
  have "in_range S (ChildLeafValue i)" by (rule refs_ok_in [OF assms])
  then show ?thesis using that access_some(2) [of S i] by blast
qed

lemma child_text_some: "levels_ok S d cs \<Longrightarrow> c \<in> set cs \<Longrightarrow> child_text S c \<noteq> None"
  by (cases c) (auto simp: child_text_def Let_def elim: leaf_of leaf_value_of)

lemma values_some: "levels_ok S d ch \<Longrightarrow> collect_leaf_values_from_children S ch \<noteq> None"
  unfolding collect_leaf_values_from_children_def by (rule collect_some) (rule child_text_some)

lemma clause_values_some:
  "(\<And>ch. v = VClause ch \<Longrightarrow> levels_ok S d ch) \<Longrightarrow> collect_leaf_values_from_clause S v \<noteq> None"
  using values_some by (cases v) (auto simp: collect_leaf_values_from_clause_def)

lemma leaf_to_rule_some:
  "(\<And>ch. leaf_val l = VClause ch \<Longrightarrow> levels_ok S d ch) \<Longrightarrow> d < n \<Longrightarrow> leaf_to_rule n S l \<noteq> None"
  using children_to_rules_some [of S d _ n] by (cases "leaf_val l") (auto simp: leaf_to_rule_def)

lemma skip_block_some: "levels_ok S d ch \<Longrightarrow> parse_skip_root_key_block S ch out \<noteq> None"
proof -
  assume ok: "levels_ok S d ch"
  have "collect (skip_block_child S) ch \<noteq> None"
    by (rule collect_some, rename_tac c, case_tac c) (auto simp: skip_block_child_def Let_def elim: leaf_value_of [OF ok])
  then show ?thesis by (simp add: parse_skip_root_key_block_def)
qed

lemma type_option_some:
  assumes "\<And>ch. leaf_val l = VClause ch \<Longrightarrow> \<exists>d. levels_ok S d ch"
  shows "type_option S l k def \<noteq> None"
proof -
  have "parse_skip_root_key_block S ch out \<noteq> None" if "leaf_val l = VClause ch" for ch out
    using assms [OF that] skip_block_some by blast
  then show ?thesis by (auto simp: type_option_def Let_def split: AstValue.split)
qed

lemma build_subtype_some:
  assumes "levels_ok S d ch" "d < n"
  shows "build_subtype n S name ch cm \<noteq> None"
proof -
  have "traverse (type_key_field_value S) ch \<noteq> None"
    by (rule traverse_some, rename_tac c, case_tac c) (auto simp: type_key_field_value_def elim: leaf_of [OF assms(1)])
  then obtain keys where keys: "traverse (type_key_field_value S) ch = Some keys" by blast
  have "levels_ok S d (map fst (filter (\<lambda>(c, k). k = None) (zip ch keys)))"
    using assms(1) by (cases d) (auto simp: refs_ok_def list_all_iff dest: set_zip_leftD)
  from children_to_rules_some [OF this assms(2)] show ?thesis
    by (auto simp: build_subtype_def keys Let_def)
qed

lemma block_some:
  assumes "levels_ok S d ch"
  shows "for_each_block_leaf S f ch \<noteq> None"
  unfolding for_each_block_leaf_def
  by (rule collect_commented_some [OF assms], rename_tac cm c, case_tac c)
    (auto simp: block_leaf_def Let_def elim: leaf_of [OF assms])

lemma keyed_clause_cases:
  assumes "levels_ok S d cs" "c \<in> set cs"
  obtains "keyed_clause (src_arena S) c = Some None"
    | kc e where "keyed_clause (src_arena S) c = Some (Some kc)" "d = Suc e" "levels_ok S e (kc_children kc)"
proof (cases c)
  case (ChildLeaf i)
  then have "ChildLeaf i \<in> set cs" using assms(2) by simp
  from leaf_of [OF assms(1) this] obtain l where l: "leaf_at S i = Some l" "l = leaves (src_arena S) ! unat i"
    "\<And>ch. leaf_val l = VClause ch \<Longrightarrow> \<exists>e. d = Suc e \<and> levels_ok S e ch" by blast
  have "unat i < length (leaves (src_arena S))" using l(1) by (simp add: leaf_at_def split: if_splits)
  then show ?thesis
    using that l(2,3) ChildLeaf by (cases "leaf_val l") (auto simp: keyed_clause_def Let_def)
qed (use that in \<open>auto simp: keyed_clause_def\<close>)

lemma subtype_block_some:
  assumes "levels_ok S d cs" "\<And>e ch. levels_ok S e ch \<Longrightarrow> f ch \<noteq> None"
  shows "collect (subtype_block S f) cs \<noteq> None"
proof (rule collect_some)
  fix c assume c: "c \<in> set cs"
  show "subtype_block S f c \<noteq> None"
    by (rule keyed_clause_cases [OF assms(1) c])
      (use assms(2) in \<open>auto simp: subtype_block_def Let_def split: option.split\<close>)
qed


lemma type_body_child_some:
  assumes "levels_ok S d cs" "snd cc \<in> set cs" "d \<le> n" "0 < n"
  shows "type_body_child n S cc tb \<noteq> None"
proof (cases "snd cc")
  case (ChildLeaf i)
  then have "ChildLeaf i \<in> set cs" using assms(2) by simp
  from leaf_of [OF assms(1) this] obtain l where l: "leaf_at S i = Some l"
    "\<And>ch. leaf_val l = VClause ch \<Longrightarrow> \<exists>e. d = Suc e \<and> levels_ok S e ch" by blast
  have "process_subtype_node_from_leaf n S sub l cm \<noteq> None" for sub cm
  proof (cases "leaf_val l")
    case (VClause ch)
    then obtain e where "d = Suc e" "levels_ok S e ch" using l(2) by blast
    then show ?thesis using VClause assms(3) build_subtype_some [of S e ch n] by (simp add: process_subtype_node_from_leaf_def)
  qed (use build_subtype_some [of S 0 "[]" n sub cm] assms(4) in
      \<open>simp_all add: process_subtype_node_from_leaf_def refs_ok_def\<close>)
  moreover have "type_option S l k def \<noteq> None" for k def
  proof (rule type_option_some)
    fix ch assume "leaf_val l = VClause ch"
    from l(2) [OF this] show "\<exists>d. levels_ok S d ch" by auto
  qed
  ultimately show ?thesis
    by (cases "leaf_val l"; cases "extract_bracket_content (text_of S (leaf_key l)) ''subtype''")
      (simp_all add: type_body_child_def ChildLeaf l(1) Let_def)
qed (auto simp: type_body_child_def)


lemma process_type_node_some:
  assumes "\<And>ch. leaf_val l = VClause ch \<Longrightarrow> levels_ok S d ch" "d \<le> n" "0 < n"
  shows "process_type_node n S name l cm \<noteq> None"
proof (cases "leaf_val l")
  case (VClause ch)
  have ch: "levels_ok S d ch" using assms(1) VClause by blast
  obtain cms where cms: "precompute_comments S ch = Some cms" using precompute_some [OF ch] by blast
  define tb where "tb = \<lparr>tb_def = type_before_body name cm, tb_localisation = None, tb_modifiers = None\<rparr>"
  define I where "I t \<longleftrightarrow> (\<forall>c. tb_localisation t = Some c \<longrightarrow> (\<exists>e. levels_ok S e c)) \<and>
    (\<forall>c. tb_modifiers t = Some c \<longrightarrow> (\<exists>e. levels_ok S e c))" for t :: TypeBody
  have step: "\<exists>t'. type_body_child n S cc t = Some t' \<and> I t'" if "cc \<in> set (zip cms ch)" "I t" for cc t
  proof -
    have c: "snd cc \<in> set ch" using that(1) set_zip_rightD [of "fst cc" "snd cc"] by simp
    then obtain t' where t': "type_body_child n S cc t = Some t'"
      using type_body_child_some [OF ch _ assms(2,3)] by blast
    have "I t'"
    proof (cases "snd cc")
      case (ChildLeaf i)
      then have "ChildLeaf i \<in> set ch" using c by simp
      from leaf_of [OF ch this] obtain l where l: "leaf_at S i = Some l"
        "\<And>ch. leaf_val l = VClause ch \<Longrightarrow> \<exists>e. d = Suc e \<and> levels_ok S e ch" by blast
      show ?thesis
        using t' that(2) l(2) unfolding type_body_child_def ChildLeaf I_def
        by (auto simp: l(1) Let_def split: if_splits option.splits AstValue.splits)
    qed (use t' that(2) in \<open>simp_all add: type_body_child_def\<close>)
    then show ?thesis using t' by blast
  qed
  have "\<exists>t'. fold_opt (type_body_child n S) xs t = Some t' \<and> I t'"
    if "set xs \<subseteq> set (zip cms ch)" "I t" for xs t
    using that
  proof (induction xs arbitrary: t)
    case (Cons x xs)
    then obtain t' where "type_body_child n S x t = Some t'" "I t'" using step [of x t] by auto
    then show ?case using Cons by auto
  qed simp
  from this [of "zip cms ch" tb] obtain t' where t': "fold_opt (type_body_child n S) (zip cms ch) tb = Some t'" "I t'"
    by (auto simp: I_def tb_def)
  have "apply_localisation_block S (tb_localisation t') def \<noteq> None" for def
    using t'(2) block_some [of S _ _ localisation_entry] subtype_block_some [of S _ _ "parse_localisation_block S"]
    by (fastforce simp: apply_localisation_block_def I_def parse_subtype_localisation_def parse_localisation_block_def
        split: option.split)
  moreover have "apply_modifiers_block S (tb_modifiers t') def \<noteq> None" for def
    using t'(2) block_some [of S _ _ modifier_entry] subtype_block_some [of S _ _ "parse_modifiers_block S"]
    by (fastforce simp: apply_modifiers_block_def I_def parse_subtype_modifiers_def parse_modifiers_block_def
        split: option.split)
  ultimately show ?thesis
    using t'(1) by (auto simp: process_type_node_def VClause cms Let_def tb_def split: option.split)
qed (simp_all add: process_type_node_def)


lemma name_tree_some: "levels_ok S d ch \<Longrightarrow> d < n \<Longrightarrow> build_name_tree n S ch \<noteq> None"
proof (induction n arbitrary: d ch)
  case (Suc n)
  have "name_entry (build_name_tree n S) S c \<noteq> None" if c: "c \<in> set ch" for c
  proof (cases c)
    case (ChildLeaf i)
    then have "ChildLeaf i \<in> set ch" using c by simp
    from leaf_of [OF Suc.prems(1) this] obtain l where l: "leaf_at S i = Some l"
      "\<And>ch. leaf_val l = VClause ch \<Longrightarrow> \<exists>e. d = Suc e \<and> levels_ok S e ch" by blast
    have "build_name_tree n S x \<noteq> None" if "leaf_val l = VClause x" for x
      using l(2) [OF that] Suc.IH Suc.prems(2) by auto
    then show ?thesis by (cases "leaf_val l") (simp_all add: name_entry_def ChildLeaf l(1) Let_def)
  next
    case (ChildLeafValue i)
    then have "ChildLeafValue i \<in> set ch" using c by simp
    from leaf_value_of [OF Suc.prems(1) this] obtain lv where "leaf_value_at S i = Some lv" by blast
    then show ?thesis by (simp add: name_entry_def ChildLeafValue Let_def)
  qed (simp add: name_entry_def)
  then have "collect (name_entry (build_name_tree n S) S) ch \<noteq> None" by (rule collect_some)
  then show ?case by simp
qed simp

lemma enum_body_child_some:
  assumes "levels_ok S d cs" "c \<in> set cs" "d \<le> n"
  shows "enum_body_child n S c eb \<noteq> None"
proof (cases c)
  case (ChildLeaf i)
  then have "ChildLeaf i \<in> set cs" using assms(2) by simp
  from leaf_of [OF assms(1) this] obtain l where l: "leaf_at S i = Some l"
    "\<And>ch. leaf_val l = VClause ch \<Longrightarrow> \<exists>e. d = Suc e \<and> levels_ok S e ch" by blast
  have "build_name_tree n S x \<noteq> None" if "leaf_val l = VClause x" for x
    using l(2) [OF that] name_tree_some assms(3) by fastforce
  then show ?thesis by (cases "leaf_val l") (simp_all add: enum_body_child_def ChildLeaf l(1) Let_def)
qed (simp_all add: enum_body_child_def)

lemma extract_enum_child_some:
  assumes "levels_ok S d cs" "snd cc \<in> set cs" "d \<le> n"
  shows "extract_enum_child n S cc rs \<noteq> None"
proof (cases "snd cc")
  case (ChildLeaf i)
  then have "ChildLeaf i \<in> set cs" using assms(2) by simp
  from leaf_of [OF assms(1) this] obtain l where l: "leaf_at S i = Some l"
    "\<And>ch. leaf_val l = VClause ch \<Longrightarrow> \<exists>e. d = Suc e \<and> levels_ok S e ch" by blast
  have "process_enum_node S name l cm \<noteq> None" for name cm
    using clause_values_some [of "leaf_val l" S "d - 1"] l(2) by (fastforce simp: process_enum_node_def)
  moreover have "process_complex_enum_from_children n S name ch cm \<noteq> None" if ch: "leaf_val l = VClause ch" for name ch cm
  proof -
    from l(2) [OF ch] obtain e where e: "levels_ok S e ch" "e \<le> n" using assms(3) by auto
    have "fold_opt (enum_body_child n S) ch s \<noteq> None" for s
      by (rule fold_opt_some) (rule enum_body_child_some [OF e(1) _ e(2)])
    then show ?thesis by (auto simp: process_complex_enum_from_children_def)
  qed
  ultimately show ?thesis
    by (auto simp: extract_enum_child_def ChildLeaf l(1) Let_def split: option.split AstValue.split)
qed (simp_all add: extract_enum_child_def)

lemma commented_fold_some:
  assumes "levels_ok S d cs" "\<And>cc s. snd cc \<in> set cs \<Longrightarrow> f cc s \<noteq> None"
  shows "(case precompute_comments S cs of None \<Rightarrow> None | Some cms \<Rightarrow> fold_opt f (zip cms cs) s) \<noteq> None"
proof -
  obtain cms where "precompute_comments S cs = Some cms" using precompute_some [OF assms(1)] by blast
  moreover have "fold_opt f (zip cms cs) s \<noteq> None"
    by (rule fold_opt_some, rule assms(2)) (metis prod.collapse set_zip_rightD)
  ultimately show ?thesis by simp
qed

lemma with_leaf_some:
  assumes "levels_ok S d cs" "c \<in> set cs"
    "\<And>l key r. (\<And>ch. leaf_val l = VClause ch \<Longrightarrow> \<exists>e. d = Suc e \<and> levels_ok S e ch) \<Longrightarrow> f l key r \<noteq> None"
  shows "with_leaf S f c r \<noteq> None"
proof (cases c)
  case (ChildLeaf i)
  then have "ChildLeaf i \<in> set cs" using assms(2) by simp
  from leaf_of [OF assms(1) this] obtain l where l: "leaf_at S i = Some l"
    "\<And>ch. leaf_val l = VClause ch \<Longrightarrow> \<exists>e. d = Suc e \<and> levels_ok S e ch" by blast
  then show ?thesis using assms(3) [OF l(2)] by (simp add: with_leaf_def ChildLeaf)
qed (simp_all add: with_leaf_def)

lemma scalar_some: "levels_ok S d cs \<Longrightarrow> c \<in> set cs \<Longrightarrow> scalar_of S key c \<noteq> None"
  by (cases c) (auto simp: scalar_of_def elim: leaf_of)

lemma levels_ok_Cons: "levels_ok S d (c # cs) \<Longrightarrow> levels_ok S d cs"
  by (cases d) (auto simp: refs_ok_def)

lemma child_scalar_some: "levels_ok S d cs \<Longrightarrow> child_scalar S cs key \<noteq> None"
proof (induction cs)
  case (Cons c cs)
  have "scalar_of S key c \<noteq> None" using scalar_some [OF Cons.prems, of c] by simp
  then show ?case using Cons levels_ok_Cons [OF Cons.prems] by (auto split: list.split)
qed simp

lemma child_scalars_some: "levels_ok S d cs \<Longrightarrow> child_scalars S cs key \<noteq> None"
  unfolding child_scalars_def by (rule collect_some) (rule scalar_some)

lemma child_clause_values_some: "levels_ok S d cs \<Longrightarrow> child_clause_values S cs key \<noteq> None"
proof (induction S cs key rule: child_clause_values.induct)
  case (2 S i cs key)
  have "ChildLeaf i \<in> set (ChildLeaf i # cs)" by simp
  from leaf_of [OF 2(2) this] obtain l where l: "leaf_at S i = Some l"
    "\<And>ch. leaf_val l = VClause ch \<Longrightarrow> \<exists>e. d = Suc e \<and> levels_ok S e ch" by blast
  have "collect_leaf_values_from_clause S (leaf_val l) \<noteq> None"
    using clause_values_some [of "leaf_val l" S "d - 1"] l(2) by fastforce
  then show ?case using 2(1) [OF l(1)] levels_ok_Cons [OF 2(2)] by (auto simp: l(1))
qed (auto dest: levels_ok_Cons)

lemma child_scope_list_some: "levels_ok S d cs \<Longrightarrow> child_scope_list S cs key \<noteq> None"
  using child_clause_values_some [of S d cs key] child_scalar_some [of S d cs key]
  by (auto simp: child_scope_list_def split: list.split)

lemma entry_body_cases:
  assumes "levels_ok S d cs" "c \<in> set cs"
  obtains "entry_body S c = Some None"
    | name body e where "entry_body S c = Some (Some (name, body))" "levels_ok S e body"
  using that by (rule keyed_clause_cases [OF assms]) (auto simp: entry_body_def)

lemma extract_category_some:
  assumes "levels_ok S d cs" "c \<in> set cs"
  shows "extract_category S c rs \<noteq> None"
  by (rule entry_body_cases [OF assms]) (use child_clause_values_some in \<open>auto simp: extract_category_def\<close>)

lemma extract_scope_def_some:
  assumes "levels_ok S d cs" "c \<in> set cs"
  shows "extract_scope_def S c rs \<noteq> None"
proof (rule entry_body_cases [OF assms])
  fix name body e assume b: "entry_body S c = Some (Some (name, body))" "levels_ok S e body"
  obtain x y where "child_clause_values S body ''aliases'' = Some x" "child_clause_values S body ''is_subscope_of'' = Some y"
    using child_clause_values_some [OF b(2)] by blast
  then show ?thesis by (simp add: extract_scope_def_def b(1) Let_def)
qed (simp add: extract_scope_def_def)

lemma link_input_some:
  assumes "levels_ok S d body"
  shows "link_input S name body \<noteq> None"
proof -
  obtain a b c e f where "child_scalar S body ''prefix'' = Some a" "child_scalar S body ''output_scope'' = Some b"
    "child_scope_list S body ''input_scopes'' = Some c" "child_scalar S body ''from_data'' = Some e"
    "child_scalars S body ''data_source'' = Some f"
    using child_scalar_some [OF assms, of "''prefix''"] child_scalar_some [OF assms, of "''output_scope''"]
      child_scalar_some [OF assms, of "''from_data''"] child_scalars_some [OF assms, of "''data_source''"]
      child_scope_list_some [OF assms, of "''input_scopes''"] by blast
  then show ?thesis by (simp add: link_input_def)
qed

lemma extract_link_some:
  assumes "levels_ok S d cs" "c \<in> set cs"
  shows "extract_link S c rs \<noteq> None"
proof (rule entry_body_cases [OF assms])
  assume "entry_body S c = Some None"
  moreover have "with_leaf S shorthand_link c rs \<noteq> None"
    by (rule with_leaf_some [OF assms]) (simp add: shorthand_link_def)
  ultimately show ?thesis by (simp add: extract_link_def)
next
  fix name body e assume b: "entry_body S c = Some (Some (name, body))" "levels_ok S e body"
  then show ?thesis using link_input_some [OF b(2)] by (auto simp: extract_link_def Let_def)
qed

lemma extract_types_some:
  assumes "levels_ok S d ch" "d \<le> n" "0 < n"
  shows "extract_types_from_children n S ch rs \<noteq> None"
proof -
  have "extract_one_type n S cm c \<noteq> None" if "c \<in> set ch" for cm c
  proof (cases c)
    case (ChildLeaf i)
    then have "ChildLeaf i \<in> set ch" using that by simp
    from leaf_of [OF assms(1) this] obtain l where l: "leaf_at S i = Some l"
      "\<And>ch. leaf_val l = VClause ch \<Longrightarrow> \<exists>e. d = Suc e \<and> levels_ok S e ch" by blast
    have "process_type_node n S name l cm \<noteq> None" for name
    proof (rule process_type_node_some [of l S "d - 1"])
      fix ch assume "leaf_val l = VClause ch"
      from l(2) [OF this] show "levels_ok S (d - 1) ch" by auto
    qed (use assms(2,3) in auto)
    then show ?thesis by (simp add: extract_one_type_def ChildLeaf l(1) Let_def split: option.split)
  qed (simp_all add: extract_one_type_def)
  then have "collect_commented S (extract_one_type n S) ch \<noteq> None" by (rule collect_commented_some [OF assms(1)])
  then show ?thesis by (simp add: extract_types_from_children_def)
qed

lemma extract_value_leaf_some:
  assumes "\<And>ch. leaf_val l = VClause ch \<Longrightarrow> \<exists>e. d = Suc e \<and> levels_ok S e ch"
  shows "extract_value_leaf S l key rs \<noteq> None"
proof -
  have "collect_leaf_values_from_clause S (leaf_val l) \<noteq> None"
  proof (rule clause_values_some [of _ _ "d - 1"])
    fix ch assume "leaf_val l = VClause ch"
    from assms [OF this] show "levels_ok S (d - 1) ch" by auto
  qed
  then show ?thesis by (auto simp: extract_value_leaf_def split: option.split)
qed

lemma root_child_some:
  assumes "levels_ok S d cs" "snd cc \<in> set cs" "d \<le> n" "0 < n"
  shows "root_child n S cc rs \<noteq> None"
  unfolding root_child_def
proof (rule with_leaf_some [OF assms(1,2)])
  fix l :: Leaf and key r assume l: "\<And>ch. leaf_val l = VClause ch \<Longrightarrow> \<exists>e. d = Suc e \<and> levels_ok S e ch"
  have on: "on_clause (leaf_val l) f r \<noteq> None" if "\<And>ch e. levels_ok S e ch \<Longrightarrow> e < d \<Longrightarrow> f ch r \<noteq> None" for f
  proof (cases "leaf_val l")
    case (VClause ch)
    from l [OF this] obtain e where e: "levels_ok S e ch" "e < d" by auto
    from that [OF this] show ?thesis by (simp add: on_clause_def VClause)
  qed (simp_all add: on_clause_def)
  have enums: "extract_enums_from_children n S ch r \<noteq> None" if "levels_ok S e ch" "e < d" for ch e
    unfolding extract_enums_from_children_def
    by (rule commented_fold_some [OF that(1)], rule extract_enum_child_some [OF that(1)]) (use that(2) assms(3) in auto)
  have types: "extract_types_from_children n S ch r \<noteq> None" if "levels_ok S e ch" "e < d" for ch e
    by (rule extract_types_some [OF that(1)]) (use that(2) assms(3,4) in auto)
  have vals: "extract_values_from_children S ch r \<noteq> None" if "levels_ok S e ch" for ch e
    unfolding extract_values_from_children_def
    by (rule fold_opt_some, rule with_leaf_some [OF that]) (assumption, rule extract_value_leaf_some)
  have mods: "extract_modifier_names S ch r \<noteq> None" if "levels_ok S e ch" for ch e
    unfolding extract_modifier_names_def
    by (rule fold_opt_some, rule with_leaf_some [OF that]) (simp_all add: extract_modifier_leaf_def)
  have cmds: "extract_localisation_commands S ch r \<noteq> None" if "levels_ok S e ch" for ch e
    unfolding extract_localisation_commands_def
    by (rule fold_opt_some, rule with_leaf_some [OF that]) (simp_all add: extract_command_leaf_def Let_def)
  have cats: "extract_modifier_categories S ch r \<noteq> None" if "levels_ok S e ch" for ch e
    unfolding extract_modifier_categories_def by (rule fold_opt_some) (rule extract_category_some [OF that])
  have links: "extract_links S ch r \<noteq> None" if "levels_ok S e ch" for ch e
    unfolding extract_links_def by (rule fold_opt_some) (rule extract_link_some [OF that])
  have scopes: "extract_scope_defs S ch r \<noteq> None" if "levels_ok S e ch" for ch e
    unfolding extract_scope_defs_def by (rule fold_opt_some) (rule extract_scope_def_some [OF that])
  have on_types: "on_clause (leaf_val l) (extract_types_from_children n S) r \<noteq> None" by (rule on, erule types, assumption)
  have on_enums: "on_clause (leaf_val l) (extract_enums_from_children n S) r \<noteq> None" by (rule on, erule enums, assumption)
  have on_vals: "on_clause (leaf_val l) (extract_values_from_children S) r \<noteq> None" by (rule on, erule vals)
  have on_mods: "on_clause (leaf_val l) (extract_modifier_names S) r \<noteq> None" by (rule on, erule mods)
  have on_cats: "on_clause (leaf_val l) (extract_modifier_categories S) r \<noteq> None" by (rule on, erule cats)
  have on_links: "on_clause (leaf_val l) (extract_links S) r \<noteq> None" by (rule on, erule links)
  have on_scopes: "on_clause (leaf_val l) (extract_scope_defs S) r \<noteq> None" by (rule on, erule scopes)
  have on_cmds: "on_clause (leaf_val l) (extract_localisation_commands S) r \<noteq> None" by (rule on, erule cmds)
  note parts = on_types on_enums on_vals on_mods on_cats on_links on_scopes on_cmds
  have "leaf_to_rule n S l \<noteq> None"
  proof (rule leaf_to_rule_some [of _ _ "d - 1"])
    fix ch assume "leaf_val l = VClause ch"
    from l [OF this] show "levels_ok S (d - 1) ch" by auto
  qed (use assms(3,4) in auto)
  then have "process_root_leaf n S key l (fst cc) r \<noteq> None"
    by (simp add: process_root_leaf_def Let_def split: option.split)
  then show "(if key = ''types'' then on_clause (leaf_val l) (extract_types_from_children n S) r
     else if key = ''enums'' then on_clause (leaf_val l) (extract_enums_from_children n S) r
     else if key = ''values'' then on_clause (leaf_val l) (extract_values_from_children S) r
     else if key = ''modifiers'' then on_clause (leaf_val l) (extract_modifier_names S) r
     else if key = ''modifier_categories'' then on_clause (leaf_val l) (extract_modifier_categories S) r
     else if key = ''links'' then on_clause (leaf_val l) (extract_links S) r
     else if key = ''scopes'' then on_clause (leaf_val l) (extract_scope_defs S) r
     else if key = ''localisation_commands'' then on_clause (leaf_val l) (extract_localisation_commands S) r
     else process_root_leaf n S key l (fst cc) r) \<noteq> None"
    using parts
    by presburger
qed

lemma fill_ruleset_some:
  assumes "levels_ok S d root" "d \<le> n" "0 < n"
  shows "fill_ruleset n S root \<noteq> None"
  unfolding fill_ruleset_def
  by (rule commented_fold_some [OF assms(1)]) (rule root_child_some [OF assms(1) _ assms(2,3)])

lemma parsed_levels:
  assumes "parse_string E input t = Some (f, t')" "length (chars (strip_bom input)) < 2 ^ 32"
  shows "refs_ok (pf_arena f) 257 (root_children f)"
proof -
  obtain s' where b: "loop_builds E [] (parser_new (strip_bom input) t Preserve) (root_children f) s'"
    and s': "p_arena s' = pf_arena f" using parse_result_builds [OF assms(1) [unfolded parse_string_def]] by blast
  have "room (parser_new (strip_bom input) t Preserve)" using assms(2) by (simp add: room_def)
  then have "list_all (child_ok (pf_arena f) 256) (root_children f)"
    using builds_child_ok(2) [OF b] s' by simp
  moreover have "(257 :: nat) = Suc 256" by simp
  ultimately show ?thesis unfolding refs_ok_def by (simp only: nat.case)
qed

text \<open>C3. Every text is a configuration: the parser returns a file for it, and converting that file to a
rule set and building its lookup tables ends without a panic. No index leaves the arena, and the
recursion over clauses is done within the 256 levels of nodes the parser's nesting limit allows. (The text
has fewer than \<open>2 ^ 32\<close> characters, as the parser's positions require.)\<close>

theorem every_text_converts:
  assumes "length (chars (strip_bom input)) < 2 ^ 32"
  shows "\<exists>f t' rs. parse_string E input t = Some (f, t') \<and> ast_to_ruleset show f t' = Some rs"
proof -
  obtain f t' where p: "parse_string E input t = Some (f, t')"
    unfolding parse_string_def by (rule parse_string_builds [of E input t Preserve])
  have "levels_ok (source_of show f t') 257 (root_children f)"
    using parsed_levels [OF p assms] by (simp add: source_of_def)
  then have "fill_ruleset CONVERT_LEVELS (source_of show f t') (root_children f) \<noteq> None"
    by (rule fill_ruleset_some) (simp_all add: CONVERT_LEVELS_def)
  then obtain rs where "fill_ruleset CONVERT_LEVELS (source_of show f t') (root_children f) = Some rs" by blast
  then show ?thesis using p by (auto simp: ast_to_ruleset_def ast_to_ruleset_raw_def)
qed

lemma every_text_converts_witness:
  "length (chars (strip_bom ''types = { }'')) = 11 \<and>
   (\<exists>f t' rs. parse_string ascii_env ''types = { }'' table_new = Some (f, t') \<and>
     ast_to_ruleset (\<lambda>_. []) f t' = Some rs)"
proof -
  have len: "length (chars (strip_bom ''types = { }'')) = 11" by code_simp
  then have "length (chars (strip_bom ''types = { }'')) < 2 ^ 32" by simp
  from every_text_converts [OF this] len show ?thesis by blast
qed

end
