(* ===== verification/Converter_Properties.thy ===== *)
theory Converter_Properties
  imports Converter_Totality Rule_Set_Properties
begin

text \<open>
  What the conversion of a configuration file keeps of it: which comments reach which rule, and that
  an alias of the file is found under its category and name in the finished rule set.
\<close>

section \<open>Which comments belong to a child\<close>

fun is_comment :: "Child \<Rightarrow> bool" where
  "is_comment (ChildComment _) = True"
| "is_comment _ = False"

definition comment_line :: "Source \<Rightarrow> Child \<Rightarrow> rstr" where
  "comment_line S c =
     (case c of ChildComment i \<Rightarrow> trim (comment_text (comments (src_arena S) ! unat i)) | _ \<Rightarrow> [])"

definition comments_before :: "Source \<Rightarrow> Child list \<Rightarrow> nat \<Rightarrow> rstr list" where
  "comments_before S cs i =
     (if is_comment (cs ! i) then [] else map (comment_line S) (rev (takeWhile is_comment (rev (take i cs)))))"

lemma comments_from_nth:
  assumes "comments_from S cs pending = Some cms" "i < length cs"
  shows "cms ! i = (if is_comment (cs ! i) then []
    else if list_all is_comment (take i cs) then pending @ map (comment_line S) (take i cs)
    else comments_before S cs i)"
  using assms
proof (induction cs arbitrary: pending cms i)
  case (Cons c cs)
  define p where "p = (case c of ChildComment j \<Rightarrow> pending @ [comment_line S c] | _ \<Rightarrow> [])"
  obtain r where r: "cms = (if is_comment c then [] else pending) # r" "comments_from S cs p = Some r"
    using Cons.prems(1) by (cases c) (auto simp: p_def comment_line_def comment_at_def split: option.splits if_splits)
  show ?case
  proof (cases i)
    case (Suc k)
    then have "k < length cs" using Cons.prems(2) by simp
    from Cons.IH [OF r(2) this] show ?thesis
      using Suc r(1) by (cases c) (auto simp: p_def comments_before_def takeWhile_append list_all_iff)
  qed (simp add: r(1))
qed simp

lemma comments_nth:
  assumes "precompute_comments S cs = Some cms" "i < length cs"
  shows "cms ! i = comments_before S cs i"
proof -
  have "list_all is_comment (take i cs) \<Longrightarrow> rev (takeWhile is_comment (rev (take i cs))) = take i cs"
    by (simp add: takeWhile_eq_all_conv [THEN iffD2] list_all_iff)
  then show ?thesis
    using comments_from_nth [OF assms(1) [unfolded precompute_comments_def] assms(2)]
    by (auto simp: comments_before_def)
qed

lemma those_Some_iff: "those xs = Some ys \<longleftrightarrow> xs = map Some ys"
proof (induction xs arbitrary: ys)
  case (Cons x xs)
  then show ?case by (cases ys) (auto split: option.split)
qed auto

lemma traverse_Some: "traverse f xs = Some ys \<longleftrightarrow> map f xs = map Some ys"
  by (simp add: traverse_def those_Some_iff)

lemma collect_Some: "collect f xs = Some r \<Longrightarrow> (\<forall>x \<in> set xs. f x \<noteq> None) \<and> r = concat (map (\<lambda>x. the (f x)) xs)"
proof -
  assume "collect f xs = Some r"
  then obtain ys where ys: "map f xs = map Some ys" "r = concat ys" by (auto simp: collect_def traverse_Some)
  have "map (\<lambda>x. the (f x)) xs = map the (map f xs)" by simp
  also have "\<dots> = ys" unfolding ys(1) by (simp add: comp_def)
  moreover have "f x \<noteq> None" if "x \<in> set xs" for x
  proof -
    have "f x \<in> set (map f xs)" using that by simp
    then show ?thesis unfolding ys(1) by auto
  qed
  ultimately show ?thesis using ys(2) by (simp add: comp_def)
qed

lemma length_comments_from: "comments_from S cs pending = Some cms \<Longrightarrow> length cms = length cs"
  by (induction S cs pending arbitrary: cms rule: comments_from.induct) (auto split: option.splits)

lemma collect_commented_Some:
  assumes "collect_commented S f cs = Some r"
  shows "(\<forall>i < length cs. f (comments_before S cs i) (cs ! i) \<noteq> None) \<and>
    r = concat (map (\<lambda>i. the (f (comments_before S cs i) (cs ! i))) [0..<length cs])"
proof -
  obtain cms where cms: "precompute_comments S cs = Some cms" and r: "collect (\<lambda>(cm, c). f cm c) (zip cms cs) = Some r"
    using assms by (auto simp: collect_commented_def split: option.splits)
  have len: "length cms = length cs" using cms length_comments_from by (simp add: precompute_comments_def)
  have zip: "zip cms cs = map (\<lambda>i. (comments_before S cs i, cs ! i)) [0..<length cs]"
    by (rule nth_equalityI) (simp_all add: len comments_nth [OF cms])
  from collect_Some [OF r] show ?thesis unfolding zip by (auto simp: comp_def)
qed

section \<open>Options of the converted rules\<close>

definition child_options :: "Source \<Rightarrow> rstr list \<Rightarrow> Child \<Rightarrow> Options list" where
  "child_options S cm c =
     (case c of
        ChildLeaf i \<Rightarrow>
          (let l = leaves (src_arena S) ! unat i; key = text_of S (leaf_key l)
           in if starts_with key ''subtype[''
              then (if extract_bracket_content key ''subtype'' = None then [] else [options_from_comments cm False])
              else [options_from_comments cm (leaf_op l = EqualEqual)])
      | ChildLeafValue i \<Rightarrow>
          (if is_clause (lv_value (leaf_values (src_arena S) ! unat i)) then [options_from_comments cm False]
           else [(options_from_comments cm False)\<lparr>opt_leafvalue := True\<rparr>])
      | ChildComment _ \<Rightarrow> [])"

lemma child_rule_options:
  assumes "child_rule rec S cm c = Some rules"
  shows "map snd rules = child_options S cm c"
proof (cases c)
  case (ChildLeaf i)
  then obtain l where "leaf_at S i = Some l" using assms by (auto simp: child_rule_def split: option.splits)
  moreover from this have "l = leaves (src_arena S) ! unat i" by (rule leaf_at_Some)
  ultimately show ?thesis
    using assms by (auto simp: ChildLeaf child_rule_def child_options_def subtype_rule_def leaf_rule_def leaf_is_eqeq_def
        Let_def split: if_splits option.splits AstValue.splits)
next
  case (ChildLeafValue i)
  then obtain lv where "leaf_value_at S i = Some lv" using assms by (auto simp: child_rule_def split: option.splits)
  moreover from this have "lv = leaf_values (src_arena S) ! unat i" by (rule leaf_value_at_Some)
  ultimately show ?thesis
    using assms by (cases "lv_value lv") (auto simp: ChildLeafValue child_rule_def child_options_def leaf_value_rule_def Let_def)
qed (use assms in \<open>simp add: child_rule_def child_options_def\<close>)

text \<open>C34. The rules of a clause follow its children: the converter makes, in order, one rule for every
leaf (two kinds of equality give the comparison flag) and every bare value, none for comments and for a
malformed subtype key, and the options of each rule are those of the comments directly before its child
(the unbroken run of comment lines, each trimmed), never those of an earlier or a later one.\<close>

theorem rule_options_from_comments:
  assumes "children_to_rules n S cs = Some rules"
  shows "map snd rules = concat (map (\<lambda>i. child_options S (comments_before S cs i) (cs ! i)) [0..<length cs])"
proof -
  obtain m where m: "n = Suc m" "collect_commented S (child_rule (children_to_rules m S) S) cs = Some rules"
    using assms by (cases n) auto
  let ?f = "\<lambda>i. child_rule (children_to_rules m S) S (comments_before S cs i) (cs ! i)"
  have r: "\<forall>i < length cs. ?f i \<noteq> None" "rules = concat (map (\<lambda>i. the (?f i)) [0..<length cs])"
    using collect_commented_Some [OF m(2)] by simp_all
  have "map snd (the (?f i)) = child_options S (comments_before S cs i) (cs ! i)" if "i < length cs" for i
    using r(1) that child_rule_options [of "children_to_rules m S" S] by fastforce
  then have eq: "map (\<lambda>i. map snd (the (?f i))) [0..<length cs] =
      map (\<lambda>i. child_options S (comments_before S cs i) (cs ! i)) [0..<length cs]" by (intro map_cong) auto
  show ?thesis unfolding r(2) map_concat map_map comp_def using eq by (rule arg_cong)
qed


text \<open>A file with a comment, a rule, a plain comment and a rule with an option.\<close>

definition ex_source :: Source where
  "ex_source = \<lparr>src_arena = \<lparr>leaves =
       [\<lparr>leaf_key = \<lparr>tok_lower = 64, tok_normal = 0\<rparr>, leaf_val = VBool True, leaf_op = Equals,
         leaf_pos = \<lparr>range_start = SourcePos 2 0, range_end = SourcePos 2 5\<rparr>,
         leaf_value_pos = \<lparr>range_start = SourcePos 2 4, range_end = SourcePos 2 5\<rparr>\<rparr>],
     leaf_values = [\<lparr>lv_value = VInt 7, lv_pos = \<lparr>range_start = SourcePos 4 0, range_end = SourcePos 4 1\<rparr>\<rparr>],
     comments = [\<lparr>comment_text = ''## cardinality = 0..5'', comment_pos = \<lparr>range_start = SourcePos 1 0, range_end = SourcePos 1 9\<rparr>\<rparr>]\<rparr>,
     src_table = table_new, src_show = (\<lambda>_. [])\<rparr>"

definition ex_children :: "Child list" where
  "ex_children = [ChildComment 0, ChildLeaf 0, ChildLeafValue 0]"

lemma rule_options_from_comments_witness:
  "\<exists>rules. children_to_rules 2 ex_source ex_children = Some rules \<and>
     map snd rules = [options_from_comments [''## cardinality = 0..5''] False,
       (options_from_comments [] False)\<lparr>opt_leafvalue := True\<rparr>]"
proof -
  have "levels_ok ex_source 1 ex_children"
    by (simp add: refs_ok_def ex_source_def ex_children_def value_children_def)
  then have "children_to_rules 2 ex_source ex_children \<noteq> None" by (rule children_to_rules_some) simp
  then obtain rules where rules: "children_to_rules 2 ex_source ex_children = Some rules" by blast
  have "text_of ex_source (leaf_key (leaves (src_arena ex_source) ! 0)) = []" by code_simp
  then have leaf: "child_options ex_source cm (ChildLeaf 0) = [options_from_comments cm False]" for cm
    by (simp add: child_options_def starts_with_def Let_def) (simp add: ex_source_def)
  have bare: "child_options ex_source cm (ChildLeafValue 0) = [(options_from_comments cm False)\<lparr>opt_leafvalue := True\<rparr>]" for cm
    by (simp add: child_options_def) (simp add: ex_source_def)
  have comment: "child_options ex_source cm (ChildComment 0) = []" for cm
    by (simp add: child_options_def)
  have before: "comments_before ex_source ex_children 1 = [''## cardinality = 0..5'']"
    "comments_before ex_source ex_children 2 = []"
  proof -
    have "trim ''## cardinality = 0..5'' = ''## cardinality = 0..5''"
      by (rule trim_edges [of _ "CHR ''#''" "''# cardinality = 0..5''" "''## cardinality = 0..''" "CHR ''5''"])
        (simp_all add: is_ascii_byte_def is_cont_def is_whitespace_def whitespace_chars_def)
    then show "comments_before ex_source ex_children 1 = [''## cardinality = 0..5'']"
      "comments_before ex_source ex_children 2 = []"
      by (simp_all add: comments_before_def ex_children_def numeral_2_eq_2 comment_line_def) (simp_all add: ex_source_def)
  qed
  have idx: "[0..<length ex_children] = [0, 1, 2]" "ex_children ! 0 = ChildComment 0"
    "ex_children ! 1 = ChildLeaf 0" "ex_children ! 2 = ChildLeafValue 0"
    by (simp_all add: ex_children_def upt_rec numeral_2_eq_2)
  have "map snd rules = concat (map (\<lambda>i. child_options ex_source (comments_before ex_source ex_children i) (ex_children ! i))
      [0..<length ex_children])"
    by (rule rule_options_from_comments [OF rules])
  also have "\<dots> = [options_from_comments [''## cardinality = 0..5''] False,
       (options_from_comments [] False)\<lparr>opt_leafvalue := True\<rparr>]"
    by (simp only: idx list.map concat.simps before leaf bare comment append.simps)
  finally show ?thesis by (intro exI conjI) (rule rules)
qed

section \<open>Aliases of a file\<close>

lemma fold_opt_frame:
  "fold_opt f xs s = Some s' \<Longrightarrow> (\<And>x s s'. f x s = Some s' \<Longrightarrow> g s' = g s) \<Longrightarrow> g s' = g s"
proof (induction xs arbitrary: s)
  case (Cons x xs)
  then obtain t where "f x s = Some t" "fold_opt f xs t = Some s'" by (auto simp: bind_eq_Some_conv)
  then show ?case using Cons.IH [of t] Cons.prems(2) by simp
qed simp

lemma with_leaf_frame:
  "with_leaf S f c r = Some r' \<Longrightarrow> (\<And>l key r r'. f l key r = Some r' \<Longrightarrow> g r' = g r) \<Longrightarrow> g r' = g r"
  by (auto simp: with_leaf_def split: Child.splits option.splits)

lemma section_aliases:
  "extract_types_from_children n S ch r = Some r' \<Longrightarrow> rule_aliases r' = rule_aliases r"
  "extract_enums_from_children n S ch r = Some r' \<Longrightarrow> rule_aliases r' = rule_aliases r"
  "extract_values_from_children S ch r = Some r' \<Longrightarrow> rule_aliases r' = rule_aliases r"
  "extract_modifier_names S ch r = Some r' \<Longrightarrow> rule_aliases r' = rule_aliases r"
  "extract_modifier_categories S ch r = Some r' \<Longrightarrow> rule_aliases r' = rule_aliases r"
  "extract_links S ch r = Some r' \<Longrightarrow> rule_aliases r' = rule_aliases r"
  "extract_scope_defs S ch r = Some r' \<Longrightarrow> rule_aliases r' = rule_aliases r"
  "extract_localisation_commands S ch r = Some r' \<Longrightarrow> rule_aliases r' = rule_aliases r"
proof -
  note fold = fold_opt_frame [where g = rule_aliases]
  note leaf = with_leaf_frame [where g = rule_aliases]
  show "extract_types_from_children n S ch r = Some r' \<Longrightarrow> rule_aliases r' = rule_aliases r"
    by (auto simp: extract_types_from_children_def)
  have enum: "extract_enum_child n S cc s = Some s' \<Longrightarrow> rule_aliases s' = rule_aliases s" for cc s s'
    by (auto simp: extract_enum_child_def Let_def split: Child.splits option.splits if_splits prod.splits AstValue.splits)
  show "extract_enums_from_children n S ch r = Some r' \<Longrightarrow> rule_aliases r' = rule_aliases r"
    unfolding extract_enums_from_children_def by (auto split: option.splits intro: fold [OF _ enum])
  have val: "extract_value_leaf S l key s = Some s' \<Longrightarrow> rule_aliases s' = rule_aliases s" for l key s s'
    by (auto simp: extract_value_leaf_def split: option.splits if_splits)
  show "extract_values_from_children S ch r = Some r' \<Longrightarrow> rule_aliases r' = rule_aliases r"
    unfolding extract_values_from_children_def by (erule fold) (erule leaf, erule val)
  have mod: "extract_modifier_leaf S l key s = Some s' \<Longrightarrow> rule_aliases s' = rule_aliases s" for l key s s'
    by (auto simp: extract_modifier_leaf_def)
  show "extract_modifier_names S ch r = Some r' \<Longrightarrow> rule_aliases r' = rule_aliases r"
    unfolding extract_modifier_names_def by (erule fold) (erule leaf, erule mod)
  have cat: "extract_category S c s = Some s' \<Longrightarrow> rule_aliases s' = rule_aliases s" for c s s'
    by (auto simp: extract_category_def split: option.splits if_splits)
  show "extract_modifier_categories S ch r = Some r' \<Longrightarrow> rule_aliases r' = rule_aliases r"
    unfolding extract_modifier_categories_def by (erule fold) (erule cat)
  have short: "shorthand_link l key s = Some s' \<Longrightarrow> rule_aliases s' = rule_aliases s" for l key s s'
    by (auto simp: shorthand_link_def)
  have link: "extract_link S c s = Some s' \<Longrightarrow> rule_aliases s' = rule_aliases s" for c s s'
    by (auto simp: extract_link_def Let_def split: option.splits if_splits dest: leaf [OF _ short])
  show "extract_links S ch r = Some r' \<Longrightarrow> rule_aliases r' = rule_aliases r"
    unfolding extract_links_def by (erule fold) (erule link)
  have scope: "extract_scope_def S c s = Some s' \<Longrightarrow> rule_aliases s' = rule_aliases s" for c s s'
    by (auto simp: extract_scope_def_def Let_def split: option.splits if_splits)
  show "extract_scope_defs S ch r = Some r' \<Longrightarrow> rule_aliases r' = rule_aliases r"
    unfolding extract_scope_defs_def by (erule fold) (erule scope)
  have cmd: "extract_command_leaf l key s = Some s' \<Longrightarrow> rule_aliases s' = rule_aliases s" for l key s s'
    by (auto simp: extract_command_leaf_def Let_def)
  show "extract_localisation_commands S ch r = Some r' \<Longrightarrow> rule_aliases r' = rule_aliases r"
    unfolding extract_localisation_commands_def by (erule fold) (erule leaf, erule cmd)
qed

lemma on_clause_frame:
  "on_clause v f r = Some r' \<Longrightarrow> (\<And>ch r r'. f ch r = Some r' \<Longrightarrow> g r' = g r) \<Longrightarrow> g r' = g r"
  by (auto simp: on_clause_def split: AstValue.splits)

text \<open>What a top-level child adds to the aliases.\<close>

definition root_aliases :: "nat \<Rightarrow> Source \<Rightarrow> rstr list \<Rightarrow> Child \<Rightarrow> (rstr \<times> NewRule) list" where
  "root_aliases n S cm c =
     (case c of
        ChildLeaf i \<Rightarrow>
          (let l = leaves (src_arena S) ! unat i; key = text_of S (leaf_key l)
           in if starts_with key ''alias[''
              then (case get_alias_settings key ''alias'' of
                      None \<Rightarrow> []
                    | Some (category, name) \<Rightarrow>
                        [(category @ '':'' @ name, the (leaf_to_rule n S l), options_from_comments cm (leaf_is_eqeq l))])
              else [])
      | _ \<Rightarrow> [])"

lemma process_root_leaf_aliases:
  assumes "process_root_leaf n S key l cm r = Some r'"
  shows "rule_aliases r' = rule_aliases r @
    (if starts_with key ''alias[''
     then (case get_alias_settings key ''alias'' of
             None \<Rightarrow> []
           | Some (category, name) \<Rightarrow> [(category @ '':'' @ name, the (leaf_to_rule n S l), options_from_comments cm (leaf_is_eqeq l))])
     else [])"
  using assms by (auto simp: process_root_leaf_def Let_def split: if_splits option.splits prod.splits)

lemma root_child_aliases:
  assumes "root_child n S (cm, c) r = Some r'"
  shows "rule_aliases r' = rule_aliases r @ root_aliases n S cm c"
proof (cases c)
  case (ChildLeaf i)
  then obtain l where at: "leaf_at S i = Some l"
    using assms by (auto simp: root_child_def with_leaf_def split: option.splits)
  note l = at leaf_at_Some [OF at]
  define key where "key = text_of S (leaf_key l)"
  note frame = on_clause_frame [where g = rule_aliases]
  have run: "(if key = ''types'' then on_clause (leaf_val l) (extract_types_from_children n S) r
       else if key = ''enums'' then on_clause (leaf_val l) (extract_enums_from_children n S) r
       else if key = ''values'' then on_clause (leaf_val l) (extract_values_from_children S) r
       else if key = ''modifiers'' then on_clause (leaf_val l) (extract_modifier_names S) r
       else if key = ''modifier_categories'' then on_clause (leaf_val l) (extract_modifier_categories S) r
       else if key = ''links'' then on_clause (leaf_val l) (extract_links S) r
       else if key = ''scopes'' then on_clause (leaf_val l) (extract_scope_defs S) r
       else if key = ''localisation_commands'' then on_clause (leaf_val l) (extract_localisation_commands S) r
       else process_root_leaf n S key l cm r) = Some r'"
    using assms unfolding root_child_def with_leaf_def ChildLeaf key_def
    by (simp only: l(1) snd_conv fst_conv Child.case option.case Let_def)
  show ?thesis
  proof (cases "key \<in> {''types'', ''enums'', ''values'', ''modifiers'', ''modifier_categories'', ''links'', ''scopes'', ''localisation_commands''}")
    case True
    then have "\<not> starts_with key ''alias[''" by (auto simp: starts_with_def)
    then have "root_aliases n S cm c = []" by (simp add: root_aliases_def ChildLeaf l(2) [symmetric] key_def [symmetric] Let_def)
    moreover have "rule_aliases r' = rule_aliases r"
      using run True
      by (elim insertE emptyE) (simp_all, (erule frame, erule section_aliases)+)
    ultimately show ?thesis by simp
  next
    case False
    then have "process_root_leaf n S key l cm r = Some r'" using run by simp
    from process_root_leaf_aliases [OF this] show ?thesis
      by (simp add: root_aliases_def ChildLeaf l(2) [symmetric] key_def [symmetric] Let_def)
  qed
qed (use assms in \<open>simp_all add: root_child_def with_leaf_def root_aliases_def\<close>)

lemma fold_root_aliases:
  "fold_opt (root_child n S) xs r = Some r' \<Longrightarrow>
   rule_aliases r' = rule_aliases r @ concat (map (\<lambda>(cm, c). root_aliases n S cm c) xs)"
proof (induction xs arbitrary: r)
  case (Cons x xs)
  then obtain r1 where r1: "root_child n S x r = Some r1" "fold_opt (root_child n S) xs r1 = Some r'"
    by (auto simp: bind_eq_Some_conv)
  obtain cm c where x: "x = (cm, c)" by force
  show ?case using Cons.IH [OF r1(2)] root_child_aliases [OF r1(1) [unfolded x]] by (simp add: x)
qed simp

lemma fill_ruleset_aliases:
  assumes "fill_ruleset n S root = Some rs"
  shows "rule_aliases rs = concat (map (\<lambda>i. root_aliases n S (comments_before S root i) (root ! i)) [0..<length root])"
proof -
  obtain cms where cms: "precompute_comments S root = Some cms" "fold_opt (root_child n S) (zip cms root) ruleset_new = Some rs"
    using assms by (auto simp: fill_ruleset_def split: option.splits)
  have len: "length cms = length root" using cms(1) length_comments_from by (simp add: precompute_comments_def)
  have zip: "zip cms root = map (\<lambda>i. (comments_before S root i, root ! i)) [0..<length root]"
    by (rule nth_equalityI) (simp_all add: len comments_nth [OF cms(1)])
  show ?thesis using fold_root_aliases [OF cms(2)] by (simp add: zip comp_def ruleset_new_def)
qed

lemma rule_aliases_converted:
  assumes "ast_to_ruleset show ast table = Some rs"
  defines "S \<equiv> source_of show ast table"
  shows "rule_aliases rs = concat (map (\<lambda>i. root_aliases CONVERT_LEVELS S (comments_before S (root_children ast) i) (root_children ast ! i))
    [0..<length (root_children ast)])"
  using assms fill_ruleset_aliases by (auto simp: ast_to_ruleset_def ast_to_ruleset_raw_def reindex_tables(11))

lemma fold_opt_each:
  "fold_opt f xs s = Some s' \<Longrightarrow> x \<in> set xs \<Longrightarrow> \<exists>t t'. f x t = Some t'"
proof (induction xs arbitrary: s)
  case (Cons y ys)
  then obtain t where "f y s = Some t" "fold_opt f ys t = Some s'" by (auto simp: bind_eq_Some_conv)
  then show ?case using Cons.IH [of t] Cons.prems(2) by auto
qed simp

lemma alias_key_settings:
  assumes "CHR '':'' \<notin> set category"
  shows "get_alias_settings (''alias['' @ category @ '':'' @ name @ '']'') ''alias'' = Some (category, name)"
proof -
  have "ends_with (''alias['' @ category @ '':'' @ name @ '']'') '']''"
    by (simp add: ends_with_def)
  then have "get_setting_from_string (''alias['' @ category @ '':'' @ name @ '']'') ''alias'' = Some (category @ '':'' @ name)"
    by (simp add: get_setting_from_string_def starts_with_def)
  then show ?thesis using assms by (simp add: get_alias_settings_def split_once_append)
qed

lemma converted_alias_leaf:
  assumes "fill_ruleset n S root = Some rs" "i < length root" "root ! i = ChildLeaf j" "leaf_at S j = Some l"
    "text_of S (leaf_key l) = ''alias['' @ category @ '':'' @ name @ '']''" "CHR '':'' \<notin> set category"
  shows "\<exists>rule. leaf_to_rule n S l = Some rule \<and>
    (category @ '':'' @ name, (rule, options_from_comments (comments_before S root i) (leaf_is_eqeq l))) \<in> set (rule_aliases rs)"
proof -
  obtain cms where cms: "precompute_comments S root = Some cms" "fold_opt (root_child n S) (zip cms root) ruleset_new = Some rs"
    using assms(1) by (auto simp: fill_ruleset_def split: option.splits)
  have "length cms = length root" using cms(1) length_comments_from by (simp add: precompute_comments_def)
  then have "(comments_before S root i, root ! i) \<in> set (zip cms root)"
    using assms(2) comments_nth [OF cms(1)] by (force simp: set_zip)
  from fold_opt_each [OF cms(2) this] obtain t t'
    where "root_child n S (comments_before S root i, root ! i) t = Some t'" by blast
  then have "process_root_leaf n S (''alias['' @ category @ '':'' @ name @ '']'') l (comments_before S root i) t = Some t'"
    by (simp add: root_child_def with_leaf_def assms(3-5))
  then obtain rule where rule: "leaf_to_rule n S l = Some rule"
    by (auto simp: process_root_leaf_def Let_def starts_with_def alias_key_settings [OF assms(6), simplified])
  have "l = leaves (src_arena S) ! unat j" using assms(4) by (rule leaf_at_Some)
  then have "root_aliases n S (comments_before S root i) (root ! i) =
      [(category @ '':'' @ name, (rule, options_from_comments (comments_before S root i) (leaf_is_eqeq l)))]"
    using assms(5) alias_key_settings [OF assms(6)] rule
    by (simp add: root_aliases_def assms(3) Let_def starts_with_def)
  then have "(category @ '':'' @ name, (rule, options_from_comments (comments_before S root i) (leaf_is_eqeq l)))
      \<in> set (rule_aliases rs)"
    using assms(2) unfolding fill_ruleset_aliases [OF assms(1)] set_concat set_map by force
  then show ?thesis using rule by blast
qed

text \<open>C35. An alias written in a configuration file can be looked up: the rule set of a file with a
top-level \<open>alias[category:name]\<close> has, under that category and name, an index that leads to the
converted right-hand side together with the options of the comments directly before it.\<close>

theorem declared_alias_found:
  assumes "ast_to_ruleset show ast table = Some rs" "S = source_of show ast table"
    "i < length (root_children ast)" "root_children ast ! i = ChildLeaf j" "leaf_at S j = Some l"
    "text_of S (leaf_key l) = ''alias['' @ category @ '':'' @ name @ '']''" "CHR '':'' \<notin> set category"
  shows "\<exists>rule is k. leaf_to_rule CONVERT_LEVELS S l = Some rule \<and>
    alias_exact_for rs category name = Some is \<and> k \<in> set is \<and>
    rule_aliases rs ! k = (category @ '':'' @ name,
      (rule, options_from_comments (comments_before S (root_children ast) i) (leaf_is_eqeq l)))"
proof -
  obtain raw where raw: "fill_ruleset CONVERT_LEVELS S (root_children ast) = Some raw" "rs = reindex raw"
    using assms(1,2) by (auto simp: ast_to_ruleset_def ast_to_ruleset_raw_def)
  have same: "rule_aliases rs = rule_aliases raw" by (simp add: raw(2) reindex_tables)
  obtain rule where rule: "leaf_to_rule CONVERT_LEVELS S l = Some rule"
    "(category @ '':'' @ name, (rule, options_from_comments (comments_before S (root_children ast) i) (leaf_is_eqeq l)))
      \<in> set (rule_aliases raw)"
    using converted_alias_leaf [OF raw(1) assms(3-7)] by blast
  obtain k where k: "k < length (rule_aliases raw)" "rule_aliases raw ! k = (category @ '':'' @ name,
      (rule, options_from_comments (comments_before S (root_children ast) i) (leaf_is_eqeq l)))"
    using rule(2) unfolding in_set_conv_nth by blast
  let ?is = "filter (\<lambda>i. alias_hits category name (fst (rule_aliases raw ! i))) [0..<length (rule_aliases raw)]"
  have k_in: "k \<in> set ?is" using k assms(7) by (simp add: alias_hits_def split_once_append)
  then have "alias_exact_for rs category name = Some ?is"
    unfolding raw(2) reindexed_aliases Let_def by (metis empty_iff list.set(1))
  then show ?thesis using rule(1) k_in k(2) same by (intro exI [of _ rule] exI [of _ ?is] exI [of _ k]) simp
qed

text \<open>A file that holds one alias.\<close>

definition ex_alias_file :: ParsedFile where
  "ex_alias_file = \<lparr>pf_arena = \<lparr>leaves =
       [\<lparr>leaf_key = \<lparr>tok_lower = 1, tok_normal = 1\<rparr>, leaf_val = VBool True, leaf_op = Equals,
         leaf_pos = \<lparr>range_start = SourcePos 2 0, range_end = SourcePos 2 5\<rparr>,
         leaf_value_pos = \<lparr>range_start = SourcePos 2 4, range_end = SourcePos 2 5\<rparr>\<rparr>],
     leaf_values = [], comments = []\<rparr>, root_children = [ChildLeaf 0], pf_errors = []\<rparr>"

definition ex_alias_table :: StringTable where
  "ex_alias_table = [\<lparr>lower_map = [], exact_map = [], id_to_string = [[], ''alias[effect:kill]'']\<rparr>]"

lemma declared_alias_found_witness:
  "\<exists>rs rule is k. ast_to_ruleset (\<lambda>_. []) ex_alias_file ex_alias_table = Some rs \<and>
    alias_exact_for rs ''effect'' ''kill'' = Some is \<and> k \<in> set is \<and>
    rule_aliases rs ! k = (''effect:kill'', (rule, options_from_comments [] False))"
proof -
  let ?S = "source_of (\<lambda>_. []) ex_alias_file ex_alias_table"
  have "levels_ok ?S 1 (root_children ex_alias_file)"
    by (simp add: refs_ok_def source_of_def ex_alias_file_def value_children_def)
  then have "fill_ruleset CONVERT_LEVELS ?S (root_children ex_alias_file) \<noteq> None"
    by (rule fill_ruleset_some) (simp_all add: CONVERT_LEVELS_def)
  then obtain rs where rs: "ast_to_ruleset (\<lambda>_. []) ex_alias_file ex_alias_table = Some rs"
    by (auto simp: ast_to_ruleset_def ast_to_ruleset_raw_def)
  let ?l = "hd (leaves (pf_arena ex_alias_file))"
  have parts: "0 < length (root_children ex_alias_file)" "root_children ex_alias_file ! 0 = ChildLeaf 0"
    "leaf_at ?S 0 = Some ?l" "leaf_is_eqeq ?l = False"
    "comments_before ?S (root_children ex_alias_file) 0 = []"
    by (simp_all add: ex_alias_file_def leaf_at_def source_of_def leaf_is_eqeq_def comments_before_def)
  have "text_of ?S (leaf_key ?l) = ''alias[effect:kill]''"
    by (simp add: source_of_def) code_simp
  then have key: "text_of ?S (leaf_key ?l) = ''alias['' @ ''effect'' @ '':'' @ ''kill'' @ '']''" by simp
  have colon: "CHR '':'' \<notin> set ''effect''" by simp
  obtain rule "is" k where "alias_exact_for rs ''effect'' ''kill'' = Some is" "k \<in> set is"
    "rule_aliases rs ! k = (''effect'' @ '':'' @ ''kill'',
      (rule, options_from_comments (comments_before ?S (root_children ex_alias_file) 0) (leaf_is_eqeq ?l)))"
    using declared_alias_found [OF rs refl parts(1-3) key colon] by blast
  then show ?thesis using rs parts(4,5)
    by (intro exI [of _ rs] exI [of _ rule] exI [of _ "is"] exI [of _ k]) simp
qed

end
