(* ===== verification/Error_Codes.thy ===== *)
theory Error_Codes
  imports Rules_Types
begin

text \<open>
  The catalogue of diagnostic codes (\<open>crates/error_codes/src/lib.rs\<close>): every code with its severity and its
  English template, and the substitution of parameters for placeholders. The tables of the other
  languages are a parameter.
\<close>

section \<open>Codes and their texts\<close>

record ErrorCode =
  ec_id :: rstr
  ec_severity :: Severity
  ec_template :: rstr

abbreviation error_code :: "rstr \<Rightarrow> Severity \<Rightarrow> rstr \<Rightarrow> ErrorCode" where
  "error_code code severity template \<equiv> \<lparr>ec_id = code, ec_severity = severity, ec_template = template\<rparr>"

definition DOC_URL :: rstr where
  "DOC_URL = ''https://github.com/MillenniumDawn/cwtools/blob/main/cwtools-rs/docs/ERROR_CODES.md''"

definition doc_url :: "rstr \<Rightarrow> rstr" where
  "doc_url code = DOC_URL @ ''#'' @ to_ascii_lowercase code"

text \<open>The table of the active locale, sorted by code, is a parameter: the texts are data. Its lookup is a binary
  search of \<open>std\<close>, which on a sorted table finds what a scan finds.\<close>

type_synonym LocaleTable = "(rstr \<times> rstr) list"

definition translated :: "LocaleTable \<Rightarrow> rstr \<Rightarrow> rstr option" where
  "translated table code = map_of table code"

definition code_message :: "LocaleTable \<Rightarrow> ErrorCode \<Rightarrow> rstr" where
  "code_message table code = (case translated table (ec_id code) of Some t \<Rightarrow> t | None \<Rightarrow> ec_template code)"

fun fill_params :: "rstr \<Rightarrow> rstr list \<Rightarrow> rstr" where
  "fill_params [] params = []"
| "fill_params [c] params = [c]"
| "fill_params (c # d # rest) params =
     (if c = CHR ''{'' \<and> d = CHR ''}''
      then (case params of p # ps \<Rightarrow> p @ fill_params rest ps | [] \<Rightarrow> ''{}'' @ fill_params rest [])
      else c # fill_params (d # rest) params)"

definition format_message :: "LocaleTable \<Rightarrow> ErrorCode \<Rightarrow> rstr list \<Rightarrow> rstr" where
  "format_message table code params = fill_params (code_message table code) params"

definition CW223_HOI4_KEY :: rstr where
  "CW223_HOI4_KEY = ''CW223.hoi4''"

definition CW223_INCORRECT_NOT_USAGE_HOI4_MSG :: rstr where
  "CW223_INCORRECT_NOT_USAGE_HOI4_MSG = ''NOT with multiple children acts as NOR (true only if every child is false). Make intent explicit: NOT = { OR = { ... } } for NOR, or NOT = { AND = { ... } } for NAND.''"

definition cw223_hoi4_message :: "LocaleTable \<Rightarrow> rstr" where
  "cw223_hoi4_message table =
     (case translated table CW223_HOI4_KEY of Some t \<Rightarrow> t | None \<Rightarrow> CW223_INCORRECT_NOT_USAGE_HOI4_MSG)"

section \<open>The catalogue\<close>

definition CW001_PARSE_ERROR :: ErrorCode where
  "CW001_PARSE_ERROR =
     error_code ''CW001'' SevError
       ''Localisation file parse error: {}''"

definition CW100_MISSING_LOCALISATION :: ErrorCode where
  "CW100_MISSING_LOCALISATION =
     error_code ''CW100'' SevWarning
       ''Localisation key {} is not defined for {}''"

definition CW104_INCORRECT_TRIGGER_SCOPE :: ErrorCode where
  "CW104_INCORRECT_TRIGGER_SCOPE =
     error_code ''CW104'' SevError
       ''{} trigger used in incorrect scope. In {} but expected {}''"

definition CW122_LOC_KEY_IN_INLINE :: ErrorCode where
  "CW122_LOC_KEY_IN_INLINE =
     error_code ''CW122'' SevInformation
       ''Localisation key {} should not be quoted when used inline, this can cause unexpected behaviour''"

definition CW240_UNEXPECTED_VALUE :: ErrorCode where
  "CW240_UNEXPECTED_VALUE =
     error_code ''CW240'' SevError
       ''{}''"

definition CW242_WRONG_NUMBER :: ErrorCode where
  "CW242_WRONG_NUMBER =
     error_code ''CW242'' SevWarning
       ''{}''"

definition CW243_TARGET_WRONG_SCOPE :: ErrorCode where
  "CW243_TARGET_WRONG_SCOPE =
     error_code ''CW243'' SevError
       ''Target \"{}\" has incorrect scope. Is {} but expect {}''"

definition CW244_INVALID_TARGET :: ErrorCode where
  "CW244_INVALID_TARGET =
     error_code ''CW244'' SevError
       ''{} is not a target. Expected a target in scope(s) {}''"

definition CW245_ERROR_IN_TARGET :: ErrorCode where
  "CW245_ERROR_IN_TARGET =
     error_code ''CW245'' SevError
       ''Error in target. Link {} was used in scope {} but expected {}''"

definition CW246_UNSET_VARIABLE :: ErrorCode where
  "CW246_UNSET_VARIABLE =
     error_code ''CW246'' SevWarning
       ''The variable {} has not been set''"

definition CW247_RULE_WRONG_SCOPE :: ErrorCode where
  "CW247_RULE_WRONG_SCOPE =
     error_code ''CW247'' SevError
       ''Trigger/Effect/Modifier {} used in wrong scope. In {} but expect {}''"

definition CW248_INVALID_SCOPE_COMMAND :: ErrorCode where
  "CW248_INVALID_SCOPE_COMMAND =
     error_code ''CW248'' SevError
       ''Invalid scope command {}''"

definition CW262_UNEXPECTED_PROPERTY_NODE :: ErrorCode where
  "CW262_UNEXPECTED_PROPERTY_NODE =
     error_code ''CW262'' SevError
       ''{}''"

definition CW263_UNEXPECTED_PROPERTY_LEAF :: ErrorCode where
  "CW263_UNEXPECTED_PROPERTY_LEAF =
     error_code ''CW263'' SevError
       ''{}''"

definition CW264_UNEXPECTED_PROPERTY_LEAF_VALUE :: ErrorCode where
  "CW264_UNEXPECTED_PROPERTY_LEAF_VALUE =
     error_code ''CW264'' SevWarning
       ''{}''"

definition CW265_UNEXPECTED_PROPERTY_VALUE_CLAUSE :: ErrorCode where
  "CW265_UNEXPECTED_PROPERTY_VALUE_CLAUSE =
     error_code ''CW265'' SevWarning
       ''{}''"

definition CW267_UNEXPECTED_ALIAS_KEY_VALUE :: ErrorCode where
  "CW267_UNEXPECTED_ALIAS_KEY_VALUE =
     error_code ''CW267'' SevError
       ''Expected a {} value, got {}''"

definition CW270_VARIABLE_TOO_SMALL :: ErrorCode where
  "CW270_VARIABLE_TOO_SMALL =
     error_code ''CW270'' SevWarning
       ''Value too small, only 3 decimal places are supported in this context''"

definition CW271_VARIABLE_INT_ONLY :: ErrorCode where
  "CW271_VARIABLE_INT_ONLY =
     error_code ''CW271'' SevWarning
       ''Expected an integer''"

definition CW272_FROM_RULES_CUSTOM_ERROR :: ErrorCode where
  "CW272_FROM_RULES_CUSTOM_ERROR =
     error_code ''CW272'' SevError
       ''{}''"

definition CW274_INLINE_SCRIPT_ERROR :: ErrorCode where
  "CW274_INLINE_SCRIPT_ERROR =
     error_code ''CW274'' SevError
       ''{}''"

definition CW225_UNDEFINED_LOC_REFERENCE :: ErrorCode where
  "CW225_UNDEFINED_LOC_REFERENCE =
     error_code ''CW225'' SevError
       ''Localisation key \"{}\" references \"{}\" which doesn't exist in {}''"

definition CW226_INVALID_LOC_COMMAND :: ErrorCode where
  "CW226_INVALID_LOC_COMMAND =
     error_code ''CW226'' SevError
       ''Localisation key \"{}\" uses command \"{}\" which doesn't exist''"

definition CW234_REPLACE_ME_LOC :: ErrorCode where
  "CW234_REPLACE_ME_LOC =
     error_code ''CW234'' SevInformation
       ''Localisation key {} is a placeholder for {}''"

definition CW254_WRONG_ENCODING :: ErrorCode where
  "CW254_WRONG_ENCODING =
     error_code ''CW254'' SevError
       ''Localisation files must be UTF-8 BOM, this file is not''"

definition CW255_MISSING_LOC_FILE_LANG :: ErrorCode where
  "CW255_MISSING_LOC_FILE_LANG =
     error_code ''CW255'' SevError
       ''Localisation file name should contain (and ideally end with) \"l_language.yml\"''"

definition CW256_MISSING_LOC_FILE_LANG_HEADER :: ErrorCode where
  "CW256_MISSING_LOC_FILE_LANG_HEADER =
     error_code ''CW256'' SevError
       ''Localisation file should start with \"l_language:\" on the first line (or a comment)''"

definition CW257_LOC_FILE_LANG_MISMATCH :: ErrorCode where
  "CW257_LOC_FILE_LANG_MISMATCH =
     error_code ''CW257'' SevError
       ''Localisation file's name has language {} doesn't match the header language {}''"

definition CW258_LOC_FILE_LANG_WRONG_PLACE :: ErrorCode where
  "CW258_LOC_FILE_LANG_WRONG_PLACE =
     error_code ''CW258'' SevInformation
       ''Localisation file name should end with \"l_language.yml\"''"

definition CW259_RECURSIVE_LOC_REF :: ErrorCode where
  "CW259_RECURSIVE_LOC_REF =
     error_code ''CW259'' SevError
       ''This localisation string refers to itself''"

definition CW260_LOC_COMMAND_WRONG_SCOPE :: ErrorCode where
  "CW260_LOC_COMMAND_WRONG_SCOPE =
     error_code ''CW260'' SevError
       ''Loc command {} used in wrong scope. In {} but expected {}''"

definition CW261_DUPLICATE_TYPE_DEF :: ErrorCode where
  "CW261_DUPLICATE_TYPE_DEF =
     error_code ''CW261'' SevError
       ''Key {} of type {} is defined multiple times''"

definition CW266_LOC_COMMAND_NOT_IN_DATA_TYPE :: ErrorCode where
  "CW266_LOC_COMMAND_NOT_IN_DATA_TYPE =
     error_code ''CW266'' SevError
       ''Localisation key {} uses command {} which does not exist in data type {}.''"

definition CW268_LOC_MISSING_QUOTE :: ErrorCode where
  "CW268_LOC_MISSING_QUOTE =
     error_code ''CW268'' SevWarning
       ''Localisation key {} doesn't start and end with double quotes''"

definition CW275_LOC_INVALID_CHARS :: ErrorCode where
  "CW275_LOC_INVALID_CHARS =
     error_code ''CW275'' SevWarning
       ''Localisation value for {} contains unexpected characters, and may not render correctly''"

definition CW276_LOC_KEY_INVALID_CHARS :: ErrorCode where
  "CW276_LOC_KEY_INVALID_CHARS =
     error_code ''CW276'' SevWarning
       ''Localisation key {} contains invalid characters (spaces or special characters are not allowed)''"

definition CW277_ALIAS_BRANCH_LIMIT :: ErrorCode where
  "CW277_ALIAS_BRANCH_LIMIT =
     error_code ''CW277'' SevWarning
       ''Validation stopped after reaching the alias branch limit''"

definition CW107_EVENT_EVERY_TICK :: ErrorCode where
  "CW107_EVENT_EVERY_TICK =
     error_code ''CW107'' SevInformation
       ''Event is missing mean_time_to_happen, is_triggered_only, fire_only_once, or trigger={always=no}. Performance concern: event may fire every tick.''"

definition CW121_EMPTY_IF :: ErrorCode where
  "CW121_EMPTY_IF =
     error_code ''CW121'' SevWarning
       ''This 'if' trigger contains no effects''"

definition CW223_INCORRECT_NOT_USAGE :: ErrorCode where
  "CW223_INCORRECT_NOT_USAGE =
     error_code ''CW223'' SevInformation
       ''Do not use NOT with multiple children, replace this with either NOR or NAND to avoid ambiguity''"

definition CW251_UNNECESSARY_BOOLEAN :: ErrorCode where
  "CW251_UNNECESSARY_BOOLEAN =
     error_code ''CW251'' SevWarning
       ''This {} is unnecessary''"

definition CW280_REDUNDANT_DEFAULT_FIELD :: ErrorCode where
  "CW280_REDUNDANT_DEFAULT_FIELD =
     error_code ''CW280'' SevInformation
       ''{} = { always = ... } matches the default and can be removed''"

definition CW281_EMPTY_LIMIT :: ErrorCode where
  "CW281_EMPTY_LIMIT =
     error_code ''CW281'' SevWarning
       ''This 'limit' contains no triggers''"

definition CW282_REDUNDANT_DEFAULT_BOOL :: ErrorCode where
  "CW282_REDUNDANT_DEFAULT_BOOL =
     error_code ''CW282'' SevInformation
       ''This is the default value ({}) and can be omitted''"

definition CW236_DEPRECATED_ELSE :: ErrorCode where
  "CW236_DEPRECATED_ELSE =
     error_code ''CW236'' SevWarning
       ''Nested if/else in effects was deprecated with 2.1 and will be removed in a future release''"

definition CW237_AMBIGUOUS_IF_ELSE :: ErrorCode where
  "CW237_AMBIGUOUS_IF_ELSE =
     error_code ''CW237'' SevInformation
       ''2.1 changed nested if = { if else } behaviour in effects. Check this still works as expected''"

definition CW238_IF_ELSE_ORDER :: ErrorCode where
  "CW238_IF_ELSE_ORDER =
     error_code ''CW238'' SevError
       ''An else/else_if is missing a preceding if''"

definition CW253_DEPRECATED_SET_NAME :: ErrorCode where
  "CW253_DEPRECATED_SET_NAME =
     error_code ''CW253'' SevInformation
       ''Consider using \"set_name\" instead for consistency''"

definition CW105_INCORRECT_EFFECT_SCOPE :: ErrorCode where
  "CW105_INCORRECT_EFFECT_SCOPE =
     error_code ''CW105'' SevError
       ''{} effect used in incorrect scope. In {} but expected {}''"

definition CW106_INCORRECT_SCOPE_SCOPE :: ErrorCode where
  "CW106_INCORRECT_SCOPE_SCOPE =
     error_code ''CW106'' SevError
       ''{} scope command used in incorrect scope. In {} but expected {}''"

definition CW120_POSSIBLE_PRETRIGGER :: ErrorCode where
  "CW120_POSSIBLE_PRETRIGGER =
     error_code ''CW120'' SevInformation
       ''Trigger {} can be made a pretrigger (see code action to fix)''"

definition CW273_UNDEFINED_MODIFIER_TYPE :: ErrorCode where
  "CW273_UNDEFINED_MODIFIER_TYPE =
     error_code ''CW273'' SevWarning
       ''Modifier type {} is not defined but is used''"

definition CW220_UNSAVED_EVENT_TARGET :: ErrorCode where
  "CW220_UNSAVED_EVENT_TARGET =
     error_code ''CW220'' SevError
       ''{} or an event it calls require the event target(s) {} but they are not set by this event or by all possible events leading here''"

definition CW221_MAYBE_UNSAVED_EVENT_TARGET :: ErrorCode where
  "CW221_MAYBE_UNSAVED_EVENT_TARGET =
     error_code ''CW221'' SevWarning
       ''{} or an event it calls require the event target(s) {} but they may not always be set by this event or by all possible events leading here''"

definition CW222_UNDEFINED_EVENT :: ErrorCode where
  "CW222_UNDEFINED_EVENT =
     error_code ''CW222'' SevWarning
       ''The event id {} is not defined''"

definition CW108_RESEARCH_LEADER_AREA :: ErrorCode where
  "CW108_RESEARCH_LEADER_AREA =
     error_code ''CW108'' SevError
       ''This research_leader is missing required \"area\"''"

definition CW109_RESEARCH_LEADER_TECH :: ErrorCode where
  "CW109_RESEARCH_LEADER_TECH =
     error_code ''CW109'' SevInformation
       ''This research_leader uses area {} but the technology uses area {}''"

definition CW110_TECH_CAT_MISSING :: ErrorCode where
  "CW110_TECH_CAT_MISSING =
     error_code ''CW110'' SevError
       ''No category found for this technology''"

definition CW113_MISSING_FILE :: ErrorCode where
  "CW113_MISSING_FILE =
     error_code ''CW113'' SevError
       ''File {} not found, this is case sensitive''"

definition CW227_UNKNOWN_SECTION_TEMPLATE :: ErrorCode where
  "CW227_UNKNOWN_SECTION_TEMPLATE =
     error_code ''CW227'' SevError
       ''Section template {} can not be found''"

definition CW228_MISSING_SECTION_SLOT :: ErrorCode where
  "CW228_MISSING_SECTION_SLOT =
     error_code ''CW228'' SevError
       ''Section template {} does not have a slot {}''"

definition CW229_UNKNOWN_COMPONENT_TEMPLATE :: ErrorCode where
  "CW229_UNKNOWN_COMPONENT_TEMPLATE =
     error_code ''CW229'' SevError
       ''Component template {} can not be found''"

definition CW230_MISMATCHED_COMPONENT_AND_SLOT :: ErrorCode where
  "CW230_MISMATCHED_COMPONENT_AND_SLOT =
     error_code ''CW230'' SevWarning
       ''Component and slot do not match, slot {} has size {} and component {} has size {}''"

definition CW231_UNUSED_TECH :: ErrorCode where
  "CW231_UNUSED_TECH =
     error_code ''CW231'' SevWarning
       ''Technology {} is not used''"

definition CW233_UNDEFINED_ENTITY :: ErrorCode where
  "CW233_UNDEFINED_ENTITY =
     error_code ''CW233'' SevError
       ''Entity {} is not defined''"

definition CW235_ZERO_MODIFIER :: ErrorCode where
  "CW235_ZERO_MODIFIER =
     error_code ''CW235'' SevWarning
       ''Modifier {} has value 0. Modifiers are additive so likely doesn't do anything''"

definition CW269_OPTIMISATION_MERGE_LIST :: ErrorCode where
  "CW269_OPTIMISATION_MERGE_LIST =
     error_code ''CW269'' SevHint
       ''Optimise by merging this with {} by using {}''"

definition CW250_PLANET_KILLER_MISSING :: ErrorCode where
  "CW250_PLANET_KILLER_MISSING =
     error_code ''CW250'' SevError
       ''{}''"

definition CW500_TYPE_NOT_FOUND :: ErrorCode where
  "CW500_TYPE_NOT_FOUND =
     error_code ''CW500'' SevError
       ''Type '{}' not found''"

definition CW239_UNUSED_TYPE :: ErrorCode where
  "CW239_UNUSED_TYPE =
     error_code ''CW239'' SevWarning
       ''{} of type {} is not used anywhere, but is expected to be''"

definition CW600_RULES_FILE_UNREADABLE :: ErrorCode where
  "CW600_RULES_FILE_UNREADABLE =
     error_code ''CW600'' SevError
       ''Rules file could not be read: {}''"

definition CW601_RULES_UNDEFINED_REFERENCE :: ErrorCode where
  "CW601_RULES_UNDEFINED_REFERENCE =
     error_code ''CW601'' SevError
       ''Rule references undefined {} `{}`''"

definition CW602_RULES_UNEXPANDED_ALIAS :: ErrorCode where
  "CW602_RULES_UNEXPANDED_ALIAS =
     error_code ''CW602'' SevError
       ''{}''"

definition CW603_RULES_INVALID_DIRECTIVE :: ErrorCode where
  "CW603_RULES_INVALID_DIRECTIVE =
     error_code ''CW603'' SevWarning
       ''{}''"

definition CATALOG :: "(rstr \<times> ErrorCode) list" where
  "CATALOG =
     [(''CW001_PARSE_ERROR'', CW001_PARSE_ERROR),
      (''CW100_MISSING_LOCALISATION'', CW100_MISSING_LOCALISATION),
      (''CW104_INCORRECT_TRIGGER_SCOPE'', CW104_INCORRECT_TRIGGER_SCOPE),
      (''CW105_INCORRECT_EFFECT_SCOPE'', CW105_INCORRECT_EFFECT_SCOPE),
      (''CW106_INCORRECT_SCOPE_SCOPE'', CW106_INCORRECT_SCOPE_SCOPE),
      (''CW107_EVENT_EVERY_TICK'', CW107_EVENT_EVERY_TICK),
      (''CW108_RESEARCH_LEADER_AREA'', CW108_RESEARCH_LEADER_AREA),
      (''CW109_RESEARCH_LEADER_TECH'', CW109_RESEARCH_LEADER_TECH),
      (''CW110_TECH_CAT_MISSING'', CW110_TECH_CAT_MISSING),
      (''CW113_MISSING_FILE'', CW113_MISSING_FILE),
      (''CW120_POSSIBLE_PRETRIGGER'', CW120_POSSIBLE_PRETRIGGER),
      (''CW121_EMPTY_IF'', CW121_EMPTY_IF),
      (''CW122_LOC_KEY_IN_INLINE'', CW122_LOC_KEY_IN_INLINE),
      (''CW220_UNSAVED_EVENT_TARGET'', CW220_UNSAVED_EVENT_TARGET),
      (''CW221_MAYBE_UNSAVED_EVENT_TARGET'', CW221_MAYBE_UNSAVED_EVENT_TARGET),
      (''CW222_UNDEFINED_EVENT'', CW222_UNDEFINED_EVENT),
      (''CW223_INCORRECT_NOT_USAGE'', CW223_INCORRECT_NOT_USAGE),
      (''CW225_UNDEFINED_LOC_REFERENCE'', CW225_UNDEFINED_LOC_REFERENCE),
      (''CW226_INVALID_LOC_COMMAND'', CW226_INVALID_LOC_COMMAND),
      (''CW227_UNKNOWN_SECTION_TEMPLATE'', CW227_UNKNOWN_SECTION_TEMPLATE),
      (''CW228_MISSING_SECTION_SLOT'', CW228_MISSING_SECTION_SLOT),
      (''CW229_UNKNOWN_COMPONENT_TEMPLATE'', CW229_UNKNOWN_COMPONENT_TEMPLATE),
      (''CW230_MISMATCHED_COMPONENT_AND_SLOT'', CW230_MISMATCHED_COMPONENT_AND_SLOT),
      (''CW231_UNUSED_TECH'', CW231_UNUSED_TECH),
      (''CW233_UNDEFINED_ENTITY'', CW233_UNDEFINED_ENTITY),
      (''CW234_REPLACE_ME_LOC'', CW234_REPLACE_ME_LOC),
      (''CW235_ZERO_MODIFIER'', CW235_ZERO_MODIFIER),
      (''CW236_DEPRECATED_ELSE'', CW236_DEPRECATED_ELSE),
      (''CW237_AMBIGUOUS_IF_ELSE'', CW237_AMBIGUOUS_IF_ELSE),
      (''CW238_IF_ELSE_ORDER'', CW238_IF_ELSE_ORDER),
      (''CW239_UNUSED_TYPE'', CW239_UNUSED_TYPE),
      (''CW240_UNEXPECTED_VALUE'', CW240_UNEXPECTED_VALUE),
      (''CW242_WRONG_NUMBER'', CW242_WRONG_NUMBER),
      (''CW243_TARGET_WRONG_SCOPE'', CW243_TARGET_WRONG_SCOPE),
      (''CW244_INVALID_TARGET'', CW244_INVALID_TARGET),
      (''CW245_ERROR_IN_TARGET'', CW245_ERROR_IN_TARGET),
      (''CW246_UNSET_VARIABLE'', CW246_UNSET_VARIABLE),
      (''CW247_RULE_WRONG_SCOPE'', CW247_RULE_WRONG_SCOPE),
      (''CW248_INVALID_SCOPE_COMMAND'', CW248_INVALID_SCOPE_COMMAND),
      (''CW250_PLANET_KILLER_MISSING'', CW250_PLANET_KILLER_MISSING),
      (''CW251_UNNECESSARY_BOOLEAN'', CW251_UNNECESSARY_BOOLEAN),
      (''CW253_DEPRECATED_SET_NAME'', CW253_DEPRECATED_SET_NAME),
      (''CW254_WRONG_ENCODING'', CW254_WRONG_ENCODING),
      (''CW255_MISSING_LOC_FILE_LANG'', CW255_MISSING_LOC_FILE_LANG),
      (''CW256_MISSING_LOC_FILE_LANG_HEADER'', CW256_MISSING_LOC_FILE_LANG_HEADER),
      (''CW257_LOC_FILE_LANG_MISMATCH'', CW257_LOC_FILE_LANG_MISMATCH),
      (''CW259_RECURSIVE_LOC_REF'', CW259_RECURSIVE_LOC_REF),
      (''CW260_LOC_COMMAND_WRONG_SCOPE'', CW260_LOC_COMMAND_WRONG_SCOPE),
      (''CW261_DUPLICATE_TYPE_DEF'', CW261_DUPLICATE_TYPE_DEF),
      (''CW262_UNEXPECTED_PROPERTY_NODE'', CW262_UNEXPECTED_PROPERTY_NODE),
      (''CW263_UNEXPECTED_PROPERTY_LEAF'', CW263_UNEXPECTED_PROPERTY_LEAF),
      (''CW264_UNEXPECTED_PROPERTY_LEAF_VALUE'', CW264_UNEXPECTED_PROPERTY_LEAF_VALUE),
      (''CW265_UNEXPECTED_PROPERTY_VALUE_CLAUSE'', CW265_UNEXPECTED_PROPERTY_VALUE_CLAUSE),
      (''CW266_LOC_COMMAND_NOT_IN_DATA_TYPE'', CW266_LOC_COMMAND_NOT_IN_DATA_TYPE),
      (''CW267_UNEXPECTED_ALIAS_KEY_VALUE'', CW267_UNEXPECTED_ALIAS_KEY_VALUE),
      (''CW268_LOC_MISSING_QUOTE'', CW268_LOC_MISSING_QUOTE),
      (''CW269_OPTIMISATION_MERGE_LIST'', CW269_OPTIMISATION_MERGE_LIST),
      (''CW270_VARIABLE_TOO_SMALL'', CW270_VARIABLE_TOO_SMALL),
      (''CW271_VARIABLE_INT_ONLY'', CW271_VARIABLE_INT_ONLY),
      (''CW272_FROM_RULES_CUSTOM_ERROR'', CW272_FROM_RULES_CUSTOM_ERROR),
      (''CW273_UNDEFINED_MODIFIER_TYPE'', CW273_UNDEFINED_MODIFIER_TYPE),
      (''CW274_INLINE_SCRIPT_ERROR'', CW274_INLINE_SCRIPT_ERROR),
      (''CW275_LOC_INVALID_CHARS'', CW275_LOC_INVALID_CHARS),
      (''CW276_LOC_KEY_INVALID_CHARS'', CW276_LOC_KEY_INVALID_CHARS),
      (''CW277_ALIAS_BRANCH_LIMIT'', CW277_ALIAS_BRANCH_LIMIT),
      (''CW280_REDUNDANT_DEFAULT_FIELD'', CW280_REDUNDANT_DEFAULT_FIELD),
      (''CW281_EMPTY_LIMIT'', CW281_EMPTY_LIMIT),
      (''CW282_REDUNDANT_DEFAULT_BOOL'', CW282_REDUNDANT_DEFAULT_BOOL),
      (''CW500_TYPE_NOT_FOUND'', CW500_TYPE_NOT_FOUND),
      (''CW600_RULES_FILE_UNREADABLE'', CW600_RULES_FILE_UNREADABLE),
      (''CW601_RULES_UNDEFINED_REFERENCE'', CW601_RULES_UNDEFINED_REFERENCE),
      (''CW602_RULES_UNEXPANDED_ALIAS'', CW602_RULES_UNEXPANDED_ALIAS),
      (''CW603_RULES_INVALID_DIRECTIVE'', CW603_RULES_INVALID_DIRECTIVE)]"
section \<open>Properties of the catalogue\<close>

text \<open>A template as the texts between its placeholders, and the text with one parameter for each.\<close>

fun template_pieces :: "rstr \<Rightarrow> rstr list" where
  "template_pieces [] = [[]]"
| "template_pieces [c] = [[c]]"
| "template_pieces (c # d # rest) =
     (if c = CHR ''{'' \<and> d = CHR ''}'' then [] # template_pieces rest
      else (case template_pieces (d # rest) of [] \<Rightarrow> [[c]] | p # ps \<Rightarrow> (c # p) # ps))"

fun woven :: "rstr list \<Rightarrow> rstr list \<Rightarrow> rstr" where
  "woven [] params = []"
| "woven [p] params = p"
| "woven (p # q # ps) params = p @ (case params of [] \<Rightarrow> ''{}'' @ woven (q # ps) [] | x # xs \<Rightarrow> x @ woven (q # ps) xs)"

lemma pieces_neq_Nil [simp]: "template_pieces t \<noteq> []"
  by (induction t rule: template_pieces.induct) (auto split: list.splits)

lemma woven_Cons: "woven ((c # p) # ps) params = c # woven (p # ps) params"
  by (cases ps) auto

lemma fill_params_woven: "fill_params t params = woven (template_pieces t) params"
proof (induction t params rule: fill_params.induct)
  case (3 c d rest params)
  show ?case
  proof (cases "c = CHR ''{'' \<and> d = CHR ''}''")
    case True
    obtain q qs where "template_pieces rest = q # qs" by (cases "template_pieces rest") auto
    then show ?thesis using True 3 by (cases params) auto
  next
    case False
    obtain q qs where "template_pieces (d # rest) = q # qs" by (cases "template_pieces (d # rest)") auto
    then show ?thesis using False 3 by (auto simp: woven_Cons)
  qed
qed auto

definition rule_id :: "rstr \<Rightarrow> rstr" where
  "rule_id name = takeWhile (\<lambda>c. c \<noteq> CHR ''_'') name"

text \<open>A message is its template with the parameters in the places of its placeholders, and the id of a code is the
  first part of its constant's name.\<close>

lemma format_message_woven: "format_message table code params = woven (template_pieces (code_message table code)) params"
  by (simp add: format_message_def fill_params_woven)

lemma catalogue_ids: "list_all (\<lambda>(name, code). ec_id code = rule_id name) CATALOG"
  by code_simp

end
