(* ===== verification/Config_Validation.thy ===== *)
theory Config_Validation
  imports Config_Converter Error_Codes
begin

text \<open>
  The references a configuration file makes and the positions of what it defines
  (\<open>crates/rules/src/config_validation.rs\<close>): candidates are collected from the tree of a file, and resolved once
  the rules of all files are merged. The walk over a clause carries the converter's fuel; a read past the
  arena is \<open>None\<close>.
\<close>

section \<open>References\<close>

datatype RefKind = RefType | RefEnum | RefSingleAlias

fun ref_label :: "RefKind \<Rightarrow> rstr" where
  "ref_label RefType = ''type''"
| "ref_label RefEnum = ''enum''"
| "ref_label RefSingleAlias = ''single_alias''"

record RefCandidate =
  rc_file :: rstr
  rc_line :: u32
  rc_col :: u16
  rc_kind :: RefKind
  rc_name :: rstr

definition referenced_name :: "NewField \<Rightarrow> (RefKind \<times> rstr) option" where
  "referenced_name field =
     (case field of
        TypeField t \<Rightarrow> Some (RefType, base_name t)
      | ValueField (VtEnum n) \<Rightarrow> Some (RefEnum, n)
      | SingleAliasField n \<Rightarrow> Some (RefSingleAlias, n)
      | _ \<Rightarrow> None)"

definition collect_field :: "rstr \<Rightarrow> SourcePos \<Rightarrow> rstr \<Rightarrow> RefCandidate list" where
  "collect_field path start s =
     (case referenced_name (field_from_string s) of
        None \<Rightarrow> []
      | Some (kind, name) \<Rightarrow>
          [\<lparr>rc_file = path, rc_line = pos_line start, rc_col = pos_col start, rc_kind = kind, rc_name = name\<rparr>])"

text \<open>The value of a leaf or of a bare value; \<open>rec\<close> collects from one child of a clause.\<close>

definition collect_value ::
  "(Child \<Rightarrow> RefCandidate list option) \<Rightarrow> Source \<Rightarrow> rstr \<Rightarrow> SourcePos \<Rightarrow> AstValue \<Rightarrow> RefCandidate list option" where
  "collect_value rec S path start v =
     (case v of
        VClause children \<Rightarrow> collect rec children
      | other \<Rightarrow> Some (collect_field path start (value_to_string S other)))"

primrec collect_child :: "nat \<Rightarrow> Source \<Rightarrow> rstr \<Rightarrow> Child \<Rightarrow> RefCandidate list option" where
  "collect_child 0 S path c = None"
| "collect_child (Suc n) S path c =
     (case c of
        ChildLeaf i \<Rightarrow>
          (case leaf_at S i of
             None \<Rightarrow> None
           | Some l \<Rightarrow>
               (let start = range_start (leaf_pos l)
                in map_option (\<lambda>inner. collect_field path start (text_of S (leaf_key l)) @ inner)
                     (collect_value (collect_child n S path) S path start (leaf_val l))))
      | ChildLeafValue i \<Rightarrow>
          (case leaf_value_at S i of
             None \<Rightarrow> None
           | Some lv \<Rightarrow> collect_value (collect_child n S path) S path (range_start (lv_pos lv)) (lv_value lv))
      | ChildComment _ \<Rightarrow> Some [])"

definition collect_reference_candidates :: "(Decimal \<Rightarrow> rstr) \<Rightarrow> rstr \<Rightarrow> ParsedFile \<Rightarrow> StringTable \<Rightarrow> RefCandidate list option" where
  "collect_reference_candidates show path ast table =
     collect (collect_child CONVERT_LEVELS (source_of show ast table) path) (root_children ast)"

section \<open>Resolution\<close>

definition is_defined :: "RuleSet \<Rightarrow> RefKind \<Rightarrow> rstr \<Rightarrow> bool" where
  "is_defined rs kind name \<longleftrightarrow>
     (case kind of
        RefType \<Rightarrow> map_of (type_by_name rs) name \<noteq> None
      | RefEnum \<Rightarrow> map_of (enum_by_name rs) name \<noteq> None \<or> list_ex (\<lambda>c. ce_name c = name) (rule_complex_enums rs)
      | RefSingleAlias \<Rightarrow> name \<in> set (map fst (rule_single_aliases rs)))"

definition rule_parse_error_new :: "ErrorCode \<Rightarrow> rstr \<Rightarrow> u32 \<Rightarrow> u16 \<Rightarrow> rstr \<Rightarrow> RuleParseError" where
  "rule_parse_error_new code file line col message =
     \<lparr>rpe_file = file, rpe_line = line, rpe_col = col, rpe_code = ec_id code, rpe_severity = ec_severity code, rpe_message = message\<rparr>"

definition undefined_error :: "RefCandidate \<Rightarrow> RuleParseError" where
  "undefined_error c =
     rule_parse_error_new CW601_RULES_UNDEFINED_REFERENCE (rc_file c) (rc_line c) (rc_col c)
       (''rule references undefined '' @ ref_label (rc_kind c) @ '' `'' @ rc_name c @ ''`'')"

definition resolve_reference_candidates :: "RefCandidate list \<Rightarrow> RuleSet \<Rightarrow> RuleParseError list" where
  "resolve_reference_candidates candidates rs =
     map undefined_error (filter (\<lambda>c. \<not> is_defined rs (rc_kind c) (rc_name c)) candidates)"

definition validate_ruleset_references ::
  "(Decimal \<Rightarrow> rstr) \<Rightarrow> (rstr \<times> ParsedFile) list \<Rightarrow> RuleSet \<Rightarrow> StringTable \<Rightarrow> RuleParseError list option" where
  "validate_ruleset_references show files rs table =
     map_option (\<lambda>cs. resolve_reference_candidates cs rs)
       (collect (\<lambda>(path, ast). collect_reference_candidates show path ast table) files)"

section \<open>Positions of definitions\<close>

definition bracket_name :: "rstr \<Rightarrow> rstr \<Rightarrow> rstr option" where
  "bracket_name key pre =
     Option.bind (strip_prefix key pre) (\<lambda>s. Option.bind (strip_prefix s ''['') (\<lambda>t. strip_suffix t '']''))"

definition def_position :: "rstr \<Rightarrow> CwtDefKind \<Rightarrow> rstr \<Rightarrow> Leaf \<Rightarrow> CwtDefPosition" where
  "def_position path kind name l =
     \<lparr>dp_kind = kind, dp_name = name, dp_file = path, dp_line = pos_line (range_start (leaf_pos l)),
      dp_col = pos_col (range_start (leaf_pos l))\<rparr>"

definition first_member :: "(rstr \<times> CwtDefKind) list \<Rightarrow> rstr \<Rightarrow> (CwtDefKind \<times> rstr) option" where
  "first_member member_kinds key =
     find_map (\<lambda>(pre, kind). map_option (\<lambda>name. (kind, name)) (bracket_name key pre)) member_kinds"

definition member_position :: "Source \<Rightarrow> rstr \<Rightarrow> (rstr \<times> CwtDefKind) list \<Rightarrow> Child \<Rightarrow> CwtDefPosition list option" where
  "member_position S path member_kinds c =
     (case c of
        ChildLeaf i \<Rightarrow>
          map_option (\<lambda>l.
            case first_member member_kinds (trim_matches (CHR 0x22) (text_of S (leaf_key l))) of
              None \<Rightarrow> []
            | Some (kind, name) \<Rightarrow> [def_position path kind name l]) (leaf_at S i)
      | _ \<Rightarrow> Some [])"

definition root_position :: "Source \<Rightarrow> rstr \<Rightarrow> Child \<Rightarrow> CwtDefPosition list option" where
  "root_position S path c =
     (case c of
        ChildLeaf i \<Rightarrow>
          (case leaf_at S i of
             None \<Rightarrow> None
           | Some l \<Rightarrow>
               (let key = trim_matches (CHR 0x22) (text_of S (leaf_key l));
                    member_kinds = (if eq_ignore_ascii_case key ''types'' then [(''type'', DefType)]
                      else if eq_ignore_ascii_case key ''enums'' then [(''complex_enum'', DefEnum), (''enum'', DefEnum)]
                      else [])
                in case bracket_name key ''single_alias'' of
                     Some name \<Rightarrow> Some [def_position path DefSingleAlias name l]
                   | None \<Rightarrow>
                       if member_kinds = [] then Some []
                       else (case leaf_val l of
                               VClause inner \<Rightarrow> collect (member_position S path member_kinds) inner
                             | _ \<Rightarrow> Some [])))
      | _ \<Rightarrow> Some [])"

definition collect_definition_positions :: "(Decimal \<Rightarrow> rstr) \<Rightarrow> rstr \<Rightarrow> ParsedFile \<Rightarrow> StringTable \<Rightarrow> CwtDefPosition list option" where
  "collect_definition_positions show path ast table = collect (root_position (source_of show ast table) path) (root_children ast)"

end
