(* ===== verification/Post_Process.thy ===== *)
theory Post_Process
  imports Config_Converter "HOL-Library.List_Lexorder" "HOL-Library.Product_Lexorder" "HOL-Library.Char_ord"
begin

text \<open>
  The passes over a merged rule set (\<open>crates/rules/src/post_process.rs\<close>): value scope markers, inlining of
  single aliases under a depth limit and a node budget, colour and country tag fields, ignored fields.
  A pass walks shared bodies through a cache of bodies it has found clean, so it carries that cache as
  state; the expander of single aliases is a record of its own.
\<close>

section \<open>Rule bodies\<close>

definition body_of :: "RuleType \<Rightarrow> NewRule list option" where
  "body_of rt =
     (case rt of
        NodeRule _ rules \<Rightarrow> Some rules
      | ValueClauseRule rules \<Rightarrow> Some rules
      | SubtypeRule _ _ rules \<Rightarrow> Some rules
      | _ \<Rightarrow> None)"

definition map_roots :: "(NewRule \<Rightarrow> 's \<Rightarrow> NewRule \<times> 's) \<Rightarrow> RootRule \<Rightarrow> 's \<Rightarrow> RootRule \<times> 's" where
  "map_roots f root s =
     (case root of
        TypeRule n rule \<Rightarrow> map_prod (TypeRule n) id (f rule s)
      | AliasRule n rule \<Rightarrow> map_prod (AliasRule n) id (f rule s)
      | SingleAliasRule n rule \<Rightarrow> map_prod (SingleAliasRule n) id (f rule s))"

definition map_named :: "(NewRule \<Rightarrow> 's \<Rightarrow> NewRule \<times> 's) \<Rightarrow> rstr \<times> NewRule \<Rightarrow> 's \<Rightarrow> (rstr \<times> NewRule) \<times> 's" where
  "map_named f entry s = map_prod (\<lambda>rule. (fst entry, rule)) id (f (snd entry) s)"

fun map_state :: "('a \<Rightarrow> 's \<Rightarrow> 'b \<times> 's) \<Rightarrow> 'a list \<Rightarrow> 's \<Rightarrow> 'b list \<times> 's" where
  "map_state f [] s = ([], s)"
| "map_state f (x # xs) s = (let (y, s1) = f x s; (ys, s2) = map_state f xs s1 in (y # ys, s2))"

text \<open>The three collections of rules, in the order every pass visits them.\<close>

definition for_each_root_rule_mut :: "(NewRule \<Rightarrow> 's \<Rightarrow> NewRule \<times> 's) \<Rightarrow> RuleSet \<Rightarrow> 's \<Rightarrow> RuleSet \<times> 's" where
  "for_each_root_rule_mut f rs s =
     (let (roots, s1) = map_state (map_roots f) (rule_root_rules rs) s;
          (aliases, s2) = map_state (map_named f) (rule_aliases rs) s1;
          (singles, s3) = map_state (map_named f) (rule_single_aliases rs) s2
      in (rs\<lparr>rule_root_rules := roots, rule_aliases := aliases, rule_single_aliases := singles\<rparr>, s3))"

text \<open>The bodies a pass has found free of its marker (\<open>CleanCache\<close>). The source keys them by the address
  of the shared allocation, so equal addresses mean equal bodies; here the key is the body itself.\<close>

type_synonym CleanCache = "NewRule list list"

fun any_rule :: "(RuleType \<Rightarrow> bool) \<Rightarrow> RuleType \<Rightarrow> CleanCache \<Rightarrow> bool \<times> CleanCache"
  and any_in_body :: "(RuleType \<Rightarrow> bool) \<Rightarrow> NewRule list \<Rightarrow> CleanCache \<Rightarrow> bool \<times> CleanCache"
  and any_of_rules :: "(RuleType \<Rightarrow> bool) \<Rightarrow> NewRule list \<Rightarrow> CleanCache \<Rightarrow> bool \<times> CleanCache" where
  "any_rule pred (NodeRule l rules) cc =
     (if pred (NodeRule l rules) then (True, cc) else any_in_body pred rules cc)"
| "any_rule pred (ValueClauseRule rules) cc =
     (if pred (ValueClauseRule rules) then (True, cc) else any_in_body pred rules cc)"
| "any_rule pred (SubtypeRule n p rules) cc =
     (if pred (SubtypeRule n p rules) then (True, cc) else any_in_body pred rules cc)"
| "any_rule pred (LeafRule l r) cc = (pred (LeafRule l r), cc)"
| "any_rule pred (LeafValueRule r) cc = (pred (LeafValueRule r), cc)"
| "any_in_body pred body cc =
     (if body = [] \<or> body \<in> set cc then (False, cc)
      else (let (found, cc1) = any_of_rules pred body cc in if found then (True, cc1) else (False, body # cc1)))"
| "any_of_rules pred [] cc = (False, cc)"
| "any_of_rules pred ((rt, _) # rules) cc =
     (let (found, cc1) = any_rule pred rt cc in if found then (True, cc1) else any_of_rules pred rules cc1)"

section \<open>Inlining of single aliases\<close>

datatype Resolution = Pending | InProgress | Done

datatype Refusal = RefusedCycle | RefusedDepth | RefusedBudget

record AliasExpansionError =
  aee_name :: rstr
  aee_message :: rstr

record Expander =
  ex_by_name :: "(rstr \<times> nat) list"
  ex_bodies :: "NewRule option list"
  ex_state :: "Resolution list"
  ex_size :: "nat list"
  ex_limit :: nat
  ex_remaining :: nat
  ex_refused :: "((rstr \<times> Refusal) \<times> nat) list"
  ex_clean :: CleanCache

definition MAX_EXPANDED_NODES :: nat where
  "MAX_EXPANDED_NODES = 1000000"

definition MAX_ALIAS_DEPTH :: nat where
  "MAX_ALIAS_DEPTH = 10"

definition expander_new :: "(rstr \<times> NewRule) list \<Rightarrow> nat \<Rightarrow> Expander" where
  "expander_new defs max_nodes =
     \<lparr>ex_by_name = fold (\<lambda>(idx, name, _). or_insert name idx) (enumerate 0 defs) [],
      ex_bodies = map (\<lambda>(_, rule). Some rule) defs, ex_state = replicate (length defs) Pending,
      ex_size = replicate (length defs) 0, ex_limit = max_nodes, ex_remaining = max_nodes,
      ex_refused = [], ex_clean = []\<rparr>"

definition is_single_alias_ref :: "RuleType \<Rightarrow> bool" where
  "is_single_alias_ref rt \<longleftrightarrow> (case rt of LeafRule _ (SingleAliasField _) \<Rightarrow> True | _ \<Rightarrow> False)"

definition field_refs :: "NewField \<Rightarrow> rstr list" where
  "field_refs right = (case right of SingleAliasField name \<Rightarrow> [name] | _ \<Rightarrow> [])"

fun collect_refs :: "RuleType \<Rightarrow> rstr list"
  and collect_refs_in :: "NewRule list \<Rightarrow> rstr list" where
  "collect_refs (LeafRule _ right) = field_refs right"
| "collect_refs (NodeRule _ rules) = collect_refs_in rules"
| "collect_refs (ValueClauseRule rules) = collect_refs_in rules"
| "collect_refs (SubtypeRule _ _ rules) = collect_refs_in rules"
| "collect_refs (LeafValueRule _) = []"
| "collect_refs_in [] = []"
| "collect_refs_in ((rt, _) # rules) = collect_refs rt @ collect_refs_in rules"

fun logical_size :: "RuleType \<Rightarrow> nat"
  and body_size :: "NewRule list \<Rightarrow> nat" where
  "logical_size (NodeRule _ rules) = 1 + body_size rules"
| "logical_size (ValueClauseRule rules) = 1 + body_size rules"
| "logical_size (SubtypeRule _ _ rules) = 1 + body_size rules"
| "logical_size (LeafRule _ _) = 1"
| "logical_size (LeafValueRule _) = 1"
| "body_size [] = 0"
| "body_size ((rt, _) # rules) = logical_size rt + body_size rules"

definition extract_leaf_left :: "RuleType \<Rightarrow> NewField" where
  "extract_leaf_left rt = (case rt of LeafRule left _ \<Rightarrow> left | _ \<Rightarrow> ScalarField)"

definition refuse :: "rstr \<Rightarrow> Refusal \<Rightarrow> Expander \<Rightarrow> Expander" where
  "refuse name reason ex = ex\<lparr>ex_refused := upd_entry 0 (name, reason) Suc (ex_refused ex)\<rparr>"

definition take_alias :: "rstr \<Rightarrow> Expander \<Rightarrow> NewRule option \<times> Expander" where
  "take_alias name ex =
     (case map_of (ex_by_name ex) name of
        None \<Rightarrow> (None, ex)
      | Some idx \<Rightarrow>
          (case ex_state ex ! idx of
             InProgress \<Rightarrow> (None, refuse name RefusedCycle ex)
           | Pending \<Rightarrow> (None, refuse name RefusedDepth ex)
           | Done \<Rightarrow>
               (let sz = ex_size ex ! idx
                in if sz > ex_remaining ex then (None, refuse name RefusedBudget ex)
                   else (ex_bodies ex ! idx, ex\<lparr>ex_remaining := ex_remaining ex - sz\<rparr>))))"

text \<open>A reference whose rule is the whole body keeps its shape when the alias is neither a leaf nor a
  node; inside a list the alias body replaces it.\<close>

definition inline_ref :: "NewField \<Rightarrow> RuleType option \<Rightarrow> RuleType option" where
  "inline_ref left resolved =
     (case resolved of
        Some (LeafRule _ ar) \<Rightarrow> Some (LeafRule left ar)
      | Some (NodeRule _ ar) \<Rightarrow> Some (NodeRule left ar)
      | _ \<Rightarrow> None)"

definition inline_whole :: "NewField \<Rightarrow> rstr \<Rightarrow> Expander \<Rightarrow> RuleType \<times> Expander" where
  "inline_whole left name ex =
     (let (resolved, ex1) = take_alias name ex
      in (unwrap_or (inline_ref left (map_option fst resolved)) (LeafRule left (SingleAliasField name)), ex1))"

definition inline_entry :: "NewField \<Rightarrow> rstr \<Rightarrow> Expander \<Rightarrow> RuleType \<times> Expander" where
  "inline_entry left name ex =
     (let (resolved, ex1) = take_alias name ex
      in (case resolved of
            None \<Rightarrow> LeafRule left (SingleAliasField name)
          | Some (other, _) \<Rightarrow> unwrap_or (inline_ref left (Some other)) other, ex1))"

definition inline_leaf ::
  "(NewField \<Rightarrow> rstr \<Rightarrow> Expander \<Rightarrow> RuleType \<times> Expander) \<Rightarrow> NewField \<Rightarrow> NewField \<Rightarrow> Expander \<Rightarrow> RuleType \<times> Expander" where
  "inline_leaf f left right ex =
     (case right of SingleAliasField name \<Rightarrow> f left name ex | _ \<Rightarrow> (LeafRule left right, ex))"

text \<open>The check of a body against the cache of the expander.\<close>

definition body_has_ref :: "NewRule list \<Rightarrow> Expander \<Rightarrow> bool \<times> Expander" where
  "body_has_ref rules ex =
     (let (found, cc) = any_in_body is_single_alias_ref rules (ex_clean ex) in (found, ex\<lparr>ex_clean := cc\<rparr>))"

fun inline_rule :: "RuleType \<Rightarrow> Expander \<Rightarrow> RuleType \<times> Expander"
  and inline_list :: "NewRule list \<Rightarrow> Expander \<Rightarrow> NewRule list \<times> Expander"
  and inline_each :: "NewRule list \<Rightarrow> Expander \<Rightarrow> NewRule list \<times> Expander"
  and inline_entries :: "NewRule list \<Rightarrow> Expander \<Rightarrow> NewRule list \<times> Expander" where
  "inline_rule (LeafRule left right) ex = inline_leaf inline_whole left right ex"
| "inline_rule (NodeRule left rules) ex = map_prod (NodeRule left) id (inline_list rules ex)"
| "inline_rule (ValueClauseRule rules) ex = map_prod ValueClauseRule id (inline_list rules ex)"
| "inline_rule (SubtypeRule n p rules) ex = map_prod (SubtypeRule n p) id (inline_list rules ex)"
| "inline_rule (LeafValueRule right) ex = (LeafValueRule right, ex)"
| "inline_list rules ex =
     (let (found, ex1) = body_has_ref rules ex
      in if \<not> found then (rules, ex1)
         else if \<not> list_ex (\<lambda>r. is_single_alias_ref (fst r)) rules then inline_each rules ex1
         else inline_entries rules ex1)"
| "inline_each [] ex = ([], ex)"
| "inline_each ((rt, opts) # rules) ex =
     (let (rt', ex1) = inline_rule rt ex; (rules', ex2) = inline_each rules ex1 in ((rt', opts) # rules', ex2))"
| "inline_entries [] ex = ([], ex)"
| "inline_entries ((rt, opts) # rules) ex =
     (let (rt', ex1) = (case rt of LeafRule left right \<Rightarrow> inline_leaf inline_entry left right ex | _ \<Rightarrow> inline_rule rt ex);
          (rules', ex2) = inline_entries rules ex1
      in ((rt', opts) # rules', ex2))"

lemma logical_size_pos [simp]: "0 < logical_size rt"
  by (cases rt) simp_all

text \<open>Expansion of one definition after everything it references. The argument is the number of levels
  left, \<open>MAX_ALIAS_DEPTH - depth\<close>; \<open>None\<close> is the panic of an \<open>expect\<close>.\<close>

definition finish_alias :: "nat \<Rightarrow> Expander \<Rightarrow> Expander option" where
  "finish_alias idx ex =
     (case ex_bodies ex ! idx of
        None \<Rightarrow> None
      | Some (rt, opts) \<Rightarrow>
          (let (rt', ex1) = inline_rule rt (ex\<lparr>ex_bodies := (ex_bodies ex)[idx := None]\<rparr>)
           in Some (ex1\<lparr>ex_size := (ex_size ex1)[idx := logical_size rt'],
                       ex_bodies := (ex_bodies ex1)[idx := Some (rt', opts)],
                       ex_state := (ex_state ex1)[idx := Done]\<rparr>)))"

primrec resolve :: "nat \<Rightarrow> nat \<Rightarrow> Expander \<Rightarrow> Expander option" where
  "resolve 0 idx ex = Some ex"
| "resolve (Suc levels) idx ex =
     (if ex_state ex ! idx \<noteq> Pending then Some ex
      else (case ex_bodies ex ! idx of
              None \<Rightarrow> None
            | Some (rt, _) \<Rightarrow>
                Option.bind
                  (fold_opt (\<lambda>dep ex. case map_of (ex_by_name ex) dep of None \<Rightarrow> Some ex | Some dep_idx \<Rightarrow> resolve levels dep_idx ex)
                    (collect_refs rt) (ex\<lparr>ex_state := (ex_state ex)[idx := InProgress]\<rparr>))
                  (finish_alias idx)))"

definition refusal_detail :: "Refusal \<Rightarrow> nat \<Rightarrow> rstr" where
  "refusal_detail reason limit =
     (case reason of
        RefusedCycle \<Rightarrow> ''is part of a reference cycle''
      | RefusedDepth \<Rightarrow> ''nests deeper than the '' @ show_nat MAX_ALIAS_DEPTH @ ''-level chain limit''
      | RefusedBudget \<Rightarrow> ''would take the rules past the '' @ show_nat limit @ ''-node expansion budget'')"

definition into_errors :: "Expander \<Rightarrow> AliasExpansionError list" where
  "into_errors ex =
     sort_key (\<lambda>e. (aee_name e, aee_message e))
       (map (\<lambda>((name, reason), count).
          \<lparr>aee_name = name, aee_message = ''single_alias['' @ name @ ''] '' @ refusal_detail reason (ex_limit ex) @ ''; '' @
             show_nat count @ '' reference(s) left unexpanded''\<rparr>) (ex_refused ex))"

definition resolve_all :: "(rstr \<times> NewRule) list \<Rightarrow> nat \<Rightarrow> Expander option" where
  "resolve_all defs max_nodes =
     fold_opt (\<lambda>idx. resolve MAX_ALIAS_DEPTH idx) [0..<length defs] (expander_new defs max_nodes)"

definition resolved_aliases :: "(rstr \<times> NewRule) list \<Rightarrow> Expander \<Rightarrow> (rstr \<times> NewRule) list" where
  "resolved_aliases defs ex =
     map (\<lambda>(idx, name, rule). (name, unwrap_or (ex_bodies ex ! idx) rule)) (enumerate 0 defs)"

definition inline_new_rule :: "NewRule \<Rightarrow> Expander \<Rightarrow> NewRule \<times> Expander" where
  "inline_new_rule rule ex = map_prod (\<lambda>rt. (rt, snd rule)) id (inline_rule (fst rule) ex)"

definition replace_single_aliases :: "RuleSet \<Rightarrow> nat \<Rightarrow> (RuleSet \<times> AliasExpansionError list) option" where
  "replace_single_aliases rs max_nodes =
     (let defs = rule_single_aliases rs
      in case resolve_all defs max_nodes of
           None \<Rightarrow> None
         | Some ex \<Rightarrow>
             (let (rs', ex') = for_each_root_rule_mut inline_new_rule
                (rs\<lparr>rule_single_aliases := resolved_aliases defs ex\<rparr>) ex
              in Some (rs', into_errors ex')))"

section \<open>Colour and country tag fields\<close>

definition is_colour_marker :: "RuleType \<Rightarrow> bool" where
  "is_colour_marker rt \<longleftrightarrow>
     (case rt of
        LeafRule left right \<Rightarrow>
          right = MarkerField MkColourField \<or> left = MarkerField MkIrCountryTag \<or> right = MarkerField MkIrCountryTag
      | NodeRule left _ \<Rightarrow> left = MarkerField MkIrCountryTag
      | _ \<Rightarrow> False)"

definition colour_values :: NewRule where
  "colour_values =
     (LeafValueRule (ValueField (VtFloat (Finite True 256 0) (Finite False 256 0))),
      options_default\<lparr>opt_min := 3, opt_max := 3, opt_strict_min := True, opt_leafvalue := True\<rparr>)"

definition tag_enum :: NewField where
  "tag_enum = ValueField (VtEnum ''country_tags'')"

definition tag_variable :: NewField where
  "tag_variable = VariableGetField ''dynamic_country_tag''"

definition expand_colour_leaf :: "NewField \<Rightarrow> NewField \<Rightarrow> RuleType list" where
  "expand_colour_leaf left right =
     (if right = MarkerField MkColourField then [NodeRule left [colour_values]]
      else if right = MarkerField MkIrCountryTag then [LeafRule left tag_enum, LeafRule left tag_variable]
      else if left = MarkerField MkIrCountryTag then [LeafRule tag_enum right, LeafRule tag_variable right]
      else [LeafRule left right])"

function (sequential) expand_colour_in_rule :: "RuleType \<Rightarrow> CleanCache \<Rightarrow> RuleType \<times> CleanCache"
  and expand_colour_in_list :: "NewRule list \<Rightarrow> CleanCache \<Rightarrow> NewRule list \<times> CleanCache"
  and expand_colour_each :: "NewRule list \<Rightarrow> CleanCache \<Rightarrow> NewRule list \<times> CleanCache"
  and expand_colour_entries :: "NewRule list \<Rightarrow> CleanCache \<Rightarrow> NewRule list \<times> CleanCache" where
  "expand_colour_in_rule (NodeRule left rules) cc = map_prod (NodeRule left) id (expand_colour_in_list rules cc)"
| "expand_colour_in_rule (ValueClauseRule rules) cc = map_prod ValueClauseRule id (expand_colour_in_list rules cc)"
| "expand_colour_in_rule (SubtypeRule n p rules) cc = map_prod (SubtypeRule n p) id (expand_colour_in_list rules cc)"
| "expand_colour_in_rule (LeafRule left right) cc = (LeafRule left right, cc)"
| "expand_colour_in_rule (LeafValueRule right) cc = (LeafValueRule right, cc)"
| "expand_colour_in_list rules cc =
     (let (found, cc1) = any_in_body is_colour_marker rules cc
      in if \<not> found then (rules, cc1)
         else if \<not> list_ex (\<lambda>r. is_colour_marker (fst r)) rules then expand_colour_each rules cc1
         else expand_colour_entries rules cc1)"
| "expand_colour_each [] cc = ([], cc)"
| "expand_colour_each ((rt, opts) # rules) cc =
     (let (rt', cc1) = expand_colour_in_rule rt cc; (rules', cc2) = expand_colour_each rules cc1
      in ((rt', opts) # rules', cc2))"
| "expand_colour_entries [] cc = ([], cc)"
| "expand_colour_entries ((rt, opts) # rules) cc =
     (let (rts, cc1) = (case rt of
            LeafRule left right \<Rightarrow> (expand_colour_leaf left right, cc)
          | NodeRule left body \<Rightarrow>
              if left = MarkerField MkIrCountryTag
              then (let (rules_a, cc2) = expand_colour_in_list body cc; (rules_b, cc3) = expand_colour_in_list body cc2
                    in ([NodeRule tag_enum rules_a, NodeRule tag_variable rules_b], cc3))
              else map_prod (\<lambda>rt'. [rt']) id (expand_colour_in_rule rt cc)
          | _ \<Rightarrow> map_prod (\<lambda>rt'. [rt']) id (expand_colour_in_rule rt cc));
          (rules', cc4) = expand_colour_entries rules cc1
      in (map (\<lambda>rt'. (rt', opts)) rts @ rules', cc4))"

  by pat_completeness auto

termination
proof (relation "measure (case_sum
    (case_sum (\<lambda>(rt, _). 4 * logical_size rt) (\<lambda>(rules, _). 4 * body_size rules + 3))
    (case_sum (\<lambda>(rules, _). 4 * body_size rules + 2) (\<lambda>(rules, _). 4 * body_size rules + 2)))")
qed simp_all

text \<open>A pass over the rules of a rule set starts with an empty cache and keeps the options of each rule.\<close>

definition run_pass :: "(RuleType \<Rightarrow> CleanCache \<Rightarrow> RuleType \<times> CleanCache) \<Rightarrow> RuleSet \<Rightarrow> RuleSet" where
  "run_pass f rs = fst (for_each_root_rule_mut (\<lambda>rule cc. map_prod (\<lambda>rt. (rt, snd rule)) id (f (fst rule) cc)) rs [])"

definition replace_colour_field :: "RuleSet \<Rightarrow> RuleSet" where
  "replace_colour_field rs = run_pass expand_colour_in_rule rs"

section \<open>Value scope markers\<close>

definition is_vsm :: "NewField \<Rightarrow> bool" where
  "is_vsm f \<longleftrightarrow> (case f of ValueScopeMarkerField _ _ _ \<Rightarrow> True | _ \<Rightarrow> False)"

definition has_vsm_field :: "RuleType \<Rightarrow> bool" where
  "has_vsm_field rt \<longleftrightarrow>
     (case rt of
        LeafRule left right \<Rightarrow> is_vsm left \<or> is_vsm right
      | LeafValueRule right \<Rightarrow> is_vsm right
      | NodeRule left _ \<Rightarrow> is_vsm left
      | _ \<Rightarrow> False)"

definition rewrite_vsm_field :: "NewField \<Rightarrow> NewField" where
  "rewrite_vsm_field f = (case f of ValueScopeMarkerField is_int mn mx \<Rightarrow> ValueScopeField is_int mn mx | _ \<Rightarrow> f)"

fun rewrite_vsm_in_rule :: "RuleType \<Rightarrow> CleanCache \<Rightarrow> RuleType \<times> CleanCache"
  and rewrite_vsm_in_list :: "NewRule list \<Rightarrow> CleanCache \<Rightarrow> NewRule list \<times> CleanCache"
  and rewrite_vsm_each :: "NewRule list \<Rightarrow> CleanCache \<Rightarrow> NewRule list \<times> CleanCache" where
  "rewrite_vsm_in_rule (LeafRule left right) cc = (LeafRule (rewrite_vsm_field left) (rewrite_vsm_field right), cc)"
| "rewrite_vsm_in_rule (LeafValueRule right) cc = (LeafValueRule (rewrite_vsm_field right), cc)"
| "rewrite_vsm_in_rule (NodeRule left rules) cc =
     map_prod (NodeRule (rewrite_vsm_field left)) id (rewrite_vsm_in_list rules cc)"
| "rewrite_vsm_in_rule (ValueClauseRule rules) cc = map_prod ValueClauseRule id (rewrite_vsm_in_list rules cc)"
| "rewrite_vsm_in_rule (SubtypeRule n p rules) cc = map_prod (SubtypeRule n p) id (rewrite_vsm_in_list rules cc)"
| "rewrite_vsm_in_list rules cc =
     (let (found, cc1) = any_in_body has_vsm_field rules cc
      in if found then rewrite_vsm_each rules cc1 else (rules, cc1))"
| "rewrite_vsm_each [] cc = ([], cc)"
| "rewrite_vsm_each ((rt, opts) # rules) cc =
     (let (rt', cc1) = rewrite_vsm_in_rule rt cc; (rules', cc2) = rewrite_vsm_each rules cc1
      in ((rt', opts) # rules', cc2))"

definition replace_value_marker_fields :: "RuleSet \<Rightarrow> RuleSet" where
  "replace_value_marker_fields rs = run_pass rewrite_vsm_in_rule rs"

section \<open>Ignored fields\<close>

definition is_ignore_marker :: "RuleType \<Rightarrow> bool" where
  "is_ignore_marker rt \<longleftrightarrow> (case rt of LeafRule _ IgnoreMarkerField \<Rightarrow> True | _ \<Rightarrow> False)"

fun expand_ignore_in_rule :: "RuleType \<Rightarrow> CleanCache \<Rightarrow> RuleType \<times> CleanCache"
  and expand_ignore_in_list :: "NewRule list \<Rightarrow> CleanCache \<Rightarrow> NewRule list \<times> CleanCache"
  and expand_ignore_each :: "NewRule list \<Rightarrow> CleanCache \<Rightarrow> NewRule list \<times> CleanCache" where
  "expand_ignore_in_rule (NodeRule left rules) cc = map_prod (NodeRule left) id (expand_ignore_in_list rules cc)"
| "expand_ignore_in_rule (ValueClauseRule rules) cc = map_prod ValueClauseRule id (expand_ignore_in_list rules cc)"
| "expand_ignore_in_rule (SubtypeRule n p rules) cc = map_prod (SubtypeRule n p) id (expand_ignore_in_list rules cc)"
| "expand_ignore_in_rule (LeafRule left right) cc = (LeafRule left right, cc)"
| "expand_ignore_in_rule (LeafValueRule right) cc = (LeafValueRule right, cc)"
| "expand_ignore_in_list rules cc =
     (let (found, cc1) = any_in_body is_ignore_marker rules cc
      in if found then expand_ignore_each rules cc1 else (rules, cc1))"
| "expand_ignore_each [] cc = ([], cc)"
| "expand_ignore_each ((rt, opts) # rules) cc =
     (let (rt', cc1) = (if is_ignore_marker rt then (NodeRule (IgnoreField (extract_leaf_left rt)) [], cc)
                        else expand_ignore_in_rule rt cc);
          (rules', cc2) = expand_ignore_each rules cc1
      in ((rt', opts) # rules', cc2))"

definition replace_ignore_marker_fields :: "RuleSet \<Rightarrow> RuleSet" where
  "replace_ignore_marker_fields rs = run_pass expand_ignore_in_rule rs"

section \<open>All passes\<close>

definition post_process_with_budget :: "RuleSet \<Rightarrow> nat \<Rightarrow> (RuleSet \<times> AliasExpansionError list) option" where
  "post_process_with_budget rs max_nodes =
     map_option (\<lambda>(rs1, errors). (replace_ignore_marker_fields (replace_colour_field rs1), errors))
       (replace_single_aliases (replace_value_marker_fields rs) max_nodes)"

definition post_process :: "RuleSet \<Rightarrow> (RuleSet \<times> AliasExpansionError list) option" where
  "post_process rs = post_process_with_budget rs MAX_EXPANDED_NODES"

end
