(* ===== verification/Text_Decoding.thy ===== *)
theory Text_Decoding
  imports Rust_Strings
begin

text \<open>
  How the program reads a text file (the first part of \<open>crates/file_manager/src/file_manager.rs\<close>): UTF-8 with a
  Windows-1252 fallback, the cap on the bytes of one file and the budget on the bytes of a scan. What the
  operating system gives for a path, its bytes or an error, is a parameter.
\<close>

section \<open>UTF-8\<close>

text \<open>\<open>char::encode_utf8\<close> of a scalar value.\<close>

definition encode_utf8 :: "nat \<Rightarrow> rchar" where
  "encode_utf8 u =
     map char_of
       (if u < 128 then [u]
        else if u < 2048 then [192 + u div 64, 128 + u mod 64]
        else if u < 65536 then [224 + u div 4096, 128 + u div 64 mod 64, 128 + u mod 64]
        else [240 + u div 262144, 128 + u div 4096 mod 64, 128 + u div 64 mod 64, 128 + u mod 64])"

text \<open>The two-, three- and four-byte sequences \<open>String::from_utf8\<close> accepts: no overlong form, no surrogate,
  nothing above \<open>U+10FFFF\<close>.\<close>

definition lead2 :: "char \<Rightarrow> bool" where
  "lead2 a \<longleftrightarrow> 194 \<le> byte_val a \<and> byte_val a \<le> 223"

definition lead3 :: "char \<Rightarrow> char \<Rightarrow> bool" where
  "lead3 a b \<longleftrightarrow> 224 \<le> byte_val a \<and> byte_val a \<le> 239 \<and> is_cont b \<and>
     (byte_val a = 224 \<longrightarrow> 160 \<le> byte_val b) \<and> (byte_val a = 237 \<longrightarrow> byte_val b < 160)"

definition lead4 :: "char \<Rightarrow> char \<Rightarrow> bool" where
  "lead4 a b \<longleftrightarrow> 240 \<le> byte_val a \<and> byte_val a \<le> 244 \<and> is_cont b \<and>
     (byte_val a = 240 \<longrightarrow> 144 \<le> byte_val b) \<and> (byte_val a = 244 \<longrightarrow> byte_val b < 144)"

text \<open>The length of the scalar value at the front, 0 when there is none.\<close>

definition utf8_width :: "rstr \<Rightarrow> nat" where
  "utf8_width s =
     (case s of
        [] \<Rightarrow> 0
      | a # s1 \<Rightarrow>
          if is_ascii_byte a then 1
          else (case s1 of
                  [] \<Rightarrow> 0
                | b # s2 \<Rightarrow>
                    if lead2 a \<and> is_cont b then 2
                    else (case s2 of
                            [] \<Rightarrow> 0
                          | c # s3 \<Rightarrow>
                              if lead3 a b \<and> is_cont c then 3
                              else (case s3 of
                                      [] \<Rightarrow> 0
                                    | d # _ \<Rightarrow> if lead4 a b \<and> is_cont c \<and> is_cont d then 4 else 0))))"

function valid_utf8 :: "rstr \<Rightarrow> bool" where
  "valid_utf8 s =
     (if s = [] then True else if utf8_width s = 0 then False else valid_utf8 (drop (utf8_width s) s))"
  by pat_completeness auto

termination by (relation "measure length") auto

declare valid_utf8.simps [simp del]

section \<open>Windows-1252\<close>

definition CP1252_HIGH :: "nat list" where
  "CP1252_HIGH =
     [0x20AC, 0xFFFD, 0x201A, 0x0192, 0x201E, 0x2026, 0x2020, 0x2021,
      0x02C6, 0x2030, 0x0160, 0x2039, 0x0152, 0xFFFD, 0x017D, 0xFFFD,
      0xFFFD, 0x2018, 0x2019, 0x201C, 0x201D, 0x2022, 0x2013, 0x2014,
      0x02DC, 0x2122, 0x0161, 0x203A, 0x0153, 0xFFFD, 0x017E, 0x0178]"

definition cp1252_byte :: "char \<Rightarrow> rchar" where
  "cp1252_byte b =
     encode_utf8
       (if byte_val b < 0x80 then byte_val b
        else if byte_val b \<le> 0x9F then CP1252_HIGH ! (byte_val b - 0x80)
        else byte_val b)"

datatype FileEncoding = Utf8Bom | Utf8NoBom | NonUtf8

definition UTF8_BOM :: rstr where
  "UTF8_BOM = [CHR 0xEF, CHR 0xBB, CHR 0xBF]"

definition decode_bytes :: "rstr \<Rightarrow> rstr \<times> FileEncoding" where
  "decode_bytes bytes =
     (let has_bom = starts_with bytes UTF8_BOM
      in if valid_utf8 bytes then (bytes, if has_bom then Utf8Bom else Utf8NoBom)
         else (concat (map cp1252_byte (if has_bom then drop 3 bytes else bytes)), NonUtf8))"

section \<open>Reading within limits\<close>

datatype FileError = IoError rstr | MissingRoot rstr | OverLimit rstr u64

definition file_error_text :: "FileError \<Rightarrow> rstr" where
  "file_error_text e =
     (case e of
        IoError m \<Rightarrow> ''IO error: '' @ m
      | MissingRoot p \<Rightarrow> ''directory does not exist: '' @ p
      | OverLimit path limit \<Rightarrow> ''file exceeds the '' @ show_nat (unat limit) @ '' byte read cap: '' @ path)"

definition sat_add_u64 :: "u64 \<Rightarrow> u64 \<Rightarrow> u64" where
  "sat_add_u64 a b = (if unat a + unat b < 2 ^ 64 then a + b else -1)"

text \<open>\<open>read_file path\<close> is what opening and reading the path to its end gives.\<close>

type_synonym OsFiles = "rstr \<Rightarrow> rstr + rstr"

definition read_text_capped_with_encoding :: "OsFiles \<Rightarrow> rstr \<Rightarrow> u64 \<Rightarrow> FileError + rstr \<times> FileEncoding \<times> u64" where
  "read_text_capped_with_encoding read_file path max_bytes =
     (case read_file path of
        Inl e \<Rightarrow> Inl (IoError e)
      | Inr content \<Rightarrow>
          (let bytes = take (unat (sat_add_u64 max_bytes 1)) content; n = (of_nat (length bytes) :: u64)
           in if max_bytes < n then Inl (OverLimit path max_bytes)
              else (let (body, enc) = decode_bytes bytes in Inr (body, enc, n))))"

definition read_text_capped :: "OsFiles \<Rightarrow> rstr \<Rightarrow> u64 \<Rightarrow> FileError + rstr \<times> u64" where
  "read_text_capped read_file path max_bytes = map_sum id (\<lambda>(s, _, n). (s, n)) (read_text_capped_with_encoding read_file path max_bytes)"

definition read_text_with_encoding :: "OsFiles \<Rightarrow> rstr \<Rightarrow> FileError + rstr \<times> FileEncoding" where
  "read_text_with_encoding read_file path = map_sum IoError decode_bytes (read_file path)"

definition read_text :: "OsFiles \<Rightarrow> rstr \<Rightarrow> FileError + rstr" where
  "read_text read_file path = map_sum id fst (read_text_with_encoding read_file path)"

record ScanBudget =
  sb_max_files :: nat
  sb_max_bytes :: u64
  sb_max_file_size :: u64

definition scan_budget_default :: ScanBudget where
  "scan_budget_default =
     \<lparr>sb_max_files = 100000, sb_max_bytes = 2 * 1024 * 1024 * 1024, sb_max_file_size = 64 * 1024 * 1024\<rparr>"

text \<open>One reservation against the running total: the answer and the new total.\<close>

definition try_reserve :: "u64 \<Rightarrow> u64 \<Rightarrow> u64 \<Rightarrow> bool \<times> u64" where
  "try_reserve n max_bytes cur =
     (if max_bytes = 0 then (True, cur)
      else if max_bytes < sat_add_u64 cur n then (False, cur)
      else (True, cur + n))"

section \<open>Directory listings\<close>

text \<open>What the operating system answers: \<open>read_dir\<close> of a path fails, or lists the entries of a directory, with
  the errors met on the way. An entry has its name, its file type (\<open>None\<close> when that cannot be read) and
  what \<open>read_dir\<close> answers for its own path.\<close>

datatype FileType = TypeDir | TypeFile | TypeSymlink | TypeOther

datatype DirListing =
    ReadError rstr
  | Listing "rstr list" "(rstr \<times> FileType option \<times> DirListing) list"

definition typed_entry :: "rstr \<times> FileType option \<times> 'a \<Rightarrow> (rstr \<times> FileType \<times> 'a) option" where
  "typed_entry e = (case e of (name, ft, x) \<Rightarrow> map_option (\<lambda>t. (name, t, x)) ft)"

lemma typed_entries:
  "List.map_filter typed_entry (map (map_prod id (map_prod id f)) xs) =
   map (map_prod id (map_prod id f)) (List.map_filter typed_entry xs)"
  by (induction xs) (auto simp: List.map_filter_simps typed_entry_def split: option.splits)

lemma typed_entry_in: "(name, t, l) \<in> set (List.map_filter typed_entry xs) \<Longrightarrow> \<exists>ft. (name, ft, l) \<in> set xs"
  by (induction xs) (auto simp: List.map_filter_simps typed_entry_def split: option.splits)

lemma insort_key_map: "insort_key f (g x) (map g xs) = map g (insort_key (\<lambda>x. f (g x)) x xs)"
  by (induction xs) auto

lemma sort_key_map: "sort_key f (map g xs) = map g (sort_key (\<lambda>x. f (g x)) xs)"
  by (induction xs) (auto simp: insort_key_map)

section \<open>Decoded text\<close>

lemma byte_val_char_of [simp]: "n < 256 \<Longrightarrow> byte_val (char_of n) = n"
  by simp

lemma width1: "(a :: nat) < 128 \<Longrightarrow> utf8_width (char_of a # s) = 1"
  by (simp add: utf8_width_def is_ascii_byte_def)

lemma width2: "2 \<le> (a :: nat) \<Longrightarrow> a < 32 \<Longrightarrow> (b :: nat) < 64 \<Longrightarrow> utf8_width (char_of (192 + a) # char_of (128 + b) # s) = 2"
  by (simp add: utf8_width_def is_ascii_byte_def lead2_def is_cont_def)

lemma width3:
  fixes a b c :: nat
  assumes "a < 16" "b < 64" "c < 64" "a = 0 \<Longrightarrow> 32 \<le> b" "a = 13 \<Longrightarrow> b < 32"
  shows "utf8_width (char_of (224 + a) # char_of (128 + b) # char_of (128 + c) # s) = 3"
  using assms by (auto simp: utf8_width_def is_ascii_byte_def lead2_def lead3_def is_cont_def)

lemma width4:
  fixes a b c d :: nat
  assumes "a \<le> 4" "b < 64" "c < 64" "d < 64" "a = 0 \<Longrightarrow> 16 \<le> b" "a = 4 \<Longrightarrow> b < 16"
  shows "utf8_width (char_of (240 + a) # char_of (128 + b) # char_of (128 + c) # char_of (128 + d) # s) = 4"
  using assms by (auto simp: utf8_width_def is_ascii_byte_def lead2_def lead3_def lead4_def is_cont_def)

lemma code_point_digits:
  fixes u :: nat
  shows "u = 4096 * (u div 4096) + 64 * (u div 64 mod 64) + u mod 64"
    "u = 262144 * (u div 262144) + 4096 * (u div 4096 mod 64) + 64 * (u div 64 mod 64) + u mod 64"
proof -
  have 1: "64 * (u div 64) + u mod 64 = u" by (rule mult_div_mod_eq)
  have "64 * (u div 64 div 64) + u div 64 mod 64 = u div 64" by (rule mult_div_mod_eq)
  then have 2: "64 * (u div 4096) + u div 64 mod 64 = u div 64" by (simp flip: div_mult2_eq)
  have "64 * (u div 4096 div 64) + u div 4096 mod 64 = u div 4096" by (rule mult_div_mod_eq)
  then have 3: "64 * (u div 262144) + u div 4096 mod 64 = u div 4096" by (simp flip: div_mult2_eq)
  show "u = 4096 * (u div 4096) + 64 * (u div 64 mod 64) + u mod 64" using 1 2 by linarith
  show "u = 262144 * (u div 262144) + 4096 * (u div 4096 mod 64) + 64 * (u div 64 mod 64) + u mod 64"
    using 1 2 3 by linarith
qed

lemma encode_utf8_width:
  assumes "u < 0xD800 \<or> 0xE000 \<le> u" "u < 0x110000"
  shows "utf8_width (encode_utf8 u @ s) = length (encode_utf8 u)"
proof -
  consider "u < 128" | "128 \<le> u" "u < 2048" | "2048 \<le> u" "u < 65536" | "65536 \<le> u" by linarith
  then show ?thesis
  proof cases
    case 1 then show ?thesis using width1 [of u s] by (simp add: encode_utf8_def)
  next
    case 2
    then have "2 \<le> u div 64" "u div 64 < 32" by linarith+
    then show ?thesis using 2 width2 [of "u div 64" "u mod 64" s] by (simp add: encode_utf8_def)
  next
    case 3
    define a b c where abc: "a = u div 4096" "b = u div 64 mod 64" "c = u mod 64"
    have eq: "u = 4096 * a + 64 * b + c" unfolding abc by (rule code_point_digits(1))
    have m: "b < 64" "c < 64" by (simp_all add: abc)
    have "a < 16" "a = 0 \<Longrightarrow> 32 \<le> b" "a = 13 \<Longrightarrow> b < 32" using eq m 3 assms(1) by linarith+
    then show ?thesis using 3 m width3 [of a b c s] by (simp add: encode_utf8_def flip: abc)
  next
    case 4
    define a b c d where abc: "a = u div 262144" "b = u div 4096 mod 64" "c = u div 64 mod 64" "d = u mod 64"
    have eq: "u = 262144 * a + 4096 * b + 64 * c + d" unfolding abc by (rule code_point_digits(2))
    have m: "b < 64" "c < 64" "d < 64" by (simp_all add: abc)
    have "a \<le> 4" "a = 0 \<Longrightarrow> 16 \<le> b" "a = 4 \<Longrightarrow> b < 16" using eq m 4 assms(2) by linarith+
    then show ?thesis using 4 m width4 [of a b c d s] by (simp add: encode_utf8_def flip: abc)
  qed
qed

lemma encode_utf8_neq_Nil [simp]: "encode_utf8 u \<noteq> []"
  by (simp add: encode_utf8_def)

lemma valid_utf8_encode:
  assumes "u < 0xD800 \<or> 0xE000 \<le> u" "u < 0x110000"
  shows "valid_utf8 (encode_utf8 u @ s) = valid_utf8 s"
  using encode_utf8_width [OF assms] by (subst valid_utf8.simps) auto

lemma cp1252_scalar: "\<exists>u. cp1252_byte b = encode_utf8 u \<and> (u < 0xD800 \<or> 0xE000 \<le> u) \<and> u < 0x110000"
proof -
  have "list_all (\<lambda>u. u < 0xD800 \<or> u = 0xFFFD) CP1252_HIGH" "length CP1252_HIGH = 32" by (simp_all add: CP1252_HIGH_def)
  then have high: "CP1252_HIGH ! n < 0xD800 \<or> CP1252_HIGH ! n = 0xFFFD" if "n < 32" for n
    using that unfolding list_all_length by simp
  define n where "n = byte_val b"
  have n: "n < 256" by (simp add: n_def)
  define u where "u = (if n < 0x80 then n else if n \<le> 0x9F then CP1252_HIGH ! (n - 0x80) else n)"
  consider "n < 0x80" | "0x80 \<le> n" "n \<le> 0x9F" | "0x9F < n" by linarith
  then have "u < 0xD800 \<or> u = 0xFFFD"
  proof cases
    case 2
    then have "u = CP1252_HIGH ! (n - 0x80)" "n - 0x80 < 32" by (simp_all add: u_def)
    then show ?thesis using high by simp
  qed (use n in \<open>simp_all add: u_def\<close>)
  then have "(u < 0xD800 \<or> 0xE000 \<le> u) \<and> u < 0x110000" by linarith
  moreover have "cp1252_byte b = encode_utf8 u" by (simp only: cp1252_byte_def u_def n_def)
  ultimately show ?thesis by blast
qed

lemma valid_utf8_cp1252: "valid_utf8 (concat (map cp1252_byte bytes))"
proof (induction bytes)
  case (Cons b bytes)
  obtain u where u: "cp1252_byte b = encode_utf8 u" "u < 0xD800 \<or> 0xE000 \<le> u" "u < 0x110000"
    using cp1252_scalar [of b] by blast
  show ?case using valid_utf8_encode [OF u(2,3)] by (simp add: u(1) Cons.IH)
qed (simp add: valid_utf8.simps)

lemma utf8_width_cases:
  assumes "0 < utf8_width s"
  shows "s \<noteq> []" "utf8_width s \<le> length s" "\<not> is_cont (hd s)" "\<forall>c \<in> set (tl (take (utf8_width s) s)). is_cont c"
    "utf8_width s = 1 \<longleftrightarrow> is_ascii_byte (hd s)"
  using assms
  by (auto simp: utf8_width_def lead2_def lead3_def lead4_def is_cont_def is_ascii_byte_def split: list.splits if_splits)

text \<open>A valid text has the shape that slicing at ASCII bytes relies on.\<close>

lemma valid_utf8_front:
  assumes "valid_utf8 s" "s \<noteq> []"
  shows "0 < utf8_width s" "valid_utf8 (drop (utf8_width s) s)" "\<not> is_cont (hd s)"
  using assms valid_utf8.simps [of s] utf8_width_cases(3) [of s] by (auto split: if_splits)

lemma valid_utf8_chars:
  "valid_utf8 s \<Longrightarrow> s \<noteq> [] \<Longrightarrow> chars s = take (utf8_width s) s # chars (drop (utf8_width s) s)"
proof -
  assume s: "valid_utf8 s" "s \<noteq> []"
  note w = valid_utf8_front [OF s]
  let ?r = "drop (utf8_width s) s"
  obtain b bs where b: "s = b # bs" using s(2) by (cases s) auto
  obtain k where k: "utf8_width s = Suc k" using w(1) by (cases "utf8_width s") auto
  have r: "?r = drop k bs" "take (utf8_width s) s = b # take k bs" unfolding k by (simp_all add: b)
  have cont: "\<forall>c \<in> set (take k bs). is_cont c" using utf8_width_cases(4) [OF w(1)] unfolding r(2) by simp
  have stop: "?r = [] \<or> \<not> is_cont (hd ?r)" using valid_utf8_front(3) [OF w(2)] by blast
  have "takeWhile is_cont (take k bs @ drop k bs) = take k bs" "dropWhile is_cont (take k bs @ drop k bs) = drop k bs"
    using cont stop unfolding r by (cases "drop k bs"; simp add: takeWhile_append2 dropWhile_append2)+
  then show ?thesis unfolding r by (simp add: b)
qed

lemma valid_utf8_str_ok: "valid_utf8 s \<Longrightarrow> str_ok s"
proof (induction s rule: valid_utf8.induct)
  case (1 s)
  show ?case
  proof (cases "s = []")
    case False
    note w = valid_utf8_front [OF 1(2) False]
    let ?w = "utf8_width s"
    have rest: "str_ok (drop ?w s)" using 1(1) [OF False] w by simp
    have "\<not> is_cont (s ! Suc i)" if i: "Suc i < length s" "is_ascii_byte (s ! i)" for i
    proof (cases "?w \<le> i")
      case True
      then show ?thesis using rest i by (auto simp: str_ok_def dest: spec [where x = "i - ?w"])
    next
      case i_less: False
      have "i = 0"
      proof (rule ccontr)
        assume "i \<noteq> 0"
        then have "s ! i \<in> set (tl (take ?w s))" using i_less i(1)
          by (auto simp: in_set_conv_nth nth_tl intro!: exI [of _ "i - 1"])
        then show False using utf8_width_cases(4) [OF w(1)] i(2) ascii_not_cont by blast
      qed
      then have "?w = 1" using utf8_width_cases(5) [OF w(1)] i(2) False by (simp add: hd_conv_nth)
      then show ?thesis using rest \<open>i = 0\<close> i(1) by (cases s; cases "tl s") (auto simp: str_ok_def)
    qed
    then show ?thesis using w(3) by (simp add: str_ok_def)
  qed (simp add: str_ok_def)
qed

lemma length_chars_cp1252: "length (chars (concat (map cp1252_byte bytes))) = length bytes"
proof (induction bytes)
  case (Cons b bytes)
  obtain u where u: "cp1252_byte b = encode_utf8 u" "u < 0xD800 \<or> 0xE000 \<le> u" "u < 0x110000"
    using cp1252_scalar [of b] by blast
  let ?r = "concat (map cp1252_byte bytes)"
  have "valid_utf8 (encode_utf8 u @ ?r)" using valid_utf8_encode [OF u(2,3)] valid_utf8_cp1252 by blast
  then have "chars (encode_utf8 u @ ?r) = encode_utf8 u # chars ?r"
    using valid_utf8_chars [of "encode_utf8 u @ ?r"] encode_utf8_width [OF u(2,3), of ?r] by simp
  then show ?case by (simp add: u(1) Cons.IH)
qed simp


lemma length_decoded_chars: "length (chars (fst (decode_bytes bytes))) \<le> length bytes"
  using length_chars_le [of bytes] by (auto simp: decode_bytes_def Let_def length_chars_cp1252)

end
