(* ===== verification/Ruleset_Loader.thy ===== *)
theory Ruleset_Loader
  imports Parser Config_Validation Post_Process Text_Decoding
begin

text \<open>
  Loading a directory of configuration files (\<open>crates/rules/src/ruleset_loader.rs\<close>): the walk, one file, the
  merge in walk order, post-processing, the lookup tables and the reports.
\<close>

section \<open>Files of a directory\<close>

definition directory_read_error :: "rstr \<Rightarrow> rstr \<Rightarrow> RuleParseError" where
  "directory_read_error dir error = rule_parse_error_new CW600_RULES_FILE_UNREADABLE dir 1 0 (''read directory error: '' @ error)"

definition is_cwt_name :: "rstr \<Rightarrow> bool" where
  "is_cwt_name name \<longleftrightarrow>
     (let parts = split_byte (CHR ''.'') name
      in 1 < length parts \<and> butlast parts \<noteq> [[]] \<and> eq_ignore_ascii_case (last parts) ''cwt'')"

type_synonym Walk = "rstr \<Rightarrow> nat \<Rightarrow> (rstr list \<times> RuleParseError list) \<times> nat"

fun visit_kids :: "rstr \<Rightarrow> (rstr \<times> FileType \<times> Walk) list \<Rightarrow> nat \<Rightarrow> (rstr list \<times> RuleParseError list) \<times> nat" where
  "visit_kids dir [] remaining = (([], []), remaining)"
| "visit_kids dir ((name, ft, walk) # kids) remaining =
     (if remaining = 0 then (([], []), 0)
      else (let path = dir @ ''/'' @ name;
                ((out1, errors1), remaining1) =
                  (if ft = TypeSymlink \<or> \<not> (ft = TypeDir \<or> ft = TypeFile) then (([], []), remaining)
                   else if ft = TypeDir then walk path remaining
                   else if is_cwt_name name then (([path], []), remaining - 1)
                   else (([], []), remaining));
                ((out2, errors2), remaining2) = visit_kids dir kids remaining1
            in ((out1 @ out2, errors1 @ errors2), remaining2)))"

primrec collect_cwt_files :: "DirListing \<Rightarrow> Walk" where
  "collect_cwt_files (ReadError error) = (\<lambda>dir remaining. (([], [directory_read_error dir error]), remaining))"
| "collect_cwt_files (Listing errors found) = (\<lambda>dir remaining.
     (let kids = List.map_filter typed_entry (map (map_prod id (map_prod id collect_cwt_files)) found);
          ((out, errs), remaining') = visit_kids dir (sort_key fst kids) remaining
      in ((out, map (directory_read_error dir) errors @ errs), remaining')))"

section \<open>One file\<close>

definition parse_folders_list :: "rstr \<Rightarrow> rstr list" where
  "parse_folders_list content = filter (\<lambda>l. l \<noteq> [] \<and> \<not> starts_with l ''#'') (map trim (lines content))"

record FileRules =
  fr_ruleset :: RuleSet
  fr_candidates :: "RefCandidate list"
  fr_positions :: "CwtDefPosition list"
  fr_errors :: "RuleParseError list"

definition unreadable :: "rstr \<Rightarrow> rstr \<Rightarrow> RuleParseError" where
  "unreadable path message = rule_parse_error_new CW600_RULES_FILE_UNREADABLE path 1 0 message"

definition no_rules :: FileRules where
  "no_rules = \<lparr>fr_ruleset = ruleset_new, fr_candidates = [], fr_positions = [], fr_errors = []\<rparr>"

text \<open>The state the files share: the string table and the bytes reserved so far.\<close>

type_synonym LoadState = "StringTable \<times> u64"

definition file_name :: "rstr \<Rightarrow> rstr" where
  "file_name path = last (split_byte (CHR ''/'') path)"

definition load_parsed :: "(Decimal \<Rightarrow> rstr) \<Rightarrow> rstr \<Rightarrow> ParsedFile \<Rightarrow> StringTable \<Rightarrow> FileRules option" where
  "load_parsed show path ast table =
     (case (ast_to_ruleset_raw show ast table, collect_reference_candidates show path ast table,
            collect_definition_positions show path ast table) of
        (Some rs, Some cands, Some poss) \<Rightarrow>
          Some \<lparr>fr_ruleset = rs, fr_candidates = cands, fr_positions = poss,
            fr_errors = validate_comment_directives ast path\<rparr>
      | _ \<Rightarrow> None)"

definition load_cwt_file ::
  "rust_env \<Rightarrow> (Decimal \<Rightarrow> rstr) \<Rightarrow> OsFiles \<Rightarrow> ScanBudget \<Rightarrow> rstr \<Rightarrow> LoadState \<Rightarrow> (FileRules \<times> LoadState) option" where
  "load_cwt_file E show read_file budget path st =
     (case read_text_capped read_file path (sb_max_file_size budget) of
        Inl e \<Rightarrow> Some (no_rules\<lparr>fr_errors := [unreadable path (''read error: '' @ file_error_text e)]\<rparr>, st)
      | Inr (content, n) \<Rightarrow>
          (let (table, used) = st; (ok, used') = try_reserve n (sb_max_bytes budget) used
           in if \<not> ok then Some (no_rules\<lparr>fr_errors := [unreadable path ''scan byte budget exceeded'']\<rparr>, (table, used'))
              else if eq_ignore_ascii_case (file_name path) ''folders.cwt''
              then Some (no_rules\<lparr>fr_ruleset := ruleset_new\<lparr>rule_folders := parse_folders_list content\<rparr>\<rparr>, (table, used'))
              else (case parse_string E content table of
                      None \<Rightarrow> None
                    | Some (ast, table') \<Rightarrow> map_option (\<lambda>fr. (fr, (table', used'))) (load_parsed show path ast table'))))"

section \<open>A directory\<close>

text \<open>The files are loaded one at a time: the source reads them in parallel and folds them in walk order, which
  gives the same rules except for which files a spent byte budget refuses.\<close>

fun load_files ::
  "(rstr \<Rightarrow> LoadState \<Rightarrow> (FileRules \<times> LoadState) option) \<Rightarrow> rstr list \<Rightarrow> LoadState \<Rightarrow> (FileRules list \<times> LoadState) option" where
  "load_files f [] st = Some ([], st)"
| "load_files f (p # ps) st =
     (case f p st of
        None \<Rightarrow> None
      | Some (fr, st1) \<Rightarrow> map_option (\<lambda>(frs, st2). (fr # frs, st2)) (load_files f ps st1))"

definition merge_files :: "FileRules list \<Rightarrow> RuleSet" where
  "merge_files files =
     fold (\<lambda>fr rs. (\<lambda>merged. merged\<lparr>def_positions := def_positions merged @ fr_positions fr\<rparr>) (merge_ruleset (fr_ruleset fr) rs))
       files ruleset_new"

definition alias_expansion_error :: "rstr \<Rightarrow> RuleSet \<Rightarrow> AliasExpansionError \<Rightarrow> RuleParseError" where
  "alias_expansion_error dir rs error =
     (case List.find (\<lambda>p. dp_kind p = DefSingleAlias \<and> dp_name p = aee_name error) (def_positions rs) of
        None \<Rightarrow> rule_parse_error_new CW602_RULES_UNEXPANDED_ALIAS dir 1 0 (aee_message error)
      | Some p \<Rightarrow> rule_parse_error_new CW602_RULES_UNEXPANDED_ALIAS (dp_file p) (dp_line p) (dp_col p) (aee_message error))"

definition finish_load :: "rstr \<Rightarrow> RuleParseError list \<Rightarrow> FileRules list \<Rightarrow> (RuleSet \<times> RuleParseError list) option" where
  "finish_load dir walk_errors files =
     (case post_process (merge_files files) of
        None \<Rightarrow> None
      | Some (combined, refused) \<Rightarrow>
          (let indexed = reindex combined
           in Some (indexed, walk_errors @ concat (map fr_errors files) @ map (alias_expansion_error dir combined) refused @
                resolve_reference_candidates (concat (map fr_candidates files)) indexed)))"

definition load_ruleset_from_dir ::
  "rust_env \<Rightarrow> (Decimal \<Rightarrow> rstr) \<Rightarrow> OsFiles \<Rightarrow> rstr \<Rightarrow> DirListing \<Rightarrow> StringTable \<Rightarrow> ScanBudget \<Rightarrow>
   (RuleSet \<times> RuleParseError list) option" where
  "load_ruleset_from_dir E show read_file dir listing table budget =
     (let ((cwt_files, errors), _) = collect_cwt_files listing dir (sb_max_files budget)
      in case load_files (load_cwt_file E show read_file budget) cwt_files (table, 0) of
           None \<Rightarrow> None
         | Some (files, _) \<Rightarrow> finish_load dir errors files)"

end
