(* ===== verification/Post_Process_Passes.thy ===== *)
theory Post_Process_Passes
  imports Post_Process
begin

text \<open>
  The passes of \<open>post_process.rs\<close> as functions of a rule: the cache of clean bodies never changes a
  result, each pass equals a function without it, and what these functions leave of the markers.
\<close>

section \<open>Marked rules and the cache of clean bodies\<close>

fun occurs :: "(RuleType \<Rightarrow> bool) \<Rightarrow> RuleType \<Rightarrow> bool"
  and occurs_in :: "(RuleType \<Rightarrow> bool) \<Rightarrow> NewRule list \<Rightarrow> bool" where
  "occurs P (NodeRule l rules) \<longleftrightarrow> P (NodeRule l rules) \<or> occurs_in P rules"
| "occurs P (ValueClauseRule rules) \<longleftrightarrow> P (ValueClauseRule rules) \<or> occurs_in P rules"
| "occurs P (SubtypeRule n p rules) \<longleftrightarrow> P (SubtypeRule n p rules) \<or> occurs_in P rules"
| "occurs P (LeafRule l r) \<longleftrightarrow> P (LeafRule l r)"
| "occurs P (LeafValueRule r) \<longleftrightarrow> P (LeafValueRule r)"
| "occurs_in P [] \<longleftrightarrow> False"
| "occurs_in P ((rt, _) # rules) \<longleftrightarrow> occurs P rt \<or> occurs_in P rules"

lemma occurs_in_iff: "occurs_in P rules \<longleftrightarrow> (\<exists>r \<in> set rules. occurs P (fst r))"
  by (induction rules) auto

lemma occurs_in_append [simp]: "occurs_in P (xs @ ys) \<longleftrightarrow> occurs_in P xs \<or> occurs_in P ys"
  by (auto simp: occurs_in_iff)

lemma occurs_here: "P rt \<Longrightarrow> occurs P rt"
  by (cases rt) auto

definition cache_ok :: "(RuleType \<Rightarrow> bool) \<Rightarrow> CleanCache \<Rightarrow> bool" where
  "cache_ok P cc \<longleftrightarrow> (\<forall>b \<in> set cc. \<not> occurs_in P b)"

lemma cache_ok_Nil [simp]: "cache_ok P []"
  by (simp add: cache_ok_def)

lemma any_correct:
  "cache_ok P cc \<Longrightarrow> fst (any_rule P rt cc) = occurs P rt \<and> cache_ok P (snd (any_rule P rt cc))"
  "cache_ok P cc \<Longrightarrow> fst (any_in_body P rules cc) = occurs_in P rules \<and> cache_ok P (snd (any_in_body P rules cc))"
  "cache_ok P cc \<Longrightarrow> fst (any_of_rules P rules cc) = occurs_in P rules \<and> cache_ok P (snd (any_of_rules P rules cc))"
proof (induction P rt cc and P rules cc and P rules cc rule: any_rule_any_in_body_any_of_rules.induct)
  case (6 pred body cc)
  show ?case
  proof (cases "body = [] \<or> body \<in> set cc")
    case True
    then show ?thesis using 6(2) by (auto simp: cache_ok_def)
  next
    case False
    then have "fst (any_of_rules pred body cc) = occurs_in pred body \<and> cache_ok pred (snd (any_of_rules pred body cc))"
      using 6 by simp
    then show ?thesis using False by (auto simp: cache_ok_def split: prod.split)
  qed
next
  case (8 pred rt opts rules cc)
  then show ?case by (cases "any_rule pred rt cc") (auto split: prod.split)
qed simp_all

section \<open>All rules of a rule set\<close>

definition root_rule :: "RootRule \<Rightarrow> NewRule" where
  "root_rule root = (case root of AliasRule _ r \<Rightarrow> r | SingleAliasRule _ r \<Rightarrow> r | TypeRule _ r \<Rightarrow> r)"

definition all_rules :: "RuleSet \<Rightarrow> NewRule list" where
  "all_rules rs = map root_rule (rule_root_rules rs) @ map snd (rule_aliases rs) @ map snd (rule_single_aliases rs)"

lemma map_state_append:
  "map_state f (xs @ ys) s = (let (xs', s1) = map_state f xs s; (ys', s2) = map_state f ys s1 in (xs' @ ys', s2))"
  by (induction xs arbitrary: s) (auto split: prod.splits)

lemma map_state_project:
  assumes "\<And>x s. map_prod g id (f x s) = h (g x) s"
  shows "map_prod (map g) id (map_state f xs s) = map_state h (map g xs) s"
proof (induction xs arbitrary: s)
  case (Cons x xs)
  obtain y t where y: "f x s = (y, t)" by force
  then have "h (g x) s = (g y, t)" using assms [of x s] by simp
  then show ?case using y Cons [of t, symmetric] by (simp split: prod.split)
qed simp

lemma for_each_all_rules:
  "map_prod all_rules id (for_each_root_rule_mut f rs s) = map_state f (all_rules rs) s"
proof -
  have roots: "map_prod (map root_rule) id (map_state (map_roots f) xs s) = map_state f (map root_rule xs) s" for xs s
    by (rule map_state_project) (auto simp: map_roots_def root_rule_def map_prod_def split: RootRule.split prod.split)
  have named: "map_prod (map snd) id (map_state (map_named f) xs s) = map_state f (map snd xs) s" for xs s
    by (rule map_state_project) (auto simp: map_named_def map_prod_def split: prod.split)
  obtain r1 s1 where 1: "map_state (map_roots f) (rule_root_rules rs) s = (r1, s1)" by force
  obtain r2 s2 where 2: "map_state (map_named f) (rule_aliases rs) s1 = (r2, s2)" by force
  obtain r3 s3 where 3: "map_state (map_named f) (rule_single_aliases rs) s2 = (r3, s3)" by force
  show ?thesis
    using roots [of "rule_root_rules rs" s] named [of "rule_aliases rs" s1] named [of "rule_single_aliases rs" s2]
    by (simp add: for_each_root_rule_mut_def all_rules_def map_state_append 1 2 3 [symmetric] split: prod.split)
      (auto simp: 3)
qed

lemma map_state_invariant:
  assumes "I s" "\<And>x s. x \<in> set xs \<Longrightarrow> I s \<Longrightarrow> I (snd (f x s)) \<and> Q x (fst (f x s))"
  shows "I (snd (map_state f xs s)) \<and> list_all2 Q xs (fst (map_state f xs s))"
  using assms
proof (induction xs arbitrary: s)
  case (Cons x xs)
  obtain y t where y: "f x s = (y, t)" by force
  then have "I t" "Q x y" using Cons.prems(1) Cons.prems(2) [of x s] by auto
  then show ?case using y Cons.IH [of t] Cons.prems(2) by (auto split: prod.splits)
qed simp

text \<open>A pass that agrees with a function of the rule alone maps that function over all rules.\<close>

lemma run_pass_map:
  assumes "\<And>rt cc. cache_ok P cc \<Longrightarrow> fst (f rt cc) = g rt \<and> cache_ok P (snd (f rt cc))"
  shows "all_rules (run_pass f rs) = map (\<lambda>r. (g (fst r), snd r)) (all_rules rs)"
proof -
  let ?h = "\<lambda>rule cc. map_prod (\<lambda>rt. (rt, snd rule)) id (f (fst rule) cc)"
  have "all_rules (run_pass f rs) = fst (map_state ?h (all_rules rs) [])"
    unfolding run_pass_def for_each_all_rules [symmetric] by simp
  moreover have "list_all2 (\<lambda>r r'. r' = (g (fst r), snd r)) (all_rules rs) (fst (map_state ?h (all_rules rs) []))"
    by (rule map_state_invariant [where I = "cache_ok P", THEN conjunct2]) (use assms in simp_all)
  ultimately show ?thesis by (auto simp: list_all2_conv_all_nth intro: nth_equalityI)
qed

section \<open>The passes without the cache\<close>

text \<open>The functions over a body are unfolded only where a proof asks for it.\<close>

declare any_in_body.simps [simp del] rewrite_vsm_in_list.simps [simp del] expand_ignore_in_list.simps [simp del]
  expand_colour_in_list.simps [simp del]

fun vsm_rule :: "RuleType \<Rightarrow> RuleType"
  and vsm_rules :: "NewRule list \<Rightarrow> NewRule list" where
  "vsm_rule (LeafRule l r) = LeafRule (rewrite_vsm_field l) (rewrite_vsm_field r)"
| "vsm_rule (LeafValueRule r) = LeafValueRule (rewrite_vsm_field r)"
| "vsm_rule (NodeRule l rules) = NodeRule (rewrite_vsm_field l) (vsm_rules rules)"
| "vsm_rule (ValueClauseRule rules) = ValueClauseRule (vsm_rules rules)"
| "vsm_rule (SubtypeRule n p rules) = SubtypeRule n p (vsm_rules rules)"
| "vsm_rules [] = []"
| "vsm_rules ((rt, opts) # rules) = (vsm_rule rt, opts) # vsm_rules rules"

lemma rewrite_vsm_field_id: "\<not> is_vsm f \<Longrightarrow> rewrite_vsm_field f = f"
  by (cases f) (simp_all add: is_vsm_def rewrite_vsm_field_def)

lemma not_is_vsm_rewrite [simp]: "\<not> is_vsm (rewrite_vsm_field f)"
  by (cases f) (simp_all add: is_vsm_def rewrite_vsm_field_def)

lemma vsm_rule_id:
  "\<not> occurs has_vsm_field rt \<Longrightarrow> vsm_rule rt = rt"
  "\<not> occurs_in has_vsm_field rules \<Longrightarrow> vsm_rules rules = rules"
  by (induction rt and rules rule: vsm_rule_vsm_rules.induct) (auto simp: has_vsm_field_def rewrite_vsm_field_id)

lemma vsm_rule_clean:
  "\<not> occurs has_vsm_field (vsm_rule rt)"
  "\<not> occurs_in has_vsm_field (vsm_rules rules)"
  by (induction rt and rules rule: vsm_rule_vsm_rules.induct) (auto simp: has_vsm_field_def)

lemma rewrite_vsm_eq:
  "cache_ok has_vsm_field cc \<Longrightarrow> fst (rewrite_vsm_in_rule rt cc) = vsm_rule rt \<and> cache_ok has_vsm_field (snd (rewrite_vsm_in_rule rt cc))"
  "cache_ok has_vsm_field cc \<Longrightarrow> fst (rewrite_vsm_in_list rules cc) = vsm_rules rules \<and> cache_ok has_vsm_field (snd (rewrite_vsm_in_list rules cc))"
  "cache_ok has_vsm_field cc \<Longrightarrow> fst (rewrite_vsm_each rules cc) = vsm_rules rules \<and> cache_ok has_vsm_field (snd (rewrite_vsm_each rules cc))"
proof (induction rt cc and rules cc and rules cc rule: rewrite_vsm_in_rule_rewrite_vsm_in_list_rewrite_vsm_each.induct)
  case (6 rules cc)
  obtain found cc1 where any: "any_in_body has_vsm_field rules cc = (found, cc1)" by force
  have "found = occurs_in has_vsm_field rules" "cache_ok has_vsm_field cc1"
    using any_correct(2) [OF 6(2), of rules] any by simp_all
  then show ?case using 6(1) [OF any [symmetric] refl] any vsm_rule_id(2) by (cases found) (auto simp: rewrite_vsm_in_list.simps)
next
  case (8 rt opts rules cc)
  then show ?case by (cases "rewrite_vsm_in_rule rt cc") (auto split: prod.split)
qed simp_all

lemma vsm_pass: "all_rules (replace_value_marker_fields rs) = map (\<lambda>r. (vsm_rule (fst r), snd r)) (all_rules rs)"
  unfolding replace_value_marker_fields_def by (rule run_pass_map [of has_vsm_field]) (rule rewrite_vsm_eq(1))

text \<open>Ignored fields: below a root rule only.\<close>

fun ignore_rule :: "RuleType \<Rightarrow> RuleType"
  and ignore_rules :: "NewRule list \<Rightarrow> NewRule list" where
  "ignore_rule (NodeRule l rules) = NodeRule l (ignore_rules rules)"
| "ignore_rule (ValueClauseRule rules) = ValueClauseRule (ignore_rules rules)"
| "ignore_rule (SubtypeRule n p rules) = SubtypeRule n p (ignore_rules rules)"
| "ignore_rule (LeafRule l r) = LeafRule l r"
| "ignore_rule (LeafValueRule r) = LeafValueRule r"
| "ignore_rules [] = []"
| "ignore_rules ((rt, opts) # rules) =
     ((if is_ignore_marker rt then NodeRule (IgnoreField (extract_leaf_left rt)) [] else ignore_rule rt), opts) # ignore_rules rules"

lemma ignore_rule_id:
  "\<not> occurs is_ignore_marker rt \<Longrightarrow> ignore_rule rt = rt"
  "\<not> occurs_in is_ignore_marker rules \<Longrightarrow> ignore_rules rules = rules"
  by (induction rt and rules rule: ignore_rule_ignore_rules.induct) (auto dest: occurs_here)

lemma expand_ignore_eq:
  "cache_ok is_ignore_marker cc \<Longrightarrow> fst (expand_ignore_in_rule rt cc) = ignore_rule rt \<and> cache_ok is_ignore_marker (snd (expand_ignore_in_rule rt cc))"
  "cache_ok is_ignore_marker cc \<Longrightarrow> fst (expand_ignore_in_list rules cc) = ignore_rules rules \<and> cache_ok is_ignore_marker (snd (expand_ignore_in_list rules cc))"
  "cache_ok is_ignore_marker cc \<Longrightarrow> fst (expand_ignore_each rules cc) = ignore_rules rules \<and> cache_ok is_ignore_marker (snd (expand_ignore_each rules cc))"
proof (induction rt cc and rules cc and rules cc rule: expand_ignore_in_rule_expand_ignore_in_list_expand_ignore_each.induct)
  case (6 rules cc)
  obtain found cc1 where any: "any_in_body is_ignore_marker rules cc = (found, cc1)" by force
  have "found = occurs_in is_ignore_marker rules" "cache_ok is_ignore_marker cc1"
    using any_correct(2) [OF 6(2), of rules] any by simp_all
  then show ?case using 6(1) [OF any [symmetric] refl] any ignore_rule_id(2) by (cases found) (auto simp: expand_ignore_in_list.simps)
next
  case (8 rt opts rules cc)
  then show ?case by (cases "expand_ignore_in_rule rt cc") (auto split: prod.split)
qed simp_all

lemma ignore_pass: "all_rules (replace_ignore_marker_fields rs) = map (\<lambda>r. (ignore_rule (fst r), snd r)) (all_rules rs)"
  unfolding replace_ignore_marker_fields_def by (rule run_pass_map [of is_ignore_marker]) (rule expand_ignore_eq(1))

text \<open>Colour and country tag fields.\<close>

fun colour_rule :: "RuleType \<Rightarrow> RuleType"
  and colour_rules :: "NewRule list \<Rightarrow> NewRule list"
  and colour_entry :: "RuleType \<Rightarrow> RuleType list" where
  "colour_rule (NodeRule l rules) = NodeRule l (colour_rules rules)"
| "colour_rule (ValueClauseRule rules) = ValueClauseRule (colour_rules rules)"
| "colour_rule (SubtypeRule n p rules) = SubtypeRule n p (colour_rules rules)"
| "colour_rule (LeafRule l r) = LeafRule l r"
| "colour_rule (LeafValueRule r) = LeafValueRule r"
| "colour_rules [] = []"
| "colour_rules ((rt, opts) # rules) = map (\<lambda>rt'. (rt', opts)) (colour_entry rt) @ colour_rules rules"
| "colour_entry (LeafRule l r) = expand_colour_leaf l r"
| "colour_entry (NodeRule l rules) =
     (if l = MarkerField MkIrCountryTag then [NodeRule tag_enum (colour_rules rules), NodeRule tag_variable (colour_rules rules)]
      else [NodeRule l (colour_rules rules)])"
| "colour_entry (LeafValueRule r) = [LeafValueRule r]"
| "colour_entry (ValueClauseRule rules) = [ValueClauseRule (colour_rules rules)]"
| "colour_entry (SubtypeRule n p rules) = [SubtypeRule n p (colour_rules rules)]"

lemma colour_rule_id:
  "\<not> occurs is_colour_marker rt \<Longrightarrow> colour_rule rt = rt"
  "\<not> occurs_in is_colour_marker rules \<Longrightarrow> colour_rules rules = rules"
  "\<not> occurs is_colour_marker rt \<Longrightarrow> colour_entry rt = [rt]"
  by (induction rt and rules and rt rule: colour_rule_colour_rules_colour_entry.induct)
    (auto simp: is_colour_marker_def expand_colour_leaf_def)

lemma colour_entry_plain: "\<not> is_colour_marker rt \<Longrightarrow> colour_entry rt = [colour_rule rt]"
  by (cases rt) (auto simp: is_colour_marker_def expand_colour_leaf_def)

lemma colour_rules_each:
  "\<not> list_ex (\<lambda>r. is_colour_marker (fst r)) rules \<Longrightarrow> colour_rules rules = map (\<lambda>r. (colour_rule (fst r), snd r)) rules"
  by (induction rules) (auto simp: colour_entry_plain)

lemma expand_colour_eq:
  "cache_ok is_colour_marker cc \<Longrightarrow> fst (expand_colour_in_rule rt cc) = colour_rule rt \<and> cache_ok is_colour_marker (snd (expand_colour_in_rule rt cc))"
  "cache_ok is_colour_marker cc \<Longrightarrow> fst (expand_colour_in_list rules cc) = colour_rules rules \<and> cache_ok is_colour_marker (snd (expand_colour_in_list rules cc))"
  "cache_ok is_colour_marker cc \<Longrightarrow> fst (expand_colour_each rules cc) = map (\<lambda>r. (colour_rule (fst r), snd r)) rules \<and> cache_ok is_colour_marker (snd (expand_colour_each rules cc))"
  "cache_ok is_colour_marker cc \<Longrightarrow> fst (expand_colour_entries rules cc) = colour_rules rules \<and> cache_ok is_colour_marker (snd (expand_colour_entries rules cc))"
proof (induction rt cc and rules cc and rules cc and rules cc
    rule: expand_colour_in_rule_expand_colour_in_list_expand_colour_each_expand_colour_entries.induct)
  case (6 rules cc)
  obtain found cc1 where any: "any_in_body is_colour_marker rules cc = (found, cc1)" by force
  have "found = occurs_in is_colour_marker rules" "cache_ok is_colour_marker cc1"
    using any_correct(2) [OF 6(3), of rules] any by simp_all
  then show ?case
    using 6(1,2) [OF any [symmetric] refl] any colour_rule_id(2) colour_rules_each
    by (cases found; cases "list_ex (\<lambda>r. is_colour_marker (fst r)) rules")
      (auto simp: expand_colour_in_list.simps)
next
  case (8 rt opts rules cc)
  then show ?case by (cases "expand_colour_in_rule rt cc") (auto split: prod.split)
next
  case (10 rt opts rules cc)
  show ?case
  proof (cases rt)
    case (LeafRule l r)
    then show ?thesis using 10 by (auto split: prod.split)
  next
    case (NodeRule l body)
    show ?thesis
    proof (cases "l = MarkerField MkIrCountryTag")
      case True
      obtain a c2 where a: "expand_colour_in_list body cc = (a, c2)" by force
      obtain b c3 where b: "expand_colour_in_list body c2 = (b, c3)" by force
      have 1: "a = colour_rules body" "cache_ok is_colour_marker c2"
        using 10(1) [OF NodeRule True 10(8)] a by simp_all
      have 2: "b = colour_rules body" "cache_ok is_colour_marker c3"
        using 10(2) [OF NodeRule True a [symmetric] refl] 1(2) b by simp_all
      show ?thesis
        using 10(7) [of _ "[NodeRule tag_enum a, NodeRule tag_variable b]" c3] 1 2 NodeRule True a b by (auto split: prod.split)
    next
      case False
      obtain a c2 where a: "expand_colour_in_list body cc = (a, c2)" by force
      have 1: "a = colour_rules body" "cache_ok is_colour_marker c2"
        using 10(3) [OF NodeRule False 10(8)] NodeRule a by simp_all
      show ?thesis using 10(7) [of _ "[NodeRule l a]" c2] 1 NodeRule False a by (auto split: prod.split)
    qed
  next
    case (LeafValueRule r)
    then show ?thesis using 10 by (auto split: prod.split)
  next
    case (ValueClauseRule body)
    then show ?thesis using 10 by (cases "expand_colour_in_list body cc") (auto split: prod.split)
  next
    case (SubtypeRule n p body)
    then show ?thesis using 10 by (cases "expand_colour_in_list body cc") (auto split: prod.split)
  qed
qed simp_all

lemma colour_pass: "all_rules (replace_colour_field rs) = map (\<lambda>r. (colour_rule (fst r), snd r)) (all_rules rs)"
  unfolding replace_colour_field_def by (rule run_pass_map [of is_colour_marker]) (rule expand_colour_eq(1))

section \<open>What a pass leaves\<close>

text \<open>A country tag in the place of a key: the expansion of the right-hand side would copy it.\<close>

definition tag_key :: "RuleType \<Rightarrow> bool" where
  "tag_key rt \<longleftrightarrow> (case rt of LeafRule left _ \<Rightarrow> left = MarkerField MkIrCountryTag | _ \<Rightarrow> False)"

lemma marker_simps [simp]:
  "is_colour_marker (LeafRule l r) \<longleftrightarrow> r = MarkerField MkColourField \<or> l = MarkerField MkIrCountryTag \<or> r = MarkerField MkIrCountryTag"
  "is_colour_marker (NodeRule l rules) \<longleftrightarrow> l = MarkerField MkIrCountryTag"
  "\<not> is_colour_marker (LeafValueRule r)" "\<not> is_colour_marker (ValueClauseRule rules)" "\<not> is_colour_marker (SubtypeRule n p rules)"
  "has_vsm_field (LeafRule l r) \<longleftrightarrow> is_vsm l \<or> is_vsm r" "has_vsm_field (LeafValueRule r) \<longleftrightarrow> is_vsm r"
  "has_vsm_field (NodeRule l rules) \<longleftrightarrow> is_vsm l" "\<not> has_vsm_field (ValueClauseRule rules)" "\<not> has_vsm_field (SubtypeRule n p rules)"
  "is_ignore_marker (LeafRule l r) \<longleftrightarrow> r = IgnoreMarkerField" "\<not> is_ignore_marker (LeafValueRule r)"
  "\<not> is_ignore_marker (NodeRule l rules)" "\<not> is_ignore_marker (ValueClauseRule rules)" "\<not> is_ignore_marker (SubtypeRule n p rules)"
  "tag_key (LeafRule l r) \<longleftrightarrow> l = MarkerField MkIrCountryTag" "\<not> tag_key (LeafValueRule r)"
  "\<not> tag_key (NodeRule l rules)" "\<not> tag_key (ValueClauseRule rules)" "\<not> tag_key (SubtypeRule n p rules)"
  by (simp_all add: is_colour_marker_def has_vsm_field_def is_ignore_marker_def tag_key_def split: NewField.split)

lemma tag_fields [simp]: "tag_enum \<noteq> MarkerField m" "tag_variable \<noteq> MarkerField m"
  "\<not> is_vsm tag_enum" "\<not> is_vsm tag_variable"
  by (simp_all add: tag_enum_def tag_variable_def is_vsm_def)

lemma is_vsm_simps [simp]: "\<not> is_vsm (MarkerField m)" "\<not> is_vsm (IgnoreField f)" "\<not> is_vsm IgnoreMarkerField"
  by (simp_all add: is_vsm_def)

lemma colour_values_clean: "\<not> occurs_in is_colour_marker [colour_values]" "\<not> occurs_in has_vsm_field [colour_values]"
  by (simp_all add: colour_values_def is_vsm_def)

lemma occurs_in_map [simp]: "occurs_in P (map (\<lambda>rt. (rt, opts)) rts) \<longleftrightarrow> (\<exists>rt \<in> set rts. occurs P rt)"
  by (auto simp: occurs_in_iff)

lemma colour_rule_clean:
  "\<not> occurs tag_key rt \<Longrightarrow> occurs is_colour_marker (colour_rule rt) \<Longrightarrow> is_colour_marker rt"
  "\<not> occurs_in tag_key rules \<Longrightarrow> \<not> occurs_in is_colour_marker (colour_rules rules)"
  "\<not> occurs tag_key rt \<Longrightarrow> \<forall>x \<in> set (colour_entry rt). \<not> occurs is_colour_marker x"
proof (induction rt and rules and rt rule: colour_rule_colour_rules_colour_entry.induct)
  case (8 l r)
  then show ?case
    using colour_values_clean(1) by (auto simp: expand_colour_leaf_def)
qed auto

lemma colour_rule_vsm:
  "\<not> occurs has_vsm_field rt \<Longrightarrow> \<not> occurs has_vsm_field (colour_rule rt)"
  "\<not> occurs_in has_vsm_field rules \<Longrightarrow> \<not> occurs_in has_vsm_field (colour_rules rules)"
  "\<not> occurs has_vsm_field rt \<Longrightarrow> \<forall>x \<in> set (colour_entry rt). \<not> occurs has_vsm_field x"
proof (induction rt and rules and rt rule: colour_rule_colour_rules_colour_entry.induct)
  case (8 l r)
  then show ?case
    using colour_values_clean(2) by (auto simp: expand_colour_leaf_def)
qed auto

lemma ignore_rule_clean:
  "occurs is_ignore_marker (ignore_rule rt) \<Longrightarrow> is_ignore_marker rt"
  "\<not> occurs_in is_ignore_marker (ignore_rules rules)"
  by (induction rt and rules rule: ignore_rule_ignore_rules.induct) auto

lemma ignore_rule_keeps:
  assumes "\<And>l. P (NodeRule (IgnoreField l) []) = False" "\<And>l b b'. P (NodeRule l b) = P (NodeRule l b')"
    "\<And>b b'. P (ValueClauseRule b) = P (ValueClauseRule b')" "\<And>n p b b'. P (SubtypeRule n p b) = P (SubtypeRule n p b')"
  shows "\<not> occurs P rt \<Longrightarrow> \<not> occurs P (ignore_rule rt)"
    "\<not> occurs_in P rules \<Longrightarrow> \<not> occurs_in P (ignore_rules rules)"
proof (induction rt and rules rule: ignore_rule_ignore_rules.induct)
  case (1 l rules)
  then show ?case using assms(2) [of l rules "ignore_rules rules"] by simp
next
  case (2 rules)
  then show ?case using assms(3) [of rules "ignore_rules rules"] by simp
next
  case (3 n p rules)
  then show ?case using assms(4) [of n p rules "ignore_rules rules"] by simp
qed (simp_all add: assms(1))

end
