(* ===== verification/Alias_Expansion.thy ===== *)
theory Alias_Expansion
  imports Post_Process_Passes
begin

text \<open>
  The expander of single aliases. Inlining a rule is compared with the unfolding of the aliases by
  substitution; the tables of the expander, the node budget and the absence of markers are kept by every
  step of the resolution.
\<close>

section \<open>Expansion of single aliases\<close>

text \<open>The reference: aliases are unfolded by substitution, so many levels deep.\<close>

fun subst_rule :: "(rstr \<Rightarrow> RuleType option) \<Rightarrow> RuleType \<Rightarrow> RuleType"
  and subst_rules :: "(rstr \<Rightarrow> RuleType option) \<Rightarrow> NewRule list \<Rightarrow> NewRule list" where
  "subst_rule \<sigma> (LeafRule l r) =
     (case r of SingleAliasField n \<Rightarrow> unwrap_or (inline_ref l (\<sigma> n)) (LeafRule l r) | _ \<Rightarrow> LeafRule l r)"
| "subst_rule \<sigma> (LeafValueRule r) = LeafValueRule r"
| "subst_rule \<sigma> (NodeRule l rules) = NodeRule l (subst_rules \<sigma> rules)"
| "subst_rule \<sigma> (ValueClauseRule rules) = ValueClauseRule (subst_rules \<sigma> rules)"
| "subst_rule \<sigma> (SubtypeRule n p rules) = SubtypeRule n p (subst_rules \<sigma> rules)"
| "subst_rules \<sigma> [] = []"
| "subst_rules \<sigma> ((rt, opts) # rules) = (subst_rule \<sigma> rt, opts) # subst_rules \<sigma> rules"

primrec unfold_alias :: "(rstr \<times> NewRule) list \<Rightarrow> nat \<Rightarrow> rstr \<Rightarrow> RuleType option" where
  "unfold_alias defs 0 name = None"
| "unfold_alias defs (Suc k) name = map_option (\<lambda>r. subst_rule (unfold_alias defs k) (fst r)) (map_of defs name)"

text \<open>A rule is the expansion of another when every deep enough unfolding gives it, and it refers to no
  alias that is defined.\<close>

definition unfolds_to :: "(rstr \<times> NewRule) list \<Rightarrow> RuleType \<Rightarrow> RuleType \<Rightarrow> bool" where
  "unfolds_to defs rt rt' \<longleftrightarrow> (\<exists>K. \<forall>k \<ge> K. subst_rule (unfold_alias defs k) rt = rt') \<and>
     (\<forall>n \<in> set (collect_refs rt'). map_of defs n = None)"

definition body_unfolds_to :: "(rstr \<times> NewRule) list \<Rightarrow> NewRule list \<Rightarrow> NewRule list \<Rightarrow> bool" where
  "body_unfolds_to defs rules rules' \<longleftrightarrow> (\<exists>K. \<forall>k \<ge> K. subst_rules (unfold_alias defs k) rules = rules') \<and>
     (\<forall>n \<in> set (collect_refs_in rules'). map_of defs n = None)"

lemma body_unfolds_to_Nil [simp]: "body_unfolds_to defs [] []"
  by (simp add: body_unfolds_to_def)

lemma body_unfolds_to_Cons:
  "unfolds_to defs rt rt' \<Longrightarrow> body_unfolds_to defs rules rules' \<Longrightarrow>
   body_unfolds_to defs ((rt, opts) # rules) ((rt', opts) # rules')"
  unfolding unfolds_to_def body_unfolds_to_def
proof (elim conjE exE, intro conjI)
  fix K L
  assume "\<forall>k\<ge>K. subst_rule (unfold_alias defs k) rt = rt'" "\<forall>k\<ge>L. subst_rules (unfold_alias defs k) rules = rules'"
  then have "\<forall>k \<ge> max K L. subst_rules (unfold_alias defs k) ((rt, opts) # rules) = (rt', opts) # rules'" by simp
  then show "\<exists>K. \<forall>k\<ge>K. subst_rules (unfold_alias defs k) ((rt, opts) # rules) = (rt', opts) # rules'" by blast
qed auto

lemma unfolds_to_containers:
  "body_unfolds_to defs rules rules' \<Longrightarrow> unfolds_to defs (NodeRule l rules) (NodeRule l rules')"
  "body_unfolds_to defs rules rules' \<Longrightarrow> unfolds_to defs (ValueClauseRule rules) (ValueClauseRule rules')"
  "body_unfolds_to defs rules rules' \<Longrightarrow> unfolds_to defs (SubtypeRule n p rules) (SubtypeRule n p rules')"
  by (simp_all add: unfolds_to_def body_unfolds_to_def)

lemma ref_simps [simp]:
  "is_single_alias_ref (LeafRule l r) \<longleftrightarrow> field_refs r \<noteq> []" "\<not> is_single_alias_ref (LeafValueRule r)"
  "\<not> is_single_alias_ref (NodeRule l rules)" "\<not> is_single_alias_ref (ValueClauseRule rules)"
  "\<not> is_single_alias_ref (SubtypeRule n p rules)"
  by (simp_all add: is_single_alias_ref_def field_refs_def split: NewField.split)

lemma no_refs:
  "\<not> occurs is_single_alias_ref rt \<Longrightarrow> subst_rule \<sigma> rt = rt \<and> collect_refs rt = []"
  "\<not> occurs_in is_single_alias_ref rules \<Longrightarrow> subst_rules \<sigma> rules = rules \<and> collect_refs_in rules = []"
  by (induction \<sigma> rt and \<sigma> rules rule: subst_rule_subst_rules.induct) (auto simp: field_refs_def split: NewField.splits)

lemma no_refs_unfolds:
  "\<not> occurs_in is_single_alias_ref rules \<Longrightarrow> body_unfolds_to defs rules rules"
  by (simp add: body_unfolds_to_def no_refs)

definition leaf_or_node :: "RuleType \<Rightarrow> bool" where
  "leaf_or_node rt \<longleftrightarrow> (case rt of LeafRule _ _ \<Rightarrow> True | NodeRule _ _ \<Rightarrow> True | _ \<Rightarrow> False)"

definition plain_aliases :: "(rstr \<times> NewRule) list \<Rightarrow> bool" where
  "plain_aliases defs \<longleftrightarrow> list_all (\<lambda>d. leaf_or_node (fst (snd d))) defs"

text \<open>The tables of the expander: what holds of every definition that is resolved.\<close>

definition names_ok :: "(rstr \<times> NewRule) list \<Rightarrow> (rstr \<times> nat) list \<Rightarrow> bool" where
  "names_ok defs m \<longleftrightarrow> (\<forall>name. case map_of m name of
       None \<Rightarrow> map_of defs name = None
     | Some idx \<Rightarrow> idx < length defs \<and> map_of defs name = Some (snd (defs ! idx)))"

definition resolved_ok :: "(rstr \<times> NewRule) list \<Rightarrow> Expander \<Rightarrow> nat \<Rightarrow> bool" where
  "resolved_ok defs ex i \<longleftrightarrow> (\<exists>rt. ex_bodies ex ! i = Some (rt, snd (snd (defs ! i))) \<and> ex_size ex ! i = logical_size rt \<and>
     (ex_refused ex = [] \<and> plain_aliases defs \<longrightarrow> leaf_or_node rt \<and> unfolds_to defs (fst (snd (defs ! i))) rt))"

definition table_ok :: "(rstr \<times> NewRule) list \<Rightarrow> Expander \<Rightarrow> bool" where
  "table_ok defs ex \<longleftrightarrow> names_ok defs (ex_by_name ex) \<and> length (ex_bodies ex) = length defs \<and>
     length (ex_state ex) = length defs \<and> length (ex_size ex) = length defs \<and> cache_ok is_single_alias_ref (ex_clean ex) \<and>
     (\<forall>i < length defs. ex_state ex ! i = Done \<longrightarrow> resolved_ok defs ex i)"

text \<open>What the inlining of a rule leaves alone.\<close>

definition same_table :: "Expander \<Rightarrow> Expander \<Rightarrow> bool" where
  "same_table ex ex' \<longleftrightarrow> ex_by_name ex' = ex_by_name ex \<and> ex_bodies ex' = ex_bodies ex \<and> ex_state ex' = ex_state ex \<and>
     ex_size ex' = ex_size ex \<and> ex_limit ex' = ex_limit ex \<and> (ex_refused ex' = [] \<longrightarrow> ex_refused ex = [])"

lemma same_table_refl [simp]: "same_table ex ex"
  by (simp add: same_table_def)

lemma same_table_trans [trans]: "same_table a b \<Longrightarrow> same_table b c \<Longrightarrow> same_table a c"
  by (simp add: same_table_def)

lemma same_table_ok:
  "table_ok defs ex \<Longrightarrow> same_table ex ex' \<Longrightarrow> cache_ok is_single_alias_ref (ex_clean ex') \<Longrightarrow> table_ok defs ex'"
  by (auto simp: table_ok_def same_table_def resolved_ok_def)

lemma upd_entry_not_Nil [simp]: "upd_entry d k f m \<noteq> []"
proof -
  have "AList.update k v m \<noteq> []" for v
    by (cases m) auto
  then show ?thesis by (simp add: upd_entry_def)
qed

lemma refuse_same [simp]: "same_table ex (refuse name reason ex)" "ex_clean (refuse name reason ex) = ex_clean ex"
  "ex_remaining (refuse name reason ex) = ex_remaining ex" "ex_refused (refuse name reason ex) \<noteq> []"
  by (simp_all add: refuse_def same_table_def)

lemma take_alias_spec:
  assumes "table_ok defs ex" "take_alias name ex = (r, ex')"
  shows "same_table ex ex'" "ex_clean ex' = ex_clean ex"
    "case r of
       None \<Rightarrow> ex_remaining ex' = ex_remaining ex \<and> (ex_refused ex' = [] \<longrightarrow> map_of defs name = None)
     | Some (b, _) \<Rightarrow> logical_size b + ex_remaining ex' = ex_remaining ex \<and>
         (ex_refused ex' = [] \<and> plain_aliases defs \<longrightarrow>
            leaf_or_node b \<and> (\<exists>d. map_of defs name = Some d \<and> unfolds_to defs (fst d) b))"
proof -
  have names: "names_ok defs (ex_by_name ex)" and resolved: "\<And>i. i < length defs \<Longrightarrow> ex_state ex ! i = Done \<Longrightarrow> resolved_ok defs ex i"
    using assms(1) by (simp_all add: table_ok_def)
  show "same_table ex ex'" "ex_clean ex' = ex_clean ex"
    using assms(2) by (auto simp: take_alias_def same_table_def refuse_def Let_def split: option.splits Resolution.splits if_splits)
  show "case r of
       None \<Rightarrow> ex_remaining ex' = ex_remaining ex \<and> (ex_refused ex' = [] \<longrightarrow> map_of defs name = None)
     | Some (b, _) \<Rightarrow> logical_size b + ex_remaining ex' = ex_remaining ex \<and>
         (ex_refused ex' = [] \<and> plain_aliases defs \<longrightarrow>
            leaf_or_node b \<and> (\<exists>d. map_of defs name = Some d \<and> unfolds_to defs (fst d) b))"
  proof (cases "map_of (ex_by_name ex) name")
    case None
    then have "map_of defs name = None" using spec [OF names [unfolded names_ok_def], of name] by simp
    then show ?thesis using assms(2) None by (auto simp: take_alias_def)
  next
    case (Some idx)
    then have idx: "idx < length defs" "map_of defs name = Some (snd (defs ! idx))"
      using spec [OF names [unfolded names_ok_def], of name] by simp_all
    show ?thesis
    proof (cases "ex_state ex ! idx = Done \<and> ex_size ex ! idx \<le> ex_remaining ex")
      case True
      then obtain rt where "ex_bodies ex ! idx = Some (rt, snd (snd (defs ! idx)))" "ex_size ex ! idx = logical_size rt"
        "ex_refused ex = [] \<and> plain_aliases defs \<longrightarrow> leaf_or_node rt \<and> unfolds_to defs (fst (snd (defs ! idx))) rt"
        using resolved [OF idx(1)] by (auto simp: resolved_ok_def)
      moreover from this True have "take_alias name ex = (Some (rt, snd (snd (defs ! idx))), ex\<lparr>ex_remaining := ex_remaining ex - logical_size rt\<rparr>)"
        by (simp add: take_alias_def Some)
      ultimately show ?thesis using assms(2) True idx(2) by auto
    next
      case False
      then show ?thesis using assms(2) Some
        by (auto simp: take_alias_def Let_def refuse_def split: Resolution.splits if_splits)
    qed
  qed
qed

definition inlined_ok :: "(rstr \<times> NewRule) list \<Rightarrow> Expander \<Rightarrow> Expander \<Rightarrow> nat \<Rightarrow> nat \<Rightarrow> bool \<Rightarrow> bool" where
  "inlined_ok defs ex ex' sz sz' unfolds \<longleftrightarrow> same_table ex ex' \<and> table_ok defs ex' \<and>
     sz' + ex_remaining ex' \<le> sz + ex_remaining ex \<and> (ex_refused ex' = [] \<and> plain_aliases defs \<longrightarrow> unfolds)"

lemma inlined_ok_refl: "table_ok defs ex \<Longrightarrow> unfolds \<Longrightarrow> inlined_ok defs ex ex sz sz unfolds"
  by (simp add: inlined_ok_def)

lemma inlined_ok_step:
  assumes "inlined_ok defs ex ex1 a a' u" "inlined_ok defs ex1 ex2 b b' v" "u \<Longrightarrow> v \<Longrightarrow> w"
  shows "inlined_ok defs ex ex2 (a + b) (a' + b') w"
proof -
  have "ex_refused ex1 = []" if "ex_refused ex2 = []"
    using that assms(2) by (simp add: inlined_ok_def same_table_def)
  then show ?thesis using assms by (auto simp: inlined_ok_def intro: same_table_trans)
qed

lemma inlined_ok_weaken:
  "inlined_ok defs ex ex' a a' u \<Longrightarrow> a + b' \<le> b + a' \<Longrightarrow> (u \<Longrightarrow> v) \<Longrightarrow> inlined_ok defs ex ex' b b' v"
  by (auto simp: inlined_ok_def)

lemma leaf_unfolds:
  assumes "map_of defs n = Some d" "unfolds_to defs (fst d) b" "leaf_or_node b"
  shows "\<exists>rt. inline_ref l (Some b) = Some rt \<and> logical_size rt \<le> logical_size b \<and> unfolds_to defs (LeafRule l (SingleAliasField n)) rt"
proof -
  obtain K where K: "\<forall>k\<ge>K. subst_rule (unfold_alias defs k) (fst d) = b" and refs: "\<forall>n \<in> set (collect_refs b). map_of defs n = None"
    using assms(2) by (auto simp: unfolds_to_def)
  have unfold: "unfold_alias defs k n = Some b" if "k \<ge> Suc K" for k
    using that K assms(1) by (cases k) simp_all
  obtain rt where rt: "inline_ref l (Some b) = Some rt" "collect_refs rt = collect_refs b" "logical_size rt \<le> logical_size b"
    using assms(3) by (cases b) (simp_all add: inline_ref_def leaf_or_node_def)
  then have "\<forall>k \<ge> Suc K. subst_rule (unfold_alias defs k) (LeafRule l (SingleAliasField n)) = rt"
    using unfold by (simp add: unwrap_or_def)
  then have "unfolds_to defs (LeafRule l (SingleAliasField n)) rt"
    unfolding unfolds_to_def rt(2) using refs by blast
  then show ?thesis using rt by blast
qed

lemma unknown_unfolds:
  assumes "map_of defs n = None"
  shows "unfolds_to defs (LeafRule l (SingleAliasField n)) (LeafRule l (SingleAliasField n))"
proof -
  have "unfold_alias defs k n = None" for k using assms by (cases k) simp_all
  then show ?thesis using assms by (simp add: unfolds_to_def field_refs_def inline_ref_def unwrap_or_def)
qed

lemma inline_ref_size: "inline_ref l (Some b) = Some rt \<Longrightarrow> logical_size rt \<le> logical_size b"
  by (cases b) (auto simp: inline_ref_def)

lemma inline_ref_cases:
  assumes "table_ok defs ex" "f \<in> {inline_whole, inline_entry}" "f l n ex = (rt', ex')"
  shows "inlined_ok defs ex ex' 1 (logical_size rt') (unfolds_to defs (LeafRule l (SingleAliasField n)) rt')"
proof -
  obtain r ex1 where t: "take_alias n ex = (r, ex1)" by force
  have ex: "ex1 = ex'" using assms(2,3) t by (auto simp: inline_whole_def inline_entry_def)
  have same: "same_table ex ex'" and ok: "table_ok defs ex'"
    using take_alias_spec [OF assms(1) t] same_table_ok [OF assms(1)] assms(1) by (auto simp: ex table_ok_def)
  show ?thesis
  proof (cases r)
    case None
    then have "rt' = LeafRule l (SingleAliasField n)"
      using assms(2,3) t by (auto simp: inline_whole_def inline_entry_def inline_ref_def unwrap_or_def)
    then show ?thesis using same ok take_alias_spec(3) [OF assms(1) t] None unknown_unfolds ex by (auto simp: inlined_ok_def)
  next
    case (Some p)
    obtain b opts where p: "p = (b, opts)" by force
    have spec: "logical_size b + ex_remaining ex' = ex_remaining ex"
      "ex_refused ex' = [] \<and> plain_aliases defs \<longrightarrow> leaf_or_node b \<and> (\<exists>d. map_of defs n = Some d \<and> unfolds_to defs (fst d) b)"
      using take_alias_spec(3) [OF assms(1) t] Some p ex by simp_all
    have small: "logical_size rt' \<le> logical_size b + 1"
      using assms(2,3) t Some p inline_ref_size [of l b]
      by (cases "inline_ref l (Some b)") (auto simp: inline_whole_def inline_entry_def unwrap_or_def)
    have "unfolds_to defs (LeafRule l (SingleAliasField n)) rt'" if c: "ex_refused ex' = []" "plain_aliases defs"
    proof -
      obtain d where "map_of defs n = Some d" "unfolds_to defs (fst d) b" "leaf_or_node b" using spec(2) c by blast
      from leaf_unfolds [OF this, of l] obtain rt
        where rt: "inline_ref l (Some b) = Some rt" "unfolds_to defs (LeafRule l (SingleAliasField n)) rt" by blast
      then have "rt' = rt" using assms(2,3) t Some p by (auto simp: inline_whole_def inline_entry_def unwrap_or_def)
      then show ?thesis using rt(2) by simp
    qed
    then show ?thesis using same ok spec(1) small by (auto simp: inlined_ok_def)
  qed
qed

lemma inline_leaf_ok:
  assumes "table_ok defs ex" "f \<in> {inline_whole, inline_entry}" "inline_leaf f l r ex = (rt', ex')"
  shows "inlined_ok defs ex ex' 1 (logical_size rt') (unfolds_to defs (LeafRule l r) rt')"
proof (cases "field_refs r")
  case Nil
  then have "inline_leaf f l r ex = (LeafRule l r, ex)" "unfolds_to defs (LeafRule l r) (LeafRule l r)"
    by (auto simp: inline_leaf_def field_refs_def unfolds_to_def split: NewField.splits)
  then show ?thesis using assms(1,3) inlined_ok_refl [of defs ex] by simp
next
  case (Cons n ns)
  then have "r = SingleAliasField n" by (auto simp: field_refs_def split: NewField.splits)
  then show ?thesis using inline_ref_cases [OF assms(1,2)] assms(3) by (simp add: inline_leaf_def)
qed

declare inline_list.simps [simp del]

lemma inline_ok:
  "table_ok defs ex \<Longrightarrow> inlined_ok defs ex (snd (inline_rule rt ex)) (logical_size rt) (logical_size (fst (inline_rule rt ex)))
     (unfolds_to defs rt (fst (inline_rule rt ex)))"
  "table_ok defs ex \<Longrightarrow> inlined_ok defs ex (snd (inline_list rules ex)) (body_size rules) (body_size (fst (inline_list rules ex)))
     (body_unfolds_to defs rules (fst (inline_list rules ex)))"
  "table_ok defs ex \<Longrightarrow> inlined_ok defs ex (snd (inline_each rules ex)) (body_size rules) (body_size (fst (inline_each rules ex)))
     (body_unfolds_to defs rules (fst (inline_each rules ex)))"
  "table_ok defs ex \<Longrightarrow> inlined_ok defs ex (snd (inline_entries rules ex)) (body_size rules) (body_size (fst (inline_entries rules ex)))
     (body_unfolds_to defs rules (fst (inline_entries rules ex)))"
proof (induction rt ex and rules ex and rules ex and rules ex
    rule: inline_rule_inline_list_inline_each_inline_entries.induct)
  case (1 l r ex)
  then show ?case using inline_leaf_ok [of defs ex inline_whole l r] by (cases "inline_leaf inline_whole l r ex") simp
next
  case (2 l rules ex)
  from 2(1) [OF 2(2)] show ?case by (auto elim!: inlined_ok_weaken intro: unfolds_to_containers)
next
  case (3 rules ex)
  from 3(1) [OF 3(2)] show ?case by (auto elim!: inlined_ok_weaken intro: unfolds_to_containers)
next
  case (4 n p rules ex)
  from 4(1) [OF 4(2)] show ?case by (auto elim!: inlined_ok_weaken intro: unfolds_to_containers)
next
  case (5 r ex)
  then show ?case by (simp add: inlined_ok_refl unfolds_to_def)
next
  case (6 rules ex)
  obtain found ex1 where has: "body_has_ref rules ex = (found, ex1)" by force
  have same: "same_table ex ex1" "ex_remaining ex1 = ex_remaining ex" "ex_refused ex1 = ex_refused ex"
    using has by (auto simp: body_has_ref_def same_table_def split: prod.splits)
  have found: "found = occurs_in is_single_alias_ref rules" and clean: "cache_ok is_single_alias_ref (ex_clean ex1)"
    using any_correct(2) [of is_single_alias_ref "ex_clean ex" rules] has 6(3)
    by (auto simp: body_has_ref_def table_ok_def split: prod.splits)
  have ok: "table_ok defs ex1" using same_table_ok [OF 6(3) same(1) clean] .
  have first: "inlined_ok defs ex ex1 0 0 True" using same ok by (simp add: inlined_ok_def)
  show ?case
  proof (cases "found \<and> list_ex (\<lambda>r. is_single_alias_ref (fst r)) rules")
    case True
    then show ?thesis using inlined_ok_step [OF first 6(2) [OF has [symmetric] refl _ _ ok]] has by (simp add: inline_list.simps)
  next
    case False
    then show ?thesis
      using inlined_ok_step [OF first 6(1) [OF has [symmetric] refl _ _ ok]] has found no_refs_unfolds same ok
      by (cases found) (auto simp: inline_list.simps inlined_ok_def)
  qed
next
  case (7 ex)
  then show ?case by (simp add: inlined_ok_refl)
next
  case (8 rt opts rules ex)
  obtain rt' ex1 where rt: "inline_rule rt ex = (rt', ex1)" by force
  then have 1: "inlined_ok defs ex ex1 (logical_size rt) (logical_size rt') (unfolds_to defs rt rt')" using 8(1,3) by simp
  then have 2: "inlined_ok defs ex1 (snd (inline_each rules ex1)) (body_size rules) (body_size (fst (inline_each rules ex1)))
     (body_unfolds_to defs rules (fst (inline_each rules ex1)))"
    using 8(2) [OF rt [symmetric] refl] by (simp add: inlined_ok_def)
  have "inlined_ok defs ex (snd (inline_each rules ex1)) (logical_size rt + body_size rules)
      (logical_size rt' + body_size (fst (inline_each rules ex1)))
      (body_unfolds_to defs ((rt, opts) # rules) ((rt', opts) # fst (inline_each rules ex1)))"
    by (rule inlined_ok_step [OF 1 2]) (rule body_unfolds_to_Cons)
  then show ?case using rt by (cases "inline_each rules ex1") simp
next
  case (9 ex)
  then show ?case by (simp add: inlined_ok_refl)
next
  case (10 rt opts rules ex)
  obtain rt' ex1 where rt: "(case rt of LeafRule left right \<Rightarrow> inline_leaf inline_entry left right ex | _ \<Rightarrow> inline_rule rt ex) = (rt', ex1)"
    by force
  have 1: "inlined_ok defs ex ex1 (logical_size rt) (logical_size rt') (unfolds_to defs rt rt')"
  proof (cases rt)
    case (LeafRule l r)
    then show ?thesis using inline_leaf_ok [OF 10(6), of inline_entry l r rt' ex1] rt by simp
  next
    case (NodeRule l body)
    then show ?thesis using 10(1) [OF NodeRule 10(6)] rt by (simp only: RuleType.case fst_conv snd_conv)
  next
    case (LeafValueRule r)
    then show ?thesis using 10(2) [OF LeafValueRule 10(6)] rt by (simp only: RuleType.case fst_conv snd_conv)
  next
    case (ValueClauseRule body)
    then show ?thesis using 10(3) [OF ValueClauseRule 10(6)] rt by (simp only: RuleType.case fst_conv snd_conv)
  next
    case (SubtypeRule n p body)
    then show ?thesis using 10(4) [OF SubtypeRule 10(6)] rt by (simp only: RuleType.case fst_conv snd_conv)
  qed
  then have 2: "inlined_ok defs ex1 (snd (inline_entries rules ex1)) (body_size rules) (body_size (fst (inline_entries rules ex1)))
     (body_unfolds_to defs rules (fst (inline_entries rules ex1)))"
    using 10(5) [OF rt [symmetric] refl] by (simp add: inlined_ok_def)
  have "inlined_ok defs ex (snd (inline_entries rules ex1)) (logical_size rt + body_size rules)
      (logical_size rt' + body_size (fst (inline_entries rules ex1)))
      (body_unfolds_to defs ((rt, opts) # rules) ((rt', opts) # fst (inline_entries rules ex1)))"
    by (rule inlined_ok_step [OF 1 2]) (rule body_unfolds_to_Cons)
  then show ?case using rt by (cases "inline_entries rules ex1") simp
qed

section \<open>Resolution of the definitions\<close>

text \<open>A marker that inlining cannot introduce: it looks at the fields of a rule, and what it says of a key does
  not depend on the value next to it.\<close>

locale rule_marker =
  fixes P :: "RuleType \<Rightarrow> bool"
  assumes leaf: "\<not> P (LeafRule l x) \<Longrightarrow> \<not> P (LeafRule y r) \<Longrightarrow> \<not> P (LeafRule l r)"
    and leaf_node: "\<not> P (LeafRule l x) \<Longrightarrow> \<not> P (NodeRule l rules)"
    and node: "P (NodeRule l rules) = P (NodeRule l rules')"
    and clause: "P (ValueClauseRule rules) = P (ValueClauseRule rules')"
    and subtype: "P (SubtypeRule n p rules) = P (SubtypeRule n p rules')"

definition bodies_clean :: "(RuleType \<Rightarrow> bool) \<Rightarrow> Expander \<Rightarrow> bool" where
  "bodies_clean P ex \<longleftrightarrow> (\<forall>b \<in> set (ex_bodies ex). case b of None \<Rightarrow> True | Some r \<Rightarrow> \<not> occurs P (fst r))"

definition ready :: "(rstr \<times> NewRule) list \<Rightarrow> Expander \<Rightarrow> bool" where
  "ready defs ex \<longleftrightarrow> table_ok defs ex \<and> (\<forall>i < length defs. ex_state ex ! i \<noteq> Done \<longrightarrow> ex_bodies ex ! i = Some (snd (defs ! i)))"

definition bodies_size :: "Expander \<Rightarrow> nat" where
  "bodies_size ex = sum_list (map (\<lambda>b. case b of None \<Rightarrow> 0 | Some r \<Rightarrow> logical_size (fst r)) (ex_bodies ex))"

definition progress :: "Expander \<Rightarrow> Expander \<Rightarrow> bool" where
  "progress ex ex' \<longleftrightarrow> length (ex_state ex') = length (ex_state ex) \<and>
     bodies_size ex' + ex_remaining ex' \<le> bodies_size ex + ex_remaining ex \<and> ex_limit ex' = ex_limit ex \<and>
     (\<forall>i < length (ex_state ex). (ex_state ex' ! i = InProgress \<longleftrightarrow> ex_state ex ! i = InProgress) \<and>
        (ex_state ex ! i = Done \<longrightarrow> ex_state ex' ! i = Done))"

lemma progress_refl [simp]: "progress ex ex"
  by (simp add: progress_def)

lemma progress_trans: "progress a b \<Longrightarrow> progress b c \<Longrightarrow> progress a c"
  by (auto simp: progress_def)

lemma sum_list_update_nat: "i < length xs \<Longrightarrow> sum_list (xs[i := v]) + xs ! i = sum_list xs + (v :: nat)"
  by (induction xs arbitrary: i) (auto split: nat.split)

lemma bodies_size_update:
  assumes "i < length (ex_bodies ex)"
  shows "bodies_size (ex\<lparr>ex_bodies := (ex_bodies ex)[i := v]\<rparr>) + (case ex_bodies ex ! i of None \<Rightarrow> 0 | Some r \<Rightarrow> logical_size (fst r)) =
    bodies_size ex + (case v of None \<Rightarrow> 0 | Some r \<Rightarrow> logical_size (fst r))"
  using sum_list_update_nat [of i "map (\<lambda>b. case b of None \<Rightarrow> 0 | Some r \<Rightarrow> logical_size (fst r)) (ex_bodies ex)"
    "case v of None \<Rightarrow> 0 | Some r \<Rightarrow> logical_size (fst r)"] assms
  by (simp add: bodies_size_def map_update)

lemma inline_leaf_or_node: "leaf_or_node rt \<Longrightarrow> leaf_or_node (fst (inline_rule rt ex))"
proof (cases rt)
  case (LeafRule l r)
  have "leaf_or_node (unwrap_or (inline_ref l b) (LeafRule l r))" for b
    by (auto simp: unwrap_or_def inline_ref_def leaf_or_node_def split: option.split RuleType.split)
  then show ?thesis using LeafRule
    by (auto simp: inline_leaf_def inline_whole_def leaf_or_node_def split: NewField.split prod.split)
qed (auto simp: leaf_or_node_def)

context rule_marker begin

lemma inline_ref_clean:
  assumes "table_ok defs ex" "bodies_clean P ex" "f \<in> {inline_whole, inline_entry}" "\<not> P (LeafRule l r)"
  shows "\<not> occurs P (fst (inline_leaf f l r ex))"
proof (cases "field_refs r")
  case Nil
  then have "inline_leaf f l r ex = (LeafRule l r, ex)" by (auto simp: inline_leaf_def field_refs_def split: NewField.splits)
  then show ?thesis using assms(4) by simp
next
  case (Cons n ns)
  then have r: "r = SingleAliasField n" by (auto simp: field_refs_def split: NewField.splits)
  obtain b ex' where t: "take_alias n ex = (b, ex')" by force
  show ?thesis
  proof (cases b)
    case None
    then show ?thesis using assms(3,4) t r
      by (auto simp: inline_leaf_def inline_whole_def inline_entry_def inline_ref_def unwrap_or_def)
  next
    case (Some p)
    then obtain idx where idx: "map_of (ex_by_name ex) n = Some idx" "ex_bodies ex ! idx = Some p"
      using t by (auto simp: take_alias_def Let_def split: option.splits Resolution.splits if_splits)
    then have "idx < length (ex_bodies ex)"
      using assms(1) spec [of "\<lambda>n. case map_of (ex_by_name ex) n of None \<Rightarrow> map_of defs n = None
        | Some idx \<Rightarrow> idx < length defs \<and> map_of defs n = Some (snd (defs ! idx))" n]
      by (simp add: table_ok_def names_ok_def)
    then have "Some p \<in> set (ex_bodies ex)" using idx(2) nth_mem by metis
    then have clean: "\<not> occurs P (fst p)" using assms(2) by (auto simp: bodies_clean_def)
    have "\<not> occurs P rt" if "inline_ref l (Some (fst p)) = Some rt" for rt
      using that clean leaf [OF assms(4)] leaf_node [OF assms(4)] by (cases "fst p") (auto simp: inline_ref_def)
    then show ?thesis using assms(3,4) t Some r clean
      by (cases p; cases "inline_ref l (Some (fst p))")
        (auto simp: inline_leaf_def inline_whole_def inline_entry_def unwrap_or_def split: prod.split)
  qed
qed

lemma inline_clean:
  "table_ok defs ex \<Longrightarrow> bodies_clean P ex \<Longrightarrow> \<not> occurs P rt \<Longrightarrow> \<not> occurs P (fst (inline_rule rt ex))"
  "table_ok defs ex \<Longrightarrow> bodies_clean P ex \<Longrightarrow> \<not> occurs_in P rules \<Longrightarrow> \<not> occurs_in P (fst (inline_list rules ex))"
  "table_ok defs ex \<Longrightarrow> bodies_clean P ex \<Longrightarrow> \<not> occurs_in P rules \<Longrightarrow> \<not> occurs_in P (fst (inline_each rules ex))"
  "table_ok defs ex \<Longrightarrow> bodies_clean P ex \<Longrightarrow> \<not> occurs_in P rules \<Longrightarrow> \<not> occurs_in P (fst (inline_entries rules ex))"
proof (induction rt ex and rules ex and rules ex and rules ex
    rule: inline_rule_inline_list_inline_each_inline_entries.induct)
  case (1 l r ex)
  then show ?case using inline_ref_clean [of defs ex inline_whole l r] by simp
next
  case (2 l rules ex)
  then show ?case using node [of l rules "fst (inline_list rules ex)"] by simp
next
  case (3 rules ex)
  then show ?case using clause [of rules "fst (inline_list rules ex)"] by simp
next
  case (4 n p rules ex)
  then show ?case using subtype [of n p rules "fst (inline_list rules ex)"] by simp
next
  case (6 rules ex)
  obtain found ex1 where has: "body_has_ref rules ex = (found, ex1)" by force
  have same: "same_table ex ex1" using has by (auto simp: body_has_ref_def same_table_def split: prod.splits)
  have "cache_ok is_single_alias_ref (ex_clean ex1)"
    using any_correct(2) [of is_single_alias_ref "ex_clean ex" rules] has 6(3)
    by (auto simp: body_has_ref_def table_ok_def split: prod.splits)
  then have ok: "table_ok defs ex1" using same_table_ok [OF 6(3) same] by simp
  have clean: "bodies_clean P ex1" using 6(4) same by (simp add: bodies_clean_def same_table_def)
  show ?case
    using 6(1) [OF has [symmetric] refl _ _ ok clean 6(5)] 6(2) [OF has [symmetric] refl _ _ ok clean 6(5)] 6(5) has
    by (cases found) (auto simp: inline_list.simps)
next
  case (8 rt opts rules ex)
  obtain rt' ex1 where rt: "inline_rule rt ex = (rt', ex1)" by force
  have ok: "table_ok defs ex1" and clean: "bodies_clean P ex1"
    using inline_ok(1) [OF 8(3), of rt] 8(4) rt by (simp_all add: inlined_ok_def same_table_def bodies_clean_def)
  show ?case using 8(1) [OF 8(3,4)] 8(2) [OF rt [symmetric] refl ok clean] 8(5) rt by (cases "inline_each rules ex1") simp
next
  case (10 rt opts rules ex)
  obtain rt' ex1 where rt: "(case rt of LeafRule left right \<Rightarrow> inline_leaf inline_entry left right ex | _ \<Rightarrow> inline_rule rt ex) = (rt', ex1)"
    by force
  have "inlined_ok defs ex ex1 (logical_size rt) (logical_size rt') (unfolds_to defs rt rt')"
  proof (cases rt)
    case (LeafRule l r)
    then show ?thesis using inline_leaf_ok [OF 10(6), of inline_entry l r rt' ex1] rt by simp
  qed (use inline_ok(1) [OF 10(6), of rt] rt in \<open>simp_all only: RuleType.case fst_conv snd_conv\<close>)
  then have ok: "table_ok defs ex1" and clean: "bodies_clean P ex1"
    using 10(7) by (simp_all add: inlined_ok_def same_table_def bodies_clean_def)
  have nr: "\<not> occurs P rt" using 10(8) by simp
  have "\<not> occurs P rt'"
  proof (cases rt)
    case (LeafRule l r)
    then show ?thesis using inline_ref_clean [OF 10(6,7), of inline_entry l r] 10(8) rt by simp
  next
    case (NodeRule l body)
    then show ?thesis using 10(1) [OF NodeRule 10(6,7) nr] rt by (simp only: RuleType.case fst_conv not_False_eq_True)
  next
    case (LeafValueRule r)
    then show ?thesis using 10(2) [OF LeafValueRule 10(6,7) nr] rt by (simp only: RuleType.case fst_conv not_False_eq_True)
  next
    case (ValueClauseRule body)
    then show ?thesis using 10(3) [OF ValueClauseRule 10(6,7) nr] rt by (simp only: RuleType.case fst_conv not_False_eq_True)
  next
    case (SubtypeRule n p body)
    then show ?thesis using 10(4) [OF SubtypeRule 10(6,7) nr] rt by (simp only: RuleType.case fst_conv not_False_eq_True)
  qed
  then show ?case using 10(5) [OF rt [symmetric] refl ok clean] 10(8) rt by (cases "inline_entries rules ex1") simp
qed simp_all

lemma finish_alias_ok:
  assumes "ready defs ex" "bodies_clean P ex" "idx < length defs" "ex_state ex ! idx = InProgress"
  shows "\<exists>ex'. finish_alias idx ex = Some ex' \<and> ready defs ex' \<and> bodies_clean P ex' \<and>
    ex_state ex' = (ex_state ex)[idx := Done] \<and> ex_limit ex' = ex_limit ex \<and>
    bodies_size ex' + ex_remaining ex' \<le> bodies_size ex + ex_remaining ex"
proof -
  obtain rt opts where def: "snd (defs ! idx) = (rt, opts)" by force
  have ok: "table_ok defs ex" and body: "ex_bodies ex ! idx = Some (rt, opts)"
    using assms def by (auto simp: ready_def)
  have len: "length (ex_bodies ex) = length defs" "length (ex_state ex) = length defs" "length (ex_size ex) = length defs"
    using ok by (simp_all add: table_ok_def)
  let ?ex0 = "ex\<lparr>ex_bodies := (ex_bodies ex)[idx := None]\<rparr>"
  obtain rt' ex1 where rt': "inline_rule rt ?ex0 = (rt', ex1)" by force
  let ?ex2 = "ex1\<lparr>ex_size := (ex_size ex1)[idx := logical_size rt'],
    ex_bodies := (ex_bodies ex1)[idx := Some (rt', opts)], ex_state := (ex_state ex1)[idx := Done]\<rparr>"
  have ok0: "table_ok defs ?ex0"
    unfolding table_ok_def
  proof (intro conjI allI impI)
    fix i assume i: "i < length defs" "ex_state ?ex0 ! i = Done"
    then have "resolved_ok defs ex i" "i \<noteq> idx" using ok assms(4) by (auto simp: table_ok_def)
    then show "resolved_ok defs ?ex0 i" by (simp add: resolved_ok_def)
  qed (use ok in \<open>simp_all add: table_ok_def\<close>)
  have clean0: "bodies_clean P ?ex0"
    using assms(2) set_update_subset_insert [of "ex_bodies ex" idx None] by (auto simp: bodies_clean_def)
  have clean_rt: "\<not> occurs P rt"
  proof -
    have "Some (rt, opts) \<in> set (ex_bodies ex)" using body assms(3) len(1) nth_mem by metis
    then show ?thesis using assms(2) by (auto simp: bodies_clean_def)
  qed
  have inl: "inlined_ok defs ?ex0 ex1 (logical_size rt) (logical_size rt') (unfolds_to defs rt rt')"
    using inline_ok(1) [OF ok0, of rt] rt' by simp
  then have same: "same_table ?ex0 ex1" and ok1: "table_ok defs ex1"
    and rem: "logical_size rt' + ex_remaining ex1 \<le> logical_size rt + ex_remaining ex"
    and unf: "ex_refused ex1 = [] \<and> plain_aliases defs \<longrightarrow> unfolds_to defs rt rt'" by (simp_all add: inlined_ok_def)
  have frame: "ex_by_name ex1 = ex_by_name ex" "ex_bodies ex1 = (ex_bodies ex)[idx := None]" "ex_state ex1 = ex_state ex"
    "ex_size ex1 = ex_size ex" "ex_limit ex1 = ex_limit ex" using same by (simp_all add: same_table_def)
  have plain: "leaf_or_node rt'" if "plain_aliases defs"
  proof -
    have "defs ! idx \<in> set defs" using assms(3) by simp
    then have "leaf_or_node rt" using that def by (auto simp: plain_aliases_def list_all_iff)
    then show ?thesis using inline_leaf_or_node [of rt ?ex0] rt' by simp
  qed
  have "finish_alias idx ex = Some ?ex2" using body rt' by (simp add: finish_alias_def)
  moreover have "table_ok defs ?ex2"
    unfolding table_ok_def
  proof (intro conjI allI impI)
    fix i assume i: "i < length defs" "ex_state ?ex2 ! i = Done"
    show "resolved_ok defs ?ex2 i"
    proof (cases "i = idx")
      case True
      then show ?thesis using i(1) len frame unf plain def by (simp add: resolved_ok_def)
    next
      case False
      then have "resolved_ok defs ex1 i" using ok1 i by (auto simp: table_ok_def)
      then show ?thesis using False by (simp add: resolved_ok_def)
    qed
  qed (use ok1 in \<open>simp_all add: table_ok_def\<close>)
  moreover have "ex_bodies ?ex2 ! i = Some (snd (defs ! i))" if "i < length defs" "ex_state ?ex2 ! i \<noteq> Done" for i
  proof -
    have "i \<noteq> idx" using that len frame by auto
    then show ?thesis using that assms(1) frame by (simp add: ready_def)
  qed
  moreover have "bodies_clean P ?ex2"
    using clean0 inline_clean(1) [OF ok0 clean0 clean_rt] rt' frame(2)
      set_update_subset_insert [of "ex_bodies ?ex0" idx "Some (rt', opts)"] by (auto simp: bodies_clean_def)
  moreover have "bodies_size ?ex2 + ex_remaining ?ex2 \<le> bodies_size ex + ex_remaining ex"
  proof -
    have "bodies_size ?ex2 = bodies_size (ex\<lparr>ex_bodies := (ex_bodies ex)[idx := Some (rt', opts)]\<rparr>)"
      by (simp add: bodies_size_def frame(2))
    then have "bodies_size ?ex2 + logical_size rt = bodies_size ex + logical_size rt'"
      using bodies_size_update [of idx ex "Some (rt', opts)"] assms(3) len(1) body by simp
    then show ?thesis using rem by simp
  qed
  ultimately show ?thesis using frame by (auto simp: ready_def)
qed

lemma resolve_ok:
  assumes "ready defs ex" "bodies_clean P ex" "idx < length defs"
  shows "\<exists>ex'. resolve levels idx ex = Some ex' \<and> ready defs ex' \<and> bodies_clean P ex' \<and> progress ex ex' \<and>
    (0 < levels \<longrightarrow> ex_state ex' ! idx \<noteq> Pending)"
  using assms
proof (induction levels arbitrary: idx ex)
  case (Suc levels)
  show ?case
  proof (cases "ex_state ex ! idx = Pending")
    case True
    obtain rt opts where def: "snd (defs ! idx) = (rt, opts)" by force
    have body: "ex_bodies ex ! idx = Some (rt, opts)" using Suc.prems True def by (simp add: ready_def)
    have len: "length (ex_state ex) = length defs" using Suc.prems(1) by (simp add: ready_def table_ok_def)
    let ?ex1 = "ex\<lparr>ex_state := (ex_state ex)[idx := InProgress]\<rparr>"
    let ?f = "\<lambda>dep ex. case map_of (ex_by_name ex) dep of None \<Rightarrow> Some ex | Some dep_idx \<Rightarrow> resolve levels dep_idx ex"
    have "table_ok defs ?ex1"
      unfolding table_ok_def
    proof (intro conjI allI impI)
      fix i assume i: "i < length defs" "ex_state ?ex1 ! i = Done"
      then have "ex_state ex ! i = Done" using len Suc.prems(3) by (cases "i = idx") auto
      then have "resolved_ok defs ex i" using Suc.prems(1) i(1) by (auto simp: ready_def table_ok_def)
      then show "resolved_ok defs ?ex1 i" by (simp add: resolved_ok_def)
    qed (use Suc.prems(1) in \<open>simp_all add: ready_def table_ok_def\<close>)
    then have r1: "ready defs ?ex1" "bodies_clean P ?ex1"
      using Suc.prems True len by (auto simp: ready_def bodies_clean_def nth_list_update)
    have loop: "\<exists>ex2. fold_opt ?f deps e = Some ex2 \<and> ready defs ex2 \<and> bodies_clean P ex2 \<and> progress e ex2"
      if "ready defs e" "bodies_clean P e" for deps e
      using that
    proof (induction deps arbitrary: e)
      case (Cons d ds)
      have "\<exists>e1. ?f d e = Some e1 \<and> ready defs e1 \<and> bodies_clean P e1 \<and> progress e e1"
      proof (cases "map_of (ex_by_name e) d")
        case (Some j)
        then have "j < length defs" using Cons.prems(1)
            spec [of "\<lambda>n. case map_of (ex_by_name e) n of None \<Rightarrow> map_of defs n = None
              | Some idx \<Rightarrow> idx < length defs \<and> map_of defs n = Some (snd (defs ! idx))" d]
          by (simp add: ready_def table_ok_def names_ok_def)
        from Suc.IH [OF Cons.prems this] show ?thesis using Some by auto
      qed (use Cons.prems in simp)
      then obtain e1 where e1: "?f d e = Some e1" "ready defs e1" "bodies_clean P e1" "progress e e1" by blast
      from Cons.IH [OF e1(2,3)] obtain e2 where "fold_opt ?f ds e1 = Some e2" "ready defs e2" "bodies_clean P e2" "progress e1 e2" by blast
      then show ?case using e1(1) progress_trans [OF e1(4)] by auto
    qed simp
    from loop [OF r1, of "collect_refs rt"] obtain ex2
      where ex2: "fold_opt ?f (collect_refs rt) ?ex1 = Some ex2" "ready defs ex2" "bodies_clean P ex2" "progress ?ex1 ex2" by blast
    have "ex_state ex2 ! idx = InProgress" using ex2(4) len Suc.prems(3) by (simp add: progress_def)
    from finish_alias_ok [OF ex2(2,3) Suc.prems(3) this] obtain ex3
      where ex3: "finish_alias idx ex2 = Some ex3" "ready defs ex3" "bodies_clean P ex3" "ex_state ex3 = (ex_state ex2)[idx := Done]"
        "ex_limit ex3 = ex_limit ex2" "bodies_size ex3 + ex_remaining ex3 \<le> bodies_size ex2 + ex_remaining ex2" by blast
    have "resolve (Suc levels) idx ex = Some ex3" using True body ex2(1) ex3(1) by simp
    moreover have "progress ex ex3"
      using ex2(4) ex3(4-6) True len Suc.prems(3) by (auto simp: progress_def nth_list_update bodies_size_def)
    moreover have "ex_state ex3 ! idx \<noteq> Pending"
      using ex3(4) ex2(4) len Suc.prems(3) by (simp add: progress_def)
    ultimately show ?thesis using ex3(2,3) by blast
  next
    case False
    then show ?thesis using Suc.prems by simp
  qed
qed simp

end

end
