(* ===== verification/Post_Process_Properties.thy ===== *)
theory Post_Process_Properties
  imports Alias_Expansion
begin

text \<open>
  What post-processing promises of a rule set: it returns, the node budget bounds it, aliases are expanded
  completely or reported, and no marker that a pass rewrites is left below a declared rule.
\<close>

section \<open>Expansion of a rule set\<close>

lemma fold_or_insert:
  "map_of (fold (\<lambda>(idx, name, r). or_insert name idx) (enumerate k defs) m) n =
     (case map_of m n of Some i \<Rightarrow> Some i | None \<Rightarrow> map_of (map (\<lambda>(idx, name, r). (name, idx)) (enumerate k defs)) n)"
proof (induction defs arbitrary: k m)
  case (Cons d ds)
  obtain name r where d: "d = (name, r)" by force
  have "map_of (or_insert name k m) n = (case map_of m n of Some i \<Rightarrow> Some i | None \<Rightarrow> if n = name then Some k else None)"
    by (auto simp: or_insert_def map_of_append map_add_def split: option.splits)
  then show ?case by (simp add: Cons d split: option.splits)
qed (simp split: option.splits)

lemma first_index:
  "case map_of (map (\<lambda>(idx, name, r). (name, idx)) (enumerate k defs)) n of
     None \<Rightarrow> map_of defs n = None
   | Some i \<Rightarrow> k \<le> i \<and> i - k < length defs \<and> map_of defs n = Some (snd (defs ! (i - k)))"
proof (induction defs arbitrary: k)
  case (Cons d ds)
  obtain name r where d: "d = (name, r)" by force
  show ?case
  proof (cases "n = name")
    case False
    have "case map_of (map (\<lambda>(idx, name, r). (name, idx)) (enumerate (Suc k) ds)) n of
       None \<Rightarrow> map_of ds n = None
     | Some i \<Rightarrow> Suc k \<le> i \<and> i - Suc k < length ds \<and> map_of ds n = Some (snd (ds ! (i - Suc k)))" by (rule Cons)
    then show ?thesis using False d
      by (auto split: option.splits simp: nth_Cons' Suc_diff_le diff_Suc split: nat.splits)
  qed (simp add: d)
qed simp

lemma expander_new_names: "names_ok defs (ex_by_name (expander_new defs m))"
  unfolding names_ok_def
proof
  fix n
  show "case map_of (ex_by_name (expander_new defs m)) n of
      None \<Rightarrow> map_of defs n = None
    | Some idx \<Rightarrow> idx < length defs \<and> map_of defs n = Some (snd (defs ! idx))"
    using first_index [where k = 0 and defs = defs and n = n] by (simp add: expander_new_def fold_or_insert split: option.splits)
qed

lemma expander_new_ready: "ready defs (expander_new defs m)"
  using expander_new_names [of defs m]
  by (auto simp: ready_def table_ok_def) (auto simp: expander_new_def split: prod.split)

lemma body_size_append [simp]: "body_size (xs @ ys) = body_size xs + body_size ys"
  by (induction xs) auto

lemma body_size_sum: "body_size rules = sum_list (map (\<lambda>r. logical_size (fst r)) rules)"
  by (induction rules) auto

lemma expander_new_size: "bodies_size (expander_new defs m) = body_size (map snd defs)"
  by (simp add: bodies_size_def expander_new_def body_size_sum comp_def split_beta)

lemma into_errors_Nil: "into_errors ex = [] \<longleftrightarrow> ex_refused ex = []"
  using set_sort [of "\<lambda>e. (aee_name e, aee_message e)"] by (auto simp: into_errors_def simp flip: set_empty)

lemma inline_new_rule_eq: "inline_rule rt ex = (rt', ex1) \<Longrightarrow> inline_new_rule (rt, opts) ex = ((rt', opts), ex1)"
  by (simp add: inline_new_rule_def)

lemma inline_all_ok:
  assumes "table_ok defs ex"
  shows "inlined_ok defs ex (snd (map_state inline_new_rule rules ex)) (body_size rules)
    (body_size (fst (map_state inline_new_rule rules ex)))
    (list_all2 (\<lambda>r r'. unfolds_to defs (fst r) (fst r') \<and> snd r' = snd r) rules (fst (map_state inline_new_rule rules ex)))"
  using assms
proof (induction rules arbitrary: ex)
  case (Cons r rules)
  obtain rt opts where r: "r = (rt, opts)" by force
  obtain rt' ex1 where rt: "inline_rule rt ex = (rt', ex1)" by force
  have 1: "inlined_ok defs ex ex1 (logical_size rt) (logical_size rt') (unfolds_to defs rt rt')"
    using inline_ok(1) [OF Cons.prems, of rt] rt by simp
  then have 2: "inlined_ok defs ex1 (snd (map_state inline_new_rule rules ex1)) (body_size rules)
      (body_size (fst (map_state inline_new_rule rules ex1)))
      (list_all2 (\<lambda>r r'. unfolds_to defs (fst r) (fst r') \<and> snd r' = snd r) rules (fst (map_state inline_new_rule rules ex1)))"
    using Cons.IH [of ex1] by (simp add: inlined_ok_def)
  have "inlined_ok defs ex (snd (map_state inline_new_rule rules ex1)) (logical_size rt + body_size rules)
      (logical_size rt' + body_size (fst (map_state inline_new_rule rules ex1)))
      (list_all2 (\<lambda>r r'. unfolds_to defs (fst r) (fst r') \<and> snd r' = snd r) (r # rules)
        ((rt', opts) # fst (map_state inline_new_rule rules ex1)))"
    by (rule inlined_ok_step [OF 1 2]) (simp add: r)
  then show ?case by (cases "map_state inline_new_rule rules ex1") (simp add: r inline_new_rule_eq [OF rt])
qed (simp add: inlined_ok_refl)

lemma unknown_refs_subst:
  "\<forall>n \<in> set (collect_refs rt). \<sigma> n = None \<Longrightarrow> subst_rule \<sigma> rt = rt"
  "\<forall>n \<in> set (collect_refs_in rules). \<sigma> n = None \<Longrightarrow> subst_rules \<sigma> rules = rules"
  by (induction \<sigma> rt and \<sigma> rules rule: subst_rule_subst_rules.induct)
    (auto simp: field_refs_def inline_ref_def unwrap_or_def split: NewField.splits)

lemma unfold_unknown: "map_of defs n = None \<Longrightarrow> unfold_alias defs k n = None"
  by (cases k) simp_all

lemma unfolds_twice:
  assumes "unfolds_to defs a b" "unfolds_to defs b c"
  shows "unfolds_to defs a c"
proof -
  have "subst_rule (unfold_alias defs k) b = b" for k
    using assms(1) unfold_unknown by (intro unknown_refs_subst(1)) (auto simp: unfolds_to_def)
  then have "c = b" using assms(2) by (auto simp: unfolds_to_def)
  then show ?thesis using assms(1) by simp
qed

definition total_size :: "RuleSet \<Rightarrow> nat" where
  "total_size rs = body_size (all_rules rs)"

context rule_marker begin

lemma resolve_each:
  assumes "ready defs e" "bodies_clean P e" "\<forall>i < length defs. ex_state e ! i \<noteq> InProgress" "\<forall>i \<in> set idxs. i < length defs"
    "0 < levels"
  shows "\<exists>e'. fold_opt (resolve levels) idxs e = Some e' \<and> ready defs e' \<and> bodies_clean P e' \<and> progress e e' \<and>
    (\<forall>i \<in> set idxs. ex_state e' ! i = Done)"
  using assms(1-4)
proof (induction idxs arbitrary: e)
  case (Cons i idxs)
  obtain e1 where e1: "resolve levels i e = Some e1" "ready defs e1" "bodies_clean P e1" "progress e e1" "ex_state e1 ! i \<noteq> Pending"
    using resolve_ok [OF Cons.prems(1,2), of i levels] Cons.prems(4) assms(5) by auto
  have len: "length (ex_state e) = length defs" "length (ex_state e1) = length defs"
    using Cons.prems(1) e1(2) by (simp_all add: ready_def table_ok_def)
  have none: "\<forall>i < length defs. ex_state e1 ! i \<noteq> InProgress" using e1(4) Cons.prems(3) len by (simp add: progress_def)
  then have finished: "ex_state e1 ! i = Done" using e1(5) Cons.prems(4) by (cases "ex_state e1 ! i") auto
  have "\<forall>i \<in> set idxs. i < length defs" using Cons.prems(4) by simp
  from Cons.IH [OF e1(2,3) none this] obtain e2 where e2: "fold_opt (resolve levels) idxs e1 = Some e2" "ready defs e2"
    "bodies_clean P e2" "progress e1 e2" "\<forall>i \<in> set idxs. ex_state e2 ! i = Done" by blast
  have "ex_state e2 ! i = Done" using e2(4) finished len Cons.prems(4) by (simp add: progress_def)
  then show ?case using e1(1) e2 progress_trans [OF e1(4) e2(4)] by auto
qed simp

lemma resolve_all_ok:
  assumes "\<forall>d \<in> set defs. \<not> occurs P (fst (snd d))"
  shows "\<exists>ex. resolve_all defs m = Some ex \<and> ready defs ex \<and> bodies_clean P ex \<and> (\<forall>i < length defs. ex_state ex ! i = Done) \<and>
    bodies_size ex + ex_remaining ex \<le> body_size (map snd defs) + m"
proof -
  have "bodies_clean P (expander_new defs m)" using assms by (auto simp: bodies_clean_def expander_new_def)
  moreover have "\<forall>i < length defs. ex_state (expander_new defs m) ! i \<noteq> InProgress" by (simp add: expander_new_def)
  moreover have "0 < MAX_ALIAS_DEPTH" by (simp add: MAX_ALIAS_DEPTH_def)
  ultimately obtain ex where ex: "fold_opt (resolve MAX_ALIAS_DEPTH) [0..<length defs] (expander_new defs m) = Some ex"
    "ready defs ex" "bodies_clean P ex" "progress (expander_new defs m) ex" "\<forall>i \<in> set [0..<length defs]. ex_state ex ! i = Done"
    using resolve_each [where e = "expander_new defs m" and defs = defs and idxs = "[0..<length defs]" and levels = MAX_ALIAS_DEPTH]
      expander_new_ready by auto
  have "ex_remaining (expander_new defs m) = m" by (simp add: expander_new_def)
  then show ?thesis using ex by (auto simp: resolve_all_def progress_def expander_new_size)
qed

lemma inline_all_clean:
  "table_ok defs ex \<Longrightarrow> bodies_clean P ex \<Longrightarrow> \<not> occurs_in P rules \<Longrightarrow> \<not> occurs_in P (fst (map_state inline_new_rule rules ex))"
proof (induction rules arbitrary: ex)
  case (Cons r rules)
  obtain rt opts where r: "r = (rt, opts)" by force
  obtain rt' ex1 where rt: "inline_rule rt ex = (rt', ex1)" by force
  have "table_ok defs ex1" "bodies_clean P ex1"
    using inline_ok(1) [OF Cons.prems(1), of rt] rt Cons.prems(2) by (simp_all add: inlined_ok_def same_table_def bodies_clean_def)
  from Cons.IH [OF this] show ?case
    using inline_clean(1) [OF Cons.prems(1,2), of rt] Cons.prems(3) rt
    by (cases "map_state inline_new_rule rules ex1") (simp add: r inline_new_rule_eq [OF rt])
qed simp

lemma replace_ok:
  assumes "\<not> occurs_in P (all_rules rs)"
  shows "\<exists>rs' errs. replace_single_aliases rs m = Some (rs', errs) \<and> \<not> occurs_in P (all_rules rs') \<and>
    total_size rs' \<le> total_size rs + m \<and>
    (errs = [] \<and> plain_aliases (rule_single_aliases rs) \<longrightarrow>
       list_all2 (\<lambda>r r'. unfolds_to (rule_single_aliases rs) (fst r) (fst r') \<and> snd r' = snd r) (all_rules rs) (all_rules rs'))"
proof -
  let ?defs = "rule_single_aliases rs"
  let ?U = "\<lambda>r r'. unfolds_to ?defs (fst r) (fst r') \<and> snd r' = snd r"
  define front where "front = map root_rule (rule_root_rules rs) @ map snd (rule_aliases rs)"
  have all: "all_rules rs = front @ map snd ?defs" by (simp add: all_rules_def front_def)
  have "\<forall>d \<in> set ?defs. \<not> occurs P (fst (snd d))" using assms by (auto simp: all_rules_def occurs_in_iff)
  from resolve_all_ok [OF this, of m] obtain ex where ex: "resolve_all ?defs m = Some ex" "ready ?defs ex" "bodies_clean P ex"
    "\<forall>i < length ?defs. ex_state ex ! i = Done" "bodies_size ex + ex_remaining ex \<le> body_size (map snd ?defs) + m" by blast
  have tab: "table_ok ?defs ex" using ex(2) by (simp add: ready_def)
  have res: "resolved_ok ?defs ex i" if "i < length ?defs" for i using tab ex(4) that by (simp add: table_ok_def)
  let ?res = "map snd (resolved_aliases ?defs ex)"
  have len: "length ?res = length ?defs" "length (ex_bodies ex) = length ?defs"
    using tab by (simp_all add: resolved_aliases_def table_ok_def)
  have nth: "ex_bodies ex ! i = Some (?res ! i)" if "i < length ?defs" for i
    using res [OF that] that by (auto simp: resolved_ok_def resolved_aliases_def unwrap_or_def nth_enumerate_eq split_beta)
  have bodies: "ex_bodies ex = map Some ?res"
    by (rule nth_equalityI) (use len nth in simp_all)
  have size: "body_size ?res = bodies_size ex" by (simp add: bodies_size_def bodies body_size_sum comp_def)
  have clean: "\<not> occurs_in P ?res"
    using ex(3) unfolding bodies_clean_def bodies by (auto simp: occurs_in_iff)
  let ?rs1 = "rs\<lparr>rule_single_aliases := resolved_aliases ?defs ex\<rparr>"
  have all1: "all_rules ?rs1 = front @ ?res" by (simp add: all_rules_def front_def)
  obtain rs' ex' where loop: "for_each_root_rule_mut inline_new_rule ?rs1 ex = (rs', ex')" by force
  have out: "map_state inline_new_rule (front @ ?res) ex = (all_rules rs', ex')"
    using for_each_all_rules [of inline_new_rule ?rs1 ex] loop all1 by simp
  have inl: "inlined_ok ?defs ex ex' (body_size (front @ ?res)) (body_size (all_rules rs')) (list_all2 ?U (front @ ?res) (all_rules rs'))"
    using inline_all_ok [OF tab, of "front @ ?res"] out by simp
  have "\<not> occurs_in P (all_rules rs')"
    using inline_all_clean [OF tab ex(3), of "front @ ?res"] clean assms out by (simp add: all)
  moreover have "total_size rs' \<le> total_size rs + m"
    using inl ex(5) size by (simp add: inlined_ok_def total_size_def all)
  moreover have "list_all2 ?U (all_rules rs) (all_rules rs')" if "into_errors ex' = []" "plain_aliases ?defs"
  proof -
    have "ex_refused ex' = []" using that(1) by (simp add: into_errors_Nil)
    then have refs: "ex_refused ex = []" and U: "list_all2 ?U (front @ ?res) (all_rules rs')"
      using inl that(2) by (simp_all add: inlined_ok_def same_table_def)
    have defs: "list_all2 ?U (map snd ?defs) ?res"
    proof (rule list_all2_all_nthI)
      fix i assume "i < length (map snd ?defs)"
      then have i: "i < length ?defs" by simp
      show "?U (map snd ?defs ! i) (?res ! i)"
        using res [OF i] nth [OF i] i refs that(2) by (auto simp: resolved_ok_def)
    qed (use len in simp)
    obtain a b where ab: "all_rules rs' = a @ b" "list_all2 ?U front a" "list_all2 ?U ?res b"
      using U by (auto simp: list_all2_append1)
    have "list_all2 ?U (map snd ?defs) b"
      by (rule list_all2_trans [OF _ defs ab(3)]) (auto intro: unfolds_twice)
    then show ?thesis using ab(1,2) by (simp add: all list_all2_appendI)
  qed
  moreover have "replace_single_aliases rs m = Some (rs', into_errors ex')"
    by (simp add: replace_single_aliases_def ex(1) loop Let_def)
  ultimately show ?thesis by blast
qed

end



text \<open>The facts that hold of any rule set need no marker.\<close>

interpretation unmarked: rule_marker "\<lambda>_. False"
  by unfold_locales simp_all

lemma occurs_never:
  "\<forall>x. \<not> P x \<Longrightarrow> \<not> occurs P rt"
  "\<forall>x. \<not> P x \<Longrightarrow> \<not> occurs_in P rules"
  by (induction P rt and P rules rule: occurs_occurs_in.induct) auto

lemma occurs_False: "\<not> occurs_in (\<lambda>_. False) rules"
  by (rule occurs_never(2)) simp

text \<open>C21. Expansion of single aliases always returns, without a panic, and its node budget bounds the result:
whatever aliases are declared (duplicates, cycles, fans and chains of any length), the rules of the rule set,
counted as the trees they describe, grow by at most the budget.\<close>

theorem expansion_within_budget:
  "\<exists>rs' errors. replace_single_aliases rs max_nodes = Some (rs', errors) \<and> total_size rs' \<le> total_size rs + max_nodes"
  using unmarked.replace_ok [OF occurs_False, of rs max_nodes] by blast

text \<open>C20. Single aliases are expanded completely or reported: when the expansion reports nothing and every
alias is a leaf or a clause (as the converter makes them), each rule of the result is the unfolding of the
original, every reference replaced by the first definition of its name with its own references unfolded,
as deep as they go; the references that remain name no definition, and the options of each rule are kept.\<close>

theorem aliases_fully_expanded:
  assumes "replace_single_aliases rs max_nodes = Some (rs', [])" "plain_aliases (rule_single_aliases rs)"
  shows "list_all2 (\<lambda>r r'. unfolds_to (rule_single_aliases rs) (fst r) (fst r') \<and> snd r' = snd r) (all_rules rs) (all_rules rs')"
proof -
  obtain rs1 errs where "replace_single_aliases rs max_nodes = Some (rs1, errs)"
    "errs = [] \<and> plain_aliases (rule_single_aliases rs) \<longrightarrow>
       list_all2 (\<lambda>r r'. unfolds_to (rule_single_aliases rs) (fst r) (fst r') \<and> snd r' = snd r) (all_rules rs) (all_rules rs1)"
    using unmarked.replace_ok [OF occurs_False, of rs max_nodes] by blast
  then show ?thesis using assms by simp
qed

text \<open>Two aliases, one inside the other, and a rule that uses both.\<close>

definition ex_alias_rules :: RuleSet where
  "ex_alias_rules = ruleset_new\<lparr>
     rule_single_aliases :=
       [(''outer'', (NodeRule (SpecificField ''outer'') [(LeafRule (SpecificField ''y'') (SingleAliasField ''inner''), options_default)], options_default)),
        (''inner'', (LeafRule (SpecificField ''inner'') ScalarField, options_default))],
     rule_root_rules := [TypeRule ''t'' (NodeRule (SpecificField ''t'') [(LeafRule (SpecificField ''x'') (SingleAliasField ''outer''), options_default)], options_default)]\<rparr>"

lemma ex_alias_run:
  "map_option (\<lambda>(rs', errors). (map fst (all_rules rs'), errors)) (replace_single_aliases ex_alias_rules 10) =
   Some ([NodeRule (SpecificField ''t'')
      [(NodeRule (SpecificField ''x'') [(LeafRule (SpecificField ''y'') ScalarField, options_default)], options_default)],
      NodeRule (SpecificField ''outer'') [(LeafRule (SpecificField ''y'') ScalarField, options_default)],
      LeafRule (SpecificField ''inner'') ScalarField], [])"
  by code_simp

lemma aliases_fully_expanded_witness:
  "\<exists>rs'. replace_single_aliases ex_alias_rules 10 = Some (rs', []) \<and>
    unfolds_to (rule_single_aliases ex_alias_rules)
      (NodeRule (SpecificField ''t'') [(LeafRule (SpecificField ''x'') (SingleAliasField ''outer''), options_default)])
      (NodeRule (SpecificField ''t'')
        [(NodeRule (SpecificField ''x'') [(LeafRule (SpecificField ''y'') ScalarField, options_default)], options_default)])"
proof -
  obtain rs' where rs': "replace_single_aliases ex_alias_rules 10 = Some (rs', [])"
    "map fst (all_rules rs') = [NodeRule (SpecificField ''t'')
      [(NodeRule (SpecificField ''x'') [(LeafRule (SpecificField ''y'') ScalarField, options_default)], options_default)],
      NodeRule (SpecificField ''outer'') [(LeafRule (SpecificField ''y'') ScalarField, options_default)],
      LeafRule (SpecificField ''inner'') ScalarField]"
    using ex_alias_run by auto
  have plain: "plain_aliases (rule_single_aliases ex_alias_rules)"
    by (simp add: ex_alias_rules_def plain_aliases_def leaf_or_node_def)
  obtain r rest where rest: "all_rules rs' = r # rest" "fst r = NodeRule (SpecificField ''t'')
      [(NodeRule (SpecificField ''x'') [(LeafRule (SpecificField ''y'') ScalarField, options_default)], options_default)]"
    using rs'(2) by auto
  have first: "hd (all_rules ex_alias_rules) = (NodeRule (SpecificField ''t'')
      [(LeafRule (SpecificField ''x'') (SingleAliasField ''outer''), options_default)], options_default)"
    by (simp add: all_rules_def root_rule_def ex_alias_rules_def ruleset_new_def)
  have "list_all2 (\<lambda>r r'. unfolds_to (rule_single_aliases ex_alias_rules) (fst r) (fst r') \<and> snd r' = snd r)
      (all_rules ex_alias_rules) (r # rest)"
    using aliases_fully_expanded [OF rs'(1) plain] unfolding rest(1) .
  then have "unfolds_to (rule_single_aliases ex_alias_rules) (fst (hd (all_rules ex_alias_rules))) (fst r)"
    by (cases "all_rules ex_alias_rules") auto
  then show ?thesis unfolding first rest(2) fst_conv using rs'(1) by blast
qed

section \<open>The rules after all passes\<close>



lemma body_of_clean: "\<not> occurs P rt \<Longrightarrow> body_of rt = Some rules \<Longrightarrow> \<not> occurs_in P rules"
  by (cases rt) (auto simp: body_of_def)



end
