(* ===== verification/Loader_Properties.thy ===== *)
theory Loader_Properties
  imports Ruleset_Loader Rule_Set_Properties Post_Process_Properties Converter_Totality
begin

text \<open>
  What loading a directory promises: which files the walk takes, that loading returns, and which references it
  reports.
\<close>

section \<open>The directory walk\<close>

text \<open>The files a walk could take: the directories in byte order of the names, depth first.\<close>

definition entry_paths :: "rstr \<Rightarrow> rstr \<times> FileType \<times> (rstr \<Rightarrow> rstr list) \<Rightarrow> rstr list" where
  "entry_paths dir e =
     (case e of (name, ft, below) \<Rightarrow>
        (let path = dir @ ''/'' @ name
         in case ft of TypeDir \<Rightarrow> below path | TypeFile \<Rightarrow> if is_cwt_name name then [path] else [] | _ \<Rightarrow> []))"

primrec cwt_paths :: "DirListing \<Rightarrow> rstr \<Rightarrow> rstr list" where
  "cwt_paths (ReadError error) = (\<lambda>dir. [])"
| "cwt_paths (Listing errors found) = (\<lambda>dir.
     concat (map (entry_paths dir) (sort_key fst (List.map_filter typed_entry (map (map_prod id (map_prod id cwt_paths)) found)))))"

abbreviation kid_paths :: "rstr \<Rightarrow> (rstr \<times> FileType \<times> DirListing) list \<Rightarrow> rstr list" where
  "kid_paths dir kids \<equiv> concat (map (entry_paths dir) (map (map_prod id (map_prod id cwt_paths)) kids))"

lemma visit_kids_takes:
  assumes "\<And>name t l d n. (name, t, l) \<in> set kids \<Longrightarrow>
    fst (fst (collect_cwt_files l d n)) = take n (cwt_paths l d) \<and> snd (collect_cwt_files l d n) = n - length (cwt_paths l d)"
  shows "fst (fst (visit_kids dir (map (map_prod id (map_prod id collect_cwt_files)) kids) n)) = take n (kid_paths dir kids) \<and>
    snd (visit_kids dir (map (map_prod id (map_prod id collect_cwt_files)) kids) n) = n - length (kid_paths dir kids)"
  using assms
proof (induction kids arbitrary: n)
  case (Cons kid kids)
  obtain name t l where kid: "kid = (name, t, l)" by (cases kid) auto
  define W where "W = map (map_prod id (map_prod id collect_cwt_files)) kids"
  define K where "K = kid_paths dir kids"
  let ?p = "dir @ ''/'' @ name"
  obtain out errs n' where w: "collect_cwt_files l ?p n = ((out, errs), n')" by (metis prod.exhaust)
  have below: "out = take n (cwt_paths l ?p)" "n' = n - length (cwt_paths l ?p)"
    using Cons.prems [of name t l ?p n] w by (simp_all add: kid)
  have rest: "fst (fst (visit_kids dir W m)) = take m K \<and> snd (visit_kids dir W m) = m - length K" for m
    unfolding W_def K_def by (rule Cons.IH) (rule Cons.prems, erule list.set_intros(2))
  have head: "map (map_prod id (map_prod id collect_cwt_files)) (kid # kids) = (name, t, collect_cwt_files l) # W"
    "kid_paths dir (kid # kids) = entry_paths dir (name, t, cwt_paths l) @ K" by (simp_all add: kid W_def K_def)
  show ?case
  proof (cases "n = 0")
    case False
    show ?thesis
    proof (cases t)
      case TypeDir
      then show ?thesis unfolding head using False rest [of n'] w below
        by (cases "visit_kids dir W n'") (auto simp: entry_paths_def Let_def)
    next
      case TypeFile
      then show ?thesis unfolding head using False rest [of n] rest [of "n - 1"]
        by (cases "visit_kids dir W n"; cases "visit_kids dir W (n - 1)"; cases n) (auto simp: entry_paths_def Let_def)
    qed (use False rest [of n] in \<open>unfold head, cases "visit_kids dir W n", auto simp: entry_paths_def Let_def\<close>)
  qed (unfold head, simp)
qed simp

text \<open>The walk over a configuration directory, with directories that cannot be read, entries without a type
and links among the entries, takes the first files of one fixed order (names sorted in each directory, a
directory in place of its name): exactly as many as the budget allows, and the budget that is left is what it
did not use. Links and special files are never followed.\<close>

theorem walk_takes_first_files:
  "fst (fst (collect_cwt_files listing dir max_files)) = take max_files (cwt_paths listing dir) \<and>
   snd (collect_cwt_files listing dir max_files) = max_files - length (cwt_paths listing dir)"
proof (induction listing arbitrary: dir max_files)
  case (Listing errors found)
  let ?kids = "sort_key fst (List.map_filter typed_entry found)"
  have kids: "sort_key fst (List.map_filter typed_entry (map (map_prod id (map_prod id f)) found)) =
      map (map_prod id (map_prod id f)) ?kids" for f :: "DirListing \<Rightarrow> 'a"
    by (simp add: typed_entries sort_key_map)
  have "fst (fst (collect_cwt_files l d n)) = take n (cwt_paths l d) \<and> snd (collect_cwt_files l d n) = n - length (cwt_paths l d)"
    if "(name, t, l) \<in> set ?kids" for name t l d n
  proof -
    have "(name, t, l) \<in> set (List.map_filter typed_entry found)" using that by simp
    then obtain ft where "(name, ft, l) \<in> set found" using typed_entry_in [of name t l found] by blast
    from Listing [OF this, of "(ft, l)" l d n] show ?thesis by simp
  qed
  from visit_kids_takes [of ?kids, OF this] show ?case by (simp add: kids split_beta Let_def)
qed simp

section \<open>Loading returns\<close>












section \<open>Merging\<close>

text \<open>The names a rule set declares, by the kind of reference that may use them.\<close>

fun names_of :: "RefKind \<Rightarrow> RuleSet \<Rightarrow> rstr set" where
  "names_of RefType rs = set (map td_name (rule_types rs))"
| "names_of RefEnum rs = set (map ed_key (rule_enums rs)) \<union> set (map ce_name (rule_complex_enums rs))"
| "names_of RefSingleAlias rs = set (map fst (rule_single_aliases rs))"


lemma names_of_positions [simp]: "names_of k (rs\<lparr>def_positions := ps\<rparr>) = names_of k rs"
  by (cases k) simp_all










section \<open>Which errors are reported\<close>



abbreviation is_undefined_report :: "RuleParseError \<Rightarrow> bool" where
  "is_undefined_report e \<equiv> rpe_code e = ''CW601''"

lemma report_codes [simp]:
  "\<not> is_undefined_report (directory_read_error d m)" "\<not> is_undefined_report (unreadable p m)"
  "\<not> is_undefined_report (alias_expansion_error d rs e)" "is_undefined_report (undefined_error c)"
  by (auto simp: directory_read_error_def unreadable_def alias_expansion_error_def undefined_error_def rule_parse_error_new_def
      CW600_RULES_FILE_UNREADABLE_def CW601_RULES_UNDEFINED_REFERENCE_def CW602_RULES_UNEXPANDED_ALIAS_def split: option.split)

lemma filter_undefined_reports [simp]: "filter is_undefined_report (map undefined_error cs) = map undefined_error cs"
  by (induction cs) simp_all










end
