(* ===== verification/Glob_Match.thy ===== *)
theory Glob_Match
  imports Text_Decoding
begin

text \<open>
  Globs and what discovery leaves out (\<open>crates/file_manager/src/file_manager.rs\<close>): name globs with their fast
  paths, path globs over segments, the extension and directory lists, logical paths. A glob is proved to match
  exactly what its pattern describes.
\<close>

section \<open>The backtracking walk\<close>

text \<open>\<open>glob_greedy\<close> and \<open>segments_greedy\<close> are one loop over two pointers, with a character or a path segment
  as the unit. The position in the text is \<open>mark + k\<close>: \<open>mark\<close> is where the last star restarts from and \<open>k\<close>
  what has been matched since.\<close>

function greedy_loop ::
  "('p \<Rightarrow> bool) \<Rightarrow> ('p \<Rightarrow> 't \<Rightarrow> bool) \<Rightarrow> 'p list \<Rightarrow> 't list \<Rightarrow> nat \<Rightarrow> nat \<Rightarrow> nat \<Rightarrow> nat option \<Rightarrow> bool" where
  "greedy_loop is_star unit p t mark k j star =
     (let i = mark + k
      in if i < length t then
           (if j < length p \<and> is_star (p ! j) then greedy_loop is_star unit p t i 0 (j + 1) (Some j)
            else if j < length p \<and> unit (p ! j) (t ! i) then greedy_loop is_star unit p t mark (k + 1) (j + 1) star
            else (case star of
                    Some s \<Rightarrow> greedy_loop is_star unit p t (mark + 1) 0 (s + 1) star
                  | None \<Rightarrow> False))
         else j + length (takeWhile is_star (drop j p)) = length p)"
  by pat_completeness auto

termination
  by (relation "measures [\<lambda>(is_star, unit, p, t, mark, k, j, star). length t - mark,
      \<lambda>(is_star, unit, p, t, mark, k, j, star). (length p - j) + (length t - (mark + k))]") auto

declare greedy_loop.simps [simp del]

definition greedy :: "('p \<Rightarrow> bool) \<Rightarrow> ('p \<Rightarrow> 't \<Rightarrow> bool) \<Rightarrow> 'p list \<Rightarrow> 't list \<Rightarrow> bool" where
  "greedy is_star unit p t = greedy_loop is_star unit p t 0 0 0 None"

definition star_char :: "rchar \<Rightarrow> bool" where
  "star_char c \<longleftrightarrow> c = ''*''"

definition unit_char :: "rchar \<Rightarrow> rchar \<Rightarrow> bool" where
  "unit_char p t \<longleftrightarrow> p = ''?'' \<or> p = t"

definition glob_greedy :: "rchar list \<Rightarrow> rchar list \<Rightarrow> bool" where
  "glob_greedy p t = greedy star_char unit_char p t"

section \<open>Name globs\<close>

definition glob_match_general :: "rstr \<Rightarrow> rstr \<Rightarrow> bool" where
  "glob_match_general pattern subject = glob_greedy (chars pattern) (chars subject)"

definition has_wildcard :: "rstr \<Rightarrow> bool" where
  "has_wildcard s \<longleftrightarrow> CHR ''*'' \<in> set s \<or> CHR ''?'' \<in> set s"

definition glob_match :: "rstr \<Rightarrow> rstr \<Rightarrow> bool" where
  "glob_match pattern subject =
     (let third = (case strip_suffix pattern ''*'' of
                     Some pre \<Rightarrow> if \<not> has_wildcard pre then starts_with subject pre else glob_match_general pattern subject
                   | None \<Rightarrow> glob_match_general pattern subject)
      in if \<not> has_wildcard pattern then pattern = subject
         else (case strip_prefix pattern ''*'' of
                 Some suf \<Rightarrow> if \<not> has_wildcard suf then ends_with subject suf else third
               | None \<Rightarrow> third))"

section \<open>Path globs\<close>

definition is_path_pattern :: "rstr \<Rightarrow> bool" where
  "is_path_pattern pattern \<longleftrightarrow> CHR ''/'' \<in> set pattern \<or> CHR 0x5C \<in> set pattern"

definition has_path_pattern :: "rstr list \<Rightarrow> bool" where
  "has_path_pattern patterns = list_ex is_path_pattern patterns"

definition normalize_slashes :: "rstr \<Rightarrow> rstr" where
  "normalize_slashes s = replace_byte (CHR 0x5C) (CHR ''/'') s"

definition star_segment :: "rstr \<Rightarrow> bool" where
  "star_segment s \<longleftrightarrow> s = ''**''"

definition segments_greedy :: "rstr list \<Rightarrow> rstr list \<Rightarrow> bool" where
  "segments_greedy p t = greedy star_segment glob_match p t"

definition pattern_segments :: "rstr \<Rightarrow> rstr list" where
  "pattern_segments pattern =
     (let segments = split_byte (CHR ''/'') (normalize_slashes pattern);
          segments1 = (if hd segments = [] then tl segments else segments)
      in if segments1 \<noteq> [] \<and> last segments1 = [] then butlast segments1 @ [''**''] else segments1)"

definition path_glob_match :: "rstr \<Rightarrow> rstr \<Rightarrow> bool" where
  "path_glob_match pattern path = segments_greedy (pattern_segments pattern) (split_byte (CHR ''/'') path)"

definition ignore_glob_match :: "rstr \<Rightarrow> rstr \<Rightarrow> rstr \<Rightarrow> bool" where
  "ignore_glob_match pattern name relative =
     (if is_path_pattern pattern then path_glob_match pattern relative else glob_match pattern name)"

section \<open>What discovery leaves out\<close>

datatype FileKind = Script | Localisation | Resource

definition SCRIPT_EXTENSIONS :: "rstr list" where
  "SCRIPT_EXTENSIONS = [''txt'', ''gui'', ''gfx'', ''sfx'', ''asset'', ''map'']"

definition is_loc_ext :: "rstr \<Rightarrow> bool" where
  "is_loc_ext ext \<longleftrightarrow> eq_ignore_ascii_case ext ''yml'' \<or> eq_ignore_ascii_case ext ''yaml'' \<or> eq_ignore_ascii_case ext ''csv''"

text \<open>\<open>Path::extension\<close> of a file name: what follows the last dot, unless the name only starts with it.\<close>

definition path_extension_of :: "rstr \<Rightarrow> rstr option" where
  "path_extension_of name =
     (let parts = split_byte (CHR ''.'') name
      in if 1 < length parts \<and> butlast parts \<noteq> [[]] \<and> name \<noteq> ''..'' then Some (last parts) else None)"

definition classify_extension :: "rstr \<Rightarrow> FileKind" where
  "classify_extension name =
     (let ext = to_ascii_lowercase (case path_extension_of name of Some e \<Rightarrow> e | None \<Rightarrow> '''')
      in if ext \<in> set SCRIPT_EXTENSIONS then Script else if is_loc_ext ext then Localisation else Resource)"

definition EXCLUDED_DIRS :: "rstr list" where
  "EXCLUDED_DIRS =
     [''.git'', ''.claude'', ''target'', ''.vs'', ''node_modules'', ''out'', ''dist'', ''bin'', ''obj'', ''.idea'', ''.vscode'']"

definition EXCLUDED_ROOT_DIRS :: "rstr list" where
  "EXCLUDED_ROOT_DIRS = [''resources'']"

definition is_excluded_dir :: "rstr \<Rightarrow> bool" where
  "is_excluded_dir name = list_ex (\<lambda>d. eq_ignore_ascii_case name d) EXCLUDED_DIRS"

definition is_excluded_root_dir :: "rstr \<Rightarrow> bool" where
  "is_excluded_root_dir name = list_ex (\<lambda>d. eq_ignore_ascii_case name d) EXCLUDED_ROOT_DIRS"

record FileManagerConfig =
  fc_root :: rstr
  fc_include_dirs :: "rstr list"
  fc_file_patterns :: "rstr list"
  fc_exclude_patterns :: "rstr list"
  fc_exclude_dirs :: "rstr list"
  fc_exclude_dir_patterns :: "rstr list"
  fc_exclude_root_dirs :: "rstr list"
  fc_max_file_size :: u64
  fc_scan_budget :: ScanBudget

definition file_manager_config_default :: FileManagerConfig where
  "file_manager_config_default =
     \<lparr>fc_root = ''.'',
      fc_include_dirs = [''common'', ''events'', ''history'', ''gfx'', ''interface'', ''decisions'', ''missions'', ''sound'', ''music''],
      fc_file_patterns = map (\<lambda>e. ''*.'' @ e) SCRIPT_EXTENSIONS,
      fc_exclude_patterns = [''Changelog.txt'', ''README.txt'', ''LICENSE.txt'', ''README.md'', ''LICENSE.md'', ''*.md''],
      fc_exclude_dirs = EXCLUDED_DIRS, fc_exclude_dir_patterns = [], fc_exclude_root_dirs = EXCLUDED_ROOT_DIRS,
      fc_max_file_size = 2 * 1024 * 1024, fc_scan_budget = scan_budget_default\<rparr>"

text \<open>\<open>meta_len\<close> is the size the operating system reports for the file, if it does.\<close>

definition accept_script_file :: "FileManagerConfig \<Rightarrow> rstr \<Rightarrow> rstr \<Rightarrow> u64 option \<Rightarrow> bool" where
  "accept_script_file cfg file_name relative meta_len \<longleftrightarrow>
     classify_extension file_name = Script \<and>
     list_ex (\<lambda>pat. glob_match pat file_name) (fc_file_patterns cfg) \<and>
     \<not> list_ex (\<lambda>pat. ignore_glob_match pat file_name relative) (fc_exclude_patterns cfg) \<and>
     \<not> (0 < fc_max_file_size cfg \<and> (case meta_len of Some len \<Rightarrow> fc_max_file_size cfg < len | None \<Rightarrow> False))"

text \<open>Paths: a root is normalised to a prefix once, and stripped from every path below it.\<close>

definition normalize_root_prefix :: "rstr \<Rightarrow> rstr" where
  "normalize_root_prefix root =
     (let s = normalize_slashes root in if ends_with s ''/'' then s else s @ ''/'')"

definition compute_logical_path_with_root :: "rstr \<Rightarrow> rstr \<Rightarrow> rstr" where
  "compute_logical_path_with_root path root_prefix =
     (case strip_prefix (normalize_slashes path) root_prefix of
        Some rel \<Rightarrow> rel
      | None \<Rightarrow> last_piece (CHR ''/'') path)"

definition compute_logical_path :: "rstr \<Rightarrow> rstr \<Rightarrow> rstr" where
  "compute_logical_path path root = compute_logical_path_with_root path (normalize_root_prefix root)"

definition is_ignored_logical_path :: "rstr \<Rightarrow> rstr list \<Rightarrow> bool" where
  "is_ignored_logical_path logical_path extra_file_globs =
     (let normalized = normalize_slashes logical_path;
          file_name = last_piece (CHR ''/'') normalized
      in list_ex (\<lambda>pat. ignore_glob_match pat file_name normalized) (fc_exclude_patterns file_manager_config_default) \<or>
         list_ex (\<lambda>pat. ignore_glob_match pat file_name normalized) extra_file_globs)"

definition is_ignored_file :: "rstr \<Rightarrow> rstr \<Rightarrow> rstr list \<Rightarrow> bool" where
  "is_ignored_file root path extra_file_globs = is_ignored_logical_path (compute_logical_path path root) extra_file_globs"

text \<open>The directories of a path, each with the path down to it.\<close>

fun dir_globs_loop :: "rstr list \<Rightarrow> rstr option \<Rightarrow> rstr list \<Rightarrow> bool" where
  "dir_globs_loop globs before [] = False"
| "dir_globs_loop globs before (dir_name # rest) =
     (let dir_relative = (case before of None \<Rightarrow> dir_name | Some b \<Rightarrow> b @ ''/'' @ dir_name)
      in list_ex (\<lambda>pat. ignore_glob_match pat dir_name dir_relative) globs \<or> dir_globs_loop globs (Some dir_relative) rest)"


section \<open>The walk decides the pattern\<close>

text \<open>What a pattern means: a star stands for any run, any other unit for one element it accepts.\<close>

fun matches :: "('p \<Rightarrow> bool) \<Rightarrow> ('p \<Rightarrow> 't \<Rightarrow> bool) \<Rightarrow> 'p list \<Rightarrow> 't list \<Rightarrow> bool" where
  "matches is_star unit [] t \<longleftrightarrow> t = []"
| "matches is_star unit (x # p) t \<longleftrightarrow>
     (if is_star x then (\<exists>k \<le> length t. matches is_star unit p (drop k t))
      else (case t of [] \<Rightarrow> False | c # t1 \<Rightarrow> unit x c \<and> matches is_star unit p t1))"

lemma matches_nil: "matches is_star unit p [] \<longleftrightarrow> list_all is_star p"
  by (induction p) auto

lemma matches_star_iff:
  "is_star x \<Longrightarrow> matches is_star unit (x # p) t \<longleftrightarrow> matches is_star unit p t \<or> (\<exists>k \<le> length t. 0 < k \<and> matches is_star unit p (drop k t))"
  by (auto, metis drop0 gr0I)

lemma matches_segment:
  "list_all (\<lambda>x. \<not> is_star x) q \<Longrightarrow> matches is_star unit (q @ r) t \<longleftrightarrow>
     length q \<le> length t \<and> list_all2 unit q (take (length q) t) \<and> matches is_star unit r (drop (length q) t)"
proof (induction q arbitrary: t)
  case (Cons x q)
  then show ?case by (cases t) auto
qed simp

lemma takeWhile_all: "length (takeWhile P xs) = length xs \<longleftrightarrow> list_all P xs"
  by (induction xs) auto

text \<open>The state of the loop against the pattern: what is left matches from here, or the part after the last
  star matches from a later restart.\<close>

definition loop_ok :: "('p \<Rightarrow> bool) \<Rightarrow> 'p list \<Rightarrow> 't list \<Rightarrow> nat \<Rightarrow> nat \<Rightarrow> nat \<Rightarrow> nat option \<Rightarrow> bool" where
  "loop_ok is_star p t mark k j star \<longleftrightarrow>
     mark + k \<le> length t \<and> j \<le> length p \<and>
     (case star of None \<Rightarrow> True | Some s \<Rightarrow> j = s + 1 + k \<and> list_all (\<lambda>x. \<not> is_star x) (take k (drop (s + 1) p)))"

definition loop_result :: "('p \<Rightarrow> bool) \<Rightarrow> ('p \<Rightarrow> 't \<Rightarrow> bool) \<Rightarrow> 'p list \<Rightarrow> 't list \<Rightarrow> nat \<Rightarrow> nat \<Rightarrow> nat \<Rightarrow> nat option \<Rightarrow> bool" where
  "loop_result is_star unit p t mark k j star \<longleftrightarrow>
     matches is_star unit (drop j p) (drop (mark + k) t) \<or>
     (\<exists>s. star = Some s \<and> (\<exists>r \<le> length t. mark < r \<and> matches is_star unit (drop (s + 1) p) (drop r t)))"

lemma later_restart:
  assumes "loop_ok is_star p t mark k j (Some s)" "mark < r" "r \<le> length t" "matches is_star unit (drop (s + 1) p) (drop r t)"
  shows "k \<le> length t - r" "matches is_star unit (drop j p) (drop (r + k) t)"
proof -
  let ?q = "take k (drop (s + 1) p)"
  have split: "drop (s + 1) p = ?q @ drop j p" 
    using append_take_drop_id [of k "drop (s + 1) p"] assms(1) by (simp add: loop_ok_def add.commute add.left_commute)
  have len: "length ?q = k" using assms(1) by (auto simp: loop_ok_def)
  have q: "list_all (\<lambda>x. \<not> is_star x) ?q" using assms(1) by (simp add: loop_ok_def)
  have "matches is_star unit (?q @ drop j p) (drop r t)" using assms(4) split by simp
  then have "length ?q \<le> length (drop r t)" "matches is_star unit (drop j p) (drop (length ?q) (drop r t))"
    using matches_segment [OF q, of unit "drop j p" "drop r t"] by blast+
  then show "k \<le> length t - r" "matches is_star unit (drop j p) (drop (r + k) t)"
    unfolding len by (simp_all add: add.commute)
qed

lemma greedy_loop_decides:
  "loop_ok is_star p t mark k j star \<Longrightarrow>
   greedy_loop is_star unit p t mark k j star = loop_result is_star unit p t mark k j star"
proof (induction is_star unit p t mark k j star rule: greedy_loop.induct)
  case (1 is_star unit p t mark k j star)
  let ?i = "mark + k"
  note ok = 1(4)
  note step = greedy_loop.simps [of is_star unit p t mark k j star]
  consider "\<not> ?i < length t"
    | (star) "?i < length t" "j < length p" "is_star (p ! j)"
    | (unit) "?i < length t" "j < length p" "\<not> is_star (p ! j)" "unit (p ! j) (t ! ?i)"
    | (miss) "?i < length t" "\<not> (j < length p \<and> is_star (p ! j))" "\<not> (j < length p \<and> unit (p ! j) (t ! ?i))"
    by blast
  then show ?case
  proof cases
    case 1
    then have i: "?i = length t" using ok by (simp add: loop_ok_def)
    have no: "\<not> (\<exists>r \<le> length t. mark < r \<and> matches is_star unit (drop (s + 1) p) (drop r t))" if "star = Some s" for s
      using later_restart(1) [OF ok [unfolded that]] i by force
    have "greedy_loop is_star unit p t mark k j star = list_all is_star (drop j p)"
      using i ok takeWhile_all [of is_star "drop j p"] by (auto simp: step loop_ok_def)
    then show ?thesis using no i by (auto simp: loop_result_def matches_nil)
  next
    case star
    have here: "drop j p = p ! j # drop (j + 1) p" using star(2) by (simp add: Cons_nth_drop_Suc)
    have "loop_ok is_star p t ?i 0 (j + 1) (Some j)" using star by (simp add: loop_ok_def)
    then have "greedy_loop is_star unit p t mark k j star = loop_result is_star unit p t ?i 0 (j + 1) (Some j)"
      using 1(1) star by (simp add: step)
    moreover have "loop_result is_star unit p t ?i 0 (j + 1) (Some j) \<longleftrightarrow> matches is_star unit (drop j p) (drop ?i t)"
    proof -
      have "(\<exists>r \<le> length t. ?i < r \<and> matches is_star unit (drop (j + 1) p) (drop r t)) \<longleftrightarrow>
          (\<exists>d \<le> length t - ?i. 0 < d \<and> matches is_star unit (drop (j + 1) p) (drop (?i + d) t))"
        using star(1) by (intro iffI; elim exE conjE) (rule_tac x = "r - ?i" in exI, simp, rule_tac x = "?i + d" in exI, simp)
      then show ?thesis using matches_star_iff [of is_star "p ! j" unit "drop (j + 1) p" "drop ?i t"] star(3)
        unfolding here by (simp add: loop_result_def add.commute)
    qed
    moreover have "matches is_star unit (drop j p) (drop ?i t)"
      if "star = Some s" "r \<le> length t" "mark < r" "matches is_star unit (drop (s + 1) p) (drop r t)" for s r
    proof -
      note late = later_restart [OF ok [unfolded that(1)] that(3,2,4)]
      then obtain d where d: "d \<le> length (drop (r + k) t)" "matches is_star unit (drop (j + 1) p) (drop d (drop (r + k) t))"
        using star(3) unfolding here by auto
      then have "matches is_star unit (drop (j + 1) p) (drop (r - mark + d) (drop ?i t))" "r - mark + d \<le> length (drop ?i t)"
        using that(2,3) late(1) by (simp_all add: add.commute add.left_commute)
      then show ?thesis using star(3) unfolding here by auto
    qed
    ultimately show ?thesis by (auto simp: loop_result_def)
  next
    case unit
    have here: "drop j p = p ! j # drop (j + 1) p" "drop ?i t = t ! ?i # drop (?i + 1) t"
      using unit(1,2) by (simp_all add: Cons_nth_drop_Suc)
    have "loop_ok is_star p t mark (k + 1) (j + 1) star" using ok unit
      by (auto simp: loop_ok_def take_Suc_conv_app_nth split: option.splits)
    then show ?thesis using 1(2) unit here by (simp add: step loop_result_def)
  next
    case miss
    have dead: "\<not> matches is_star unit (drop j p) (drop ?i t)"
    proof (cases "j < length p")
      case True
      then have "drop j p = p ! j # drop (j + 1) p" "drop ?i t = t ! ?i # drop (?i + 1) t" "\<not> is_star (p ! j)" "\<not> unit (p ! j) (t ! ?i)"
        using miss by (simp_all add: Cons_nth_drop_Suc)
      then show ?thesis by simp
    qed (use miss(1) in simp)
    show ?thesis
    proof (cases star)
      case None
      have "\<not> greedy_loop is_star unit p t mark k j star" unfolding step using miss by (auto simp: None)
      then show ?thesis using dead by (simp add: loop_result_def None)
    next
      case (Some s)
      have next_ok: "loop_ok is_star p t (mark + 1) 0 (s + 1) star" using ok miss(1) by (auto simp: loop_ok_def Some)
      have "greedy_loop is_star unit p t mark k j star = greedy_loop is_star unit p t (mark + 1) 0 (s + 1) star"
        unfolding step using miss by (auto simp: Some)
      also have "\<dots> = loop_result is_star unit p t (mark + 1) 0 (s + 1) star"
        by (rule 1(3) [OF refl miss(1-3) Some next_ok])
      finally have "greedy_loop is_star unit p t mark k j star = loop_result is_star unit p t (mark + 1) 0 (s + 1) star" .
      moreover have "(\<exists>r \<le> length t. mark < r \<and> matches is_star unit (drop (s + 1) p) (drop r t)) \<longleftrightarrow>
          matches is_star unit (drop (s + 1) p) (drop (mark + 1) t) \<or>
          (\<exists>r \<le> length t. mark + 1 < r \<and> matches is_star unit (drop (s + 1) p) (drop r t))"
        using miss(1) by (metis Suc_eq_plus1 Suc_leI Suc_lessI add_lessD1 less_Suc_eq)
      ultimately show ?thesis using dead by (simp add: loop_result_def Some)
    qed
  qed
qed

lemma greedy_matches: "greedy is_star unit p t = matches is_star unit p t"
  using greedy_loop_decides [of is_star p t 0 0 0 None unit] by (simp add: greedy_def loop_ok_def loop_result_def)

section \<open>Valid texts as characters\<close>

lemma utf8_width_obtain:
  assumes "0 < utf8_width s"
  obtains (one) a r where "s = a # r" "is_ascii_byte a"
    | (two) a b r where "s = a # b # r" "\<not> is_ascii_byte a" "lead2 a \<and> is_cont b"
    | (three) a b c r where "s = a # b # c # r" "\<not> is_ascii_byte a" "\<not> (lead2 a \<and> is_cont b)" "lead3 a b \<and> is_cont c"
    | (four) a b c d r where "s = a # b # c # d # r" "\<not> is_ascii_byte a" "\<not> (lead2 a \<and> is_cont b)"
        "\<not> (lead3 a b \<and> is_cont c)" "lead4 a b \<and> is_cont c \<and> is_cont d"
proof -
  obtain a s1 where s: "s = a # s1" using assms by (cases s) (simp_all add: utf8_width_def)
  show thesis
  proof (cases "is_ascii_byte a")
    case na: False
    obtain b s2 where s1: "s1 = b # s2" using assms s na by (cases s1) (simp_all add: utf8_width_def)
    show thesis
    proof (cases "lead2 a \<and> is_cont b")
      case n2: False
      obtain c s3 where s2: "s2 = c # s3" using assms s s1 na n2 by (cases s2) (simp_all add: utf8_width_def)
      show thesis
      proof (cases "lead3 a b \<and> is_cont c")
        case n3: False
        obtain d r where s3: "s3 = d # r" using assms s s1 s2 na n2 n3 by (cases s3) (simp_all add: utf8_width_def)
        have "lead4 a b \<and> is_cont c \<and> is_cont d"
          using assms na n2 n3 unfolding s s1 s2 s3 utf8_width_def by (simp split: if_splits)
        then show thesis using four s s1 s2 s3 na n2 n3 by blast
      qed (use three s s1 s2 na n2 in blast)
    qed (use two s s1 na in blast)
  qed (use one s in blast)
qed

lemma utf8_width_append: "0 < utf8_width a \<Longrightarrow> utf8_width (a @ b) = utf8_width a"
  by (erule utf8_width_obtain) (simp_all add: utf8_width_def)

lemma valid_utf8_append: "valid_utf8 a \<Longrightarrow> valid_utf8 (a @ b) = valid_utf8 b"
proof (induction a rule: valid_utf8.induct)
  case (1 a)
  show ?case
  proof (cases "a = []")
    case False
    note w = valid_utf8_front [OF 1(2) False]
    have le: "utf8_width a \<le> length a" by (rule utf8_width_cases(2) [OF w(1)])
    have "valid_utf8 (a @ b) = valid_utf8 (drop (utf8_width a) a @ b)"
      using False w(1) le valid_utf8.simps [of "a @ b"] by (simp add: utf8_width_append [OF w(1)])
    then show ?thesis using 1(1) [OF False] w by simp
  qed simp
qed

lemma chars_append_valid: "valid_utf8 b \<Longrightarrow> chars (a @ b) = chars a @ chars b"
  using valid_utf8_front(3) [of b] by (intro chars_append) blast

lemma utf8_width_front: "0 < utf8_width s \<Longrightarrow> utf8_width (take (utf8_width s) s) = utf8_width s"
  by (erule utf8_width_obtain) (simp_all add: utf8_width_def)

lemma utf8_width_take:
  assumes "0 < utf8_width s" "utf8_width s \<le> n"
  shows "utf8_width (take n s) = utf8_width s"
proof -
  have "take n s = take (utf8_width s) s @ drop (utf8_width s) (take n s)"
    using append_take_drop_id [of "utf8_width s" "take n s"] assms(2) by (simp add: min_def)
  then show ?thesis using utf8_width_append [of "take (utf8_width s) s"] utf8_width_front [OF assms(1)] assms(1) by metis
qed

lemma valid_utf8_before_ascii:
  assumes "valid_utf8 (a @ c # b)" "is_ascii_byte c"
  shows "valid_utf8 a"
  using assms(1)
proof (induction "length a" arbitrary: a rule: less_induct)
  case less
  show ?case
  proof (cases "a = []")
    case False
    let ?s = "a @ c # b"
    note w = valid_utf8_front [OF less.prems, simplified]
    have pos: "0 < utf8_width ?s" using w(1) .
    have le: "utf8_width ?s \<le> length a"
    proof (rule ccontr)
      assume "\<not> utf8_width ?s \<le> length a"
      then have "c \<in> set (tl (take (utf8_width ?s) ?s))" using False
        by (cases a) (auto simp: take_Cons' in_set_conv_nth nth_append intro!: exI [of _ "length a - 1"])
      then show False using utf8_width_cases(4) [OF pos] assms(2) ascii_not_cont by blast
    qed
    have "utf8_width a = utf8_width ?s" using utf8_width_take [OF pos le] by simp
    moreover have "valid_utf8 (drop (utf8_width ?s) a @ c # b)" using w(2) le by simp
    then have "valid_utf8 (drop (utf8_width ?s) a)" using less.hyps pos le False by simp
    ultimately show ?thesis using pos by (subst valid_utf8.simps) simp
  qed (simp add: valid_utf8.simps)
qed

section \<open>Name globs\<close>

lemma no_wildcard_chars:
  assumes "\<not> has_wildcard s"
  shows "list_all (\<lambda>c. \<not> star_char c) (chars s)" "matches star_char unit_char (chars s) t = (chars s = t)"
    "list_all2 unit_char (chars s) t = (chars s = t)"
proof -
  have no: "c \<noteq> ''*'' \<and> c \<noteq> ''?''" if "c \<in> set (chars s)" for c
  proof -
    have "set c \<subseteq> set (concat (chars s))" using that by (auto simp del: concat_chars)
    then show ?thesis using assms by (auto simp: has_wildcard_def)
  qed
  then show plain: "list_all (\<lambda>c. \<not> star_char c) (chars s)" by (auto simp: list_all_iff star_char_def)
  have eq: "list_all2 unit_char (chars s) u \<longleftrightarrow> chars s = u" for u
    using no by (auto simp: list_all2_conv_all_nth unit_char_def intro!: nth_equalityI)
  then show "list_all2 unit_char (chars s) t = (chars s = t)" .
  show "matches star_char unit_char (chars s) t = (chars s = t)"
    using matches_segment [OF plain, of unit_char "[]" t] by (auto simp: eq append_eq_conv_conj)
qed

lemma chars_star: "chars ''*'' = [''*'']" "star_char ''*''" "is_ascii_byte (CHR ''*'')"
  by (simp_all add: star_char_def is_ascii_byte_def)

lemma glob_suffix:
  assumes "valid_utf8 suf" "\<not> has_wildcard suf"
  shows "ends_with subject suf \<longleftrightarrow> matches star_char unit_char (chars (''*'' @ suf)) (chars subject)"
proof -
  have "matches star_char unit_char (chars (''*'' @ suf)) (chars subject) \<longleftrightarrow>
      (\<exists>k \<le> length (chars subject). chars suf = drop k (chars subject))"
    unfolding chars_append_valid [OF assms(1)] using no_wildcard_chars [OF assms(2)] chars_star by simp
  also have "\<dots> \<longleftrightarrow> suffix suf subject"
  proof
    assume "\<exists>k \<le> length (chars subject). chars suf = drop k (chars subject)"
    then obtain k where "chars suf = drop k (chars subject)" by blast
    then have "concat (chars subject) = concat (take k (chars subject)) @ suf"
      by (metis append_take_drop_id concat_append concat_chars)
    then show "suffix suf subject" by (auto simp: suffix_def)
  next
    assume "suffix suf subject"
    then obtain pre where "subject = pre @ suf" by (auto simp: suffix_def)
    then show "\<exists>k \<le> length (chars subject). chars suf = drop k (chars subject)"
      using chars_append_valid [OF assms(1), of pre] by (auto intro!: exI [of _ "length (chars pre)"])
  qed
  finally show ?thesis by (simp add: ends_with_iff_suffix)
qed

lemma glob_prefix:
  assumes "valid_utf8 (pre @ ''*'')" "\<not> has_wildcard pre" "valid_utf8 subject"
  shows "starts_with subject pre \<longleftrightarrow> matches star_char unit_char (chars (pre @ ''*'')) (chars subject)"
proof -
  have pre: "valid_utf8 pre" using valid_utf8_before_ascii assms(1) chars_star(3) by simp
  have star: "valid_utf8 ''*''" by code_simp
  have eq: "list_all2 unit_char (chars pre) u \<longleftrightarrow> chars pre = u" for u by (rule no_wildcard_chars(3) [OF assms(2)])
  have "matches star_char unit_char (chars (pre @ ''*'')) (chars subject) \<longleftrightarrow>
      length (chars pre) \<le> length (chars subject) \<and> chars pre = take (length (chars pre)) (chars subject)"
    unfolding chars_append_valid [OF star] matches_segment [OF no_wildcard_chars(1) [OF assms(2)]] eq
    using chars_star by (auto intro: exI [of _ "length (drop (length (chars pre)) (chars subject))"])
  also have "\<dots> \<longleftrightarrow> prefix pre subject"
  proof
    assume "length (chars pre) \<le> length (chars subject) \<and> chars pre = take (length (chars pre)) (chars subject)"
    then have "concat (chars subject) = pre @ concat (drop (length (chars pre)) (chars subject))"
      by (metis append_take_drop_id concat_append concat_chars)
    then show "prefix pre subject" by (auto simp: prefix_def)
  next
    assume "prefix pre subject"
    then obtain rest where s: "subject = pre @ rest" by (auto simp: prefix_def)
    then have "valid_utf8 rest" using valid_utf8_append [OF pre] assms(3) by simp
    then have "chars subject = chars pre @ chars rest" unfolding s by (rule chars_append_valid)
    then show "length (chars pre) \<le> length (chars subject) \<and> chars pre = take (length (chars pre)) (chars subject)" by simp
  qed
  finally show ?thesis by (simp add: starts_with_iff_prefix)
qed

lemma glob_match_matches:
  assumes "valid_utf8 pattern" "valid_utf8 subject"
  shows "glob_match pattern subject \<longleftrightarrow> matches star_char unit_char (chars pattern) (chars subject)"
proof (cases "has_wildcard pattern")
  case False
  have "chars pattern = chars subject \<longleftrightarrow> pattern = subject" by (metis concat_chars)
  then show ?thesis using False no_wildcard_chars(2) [OF False, of "chars subject"] by (simp add: glob_match_def)
next
  case True
  have general: "glob_match_general pattern subject \<longleftrightarrow> matches star_char unit_char (chars pattern) (chars subject)"
    by (simp add: glob_match_general_def glob_greedy_def greedy_matches)
  have third: "(case strip_suffix pattern ''*'' of
        Some pre \<Rightarrow> if \<not> has_wildcard pre then starts_with subject pre else glob_match_general pattern subject
      | None \<Rightarrow> glob_match_general pattern subject) \<longleftrightarrow> matches star_char unit_char (chars pattern) (chars subject)"
    using glob_prefix [OF _ _ assms(2)] assms(1) general by (auto dest: strip_suffix_SomeD split: option.split)
  have "valid_utf8 suf" if "pattern = ''*'' @ suf" for suf
    using valid_utf8_append [of "''*''" suf] assms(1) that by (simp add: valid_utf8.simps [of "''*''"] utf8_width_def chars_star(3) valid_utf8.simps [of "[]"])
  then show ?thesis using True third glob_suffix [of _ subject]
    by (auto simp: glob_match_def Let_def dest!: strip_prefix_SomeD split: option.split)
qed

text \<open>C26. A name glob means what its documentation says, whichever of its fast paths answers: it matches a name
exactly when the name can be cut so that every star gets some run of characters (possibly none), every question
mark exactly one character, and every other character itself. The backtracking walk, which only ever goes back to
the last star, loses no match. Names are compared character by character, also outside ASCII.\<close>

theorem glob_match_decides:
  assumes "valid_utf8 pattern" "valid_utf8 subject"
  shows "glob_match pattern subject \<longleftrightarrow> matches star_char unit_char (chars pattern) (chars subject)"
  using assms by (rule glob_match_matches)

lemma glob_match_decides_witness:
  "matches star_char unit_char (chars ''a*b?'') (chars ''aabbc'') \<and> \<not> matches star_char unit_char (chars ''a*b?'') (chars ''aabcd'')"
proof -
  have "valid_utf8 ''a*b?''" "valid_utf8 ''aabbc''" "valid_utf8 ''aabcd''" by code_simp+
  then have "matches star_char unit_char (chars ''a*b?'') (chars ''aabbc'') = glob_match ''a*b?'' ''aabbc''"
    "matches star_char unit_char (chars ''a*b?'') (chars ''aabcd'') = glob_match ''a*b?'' ''aabcd''"
    using glob_match_decides by simp_all
  moreover have "glob_match ''a*b?'' ''aabbc''" "\<not> glob_match ''a*b?'' ''aabcd''" by code_simp+
  ultimately show ?thesis by blast
qed

section \<open>Path globs\<close>





lemma dir_globs_loop_Nil [simp]: "\<not> dir_globs_loop [] before ds"
  by (induction ds arbitrary: before) (simp_all add: Let_def)


text \<open>The spelling an editor writes for one file, a double star before its name, matches that name anywhere.\<close>

lemma matches_double_star:
  "t \<noteq> [] \<Longrightarrow> name \<noteq> ''**'' \<Longrightarrow> matches star_segment glob_match [''**'', name] t \<longleftrightarrow> glob_match name (last t)"
proof -
  assume t: "t \<noteq> []" "name \<noteq> ''**''"
  have one: "matches star_segment glob_match [name] u \<longleftrightarrow> (\<exists>c. u = [c] \<and> glob_match name c)" for u
    using t(2) by (cases u; cases "tl u") (auto simp: star_segment_def)
  have "(\<exists>k \<le> length t. drop k t = [c]) \<longleftrightarrow> c = last t" for c
  proof
    assume "\<exists>k \<le> length t. drop k t = [c]"
    then obtain k where "t = take k t @ [c]" by (metis append_take_drop_id)
    then show "c = last t" by (metis last_snoc)
  next
    assume "c = last t"
    then show "\<exists>k \<le> length t. drop k t = [c]" using t(1)
      by (cases t rule: rev_cases) (auto intro!: exI [of _ "length t - 1"])
  qed
  moreover have "matches star_segment glob_match [''**'', name] t \<longleftrightarrow> (\<exists>k \<le> length t. matches star_segment glob_match [name] (drop k t))"
    by (subst matches.simps(2)) (simp add: star_segment_def)
  moreover have "(\<exists>k \<le> length t. \<exists>c. drop k t = [c] \<and> glob_match name c) \<longleftrightarrow>
      (\<exists>c. (\<exists>k \<le> length t. drop k t = [c]) \<and> glob_match name c)" by blast
  ultimately show ?thesis unfolding one by simp
qed

end
