(* ===== verification/File_Discovery.thy ===== *)
theory File_Discovery
  imports Glob_Match Rule_Set Parser "HOL-Library.List_Lexorder" "HOL-Library.Char_ord"
begin

text \<open>
  Discovery of script files (\<open>crates/file_manager/src/file_manager.rs\<close>): the walk of one root, descriptors of
  mods, the layers of several mods, and the reading and parsing of what was found. The operating system is a
  parameter.
\<close>

section \<open>The operating system\<close>

text \<open>What the code asks: the kind of a path (links followed, \<open>None\<close> when there is nothing), the listing of a
  directory, the length of a file and its bytes.\<close>

record Os =
  os_kind :: "rstr \<Rightarrow> FileType option"
  os_dir :: "rstr \<Rightarrow> DirListing"
  os_len :: "rstr \<Rightarrow> u64 option"
  os_read :: OsFiles

definition is_dir :: "Os \<Rightarrow> rstr \<Rightarrow> bool" where
  "is_dir os path \<longleftrightarrow> os_kind os path = Some TypeDir"

text \<open>\<open>Path::join\<close>: an absolute path replaces the base.\<close>

definition path_join :: "rstr \<Rightarrow> rstr \<Rightarrow> rstr" where
  "path_join base sub =
     (if starts_with sub ''/'' then sub else if base = [] \<or> ends_with base ''/'' then base @ sub else base @ ''/'' @ sub)"

section \<open>The shared walk\<close>

text \<open>A walk of one directory: whether reading the directory itself failed, the accepted items, the child
  directories that could not be read, and the files still allowed.\<close>

type_synonym 'a DirWalk = "rstr \<Rightarrow> bool \<Rightarrow> nat \<Rightarrow> rstr option \<times> 'a list \<times> (rstr \<times> rstr) list \<times> nat"

definition skip_dir :: "FileManagerConfig \<Rightarrow> rstr list \<Rightarrow> rstr \<Rightarrow> bool \<Rightarrow> rstr \<Rightarrow> rstr \<Rightarrow> bool" where
  "skip_dir cfg extra_dir_globs root_prefix is_root_level dir_name path =
     (let dir_paths_needed = has_path_pattern (fc_exclude_dir_patterns cfg) \<or> has_path_pattern extra_dir_globs;
          dir_relative = (if dir_paths_needed then compute_logical_path_with_root path root_prefix else [])
      in list_ex (\<lambda>ex. eq_ignore_ascii_case dir_name ex) (fc_exclude_dirs cfg) \<or>
         list_ex (\<lambda>pat. ignore_glob_match pat dir_name dir_relative) (fc_exclude_dir_patterns cfg) \<or>
         list_ex (\<lambda>pat. ignore_glob_match pat dir_name dir_relative) extra_dir_globs \<or>
         is_root_level \<and> list_ex (\<lambda>ex. eq_ignore_ascii_case dir_name ex) (fc_exclude_root_dirs cfg))"

fun walk_entries ::
  "(rstr \<Rightarrow> rstr \<Rightarrow> bool) \<Rightarrow> (rstr \<Rightarrow> 'a option) \<Rightarrow> rstr \<Rightarrow> (rstr \<times> FileType \<times> 'a DirWalk) list \<Rightarrow> nat \<Rightarrow> 'a list \<times> (rstr \<times> rstr) list \<times> nat" where
  "walk_entries skip accept dir [] remaining = ([], [], remaining)"
| "walk_entries skip accept dir ((name, ft, walk) # kids) remaining =
     (if remaining = 0 then ([], [], 0)
      else (let path = path_join dir name;
                (out1, errs1, remaining1) =
                  (if ft = TypeSymlink \<or> \<not> (ft = TypeDir \<or> ft = TypeFile) then ([], [], remaining)
                   else if ft = TypeDir then
                     (if skip name path then ([], [], remaining)
                      else (case walk path False remaining of
                              (failed, out, errs, left) \<Rightarrow>
                                (out, errs @ (case failed of Some e \<Rightarrow> [(path, e)] | None \<Rightarrow> []), left)))
                   else (case accept path of
                           Some item \<Rightarrow> ([item], [], remaining - 1)
                         | None \<Rightarrow> ([], [], remaining)));
                (out2, errs2, remaining2) = walk_entries skip accept dir kids remaining1
            in (out1 @ out2, errs1 @ errs2, remaining2)))"

primrec walk_dir_generic :: "FileManagerConfig \<Rightarrow> rstr list \<Rightarrow> rstr \<Rightarrow> (rstr \<Rightarrow> 'a option) \<Rightarrow> DirListing \<Rightarrow> 'a DirWalk" where
  "walk_dir_generic cfg extra_dir_globs root_prefix accept (ReadError e) = (\<lambda>dir is_root_level remaining. (Some e, [], [], remaining))"
| "walk_dir_generic cfg extra_dir_globs root_prefix accept (Listing errors found) = (\<lambda>dir is_root_level remaining.
     (case errors of
        e # _ \<Rightarrow> (Some e, [], [], remaining)
      | [] \<Rightarrow>
          (let kids = List.map_filter typed_entry
                 (map (map_prod id (map_prod id (walk_dir_generic cfg extra_dir_globs root_prefix accept))) found)
           in (None, walk_entries (skip_dir cfg extra_dir_globs root_prefix is_root_level) accept dir (sort_key fst kids) remaining))))"

section \<open>Script files of one root\<close>

record DiscoveredFile =
  df_path :: rstr
  df_logical_path :: rstr

definition accept_path :: "Os \<Rightarrow> FileManagerConfig \<Rightarrow> rstr \<Rightarrow> rstr \<Rightarrow> (rstr \<times> rstr) option" where
  "accept_path os cfg root_prefix path =
     (let file_name = last_piece (CHR ''/'') path
      in if classify_extension file_name \<noteq> Script then None
         else (let logical_path = compute_logical_path_with_root path root_prefix
               in if \<not> accept_script_file cfg file_name logical_path (os_len os path) then None else Some (path, logical_path)))"

definition collect_paths :: "Os \<Rightarrow> FileManagerConfig \<Rightarrow> rstr \<Rightarrow> FileError + (rstr \<times> rstr) list" where
  "collect_paths os cfg dir =
     (let root_prefix = normalize_root_prefix (fc_root cfg);
          is_root_level = (dir = fc_root cfg)
      in case walk_dir_generic cfg [] root_prefix (accept_path os cfg root_prefix) (os_dir os dir) dir is_root_level
                (sb_max_files (fc_scan_budget cfg)) of
           (Some e, _, _, _) \<Rightarrow> Inl (IoError e)
         | (None, out, _, _) \<Rightarrow> Inr out)"

fun collect_include_dirs :: "Os \<Rightarrow> FileManagerConfig \<Rightarrow> rstr list \<Rightarrow> FileError + (rstr \<times> rstr) list" where
  "collect_include_dirs os cfg [] = Inr []"
| "collect_include_dirs os cfg (include_dir # dirs) =
     (let dir = (if include_dir = ''.'' then fc_root cfg else path_join (fc_root cfg) include_dir)
      in if os_kind os dir = None then collect_include_dirs os cfg dirs
         else (case collect_paths os cfg dir of
                 Inl e \<Rightarrow> Inl e
               | Inr out \<Rightarrow> map_sum id ((@) out) (collect_include_dirs os cfg dirs)))"

definition discover_files :: "Os \<Rightarrow> FileManagerConfig \<Rightarrow> FileError + DiscoveredFile list" where
  "discover_files os cfg =
     (if \<not> is_dir os (fc_root cfg) then Inl (MissingRoot (fc_root cfg))
      else map_sum id (map (\<lambda>(path, logical_path). \<lparr>df_path = path, df_logical_path = logical_path\<rparr>))
             (collect_include_dirs os cfg (fc_include_dirs cfg)))"

section \<open>Descriptors of mods\<close>

record ModDescriptor =
  md_name :: rstr
  md_path :: "rstr option"
  md_replace_paths :: "rstr list"

definition descriptor_value :: "rstr \<Rightarrow> rstr" where
  "descriptor_value v0 =
     (let v = trim v0
      in case strip_prefix v [CHR 0x22] of
           Some rest \<Rightarrow> hd (split_byte (CHR 0x22) rest)
         | None \<Rightarrow> trim (hd (split_byte (CHR ''#'') v)))"

definition descriptor_line :: "rstr \<Rightarrow> ModDescriptor \<Rightarrow> ModDescriptor" where
  "descriptor_line raw d =
     (let line = trim raw
      in if starts_with line ''#'' \<or> line = [] then d
         else (case split_once (CHR ''='') line of
                 None \<Rightarrow> d
               | Some (k, v) \<Rightarrow>
                   (let key = trim k; val = descriptor_value v
                    in if key = ''name'' then d\<lparr>md_name := val\<rparr>
                       else if key = ''path'' \<or> key = ''archive'' then d\<lparr>md_path := Some val\<rparr>
                       else if key = ''replace_path'' then d\<lparr>md_replace_paths := md_replace_paths d @ [val]\<rparr>
                       else d)))"

definition parse_mod_descriptor_str :: "rstr \<Rightarrow> ModDescriptor" where
  "parse_mod_descriptor_str content =
     fold descriptor_line (lines content) \<lparr>md_name = [], md_path = None, md_replace_paths = []\<rparr>"

definition parse_mod_descriptor :: "OsFiles \<Rightarrow> rstr \<Rightarrow> FileError + ModDescriptor" where
  "parse_mod_descriptor read_file path =
     map_sum id (\<lambda>raw. parse_mod_descriptor_str (case strip_prefix raw UTF8_BOM of Some r \<Rightarrow> r | None \<Rightarrow> raw)) (read_text read_file path)"

record ResolvedMod =
  rm_descriptor :: ModDescriptor
  rm_root :: rstr

definition is_mod_name :: "rstr \<Rightarrow> bool" where
  "is_mod_name name \<longleftrightarrow> (case path_extension_of name of Some e \<Rightarrow> eq_ignore_ascii_case e ''mod'' | None \<Rightarrow> False)"

definition resolve_mod :: "Os \<Rightarrow> rstr \<Rightarrow> rstr \<Rightarrow> ResolvedMod option" where
  "resolve_mod os workspace path =
     (case parse_mod_descriptor (os_read os) path of
        Inl _ \<Rightarrow> None
      | Inr desc \<Rightarrow>
          (case md_path desc of
             None \<Rightarrow> None
           | Some mod_path \<Rightarrow>
               (let root = path_join workspace mod_path
                in if is_dir os root then Some \<lparr>rm_descriptor = desc, rm_root = root\<rparr> else None)))"

definition mods_in_folder :: "Os \<Rightarrow> rstr \<Rightarrow> rstr \<Rightarrow> ResolvedMod list" where
  "mods_in_folder os workspace mod_folder_name =
     (let mod_folder = path_join workspace mod_folder_name
      in if \<not> is_dir os mod_folder then []
         else (case os_dir os mod_folder of
                 ReadError _ \<Rightarrow> []
               | Listing _ found \<Rightarrow>
                   List.map_filter (\<lambda>(name, _, _). if is_mod_name name then resolve_mod os workspace (path_join mod_folder name) else None) found))"

definition expand_multiple_mods :: "Os \<Rightarrow> rstr \<Rightarrow> ResolvedMod list" where
  "expand_multiple_mods os workspace =
     sort_key (\<lambda>m. md_name (rm_descriptor m)) (mods_in_folder os workspace ''mod'' @ mods_in_folder os workspace ''mods'')"

section \<open>Layers of mods\<close>

text \<open>The best file of each logical path so far: where it is and which source it comes from.\<close>

type_synonym BestFiles = "(rstr \<times> rstr \<times> nat) list"

definition add_file :: "rstr \<Rightarrow> nat \<Rightarrow> rstr \<Rightarrow> BestFiles \<Rightarrow> BestFiles" where
  "add_file root_prefix priority path best =
     (let logical = compute_logical_path_with_root path root_prefix
      in case map_of best logical of
           None \<Rightarrow> best @ [(logical, path, priority)]
         | Some (_, p) \<Rightarrow> if p < priority then AList.update logical (path, priority) best else best)"

type_synonym LayerWalk = "rstr \<Rightarrow> BestFiles \<times> nat \<Rightarrow> BestFiles \<times> nat"

fun layer_entries :: "(rstr \<Rightarrow> BestFiles \<Rightarrow> BestFiles) \<Rightarrow> rstr \<Rightarrow> (rstr \<times> FileType \<times> LayerWalk) list \<Rightarrow> BestFiles \<times> nat \<Rightarrow> BestFiles \<times> nat" where
  "layer_entries add dir [] st = st"
| "layer_entries add dir ((name, ft, walk) # kids) st =
     (if snd st = 0 then st
      else (let path = path_join dir name;
                st1 = (if ft = TypeSymlink \<or> \<not> (ft = TypeDir \<or> ft = TypeFile) then st
                       else if ft = TypeDir then (if is_excluded_dir name then st else walk path st)
                       else (add path (fst st), snd st - 1))
            in layer_entries add dir kids st1))"

primrec collect_files_recursive :: "rstr \<Rightarrow> nat \<Rightarrow> DirListing \<Rightarrow> LayerWalk" where
  "collect_files_recursive root_prefix priority (ReadError _) = (\<lambda>dir st. st)"
| "collect_files_recursive root_prefix priority (Listing errors found) = (\<lambda>dir.
     layer_entries (add_file root_prefix priority) dir
       (List.map_filter typed_entry (map (map_prod id (map_prod id (collect_files_recursive root_prefix priority))) found)))"

definition collect_source :: "Os \<Rightarrow> rstr list \<Rightarrow> nat \<times> rstr \<Rightarrow> BestFiles \<times> nat \<Rightarrow> BestFiles \<times> nat" where
  "collect_source os include_dirs source =
     (case source of (priority, root) \<Rightarrow>
        fold (\<lambda>include_dir st.
            (let dir = (if include_dir = ''.'' then root else path_join root include_dir)
             in if \<not> is_dir os dir then st
                else collect_files_recursive (normalize_root_prefix root) priority (os_dir os dir) dir st)) include_dirs)"

definition under_replace_path :: "rstr \<Rightarrow> rstr \<Rightarrow> bool" where
  "under_replace_path rp logical \<longleftrightarrow>
     (let prefix_lower = to_ascii_lowercase (trim_matches (CHR ''/'') (normalize_slashes rp));
          ll = to_ascii_lowercase logical
      in ll = prefix_lower \<or> starts_with ll (prefix_lower @ ''/''))"

definition suppress_layer :: "nat \<times> ResolvedMod \<Rightarrow> BestFiles \<Rightarrow> BestFiles" where
  "suppress_layer im best =
     (case im of (i, m) \<Rightarrow>
        fold (\<lambda>rp. filter (\<lambda>(logical, _, file_prio). \<not> (under_replace_path rp logical \<and> file_prio < i + 1)))
          (md_replace_paths (rm_descriptor m)) best)"

definition layer_sources :: "rstr option \<Rightarrow> ResolvedMod list \<Rightarrow> (nat \<times> rstr) list" where
  "layer_sources vanilla_root mods =
     (case vanilla_root of Some v \<Rightarrow> [(0, v)] | None \<Rightarrow> []) @ map (\<lambda>(i, m). (i + 1, rm_root m)) (enumerate 0 mods)"

definition discover_files_multi_mod :: "Os \<Rightarrow> rstr option \<Rightarrow> ResolvedMod list \<Rightarrow> rstr list \<Rightarrow> ScanBudget \<Rightarrow> (rstr \<times> rstr) list" where
  "discover_files_multi_mod os vanilla_root mods include_dirs budget =
     (let (best, _) = fold (collect_source os include_dirs) (layer_sources vanilla_root mods) ([], sb_max_files budget);
          best1 = fold suppress_layer (rev (enumerate 0 mods)) best
      in sort_key snd (map (\<lambda>(logical, path, _). (path, logical)) best1))"

section \<open>What a directory is\<close>

datatype DirectoryType = Vanilla | Mod | MultipleMod | UnknownDirectory

definition looks_like_game_folder :: "Os \<Rightarrow> rstr \<Rightarrow> bool" where
  "looks_like_game_folder os d = list_ex (\<lambda>sub. is_dir os (path_join d sub)) [''common'', ''events'', ''interface'', ''gfx'', ''localisation'']"

definition has_mod_files :: "Os \<Rightarrow> rstr \<Rightarrow> bool" where
  "has_mod_files os mod_folder =
     (case os_dir os mod_folder of ReadError _ \<Rightarrow> False | Listing _ found \<Rightarrow> list_ex (\<lambda>(name, _, _). is_mod_name name) found)"

definition classify_directory :: "Os \<Rightarrow> rstr \<Rightarrow> DirectoryType" where
  "classify_directory os dir =
     (let game_sub = path_join dir ''game''
      in if is_dir os game_sub \<and> looks_like_game_folder os game_sub then Vanilla
         else if looks_like_game_folder os dir then Mod
         else if list_ex (\<lambda>f. is_dir os (path_join dir f) \<and> has_mod_files os (path_join dir f)) [''mod'', ''mods''] then MultipleMod
         else UnknownDirectory)"

section \<open>Reading and parsing what was discovered\<close>

record ScriptFile =
  sf_path :: rstr
  sf_logical_path :: rstr
  sf_arena :: Arena
  sf_root_children :: "Child list"
  sf_errors :: "ParseError list"

definition script_file :: "rstr \<Rightarrow> rstr \<Rightarrow> ParsedFile \<Rightarrow> ScriptFile" where
  "script_file path logical_path parsed =
     \<lparr>sf_path = path, sf_logical_path = logical_path, sf_arena = pf_arena parsed,
      sf_root_children = root_children parsed, sf_errors = pf_errors parsed\<rparr>"

text \<open>One file against the string table and the bytes reserved so far. The inner option is a file that is
  skipped with a warning.\<close>

definition parse_discovered :: "rust_env \<Rightarrow> Os \<Rightarrow> u64 \<Rightarrow> u64 \<Rightarrow> DiscoveredFile \<Rightarrow> StringTable \<times> u64 \<Rightarrow> (ScriptFile option \<times> StringTable \<times> u64) option" where
  "parse_discovered E os max_file_size max_bytes file st =
     (case read_text_capped (os_read os) (df_path file) max_file_size of
        Inl _ \<Rightarrow> Some (None, st)
      | Inr (content, n) \<Rightarrow>
          (let (table, used) = st; (ok, used') = try_reserve n max_bytes used
           in if \<not> ok then Some (None, table, used')
              else map_option (\<lambda>(parsed, table'). (Some (script_file (df_path file) (df_logical_path file) parsed), table', used'))
                     (parse_string_without_comments E content table)))"

fun parse_all_discovered :: "rust_env \<Rightarrow> Os \<Rightarrow> u64 \<Rightarrow> u64 \<Rightarrow> DiscoveredFile list \<Rightarrow> StringTable \<times> u64 \<Rightarrow> (ScriptFile list \<times> StringTable \<times> u64) option" where
  "parse_all_discovered E os max_file_size max_bytes [] st = Some ([], st)"
| "parse_all_discovered E os max_file_size max_bytes (file # files) st =
     (case parse_discovered E os max_file_size max_bytes file st of
        None \<Rightarrow> None
      | Some (parsed, st1) \<Rightarrow>
          map_option (\<lambda>(rest, st2). ((case parsed of None \<Rightarrow> rest | Some p \<Rightarrow> p # rest), st2))
            (parse_all_discovered E os max_file_size max_bytes files st1))"

definition discover_and_parse :: "rust_env \<Rightarrow> Os \<Rightarrow> FileManagerConfig \<Rightarrow> StringTable \<Rightarrow> (FileError + ScriptFile list \<times> StringTable) option" where
  "discover_and_parse E os cfg table =
     (case discover_files os cfg of
        Inl e \<Rightarrow> Some (Inl e)
      | Inr files \<Rightarrow>
          map_option (\<lambda>(parsed, table', _). Inr (parsed, table'))
            (parse_all_discovered E os (fc_max_file_size cfg) (sb_max_bytes (fc_scan_budget cfg)) files (table, 0)))"

definition discover_multi_mod_scripts :: "Os \<Rightarrow> FileManagerConfig \<Rightarrow> DiscoveredFile list" where
  "discover_multi_mod_scripts os cfg =
     map (\<lambda>(path, logical_path). \<lparr>df_path = path, df_logical_path = logical_path\<rparr>)
       (filter (\<lambda>(path, logical_path). accept_script_file cfg (last_piece (CHR ''/'') path) logical_path (os_len os path))
         (discover_files_multi_mod os None (expand_multiple_mods os (fc_root cfg)) (fc_include_dirs cfg) (fc_scan_budget cfg)))"

definition discover_and_parse_multi_mod :: "rust_env \<Rightarrow> Os \<Rightarrow> FileManagerConfig \<Rightarrow> StringTable \<Rightarrow> (ScriptFile list \<times> StringTable) option" where
  "discover_and_parse_multi_mod E os cfg table =
     map_option (\<lambda>(parsed, table', _). (parsed, table'))
       (parse_all_discovered E os (fc_max_file_size cfg) (sb_max_bytes (fc_scan_budget cfg)) (discover_multi_mod_scripts os cfg) (table, 0))"

definition parse_single_file :: "rust_env \<Rightarrow> Os \<Rightarrow> FileManagerConfig \<Rightarrow> rstr \<Rightarrow> StringTable \<Rightarrow> (FileError + ScriptFile \<times> StringTable) option" where
  "parse_single_file E os cfg path table =
     (case read_text (os_read os) path of
        Inl e \<Rightarrow> Some (Inl e)
      | Inr content \<Rightarrow>
          map_option (\<lambda>(parsed, table'). Inr (script_file path (compute_logical_path path (fc_root cfg)) parsed, table'))
            (parse_string E content table))"

text \<open>A cap of zero refuses every file that has a byte.\<close>

lemma no_limit_reads_nothing:
  assumes "read_text_capped read_file path 0 = Inr (content, n)"
  shows "read_file path = Inr []"
proof (cases "read_file path")
  case (Inr whole)
  have "sat_add_u64 0 1 = 1" by (simp add: sat_add_u64_def)
  then show ?thesis using assms
    by (cases whole) (simp_all add: read_text_capped_def read_text_capped_with_encoding_def Inr Let_def split_beta split: if_splits)
qed (use assms in \<open>simp add: read_text_capped_def read_text_capped_with_encoding_def\<close>)

end
