(* ===== verification/Discovery_Properties.thy ===== *)
theory Discovery_Properties
  imports File_Discovery
begin

text \<open>
  What discovery promises: which files a walk takes, and which file of several mods wins a logical path.
\<close>

section \<open>Layers\<close>












section \<open>Who wins a logical path\<close>









section \<open>Replaced paths\<close>










section \<open>The walk under one root\<close>

text \<open>What a walk with no limit would accept: entries in byte order of their names, directories that are not left
  out in place of their name.\<close>

definition entry_items :: "(rstr \<Rightarrow> rstr \<Rightarrow> bool) \<Rightarrow> (rstr \<Rightarrow> 'a option) \<Rightarrow> rstr \<Rightarrow> rstr \<times> FileType \<times> (rstr \<Rightarrow> bool \<Rightarrow> 'a list) \<Rightarrow> 'a list" where
  "entry_items skip accept dir e =
     (case e of (name, ft, below) \<Rightarrow>
        (let path = path_join dir name
         in case ft of
              TypeDir \<Rightarrow> if skip name path then [] else below path False
            | TypeFile \<Rightarrow> (case accept path of Some item \<Rightarrow> [item] | None \<Rightarrow> [])
            | _ \<Rightarrow> []))"

primrec accepted_items :: "FileManagerConfig \<Rightarrow> rstr list \<Rightarrow> rstr \<Rightarrow> (rstr \<Rightarrow> 'a option) \<Rightarrow> DirListing \<Rightarrow> rstr \<Rightarrow> bool \<Rightarrow> 'a list" where
  "accepted_items cfg globs root_prefix accept (ReadError e) = (\<lambda>dir is_root_level. [])"
| "accepted_items cfg globs root_prefix accept (Listing errors found) = (\<lambda>dir is_root_level.
     (if errors \<noteq> [] then []
      else concat (map (entry_items (skip_dir cfg globs root_prefix is_root_level) accept dir)
        (sort_key fst (List.map_filter typed_entry (map (map_prod id (map_prod id (accepted_items cfg globs root_prefix accept))) found))))))"

lemma walk_entries_takes:
  assumes "\<And>name t l d n. (name, t, l) \<in> set kids \<Longrightarrow> \<exists>failed errs. walk l d False n = (failed, take n (below l d False), errs, n - length (below l d False))"
  shows "\<exists>errs. walk_entries skip accept dir (map (map_prod id (map_prod id walk)) kids) n =
    (take n (concat (map (entry_items skip accept dir) (map (map_prod id (map_prod id below)) kids))), errs,
     n - length (concat (map (entry_items skip accept dir) (map (map_prod id (map_prod id below)) kids))))"
  using assms
proof (induction kids arbitrary: n)
  case (Cons kid kids)
  obtain name t l where kid: "kid = (name, t, l)" by (cases kid) auto
  define K where "K = concat (map (entry_items skip accept dir) (map (map_prod id (map_prod id below)) kids))"
  define W where "W = map (map_prod id (map_prod id walk)) kids"
  have rest: "\<exists>errs. walk_entries skip accept dir W m = (take m K, errs, m - length K)" for m
    unfolding W_def K_def by (rule Cons.IH) (rule Cons.prems, erule list.set_intros(2))
  let ?p = "path_join dir name"
  obtain failed errs1 where here: "walk l ?p False n = (failed, take n (below l ?p False), errs1, n - length (below l ?p False))"
    using Cons.prems [of name t l ?p n] by (auto simp: kid)
  obtain errs2 where rest1: "walk_entries skip accept dir W (n - length (below l ?p False)) =
      (take (n - length (below l ?p False)) K, errs2, n - length (below l ?p False) - length K)" using rest by blast
  obtain errs3 where rest2: "walk_entries skip accept dir W n = (take n K, errs3, n - length K)" using rest by blast
  obtain errs4 where rest3: "walk_entries skip accept dir W (n - Suc 0) = (take (n - Suc 0) K, errs4, n - Suc 0 - length K)"
    using rest by blast
  have head: "map (map_prod id (map_prod id walk)) (kid # kids) = (name, t, walk l) # W"
    "concat (map (entry_items skip accept dir) (map (map_prod id (map_prod id below)) (kid # kids))) =
       entry_items skip accept dir (name, t, below l) @ K" by (simp_all add: kid W_def K_def)
  show ?case unfolding head
    by (cases "n = 0"; cases t)
      (auto simp: here rest1 rest2 rest3 entry_items_def Let_def take_Cons' diff_diff_left split: option.split)
qed simp

text \<open>The walk below one root accepts the first items of one fixed order, exactly as many as its budget allows:
it visits the entries of a directory by name, leaves out the directories the configuration names (the ones for
the root only at the root), never follows a link, and goes on past a child directory it cannot read. The failure
of a directory it starts from is the only one returned.\<close>

theorem generic_walk_takes_first:
  "\<exists>errs. walk_dir_generic cfg globs root_prefix accept listing dir is_root_level max_files =
     ((case listing of ReadError e \<Rightarrow> Some e | Listing (e # _) _ \<Rightarrow> Some e | Listing [] _ \<Rightarrow> None),
      take max_files (accepted_items cfg globs root_prefix accept listing dir is_root_level), errs,
      max_files - length (accepted_items cfg globs root_prefix accept listing dir is_root_level))"
proof (induction listing arbitrary: dir is_root_level max_files)
  case (Listing errors found)
  show ?case
  proof (cases errors)
    case Nil
    let ?kids = "sort_key fst (List.map_filter typed_entry found)"
    let ?W = "walk_dir_generic cfg globs root_prefix accept" and ?A = "accepted_items cfg globs root_prefix accept"
    have kids: "sort_key fst (List.map_filter typed_entry (map (map_prod id (map_prod id f)) found)) =
        map (map_prod id (map_prod id f)) ?kids" for f :: "DirListing \<Rightarrow> 'b"
      by (simp add: typed_entries sort_key_map)
    have "\<exists>failed errs. ?W l d False n = (failed, take n (?A l d False), errs, n - length (?A l d False))"
      if kid: "(name, t, l) \<in> set ?kids" for name t l d n
    proof -
      have "(name, t, l) \<in> set (List.map_filter typed_entry found)" using kid by simp
      from typed_entry_in [OF this] obtain ft where "(name, ft, l) \<in> set found" ..
      from Listing [OF this, of "(ft, l)" l d False n] show ?thesis by auto
    qed
    from walk_entries_takes [of ?kids ?W ?A, OF this] show ?thesis by (simp add: Nil kids)
  qed simp
qed simp

end
