(* ===== verification/Loc_String.thy ===== *)
theory Loc_String
  imports Rust_Strings
begin

text \<open>
  The elements of a localisation value (\<open>crates/localization/src/loc_string.rs\<close>): references between dollar signs,
  bracketed commands, chains of Jomini commands, and the text between them.
\<close>

section \<open>Elements of a value\<close>

datatype JominiCommand = JominiCommand (jc_key: rstr) (jc_params: "JominiParam list")
  and JominiParam = ParamLiteral rstr | ParamCommands "JominiCommand list"

datatype LocElement = LocChars rstr | LocRef rstr | LocCommand rstr | LocJomini "JominiCommand list"

datatype JominiParseError = UnclosedParen

text \<open>The offset of the first byte at or after \<open>start\<close> that satisfies a test.\<close>

definition position_from :: "(char \<Rightarrow> bool) \<Rightarrow> rstr \<Rightarrow> nat \<Rightarrow> nat option" where
  "position_from p s start =
     (let n = length (takeWhile (\<lambda>b. \<not> p b) (drop start s)) in if start + n < length s then Some (start + n) else None)"

lemma position_from_bounds: "position_from p s start = Some i \<Longrightarrow> start \<le> i \<and> i < length s"
  by (auto simp: position_from_def Let_def split: if_splits)

lemma takeWhile_stop: "length (takeWhile p xs) < length xs \<Longrightarrow> \<not> p (xs ! length (takeWhile p xs))"
  by (induction xs) auto

lemma position_from_holds: "position_from p s start = Some i \<Longrightarrow> p (s ! i) \<and> (\<forall>j. start \<le> j \<and> j < i \<longrightarrow> \<not> p (s ! j))"
proof (intro conjI allI impI)
  assume a: "position_from p s start = Some i"
  let ?n = "length (takeWhile (\<lambda>b. \<not> p b) (drop start s))"
  have i: "i = start + ?n" "start + ?n < length s" using a by (auto simp: position_from_def Let_def split: if_splits)
  show "p (s ! i)" using takeWhile_stop [of "\<lambda>b. \<not> p b" "drop start s"] i by simp
  fix j assume "start \<le> j \<and> j < i"
  then have j: "j - start < ?n" and split: "start + (j - start) = j" using i by auto
  have "takeWhile (\<lambda>b. \<not> p b) (drop start s) ! (j - start) = s ! j"
    using takeWhile_nth [OF j] nth_drop [of start s "j - start"] i split by simp
  then show "\<not> p (s ! j)" using nth_mem [OF j] set_takeWhileD by fastforce
qed

definition next_special :: "rstr \<Rightarrow> nat \<Rightarrow> nat" where
  "next_special s start =
     (case position_from (\<lambda>b. b \<in> {CHR ''$'', CHR ''['', CHR '']''}) s start of Some i \<Rightarrow> i | None \<Rightarrow> length s)"

lemma next_special_bounds: "start \<le> length s \<Longrightarrow> start \<le> next_special s start \<and> next_special s start \<le> length s"
  by (auto simp: next_special_def dest: position_from_bounds split: option.split)

definition slice :: "rstr \<Rightarrow> nat \<Rightarrow> nat \<Rightarrow> rstr" where
  "slice s a b = take (b - a) (drop a s)"

definition is_loc_ref_key :: "rstr \<Rightarrow> bool" where
  "is_loc_ref_key key \<longleftrightarrow> key \<noteq> [] \<and> (\<forall>b \<in> set key. is_alnum_byte b \<or> b = CHR ''_'' \<or> b = CHR ''.'')"

definition parse_ref :: "rstr \<Rightarrow> nat \<Rightarrow> (LocElement \<times> nat) option" where
  "parse_ref s start =
     (let content_start = start + 1
      in do {
           key_end \<leftarrow> position_from (\<lambda>b. b = CHR ''$'' \<or> b = CHR ''|'') s content_start;
           let key = slice s content_start key_end;
           if \<not> is_loc_ref_key key then None
           else if s ! key_end = CHR ''|''
           then do {
                  close \<leftarrow> position_from (\<lambda>b. b = CHR ''$'') s (key_end + 1);
                  Some (LocRef key, close + 1)
                }
           else Some (LocRef key, key_end + 1)
         })"

section \<open>Jomini commands\<close>

text \<open>\<open>parse_jomini\<close>, \<open>parse_jomini_params\<close> and \<open>parse_jomini_param\<close> call each other; the two inner ones take the
  outer one as an argument, which makes the recursion a recursion over the length of the text.\<close>

fun parse_jomini_params ::
  "(rstr \<Rightarrow> JominiParseError + JominiParam) \<Rightarrow> rchar list \<Rightarrow> rstr \<Rightarrow> JominiParam list \<Rightarrow>
     JominiParseError + JominiParam list \<times> rchar list"
where
  "parse_jomini_params param [] current params = Inl UnclosedParen"
| "parse_jomini_params param (ch # rest) current params =
     (if ch = '')''
      then if trim current = [] then Inr (params, rest)
           else (case param current of Inl e \<Rightarrow> Inl e | Inr p \<Rightarrow> Inr (params @ [p], rest))
      else if ch = '',''
      then if trim current = [] then parse_jomini_params param rest [] params
           else (case param current of Inl e \<Rightarrow> Inl e | Inr p \<Rightarrow> parse_jomini_params param rest [] (params @ [p]))
      else parse_jomini_params param rest (current @ ch) params)"

definition parse_jomini_param :: "(rstr \<Rightarrow> JominiParseError + JominiCommand list) \<Rightarrow> rstr \<Rightarrow> JominiParseError + JominiParam" where
  "parse_jomini_param jomini s =
     (let trimmed = trim s
      in if 2 \<le> length trimmed \<and> starts_with trimmed [CHR 0x27] \<and> ends_with trimmed [CHR 0x27]
         then Inr (ParamLiteral (slice trimmed 1 (length trimmed - 1)))
         else if CHR ''.'' \<in> set trimmed then map_sum id ParamCommands (jomini trimmed)
         else Inr (ParamLiteral trimmed))"

lemma params_rest: "parse_jomini_params param cs current params = Inr (ps, rest) \<Longrightarrow> length (concat rest) \<le> length (concat cs) \<and> length rest < length cs"
  by (induction cs arbitrary: current params) (force split: if_splits sum.splits)+

lemma params_cong [fundef_cong]:
  assumes "cs = cs'" "current = current'" "params = params'"
    and "\<And>s. length s \<le> length (concat cs') + length current' \<Longrightarrow> param s = param' s"
  shows "parse_jomini_params param cs current params = parse_jomini_params param' cs' current' params'"
proof -
  have "(\<And>s. length s \<le> length (concat cs') + length current' \<Longrightarrow> param s = param' s) \<Longrightarrow>
    parse_jomini_params param cs' current' params' = parse_jomini_params param' cs' current' params'"
  proof (induction cs' arbitrary: current' params')
    case (Cons c cs')
    have rec: "parse_jomini_params param cs' cur ps = parse_jomini_params param' cs' cur ps"
      if "length cur \<le> length current' + length c" for cur ps
      using Cons.prems that by (intro Cons.IH) auto
    have now: "param current' = param' current'" by (rule Cons.prems) simp
    show ?case by (simp add: now rec split: sum.split)
  qed simp
  with assms show ?thesis by simp
qed

lemma length_trim_le: "length (trim s) \<le> length s"
proof -
  have "length (concat (dropWhile p xs)) \<le> length (concat xs)" for p and xs :: "rstr list"
    by (induction xs) auto
  from this [of is_whitespace "chars s"] have a: "length (trim_start s) \<le> length s" by (simp add: trim_start_def)
  have rev: "length (concat (rev xs)) = length (concat xs)" for xs :: "rstr list" by (simp add: length_concat rev_map [symmetric])
  have "length (trim_end t) \<le> length t" for t
  proof -
    have "length (concat (dropWhile is_whitespace (rev (chars t)))) \<le> length (concat (rev (chars t)))"
      by (rule \<open>\<And>xs p. length (concat (dropWhile p xs)) \<le> length (concat xs)\<close>)
    then show ?thesis by (simp add: trim_end_def rev)
  qed
  with a show ?thesis unfolding trim_def using le_trans by blast
qed

lemma param_cong [fundef_cong]:
  assumes "s = s'" "\<And>t. length t \<le> length s' \<Longrightarrow> jomini t = jomini' t"
  shows "parse_jomini_param jomini s = parse_jomini_param jomini' s'"
  using assms length_trim_le by (simp add: parse_jomini_param_def Let_def)

function jomini_loop :: "rchar list \<Rightarrow> rstr \<Rightarrow> JominiCommand list \<Rightarrow> JominiParseError + JominiCommand list" where
  "jomini_loop [] current commands =
     Inr (if current = [] then commands else commands @ [JominiCommand current []])"
| "jomini_loop (ch # rest) current commands =
     (if ch = ''.''
      then if current = [] then jomini_loop rest current commands
           else jomini_loop rest [] (commands @ [JominiCommand current []])
      else if ch = ''(''
      then (case parse_jomini_params (parse_jomini_param (\<lambda>t. jomini_loop (chars t) [] [])) rest [] [] of
              Inl e \<Rightarrow> Inl e
            | Inr (params, rest') \<Rightarrow> jomini_loop rest' [] (commands @ [JominiCommand current params]))
      else if ch = '' '' \<or> ch = '','' then jomini_loop rest current commands
      else jomini_loop rest (current @ ch) commands)"
  by pat_completeness auto
termination
  by (relation "measures [\<lambda>(cs, _, _). length (concat cs), \<lambda>(cs, _, _). length cs]") (auto dest!: params_rest)

definition parse_jomini :: "rstr \<Rightarrow> JominiParseError + JominiCommand list" where
  "parse_jomini input = jomini_loop (chars input) [] []"

section \<open>Brackets and the scan\<close>

fun bracket_end :: "rstr \<Rightarrow> nat \<Rightarrow> nat \<Rightarrow> nat \<times> nat" where
  "bracket_end [] depth i = (depth, i)"
| "bracket_end (b # bs) depth i =
     (if depth = 0 then (depth, i)
      else bracket_end bs (if b = CHR ''['' then depth + 1 else if b = CHR '']'' then depth - 1 else depth) (i + 1))"

definition parse_bracket :: "rstr \<Rightarrow> nat \<Rightarrow> (LocElement \<times> nat) option" where
  "parse_bracket s start =
     (let (depth, i) = bracket_end (drop (start + 1) s) 1 (start + 1)
      in if depth \<noteq> 0 then None
         else (let content = slice s (start + 1) (i - 1);
                   command = (case find_sub ''|'' content of Some p \<Rightarrow> take p content | None \<Rightarrow> content)
               in if CHR ''.'' \<in> set content \<or> CHR ''('' \<in> set content
                  then (case parse_jomini content of
                          Inr commands \<Rightarrow> Some (LocJomini commands, i)
                        | Inl _ \<Rightarrow> Some (LocCommand command, i))
                  else Some (LocCommand command, i)))"

text \<open>One pass from the end; the offsets are collected in descending order.\<close>

definition unmatched_step :: "nat \<times> char \<Rightarrow> nat list \<times> nat \<Rightarrow> nat list \<times> nat" where
  "unmatched_step =
     (\<lambda>(i, b) (unmatched, closers).
        if b = CHR '']'' then (unmatched, closers + 1)
        else if b = CHR ''['' then if 0 < closers then (unmatched, closers - 1) else (unmatched @ [i], closers)
        else (unmatched, closers))"

definition unmatched_opens :: "rstr \<Rightarrow> nat list" where
  "unmatched_opens bytes = fst (fold unmatched_step (rev (List.enumerate 0 bytes)) ([], 0))"

text \<open>\<open>u.last() != Some(&i)\<close>, and the entries passed over, popped from the back.\<close>

definition known_unmatched :: "nat list option \<Rightarrow> nat \<Rightarrow> bool" where
  "known_unmatched unmatched i \<longleftrightarrow> (case unmatched of None \<Rightarrow> False | Some u \<Rightarrow> u \<noteq> [] \<and> last u = i)"

definition pop_passed :: "nat \<Rightarrow> nat list \<Rightarrow> nat list" where
  "pop_passed i u = rev (dropWhile (\<lambda>p. p \<le> i) (rev u))"

definition parse_at :: "rstr \<Rightarrow> nat list option \<Rightarrow> nat \<Rightarrow> (LocElement \<times> nat) option" where
  "parse_at s unmatched i =
     (if s ! i = CHR ''$'' then parse_ref s i
      else if s ! i = CHR ''['' \<and> \<not> known_unmatched unmatched i then parse_bracket s i
      else None)"

definition flush_literal :: "rstr \<Rightarrow> nat option \<Rightarrow> nat \<Rightarrow> LocElement list" where
  "flush_literal s literal_start i = (case literal_start of None \<Rightarrow> [] | Some start \<Rightarrow> [LocChars (slice s start i)])"

lemma bracket_end_ge: "i \<le> snd (bracket_end bs d i)"
  by (induction bs arbitrary: d i) (auto intro: Suc_leD)

lemma parse_bracket_moves: "parse_bracket s i = Some (e, j) \<Longrightarrow> i < j"
  using bracket_end_ge [of "i + 1" "drop (i + 1) s" 1]
  by (auto simp: parse_bracket_def Let_def split: if_splits prod.splits sum.splits)

lemma parse_ref_moves: "parse_ref s i = Some (e, j) \<Longrightarrow> i < j"
  by (auto simp: parse_ref_def Let_def bind_eq_Some_conv split: if_splits dest!: position_from_bounds)

lemma parse_at_moves: "parse_at s u i = Some (e, j) \<Longrightarrow> i < j"
  by (auto simp: parse_at_def dest: parse_ref_moves parse_bracket_moves split: if_splits)

function elements_loop :: "rstr \<Rightarrow> nat \<Rightarrow> nat option \<Rightarrow> nat list option \<Rightarrow> LocElement list" where
  "elements_loop s i literal_start unmatched =
     (if i < length s
      then (case parse_at s unmatched i of
              Some (elem, new_i) \<Rightarrow> flush_literal s literal_start i @ elem # elements_loop s new_i None unmatched
            | None \<Rightarrow>
                elements_loop s (next_special s (i + 1))
                  (Some (case literal_start of None \<Rightarrow> i | Some start \<Rightarrow> start))
                  (if s ! i = CHR ''['' then Some (pop_passed i (case unmatched of Some u \<Rightarrow> u | None \<Rightarrow> unmatched_opens s))
                   else unmatched))
      else flush_literal s literal_start (length s))"
  by pat_completeness auto
termination
proof (relation "measure (\<lambda>(s, i, _, _). length s - i)", goal_cases)
  case (2 s i literal_start unmatched)
  then show ?case using next_special_bounds [of "i + 1" s] by auto
next
  case (3 s i literal_start unmatched x elem)
  then show ?case using parse_at_moves by fastforce
qed simp

declare elements_loop.simps [simp del]

definition parse_loc_elements :: "rstr \<Rightarrow> LocElement list" where
  "parse_loc_elements s = elements_loop s 0 None None"
section \<open>Unmatched brackets\<close>

text \<open>How many closers of a text are left for a bracket opened before it.\<close>

fun free_closers :: "rstr \<Rightarrow> nat" where
  "free_closers [] = 0"
| "free_closers (b # bs) =
     (if b = CHR '']'' then free_closers bs + 1 else if b = CHR ''['' then free_closers bs - 1 else free_closers bs)"

lemma bracket_closes_iff: "0 < d \<Longrightarrow> fst (bracket_end bs d i) = 0 \<longleftrightarrow> d \<le> free_closers bs"
proof (induction bs arbitrary: d i)
  case (Cons b bs)
  have zero: "fst (bracket_end bs 0 j) = 0" for j by (cases bs) auto
  show ?case
  proof (cases "d = 1 \<and> b = CHR '']''")
    case True
    then show ?thesis by (simp add: zero)
  next
    case False
    then have pos: "0 < (if b = CHR ''['' then d + 1 else if b = CHR '']'' then d - 1 else d)" using Cons.prems by auto
    show ?thesis using Cons.IH [OF pos] Cons.prems by auto
  qed
qed simp

lemma parse_bracket_None_iff: "parse_bracket s i = None \<longleftrightarrow> free_closers (drop (i + 1) s) = 0"
proof -
  have "parse_bracket s i = None \<longleftrightarrow> fst (bracket_end (drop (i + 1) s) 1 (i + 1)) \<noteq> 0"
    by (auto simp: parse_bracket_def Let_def split: prod.splits sum.splits)
  also have "\<dots> \<longleftrightarrow> \<not> 1 \<le> free_closers (drop (i + 1) s)"
    by (subst bracket_closes_iff) auto
  finally show ?thesis by auto
qed

lemma unmatched_fold:
  "fold unmatched_step (rev (List.enumerate n bs)) ([], 0) = (u, c) \<Longrightarrow>
     c = free_closers bs \<and>
     (\<forall>i. i \<in> set u \<longleftrightarrow> n \<le> i \<and> i < n + length bs \<and> bs ! (i - n) = CHR ''['' \<and> free_closers (drop (i - n + 1) bs) = 0)"
proof (induction bs arbitrary: n u c)
  case (Cons b bs)
  obtain u' c' where r: "fold unmatched_step (rev (List.enumerate (Suc n) bs)) ([], 0) = (u', c')"
    by (cases "fold unmatched_step (rev (List.enumerate (Suc n) bs)) ([], 0)")
  note ih = Cons.IH [OF r]
  have c': "c' = free_closers bs" using ih by blast
  have step: "unmatched_step (n, b) (u', c') = (u, c)" using Cons.prems by (simp add: r)
  have tail: "i \<in> set u' \<longleftrightarrow>
     n < i \<and> i < n + length (b # bs) \<and> (b # bs) ! (i - n) = CHR ''['' \<and> free_closers (drop (i - n + 1) (b # bs)) = 0" for i
  proof (cases "n < i")
    case True
    then obtain k where "i = Suc (n + k)" using less_iff_Suc_add by blast
    then show ?thesis using ih by simp
  next
    case False
    then show ?thesis using ih by auto
  qed
  show ?case
  proof (intro conjI allI)
    show "c = free_closers (b # bs)" using step c' by (auto simp: unmatched_step_def split: if_splits)
    have u: "u = (if b = CHR ''['' \<and> c' = 0 then u' @ [n] else u')"
      using step by (auto simp: unmatched_step_def split: if_splits)
    fix i
    show "i \<in> set u \<longleftrightarrow> n \<le> i \<and> i < n + length (b # bs) \<and> (b # bs) ! (i - n) = CHR ''['' \<and>
        free_closers (drop (i - n + 1) (b # bs)) = 0"
    proof (cases "i = n")
      case True
      have "n \<notin> set u'" by (simp add: tail)
      then show ?thesis using True by (simp add: u c')
    next
      case False
      then have "i \<in> set u \<longleftrightarrow> i \<in> set u'" by (simp add: u)
      then show ?thesis unfolding tail using False by (simp only: le_less) blast
    qed
  qed
qed simp

lemma unmatched_opens_iff:
  "i \<in> set (unmatched_opens s) \<longleftrightarrow> i < length s \<and> s ! i = CHR ''['' \<and> parse_bracket s i = None"
proof -
  obtain u c where r: "fold unmatched_step (rev (List.enumerate 0 s)) ([], 0) = (u, c)"
    by (cases "fold unmatched_step (rev (List.enumerate 0 s)) ([], 0)")
  show ?thesis using unmatched_fold [OF r] by (simp add: unmatched_opens_def r parse_bracket_None_iff)
qed

section \<open>The scan without the record of unmatched brackets\<close>

definition plain_at :: "rstr \<Rightarrow> nat \<Rightarrow> (LocElement \<times> nat) option" where
  "plain_at s i = (if s ! i = CHR ''$'' then parse_ref s i else if s ! i = CHR ''['' then parse_bracket s i else None)"

lemma plain_at_moves: "plain_at s i = Some (e, j) \<Longrightarrow> i < j"
  by (auto simp: plain_at_def dest: parse_ref_moves parse_bracket_moves split: if_splits)

function plain_scan :: "rstr \<Rightarrow> nat \<Rightarrow> nat option \<Rightarrow> LocElement list" where
  "plain_scan s i literal_start =
     (if i < length s
      then (case plain_at s i of
              Some (elem, new_i) \<Rightarrow> flush_literal s literal_start i @ elem # plain_scan s new_i None
            | None \<Rightarrow>
                plain_scan s (next_special s (i + 1)) (Some (case literal_start of None \<Rightarrow> i | Some start \<Rightarrow> start)))
      else flush_literal s literal_start (length s))"
  by pat_completeness auto
termination
proof (relation "measure (\<lambda>(s, i, _). length s - i)", goal_cases)
  case (2 s i literal_start)
  then show ?case using next_special_bounds [of "i + 1" s] by auto
next
  case (3 s i literal_start x elem)
  then show ?case using plain_at_moves by fastforce
qed simp

declare plain_scan.simps [simp del]

lemma memo_sound:
  assumes "\<And>u. unmatched = Some u \<Longrightarrow> set u \<subseteq> set (unmatched_opens s)"
  shows "parse_at s unmatched i = plain_at s i"
proof -
  have "parse_bracket s i = None" if known: "known_unmatched unmatched i"
  proof -
    obtain u where "unmatched = Some u" "u \<noteq> []" "last u = i"
      using known by (auto simp: known_unmatched_def split: option.splits)
    then have "i \<in> set (unmatched_opens s)" using assms last_in_set by blast
    then show ?thesis by (simp add: unmatched_opens_iff)
  qed
  then show ?thesis by (auto simp: parse_at_def plain_at_def)
qed

lemma elements_loop_plain:
  "(\<And>u. unmatched = Some u \<Longrightarrow> set u \<subseteq> set (unmatched_opens s)) \<Longrightarrow>
     elements_loop s i literal_start unmatched = plain_scan s i literal_start"
proof (induction s i literal_start unmatched rule: elements_loop.induct)
  case (1 s i literal_start unmatched)
  have at: "parse_at s unmatched i = plain_at s i" by (rule memo_sound) (rule "1.prems")
  show ?case
  proof (cases "i < length s")
    case True
    show ?thesis
    proof (cases "plain_at s i")
      case None
      have popped: "set (pop_passed i u) \<subseteq> set u" for u
        by (auto simp: pop_passed_def dest: set_dropWhileD)
      have kept: "set u \<subseteq> set (unmatched_opens s)"
        if "(if s ! i = CHR ''['' then Some (pop_passed i (case unmatched of Some u \<Rightarrow> u | None \<Rightarrow> unmatched_opens s))
             else unmatched) = Some u" for u
        using that popped "1.prems" by (fastforce split: if_splits option.splits)
      show ?thesis
        using "1.IH"(1) [OF True] None at kept True
        by (simp add: elements_loop.simps [of s i] plain_scan.simps [of s i])
    next
      case (Some r)
      obtain e j where r: "r = (e, j)" by (cases r)
      show ?thesis
        using "1.IH"(2) [OF True at [unfolded Some] r [symmetric]] Some at True "1.prems"
        by (simp add: elements_loop.simps [of s i] plain_scan.simps [of s i] r)
    qed
  next
    case False
    then show ?thesis by (simp add: elements_loop.simps [of s i] plain_scan.simps [of s i])
  qed
qed

text \<open>C27. Unmatched brackets are known before they are tried. The record the scan keeps holds exactly the
  brackets no closer matches, and the scan finds the elements it would find if it tried every bracket.\<close>

theorem elements_without_memo:
  "parse_loc_elements s = plain_scan s 0 None \<and>
   (\<forall>i. i \<in> set (unmatched_opens s) \<longleftrightarrow> i < length s \<and> s ! i = CHR ''['' \<and> parse_bracket s i = None)"
  unfolding parse_loc_elements_def unmatched_opens_iff by (subst elements_loop_plain) simp_all

end
