(* ===== verification/Loc_File.thy ===== *)
theory Loc_File
  imports Glob_Match Loc_String
begin

text \<open>
  Localisation files (\<open>commands.rs\<close>, \<open>yaml_parser.rs\<close>, \<open>csv_parser.rs\<close> and \<open>parse_loc_files\<close> of \<open>service.rs\<close> in
  \<open>crates/localization/src\<close>): languages, headers, the lines of a YAML file, the rows of a CSV file. Lines and
  columns are natural numbers (\<open>usize\<close> on 64 bits).
\<close>

section \<open>What the standard library decides beyond ASCII\<close>

text \<open>The prelude's environment, the Unicode table behind \<open>char::is_lowercase\<close>, what \<open>Debug\<close> prints for a character
  beyond ASCII, and the order in which a hash map keyed by languages is iterated.\<close>

datatype Lang = English | French | German | Spanish | Russian | Polish | BrazPor | SimpChinese | Japanese | Korean
  | Turkish | DefaultLang

record LocPosition =
  lp_stream_name :: rstr
  lp_line :: nat
  lp_column :: nat

record LocEntry =
  le_key :: rstr
  le_value :: "u32 option"
  le_desc :: rstr
  le_position :: LocPosition
  le_desc_column :: nat
  le_error_range :: "LocPosition option"
  le_refs :: "rstr list"
  le_commands :: "rstr list"
  le_jomini_commands :: "JominiCommand list list"

record LocParseError =
  lpe_line :: nat
  lpe_message :: rstr

record LocFile =
  lf_path :: rstr
  lf_language_prefix :: rstr
  lf_lang :: "Lang option"
  lf_is_csv :: bool
  lf_entries :: "LocEntry list"
  lf_parse_errors :: "LocParseError list"
  lf_encoding :: "FileEncoding option"

record loc_env =
  loc_rust :: rust_env
  loc_lower_char :: "rchar \<Rightarrow> bool"
  loc_debug_char :: "rchar \<Rightarrow> rstr"
  loc_order :: "(Lang \<times> LocEntry list) list \<Rightarrow> (Lang \<times> LocEntry list) list"

definition plain_env :: loc_env where
  "plain_env = \<lparr>loc_rust = ascii_env, loc_lower_char = (\<lambda>c. False), loc_debug_char = id, loc_order = id\<rparr>"

definition is_lowercase :: "loc_env \<Rightarrow> rchar \<Rightarrow> bool" where
  "is_lowercase E c \<longleftrightarrow> (case c of [b] \<Rightarrow> is_lower_byte b | _ \<Rightarrow> loc_lower_char E c)"

definition hex_digit :: "nat \<Rightarrow> char" where
  "hex_digit n = (if n < 10 then char_of (48 + n) else char_of (87 + n))"

definition debug_char :: "loc_env \<Rightarrow> rchar \<Rightarrow> rstr" where
  "debug_char E c =
     (case c of
        [b] \<Rightarrow>
          (let v = byte_val b; slash = CHR 0x5C
           in if v = 0 then [slash, CHR ''0'']
              else if v = 9 then [slash, CHR ''t'']
              else if v = 10 then [slash, CHR ''n'']
              else if v = 13 then [slash, CHR ''r'']
              else if v = 34 \<or> v = 92 then [slash, b]
              else if v < 16 then [slash] @ ''u{'' @ [hex_digit v] @ ''}''
              else if v < 32 \<or> v = 127 then [slash] @ ''u{'' @ [hex_digit (v div 16), hex_digit (v mod 16)] @ ''}''
              else [b])
      | _ \<Rightarrow> loc_debug_char E c)"

definition debug_str :: "loc_env \<Rightarrow> rstr \<Rightarrow> rstr" where
  "debug_str E s = [CHR 0x22] @ concat (map (debug_char E) (chars s)) @ [CHR 0x22]"

definition str_contains :: "rstr \<Rightarrow> rstr \<Rightarrow> bool" where
  "str_contains s needle \<longleftrightarrow> find_sub needle s \<noteq> None"

section \<open>Languages\<close>

fun lang_display :: "Lang \<Rightarrow> rstr" where
  "lang_display English = ''english''"
| "lang_display French = ''french''"
| "lang_display German = ''german''"
| "lang_display Spanish = ''spanish''"
| "lang_display Russian = ''russian''"
| "lang_display Polish = ''polish''"
| "lang_display BrazPor = ''braz_por''"
| "lang_display SimpChinese = ''simp_chinese''"
| "lang_display Japanese = ''japanese''"
| "lang_display Korean = ''korean''"
| "lang_display Turkish = ''turkish''"
| "lang_display DefaultLang = ''default''"

definition LANG_KEYS :: "(rstr \<times> Lang) list" where
  "LANG_KEYS =
     [(''l_english'', English), (''l_french'', French), (''l_german'', German), (''l_spanish'', Spanish),
      (''l_russian'', Russian), (''l_polish'', Polish), (''l_braz_por'', BrazPor), (''l_simp_chinese'', SimpChinese),
      (''l_japanese'', Japanese), (''l_korean'', Korean), (''l_turkish'', Turkish), (''l_default'', DefaultLang)]"

definition key_to_language :: "rstr \<Rightarrow> Lang option" where
  "key_to_language key = map_of LANG_KEYS (to_ascii_lowercase key)"

definition lang_from_name :: "rstr \<Rightarrow> Lang option" where
  "lang_from_name name =
     (let lower = to_ascii_lowercase (trim name)
      in if lower \<in> {''chinese'', ''simp_chinese''} then Some SimpChinese
         else if lower \<in> {''braz_por'', ''brazilian'', ''brazilian_portuguese''} then Some BrazPor
         else key_to_language (if starts_with lower ''l_'' then lower else ''l_'' @ lower))"

definition lang_from_filename :: "rstr \<Rightarrow> Lang option" where
  "lang_from_filename stem =
     map_option snd (List.find (\<lambda>(key, _). str_contains (to_ascii_lowercase stem) key) LANG_KEYS)"

section \<open>Names and headers\<close>

datatype MissingBomDiagnostic = MissingBom rstr

definition check_utf8_bom :: "rstr \<Rightarrow> rstr \<Rightarrow> MissingBomDiagnostic + unit" where
  "check_utf8_bom bytes file = (if 3 \<le> length bytes \<and> take 3 bytes = UTF8_BOM then Inr () else Inl (MissingBom file))"

text \<open>\<open>Path::file_name\<close> and \<open>Path::file_stem\<close> of a path with forward slashes.\<close>

definition path_file_name :: "rstr \<Rightarrow> rstr option" where
  "path_file_name path =
     (case rev (filter (\<lambda>p. p \<noteq> [] \<and> p \<noteq> ''.'') (split_byte (CHR ''/'') path)) of
        [] \<Rightarrow> None
      | name # _ \<Rightarrow> if name = ''..'' then None else Some name)"

definition path_file_stem :: "rstr \<Rightarrow> rstr option" where
  "path_file_stem path =
     map_option (\<lambda>name. let before = before_last (CHR ''.'') name in if before = [] then name else before)
       (path_file_name path)"

datatype LangHeaderDiagnostic =
    MissingLocFileLangHeader rstr
  | MissingLocFileLang rstr
  | LocFileLangMismatch rstr Lang Lang

definition check_loc_file_lang :: "rstr \<Rightarrow> rstr \<Rightarrow> LangHeaderDiagnostic option" where
  "check_loc_file_lang file header_key =
     (let stem = (case path_file_stem file of Some s \<Rightarrow> s | None \<Rightarrow> file)
      in if eq_ignore_ascii_case stem ''languages'' then None
         else if eq_ignore_ascii_case header_key ''l_default'' then None
         else (case key_to_language header_key of
                 None \<Rightarrow> Some (MissingLocFileLangHeader file)
               | Some header_lang \<Rightarrow>
                   (case lang_from_filename stem of
                      None \<Rightarrow> Some (MissingLocFileLang file)
                    | Some filename_lang \<Rightarrow>
                        if filename_lang \<noteq> header_lang then Some (LocFileLangMismatch file filename_lang header_lang)
                        else None)))"

section \<open>Characters of a value\<close>

text \<open>The scalar value of a character, from its bytes.\<close>

definition char_code :: "rchar \<Rightarrow> nat" where
  "char_code c =
     (case c of
        [a] \<Rightarrow> byte_val a
      | [a, b] \<Rightarrow> (byte_val a mod 32) * 64 + byte_val b mod 64
      | [a, b, d] \<Rightarrow> (byte_val a mod 16) * 4096 + (byte_val b mod 64) * 64 + byte_val d mod 64
      | [a, b, d, e] \<Rightarrow>
          (byte_val a mod 8) * 262144 + (byte_val b mod 64) * 4096 + (byte_val d mod 64) * 64 + byte_val e mod 64
      | _ \<Rightarrow> 0)"

definition LOC_VALUE_RANGES :: "(nat \<times> nat) list" where
  "LOC_VALUE_RANGES =
     [(0x0020, 0x007E), (0x00A0, 0x024F), (0x0400, 0x052F), (0x1E00, 0x1EFF), (0x2010, 0x2044), (0x2460, 0x24FF),
      (0x4E00, 0x9FFF), (0x3000, 0x30FF), (0x3400, 0x4DBF), (0xFE30, 0xFE4F), (0xFF00, 0xFFEF), (0x1100, 0x11FF),
      (0x3130, 0x318F), (0xAC00, 0xD7A3), (0x0600, 0x06FF), (0x0750, 0x077F), (0xFB50, 0xFDFF), (0xFE70, 0xFEFF),
      (0x0250, 0x02FF), (0x0300, 0x036F), (0x0370, 0x03FF), (0x0531, 0x058F), (0x0900, 0x097F), (0x1200, 0x137F),
      (0x20A0, 0x20CF), (0x2100, 0x218F), (0x2190, 0x21FF), (0x2D30, 0x2D7F)]"

definition is_ascii_alphabetic :: "rchar \<Rightarrow> bool" where
  "is_ascii_alphabetic c \<longleftrightarrow> (case c of [b] \<Rightarrow> is_upper_byte b \<or> is_lower_byte b | _ \<Rightarrow> False)"

definition is_loc_value_char :: "rchar \<Rightarrow> bool" where
  "is_loc_value_char c \<longleftrightarrow>
     (let u = char_code c in is_ascii_alphabetic c \<or> list_ex (\<lambda>(lo, hi). lo \<le> u \<and> u \<le> hi) LOC_VALUE_RANGES)"

fun invalid_at :: "nat \<Rightarrow> rchar list \<Rightarrow> nat option" where
  "invalid_at offset [] = None"
| "invalid_at offset (c # cs) = (if \<not> is_loc_value_char c then Some offset else invalid_at (offset + length c) cs)"

definition find_invalid_loc_char :: "rstr \<Rightarrow> nat option" where
  "find_invalid_loc_char desc = invalid_at 0 (chars desc)"

section \<open>YAML files\<close>

definition MAX_LOC_VALUE_BYTES :: nat where
  "MAX_LOC_VALUE_BYTES = 64 * 1024"

datatype LocFileParseError = EmptyFile | MissingColon rstr

definition loc_file_parse_error_text :: "loc_env \<Rightarrow> LocFileParseError \<Rightarrow> rstr" where
  "loc_file_parse_error_text E e =
     (case e of
        EmptyFile \<Rightarrow> ''empty file after stripping comments''
      | MissingColon header \<Rightarrow> ''missing '' @ [CHR 0x27] @ '':'' @ [CHR 0x27] @ '' in language header: '' @ debug_str E header)"

definition blank_or_comment :: "rstr \<Rightarrow> bool" where
  "blank_or_comment trimmed \<longleftrightarrow> trimmed = [] \<or> starts_with trimmed ''#''"

definition version_number :: "rstr \<Rightarrow> u32 option \<times> rstr" where
  "version_number remainder =
     (let digits = takeWhile is_digit_byte remainder
      in if digits = [] then (None, remainder) else (parse_u32 digits, drop (length digits) remainder))"

fun ref_of :: "LocElement \<Rightarrow> rstr option" where
  "ref_of (LocRef s) = Some s" | "ref_of _ = None"

fun command_of :: "LocElement \<Rightarrow> rstr option" where
  "command_of (LocCommand s) = Some s" | "command_of _ = None"

fun jomini_of :: "LocElement \<Rightarrow> JominiCommand list option" where
  "jomini_of (LocJomini cmds) = Some cmds" | "jomini_of _ = None"

definition parse_entry :: "loc_env \<Rightarrow> rstr \<Rightarrow> nat \<Rightarrow> rstr \<Rightarrow> LocParseError + LocEntry option" where
  "parse_entry E line line_idx stream_name =
     (let trimmed = trim_start line
      in if blank_or_comment trimmed then Inr None
         else (case find_sub '':'' trimmed of
                 None \<Rightarrow>
                   Inl \<lparr>lpe_line = line_idx + 1,
                        lpe_message = ''unexpected content (no '' @ [CHR 0x27] @ '':'' @ [CHR 0x27] @ '' separator): '' @ debug_str E trimmed\<rparr>
               | Some colon_pos \<Rightarrow>
                   (let key = trim_end (take colon_pos trimmed);
                        (version, remainder) = version_number (drop (colon_pos + 1) trimmed);
                        desc = (case strip_prefix remainder '' '' of Some r \<Rightarrow> r | None \<Rightarrow> remainder);
                        leading_ws = length line - length trimmed;
                        desc_col_offset = leading_ws + (length trimmed - length desc);
                        error_range = map_option (\<lambda>byte_off.
                          \<lparr>lp_stream_name = stream_name, lp_line = line_idx + 1,
                           lp_column = desc_col_offset + length (chars (take byte_off desc)) + 1\<rparr>) (find_invalid_loc_char desc);
                        elements = (if MAX_LOC_VALUE_BYTES < length desc then [] else parse_loc_elements desc)
                    in Inr (Some
                         \<lparr>le_key = key, le_value = version, le_desc = desc,
                          le_position = \<lparr>lp_stream_name = stream_name, lp_line = line_idx + 1, lp_column = 1\<rparr>,
                          le_desc_column = desc_col_offset, le_error_range = error_range,
                          le_refs = List.map_filter ref_of elements,
                          le_commands = List.map_filter command_of elements,
                          le_jomini_commands = List.map_filter jomini_of elements\<rparr>))))"

fun header_line :: "(nat \<times> rstr) list \<Rightarrow> (rstr \<times> (nat \<times> rstr) list) option" where
  "header_line [] = None"
| "header_line ((i, line) # rest) = (if blank_or_comment (trim_start line) then header_line rest else Some (line, rest))"

fun entry_lines :: "loc_env \<Rightarrow> rstr \<Rightarrow> (nat \<times> rstr) list \<Rightarrow> LocEntry list \<times> LocParseError list" where
  "entry_lines E stream_name [] = ([], [])"
| "entry_lines E stream_name ((i, line) # rest) =
     (let (found, parse_errors) = entry_lines E stream_name rest
      in case parse_entry E line i stream_name of
           Inr (Some entry) \<Rightarrow> (entry # found, parse_errors)
         | Inr None \<Rightarrow> (found, parse_errors)
         | Inl pe \<Rightarrow> (found, pe # parse_errors))"

text \<open>\<open>trim_start_matches\<close> of the byte-order mark.\<close>

definition strip_boms :: "rstr \<Rightarrow> rstr" where
  "strip_boms s = concat (dropWhile (\<lambda>c. c = UTF8_BOM) (chars s))"

definition parse_loc_text :: "loc_env \<Rightarrow> rstr \<Rightarrow> rstr \<Rightarrow> LocFileParseError + LocFile" where
  "parse_loc_text E s name =
     (case header_line (List.enumerate 0 (lines (strip_boms s))) of
        None \<Rightarrow> Inl EmptyFile
      | Some (header, rest) \<Rightarrow>
          (case find_sub '':'' header of
             None \<Rightarrow> Inl (MissingColon header)
           | Some colon \<Rightarrow>
               (let language_key = trim (take colon header);
                    (found, parse_errors) = entry_lines E name rest
                in Inr \<lparr>lf_path = name, lf_language_prefix = language_key, lf_lang = key_to_language language_key,
                        lf_is_csv = False, lf_entries = found, lf_parse_errors = parse_errors, lf_encoding = None\<rparr>)))"

section \<open>CSV files\<close>

definition CK2_COLUMN_LANGS :: "Lang option list" where
  "CK2_COLUMN_LANGS = [None, Some English, Some French, Some German, None, Some Spanish]"

definition csv_cell :: "rstr \<Rightarrow> nat \<Rightarrow> nat \<Rightarrow> rstr list \<Rightarrow> rstr \<Rightarrow> nat \<times> Lang option \<Rightarrow> (rstr \<times> Lang \<times> LocEntry) option" where
  "csv_cell stream_name line_num leading_ws parts key =
     (\<lambda>(col_idx, maybe_lang).
        map_option (\<lambda>lang.
          (key, lang,
           \<lparr>le_key = key, le_value = None, le_desc = (if col_idx < length parts then parts ! col_idx else []),
            le_position = \<lparr>lp_stream_name = stream_name, lp_line = line_num + 1, lp_column = 1\<rparr>,
            le_desc_column = leading_ws + (sum_list (map (\<lambda>p. length (chars p)) (take col_idx parts)) + col_idx),
            le_error_range = None, le_refs = [], le_commands = [], le_jomini_commands = []\<rparr>)) maybe_lang)"

definition csv_row :: "rstr \<Rightarrow> Lang option list \<Rightarrow> nat \<times> rstr \<Rightarrow> (rstr \<times> Lang \<times> LocEntry) list" where
  "csv_row stream_name column_langs =
     (\<lambda>(line_num, line).
        (let trimmed = trim line;
             parts = split_byte (CHR '';'') trimmed;
             key = trim (hd parts);
             leading_ws = length (chars line) - length (chars (trim_start line))
         in if blank_or_comment trimmed then []
            else if key = [] then []
            else List.map_filter (csv_cell stream_name line_num leading_ws parts key) (drop 1 (List.enumerate 0 column_langs))))"

definition parse_csv_loc_per_lang :: "rstr \<Rightarrow> rstr \<Rightarrow> Lang option list option \<Rightarrow> (rstr \<times> Lang \<times> LocEntry) list" where
  "parse_csv_loc_per_lang s name column_langs =
     concat (map (csv_row name (case column_langs of Some ls \<Rightarrow> ls | None \<Rightarrow> CK2_COLUMN_LANGS)) (List.enumerate 0 (lines s)))"

definition push_lang :: "rstr \<times> Lang \<times> LocEntry \<Rightarrow> (Lang \<times> LocEntry list) list \<Rightarrow> (Lang \<times> LocEntry list) list" where
  "push_lang =
     (\<lambda>(_, lang, entry) by_lang.
        AList.update lang ((case map_of by_lang lang of Some es \<Rightarrow> es | None \<Rightarrow> []) @ [entry]) by_lang)"

definition path_extension :: "rstr \<Rightarrow> rstr option" where
  "path_extension path = Option.bind (path_file_name path) path_extension_of"

definition is_csv_path :: "rstr \<Rightarrow> bool" where
  "is_csv_path path \<longleftrightarrow> (case path_extension path of Some e \<Rightarrow> eq_ignore_ascii_case e ''csv'' | None \<Rightarrow> False)"

definition csv_file :: "rstr \<Rightarrow> FileEncoding option \<Rightarrow> Lang \<times> LocEntry list \<Rightarrow> LocFile" where
  "csv_file path encoding =
     (\<lambda>(lang, es).
        \<lparr>lf_path = path, lf_language_prefix = lang_display lang, lf_lang = Some lang, lf_is_csv = True,
         lf_entries = es, lf_parse_errors = [], lf_encoding = encoding\<rparr>)"

definition parse_loc_files :: "loc_env \<Rightarrow> rstr \<Rightarrow> rstr \<Rightarrow> FileEncoding option \<Rightarrow> LocFileParseError + LocFile list" where
  "parse_loc_files E path s encoding =
     (if is_csv_path path
      then Inr (map (csv_file path encoding) (loc_order E (fold push_lang (parse_csv_loc_per_lang s path None) [])))
      else map_sum id (\<lambda>file. [file\<lparr>lf_encoding := encoding\<rparr>]) (parse_loc_text E s path))"

end
