(* ===== verification/Loc_Service.thy ===== *)
theory Loc_Service
  imports File_Discovery Loc_File
begin

text \<open>
  Loading localisation files (\<open>crates/localization/src/service.rs\<close>): the walk, the language filter that reads only a
  file's header, and the collection of files and errors. The operating system is a parameter.
\<close>

section \<open>Loading files\<close>

record LocService =
  ls_files :: "LocFile list"
  ls_errors :: "(rstr \<times> rstr) list"

definition from_results :: "((rstr \<times> rstr) + LocFile list) list \<Rightarrow> LocService" where
  "from_results results =
     fold (\<lambda>r svc. case r of
             Inr files \<Rightarrow> svc\<lparr>ls_files := ls_files svc @ files\<rparr>
           | Inl e \<Rightarrow> svc\<lparr>ls_errors := ls_errors svc @ [e]\<rparr>) results \<lparr>ls_files = [], ls_errors = []\<rparr>"

definition parse_loc_file_entry :: "loc_env \<Rightarrow> rstr \<Rightarrow> rstr \<Rightarrow> FileEncoding option \<Rightarrow> (rstr \<times> rstr) + LocFile list" where
  "parse_loc_file_entry E path s encoding =
     (case parse_loc_files E path s encoding of Inl e \<Rightarrow> Inl (path, loc_file_parse_error_text E e) | Inr files \<Rightarrow> Inr files)"

definition from_files_with_encoding :: "loc_env \<Rightarrow> (rstr \<times> rstr \<times> FileEncoding option) list \<Rightarrow> LocService" where
  "from_files_with_encoding E files = from_results (map (\<lambda>(path, s, encoding). parse_loc_file_entry E path s encoding) files)"

definition from_files :: "loc_env \<Rightarrow> (rstr \<times> rstr) list \<Rightarrow> LocService" where
  "from_files E files = from_files_with_encoding E (map (\<lambda>(p, t). (p, t, None)) files)"

definition is_loc_dir_name :: "rstr \<Rightarrow> bool" where
  "is_loc_dir_name name \<longleftrightarrow> to_ascii_lowercase name \<in> {''localisation'', ''localisation_synced'', ''localization''}"

definition is_excluded_loc_dir :: "rstr \<Rightarrow> bool \<Rightarrow> bool" where
  "is_excluded_loc_dir name at_root \<longleftrightarrow> starts_with name ''.'' \<or> is_excluded_dir name \<or> at_root \<and> is_excluded_root_dir name"

text \<open>The walk of one directory: its path, its path relative to the root of the walk, whether it lies in a
  localisation directory, whether it is the root, and the files still allowed.\<close>

type_synonym LocWalk = "rstr \<Rightarrow> rstr \<Rightarrow> bool \<Rightarrow> bool \<Rightarrow> nat \<Rightarrow> rstr list \<times> nat"

fun loc_entries ::
  "rstr list \<Rightarrow> rstr list \<Rightarrow> rstr \<Rightarrow> rstr \<Rightarrow> bool \<Rightarrow> bool \<Rightarrow> (rstr \<times> FileType \<times> LocWalk) list \<Rightarrow> nat \<Rightarrow> rstr list \<times> nat"
where
  "loc_entries ignore_files ignore_dirs dir rel in_loc at_root [] remaining = ([], remaining)"
| "loc_entries ignore_files ignore_dirs dir rel in_loc at_root ((name, ft, walk) # kids) remaining =
     (if remaining = 0 then ([], 0)
      else (let path = path_join dir name;
                rel_name = (if rel = [] then name else rel @ ''/'' @ name);
                relative = normalize_slashes rel_name;
                (out1, remaining1) =
                  (if ft = TypeSymlink \<or> \<not> (ft = TypeDir \<or> ft = TypeFile) then ([], remaining)
                   else if ft = TypeDir then
                     (if is_excluded_loc_dir name at_root \<or> list_ex (\<lambda>pat. ignore_glob_match pat name relative) ignore_dirs
                      then ([], remaining)
                      else walk path rel_name (in_loc \<or> is_loc_dir_name name) False remaining)
                   else if in_loc \<and>
                       (case path_extension_of name of Some e \<Rightarrow> is_loc_ext e | None \<Rightarrow> False) \<and>
                       \<not> list_ex (\<lambda>pat. ignore_glob_match pat name relative) ignore_files
                   then ([path], remaining - 1)
                   else ([], remaining));
                (out2, remaining2) = loc_entries ignore_files ignore_dirs dir rel in_loc at_root kids remaining1
            in (out1 @ out2, remaining2)))"

primrec walk_folder_inner :: "rstr list \<Rightarrow> rstr list \<Rightarrow> DirListing \<Rightarrow> LocWalk" where
  "walk_folder_inner ignore_files ignore_dirs (ReadError _) = (\<lambda>dir rel in_loc at_root remaining. ([], remaining))"
| "walk_folder_inner ignore_files ignore_dirs (Listing errors found) = (\<lambda>dir rel in_loc at_root remaining.
     (let kids = List.map_filter typed_entry (map (map_prod id (map_prod id (walk_folder_inner ignore_files ignore_dirs))) found)
      in loc_entries ignore_files ignore_dirs dir rel in_loc at_root (sort_key fst kids) remaining))"

definition walk_folder :: "Os \<Rightarrow> rstr \<Rightarrow> ScanBudget \<Rightarrow> rstr list \<Rightarrow> rstr list \<Rightarrow> rstr list" where
  "walk_folder os folder budget ignore_files ignore_dirs =
     fst (walk_folder_inner ignore_files ignore_dirs (os_dir os folder) folder [] False True (sb_max_files budget))"

definition discover_files_filtered :: "Os \<Rightarrow> rstr list \<Rightarrow> ScanBudget \<Rightarrow> rstr list \<Rightarrow> rstr list \<Rightarrow> rstr list" where
  "discover_files_filtered os folders budget ignore_files ignore_dirs =
     concat (map (\<lambda>folder. walk_folder os folder budget ignore_files ignore_dirs) folders)"

definition discover_loc_files :: "Os \<Rightarrow> rstr list \<Rightarrow> ScanBudget \<Rightarrow> rstr list" where
  "discover_loc_files os folders budget = discover_files_filtered os folders budget [] []"

text \<open>The prefix of a text up to its first line that is neither blank nor a comment.\<close>

fun split_inclusive :: "rstr \<Rightarrow> rstr list" where
  "split_inclusive [] = []"
| "split_inclusive (b # bs) =
     (if b = CHR 0x0A then [b] # split_inclusive bs
      else case split_inclusive bs of [] \<Rightarrow> [[b]] | l # ls \<Rightarrow> (b # l) # ls)"

fun header_end :: "rstr list \<Rightarrow> nat \<Rightarrow> nat" where
  "header_end [] e = e"
| "header_end (line # ls) e =
     (if \<not> blank_or_comment (trim_start line) then e + length line else header_end ls (e + length line))"

definition loc_header_language :: "loc_env \<Rightarrow> rstr \<Rightarrow> rstr \<Rightarrow> Lang option" where
  "loc_header_language E s path =
     (let t = strip_boms s
      in case parse_loc_text E (take (header_end (split_inclusive t) 0) t) path of
           Inr f \<Rightarrow> lf_lang f
         | Inl _ \<Rightarrow> None)"

text \<open>The code reads the files in parallel; here one after the other, with the bytes read so far.\<close>

definition load_path :: "loc_env \<Rightarrow> Os \<Rightarrow> ScanBudget \<Rightarrow> Lang list option \<Rightarrow> rstr \<Rightarrow> u64 \<Rightarrow> ((rstr \<times> rstr) + LocFile list) \<times> u64" where
  "load_path E os budget langs path read_bytes =
     (case read_text_capped_with_encoding (os_read os) path (sb_max_file_size budget) of
        Inl e \<Rightarrow> (Inl (path, ''IO error: '' @ file_error_text e), read_bytes)
      | Inr (s, enc, n) \<Rightarrow>
          (let (reserved, read_bytes') = try_reserve n (sb_max_bytes budget) read_bytes
           in if \<not> reserved then (Inl (path, ''scan byte budget exceeded''), read_bytes')
              else (let skip = \<not> is_csv_path path \<and>
                          (case langs of
                             None \<Rightarrow> False
                           | Some ls \<Rightarrow> (case loc_header_language E s path of None \<Rightarrow> False | Some lang \<Rightarrow> lang \<notin> set ls))
                    in (if skip then Inr [] else parse_loc_file_entry E path s (Some enc), read_bytes'))))"

fun load_paths :: "loc_env \<Rightarrow> Os \<Rightarrow> ScanBudget \<Rightarrow> Lang list option \<Rightarrow> rstr list \<Rightarrow> u64 \<Rightarrow> ((rstr \<times> rstr) + LocFile list) list" where
  "load_paths E os budget langs [] read_bytes = []"
| "load_paths E os budget langs (path # rest) read_bytes =
     (let (r, read_bytes') = load_path E os budget langs path read_bytes
      in r # load_paths E os budget langs rest read_bytes')"

definition from_paths :: "loc_env \<Rightarrow> Os \<Rightarrow> rstr list \<Rightarrow> ScanBudget \<Rightarrow> Lang list option \<Rightarrow> LocService" where
  "from_paths E os found budget langs = from_results (load_paths E os budget langs found 0)"

definition from_folders_filtered ::
  "loc_env \<Rightarrow> Os \<Rightarrow> rstr list \<Rightarrow> ScanBudget \<Rightarrow> Lang list option \<Rightarrow> rstr list \<Rightarrow> rstr list \<Rightarrow> LocService" where
  "from_folders_filtered E os folders budget langs ignore_files ignore_dirs =
     from_paths E os (discover_files_filtered os folders budget ignore_files ignore_dirs) budget langs"

definition from_folders :: "loc_env \<Rightarrow> Os \<Rightarrow> rstr list \<Rightarrow> ScanBudget \<Rightarrow> LocService" where
  "from_folders E os folders budget = from_folders_filtered E os folders budget None [] []"

definition from_folder :: "loc_env \<Rightarrow> Os \<Rightarrow> rstr \<Rightarrow> ScanBudget \<Rightarrow> LocService" where
  "from_folder E os folder budget = from_folders_filtered E os [folder] budget None [] []"

definition service_merge_from :: "LocService \<Rightarrow> LocService \<Rightarrow> LocService" where
  "service_merge_from self other =
     \<lparr>ls_files = ls_files self @ ls_files other, ls_errors = ls_errors self @ ls_errors other\<rparr>"

definition languages :: "LocService \<Rightarrow> Lang list" where
  "languages svc =
     fold (\<lambda>f langs. case lf_lang f of
             Some l \<Rightarrow> if l \<in> set langs then langs else langs @ [l]
           | None \<Rightarrow> langs) (ls_files svc) []"


end
