(* ===== verification/Loc_Validation.thy ===== *)
theory Loc_Validation
  imports Loc_File Suggested_Fix
begin

text \<open>
  The checks of a localisation entry (\<open>crates/localization/src/validation.rs\<close>): keys, characters, quotes,
  references and placeholders, and the fix of a missing quote.
\<close>

section \<open>Checks of an entry\<close>

datatype LocErrorKind =
    UndefinedLocReference rstr
  | RecursiveLocRef
  | ReplaceMe
  | LocMissingQuote
  | LocInvalidChars
  | LocKeyInvalidChars

record LocValidationError =
  lve_line :: nat
  lve_col :: nat
  lve_key :: rstr
  lve_kind :: LocErrorKind
  lve_fix :: "SuggestedFix option"

abbreviation (input) quote :: char where "quote \<equiv> CHR 0x22"

text \<open>The byte offset of the last occurrence of a byte: \<open>str::rfind\<close>.\<close>

definition rfind_byte :: "char \<Rightarrow> rstr \<Rightarrow> nat option" where
  "rfind_byte d s = (if d \<in> set s then Some (length s - 1 - length (takeWhile (\<lambda>b. b \<noteq> d) (rev s))) else None)"

definition cw268_quote_fix :: "LocEntry \<Rightarrow> SuggestedFix option" where
  "cw268_quote_fix entry =
     (let desc = le_desc entry;
          lead = length (chars desc) - length (chars (trim_start desc));
          trimmed = trim desc;
          inner = trim_matches quote trimmed;
          start_col = le_desc_column entry + lead;
          end_col = start_col + length (chars trimmed);
          line = of_nat (lp_line (le_position entry))
      in if trimmed = [] then None
         else if quote \<in> set inner \<or> CHR ''#'' \<in> set trimmed then None
         else Some (fix_replace ''Wrap the value in quotes''
                \<lparr>range_start = SourcePos line (of_nat start_col), range_end = SourcePos line (of_nat end_col)\<rparr>
                ([quote] @ inner @ [quote])))"

definition is_valid_loc_key_char :: "rchar \<Rightarrow> bool" where
  "is_valid_loc_key_char c \<longleftrightarrow> is_ascii_alnum c \<or> c \<in> {''_'', ''.'', ''-''}"

definition loc_error :: "LocEntry \<Rightarrow> LocErrorKind \<Rightarrow> SuggestedFix option \<Rightarrow> LocValidationError" where
  "loc_error entry kind fx =
     \<lparr>lve_line = lp_line (le_position entry), lve_col = lp_column (le_position entry), lve_key = le_key entry,
      lve_kind = kind, lve_fix = fx\<rparr>"

definition validate_invalid_chars :: "LocEntry \<Rightarrow> LocValidationError list" where
  "validate_invalid_chars entry =
     (case le_error_range entry of
        Some r \<Rightarrow>
          [\<lparr>lve_line = lp_line r, lve_col = lp_column r, lve_key = le_key entry, lve_kind = LocInvalidChars, lve_fix = None\<rparr>]
      | None \<Rightarrow> [])"

definition validate_key_chars :: "LocEntry \<Rightarrow> LocValidationError list" where
  "validate_key_chars entry =
     (if list_ex (\<lambda>c. \<not> is_valid_loc_key_char c) (chars (le_key entry)) then [loc_error entry LocKeyInvalidChars None] else [])"

definition validate_quotes :: "LocEntry \<Rightarrow> bool" where
  "validate_quotes entry =
     (let trimmed = trim (le_desc entry);
          last_quote = rfind_byte quote trimmed;
          hash_after = (case last_quote of
             Some q \<Rightarrow> (case find_sub ''#'' (drop q trimmed) of Some h \<Rightarrow> Some (q + h) | None \<Rightarrow> find_sub ''#'' trimmed)
           | None \<Rightarrow> find_sub ''#'' trimmed);
          effective0 = (case (hash_after, last_quote) of
             (Some h, Some q) \<Rightarrow> if q < h then take h trimmed else trimmed
           | _ \<Rightarrow> trimmed);
          effective = (case rfind_byte quote effective0 of
             Some q \<Rightarrow> trim_end (take (q + 1) effective0)
           | None \<Rightarrow> effective0);
          starts = starts_with effective [quote];
          ends = ends_with effective [quote]
      in if starts \<and> ends \<and> length effective = 1 then False else starts = ends)"

definition is_replace_me :: "LocEntry \<Rightarrow> bool" where
  "is_replace_me entry \<longleftrightarrow>
     (let inner = trim_matches quote (trim (le_desc entry)) in inner = ''REPLACE_ME'' \<or> inner = ''TODO_CD'')"

definition HARDCODED_LOC :: "rstr list" where
  "HARDCODED_LOC =
     [''Player'', ''Root'', ''From'', ''Prev'', ''Capital'', ''Random'', ''This'', ''Country'', ''Ruler'', ''GetName'',
      ''GetName2'', ''GetSpeciesName'', ''GetSpeciesNamePlural'', ''GetSpeciesAdj'', ''GetTitle'', ''Owner'',
      ''Controller'', ''GetGovernmentName'', ''GetClassName'', ''GetAdj'', ''GetIcon'', ''GetRegnalName'', ''Date'',
      ''GetDate'']"

definition lowercase :: "loc_env \<Rightarrow> rstr \<Rightarrow> rstr" where
  "lowercase E s = env_lower (loc_rust E) s"

definition hardcoded_loc_set :: "loc_env \<Rightarrow> rstr set" where
  "hardcoded_loc_set E = set (map (lowercase E) HARDCODED_LOC)"

text \<open>One \<open>$ref$\<close> of an entry. The references are looked up in lower case.\<close>

definition validate_ref :: "loc_env \<Rightarrow> rstr set \<Rightarrow> rstr set \<Rightarrow> rstr set \<Rightarrow> LocEntry \<Rightarrow> rstr \<Rightarrow> LocValidationError list" where
  "validate_ref E all_keys extra_valid_refs hardcoded entry r =
     (let lower = lowercase E r
      in if lower \<in> all_keys
         then (if lower = lowercase E (le_key entry) \<and> lower \<notin> hardcoded then [loc_error entry RecursiveLocRef None] else [])
         else if lower \<in> extra_valid_refs then []
         else (let has_lower = list_ex (is_lowercase E) (chars r);
                   first_space = find_sub '' '' r;
                   last_space = rfind_byte (CHR '' '') r
               in if has_lower \<and> lower \<notin> hardcoded \<and> \<not> (first_space \<noteq> None \<and> last_space \<noteq> None \<and> first_space \<noteq> last_space)
                  then [loc_error entry (UndefinedLocReference r) None] else []))"

definition validate_loc_entry :: "loc_env \<Rightarrow> rstr set \<Rightarrow> rstr set \<Rightarrow> rstr set \<Rightarrow> LocEntry \<Rightarrow> LocValidationError list" where
  "validate_loc_entry E all_keys extra_valid_refs hardcoded entry =
     validate_key_chars entry @ validate_invalid_chars entry @
     (if \<not> validate_quotes entry then [loc_error entry LocMissingQuote (cw268_quote_fix entry)] else []) @
     concat (map (validate_ref E all_keys extra_valid_refs hardcoded entry) (le_refs entry)) @
     (if is_replace_me entry then [loc_error entry ReplaceMe None] else [])"

definition validate_loc_file_with_hardcoded ::
  "loc_env \<Rightarrow> LocFile \<Rightarrow> rstr set \<Rightarrow> rstr set \<Rightarrow> rstr set \<Rightarrow> LocValidationError list" where
  "validate_loc_file_with_hardcoded E file all_keys extra_valid_refs hardcoded =
     concat (map (validate_loc_entry E all_keys extra_valid_refs hardcoded) (lf_entries file))"

definition validate_loc_file :: "loc_env \<Rightarrow> LocFile \<Rightarrow> rstr set \<Rightarrow> rstr set \<Rightarrow> rstr list \<Rightarrow> LocValidationError list" where
  "validate_loc_file E file all_keys extra_valid_refs hardcoded_localisation =
     validate_loc_file_with_hardcoded E file all_keys extra_valid_refs (set (map (lowercase E) hardcoded_localisation))"


end
