(* ===== verification/Loc_Index.thy ===== *)
theory Loc_Index
  imports Loc_Service Loc_Validation
begin

text \<open>
  The index of localisation keys (\<open>crates/localization/src/loc_index.rs\<close>).
\<close>

section \<open>The key index\<close>

text \<open>A set of shared keys is a set. The index's maps are association lists; where one is iterated the code
  inserts into another one, and every order gives the same answers.\<close>

record LocIndex =
  li_per_language :: "(Lang \<times> rstr set) list"
  li_union :: "rstr set"
  li_languages_with_data :: "Lang list"
  li_entries :: "(rstr \<times> LocEntry) list"

definition lang_keys :: "(Lang \<times> rstr set) list \<Rightarrow> Lang \<Rightarrow> rstr set" where
  "lang_keys per lang = (case map_of per lang of Some ks \<Rightarrow> ks | None \<Rightarrow> {})"

definition index_keys :: "loc_env \<Rightarrow> LocFile \<Rightarrow> (Lang \<times> rstr set) list \<times> rstr set \<Rightarrow> (Lang \<times> rstr set) list \<times> rstr set" where
  "index_keys E file =
     (\<lambda>(per_language, union_keys).
        case lf_lang file of
          None \<Rightarrow> (per_language, union_keys)
        | Some lang \<Rightarrow>
            (let ks = set (map (\<lambda>entry. lowercase E (le_key entry)) (lf_entries file))
             in (AList.update lang (lang_keys per_language lang \<union> ks) per_language, union_keys \<union> ks)))"

definition index_entry :: "loc_env \<Rightarrow> rstr set \<Rightarrow> rstr set option \<Rightarrow> Lang \<Rightarrow> LocEntry \<Rightarrow> (rstr \<times> LocEntry) list \<Rightarrow> (rstr \<times> LocEntry) list" where
  "index_entry E union_keys english lang entry found =
     (let lower = lowercase E (le_key entry)
      in if le_commands entry = [] \<and> le_jomini_commands entry = [] then found
         else if lower \<notin> union_keys then found
         else if lang \<noteq> English \<and> (case english of Some ks \<Rightarrow> lower \<in> ks | None \<Rightarrow> False) then found
         else (case map_of found lower of
                 Some _ \<Rightarrow> if lang \<noteq> English then found else AList.update lower entry found
               | None \<Rightarrow> AList.update lower entry found))"

definition index_file_entries :: "loc_env \<Rightarrow> rstr set \<Rightarrow> rstr set option \<Rightarrow> LocFile \<Rightarrow> (rstr \<times> LocEntry) list \<Rightarrow> (rstr \<times> LocEntry) list" where
  "index_file_entries E union_keys english file found =
     (case lf_lang file of None \<Rightarrow> found | Some lang \<Rightarrow> fold (index_entry E union_keys english lang) (lf_entries file) found)"

definition build_scoped :: "loc_env \<Rightarrow> LocService \<Rightarrow> Lang list option \<Rightarrow> LocIndex" where
  "build_scoped E svc langs =
     (let (per_language, union_keys) = fold (index_keys E) (ls_files svc) ([], {});
          english = map_of per_language English;
          found = fold (index_file_entries E union_keys english) (ls_files svc) [];
          with_data = (case langs of None \<Rightarrow> languages svc | Some ls \<Rightarrow> filter (\<lambda>l. l \<in> set ls) (languages svc))
      in \<lparr>li_per_language = per_language, li_union = union_keys, li_languages_with_data = with_data, li_entries = found\<rparr>)"

definition build_index :: "loc_env \<Rightarrow> LocService \<Rightarrow> LocIndex" where
  "build_index E svc = build_scoped E svc None"

definition add_language :: "Lang list option \<Rightarrow> Lang \<Rightarrow> rstr set \<Rightarrow> LocIndex \<Rightarrow> LocIndex" where
  "add_language langs lang ks idx =
     (let allowed = (case langs of None \<Rightarrow> True | Some ls \<Rightarrow> lang \<in> set ls)
      in idx\<lparr>li_per_language := AList.update lang (lang_keys (li_per_language idx) lang \<union> ks) (li_per_language idx),
             li_union := li_union idx \<union> ks,
             li_languages_with_data :=
               (if allowed \<and> lang \<notin> set (li_languages_with_data idx) then li_languages_with_data idx @ [lang]
                else li_languages_with_data idx)\<rparr>)"

definition merge_cached_keys :: "(Lang \<times> rstr list) list \<Rightarrow> Lang list option \<Rightarrow> LocIndex \<Rightarrow> LocIndex" where
  "merge_cached_keys per_language langs idx =
     fold (\<lambda>(lang, ks). add_language langs lang (set ks)) per_language idx"

definition merge_entry :: "rstr set option \<Rightarrow> rstr \<times> LocEntry \<Rightarrow> (rstr \<times> LocEntry) list \<Rightarrow> (rstr \<times> LocEntry) list" where
  "merge_entry english =
     (\<lambda>(key, entry) found.
        if (case english of Some ks \<Rightarrow> key \<in> ks | None \<Rightarrow> False) then found else or_insert key entry found)"

definition index_merge_from :: "LocIndex \<Rightarrow> Lang list option \<Rightarrow> LocIndex \<Rightarrow> LocIndex" where
  "index_merge_from other langs idx =
     (let found = fold (merge_entry (map_of (li_per_language idx) English)) (li_entries other) (li_entries idx)
      in fold (\<lambda>lang idx.
                 case map_of (li_per_language other) lang of
                   None \<Rightarrow> idx
                 | Some ks \<Rightarrow> add_language langs lang ks idx)
           (li_languages_with_data other) (idx\<lparr>li_entries := found\<rparr>))"

definition exists_any :: "LocIndex \<Rightarrow> rstr \<Rightarrow> bool" where
  "exists_any idx key_lower \<longleftrightarrow> key_lower \<in> li_union idx"

definition missing_synced_languages :: "LocIndex \<Rightarrow> rstr \<Rightarrow> Lang list" where
  "missing_synced_languages idx key_lower =
     filter (\<lambda>lang. case map_of (li_per_language idx) lang of Some ks \<Rightarrow> key_lower \<notin> ks | None \<Rightarrow> True)
       (li_languages_with_data idx)"

definition index_entry_of :: "LocIndex \<Rightarrow> rstr \<Rightarrow> LocEntry option" where
  "index_entry_of idx key_lower = map_of (li_entries idx) key_lower"

definition index_key :: "loc_env \<Rightarrow> LocIndex \<Rightarrow> rstr \<Rightarrow> rstr option" where
  "index_key E idx key = (if lowercase E key \<in> li_union idx then Some (lowercase E key) else None)"

text \<open>The languages and keys the cache stores, in the order \<open>order\<close> of the hash map; the keys of a language are a set.\<close>

definition per_language_keys :: "loc_env \<Rightarrow> LocService \<Rightarrow> (rstr \<times> rstr set) list" where
  "per_language_keys E svc =
     map (\<lambda>(lang, ks). (lang_display lang, ks)) (fst (fold (index_keys E) (ls_files svc) ([], {})))"

end
