(* ===== verification/Loc_Scopes.thy ===== *)
theory Loc_Scopes
  imports Loc_Validation Scope_Engine Rust_Numbers
begin

text \<open>
  Commands of a localisation value, followed through the scopes
  (\<open>crates/localization/src/scope_validation.rs\<close>) with the scope engine of the validator.
\<close>

section \<open>Commands and scopes\<close>

datatype LocCommandDiagnostic =
    WrongScopeCommand rstr u32 "u32 list"
  | ChainEndsInScope rstr
  | CommandNotFound rstr

record LocScopeData =
  ld_game :: "Game option"
  ld_terminal_commands :: "rstr set"
  ld_question_mark_variable :: bool
  ld_parameter_variables :: bool
  ld_registry :: "ScopeRegistry option"
  ld_scripted_variables :: "(rstr \<Rightarrow> bool) option"
  ld_scripted_locs :: "(rstr \<Rightarrow> bool) option"

definition loc_scope_data_default :: LocScopeData where
  "loc_scope_data_default =
     \<lparr>ld_game = None, ld_terminal_commands = {}, ld_question_mark_variable = True, ld_parameter_variables = True,
      ld_registry = None, ld_scripted_variables = None, ld_scripted_locs = None\<rparr>"

definition build_loc_ctx :: "LocScopeData \<Rightarrow> Game \<Rightarrow> ScopeId \<Rightarrow> ScopeContext" where
  "build_loc_ctx data engine_game initial =
     (case ld_registry data of
        Some reg \<Rightarrow> context_from_registry reg initial
      | None \<Rightarrow> context_new engine_game initial)"

definition game_to_engine :: "Game option \<Rightarrow> Game" where
  "game_to_engine game =
     (case game of
        Some g \<Rightarrow> if g \<in> {Hoi4, Stellaris, Eu4, Ck3, Ir, Vic3, Eu5} then g else Hoi4
      | None \<Rightarrow> Hoi4)"

definition is_bypass_prefix :: "rstr \<Rightarrow> LocScopeData \<Rightarrow> bool" where
  "is_bypass_prefix lower data \<longleftrightarrow>
     starts_with lower ''event_target:'' \<or> starts_with lower ''scope:'' \<or>
     ld_parameter_variables data \<and> starts_with lower ''parameter:'' \<or>
     ld_question_mark_variable data \<and> starts_with lower ''?''"

definition is_terminal_command :: "rstr \<Rightarrow> rstr set \<Rightarrow> bool" where
  "is_terminal_command lower terminal_set \<longleftrightarrow> starts_with lower ''get'' \<or> lower \<in> terminal_set"

datatype SegmentPre = Bypass | TerminalStop | ScopeChange bool

definition classify_segment :: "rstr \<Rightarrow> bool \<Rightarrow> LocScopeData \<Rightarrow> SegmentPre" where
  "classify_segment seg_lower is_last data =
     (if is_bypass_prefix seg_lower data then Bypass
      else (let looks_terminal = is_terminal_command seg_lower (ld_terminal_commands data)
            in if is_last \<and> looks_terminal then TerminalStop else ScopeChange looks_terminal))"

datatype ScopeOutcome =
    Advanced
  | AnyScopeOutcome
  | ValueEnd
  | ValueMid
  | Wrong rstr ScopeId "ScopeId list"
  | UnknownSegment

fun classify_scope_result :: "ScopeResult \<Rightarrow> bool \<Rightarrow> ScopeOutcome" where
  "classify_scope_result (NewScope s ks) is_last = Advanced"
| "classify_scope_result VarFound is_last = Advanced"
| "classify_scope_result AnyScope is_last = AnyScopeOutcome"
| "classify_scope_result ValueFound is_last = (if is_last then ValueEnd else ValueMid)"
| "classify_scope_result (WrongScope command cur expected) is_last = Wrong command cur expected"
| "classify_scope_result NotFound is_last = UnknownSegment"
| "classify_scope_result (VarNotFound v) is_last = UnknownSegment"

definition is_known_name :: "rstr \<Rightarrow> (rstr \<Rightarrow> bool) option \<Rightarrow> bool" where
  "is_known_name segment lookup =
     (case lookup of
        None \<Rightarrow> False
      | Some f \<Rightarrow>
          (let name = trim (hd (split_byte (CHR ''|'') segment))
           in if name = [] \<or> CHR '':'' \<in> set name \<or> CHR ''$'' \<in> set name then True
              else parse_f64 name \<noteq> None \<or> f name))"

definition reads_a_variable :: "rstr \<Rightarrow> LocScopeData \<Rightarrow> bool" where
  "reads_a_variable segment data = is_known_name segment (ld_scripted_variables data)"

definition is_scripted_loc :: "rstr \<Rightarrow> LocScopeData \<Rightarrow> bool" where
  "is_scripted_loc segment data = is_known_name segment (ld_scripted_locs data)"

fun command_loop :: "LocScopeData \<Rightarrow> rstr \<Rightarrow> rstr list \<Rightarrow> ScopeContext \<Rightarrow> LocCommandDiagnostic list" where
  "command_loop data cmd [] ctx = []"
| "command_loop data cmd (seg # segs) ctx =
     (let is_last = (segs = [])
      in case classify_segment (to_ascii_lowercase seg) is_last data of
           Bypass \<Rightarrow> command_loop data cmd segs (push_scope SCOPE_ANY ctx)
         | TerminalStop \<Rightarrow> []
         | ScopeChange looks_terminal \<Rightarrow>
             (let (result, ctx') = change_scope seg ctx
              in case classify_scope_result result is_last of
                   Wrong command cur expected \<Rightarrow> [WrongScopeCommand (command @ '' (in '' @ cmd @ '')'') cur expected]
                 | UnknownSegment \<Rightarrow>
                     (if is_last \<and> ld_terminal_commands data \<noteq> {} \<and> \<not> looks_terminal \<and> ld_scripted_locs data \<noteq> None \<and>
                         \<not> is_scripted_loc seg data
                      then ChainEndsInScope cmd # command_loop data cmd segs ctx'
                      else if \<not> is_last then command_loop data cmd segs (push_scope SCOPE_ANY ctx')
                      else command_loop data cmd segs ctx')
                 | _ \<Rightarrow> command_loop data cmd segs ctx'))"

definition validate_command_string :: "rstr \<Rightarrow> ScopeId \<Rightarrow> Game \<Rightarrow> LocScopeData \<Rightarrow> LocCommandDiagnostic list" where
  "validate_command_string cmd initial_scope engine_game data =
     (if is_bypass_prefix (to_ascii_lowercase cmd) data then []
      else command_loop data cmd (split_byte (CHR ''.'') cmd) (build_loc_ctx data engine_game initial_scope))"

fun jomini_chain_loop :: "LocScopeData \<Rightarrow> bool \<Rightarrow> JominiCommand list \<Rightarrow> bool \<Rightarrow> ScopeContext \<Rightarrow> LocCommandDiagnostic list" where
  "jomini_chain_loop data lacks_loc_registry [] lenient ctx = []"
| "jomini_chain_loop data lacks_loc_registry (cmd # cmds) lenient ctx =
     (let seg = jc_key cmd; is_last = (cmds = []); seg_lower = to_ascii_lowercase seg
      in case classify_segment seg_lower is_last data of
           Bypass \<Rightarrow>
             jomini_chain_loop data lacks_loc_registry cmds (lenient \<or> \<not> is_last \<and> \<not> starts_with seg_lower ''?'')
               (push_scope SCOPE_ANY ctx)
         | TerminalStop \<Rightarrow> []
         | ScopeChange looks_terminal \<Rightarrow>
             (let (result, ctx') = change_scope seg ctx
              in case classify_scope_result result is_last of
                   AnyScopeOutcome \<Rightarrow> jomini_chain_loop data lacks_loc_registry cmds (lenient \<or> \<not> is_last) ctx'
                 | Advanced \<Rightarrow> jomini_chain_loop data lacks_loc_registry cmds lenient ctx'
                 | ValueMid \<Rightarrow> jomini_chain_loop data lacks_loc_registry cmds lenient ctx'
                 | ValueEnd \<Rightarrow> []
                 | Wrong command cur expected \<Rightarrow> [WrongScopeCommand command cur expected]
                 | UnknownSegment \<Rightarrow>
                     (if is_last \<and> ld_registry data \<noteq> None \<and> \<not> looks_terminal \<and> \<not> lenient \<and> \<not> lacks_loc_registry \<and>
                         \<not> reads_a_variable seg data \<and> \<not> is_scripted_loc seg data
                      then CommandNotFound seg # jomini_chain_loop data lacks_loc_registry cmds lenient ctx'
                      else if \<not> is_last then jomini_chain_loop data lacks_loc_registry cmds True (push_scope SCOPE_ANY ctx')
                      else jomini_chain_loop data lacks_loc_registry cmds lenient ctx')))"

definition validate_jomini_chain :: "JominiCommand list \<Rightarrow> ScopeId \<Rightarrow> Game \<Rightarrow> LocScopeData \<Rightarrow> LocCommandDiagnostic list" where
  "validate_jomini_chain chain initial_scope engine_game data =
     (if chain = [] \<or> list_ex (\<lambda>cmd. jc_key cmd = []) chain then []
      else (let marker = strip_prefix (jc_key (hd chain)) ''?'';
                has_q_mark = ld_question_mark_variable data \<and> marker \<noteq> None;
                reads_through_variable = has_q_mark \<and> (case marker of Some m \<Rightarrow> reads_a_variable m data | None \<Rightarrow> False);
                lacks_variable_registry = has_q_mark \<and> ld_scripted_variables data = None;
                lacks_loc_registry = \<not> has_q_mark \<and> ld_scripted_locs data = None
            in jomini_chain_loop data lacks_loc_registry chain
                 ((reads_through_variable \<or> lacks_variable_registry) \<and> 1 < length chain)
                 (build_loc_ctx data engine_game initial_scope)))"

definition validate_loc_commands :: "LocEntry \<Rightarrow> ScopeId \<Rightarrow> LocScopeData \<Rightarrow> LocCommandDiagnostic list" where
  "validate_loc_commands entry initial_scope data =
     (if le_commands entry = [] \<and> le_jomini_commands entry = [] then []
      else (let engine_game = (if ld_registry data \<noteq> None then Hoi4 else game_to_engine (ld_game data))
            in concat (map (\<lambda>cmd. validate_command_string cmd initial_scope engine_game data) (le_commands entry)) @
               concat (map (\<lambda>chain. validate_jomini_chain chain initial_scope engine_game data) (le_jomini_commands entry))))"

end
