(* ===== verification/Loc_Pipeline.thy ===== *)
theory Loc_Pipeline
  imports Loc_Index Loc_Scopes Error_Codes
begin

text \<open>
  The diagnostics of a localisation project and of one file (\<open>crates/localization/src/pipeline.rs\<close>).
\<close>

section \<open>Diagnostics of a project\<close>

record LocDiagnostic =
  ldg_file :: rstr
  ldg_line :: nat
  ldg_col :: nat
  ldg_code :: rstr
  ldg_severity :: Severity
  ldg_message :: rstr
  ldg_fix :: "SuggestedFix option"

fun loc_error_code_severity :: "LocErrorKind \<Rightarrow> rstr \<times> Severity" where
  "loc_error_code_severity (UndefinedLocReference other_key) = (''CW225'', SevError)"
| "loc_error_code_severity RecursiveLocRef = (''CW259'', SevError)"
| "loc_error_code_severity ReplaceMe = (''CW234'', SevInformation)"
| "loc_error_code_severity LocMissingQuote = (''CW268'', SevWarning)"
| "loc_error_code_severity LocInvalidChars = (''CW275'', SevWarning)"
| "loc_error_code_severity LocKeyInvalidChars = (''CW276'', SevWarning)"

definition lang_label :: "Lang option \<Rightarrow> rstr" where
  "lang_label lang = (case lang of Some l \<Rightarrow> lang_display l | None \<Rightarrow> ''?'')"

fun loc_error_message :: "LocErrorKind \<Rightarrow> rstr \<Rightarrow> Lang option \<Rightarrow> rstr" where
  "loc_error_message (UndefinedLocReference other_key) key lang =
     ''Localisation key '' @ [quote] @ key @ [quote] @ '' references '' @ [quote] @ other_key @ [quote] @
     '' which doesn'' @ [CHR 0x27] @ ''t exist in '' @ lang_label lang"
| "loc_error_message RecursiveLocRef key lang = ''This localisation string refers to itself''"
| "loc_error_message ReplaceMe key lang = ''Localisation key '' @ key @ '' is a placeholder for '' @ lang_label lang"
| "loc_error_message LocMissingQuote key lang =
     ''Localisation key '' @ key @ '' doesn'' @ [CHR 0x27] @ ''t start and end with double quotes''"
| "loc_error_message LocInvalidChars key lang =
     ''Localisation value for '' @ key @ '' contains unexpected characters, and may not render correctly''"
| "loc_error_message LocKeyInvalidChars key lang =
     ''Localisation key '' @ key @ '' contains invalid characters (spaces or special characters are not allowed)''"

definition loc_error_parts :: "LocErrorKind \<Rightarrow> rstr \<Rightarrow> Lang option \<Rightarrow> rstr \<times> Severity \<times> rstr" where
  "loc_error_parts kind key lang =
     (let (code, severity) = loc_error_code_severity kind in (code, severity, loc_error_message kind key lang))"

fun lang_fsharp_name :: "Lang \<Rightarrow> rstr" where
  "lang_fsharp_name English = ''English''"
| "lang_fsharp_name French = ''French''"
| "lang_fsharp_name German = ''German''"
| "lang_fsharp_name Spanish = ''Spanish''"
| "lang_fsharp_name Russian = ''Russian''"
| "lang_fsharp_name Polish = ''Polish''"
| "lang_fsharp_name BrazPor = ''Braz_Por''"
| "lang_fsharp_name SimpChinese = ''Chinese''"
| "lang_fsharp_name Japanese = ''Japanese''"
| "lang_fsharp_name Korean = ''Korean''"
| "lang_fsharp_name Turkish = ''Turkish''"
| "lang_fsharp_name DefaultLang = ''Default''"

definition file_diagnostic :: "rstr \<Rightarrow> rstr \<Rightarrow> Severity \<Rightarrow> rstr \<Rightarrow> LocDiagnostic" where
  "file_diagnostic file code severity msg =
     \<lparr>ldg_file = file, ldg_line = 1, ldg_col = 1, ldg_code = code, ldg_severity = severity, ldg_message = msg, ldg_fix = None\<rparr>"

definition lang_header_diagnostic :: "LocFile \<Rightarrow> LocDiagnostic option" where
  "lang_header_diagnostic file =
     (if lf_is_csv file then None
      else map_option (\<lambda>d.
        (case d of
           MissingLocFileLangHeader _ \<Rightarrow>
             file_diagnostic (lf_path file) (ec_id CW256_MISSING_LOC_FILE_LANG_HEADER) SevError
               (''Localisation file should start with '' @ [quote] @ ''l_language:'' @ [quote] @ '' on the first line (or a comment)'')
         | MissingLocFileLang _ \<Rightarrow>
             file_diagnostic (lf_path file) (ec_id CW255_MISSING_LOC_FILE_LANG) SevError
               (''Localisation file name should contain (and ideally end with) '' @ [quote] @ ''l_language.yml'' @ [quote])
         | LocFileLangMismatch _ filename_lang header_lang \<Rightarrow>
             file_diagnostic (lf_path file) (ec_id CW257_LOC_FILE_LANG_MISMATCH) SevError
               (''Localisation file'' @ [CHR 0x27] @ ''s name has language '' @ lang_fsharp_name filename_lang @ '' doesn'' @
                [CHR 0x27] @ ''t match the header language '' @ lang_fsharp_name header_lang)))
        (check_loc_file_lang (lf_path file) (lf_language_prefix file)))"

definition parse_error_diagnostic :: "LocaleTable \<Rightarrow> rstr \<Rightarrow> LocParseError \<Rightarrow> LocDiagnostic" where
  "parse_error_diagnostic table file_path pe =
     \<lparr>ldg_file = file_path, ldg_line = lpe_line pe, ldg_col = 1, ldg_code = ec_id CW001_PARSE_ERROR,
      ldg_severity = SevError, ldg_message = format_message table CW001_PARSE_ERROR [lpe_message pe], ldg_fix = None\<rparr>"

definition entry_diagnostic :: "rstr \<Rightarrow> Lang option \<Rightarrow> LocValidationError \<Rightarrow> LocDiagnostic" where
  "entry_diagnostic file_path lang err =
     (let (code, severity, msg) = loc_error_parts (lve_kind err) (lve_key err) lang
      in \<lparr>ldg_file = file_path, ldg_line = lve_line err, ldg_col = lve_col err, ldg_code = code, ldg_severity = severity,
          ldg_message = msg, ldg_fix = lve_fix err\<rparr>)"

definition build_diagnostics ::
  "loc_env \<Rightarrow> LocaleTable \<Rightarrow> LocFile \<Rightarrow> rstr \<Rightarrow> rstr set \<Rightarrow> rstr set \<Rightarrow> rstr set \<Rightarrow> bool \<Rightarrow> LocDiagnostic list" where
  "build_diagnostics E table file file_path union_keys extra_valid_refs hardcoded emit_cw254 =
     (case lang_header_diagnostic file of Some d \<Rightarrow> [d] | None \<Rightarrow> []) @
     (if emit_cw254
      then [file_diagnostic file_path (ec_id CW254_WRONG_ENCODING) SevError ''Localisation files must be UTF-8 BOM, this file is not'']
      else []) @
     map (parse_error_diagnostic table file_path) (lf_parse_errors file) @
     map (entry_diagnostic file_path (lf_lang file)) (validate_loc_file_with_hardcoded E file union_keys extra_valid_refs hardcoded)"

definition should_emit_cw254 :: "LocFile \<Rightarrow> bool" where
  "should_emit_cw254 file \<longleftrightarrow> lf_encoding file \<in> {Some Utf8NoBom, Some NonUtf8}"

definition lang_selected :: "LocFile \<Rightarrow> Lang list option \<Rightarrow> bool" where
  "lang_selected file langs =
     (case langs of
        Some ls \<Rightarrow> (case lf_lang file of None \<Rightarrow> True | Some l \<Rightarrow> l \<in> set ls)
      | None \<Rightarrow> True)"

definition validate_loc_project_with_union ::
  "loc_env \<Rightarrow> LocaleTable \<Rightarrow> LocService \<Rightarrow> Lang list option \<Rightarrow> rstr set \<Rightarrow> rstr set \<Rightarrow> LocDiagnostic list" where
  "validate_loc_project_with_union E table svc langs union_keys extra_valid_refs =
     concat (map (\<lambda>file. build_diagnostics E table file (lf_path file) union_keys extra_valid_refs (hardcoded_loc_set E)
                    (should_emit_cw254 file)) (filter (\<lambda>file. lang_selected file langs) (ls_files svc)))"

definition project_keys :: "loc_env \<Rightarrow> LocService \<Rightarrow> rstr set" where
  "project_keys E svc = set (concat (map (\<lambda>file. map (\<lambda>e. lowercase E (le_key e)) (lf_entries file)) (ls_files svc)))"

definition validate_loc_project_scoped ::
  "loc_env \<Rightarrow> LocaleTable \<Rightarrow> LocService \<Rightarrow> Lang list option \<Rightarrow> rstr set \<Rightarrow> LocDiagnostic list" where
  "validate_loc_project_scoped E table svc langs extra_valid_refs =
     validate_loc_project_with_union E table svc langs (project_keys E svc) extra_valid_refs"

definition validate_loc_project :: "loc_env \<Rightarrow> LocaleTable \<Rightarrow> LocService \<Rightarrow> LocDiagnostic list" where
  "validate_loc_project E table svc = validate_loc_project_scoped E table svc None {}"

text \<open>\<open>[String]::join\<close>.\<close>

fun join_str :: "rstr \<Rightarrow> rstr list \<Rightarrow> rstr" where
  "join_str sep [] = []"
| "join_str sep [p] = p"
| "join_str sep (p # q # ps) = p @ sep @ join_str sep (q # ps)"

definition loc_command_parts :: "LocaleTable \<Rightarrow> LocCommandDiagnostic \<Rightarrow> rstr \<Rightarrow> ScopeRegistry option \<Rightarrow> ErrorCode \<times> rstr" where
  "loc_command_parts table diag loc_key reg =
     (let scope_name = (\<lambda>i. case reg of Some r \<Rightarrow> name_of r i | None \<Rightarrow> show_nat (unat i))
      in case diag of
           WrongScopeCommand command current_scope expected_scopes \<Rightarrow>
             (let expected = join_str '', '' (map scope_name expected_scopes)
              in (CW260_LOC_COMMAND_WRONG_SCOPE,
                  format_message table CW260_LOC_COMMAND_WRONG_SCOPE [command, scope_name current_scope, expected]))
         | ChainEndsInScope command \<Rightarrow>
             (CW266_LOC_COMMAND_NOT_IN_DATA_TYPE,
              format_message table CW266_LOC_COMMAND_NOT_IN_DATA_TYPE [loc_key, command, ''scope''])
         | CommandNotFound command \<Rightarrow>
             (CW226_INVALID_LOC_COMMAND, format_message table CW226_INVALID_LOC_COMMAND [loc_key, command]))"

definition command_diagnostic :: "LocaleTable \<Rightarrow> ScopeRegistry option \<Rightarrow> rstr \<Rightarrow> LocEntry \<Rightarrow> LocCommandDiagnostic \<Rightarrow> LocDiagnostic" where
  "command_diagnostic table reg path entry diag =
     (let (code, msg) = loc_command_parts table diag (le_key entry) reg
      in \<lparr>ldg_file = path, ldg_line = lp_line (le_position entry), ldg_col = lp_column (le_position entry),
          ldg_code = ec_id code, ldg_severity = ec_severity code, ldg_message = msg, ldg_fix = None\<rparr>)"

definition validate_loc_project_commands ::
  "LocaleTable \<Rightarrow> LocService \<Rightarrow> Lang list option \<Rightarrow> LocScopeData \<Rightarrow> LocDiagnostic list" where
  "validate_loc_project_commands table svc langs data =
     concat (map (\<lambda>file.
         concat (map (\<lambda>entry.
             map (command_diagnostic table (ld_registry data) (lf_path file) entry) (validate_loc_commands entry SCOPE_ANY data))
           (lf_entries file)))
       (filter (\<lambda>file. lang_selected file langs) (ls_files svc)))"

text \<open>One file, as the language server checks it.\<close>

definition validate_loc_file_text :: "loc_env \<Rightarrow> LocaleTable \<Rightarrow> rstr \<Rightarrow> rstr \<Rightarrow> rstr set \<Rightarrow> rstr set \<Rightarrow> LocDiagnostic list" where
  "validate_loc_file_text E table s path union_keys extra_valid_refs =
     (case parse_loc_text E s path of
        Inl _ \<Rightarrow> []
      | Inr file \<Rightarrow> build_diagnostics E table file path union_keys extra_valid_refs (hardcoded_loc_set E) False)"

definition validate_parsed_loc_files ::
  "loc_env \<Rightarrow> LocaleTable \<Rightarrow> LocFile list \<Rightarrow> rstr \<Rightarrow> rstr set \<Rightarrow> rstr set \<Rightarrow> LocDiagnostic list" where
  "validate_parsed_loc_files E table files path union_keys extra_valid_refs =
     concat (map (\<lambda>file. build_diagnostics E table file path union_keys extra_valid_refs (hardcoded_loc_set E) False)
       (filter (\<lambda>file. \<not> lf_is_csv file) files))"

end
