(* ===== verification/Loc_Properties.thy ===== *)
theory Loc_Properties
  imports Loc_Pipeline Scope_Properties
begin

text \<open>
  What the localisation checks promise: quotes, the answers of the key index, the language filter, and the reports on
  commands.
\<close>

section \<open>Quotes\<close>











section \<open>The index\<close>

text \<open>What files and caches say: the languages they ship and the keys of each.\<close>

definition file_keys :: "loc_env \<Rightarrow> LocFile \<Rightarrow> rstr set" where
  "file_keys E f = set (map (\<lambda>e. lowercase E (le_key e)) (lf_entries f))"

definition keyed :: "loc_env \<Rightarrow> LocService \<Rightarrow> (Lang \<times> rstr list) list \<Rightarrow> Lang \<Rightarrow> rstr \<Rightarrow> bool" where
  "keyed E svc cached lang k \<longleftrightarrow>
     (\<exists>f \<in> set (ls_files svc). lf_lang f = Some lang \<and> k \<in> file_keys E f) \<or> (\<exists>ks. (lang, ks) \<in> set cached \<and> k \<in> set ks)"

definition ships :: "LocService \<Rightarrow> (Lang \<times> rstr list) list \<Rightarrow> Lang \<Rightarrow> bool" where
  "ships svc cached lang \<longleftrightarrow> (\<exists>f \<in> set (ls_files svc). lf_lang f = Some lang) \<or> lang \<in> fst ` set cached"

definition wanted :: "Lang list option \<Rightarrow> Lang \<Rightarrow> bool" where
  "wanted langs lang \<longleftrightarrow> (case langs of None \<Rightarrow> True | Some ls \<Rightarrow> lang \<in> set ls)"

lemma index_keys_fold:
  "fold (index_keys E) files (per, un) = (per', un') \<Longrightarrow>
     (k \<in> un' \<longleftrightarrow> k \<in> un \<or> (\<exists>f \<in> set files. lf_lang f \<noteq> None \<and> k \<in> file_keys E f)) \<and>
     (k \<in> lang_keys per' l \<longleftrightarrow> k \<in> lang_keys per l \<or> (\<exists>f \<in> set files. lf_lang f = Some l \<and> k \<in> file_keys E f))"
proof (induction files arbitrary: per un)
  case (Cons f files)
  obtain per1 un1 where step: "index_keys E f (per, un) = (per1, un1)" by (cases "index_keys E f (per, un)")
  have "fold (index_keys E) files (per1, un1) = (per', un')" using Cons.prems step by simp
  note ih = Cons.IH [OF this]
  have "(k \<in> un1 \<longleftrightarrow> k \<in> un \<or> lf_lang f \<noteq> None \<and> k \<in> file_keys E f) \<and>
      (k \<in> lang_keys per1 l \<longleftrightarrow> k \<in> lang_keys per l \<or> lf_lang f = Some l \<and> k \<in> file_keys E f)"
  proof (cases "lf_lang f")
    case None
    then show ?thesis using step by (simp add: index_keys_def)
  next
    case (Some lang)
    then have "per1 = AList.update lang (lang_keys per lang \<union> file_keys E f) per" "un1 = un \<union> file_keys E f"
      using step by (simp_all add: index_keys_def file_keys_def Let_def)
    then show ?thesis using Some by (auto simp: lang_keys_def update_conv')
  qed
  then show ?case using ih by auto
qed simp

lemma languages_fold:
  "distinct ls \<Longrightarrow>
   distinct (fold (\<lambda>f langs. case lf_lang f of Some l \<Rightarrow> if l \<in> set langs then langs else langs @ [l] | None \<Rightarrow> langs) files ls) \<and>
   set (fold (\<lambda>f langs. case lf_lang f of Some l \<Rightarrow> if l \<in> set langs then langs else langs @ [l] | None \<Rightarrow> langs) files ls) =
     set ls \<union> {l. \<exists>f \<in> set files. lf_lang f = Some l}"
proof (induction files arbitrary: ls)
  case (Cons f files)
  let ?ls = "case lf_lang f of Some l \<Rightarrow> if l \<in> set ls then ls else ls @ [l] | None \<Rightarrow> ls"
  have d: "distinct ?ls" using Cons.prems by (auto split: option.split)
  have s: "set ?ls = set ls \<union> {l. lf_lang f = Some l}" by (auto split: option.split)
  show ?case using Cons.IH [OF d] by (auto simp: s)
qed simp

lemma languages_set: "distinct (languages svc)" "set (languages svc) = {l. \<exists>f \<in> set (ls_files svc). lf_lang f = Some l}"
  using languages_fold [of "[]" "ls_files svc"] by (auto simp: languages_def)

definition index_says :: "(rstr \<Rightarrow> bool) \<Rightarrow> (Lang \<Rightarrow> rstr \<Rightarrow> bool) \<Rightarrow> (Lang \<Rightarrow> bool) \<Rightarrow> LocIndex \<Rightarrow> bool" where
  "index_says some_lang in_lang shipped idx \<longleftrightarrow>
     (\<forall>k. k \<in> li_union idx \<longleftrightarrow> some_lang k) \<and> (\<forall>l k. k \<in> lang_keys (li_per_language idx) l \<longleftrightarrow> in_lang l k) \<and>
     distinct (li_languages_with_data idx) \<and> (\<forall>l. l \<in> set (li_languages_with_data idx) \<longleftrightarrow> shipped l)"

lemma build_says:
  "index_says (\<lambda>k. \<exists>l. keyed E svc [] l k) (keyed E svc []) (\<lambda>l. ships svc [] l \<and> wanted langs l) (build_scoped E svc langs)"
proof -
  obtain per un where r: "fold (index_keys E) (ls_files svc) ([], {}) = (per, un)"
    by (cases "fold (index_keys E) (ls_files svc) ([], {})")
  show ?thesis
    using index_keys_fold [OF r] languages_set [of svc]
    by (auto simp: index_says_def build_scoped_def r Let_def keyed_def ships_def wanted_def lang_keys_def split: option.splits)
qed

lemma add_says:
  assumes "index_says p q r idx"
  shows "index_says (\<lambda>k. p k \<or> k \<in> ks) (\<lambda>l k. q l k \<or> l = lang \<and> k \<in> ks) (\<lambda>l. r l \<or> l = lang \<and> wanted langs l)
     (add_language langs lang ks idx)"
  using assms by (auto simp: index_says_def add_language_def Let_def wanted_def lang_keys_def update_conv' split: option.splits)

lemma cached_says:
  assumes "index_says p q r idx"
  shows "index_says (\<lambda>k. p k \<or> (\<exists>l ks. (l, ks) \<in> set cached \<and> k \<in> set ks)) (\<lambda>l k. q l k \<or> (\<exists>ks. (l, ks) \<in> set cached \<and> k \<in> set ks))
     (\<lambda>l. r l \<or> l \<in> fst ` set cached \<and> wanted langs l) (merge_cached_keys cached langs idx)"
  using assms
proof (induction cached arbitrary: p q r idx)
  case Nil
  then show ?case by (simp add: merge_cached_keys_def)
next
  case (Cons c cached)
  obtain l ks where c: "c = (l, ks)" by (cases c)
  note ih = Cons.IH [OF add_says [OF Cons.prems, of "set ks" l langs]]
  show ?case using ih unfolding index_says_def by (auto simp: c merge_cached_keys_def)
qed

lemma missing_says:
  "index_says p q r idx \<Longrightarrow> exists_any idx k = p k \<and> distinct (missing_synced_languages idx k) \<and>
     set (missing_synced_languages idx k) = {l. r l \<and> \<not> q l k}"
  by (auto simp: index_says_def exists_any_def missing_synced_languages_def lang_keys_def split: option.splits)

text \<open>C28. The index answers for every file. A key exists when some file with a language, or the cache, has it; and the
  languages missing a key are those that ship localisation, are wanted, and do not have it, each once.\<close>

theorem loc_index_exact:
  "exists_any (merge_cached_keys cached langs (build_scoped E svc langs)) k = (\<exists>lang. keyed E svc cached lang k) \<and>
   distinct (missing_synced_languages (merge_cached_keys cached langs (build_scoped E svc langs)) k) \<and>
   set (missing_synced_languages (merge_cached_keys cached langs (build_scoped E svc langs)) k) =
     {lang. ships svc cached lang \<and> wanted langs lang \<and> \<not> keyed E svc cached lang k}"
  using missing_says [OF cached_says [OF build_says], of cached langs E svc langs k]
  by (auto simp: keyed_def ships_def)
section \<open>The header alone\<close>

text \<open>A line without the newline that ends it, and the carriage return before that.\<close>

definition unline :: "rstr \<Rightarrow> rstr" where
  "unline p = (if p \<noteq> [] \<and> last p = CHR 0x0A then strip_cr (butlast p) else p)"

lemma concat_split_inclusive: "concat (split_inclusive s) = s"
  by (induction s) (auto split: list.splits)

lemma split_inclusive_Nil_iff [simp]: "split_inclusive s = [] \<longleftrightarrow> s = []"
  by (cases s) (auto split: list.splits)

lemma split_inclusive_nonempty: "p \<in> set (split_inclusive s) \<Longrightarrow> p \<noteq> []"
  by (induction s arbitrary: p) (auto split: list.splits if_splits)

lemma split_inclusive_last: "split_inclusive s = q # rest \<Longrightarrow> rest \<noteq> [] \<Longrightarrow> last q = CHR 0x0A"
proof (induction s arbitrary: q rest)
  case (Cons b s)
  then show ?case using split_inclusive_nonempty [of _ s] by (fastforce split: if_splits list.splits)
qed simp

lemma split_inclusive_prefix: "prefix qs (split_inclusive s) \<Longrightarrow> split_inclusive (concat qs) = qs"
proof (induction s arbitrary: qs)
  case (Cons b s)
  show ?case
  proof (cases qs)
    case Nil
    then show ?thesis by simp
  next
    case q: (Cons q qs')
    show ?thesis
    proof (cases "b = CHR 0x0A")
      case True
      then have "q = [b]" "prefix qs' (split_inclusive s)" using Cons.prems q by auto
      then show ?thesis using Cons.IH True q by simp
    next
      case False
      show ?thesis
      proof (cases "split_inclusive s")
        case Nil
        then show ?thesis using Cons.prems q False by (auto simp: prefix_Cons)
      next
        case (Cons l ls)
        then have "q = b # l" "prefix qs' ls" using \<open>prefix qs (split_inclusive (b # s))\<close> q False by auto
        then have "split_inclusive (concat (l # qs')) = l # qs'" using Cons.IH [of "l # qs'"] Cons by simp
        then show ?thesis using q False \<open>q = b # l\<close> by simp
      qed
    qed
  qed
qed simp

lemma split_inclusive_byte:
  "split_inclusive s =
     map (\<lambda>p. p @ [CHR 0x0A]) (butlast (split_byte (CHR 0x0A) s)) @
     (if last (split_byte (CHR 0x0A) s) = [] then [] else [last (split_byte (CHR 0x0A) s)])"
proof (induction s)
  case (Cons b s)
  obtain p ps where "split_byte (CHR 0x0A) s = p # ps" by (cases "split_byte (CHR 0x0A) s") auto
  then show ?case using Cons by (cases ps; cases "p = []") auto
qed simp

lemma lines_split_inclusive: "lines s = map unline (split_inclusive s)"
proof -
  have "CHR 0x0A \<notin> set (last (split_byte (CHR 0x0A) s))" by (rule split_byte_pieces [OF last_in_set]) simp
  then have "unline (last (split_byte (CHR 0x0A) s)) = last (split_byte (CHR 0x0A) s)"
    using last_in_set unfolding unline_def by metis
  moreover have "unline (p @ [CHR 0x0A]) = strip_cr p" for p by (simp add: unline_def)
  ultimately show ?thesis by (simp add: lines_def Let_def split_inclusive_byte)
qed

lemma eol_whitespace: "is_ascii_byte (CHR 0x0A)" "is_ascii_byte (CHR 0x0D)" "is_whitespace [CHR 0x0A]" "is_whitespace [CHR 0x0D]"
  by (simp_all add: is_ascii_byte_def is_whitespace_def whitespace_chars_def)

lemma blank_snoc:
  assumes "is_ascii_byte b" "is_whitespace [b]"
  shows "blank_or_comment (trim_start (p @ [b])) = blank_or_comment (trim_start p)"
proof (cases "dropWhile is_whitespace (chars p) = []")
  case True
  then have "\<forall>c \<in> set (chars p). is_whitespace c" by (simp add: dropWhile_eq_Nil_conv)
  then have "dropWhile is_whitespace (chars p @ [[b]]) = []" using assms(2) by (simp add: dropWhile_eq_Nil_conv)
  then show ?thesis unfolding trim_start_def chars_single_snoc [OF assms(1)] by (simp only: True concat.simps)
next
  case False
  then have "\<exists>c \<in> set (chars p). \<not> is_whitespace c" by (auto simp: dropWhile_eq_Nil_conv)
  then obtain c0 where "c0 \<in> set (chars p)" "\<not> is_whitespace c0" by blast
  then have "dropWhile is_whitespace (chars p @ [[b]]) = dropWhile is_whitespace (chars p) @ [[b]]"
    by (rule dropWhile_append1)
  moreover obtain c cs where dw: "dropWhile is_whitespace (chars p) = c # cs" using False by (cases "dropWhile is_whitespace (chars p)") auto
  moreover obtain x xs where "c = x # xs"
  proof -
    have "c \<in> set (dropWhile is_whitespace (chars p))" unfolding dw by simp
    then have "c \<noteq> []" using chars_nonempty set_dropWhileD by metis
    then show ?thesis using that by (cases c) simp_all
  qed
  ultimately show ?thesis
    by (simp add: trim_start_def chars_single_snoc assms(1) blank_or_comment_def starts_with_def)
qed

lemma blank_unline: "blank_or_comment (trim_start (unline p)) = blank_or_comment (trim_start p)"
proof (cases p rule: rev_cases)
  case (snoc q b)
  show ?thesis
  proof (cases "b = CHR 0x0A")
    case True
    have "blank_or_comment (trim_start (strip_cr q)) = blank_or_comment (trim_start q)"
      by (cases q rule: rev_cases) (auto simp: strip_cr_def blank_snoc eol_whitespace)
    then show ?thesis by (simp add: unline_def snoc True blank_snoc eol_whitespace)
  qed (simp add: unline_def snoc)
qed (simp add: unline_def)

definition header_of :: "rstr list \<Rightarrow> rstr option" where
  "header_of ls = List.find (\<lambda>l. \<not> blank_or_comment (trim_start l)) ls"

lemma header_line_find: "map_option fst (header_line (List.enumerate n ls)) = header_of ls"
  by (induction ls arbitrary: n) (auto simp: header_of_def)

lemma header_of_unline: "header_of (map unline ps) = map_option unline (header_of ps)"
  by (induction ps) (auto simp: header_of_def blank_unline)

text \<open>The lines up to the header.\<close>

fun to_header :: "rstr list \<Rightarrow> rstr list" where
  "to_header [] = []"
| "to_header (l # ls) = (if \<not> blank_or_comment (trim_start l) then [l] else l # to_header ls)"

lemma to_header_prefix: "prefix (to_header ls) ls"
  by (induction ls) auto

lemma header_of_to_header: "header_of (to_header ls) = header_of ls"
  by (induction ls) (auto simp: header_of_def)

lemma header_end_eq: "header_end ls e = e + length (concat (to_header ls))"
  by (induction ls arbitrary: e) auto

lemma take_header_end: "take (header_end (split_inclusive t) 0) t = concat (to_header (split_inclusive t))"
proof -
  obtain rest where "split_inclusive t = to_header (split_inclusive t) @ rest" using to_header_prefix by (auto simp: prefix_def)
  then have "t = concat (to_header (split_inclusive t)) @ concat rest"
    using concat_split_inclusive [of t] by (metis concat_append)
  then show ?thesis using header_end_eq [of "split_inclusive t" 0] by (metis add_0 append_eq_conv_conj)
qed

lemma parse_loc_text_lang:
  "(case parse_loc_text E s path of Inr f \<Rightarrow> lf_lang f | Inl _ \<Rightarrow> None) =
   (case header_of (lines (strip_boms s)) of
      None \<Rightarrow> None
    | Some h \<Rightarrow> (case find_sub '':'' h of None \<Rightarrow> None | Some c \<Rightarrow> key_to_language (trim (take c h))))"
proof (cases "header_line (List.enumerate 0 (lines (strip_boms s)))")
  case None
  then show ?thesis using header_line_find [of 0 "lines (strip_boms s)"] by (simp add: parse_loc_text_def)
next
  case (Some a)
  then show ?thesis using header_line_find [of 0 "lines (strip_boms s)"]
    by (cases a) (auto simp: parse_loc_text_def Let_def split_beta split: option.split)
qed

text \<open>Once the marks are gone, a prefix cut at a line end has none either.\<close>

lemma strip_boms_front: "chars s = c # cs \<Longrightarrow> c \<noteq> UTF8_BOM \<Longrightarrow> strip_boms s = s"
  using concat_chars [of s] by (simp add: strip_boms_def)

lemma strip_boms_line_prefix:
  assumes "t = strip_boms s" "prefix qs (split_inclusive t)"
  shows "strip_boms (concat qs) = concat qs"
proof (cases qs)
  case Nil
  then show ?thesis by (simp add: strip_boms_def)
next
  case (Cons q qs')
  then obtain rest where sp: "split_inclusive t = q # rest" using assms(2) by (auto simp: prefix_def)
  obtain b w where q: "q = b # w" using split_inclusive_nonempty [of q t] sp by (cases q) auto
  have t: "t = b # w @ concat rest" using concat_split_inclusive [of t] sp q by simp
  obtain n where drop: "dropWhile (\<lambda>c. c = UTF8_BOM) (chars s) = drop n (chars s)" by (metis dropWhile_eq_drop)
  have chars_t: "chars t = dropWhile (\<lambda>c. c = UTF8_BOM) (chars s)"
    unfolding assms(1) strip_boms_def drop using chars_take_drop [of n s] by simp
  then have head: "b # takeWhile is_cont (w @ concat rest) \<noteq> UTF8_BOM"
  proof -
    have "dropWhile (\<lambda>c. c = UTF8_BOM) (chars s) \<noteq> []" unfolding chars_t [symmetric] by (simp add: t)
    then have "hd (chars t) \<noteq> UTF8_BOM" unfolding chars_t by (rule hd_dropWhile)
    then show ?thesis by (simp add: t)
  qed
  have "hd (chars (concat qs)) \<noteq> UTF8_BOM"
  proof (cases "b = CHR 0xEF")
    case False
    then show ?thesis by (simp add: Cons q UTF8_BOM_def)
  next
    case True
    have "takeWhile is_cont (w @ concat rest) = takeWhile is_cont (w @ concat qs')"
    proof (cases "CHR 0x0A \<in> set w")
      case True
      have "\<not> is_cont (CHR 0x0A)" by (simp add: is_cont_def)
      then have "takeWhile is_cont (w @ x) = takeWhile is_cont w" for x using True by (meson takeWhile_append1)
      then show ?thesis by simp
    next
      case no: False
      have "last (b # w) \<noteq> CHR 0x0A" using no True last_in_set [of "b # w"] by auto
      then have "rest = []" using split_inclusive_last [OF sp] q by blast
      then show ?thesis using assms(2) sp Cons q by simp
    qed
    then show ?thesis using head by (simp add: Cons q)
  qed
  moreover have "chars (concat qs) = hd (chars (concat qs)) # tl (chars (concat qs))" by (simp add: Cons q)
  ultimately show ?thesis using strip_boms_front by blast
qed

text \<open>C29. The language filter reads the header only. Parsing a file up to its first line that is neither blank nor a
  comment finds the language that parsing the whole file finds.\<close>

theorem header_language_agrees:
  "loc_header_language E s path = (case parse_loc_text E s path of Inr f \<Rightarrow> lf_lang f | Inl _ \<Rightarrow> None)"
proof -
  let ?t = "strip_boms s"
  let ?H = "concat (to_header (split_inclusive ?t))"
  have "strip_boms ?H = ?H" by (rule strip_boms_line_prefix [OF refl to_header_prefix])
  then have "header_of (lines (strip_boms ?H)) = header_of (lines ?t)"
    by (simp add: lines_split_inclusive split_inclusive_prefix [OF to_header_prefix] header_of_unline header_of_to_header)
  then show ?thesis by (simp add: loc_header_language_def Let_def take_header_end parse_loc_text_lang)
qed
section \<open>Commands\<close>

text \<open>A wrong scope is the only result that reports a requirement, and the requirement fails.\<close>

definition wrong_backed :: "ScopeRegistry \<Rightarrow> ScopeResult \<Rightarrow> bool" where
  "wrong_backed reg r \<longleftrightarrow>
     (case r of
        WrongScope c cur expected \<Rightarrow> cur \<noteq> SCOPE_ANY \<and> expected \<noteq> [] \<and> list_all (\<lambda>s. \<not> is_subscope_or_eq reg cur s) expected
      | _ \<Rightarrow> True)"

lemma meta_backed: "pred_option (\<lambda>r. wrong_backed reg (fst r) \<and> registry (snd r) = registry ctx) (resolve_meta_keyword lower ctx)"
proof -
  have pops: "registry ((pop_scope ^^ n) ctx) = registry ctx" for n
    by (induction n) (simp_all add: pop_scope_def)
  have steps: "pred_option (\<lambda>r. wrong_backed reg (fst r) \<and> registry (snd r) = registry ctx) (Some (apply_prev n ctx))"
    "pred_option (\<lambda>r. wrong_backed reg (fst r) \<and> registry (snd r) = registry ctx) (Some (apply_from n ctx))"
    "pred_option (\<lambda>r. wrong_backed reg (fst r) \<and> registry (snd r) = registry ctx) (Some (apply_from n (push_scope (ctx_root ctx) ctx)))"
    for n
    by (simp_all add: apply_prev_def apply_from_def Let_def wrong_backed_def pops push_scope_def)
  have stays: "pred_option (\<lambda>r. wrong_backed reg (fst r) \<and> registry (snd r) = registry ctx) (Some (NewScope s [], ctx))"
    "pred_option (\<lambda>r. wrong_backed reg (fst r) \<and> registry (snd r) = registry ctx) (Some (NewScope s [], push_scope s ctx))" for s
    by (simp_all add: wrong_backed_def push_scope_def)
  show ?thesis unfolding resolve_meta_keyword_def by (intro pred_option_if steps stays) simp
qed

lemma single_backed:
  "wrong_backed (registry ctx) (fst (resolve_single_with_lower key lower ctx)) \<and>
   registry (snd (resolve_single_with_lower key lower ctx)) = registry ctx"
proof (cases "resolve_meta_keyword lower ctx")
  case None
  then show ?thesis
    by (auto simp: resolve_single_with_lower_def wrong_backed_def link_valid_def push_scope_def list_ex_iff list_all_iff split: option.split)
next
  case (Some r)
  then show ?thesis using meta_backed [of "registry ctx" ctx lower]
    by (auto simp: resolve_single_with_lower_def wrong_backed_def push_scope_def)
qed

lemmas wrong_backed_single = single_backed [THEN conjunct1]
lemmas registry_single = single_backed [THEN conjunct2]

lemma dotted_loop_backed:
  "wrong_backed reg lr \<Longrightarrow> registry ctx = reg \<Longrightarrow>
     wrong_backed reg (fst (dotted_loop segs lr ctx)) \<and> registry (snd (dotted_loop segs lr ctx)) = reg"
proof (induction segs arbitrary: lr ctx)
  case (Cons seg segs)
  obtain r ctx' where r: "resolve_single seg ctx = (r, ctx')" by (cases "resolve_single seg ctx")
  have w: "wrong_backed reg r" using wrong_backed_single [where ctx = ctx and key = seg and lower = "lower_key seg"] r Cons.prems(2) by (simp add: resolve_single_def)
  have c: "registry ctx' = reg" using registry_single [where ctx = ctx and key = seg and lower = "lower_key seg"] r Cons.prems(2) by (simp add: resolve_single_def)
  show ?case using Cons.IH [OF w c] w c by (cases r) (simp_all add: r)
qed simp

lemma change_scope_backed:
  "wrong_backed (registry ctx) (fst (change_scope key ctx)) \<and> registry (snd (change_scope key ctx)) = registry ctx"
proof -
  have any: "wrong_backed reg (NewScope t ks)" "wrong_backed reg AnyScope" "wrong_backed reg NotFound" for reg t ks
    by (simp_all add: wrong_backed_def)
  have reg: "registry (push_scope t ctx) = registry ctx" for t by (simp add: push_scope_def)
  show ?thesis
    using wrong_backed_single registry_single dotted_loop_backed [OF any(3) refl]
    by (auto simp: change_scope_def Let_def any reg change_scope_dotted_def split: option.split)
qed

definition loc_registry :: "LocScopeData \<Rightarrow> ScopeRegistry" where
  "loc_registry data =
     (case ld_registry data of Some r \<Rightarrow> r | None \<Rightarrow> from_hardcoded (game_to_engine (ld_game data)))"

lemma classify_wrong:
  assumes "change_scope seg ctx = (result, ctx')" "classify_scope_result result is_last = Wrong c cur expected"
  shows "cur \<noteq> SCOPE_ANY \<and> expected \<noteq> [] \<and> list_all (\<lambda>s. \<not> is_subscope_or_eq (registry ctx) cur s) expected"
  using change_scope_backed [of ctx seg] assms by (cases result) (auto simp: wrong_backed_def split: if_splits)

lemma change_scope_registry: "change_scope seg ctx = (result, ctx') \<Longrightarrow> registry ctx' = registry ctx"
  using change_scope_backed [of ctx seg] by simp

text \<open>What a report needs: a wrong scope names a scope that no expected one admits, an end in a scope needs terminal
  commands and a registry of scripted localisation, an unknown command needs a registry of scopes and a
  segment no registry knows.\<close>

definition report_backed :: "LocScopeData \<Rightarrow> LocCommandDiagnostic \<Rightarrow> bool" where
  "report_backed data d \<longleftrightarrow>
     (case d of
        WrongScopeCommand c cur expected \<Rightarrow>
          cur \<noteq> SCOPE_ANY \<and> expected \<noteq> [] \<and> list_all (\<lambda>s. \<not> is_subscope_or_eq (loc_registry data) cur s) expected
      | ChainEndsInScope c \<Rightarrow> ld_terminal_commands data \<noteq> {} \<and> ld_scripted_locs data \<noteq> None
      | CommandNotFound seg \<Rightarrow>
          ld_registry data \<noteq> None \<and> \<not> reads_a_variable seg data \<and> \<not> is_scripted_loc seg data \<and>
          \<not> is_terminal_command (to_ascii_lowercase seg) (ld_terminal_commands data))"


lemma report_backed_simps [simp]:
  "report_backed data (ChainEndsInScope c) \<longleftrightarrow> ld_terminal_commands data \<noteq> {} \<and> ld_scripted_locs data \<noteq> None"
  "report_backed data (CommandNotFound seg) \<longleftrightarrow>
     ld_registry data \<noteq> None \<and> \<not> reads_a_variable seg data \<and> \<not> is_scripted_loc seg data \<and>
     \<not> is_terminal_command (to_ascii_lowercase seg) (ld_terminal_commands data)"
  by (simp_all add: report_backed_def)

lemma command_loop_backed:
  "registry ctx = loc_registry data \<Longrightarrow>
     list_all (report_backed data) (command_loop data cmd segs ctx) \<and> length (command_loop data cmd segs ctx) \<le> 1"
proof (induction segs arbitrary: ctx)
  case (Cons seg segs)
  obtain result ctx' where ch: "change_scope seg ctx = (result, ctx')" by (cases "change_scope seg ctx")
  have c': "registry ctx' = loc_registry data" using change_scope_registry [OF ch] Cons.prems by simp
  note ih = Cons.IH [OF c'] and any = Cons.IH [of "push_scope SCOPE_ANY ctx"] and any' = Cons.IH [of "push_scope SCOPE_ANY ctx'"]
  have reg: "registry (push_scope SCOPE_ANY ctx) = loc_registry data" "registry (push_scope SCOPE_ANY ctx') = loc_registry data"
    using c' Cons.prems by (simp_all add: push_scope_def)
  show ?case
  proof (cases "classify_segment (to_ascii_lowercase seg) (segs = []) data")
    case (ScopeChange terminal)
    show ?thesis
    proof (cases "classify_scope_result result (segs = [])")
      case (Wrong c cur expected)
      then show ?thesis using classify_wrong [OF ch Wrong] ScopeChange ch Cons.prems by (simp add: report_backed_def)
    qed (use ScopeChange ch ih any' reg in \<open>simp_all add: Let_def\<close>)
  qed (use any reg in \<open>simp_all add: Let_def\<close>)
qed simp

lemma classify_ScopeChange: "classify_segment lower is_last data = ScopeChange terminal \<Longrightarrow> terminal = is_terminal_command lower (ld_terminal_commands data)"
  by (auto simp: classify_segment_def Let_def split: if_splits)

lemma jomini_chain_backed:
  "registry ctx = loc_registry data \<Longrightarrow>
     list_all (report_backed data) (jomini_chain_loop data lacks cmds lenient ctx) \<and> length (jomini_chain_loop data lacks cmds lenient ctx) \<le> 1"
proof (induction cmds arbitrary: lenient ctx)
  case (Cons cmd cmds)
  let ?seg = "jc_key cmd"
  obtain result ctx' where ch: "change_scope ?seg ctx = (result, ctx')" by (cases "change_scope ?seg ctx")
  have c': "registry ctx' = loc_registry data" using change_scope_registry [OF ch] Cons.prems by simp
  have reg: "registry (push_scope SCOPE_ANY ctx) = loc_registry data" "registry (push_scope SCOPE_ANY ctx') = loc_registry data"
    using c' Cons.prems by (simp_all add: push_scope_def)
  note ih = Cons.IH [OF c'] and any = Cons.IH [OF reg(1)] and any' = Cons.IH [OF reg(2)]
  show ?case
  proof (cases "classify_segment (to_ascii_lowercase ?seg) (cmds = []) data")
    case (ScopeChange terminal)
    note terminal = classify_ScopeChange [OF ScopeChange]
    show ?thesis
    proof (cases "classify_scope_result result (cmds = [])")
      case (Wrong c cur expected)
      then show ?thesis using classify_wrong [OF ch Wrong] ScopeChange ch Cons.prems by (simp add: report_backed_def)
    qed (use ScopeChange terminal ch ih any' in \<open>simp_all add: Let_def\<close>)
  qed (use any in \<open>simp_all add: Let_def\<close>)
qed simp

lemma build_loc_ctx_registry:
  "registry (build_loc_ctx data (if ld_registry data \<noteq> None then Hoi4 else game_to_engine (ld_game data)) s) = loc_registry data"
  by (simp add: build_loc_ctx_def loc_registry_def context_from_registry_def context_new_def split: option.split)

lemma length_concat_le: "(\<And>x. x \<in> set xs \<Longrightarrow> length (f x) \<le> 1) \<Longrightarrow> length (concat (map f xs)) \<le> length xs"
proof (induction xs)
  case (Cons x xs)
  have "length (f x) \<le> 1" "length (concat (map f xs)) \<le> length xs" using Cons by simp_all
  then show ?case by simp
qed simp

lemma command_string_backed:
  "registry (build_loc_ctx data g s) = loc_registry data \<Longrightarrow>
     list_all (report_backed data) (validate_command_string cmd s g data) \<and> length (validate_command_string cmd s g data) \<le> 1"
  unfolding validate_command_string_def using command_loop_backed by simp

lemma jomini_backed:
  "registry (build_loc_ctx data g s) = loc_registry data \<Longrightarrow>
     list_all (report_backed data) (validate_jomini_chain chain s g data) \<and> length (validate_jomini_chain chain s g data) \<le> 1"
  unfolding validate_jomini_chain_def Let_def using jomini_chain_backed by simp

text \<open>C30. Command reports are backed. Every report of a value's commands names what it needs: a wrong scope is not the
  unknown scope and lies below none of the scopes it names, an unknown command is reported only with a
  registry, and is no terminal, no known variable and no scripted localisation; and each command and each
  chain gets one report at most.\<close>

theorem command_reports_backed:
  "list_all (report_backed data) (validate_loc_commands entry initial_scope data) \<and>
   length (validate_loc_commands entry initial_scope data) \<le> length (le_commands entry) + length (le_jomini_commands entry)"
proof -
  let ?g = "if ld_registry data \<noteq> None then Hoi4 else game_to_engine (ld_game data)"
  let ?A = "concat (map (\<lambda>cmd. validate_command_string cmd initial_scope ?g data) (le_commands entry))"
  let ?B = "concat (map (\<lambda>chain. validate_jomini_chain chain initial_scope ?g data) (le_jomini_commands entry))"
  note a = command_string_backed [OF build_loc_ctx_registry] and b = jomini_backed [OF build_loc_ctx_registry]
  have "list_all (report_backed data) (?A @ ?B)" using a b by (fastforce simp: list_all_iff)
  moreover have "length ?A \<le> length (le_commands entry)" "length ?B \<le> length (le_jomini_commands entry)"
    using a b by (intro length_concat_le; blast)+
  moreover have "validate_loc_commands entry initial_scope data = ?A @ ?B"
    by (simp add: validate_loc_commands_def Let_def)
  ultimately show ?thesis by (simp only: length_append add_mono)
qed
section \<open>Concrete runs\<close>

text \<open>The column of a value counts the bytes before it, not its characters.\<close>

lemma version_number_suffix: "\<exists>ds. r = ds @ snd (version_number r)"
  by (auto simp: version_number_def Let_def intro: exI [of _ "take (length (takeWhile is_digit_byte r)) r"])

lemma column_counts_bytes:
  assumes "parse_entry E line i name = Inr (Some entry)"
  shows "\<exists>before. line = before @ le_desc entry \<and> le_desc_column entry = length before"
proof -
  let ?t = "trim_start line"
  obtain c where c: "find_sub '':'' ?t = Some c" using assms by (auto simp: parse_entry_def Let_def split: if_splits option.splits)
  obtain v r where vr: "version_number (drop (c + 1) ?t) = (v, r)" by (cases "version_number (drop (c + 1) ?t)")
  define d where "d = (case strip_prefix r '' '' of Some x \<Rightarrow> x | None \<Rightarrow> r)"
  have e: "le_desc entry = d \<and> le_desc_column entry = length line - length ?t + (length ?t - length d)"
    using assms c vr by (auto simp: parse_entry_def d_def Let_def split: if_splits)
  obtain ds where ds: "drop (c + 1) ?t = ds @ r" using version_number_suffix [of "drop (c + 1) ?t"] vr by auto
  have "\<exists>sp. r = sp @ d" unfolding d_def by (cases "strip_prefix r '' ''") (auto dest: strip_prefix_SomeD)
  then obtain sp where sp: "r = sp @ d" by blast
  obtain ws where ws: "line = ws @ ?t" using trim_start_suffix by blast
  have t: "?t = take (c + 1) ?t @ ds @ sp @ d" using ds sp by (metis append_assoc append_take_drop_id)
  then have "length ?t = length (take (c + 1) ?t @ ds @ sp) + length d" by (metis append_assoc length_append)
  moreover have "length line = length ws + length ?t" using ws by (metis length_append)
  ultimately have "le_desc_column entry = length (ws @ take (c + 1) ?t @ ds @ sp)" using e by simp
  moreover have "line = (ws @ take (c + 1) ?t @ ds @ sp) @ d" using ws t by simp
  ultimately show ?thesis using e by blast
qed

text \<open>The column of the fix has sixteen bits.\<close>

lemma fix_column_wraps:
  assumes "le_desc entry = ''a''" "le_desc_column entry = 65536"
  shows "map_option (\<lambda>f. map (\<lambda>e. pos_col (range_start (edit_range e))) (fix_edits f)) (cw268_quote_fix entry) = Some [0]"
proof -
  have t: "trim ''a'' = ''a''" "trim_start ''a'' = ''a''" "trim_matches quote ''a'' = ''a''" "chars ''a'' = [''a'']" by code_simp+
  show ?thesis by (simp add: cw268_quote_fix_def assms t fix_replace_def Let_def)
qed

text \<open>A row of a CSV file with a colon is read as the header of a YAML file.\<close>

lemma csv_text_is_checked:
  "map ldg_code (validate_loc_file_text plain_env [] ''KEY;a: b;c'' ''x.csv'' {} {}) = [''CW256'']"
  by code_simp

text \<open>With no terminal commands, a registry alone reports an unknown chain.\<close>

lemma unknown_without_terminals:
  "validate_jomini_chain [JominiCommand ''abc'' []] SCOPE_ANY Hoi4
     (loc_scope_data_default\<lparr>ld_registry := Some registry_default, ld_scripted_locs := Some (\<lambda>_. False)\<rparr>) = [CommandNotFound ''abc'']"
  by code_simp

text \<open>Of two English entries for a key the later one represents it.\<close>

lemma later_english_wins:
  assumes "le_key a = k" "le_key b = k" "le_commands a \<noteq> []" "le_commands b \<noteq> []"
    and "lf_lang f = Some English" "lf_lang g = Some English" "lf_entries f = [a]" "lf_entries g = [b]"
    and "ls_files svc = [f, g]"
  shows "index_entry_of (build_index E svc) (lowercase E k) = Some b"
  using assms
  by (simp add: index_entry_of_def build_index_def build_scoped_def index_keys_def index_file_entries_def index_entry_def Let_def
      update_conv' split: option.split)

text \<open>The project's own set of keys also has those of files without a language; the index does not.\<close>

lemma project_keys_all: "project_keys E svc = (\<Union>f \<in> set (ls_files svc). file_keys E f)"
  by (auto simp: project_keys_def file_keys_def)

lemma index_union_labelled:
  "li_union (build_index E svc) = (\<Union>f \<in> {f \<in> set (ls_files svc). lf_lang f \<noteq> None}. file_keys E f)"
  using build_says [of E svc None] by (fastforce simp: index_says_def build_index_def keyed_def)

end
