(* ===== verification/Spec2Isabelle.thy ===== *)
theory Spec2Isabelle
  imports Parser_Properties Parser_Comments Scope_Properties Path_Match Suggested_Fix Inline_Ignore Suggest
    Index_Properties Rule_Set_Properties Directive_Properties Converter_Properties Loader_Properties
    Discovery_Properties Loc_Properties
begin

text \<open>
  A model of the core of CWTools (the Rust workspace \<open>src/cwtools-rs\<close>), the engine that reads
  and validates the script files of Paradox games. File names below are relative to
  \<open>src/cwtools-rs/crates\<close>.

  \<^bold>\<open>The program.\<close> A script file is parsed into an arena of nodes (\<open>parser\<close>); every word of the
  file is interned in a process-wide table and kept as a token (\<open>string_table\<close>). Configuration
  files written in the same language declare rules (\<open>rules\<close>) and the scopes and scope links of
  a game (\<open>game\<close>). The validator (\<open>validation\<close>) walks the tree with the rules, and follows the
  scopes as it enters clauses; the index (\<open>index\<close>) decides which files hold which types. A
  diagnostic can carry suggested edits, and comments in the file can suppress it.

  \<^bold>\<open>The theories\<close>, in the order of the import graph:

  \<^item> \<open>Rust_Prelude\<close>, \<open>Rust_Strings\<close>: the Rust standard library as the program uses it. A string is
    its list of UTF-8 bytes, a \<open>char\<close> the byte sequence of its encoding, a \<open>u32\<close> a 32-bit word, a
    \<open>Vec\<close> a list, a hash map an association list whose order nobody may rely on (where the code
    iterates over one, the order is a parameter).
  \<^item> \<open>String_Table\<close> (\<open>string_table/src/string_table.rs\<close>): the record \<open>string_table\<close> of 64 shards.
    \<open>intern\<close> is the composition of the read-locked fast path and the write-locked slow path,
    which are also separate steps, so that interleaved calls of several threads are covered. The
    hash function is an arbitrary parameter.
  \<^item> \<open>Ast\<close>, \<open>Parser_Lexer\<close>, \<open>Parser\<close> (\<open>parser/src/ast.rs\<close>, \<open>parser/src/parser.rs\<close>): the arena, the cursor
    with its position bookkeeping, one definition per scanner, and the recursive descent
    grammar with the nesting limit of 128 clauses, its backtracking and its error messages.
    \<open>Parser_Moves\<close>, \<open>Parser_Derivation\<close> and \<open>Parser_Tree\<close> hold the lemmas: what every function does
    to the state, an abstract grammar the functions refine, and the invariants of the tree by
    rule induction over that grammar. \<open>Parser_Properties\<close> and \<open>Parser_Comments\<close> state the results.
  \<^item> \<open>Game_Constants\<close>, \<open>Scope_Links\<close>, \<open>Scope_Registry\<close>, \<open>Scope_Engine\<close> (\<open>game/src/constants.rs\<close>,
    \<open>game/src/scope.rs\<close>, \<open>game/src/scope_engine\<close>, \<open>game/src/scope_registry.rs\<close>): the hardcoded scopes
    and links of each game, the registry built from them or from configuration, the subscope
    walk, and the scope-transition machine (\<open>this\<close>, \<open>root\<close>, \<open>prev\<close>, \<open>from\<close>, links, dotted chains,
    event targets, saved and restored contexts). \<open>Scope_Properties\<close> states the results; its locale
    \<open>scope_order\<close> holds the laws of subscopes and is interpreted on the registry's own test.
  \<^item> \<open>Path_Match\<close> (\<open>index/src/path_match.rs\<close> and \<open>PathOptions\<close> of \<open>rules/src/rules_types.rs\<close>): which files
    a type covers, proved against the definition of a directory as a list of segments.
  \<^item> \<open>Ref_Count\<close>, \<open>Name_Index\<close>, \<open>Type_Index\<close>, \<open>Type_Index_Lemmas\<close>, \<open>Index_Properties\<close>
    (\<open>index/src/type_index.rs\<close>, \<open>index/src/dynamic_values.rs\<close>): what files contribute to the index and how
    it is taken back when a file changes. The locale \<open>ref_counts\<close> states what any counted table
    promises (adding and dropping a file, what is counted afterwards); it is interpreted on plain
    counters, on the two-level tables of named values and on the per-type sets of instances.
    \<open>Type_Index\<close> has the vectors of instances with the positions of each file's entries, removal by
    \<open>swap_remove\<close> with the repair of the moved entry's position, and the outline of a file.
  \<^item> \<open>Rust_Numbers\<close>, \<open>Rules_Types\<close>, \<open>Rule_Set\<close>, \<open>Rule_Set_Properties\<close> (\<open>rules/src/rules_types.rs\<close>, \<open>merge_ruleset\<close>
    of \<open>rules/src/ruleset_loader.rs\<close>): numbers as Rust parses and prints them, the fields, rules and
    type definitions of a configuration, the rule set with the tables \<open>reindex\<close> builds, alias
    patterns, and the lookups, which answer as the scans they replace.
  \<^item> \<open>Field_Parser\<close>, \<open>Field_Properties\<close> (\<open>rules/src/rules_converter/field_parser.rs\<close>): from the text of a
    key or value to the field it stands for: keywords, bracket forms, ranges, type references. The
    tables list the forms in the order the code tries them; the lemmas show that no keyword is
    shadowed, that payloads are kept and that ranges are read back as printed.
  \<^item> \<open>Comment_Directives\<close>, \<open>Directive_Properties\<close> (\<open>comment_directives.rs\<close> there): the option lines before a
    rule, as a table and as a scan, with round trips for cardinalities and replaced scopes, and the
    check that reports malformed ones.
  \<^item> \<open>Rules_Source\<close>, \<open>Rules_Converter\<close>, \<open>Types_Converter\<close>, \<open>Config_Converter\<close> (\<open>mod.rs\<close>, \<open>types.rs\<close>,
    \<open>subtypes.rs\<close>, \<open>enums.rs\<close>, \<open>scopes_links.rs\<close> there): from a parsed configuration file to a rule set.
    Reading a node is partial, and \<open>Converter_Totality\<close> shows that no read fails on what the parser
    returns; \<open>Converter_Properties\<close> shows which comments reach which rule, and that the aliases of a
    file are found in the tables of its rule set.
  \<^item> \<open>Post_Process\<close> (\<open>rules/src/post_process.rs\<close>): the passes over a loaded rule set: value scope markers,
    inlining of single aliases, colour and country tag fields, ignored fields. \<open>Post_Process_Passes\<close> shows
    that the cache of clean bodies changes no answer and that each pass is a plain recursion over the
    rules; \<open>Alias_Expansion\<close> relates the expander (dependency order, ten levels of references, node
    budget) to the substitution of alias bodies for references. The locale \<open>rule_marker\<close> carries a
    marker through the expansion; it is interpreted on the marker tests of the passes, and
    \<open>Post_Process_Properties\<close> states the results.
  \<^item> \<open>Text_Decoding\<close>, \<open>Glob_Match\<close>, \<open>File_Discovery\<close>, \<open>Discovery_Properties\<close>
    (\<open>file_manager/src/file_manager.rs\<close>): the bytes of a file to text, with its limits; the globs of ignore
    lists; the walk of a directory with its budget of files, mod descriptors, and the layers of several
    mods over the game's own files, where the highest source wins a logical path and a
    \<open>replace_path\<close> hides what lies below. The operating system (listings, kinds, lengths, bytes) is a
    parameter; a listing is a finite tree, so the walk recurses over it. The glob matcher's loop
    terminates by a lexicographic measure of its two cursors and its last star, and decides the
    declarative relation of a pattern and a text.
  \<^item> \<open>Config_Validation\<close>, \<open>Ruleset_Loader\<close>, \<open>Loader_Properties\<close> (\<open>rules/src/config_validation.rs\<close>,
    \<open>rules/src/ruleset_loader.rs\<close>): the load of a configuration directory, which composes the parser, the
    converter, post-processing and the lookup tables. The directory listing and the bytes of the files are
    parameters. It always returns, and reports exactly the undefined references.
  \<^item> \<open>Error_Codes\<close> (\<open>error_codes/src/lib.rs\<close>): the catalogue of diagnostics and their messages; the tables of the
    other languages are a parameter.
  \<^item> \<open>Loc_String\<close>, \<open>Loc_File\<close>, \<open>Loc_Validation\<close>, \<open>Loc_Service\<close>, \<open>Loc_Index\<close>, \<open>Loc_Scopes\<close>, \<open>Loc_Pipeline\<close>,
    \<open>Loc_Properties\<close> (the files of \<open>localization/src\<close>): the elements of a localisation value (references,
    brackets, Jomini chains), YAML and CSV files, the checks of an entry, loading with the language filter, the
    index of keys, commands followed through the scope engine of \<open>Scope_Engine\<close>, and the diagnostics made of all
    that. The scan of a value keeps a record of brackets that never close; it is proved to hold exactly
    those and to change no result.
  \<^item> \<open>Suggested_Fix\<close> (\<open>parser/src/fix.rs\<close>): edits of source ranges, their planning and application.
  \<^item> \<open>Inline_Ignore\<close> (\<open>validation/src/inline_ignore.rs\<close>) and \<open>Suggest\<close>
    (\<open>validation/src/rule_core/suggest.rs\<close>): suppression comments, and the bounded edit distance
    behind did-you-mean suggestions.

  \<^bold>\<open>Fuel and termination.\<close> The grammar's functions call each other through the position of the
  cursor, not through a subterm, so they carry fuel. \<open>parse_string\<close> starts them with five times
  the length of the input plus five: every chain of calls that does not consume a byte is
  shorter than five, and \<open>parse_string_total\<close> proves that this fuel is always enough, so that the
  model never returns \<open>None\<close>. The loops that scan forward (\<open>Path_Match\<close>, \<open>Rust_Strings\<close>) terminate by a
  measure on the rest of the text; the walk up the subscopes by the number of scopes not
  visited yet.
  The conversion of a configuration file follows the indices of the arena, so it carries fuel for
  the levels of clauses: 258, since the parser's nesting limit leaves at most 256 levels of nodes
  and the outermost list of children takes one more; \<open>every_text_converts\<close> shows it is never used up.

  \<^bold>\<open>Errors.\<close> A Rust \<open>Result\<close> is a sum with the error on the left, an \<open>Option\<close> an \<open>option\<close>; an arithmetic
  overflow or a slice out of bounds, which panic in the source, are \<open>None\<close> of the operation, and
  the properties say when they cannot happen.

  \<^bold>\<open>Not modelled.\<close> Memory layout, locks as such and allocation; hashing, time and tracing; the
  disk cache and the command line (operating system calls and third-party
  serialisation); the language server (protocol glue). The rule engine, the collectors of the index and the per-game checks are not modelled. The text of a floating point value (\<open>f64::to_string\<close>) is a parameter of the converter.
\<close>

end
